(* ===== verification/Prelude.thy ===== *)
theory Prelude
  imports Main
begin

text \<open>
  What every component of the development shares: the two effects the TypeScript sources have
  (a promise that may reject, and reads and writes of an outside world), the JavaScript idioms
  that HOL does not have (nullish coalescing, decimal printing of a number inside a template
  string), and the collections of rewrite rules the component proofs pass to the simplifier.
\<close>

section \<open>Collections of rewrite rules\<close>

named_theorems hold_defs \<open>definitions of the payment-hold operations\<close>
named_theorems hold_frame \<open>what a payment-hold operation leaves alone\<close>
named_theorems draft_defs \<open>definitions of the draft reducer's operations\<close>
named_theorems draft_frame \<open>what a draft reduction leaves alone\<close>

section \<open>Effects\<close>

text \<open>
  A thrown value, as far as the sources look at it: its \<open>code\<close> property when it has a string one,
  and the message that \<open>err instanceof Error ? err.message : String(err)\<close> reads off it.
\<close>

record exn =
  exn_code :: "string option"
  exn_msg :: string

text \<open>
  An asynchronous call on a world \<open>'w\<close>: it resolves (\<open>Inr\<close>) or rejects (\<open>Inl\<close>), and the world
  may have moved meanwhile in either case.
\<close>

type_synonym ('w, 'e, 'a) eff = "'w \<Rightarrow> ('e + 'a) \<times> 'w"

definition ereturn :: "'a \<Rightarrow> ('w, 'e, 'a) eff" where
  "ereturn a w = (Inr a, w)"

definition ethrow :: "'e \<Rightarrow> ('w, 'e, 'a) eff" where
  "ethrow e w = (Inl e, w)"

text \<open>\<open>await m\<close> followed by the rest of the function: a rejection skips the rest.\<close>

definition ebind :: "('w, 'e, 'a) eff \<Rightarrow> ('a \<Rightarrow> ('w, 'e, 'b) eff) \<Rightarrow> ('w, 'e, 'b) eff" where
  "ebind m f w = (case m w of (Inl e, w') \<Rightarrow> (Inl e, w') | (Inr a, w') \<Rightarrow> f a w')"

lemma ereturn_iff [simp]: "ereturn a w = (r, w') \<longleftrightarrow> r = Inr a \<and> w' = w"
  by (auto simp: ereturn_def)

lemma ethrow_iff [simp]: "ethrow e w = (r, w') \<longleftrightarrow> r = Inl e \<and> w' = w"
  by (auto simp: ethrow_def)

lemma ebind_Inr_iff:
  "ebind m f w = (Inr b, w'') \<longleftrightarrow> (\<exists>a w'. m w = (Inr a, w') \<and> f a w' = (Inr b, w''))"
  by (auto simp: ebind_def split: prod.splits sum.splits)

lemma ebind_Inl_iff:
  "ebind m f w = (Inl e, w'') \<longleftrightarrow>
     m w = (Inl e, w'') \<or> (\<exists>a w'. m w = (Inr a, w') \<and> f a w' = (Inl e, w''))"
  by (auto simp: ebind_def split: prod.splits sum.splits)

text \<open>
  What holds of the result of an effect: \<open>Q\<close> of a value and the world after it, \<open>E\<close> of a rejection.
  Pushing it through \<open>ebind\<close> turns a statement about a whole function into one about its last call.
\<close>

definition yields :: "('e + 'a) \<times> 'w \<Rightarrow> ('a \<Rightarrow> 'w \<Rightarrow> bool) \<Rightarrow> ('e \<Rightarrow> 'w \<Rightarrow> bool) \<Rightarrow> bool" where
  "yields r Q E \<longleftrightarrow> (case r of (Inl e, w) \<Rightarrow> E e w | (Inr a, w) \<Rightarrow> Q a w)"

lemma yields_simps [simp]:
  "yields (Inl e, w) Q E = E e w" "yields (Inr a, w) Q E = Q a w"
  "yields (ereturn a w) Q E = Q a w" "yields (ethrow e w) Q E = E e w"
  by (simp_all add: yields_def ereturn_def ethrow_def)

lemma yields_ebind [simp]:
  "yields (ebind m f w) Q E = yields (m w) (\<lambda>a w'. yields (f a w') Q E) E"
  by (simp add: yields_def ebind_def split: prod.splits sum.splits)

lemma yields_weaken:
  assumes "yields r Q E" "\<And>a w. Q a w \<Longrightarrow> Q' a w" "\<And>e w. E e w \<Longrightarrow> E' e w"
  shows "yields r Q' E'"
  using assms by (auto simp: yields_def split: prod.splits sum.splits)

lemma yields_conj:
  "yields r (\<lambda>a w. Q a w \<and> Q' a w) (\<lambda>e w. E e w \<and> E' e w) \<longleftrightarrow> yields r Q E \<and> yields r Q' E'"
  by (auto simp: yields_def split: prod.splits sum.splits)

section \<open>JavaScript idioms\<close>

text \<open>\<open>a ?? b\<close> on a value that may be null or undefined.\<close>

definition coalesce :: "'a option \<Rightarrow> 'a option \<Rightarrow> 'a option" where
  "coalesce a b = (case a of None \<Rightarrow> b | Some x \<Rightarrow> Some x)"

lemma coalesce_simps [simp]:
  "coalesce None b = b" "coalesce (Some x) b = Some x"
  by (simp_all add: coalesce_def)

lemma coalesce_eq_Some:
  "coalesce a b = Some x \<longleftrightarrow> a = Some x \<or> a = None \<and> b = Some x"
  by (cases a) auto

text \<open>A non-negative integer inside a template string.\<close>

definition digit_char :: "nat \<Rightarrow> char" where
  "digit_char d = ''0123456789'' ! d"

fun nat_str :: "nat \<Rightarrow> string" where
  "nat_str n = (if n < 10 then [digit_char n] else nat_str (n div 10) @ [digit_char (n mod 10)])"

declare nat_str.simps [simp del]

lemma digit_char_cases:
  assumes "d < 10"
  shows "d = 0 \<or> d = 1 \<or> d = 2 \<or> d = 3 \<or> d = 4 \<or> d = 5 \<or> d = 6 \<or> d = 7 \<or> d = 8 \<or> d = (9::nat)"
  using assms by arith

lemma digit_char_eq [simp]:
  assumes "a < 10" "b < 10"
  shows "digit_char a = digit_char b \<longleftrightarrow> a = b"
  using digit_char_cases [OF assms(1)] digit_char_cases [OF assms(2)]
  by (elim disjE) (simp_all add: digit_char_def)

lemma digit_char_neq_dash: "d < 10 \<Longrightarrow> digit_char d \<noteq> CHR ''-''"
  by (drule digit_char_cases) (elim disjE, simp_all add: digit_char_def)

lemma nat_str_nonempty [simp]: "nat_str n \<noteq> []"
  by (subst nat_str.simps) simp

lemma nat_str_no_dash: "CHR ''-'' \<notin> set (nat_str n)"
proof (induction n rule: nat_str.induct)
  case (1 n)
  show ?case
  proof (cases "n < 10")
    case True
    then show ?thesis
      using digit_char_neq_dash [of n] by (subst nat_str.simps) auto
  next
    case False
    then show ?thesis
      using "1" digit_char_neq_dash [of "n mod 10"] by (subst nat_str.simps) auto
  qed
qed

lemma nat_str_inject: "nat_str m = nat_str n \<Longrightarrow> m = n"
proof (induction m arbitrary: n rule: nat_str.induct)
  case (1 m)
  have step: "nat_str k = (if k < 10 then [digit_char k] else nat_str (k div 10) @ [digit_char (k mod 10)])"
    for k by (subst nat_str.simps) simp
  from "1.prems" have eq: "nat_str m = nat_str n" .
  show ?case
  proof (cases "m < 10")
    case True
    with eq nat_str_nonempty [of "n div 10"] show ?thesis
      by (cases "n < 10") (auto simp: step [of m] step [of n])
  next
    case m: False
    show ?thesis
    proof (cases "n < 10")
      case True
      with eq m nat_str_nonempty [of "m div 10"] show ?thesis
        by (auto simp: step [of m] step [of n])
    next
      case False
      with eq m have "nat_str (m div 10) = nat_str (n div 10)" "m mod 10 = n mod 10"
        by (simp_all add: step [of m] step [of n])
      with "1.IH" [OF m] have "m div 10 = n div 10" by blast
      with \<open>m mod 10 = n mod 10\<close> show ?thesis
        by (metis div_mult_mod_eq)
    qed
  qed
qed

lemma nat_str_eq_iff [simp]: "nat_str m = nat_str n \<longleftrightarrow> m = n"
  using nat_str_inject by blast

text \<open>A string split at its last dash: what makes a key \<open>prefix-<id>-<n>\<close> readable again.\<close>

lemma append_dash_inject:
  assumes "CHR ''-'' \<notin> set v" "CHR ''-'' \<notin> set v'"
    and "u @ CHR ''-'' # v = u' @ CHR ''-'' # v'"
  shows "u = u' \<and> v = v'"
proof -
  have "rev v @ CHR ''-'' # rev u = rev v' @ CHR ''-'' # rev u'"
    using arg_cong [OF assms(3), of rev] by simp
  moreover have "takeWhile (\<lambda>c. c \<noteq> CHR ''-'') (rev x @ CHR ''-'' # y) = rev x"
    if "CHR ''-'' \<notin> set x" for x y
    using that by (subst takeWhile_append2) auto
  ultimately have "rev v = rev v'"
    using assms(1,2) by metis
  with assms(3) show ?thesis by simp
qed

section \<open>Searching lists\<close>

lemma find_Some_mem: "List.find P xs = Some x \<Longrightarrow> x \<in> set xs \<and> P x"
  by (induction xs) (auto split: if_splits)

lemma find_None_all: "List.find P xs = None \<Longrightarrow> \<forall>x\<in>set xs. \<not> P x"
  by (induction xs) (auto split: if_splits)

lemma filter_map_elsewhere:
  assumes "\<And>r. p r \<Longrightarrow> \<not> q r \<and> \<not> q (f r)"
  shows "filter q (map (\<lambda>r. if p r then f r else r) rs) = filter q rs"
  by (induction rs) (use assms in auto)

end
