(* ===== verification/Hold_Schema.thy ===== *)
theory Hold_Schema
  imports Prelude
begin

text \<open>
  The \<open>payment_holds\<close> table (\<open>lib/db/schema/payment-holds.ts\<close>): the states of a hold, the value
  lists of its columns, one row, and the purchase lease that fences a row's state writes. A
  \<open>timestamptz\<close> column is an \<open>int\<close> of milliseconds, an SQL \<open>integer\<close> counter that starts at 0 and
  is only ever incremented is a \<open>nat\<close>, and a nullable column is an option.
\<close>

datatype hold_state =
    Closing | CancelUnproven | PaymentInFlight | InvoicePayable
  | RefundDue | RefundPending | NeedsOperator | HoldReleased

text \<open>\<open>OpenPaymentHoldState\<close> is \<open>Exclude<PaymentHoldState, "released">\<close>.\<close>

definition is_open_state :: "hold_state \<Rightarrow> bool" where
  "is_open_state s \<longleftrightarrow> s \<noteq> HoldReleased"

datatype release_reason =
    VoidedUnpaid | DeletedDraft | Refunded | AlreadyRefunded | Adopted | ExpiredUnpaid | ByOperator

datatype hold_opener = OpenedByPurchase | OpenedByBackfill | OpenedByLink

datatype notified_state = NotifiedRefundPending | NotifiedReleasedRefunded | NotifiedReleasedAdopted

datatype hold_scope = NewOrg | OrgPlan

fun state_str :: "hold_state \<Rightarrow> string" where
  "state_str Closing = ''closing''"
| "state_str CancelUnproven = ''cancel_unproven''"
| "state_str PaymentInFlight = ''payment_in_flight''"
| "state_str InvoicePayable = ''invoice_payable''"
| "state_str RefundDue = ''refund_due''"
| "state_str RefundPending = ''refund_pending''"
| "state_str NeedsOperator = ''needs_operator''"
| "state_str HoldReleased = ''released''"

record hold_row =
  ph_id :: string
  ph_subscription_id :: string
  ph_customer_id :: string
  ph_scope :: hold_scope
  ph_payer_key :: string
  ph_invoice_id :: string
  ph_payment_intent_id :: "string option"
  ph_state :: hold_state
  ph_release_reason :: "release_reason option"
  ph_released_at :: "int option"
  ph_released_by :: "string option"
  ph_release_note :: "string option"
  ph_refund_attempt :: nat
  ph_attempts :: nat
  ph_last_error :: "string option"
  ph_next_check_at :: "int option"
  ph_alerted_at :: "int option"
  ph_notice_last_sent_at :: "int option"
  ph_notified_state :: "notified_state option"
  ph_notified_at :: "int option"
  ph_opened_by_user_id :: "string option"
  ph_opened_by :: hold_opener
  ph_open_note :: "string option"
  ph_state_since :: int
  ph_last_pay :: "string option"
  ph_refund_action_since :: "int option"
  ph_age_alerted_at :: "int option"
  ph_observed_at :: int
  ph_nudged_at :: "int option"
  ph_version :: nat
  ph_created_at :: int
  ph_updated_at :: int

section \<open>The purchase lease of a hold\<close>

fun lease_key_prefix :: "hold_scope \<Rightarrow> string" where
  "lease_key_prefix NewOrg = ''user:''"
| "lease_key_prefix OrgPlan = ''org-plan:''"

text \<open>
  \<open>leaseKeyFor\<close>. Its throw on a scope with no prefix is unreachable: the scopes are the two of the
  datatype. \<open>leaseKeySql\<close> is the same expression over a row's own columns.
\<close>

definition lease_key_for :: "hold_scope \<Rightarrow> string \<Rightarrow> string" where
  "lease_key_for sc payer = lease_key_prefix sc @ payer"

definition lease_key_sql :: "hold_row \<Rightarrow> string" where
  "lease_key_sql r = (case ph_scope r of NewOrg \<Rightarrow> ''user:'' | OrgPlan \<Rightarrow> ''org-plan:'') @ ph_payer_key r"

lemma lease_key_sql_eq: "lease_key_sql r = lease_key_for (ph_scope r) (ph_payer_key r)"
  by (cases "ph_scope r") (simp_all add: lease_key_sql_def lease_key_for_def)

text \<open>A lease of one scope is never a lease of the other, even for the same payer string.\<close>

lemma lease_key_for_inject:
  "lease_key_for sc p = lease_key_for sc' p' \<longleftrightarrow> sc = sc' \<and> p = p'"
  by (cases sc; cases sc') (auto simp: lease_key_for_def)

section \<open>The table's constraints\<close>

text \<open>
  The \<open>CHECK\<close> constraints \<open>payment_holds_release_shape\<close> and \<open>payment_holds_open_is_scheduled\<close> on one
  row (the value-list checks hold by the types), and the partial unique index
  \<open>payment_holds_open_subscription_uidx\<close> with the primary key on the table.
\<close>

definition row_checks :: "hold_row \<Rightarrow> bool" where
  "row_checks r \<longleftrightarrow>
     ((ph_state r = HoldReleased) = (ph_release_reason r \<noteq> None \<and> ph_released_at r \<noteq> None)) \<and>
     (ph_state r = HoldReleased \<or> ph_next_check_at r \<noteq> None)"

definition open_subscriptions :: "hold_row list \<Rightarrow> string list" where
  "open_subscriptions rs = map ph_subscription_id (filter (\<lambda>r. ph_state r \<noteq> HoldReleased) rs)"

definition table_ok :: "hold_row list \<Rightarrow> bool" where
  "table_ok rs \<longleftrightarrow>
     distinct (map ph_id rs) \<and> distinct (open_subscriptions rs) \<and> list_all row_checks rs"

section \<open>A row for the concrete inputs of the witnesses\<close>

definition sample_hold :: hold_row where
  "sample_hold = \<lparr>ph_id = ''h1'', ph_subscription_id = ''sub_1'', ph_customer_id = ''cus_1'',
     ph_scope = NewOrg, ph_payer_key = ''u1'', ph_invoice_id = ''in_1'', ph_payment_intent_id = None,
     ph_state = Closing, ph_release_reason = None, ph_released_at = None, ph_released_by = None,
     ph_release_note = None, ph_refund_attempt = 0, ph_attempts = 0, ph_last_error = None,
     ph_next_check_at = Some 0, ph_alerted_at = None, ph_notice_last_sent_at = None,
     ph_notified_state = None, ph_notified_at = None, ph_opened_by_user_id = None,
     ph_opened_by = OpenedByPurchase, ph_open_note = None, ph_state_since = 0, ph_last_pay = None,
     ph_refund_action_since = None, ph_age_alerted_at = None, ph_observed_at = 0,
     ph_nudged_at = None, ph_version = 0, ph_created_at = 0, ph_updated_at = 0\<rparr>"

lemma sample_hold_simps [simp]:
  "ph_id sample_hold = ''h1''" "ph_subscription_id sample_hold = ''sub_1''"
  "ph_customer_id sample_hold = ''cus_1''" "ph_invoice_id sample_hold = ''in_1''"
  "ph_scope sample_hold = NewOrg" "ph_payer_key sample_hold = ''u1''"
  "ph_state sample_hold = Closing" "ph_version sample_hold = 0" "ph_refund_attempt sample_hold = 0"
  "ph_open_note sample_hold = None" "ph_attempts sample_hold = 0"
  "ph_alerted_at sample_hold = None" "ph_state_since sample_hold = 0"
  "ph_next_check_at sample_hold = Some 0" "ph_release_reason sample_hold = None"
  "ph_released_at sample_hold = None"
  by (simp_all add: sample_hold_def)

end
