(* ===== verification/Hold_Observe.thy ===== *)
theory Hold_Observe
  imports Hold_Schema
begin

text \<open>
  The observation behind every payment-hold transition
  (\<open>lib/billing/payment-holds/observe.ts\<close>): the reads of the hold's subscription, its held invoice,
  that invoice's payments and their refunds, each retried once, and the classification of what they
  returned. Stripe is a parameter: a record of the five reads the code makes, over an arbitrary
  world \<open>'w\<close> that every read may move. Amounts are integers in minor units.
\<close>

section \<open>What Stripe returns\<close>

record held_payment_intent =
  pi_id :: string
  pi_status :: string
  pi_amount_received :: int

text \<open>\<open>payment_intent?: string | HeldPaymentIntent | null\<close>: expanded or not, or absent.\<close>

datatype intent_ref = IntentId string | Intent held_payment_intent

record invoice_payment =
  ip_type :: string
  ip_payment_intent :: "intent_ref option"

record held_refund =
  rf_status :: "string option"
  rf_amount :: int
  rf_metadata :: "(string \<rightharpoonup> string) option"

record 'a page =
  has_more :: bool
  page_data :: "'a list"

text \<open>\<open>HoldStripeReader\<close>.\<close>

record 'w stripe_reader =
  sub_retrieve :: "string \<Rightarrow> ('w, exn, string) eff"
  inv_retrieve :: "string \<Rightarrow> ('w, exn, string option) eff"
  invpay_list :: "string \<Rightarrow> ('w, exn, invoice_payment page) eff"
  pi_retrieve :: "string \<Rightarrow> ('w, exn, held_payment_intent) eff"
  refunds_list :: "string \<Rightarrow> ('w, exn, held_refund page) eff"

section \<open>What an observation says\<close>

datatype sub_obs = SubIncomplete | SubEnded bool | SubLive string | SubMissing | SubOther string

datatype inv_obs = InvOpen | InvUncollectible | InvDraft | InvVoid | InvPaid | InvNone | InvOther

datatype refund_kind = RfNone | RfPending | RfDone | RfPartial

record refund_obs =
  ro_kind :: refund_kind
  ro_uncovered :: int
  ro_by_this_hold :: bool
  ro_action_required :: bool

record succeeded_payment =
  sp_id :: string
  sp_amount_received :: int
  sp_refund :: refund_obs

datatype pay_obs =
    PayAwaiting | PayFailed | PayInFlight string | PayCapturable string
  | PaySucceeded "succeeded_payment list" | PayUnrecognised

record hold_obs =
  ob_sub :: sub_obs
  ob_inv :: inv_obs
  ob_pay :: pay_obs

text \<open>\<open>HoldObservationError\<close>: the read that failed, and the message of its cause.\<close>

record obs_error =
  oe_read :: string
  oe_cause :: string

definition obs_error_message :: "obs_error \<Rightarrow> string" where
  "obs_error_message e =
     ''payment hold observation failed reading '' @ oe_read e @ '': '' @ oe_cause e"

definition hold_refund_metadata_key :: string where
  "hold_refund_metadata_key = ''alethia_payment_hold''"

definition awaiting_statuses :: "string list" where
  "awaiting_statuses = [''requires_payment_method'', ''requires_confirmation'', ''requires_action'']"

definition live_statuses :: "string list" where
  "live_statuses = [''active'', ''trialing'', ''past_due'', ''unpaid'', ''paused'']"

definition is_resource_missing :: "exn \<Rightarrow> bool" where
  "is_resource_missing e \<longleftrightarrow> exn_code e = Some ''resource_missing''"

section \<open>Reading twice\<close>

text \<open>\<open>T | "missing"\<close>.\<close>

datatype 'a read_answer = Read 'a | ReadMissing

definition read_twice :: "string \<Rightarrow> ('w, exn, 'a) eff \<Rightarrow> ('w, obs_error, 'a read_answer) eff" where
  "read_twice what rd w =
     (case rd w of
        (Inr v, w1) \<Rightarrow> (Inr (Read v), w1)
      | (Inl _, w1) \<Rightarrow>
          (case rd w1 of
             (Inr v, w2) \<Rightarrow> (Inr (Read v), w2)
           | (Inl e, w2) \<Rightarrow>
               if is_resource_missing e then (Inr ReadMissing, w2)
               else (Inl \<lparr>oe_read = what, oe_cause = exn_msg e\<rparr>, w2)))"

section \<open>Classification\<close>

definition classify_sub :: "string \<Rightarrow> sub_obs" where
  "classify_sub st =
     (if st = ''incomplete'' then SubIncomplete
      else if st = ''canceled'' \<or> st = ''incomplete_expired'' then SubEnded (st = ''incomplete_expired'')
      else if st \<in> set live_statuses then SubLive st
      else SubOther st)"

definition classify_invoice :: "string option \<Rightarrow> inv_obs" where
  "classify_invoice st =
     (if st = Some ''open'' then InvOpen
      else if st = Some ''uncollectible'' then InvUncollectible
      else if st = Some ''draft'' then InvDraft
      else if st = Some ''void'' then InvVoid
      else if st = Some ''paid'' then InvPaid
      else InvOther)"

text \<open>The accumulators of the loop of \<open>classifyRefunds\<close>.\<close>

record refund_acc =
  ra_succeeded :: int
  ra_live :: int
  ra_unsettled :: bool
  ra_action_required :: bool
  ra_by_this_hold :: bool
  ra_by_other :: bool

definition refund_acc0 :: refund_acc where
  "refund_acc0 = \<lparr>ra_succeeded = 0, ra_live = 0, ra_unsettled = False, ra_action_required = False,
     ra_by_this_hold = False, ra_by_other = False\<rparr>"

definition names_hold :: "string \<Rightarrow> held_refund \<Rightarrow> bool" where
  "names_hold hid r =
     (case rf_metadata r of None \<Rightarrow> False | Some m \<Rightarrow> m hold_refund_metadata_key = Some hid)"

definition refund_step :: "string \<Rightarrow> refund_acc \<Rightarrow> held_refund \<Rightarrow> refund_acc" where
  "refund_step hid a r =
     (if rf_status r = Some ''succeeded'' then
        (let a1 = a\<lparr>ra_succeeded := ra_succeeded a + rf_amount r, ra_live := ra_live a + rf_amount r\<rparr>
         in if names_hold hid r then a1\<lparr>ra_by_this_hold := True\<rparr> else a1\<lparr>ra_by_other := True\<rparr>)
      else if rf_status r = Some ''pending'' \<or> rf_status r = Some ''requires_action'' then
        (let a1 = a\<lparr>ra_live := ra_live a + rf_amount r, ra_unsettled := True\<rparr>
         in if rf_status r = Some ''requires_action'' then a1\<lparr>ra_action_required := True\<rparr> else a1)
      else a)"

definition classify_refunds :: "int \<Rightarrow> held_refund list \<Rightarrow> string \<Rightarrow> refund_obs" where
  "classify_refunds amount refunds hid =
     (let a = foldl (refund_step hid) refund_acc0 refunds
      in \<lparr>ro_kind =
            (if ra_succeeded a \<ge> amount then RfDone
             else if ra_live a = 0 then RfNone
             else if ra_live a \<ge> amount \<and> ra_unsettled a then RfPending
             else RfPartial),
          ro_uncovered = max 0 (amount - ra_live a),
          ro_by_this_hold = (ra_by_this_hold a \<and> \<not> ra_by_other a),
          ro_action_required = ra_action_required a\<rparr>)"

section \<open>The reads in their order\<close>

text \<open>
  The first loop of \<open>observePayments\<close>: the PaymentIntents of the page, each one retrieved when the
  page holds only its id. \<open>None\<close> is the early return \<open>unrecognised\<close>. An empty id is falsy.
\<close>

fun collect_intents ::
  "'w stripe_reader \<Rightarrow> invoice_payment list \<Rightarrow> held_payment_intent list
    \<Rightarrow> ('w, obs_error, held_payment_intent list option) eff" where
  "collect_intents rd [] acc = ereturn (Some acc)"
| "collect_intents rd (p # ps) acc =
     (if ip_type p \<noteq> ''payment_intent'' then ereturn None
      else (case ip_payment_intent p of
              None \<Rightarrow> ereturn None
            | Some (Intent i) \<Rightarrow> collect_intents rd ps (acc @ [i])
            | Some (IntentId i) \<Rightarrow>
                if i = [] then ereturn None
                else ebind (read_twice ''paymentIntents.retrieve'' (pi_retrieve rd i))
                       (\<lambda>a. case a of ReadMissing \<Rightarrow> ereturn None
                                    | Read v \<Rightarrow> collect_intents rd ps (acc @ [v]))))"

text \<open>The second loop: the refunds of every succeeded PaymentIntent.\<close>

fun collect_refunds ::
  "'w stripe_reader \<Rightarrow> string \<Rightarrow> held_payment_intent list \<Rightarrow> succeeded_payment list
    \<Rightarrow> ('w, obs_error, succeeded_payment list) eff" where
  "collect_refunds rd hid [] acc = ereturn acc"
| "collect_refunds rd hid (i # is) acc =
     ebind (read_twice ''refunds.list'' (refunds_list rd (pi_id i)))
       (\<lambda>a. case a of
              ReadMissing \<Rightarrow> ethrow \<lparr>oe_read = ''refunds.list'', oe_cause = ''resource_missing''\<rparr>
            | Read pg \<Rightarrow>
                if has_more pg
                then ethrow \<lparr>oe_read = ''refunds.list'', oe_cause = ''more refunds than one page''\<rparr>
                else collect_refunds rd hid is
                       (acc @ [\<lparr>sp_id = pi_id i, sp_amount_received = pi_amount_received i,
                                sp_refund = classify_refunds (pi_amount_received i) (page_data pg) hid\<rparr>]))"

text \<open>What \<open>observePayments\<close> does once it has the intents.\<close>

definition settle_intents ::
  "'w stripe_reader \<Rightarrow> string \<Rightarrow> held_payment_intent list \<Rightarrow> ('w, obs_error, pay_obs) eff" where
  "settle_intents rd hid intents =
     (case List.find (\<lambda>i. pi_status i = ''processing'') intents of
        Some i \<Rightarrow> ereturn (PayInFlight (pi_id i))
      | None \<Rightarrow>
     (case List.find (\<lambda>i. pi_status i = ''requires_capture'') intents of
        Some i \<Rightarrow> ereturn (PayCapturable (pi_id i))
      | None \<Rightarrow>
          if \<exists>i\<in>set intents. pi_status i \<noteq> ''succeeded'' \<and> pi_status i \<noteq> ''canceled''
               \<and> pi_status i \<notin> set awaiting_statuses
          then ereturn PayUnrecognised
          else if \<exists>i\<in>set intents. pi_status i = ''succeeded'' \<and> pi_amount_received i \<le> 0
          then ereturn PayUnrecognised
          else ebind (collect_refunds rd hid (filter (\<lambda>i. pi_status i = ''succeeded'') intents) [])
                 (\<lambda>pis. if pis \<noteq> [] then ereturn (PaySucceeded pis)
                        else if \<exists>i\<in>set intents. pi_status i = ''canceled'' then ereturn PayFailed
                        else ereturn PayAwaiting)))"

definition observe_payments ::
  "'w stripe_reader \<Rightarrow> string \<Rightarrow> string \<Rightarrow> ('w, obs_error, pay_obs) eff" where
  "observe_payments rd invoice_id hid =
     ebind (read_twice ''invoicePayments.list'' (invpay_list rd invoice_id))
       (\<lambda>a. case a of
              ReadMissing \<Rightarrow> ethrow \<lparr>oe_read = ''invoicePayments.list'', oe_cause = ''resource_missing''\<rparr>
            | Read pg \<Rightarrow>
                if has_more pg then ereturn PayUnrecognised
                else ebind (collect_intents rd (page_data pg) [])
                       (\<lambda>r. case r of None \<Rightarrow> ereturn PayUnrecognised
                                    | Some intents \<Rightarrow> settle_intents rd hid intents))"

definition observe_hold :: "'w stripe_reader \<Rightarrow> hold_row \<Rightarrow> ('w, obs_error, hold_obs) eff" where
  "observe_hold rd h =
     ebind (read_twice ''subscriptions.retrieve'' (sub_retrieve rd (ph_subscription_id h)))
       (\<lambda>sub. ebind (read_twice ''invoices.retrieve'' (inv_retrieve rd (ph_invoice_id h)))
       (\<lambda>invoice.
          let iv = (case invoice of ReadMissing \<Rightarrow> InvNone | Read st \<Rightarrow> classify_invoice st)
          in ebind (if iv = InvNone then ereturn PayAwaiting
                    else observe_payments rd (ph_invoice_id h) (ph_id h))
               (\<lambda>pay. ereturn \<lparr>ob_sub = (case sub of ReadMissing \<Rightarrow> SubMissing | Read st \<Rightarrow> classify_sub st),
                               ob_inv = iv, ob_pay = pay\<rparr>)))"

section \<open>What the reads prove\<close>

lemma read_twice_ReadD:
  "read_twice what rd w = (Inr (Read v), w') \<Longrightarrow> \<exists>w0. rd w0 = (Inr v, w')"
  by (auto simp: read_twice_def split: prod.splits sum.splits if_splits)

lemma read_twice_MissingD:
  "read_twice what rd w = (Inr ReadMissing, w') \<Longrightarrow>
     \<exists>w0 e. rd w0 = (Inl e, w') \<and> is_resource_missing e"
  by (fastforce simp: read_twice_def split: prod.splits sum.splits if_splits)

lemma read_twice_fails:
  assumes "\<And>w. \<exists>e w'. rd w = (Inl e, w') \<and> \<not> is_resource_missing e"
  shows "\<exists>e w'. read_twice what rd w = (Inl e, w') \<and> oe_read e = what"
proof -
  obtain e1 w1 where 1: "rd w = (Inl e1, w1)" using assms by blast
  obtain e2 w2 where 2: "rd w1 = (Inl e2, w2)" "\<not> is_resource_missing e2" using assms by blast
  from 1 2 show ?thesis by (simp add: read_twice_def)
qed

lemma not_live [simp]:
  "''incomplete'' \<notin> set live_statuses" "''canceled'' \<notin> set live_statuses"
  "''incomplete_expired'' \<notin> set live_statuses"
  by (simp_all add: live_statuses_def)

lemma classify_sub_incomplete [simp]: "classify_sub st = SubIncomplete \<longleftrightarrow> st = ''incomplete''"
  by (simp add: classify_sub_def)

lemma classify_sub_not_missing [simp]: "classify_sub st \<noteq> SubMissing"
  by (simp add: classify_sub_def)

lemma classify_sub_ended [simp]:
  "classify_sub st = SubEnded b \<longleftrightarrow>
     (if b then st = ''incomplete_expired'' else st = ''canceled'')"
  by (cases "st = ''incomplete''"; cases "st = ''canceled''"; cases "st = ''incomplete_expired''")
    (simp_all add: classify_sub_def)

lemma classify_sub_live [simp]: "classify_sub st = SubLive s \<longleftrightarrow> st = s \<and> s \<in> set live_statuses"
  by (cases "st = ''incomplete''"; cases "st = ''canceled''"; cases "st = ''incomplete_expired''";
      cases "st = s") (simp_all add: classify_sub_def)

lemma classify_invoice_simps [simp]:
  "classify_invoice st = InvOpen \<longleftrightarrow> st = Some ''open''"
  "classify_invoice st = InvVoid \<longleftrightarrow> st = Some ''void''"
  "classify_invoice st = InvPaid \<longleftrightarrow> st = Some ''paid''"
  "classify_invoice st = InvDraft \<longleftrightarrow> st = Some ''draft''"
  "classify_invoice st = InvUncollectible \<longleftrightarrow> st = Some ''uncollectible''"
  "classify_invoice st \<noteq> InvNone"
  by (simp_all add: classify_invoice_def)

subsection \<open>The refunds of one payment\<close>

text \<open>What the accumulators of \<open>classifyRefunds\<close> are meant to add up, stated over the whole list.\<close>

definition is_succeeded_refund :: "held_refund \<Rightarrow> bool" where
  "is_succeeded_refund r \<longleftrightarrow> rf_status r = Some ''succeeded''"

definition is_unsettled_refund :: "held_refund \<Rightarrow> bool" where
  "is_unsettled_refund r \<longleftrightarrow> rf_status r = Some ''pending'' \<or> rf_status r = Some ''requires_action''"

definition succeeded_total :: "held_refund list \<Rightarrow> int" where
  "succeeded_total rs = sum_list (map rf_amount (filter is_succeeded_refund rs))"

definition live_total :: "held_refund list \<Rightarrow> int" where
  "live_total rs =
     sum_list (map rf_amount (filter (\<lambda>r. is_succeeded_refund r \<or> is_unsettled_refund r) rs))"

lemma total_Nil [simp]: "succeeded_total [] = 0" "live_total [] = 0"
  by (simp_all add: succeeded_total_def live_total_def)

lemma total_Cons [simp]:
  "succeeded_total (r # rs) = (if is_succeeded_refund r then rf_amount r else 0) + succeeded_total rs"
  "live_total (r # rs) =
     (if is_succeeded_refund r \<or> is_unsettled_refund r then rf_amount r else 0) + live_total rs"
  by (simp_all add: succeeded_total_def live_total_def)

lemma refund_step_cases:
  "refund_step hid a r =
     a\<lparr>ra_succeeded := ra_succeeded a + (if is_succeeded_refund r then rf_amount r else 0),
       ra_live := ra_live a
         + (if is_succeeded_refund r \<or> is_unsettled_refund r then rf_amount r else 0),
       ra_unsettled := (ra_unsettled a \<or> is_unsettled_refund r),
       ra_action_required := (ra_action_required a \<or> rf_status r = Some ''requires_action''),
       ra_by_this_hold := (ra_by_this_hold a \<or> is_succeeded_refund r \<and> names_hold hid r),
       ra_by_other := (ra_by_other a \<or> is_succeeded_refund r \<and> \<not> names_hold hid r)\<rparr>"
  by (cases "rf_status r = Some ''succeeded''"; cases "rf_status r = Some ''requires_action''";
      cases "rf_status r = Some ''pending''"; cases "names_hold hid r")
    (simp_all add: refund_step_def Let_def is_succeeded_refund_def is_unsettled_refund_def)

lemma refund_fold:
  "foldl (refund_step hid) a rs =
     a\<lparr>ra_succeeded := ra_succeeded a + succeeded_total rs,
       ra_live := ra_live a + live_total rs,
       ra_unsettled := (ra_unsettled a \<or> (\<exists>r\<in>set rs. is_unsettled_refund r)),
       ra_action_required :=
         (ra_action_required a \<or> (\<exists>r\<in>set rs. rf_status r = Some ''requires_action'')),
       ra_by_this_hold :=
         (ra_by_this_hold a \<or> (\<exists>r\<in>set rs. is_succeeded_refund r \<and> names_hold hid r)),
       ra_by_other :=
         (ra_by_other a \<or> (\<exists>r\<in>set rs. is_succeeded_refund r \<and> \<not> names_hold hid r))\<rparr>"
  by (induction rs arbitrary: a) (simp_all add: refund_step_cases disj_assoc)

lemma classify_refunds_simps [simp]:
  "ro_uncovered (classify_refunds amt rs hid) = max 0 (amt - live_total rs)"
  "ro_action_required (classify_refunds amt rs hid) \<longleftrightarrow>
     (\<exists>r\<in>set rs. rf_status r = Some ''requires_action'')"
  "ro_by_this_hold (classify_refunds amt rs hid) \<longleftrightarrow>
     (\<exists>r\<in>set rs. is_succeeded_refund r) \<and>
     (\<forall>r\<in>set rs. is_succeeded_refund r \<longrightarrow> names_hold hid r)"
  "ro_kind (classify_refunds amt rs hid) =
     (if succeeded_total rs \<ge> amt then RfDone
      else if live_total rs = 0 then RfNone
      else if live_total rs \<ge> amt \<and> (\<exists>r\<in>set rs. is_unsettled_refund r) then RfPending
      else RfPartial)"
  by (auto simp: classify_refunds_def Let_def refund_fold refund_acc0_def)

lemma live_total_settled:
  "\<forall>r\<in>set rs. \<not> is_unsettled_refund r \<Longrightarrow> live_total rs = succeeded_total rs"
  by (induction rs) auto

lemma succeeded_total_le_live:
  "\<forall>r\<in>set rs. 0 \<le> rf_amount r \<Longrightarrow> succeeded_total rs \<le> live_total rs"
  by (induction rs) auto

subsection \<open>The payments of the held invoice\<close>

text \<open>
  What it takes for one payment to be reported as succeeded: it took money, and Stripe listed all
  of its refunds on one page, from which its refund classification was computed.
\<close>

definition payment_evidence :: "'w stripe_reader \<Rightarrow> string \<Rightarrow> succeeded_payment \<Rightarrow> bool" where
  "payment_evidence rd hid p \<longleftrightarrow>
     sp_amount_received p > 0 \<and>
     (\<exists>w w' pg. refunds_list rd (sp_id p) w = (Inr pg, w') \<and> \<not> has_more pg \<and>
        sp_refund p = classify_refunds (sp_amount_received p) (page_data pg) hid)"

lemma collect_refunds_sound:
  assumes "collect_refunds rd hid is acc w = (Inr pis, w')"
    and "\<forall>i\<in>set is. pi_amount_received i > 0"
    and "\<forall>p\<in>set acc. payment_evidence rd hid p"
  shows "map sp_id pis = map sp_id acc @ map pi_id is \<and> (\<forall>p\<in>set pis. payment_evidence rd hid p)"
  using assms
proof (induction "is" arbitrary: acc w)
  case Nil
  then show ?case by simp
next
  case (Cons i "is")
  let ?p = "\<lambda>pg. \<lparr>sp_id = pi_id i, sp_amount_received = pi_amount_received i,
                 sp_refund = classify_refunds (pi_amount_received i) (page_data pg) hid\<rparr>"
  from Cons.prems(1) obtain a w1
    where a: "read_twice ''refunds.list'' (refunds_list rd (pi_id i)) w = (Inr a, w1)"
      and k: "(case a of ReadMissing \<Rightarrow> ethrow \<lparr>oe_read = ''refunds.list'', oe_cause = ''resource_missing''\<rparr>
            | Read pg \<Rightarrow> if has_more pg
                then ethrow \<lparr>oe_read = ''refunds.list'', oe_cause = ''more refunds than one page''\<rparr>
                else collect_refunds rd hid is (acc @ [?p pg])) w1 = (Inr pis, w')"
    by (auto simp: ebind_Inr_iff)
  from k obtain pg where "a = Read pg" and more: "\<not> has_more pg"
    and rest: "collect_refunds rd hid is (acc @ [?p pg]) w1 = (Inr pis, w')"
    by (cases a) (auto split: if_splits)
  with a have pg: "read_twice ''refunds.list'' (refunds_list rd (pi_id i)) w = (Inr (Read pg), w1)" by simp
  from read_twice_ReadD [OF pg] more Cons.prems(2) have "payment_evidence rd hid (?p pg)"
    unfolding payment_evidence_def by auto
  with Cons.IH [OF rest] Cons.prems(2,3) show ?case by simp
qed

text \<open>
  Positive evidence for each payment classification. The three that mean money moved or may move
  name a PaymentIntent with that status; \<open>failed\<close> and \<open>awaiting\<close> mean that the intents of one
  complete page are all canceled or waiting for the customer.
\<close>

definition pay_evidence :: "'w stripe_reader \<Rightarrow> string \<Rightarrow> held_payment_intent list \<Rightarrow> pay_obs \<Rightarrow> bool" where
  "pay_evidence rd hid intents pay =
     (case pay of
        PayInFlight x \<Rightarrow> \<exists>i\<in>set intents. pi_id i = x \<and> pi_status i = ''processing''
      | PayCapturable x \<Rightarrow> \<exists>i\<in>set intents. pi_id i = x \<and> pi_status i = ''requires_capture''
      | PaySucceeded pis \<Rightarrow> pis \<noteq> [] \<and> (\<forall>p\<in>set pis. payment_evidence rd hid p) \<and>
          map sp_id pis = map pi_id (filter (\<lambda>i. pi_status i = ''succeeded'') intents)
      | PayFailed \<Rightarrow> (\<forall>i\<in>set intents. pi_status i = ''canceled'' \<or> pi_status i \<in> set awaiting_statuses) \<and>
          (\<exists>i\<in>set intents. pi_status i = ''canceled'')
      | PayAwaiting \<Rightarrow> \<forall>i\<in>set intents. pi_status i \<in> set awaiting_statuses
      | PayUnrecognised \<Rightarrow> True)"

lemma settle_intents_sound:
  assumes "settle_intents rd hid intents w = (Inr pay, w')"
  shows "pay_evidence rd hid intents pay"
proof (cases "List.find (\<lambda>i. pi_status i = ''processing'') intents")
  case (Some i)
  with assms find_Some_mem [OF Some] show ?thesis
    by (auto simp: settle_intents_def pay_evidence_def)
next
  case p: None
  show ?thesis
  proof (cases "List.find (\<lambda>i. pi_status i = ''requires_capture'') intents")
    case (Some i)
    with assms p find_Some_mem [OF Some] show ?thesis
      by (auto simp: settle_intents_def pay_evidence_def)
  next
    case c: None
    let ?ok = "\<forall>i\<in>set intents. pi_status i = ''succeeded'' \<or> pi_status i = ''canceled'' \<or>
        pi_status i \<in> set awaiting_statuses"
    let ?pos = "\<forall>i\<in>set intents. pi_status i = ''succeeded'' \<longrightarrow> pi_amount_received i > 0"
    let ?succ = "filter (\<lambda>i. pi_status i = ''succeeded'') intents"
    show ?thesis
    proof (cases "?ok \<and> ?pos")
      case False
      with assms p c have "pay = PayUnrecognised"
        by (auto simp: settle_intents_def not_le split: if_splits)
      then show ?thesis by (simp add: pay_evidence_def)
    next
      case True
      then have ok: ?ok and pos: ?pos by blast+
      have g1: "\<not> (\<exists>i\<in>set intents. pi_status i \<noteq> ''succeeded'' \<and> pi_status i \<noteq> ''canceled''
               \<and> pi_status i \<notin> set awaiting_statuses)" using ok by blast
      have g2: "\<not> (\<exists>i\<in>set intents. pi_status i = ''succeeded'' \<and> pi_amount_received i \<le> 0)"
        using pos by (meson not_le)
      let ?k = "\<lambda>pis. if pis \<noteq> [] then PaySucceeded pis
               else if \<exists>i\<in>set intents. pi_status i = ''canceled'' then PayFailed else PayAwaiting"
      have "settle_intents rd hid intents w = ebind (collect_refunds rd hid ?succ [])
          (\<lambda>pis. if pis \<noteq> [] then ereturn (PaySucceeded pis)
               else if \<exists>i\<in>set intents. pi_status i = ''canceled'' then ereturn PayFailed
               else ereturn PayAwaiting) w"
        by (simp only: settle_intents_def p c option.case g1 g2 if_False)
      also have "\<dots> = ebind (collect_refunds rd hid ?succ []) (\<lambda>pis. ereturn (?k pis)) w"
        by (simp only: if_distrib [where f = ereturn])
      finally have "ebind (collect_refunds rd hid ?succ []) (\<lambda>pis. ereturn (?k pis)) w = (Inr pay, w')"
        using assms by metis
      then obtain pis w1
        where pis: "collect_refunds rd hid ?succ [] w = (Inr pis, w1)" and pay: "pay = ?k pis"
        by (auto simp only: ebind_Inr_iff ereturn_iff sum.inject)
      have "\<forall>i\<in>set ?succ. pi_amount_received i > 0" using pos by simp
      from collect_refunds_sound [OF pis this]
      have c1: "map sp_id pis = map pi_id ?succ" and c2: "\<forall>p\<in>set pis. payment_evidence rd hid p"
        by simp_all
      have "pis = [] \<Longrightarrow> \<forall>i\<in>set intents. pi_status i \<noteq> ''succeeded''"
        using c1 by (simp add: filter_empty_conv)
      with ok c1 c2 pay show ?thesis by (auto simp: pay_evidence_def)
    qed
  qed
qed

text \<open>
  The page behind a payment classification that is not \<open>unrecognised\<close>: it was complete, every
  payment on it is a PaymentIntent, and the intents are the ones the page holds or names.
\<close>

definition intent_of_payment :: "invoice_payment \<Rightarrow> held_payment_intent \<Rightarrow> bool" where
  "intent_of_payment p i \<longleftrightarrow>
     ip_type p = ''payment_intent'' \<and>
     (ip_payment_intent p = Some (Intent i) \<or> (\<exists>x. ip_payment_intent p = Some (IntentId x) \<and> x \<noteq> []))"

lemma collect_intents_sound:
  assumes "collect_intents rd ps acc w = (Inr (Some intents), w')"
  shows "\<exists>new. intents = acc @ new \<and> list_all2 intent_of_payment ps new"
  using assms
proof (induction ps arbitrary: acc w)
  case Nil
  then show ?case by simp
next
  case (Cons p ps)
  from Cons.prems have t: "ip_type p = ''payment_intent''" by (auto split: if_splits)
  from Cons.prems t obtain r where r: "ip_payment_intent p = Some r" by (cases "ip_payment_intent p") auto
  have "\<exists>i w1. intent_of_payment p i \<and> collect_intents rd ps (acc @ [i]) w1 = (Inr (Some intents), w')"
  proof (cases r)
    case (Intent i)
    with Cons.prems t r show ?thesis by (auto simp: intent_of_payment_def)
  next
    case (IntentId x)
    with Cons.prems t r have x: "x \<noteq> []" by (auto split: if_splits)
    with Cons.prems t r IntentId obtain a w1
      where "(case a of ReadMissing \<Rightarrow> ereturn None | Read v \<Rightarrow> collect_intents rd ps (acc @ [v])) w1
               = (Inr (Some intents), w')"
      by (auto simp: ebind_Inr_iff)
    with x t r IntentId show ?thesis
      by (cases a) (auto simp: intent_of_payment_def)
  qed
  then obtain i w1 where i: "intent_of_payment p i"
    and rest: "collect_intents rd ps (acc @ [i]) w1 = (Inr (Some intents), w')" by blast
  from Cons.IH [OF rest] i show ?case by auto
qed

lemma observe_payments_sound:
  assumes "observe_payments rd invoice_id hid w = (Inr pay, w')"
  shows "pay = PayUnrecognised \<or>
    (\<exists>w0 w1 pg intents. invpay_list rd invoice_id w0 = (Inr pg, w1) \<and> \<not> has_more pg \<and>
       list_all2 intent_of_payment (page_data pg) intents \<and> pay_evidence rd hid intents pay)"
proof -
  from assms obtain a w1
    where a: "read_twice ''invoicePayments.list'' (invpay_list rd invoice_id) w = (Inr a, w1)"
      and k: "(case a of ReadMissing \<Rightarrow> ethrow \<lparr>oe_read = ''invoicePayments.list'', oe_cause = ''resource_missing''\<rparr>
          | Read pg \<Rightarrow> if has_more pg then ereturn PayUnrecognised
              else ebind (collect_intents rd (page_data pg) [])
                     (\<lambda>r. case r of None \<Rightarrow> ereturn PayUnrecognised
                                  | Some intents \<Rightarrow> settle_intents rd hid intents)) w1 = (Inr pay, w')"
    by (auto simp: observe_payments_def ebind_Inr_iff)
  from k obtain pg where pg: "a = Read pg" by (cases a) auto
  show ?thesis
  proof (cases "has_more pg")
    case True
    with k pg show ?thesis by simp
  next
    case False
    with k pg obtain r w2 where r: "collect_intents rd (page_data pg) [] w1 = (Inr r, w2)"
      and k2: "(case r of None \<Rightarrow> ereturn PayUnrecognised
                        | Some intents \<Rightarrow> settle_intents rd hid intents) w2 = (Inr pay, w')"
      by (auto simp: ebind_Inr_iff)
    show ?thesis
    proof (cases r)
      case None
      with k2 show ?thesis by simp
    next
      case (Some intents)
      with r collect_intents_sound [of rd "page_data pg" "[]" w1 intents w2]
      have "list_all2 intent_of_payment (page_data pg) intents" by simp
      moreover from k2 Some have "pay_evidence rd hid intents pay"
        by (auto intro: settle_intents_sound)
      moreover from a pg obtain w0 where "invpay_list rd invoice_id w0 = (Inr pg, w1)"
        by (auto dest: read_twice_ReadD)
      ultimately show ?thesis using False by blast
    qed
  qed
qed

text \<open>The pieces of a successful observation, in the order they were read.\<close>

lemma observe_hold_Inr:
  assumes "observe_hold rd h w = (Inr ob, w')"
  obtains sub w1 invoice w2 where
    "read_twice ''subscriptions.retrieve'' (sub_retrieve rd (ph_subscription_id h)) w = (Inr sub, w1)"
    "read_twice ''invoices.retrieve'' (inv_retrieve rd (ph_invoice_id h)) w1 = (Inr invoice, w2)"
    "ob_sub ob = (case sub of ReadMissing \<Rightarrow> SubMissing | Read st \<Rightarrow> classify_sub st)"
    "ob_inv ob = (case invoice of ReadMissing \<Rightarrow> InvNone | Read st \<Rightarrow> classify_invoice st)"
    "if ob_inv ob = InvNone then ob_pay ob = PayAwaiting
     else observe_payments rd (ph_invoice_id h) (ph_id h) w2 = (Inr (ob_pay ob), w')"
  using assms
  by (auto simp: observe_hold_def ebind_Inr_iff Let_def split: if_splits)

section \<open>Properties\<close>

text \<open>
  C1. An observation never guesses. A subscription is reported missing only when Stripe answered
  \<open>resource_missing\<close> for the hold's own subscription, and ended only when it read a terminal status;
  the held invoice is reported void (or gone) only when that very invoice read so; and whenever the
  invoice exists and the payments are recognised, one complete page of PaymentIntent payments of the
  held invoice was read that carries the evidence for the classification.
\<close>

theorem observe_hold_sound:
  assumes "observe_hold rd h w = (Inr ob, w')"
  shows "(ob_sub ob = SubMissing \<longrightarrow>
            (\<exists>a b e. sub_retrieve rd (ph_subscription_id h) a = (Inl e, b) \<and> is_resource_missing e)) \<and>
         (\<forall>x. ob_sub ob = SubEnded x \<longrightarrow>
            (\<exists>a b st. sub_retrieve rd (ph_subscription_id h) a = (Inr st, b) \<and>
                      st = (if x then ''incomplete_expired'' else ''canceled''))) \<and>
         (ob_inv ob = InvVoid \<longrightarrow>
            (\<exists>a b. inv_retrieve rd (ph_invoice_id h) a = (Inr (Some ''void''), b))) \<and>
         (ob_inv ob = InvNone \<longrightarrow>
            (\<exists>a b e. inv_retrieve rd (ph_invoice_id h) a = (Inl e, b) \<and> is_resource_missing e)) \<and>
         (ob_inv ob \<noteq> InvNone \<and> ob_pay ob \<noteq> PayUnrecognised \<longrightarrow>
            (\<exists>a b pg intents. invpay_list rd (ph_invoice_id h) a = (Inr pg, b) \<and> \<not> has_more pg \<and>
               list_all2 intent_of_payment (page_data pg) intents \<and>
               pay_evidence rd (ph_id h) intents (ob_pay ob)))"
proof -
  from assms obtain sub w1 invoice w2 where
    sub: "read_twice ''subscriptions.retrieve'' (sub_retrieve rd (ph_subscription_id h)) w = (Inr sub, w1)"
    and invoice: "read_twice ''invoices.retrieve'' (inv_retrieve rd (ph_invoice_id h)) w1 = (Inr invoice, w2)"
    and s: "ob_sub ob = (case sub of ReadMissing \<Rightarrow> SubMissing | Read st \<Rightarrow> classify_sub st)"
    and i: "ob_inv ob = (case invoice of ReadMissing \<Rightarrow> InvNone | Read st \<Rightarrow> classify_invoice st)"
    and p: "if ob_inv ob = InvNone then ob_pay ob = PayAwaiting
     else observe_payments rd (ph_invoice_id h) (ph_id h) w2 = (Inr (ob_pay ob), w')"
    by (rule observe_hold_Inr)
  show ?thesis
  proof (intro conjI impI allI)
    show "\<exists>a b e. sub_retrieve rd (ph_subscription_id h) a = (Inl e, b) \<and> is_resource_missing e"
      if "ob_sub ob = SubMissing"
      using that s sub by (cases sub) (auto dest!: read_twice_MissingD)
    show "\<exists>a b st. sub_retrieve rd (ph_subscription_id h) a = (Inr st, b) \<and>
                  st = (if x then ''incomplete_expired'' else ''canceled'')"
      if "ob_sub ob = SubEnded x" for x
      using that s sub by (cases sub) (auto dest!: read_twice_ReadD split: if_splits)
    show "\<exists>a b. inv_retrieve rd (ph_invoice_id h) a = (Inr (Some ''void''), b)"
      if "ob_inv ob = InvVoid"
      using that i invoice by (cases invoice) (auto dest!: read_twice_ReadD)
    show "\<exists>a b e. inv_retrieve rd (ph_invoice_id h) a = (Inl e, b) \<and> is_resource_missing e"
      if "ob_inv ob = InvNone"
      using that i invoice by (cases invoice) (auto dest!: read_twice_MissingD)
    show "\<exists>a b pg intents. invpay_list rd (ph_invoice_id h) a = (Inr pg, b) \<and> \<not> has_more pg \<and>
               list_all2 intent_of_payment (page_data pg) intents \<and>
               pay_evidence rd (ph_id h) intents (ob_pay ob)"
      if "ob_inv ob \<noteq> InvNone \<and> ob_pay ob \<noteq> PayUnrecognised"
      using that p observe_payments_sound [of rd "ph_invoice_id h" "ph_id h" w2 "ob_pay ob" w']
      by auto
  qed
qed

text \<open>
  C2. Refunds are classified by their own statuses and never past the payment: for non-negative
  refund amounts and a payment that took money, a payment read as fully refunded is covered by
  succeeded refunds alone; one read as pending is covered by live ones; and exactly in the two cases
  the machine refunds (none, partial) is something uncovered, and refunding precisely
  \<open>uncovered\<close> brings the live refunds up to the amount received and not above it.
\<close>

theorem classify_refunds_exact:
  assumes "0 < amt" "\<forall>r\<in>set rs. 0 \<le> rf_amount r"
  shows "let ro = classify_refunds amt rs hid in
         (ro_kind ro = RfDone \<longleftrightarrow> amt \<le> succeeded_total rs) \<and>
         (ro_kind ro = RfPending \<longleftrightarrow> succeeded_total rs < amt \<and> amt \<le> live_total rs) \<and>
         (ro_kind ro = RfNone \<or> ro_kind ro = RfPartial \<longleftrightarrow> 0 < ro_uncovered ro) \<and>
         (0 < ro_uncovered ro \<longrightarrow> live_total rs + ro_uncovered ro = amt) \<and>
         (ro_kind ro = RfNone \<longleftrightarrow> live_total rs = 0)"
proof -
  have le: "succeeded_total rs \<le> live_total rs"
    using assms(2) by (rule succeeded_total_le_live)
  have un: "live_total rs = succeeded_total rs" if "\<not> (\<exists>r\<in>set rs. is_unsettled_refund r)"
    using that by (intro live_total_settled) blast
  show ?thesis
    using le un assms(1) by (auto simp: Let_def)
qed

theorem classify_refunds_exact_witness:
  "let rs = [\<lparr>rf_status = Some ''succeeded'', rf_amount = 300, rf_metadata = None\<rparr>,
             \<lparr>rf_status = Some ''failed'', rf_amount = 700, rf_metadata = None\<rparr>]
   in ro_kind (classify_refunds 1000 rs ''h1'') = RfPartial \<and>
      live_total rs + ro_uncovered (classify_refunds 1000 rs ''h1'') = 1000"
proof -
  let ?rs = "[\<lparr>rf_status = Some ''succeeded'', rf_amount = 300, rf_metadata = None\<rparr>,
             \<lparr>rf_status = Some ''failed'', rf_amount = 700, rf_metadata = None\<rparr>] :: held_refund list"
  have "0 < (1000::int)" "\<forall>r\<in>set ?rs. 0 \<le> rf_amount r" by simp_all
  from classify_refunds_exact [OF this, of "''h1''"] show ?thesis
    by (simp add: Let_def is_succeeded_refund_def is_unsettled_refund_def)
qed

theorem observe_hold_sound_witness:
  "let rd = \<lparr>sub_retrieve = (\<lambda>_ w. (Inr ''canceled'', w)),
             inv_retrieve = (\<lambda>_ w. (Inr (Some ''void''), w)),
             invpay_list = (\<lambda>_ w. (Inr \<lparr>has_more = False, page_data = []\<rparr>, w)),
             pi_retrieve = (\<lambda>_ w. (Inl \<lparr>exn_code = None, exn_msg = ''''\<rparr>, w)),
             refunds_list = (\<lambda>_ w. (Inl \<lparr>exn_code = None, exn_msg = ''''\<rparr>, w))\<rparr>
   in observe_hold rd sample_hold () =
        (Inr \<lparr>ob_sub = SubEnded False, ob_inv = InvVoid, ob_pay = PayAwaiting\<rparr>, ()) \<and>
      (\<exists>a b st. sub_retrieve rd ''sub_1'' a = (Inr st, b) \<and> st = ''canceled'')"
proof -
  let ?rd = "\<lparr>sub_retrieve = (\<lambda>_ w. (Inr ''canceled'', w)),
             inv_retrieve = (\<lambda>_ w. (Inr (Some ''void''), w)),
             invpay_list = (\<lambda>_ w. (Inr \<lparr>has_more = False, page_data = []\<rparr>, w)),
             pi_retrieve = (\<lambda>_ w. (Inl \<lparr>exn_code = None, exn_msg = ''''\<rparr>, w)),
             refunds_list = (\<lambda>_ w. (Inl \<lparr>exn_code = None, exn_msg = ''''\<rparr>, w))\<rparr> :: unit stripe_reader"
  have run: "observe_hold ?rd sample_hold () =
        (Inr \<lparr>ob_sub = SubEnded False, ob_inv = InvVoid, ob_pay = PayAwaiting\<rparr>, ())"
    by (simp add: observe_hold_def ebind_def read_twice_def classify_sub_def classify_invoice_def
        observe_payments_def ereturn_def settle_intents_def)
  from observe_hold_sound [OF run] run show ?thesis
    by (auto simp: Let_def)
qed

end
