(* ===== verification/Hold_Store.thy ===== *)
theory Hold_Store
  imports Hold_Schema
begin

text \<open>
  The payment-hold store (\<open>lib/billing/payment-holds/store.ts\<close>) and the purchase lease
  (\<open>lib/billing/purchase-lease.ts\<close>) over the four tables they touch. An operation is one SQL
  statement or one transaction, so it is a function from the database to a result and the database
  after it; \<open>now()\<close> is the database's clock, which only \<open>tick\<close> moves. Random identifiers
  (\<open>gen_random_uuid()\<close>, \<open>randomUUID()\<close>) are arguments. Callers interleave: a run is a list of
  operations, and every fence is re-evaluated on the tables as they are when the operation runs.
\<close>

section \<open>The tables\<close>

record lease_row =
  ls_holder :: string
  ls_expires_at :: int

record setup_row =
  su_id :: string
  su_subscription_id :: string
  su_linked_at :: "int option"
  su_closed_at :: "int option"
  su_closed_reason :: "string option"
  su_updated_at :: int

record billing_row =
  bl_subscription_id :: "string option"
  bl_status :: string

record hold_db =
  db_holds :: "hold_row list"
  db_leases :: "string \<rightharpoonup> lease_row"
  db_setups :: "setup_row list"
  db_billing :: "string \<rightharpoonup> billing_row"
  db_now :: int

text \<open>
  \<open>UPDATE \<dots> SET f WHERE p RETURNING *\<close>: the rows that matched, as updated, and the table. The code
  takes the first returned row (\<open>const [row] = \<dots>\<close>).
\<close>

definition sql_update :: "('r \<Rightarrow> bool) \<Rightarrow> ('r \<Rightarrow> 'r) \<Rightarrow> 'r list \<Rightarrow> 'r list \<times> 'r list" where
  "sql_update p f rs = (map f (filter p rs), map (\<lambda>r. if p r then f r else r) rs)"

definition first_row :: "'r list \<Rightarrow> 'r option" where
  "first_row rs = (case rs of [] \<Rightarrow> None | r # _ \<Rightarrow> Some r)"

definition update_holds ::
  "(hold_row \<Rightarrow> bool) \<Rightarrow> (hold_row \<Rightarrow> hold_row) \<Rightarrow> hold_db \<Rightarrow> hold_row list \<times> hold_db" where
  "update_holds p f db =
     (let (ret, rs) = sql_update p f (db_holds db) in (ret, db\<lparr>db_holds := rs\<rparr>))"

section \<open>The purchase lease\<close>

record purchase_lease =
  le_key :: string
  le_holder :: string

definition purchase_lease_ttl_ms :: int where
  "purchase_lease_ttl_ms = 120 * 1000"

text \<open>
  \<open>tryAcquirePurchaseLease\<close>: one upsert, whose update arm replaces only a row that has expired. The
  lease is the caller's when the row returned names the holder it just made up.
\<close>

definition try_acquire_lease :: "string \<Rightarrow> string \<Rightarrow> hold_db \<Rightarrow> purchase_lease option \<times> hold_db" where
  "try_acquire_lease holder key db =
     (let mine = \<lparr>ls_holder = holder, ls_expires_at = db_now db + purchase_lease_ttl_ms\<rparr>;
          got = \<lparr>le_key = key, le_holder = holder\<rparr>
      in case db_leases db key of
           None \<Rightarrow> (Some got, db\<lparr>db_leases := (db_leases db)(key \<mapsto> mine)\<rparr>)
         | Some row \<Rightarrow>
             if ls_expires_at row < db_now db
             then (Some got, db\<lparr>db_leases := (db_leases db)(key \<mapsto> mine)\<rparr>)
             else (None, db))"

text \<open>\<open>renewPurchaseLease\<close>: the renewed row's remaining time is measured against the same \<open>now()\<close>.\<close>

definition renew_lease :: "purchase_lease \<Rightarrow> int \<Rightarrow> hold_db \<Rightarrow> bool \<times> hold_db" where
  "renew_lease lease min_remaining_ms db =
     (case db_leases db (le_key lease) of
        None \<Rightarrow> (False, db)
      | Some row \<Rightarrow>
          if ls_holder row = le_holder lease
          then (let until = db_now db + purchase_lease_ttl_ms
                in (until - db_now db > min_remaining_ms,
                    db\<lparr>db_leases := (db_leases db)(le_key lease \<mapsto> row\<lparr>ls_expires_at := until\<rparr>)\<rparr>))
          else (False, db))"

text \<open>\<open>fenceFor(lease)\<close>: \<open>False\<close> is \<open>PurchaseLeaseLostError\<close>.\<close>

definition fence_for :: "purchase_lease \<Rightarrow> hold_db \<Rightarrow> bool \<times> hold_db" where
  "fence_for lease db = renew_lease lease 0 db"

definition release_lease :: "purchase_lease \<Rightarrow> hold_db \<Rightarrow> hold_db" where
  "release_lease lease db =
     (case db_leases db (le_key lease) of
        None \<Rightarrow> db
      | Some row \<Rightarrow>
          if ls_holder row = le_holder lease
          then db\<lparr>db_leases := (db_leases db)(le_key lease := None)\<rparr> else db)"

section \<open>The fences of a state write\<close>

record hold_ref =
  hr_id :: string
  hr_version :: nat

text \<open>A lease row that is live and still names this holder.\<close>

definition lease_live :: "purchase_lease \<Rightarrow> hold_db \<Rightarrow> bool" where
  "lease_live lease db =
     (case db_leases db (le_key lease) of
        None \<Rightarrow> False
      | Some row \<Rightarrow> ls_holder row = le_holder lease \<and> ls_expires_at row > db_now db)"

definition lease_fence :: "purchase_lease \<Rightarrow> hold_db \<Rightarrow> hold_row \<Rightarrow> bool" where
  "lease_fence lease db r \<longleftrightarrow> lease_live lease db \<and> le_key lease = lease_key_sql r"

definition state_write_fence :: "purchase_lease \<Rightarrow> hold_ref \<Rightarrow> hold_db \<Rightarrow> hold_row \<Rightarrow> bool" where
  "state_write_fence lease ref db r \<longleftrightarrow>
     ph_id r = hr_id ref \<and> ph_version r = hr_version ref \<and> lease_fence lease db r"

section \<open>E0: opening a hold\<close>

record open_input =
  oi_scope :: "hold_scope option"
  oi_subscription_id :: string
  oi_customer_id :: string
  oi_payer_key :: string
  oi_invoice_id :: string
  oi_payment_intent_id :: "string option"
  oi_state :: hold_state
  oi_next_check_at :: int
  oi_opened_by :: hold_opener
  oi_opened_by_user_id :: "string option"
  oi_open_note :: "string option"

datatype open_result = Opened hold_row | AlreadyOpen "hold_row option" | OpenLeaseLost

text \<open>
  What \<open>openHold\<close> throws: the lease is not the hold's own, or the insert breaks the primary key (a
  repeated random id).
\<close>

datatype open_error = WrongLease | DuplicateHoldId

definition hold_of_input :: "string \<Rightarrow> hold_scope \<Rightarrow> open_input \<Rightarrow> int \<Rightarrow> hold_row" where
  "hold_of_input new_id sc i now =
     \<lparr>ph_id = new_id, ph_subscription_id = oi_subscription_id i, ph_customer_id = oi_customer_id i,
      ph_scope = sc, ph_payer_key = oi_payer_key i, ph_invoice_id = oi_invoice_id i,
      ph_payment_intent_id = oi_payment_intent_id i, ph_state = oi_state i,
      ph_release_reason = None, ph_released_at = None, ph_released_by = None, ph_release_note = None,
      ph_refund_attempt = 0, ph_attempts = 0, ph_last_error = None,
      ph_next_check_at = Some (oi_next_check_at i), ph_alerted_at = None,
      ph_notice_last_sent_at = None, ph_notified_state = None, ph_notified_at = None,
      ph_opened_by_user_id = oi_opened_by_user_id i, ph_opened_by = oi_opened_by i,
      ph_open_note = oi_open_note i, ph_state_since = now, ph_last_pay = None,
      ph_refund_action_since = None, ph_age_alerted_at = None, ph_observed_at = now,
      ph_nudged_at = None, ph_version = 0, ph_created_at = now, ph_updated_at = now\<rparr>"

definition is_open_on :: "string \<Rightarrow> hold_row \<Rightarrow> bool" where
  "is_open_on sub r \<longleftrightarrow> ph_subscription_id r = sub \<and> ph_state r \<noteq> HoldReleased"

definition open_hold ::
  "string \<Rightarrow> purchase_lease \<Rightarrow> open_input \<Rightarrow> hold_db \<Rightarrow> (open_error + open_result) \<times> hold_db" where
  "open_hold new_id lease i db =
     (let sc = (case oi_scope i of None \<Rightarrow> NewOrg | Some s \<Rightarrow> s) in
      if le_key lease \<noteq> lease_key_for sc (oi_payer_key i) then (Inl WrongLease, db)
      else if \<not> lease_live lease db then (Inr OpenLeaseLost, db)
      else (case List.find (is_open_on (oi_subscription_id i)) (db_holds db) of
              Some existing \<Rightarrow> (Inr (AlreadyOpen (Some existing)), db)
            | None \<Rightarrow>
                if new_id \<in> set (map ph_id (db_holds db)) then (Inl DuplicateHoldId, db)
                else (let h = hold_of_input new_id sc i (db_now db)
                      in (Inr (Opened h), db\<lparr>db_holds := db_holds db @ [h]\<rparr>))))"

section \<open>State writes that keep the hold open\<close>

text \<open>
  \<open>HoldStatePatch\<close>: an absent key is \<open>None\<close>; a nullable value that is present is \<open>Some None\<close> or
  \<open>Some (Some x)\<close>.
\<close>

record hold_patch =
  hp_state :: "hold_state option"
  hp_attempts :: "nat option"
  hp_last_error :: "string option option"
  hp_last_pay :: "string option option"
  hp_refund_action_since :: "int option option"
  hp_observed_at :: "int option"
  hp_next_check_at :: "int option"
  hp_alerted_at :: "int option option"
  hp_age_alerted_at :: "int option option"

definition empty_patch :: hold_patch where
  "empty_patch = \<lparr>hp_state = None, hp_attempts = None, hp_last_error = None, hp_last_pay = None,
     hp_refund_action_since = None, hp_observed_at = None, hp_next_check_at = None,
     hp_alerted_at = None, hp_age_alerted_at = None\<rparr>"

text \<open>\<open>...(v !== undefined ? { column: v } : {})\<close>.\<close>

definition set_if :: "'v option \<Rightarrow> 'v \<Rightarrow> 'v" where
  "set_if v old = (case v of None \<Rightarrow> old | Some x \<Rightarrow> x)"

definition apply_patch :: "int \<Rightarrow> hold_patch \<Rightarrow> hold_row \<Rightarrow> hold_row" where
  "apply_patch now p r =
     r\<lparr>ph_state := set_if (hp_state p) (ph_state r),
       ph_state_since := (case hp_state p of None \<Rightarrow> ph_state_since r
                          | Some s \<Rightarrow> if ph_state r = s then ph_state_since r else now),
       ph_attempts := set_if (hp_attempts p) (ph_attempts r),
       ph_last_error := set_if (hp_last_error p) (ph_last_error r),
       ph_last_pay := set_if (hp_last_pay p) (ph_last_pay r),
       ph_refund_action_since := set_if (hp_refund_action_since p) (ph_refund_action_since r),
       ph_observed_at := set_if (hp_observed_at p) (ph_observed_at r),
       ph_next_check_at := (case hp_next_check_at p of None \<Rightarrow> ph_next_check_at r | Some t \<Rightarrow> Some t),
       ph_alerted_at := set_if (hp_alerted_at p) (ph_alerted_at r),
       ph_age_alerted_at := set_if (hp_age_alerted_at p) (ph_age_alerted_at r),
       ph_version := ph_version r + 1,
       ph_updated_at := now\<rparr>"

definition write_hold_state ::
  "purchase_lease \<Rightarrow> hold_ref \<Rightarrow> hold_patch \<Rightarrow> hold_db \<Rightarrow> hold_row option \<times> hold_db" where
  "write_hold_state lease ref p db =
     (let (ret, db') = update_holds
            (\<lambda>r. state_write_fence lease ref db r \<and> ph_state r \<noteq> HoldReleased)
            (apply_patch (db_now db) p) db
      in (first_row ret, db'))"

definition bump_attempt :: "int \<Rightarrow> hold_row \<Rightarrow> hold_row" where
  "bump_attempt now r = r\<lparr>ph_refund_attempt := ph_refund_attempt r + 1,
     ph_version := ph_version r + 1, ph_updated_at := now\<rparr>"

definition reserve_refund_attempt ::
  "purchase_lease \<Rightarrow> hold_ref \<Rightarrow> hold_db \<Rightarrow> (nat \<times> hold_row) option \<times> hold_db" where
  "reserve_refund_attempt lease ref db =
     (let (ret, db') = update_holds
            (\<lambda>r. state_write_fence lease ref db r \<and> ph_state r \<noteq> HoldReleased)
            (bump_attempt (db_now db)) db
      in (map_option (\<lambda>r. (ph_refund_attempt r - 1, r)) (first_row ret), db'))"

text \<open>The one write on a released row: the relink bookkeeping of an \<open>adopted\<close> \<open>new_org\<close> hold.\<close>

record relink_patch =
  rp_attempts :: "nat option"
  rp_last_error :: "string option option"
  rp_next_check_at :: "int option"
  rp_alerted_at :: "int option"

definition apply_relink :: "int \<Rightarrow> relink_patch \<Rightarrow> hold_row \<Rightarrow> hold_row" where
  "apply_relink now p r =
     r\<lparr>ph_attempts := set_if (rp_attempts p) (ph_attempts r),
       ph_last_error := set_if (rp_last_error p) (ph_last_error r),
       ph_next_check_at := rp_next_check_at p,
       ph_alerted_at := (case rp_alerted_at p of None \<Rightarrow> ph_alerted_at r | Some t \<Rightarrow> Some t),
       ph_version := ph_version r + 1, ph_updated_at := now\<rparr>"

definition write_adopted_relink_state ::
  "purchase_lease \<Rightarrow> hold_ref \<Rightarrow> relink_patch \<Rightarrow> hold_db \<Rightarrow> hold_row option \<times> hold_db" where
  "write_adopted_relink_state lease ref p db =
     (let (ret, db') = update_holds
            (\<lambda>r. state_write_fence lease ref db r \<and> ph_state r = HoldReleased \<and>
                 ph_release_reason r = Some Adopted \<and> ph_scope r = NewOrg)
            (apply_relink (db_now db) p) db
      in (first_row ret, db'))"

section \<open>Releasing a hold\<close>

record release_input =
  ri_reason :: release_reason
  ri_released_by :: "string option"
  ri_note :: "string option"
  ri_observed_at :: "int option"
  ri_last_pay :: "string option option"
  ri_expect_org_row :: "(string \<times> string) option"

record released_hold =
  rh_hold :: hold_row
  rh_closed_setup_id :: "string option"
  rh_checked_org_row :: "(string option \<times> string) option"

definition apply_release :: "int \<Rightarrow> release_input \<Rightarrow> hold_row \<Rightarrow> hold_row" where
  "apply_release now i r =
     r\<lparr>ph_state := HoldReleased, ph_state_since := now,
       ph_release_reason := Some (ri_reason i), ph_released_at := Some now,
       ph_released_by := ri_released_by i, ph_release_note := ri_note i,
       ph_next_check_at := (if ri_reason i = Adopted \<and> ph_scope r = NewOrg then Some now else None),
       ph_attempts := (if ri_reason i = Adopted \<and> ph_scope r = NewOrg then 0 else ph_attempts r),
       ph_last_error := (if ri_reason i = Adopted \<and> ph_scope r = NewOrg then None else ph_last_error r),
       ph_observed_at := set_if (ri_observed_at i) (ph_observed_at r),
       ph_last_pay := set_if (ri_last_pay i) (ph_last_pay r),
       ph_version := ph_version r + 1, ph_updated_at := now\<rparr>"

definition setup_is_open :: "setup_row \<Rightarrow> bool" where
  "setup_is_open s \<longleftrightarrow> su_closed_at s = None \<and> su_linked_at s = None"

definition close_setups_of :: "string \<Rightarrow> hold_db \<Rightarrow> string option \<times> hold_db" where
  "close_setups_of sub db =
     (let (ret, rs) = sql_update (\<lambda>s. su_subscription_id s = sub \<and> setup_is_open s)
            (\<lambda>s. s\<lparr>su_closed_at := Some (db_now db), su_closed_reason := Some ''hold_released'',
                   su_updated_at := db_now db\<rparr>) (db_setups db)
      in (map_option su_id (first_row ret), db\<lparr>db_setups := rs\<rparr>))"

text \<open>The \<open>expectOrgRow\<close> check: \<open>Inl ()\<close> refuses, \<open>Inr\<close> carries the row the check read, if any.\<close>

definition check_org_row ::
  "release_input \<Rightarrow> hold_db \<Rightarrow> unit + (string option \<times> string) option" where
  "check_org_row i db =
     (case ri_expect_org_row i of
        None \<Rightarrow> Inr None
      | Some (org, sub) \<Rightarrow>
          (case db_billing db org of
             None \<Rightarrow> Inl ()
           | Some row \<Rightarrow>
               if bl_subscription_id row \<noteq> Some sub then Inl ()
               else Inr (Some (bl_subscription_id row, bl_status row))))"

definition release_hold ::
  "purchase_lease \<Rightarrow> hold_ref \<Rightarrow> release_input \<Rightarrow> hold_db \<Rightarrow> released_hold option \<times> hold_db" where
  "release_hold lease ref i db =
     (case check_org_row i db of
        Inl _ \<Rightarrow> (None, db)
      | Inr checked \<Rightarrow>
          (let (ret, db1) = update_holds
                 (\<lambda>r. state_write_fence lease ref db r \<and> ph_state r \<noteq> HoldReleased)
                 (apply_release (db_now db) i) db
           in case first_row ret of
                None \<Rightarrow> (None, db1)
              | Some h \<Rightarrow>
                  if ri_reason i = Adopted \<or> ph_scope h \<noteq> NewOrg
                  then (Some \<lparr>rh_hold = h, rh_closed_setup_id = None, rh_checked_org_row = checked\<rparr>, db1)
                  else (let (closed, db2) = close_setups_of (ph_subscription_id h) db1
                        in (Some \<lparr>rh_hold = h, rh_closed_setup_id = closed,
                                  rh_checked_org_row = checked\<rparr>, db2))))"

section \<open>Hint writes, notice claims and reads\<close>

definition nudge_hold :: "string \<Rightarrow> hold_db \<Rightarrow> nat \<times> hold_db" where
  "nudge_hold sub db =
     (let (ret, db') = update_holds (is_open_on sub)
            (\<lambda>r. r\<lparr>ph_nudged_at := Some (db_now db), ph_updated_at := db_now db\<rparr>) db
      in (length ret, db'))"

definition stamp_hold_notice :: "string list \<Rightarrow> hold_db \<Rightarrow> nat \<times> hold_db" where
  "stamp_hold_notice ids db =
     (if ids = [] then (0, db)
      else (let (ret, db') = update_holds (\<lambda>r. ph_id r \<in> set ids)
                   (\<lambda>r. r\<lparr>ph_notice_last_sent_at := Some (db_now db)\<rparr>) db
            in (length ret, db')))"

definition notice_state_predicate :: "notified_state \<Rightarrow> hold_row \<Rightarrow> bool" where
  "notice_state_predicate st r =
     (if st = NotifiedRefundPending then ph_state r = RefundPending
      else ph_state r = HoldReleased \<and>
           ph_release_reason r = Some (if st = NotifiedReleasedRefunded then Refunded else Adopted))"

definition claim_hold_notice :: "string \<Rightarrow> notified_state \<Rightarrow> hold_db \<Rightarrow> bool \<times> hold_db" where
  "claim_hold_notice hid st db =
     (let (ret, db') = update_holds
            (\<lambda>r. ph_id r = hid \<and> ph_notified_state r \<noteq> Some st \<and> notice_state_predicate st r)
            (\<lambda>r. r\<lparr>ph_notified_state := Some st, ph_notified_at := Some (db_now db)\<rparr>) db
      in (length ret > 0, db'))"

definition unclaim_hold_notice :: "string \<Rightarrow> notified_state \<Rightarrow> hold_db \<Rightarrow> hold_db" where
  "unclaim_hold_notice hid st db =
     snd (update_holds (\<lambda>r. ph_id r = hid \<and> ph_notified_state r = Some st)
            (\<lambda>r. r\<lparr>ph_notified_state := None, ph_notified_at := None\<rparr>) db)"

definition refund_notice_window_ms :: int where
  "refund_notice_window_ms = 14 * 24 * 60 * 60 * 1000"

definition payment_holds_of :: "hold_scope \<Rightarrow> string \<Rightarrow> hold_db \<Rightarrow> hold_row list" where
  "payment_holds_of sc payer db =
     sort_key ph_created_at
       (filter (\<lambda>r. ph_scope r = sc \<and> ph_payer_key r = payer \<and>
            (ph_state r \<noteq> HoldReleased \<or>
             ((ph_release_reason r = Some Refunded \<or> ph_release_reason r = Some AlreadyRefunded) \<and>
              (case ph_released_at r of None \<Rightarrow> False
               | Some t \<Rightarrow> t > db_now db - refund_notice_window_ms)))) (db_holds db))"

definition open_hold_on :: "string \<Rightarrow> hold_db \<Rightarrow> hold_row option" where
  "open_hold_on sub db = first_row (filter (is_open_on sub) (db_holds db))"

lemmas hold_store_defs =
  write_hold_state_def reserve_refund_attempt_def write_adopted_relink_state_def release_hold_def
  nudge_hold_def stamp_hold_notice_def claim_hold_notice_def unclaim_hold_notice_def
  open_hold_def try_acquire_lease_def renew_lease_def fence_for_def release_lease_def
  close_setups_of_def

section \<open>A database for the concrete inputs of the witnesses\<close>

definition sample_lease :: purchase_lease where
  "sample_lease = \<lparr>le_key = ''user:u1'', le_holder = ''r1''\<rparr>"

definition sample_setup :: setup_row where
  "sample_setup = \<lparr>su_id = ''s1'', su_subscription_id = ''sub_1'', su_linked_at = None,
     su_closed_at = None, su_closed_reason = None, su_updated_at = 0\<rparr>"

definition sample_db :: hold_db where
  "sample_db = \<lparr>db_holds = [sample_hold],
     db_leases = [''user:u1'' \<mapsto> \<lparr>ls_holder = ''r1'', ls_expires_at = 1000\<rparr>],
     db_setups = [sample_setup], db_billing = Map.empty, db_now = 7\<rparr>"

lemma sample_db_simps [simp]:
  "db_holds sample_db = [sample_hold]" "db_setups sample_db = [sample_setup]"
  "db_leases sample_db = [''user:u1'' \<mapsto> \<lparr>ls_holder = ''r1'', ls_expires_at = 1000\<rparr>]"
  "db_now sample_db = 7" "db_billing sample_db = Map.empty"
  by (simp_all add: sample_db_def)

lemma sample_table_ok [simp]: "distinct (open_subscriptions [sample_hold])" "row_checks sample_hold"
  "table_ok [sample_hold]"
  by (simp_all add: table_ok_def open_subscriptions_def row_checks_def)

lemma sample_fence [simp]:
  "state_write_fence sample_lease \<lparr>hr_id = ''h1'', hr_version = 0\<rparr> sample_db sample_hold"
  by (simp add: state_write_fence_def lease_fence_def lease_live_def sample_lease_def lease_key_sql_def)

lemma sample_write [simp]:
  "fst (write_hold_state sample_lease \<lparr>hr_id = ''h1'', hr_version = 0\<rparr> p sample_db) =
     Some (apply_patch 7 p sample_hold)"
  by (simp add: write_hold_state_def update_holds_def sql_update_def first_row_def)

end
