(* ===== verification/Hold_Machine.thy ===== *)
theory Hold_Machine
  imports Hold_Observe Hold_Store
begin

text \<open>
  The transition table of a payment hold (\<open>decide\<close> and \<open>decideSucceeded\<close> of
  \<open>lib/billing/payment-holds/machine.ts\<close>): one observation in, the first matching row out. The
  constructors of \<open>hold_tag\<close> are the row names of the source.
\<close>

section \<open>Constants\<close>

definition link_refused_note :: string where
  "link_refused_note = ''link_refused''"

definition refund_budget :: nat where
  "refund_budget = 5"

definition minute_ms :: int where
  "minute_ms = 60000"

definition refund_backoff_ms :: "int list" where
  "refund_backoff_ms = map (\<lambda>m. m * 60000) [5, 30, 120, 360, 1440]"

definition max_acts :: nat where
  "max_acts = 3"

definition max_reads :: nat where
  "max_reads = 1 + max_acts + 1"

text \<open>\<open>NEXT_CHECK_MS\<close>; its type excludes \<open>refund_due\<close> and \<open>released\<close>.\<close>

fun next_check_ms :: "hold_state \<Rightarrow> int option" where
  "next_check_ms Closing = Some (5 * minute_ms)"
| "next_check_ms CancelUnproven = Some (5 * minute_ms)"
| "next_check_ms InvoicePayable = Some (15 * minute_ms)"
| "next_check_ms PaymentInFlight = Some (60 * minute_ms)"
| "next_check_ms RefundPending = Some (60 * minute_ms)"
| "next_check_ms NeedsOperator = Some (24 * 60 * minute_ms)"
| "next_check_ms RefundDue = None"
| "next_check_ms HoldReleased = None"

text \<open>
  \<open>nextCheck\<close>. The backoff index is always in range, so \<open>ms ?? 5 * MINUTE\<close> only matters for a state
  that has no entry, which no caller passes.
\<close>

definition next_check :: "hold_state \<Rightarrow> nat \<Rightarrow> int \<Rightarrow> int" where
  "next_check st refund_attempt now =
     (let ms = (if st = RefundDue
                then Some (refund_backoff_ms ! (min (max refund_attempt 1) (length refund_backoff_ms) - 1))
                else next_check_ms st)
      in now + (case ms of None \<Rightarrow> 5 * minute_ms | Some m \<Rightarrow> m))"

section \<open>Decisions\<close>

datatype hold_tag =
    T1 | T2 | T2o | T3 | T3v | T3a | T3b | T4 | T5 | T6 | T7 | T8 | T8d | T9
  | T10 | T10p | T10f | T11 | T11r | T12 | T13 | T14 | T15 | T17

datatype hold_act =
    ActVoid | ActCancel | ActCancelPi string | ActDeleteDraft | ActRefund "succeeded_payment list"

datatype decision =
    DRelease hold_tag release_reason
  | DStay hold_tag hold_state "string option" bool
  | DOperator hold_tag string "string option"
  | DReread hold_tag
  | DAct hold_tag hold_act

fun decision_row :: "decision \<Rightarrow> hold_tag" where
  "decision_row (DRelease t _) = t"
| "decision_row (DStay t _ _ _) = t"
| "decision_row (DOperator t _ _) = t"
| "decision_row (DReread t) = t"
| "decision_row (DAct t _) = t"

record call_context =
  cc_reread :: bool
  cc_cancel_attempted :: bool
  cc_void_failed :: bool
  cc_voided :: bool
  cc_pi_cancel_attempted :: bool
  cc_refund_attempted :: bool
  cc_refund_failed :: bool

definition new_call_context :: call_context where
  "new_call_context = \<lparr>cc_reread = False, cc_cancel_attempted = False, cc_void_failed = False,
     cc_voided = False, cc_pi_cancel_attempted = False, cc_refund_attempted = False,
     cc_refund_failed = False\<rparr>"

definition is_closing :: "hold_state \<Rightarrow> bool" where
  "is_closing s \<longleftrightarrow> s = Closing \<or> s = CancelUnproven"

section \<open>The strings a decision's detail is made of\<close>

fun pay_kind :: "pay_obs \<Rightarrow> string" where
  "pay_kind PayAwaiting = ''awaiting''"
| "pay_kind PayFailed = ''failed''"
| "pay_kind (PayInFlight _) = ''in_flight''"
| "pay_kind (PayCapturable _) = ''capturable''"
| "pay_kind (PaySucceeded _) = ''succeeded''"
| "pay_kind PayUnrecognised = ''unrecognised''"

fun sub_read :: "sub_obs \<Rightarrow> string" where
  "sub_read SubIncomplete = ''incomplete''"
| "sub_read (SubEnded _) = ''ended''"
| "sub_read (SubLive st) = st"
| "sub_read SubMissing = ''missing''"
| "sub_read (SubOther st) = st"

fun inv_str :: "inv_obs \<Rightarrow> string" where
  "inv_str InvOpen = ''open''"
| "inv_str InvUncollectible = ''uncollectible''"
| "inv_str InvDraft = ''draft''"
| "inv_str InvVoid = ''void''"
| "inv_str InvPaid = ''paid''"
| "inv_str InvNone = ''none''"
| "inv_str InvOther = ''other''"

section \<open>The table\<close>

definition is_uncovered :: "succeeded_payment \<Rightarrow> bool" where
  "is_uncovered p \<longleftrightarrow> ro_kind (sp_refund p) = RfNone \<or> ro_kind (sp_refund p) = RfPartial"

definition budget_detail :: "nat \<Rightarrow> string" where
  "budget_detail n = ''the refund budget is spent: '' @ nat_str n @ '' of '' @ nat_str refund_budget
     @ '' refund attempts made, and ''"

definition decide_succeeded :: "hold_row \<Rightarrow> succeeded_payment list \<Rightarrow> call_context \<Rightarrow> decision" where
  "decide_succeeded h pis ctx =
     (let uncovered = filter is_uncovered pis in
      if uncovered = [] then
        (if \<forall>p\<in>set pis. ro_kind (sp_refund p) = RfDone
         then DRelease T10 (if \<forall>p\<in>set pis. ro_by_this_hold (sp_refund p) then Refunded else AlreadyRefunded)
         else DStay T10p RefundPending None False)
      else
        (let pi = map_option sp_id (first_row uncovered);
             spent = (ph_refund_attempt h \<ge> refund_budget) in
         if ph_state h = RefundPending then
           DStay T10f RefundDue
             (Some ''a refund the hold issued no longer covers the payment (it failed or was canceled)'') False
         else if cc_refund_failed ctx \<and> spent then
           DOperator T14 (budget_detail (ph_refund_attempt h) @ ''the last one failed'') pi
         else if cc_refund_attempted ctx then DStay T13 RefundDue None False
         else if spent then
           DOperator T14 (budget_detail (ph_refund_attempt h) @ ''a payment is still not covered'') pi
         else DAct T5 (ActRefund uncovered)))"

definition missing_detail :: "hold_state \<Rightarrow> string" where
  "missing_detail st = ''subscription not found in Stripe (resource_missing) while the hold was '' @ state_str st"

text \<open>The rows of a hold already with an operator.\<close>

definition decide_operator :: "hold_row \<Rightarrow> hold_obs \<Rightarrow> decision" where
  "decide_operator h ob =
     (if (case ob_sub ob of SubLive st \<Rightarrow> st = ''active'' \<or> st = ''trialing'' | _ \<Rightarrow> False) \<and>
         ph_open_note h \<noteq> Some link_refused_note
      then DRelease T2o Adopted
      else if ob_sub ob = SubMissing
      then DStay T1 NeedsOperator (Some (missing_detail NeedsOperator)) False
      else DStay T15 NeedsOperator None False)"

text \<open>
  The rows of a closing hold whose subscription still reads \<open>incomplete\<close>; \<open>None\<close> falls through to
  the rows below them.
\<close>

definition decide_incomplete :: "hold_row \<Rightarrow> hold_obs \<Rightarrow> call_context \<Rightarrow> decision option" where
  "decide_incomplete h ob ctx =
     (if cc_cancel_attempted ctx then
        Some (if ph_state h = Closing then DStay T3a CancelUnproven None True
              else DStay T3b CancelUnproven
                     (Some ''the cancel of the subscription could not be confirmed twice'') True)
      else if (ob_pay ob = PayAwaiting \<or> ob_pay ob = PayFailed) \<and>
              (ob_inv ob = InvOpen \<or> ob_inv ob = InvUncollectible) then Some (DAct T3 ActVoid)
      else if (ob_pay ob = PayAwaiting \<or> ob_pay ob = PayFailed) \<and> ob_inv ob = InvVoid
      then Some (DAct T3v ActCancel)
      else (case ob_pay ob of
              PayInFlight _ \<Rightarrow> Some (DStay T4 (ph_state h) None False)
            | PayCapturable _ \<Rightarrow> Some (DStay T4 (ph_state h) None False)
            | PaySucceeded _ \<Rightarrow> Some (DStay T4 (ph_state h) None False)
            | _ \<Rightarrow> None))"

definition is_succeeded_pay :: "pay_obs \<Rightarrow> bool" where
  "is_succeeded_pay p = (case p of PaySucceeded _ \<Rightarrow> True | _ \<Rightarrow> False)"

definition is_live_sub :: "sub_obs \<Rightarrow> bool" where
  "is_live_sub s = (case s of SubLive _ \<Rightarrow> True | _ \<Rightarrow> False)"

lemma is_live_sub_iff [simp]: "is_live_sub s \<longleftrightarrow> (\<exists>st. s = SubLive st)"
  by (cases s) (simp_all add: is_live_sub_def)

text \<open>T17: no row matches.\<close>

definition decide_none :: "hold_row \<Rightarrow> hold_obs \<Rightarrow> decision" where
  "decide_none h ob =
     DOperator T17 (''no transition matches: hold '' @ state_str (ph_state h) @ '', subscription ''
        @ sub_read (ob_sub ob) @ '', invoice '' @ inv_str (ob_inv ob)
        @ '', payments '' @ pay_kind (ob_pay ob)) None"

text \<open>The rows of an ended subscription (T5 to T10f, T12 to T14).\<close>

definition decide_ended :: "hold_row \<Rightarrow> hold_obs \<Rightarrow> bool \<Rightarrow> call_context \<Rightarrow> decision" where
  "decide_ended h ob expired ctx =
     (case ob_pay ob of
        PaySucceeded pis \<Rightarrow> decide_succeeded h pis ctx
      | _ \<Rightarrow>
          if ph_state h = RefundPending then decide_none h ob
          else (case ob_pay ob of
                  PayInFlight _ \<Rightarrow> DStay T6 PaymentInFlight None False
                | PayCapturable pi \<Rightarrow>
                    if cc_pi_cancel_attempted ctx then DStay T7 PaymentInFlight None False
                    else DAct T7 (ActCancelPi pi)
                | _ \<Rightarrow>
                    if ob_inv ob = InvOpen \<or> ob_inv ob = InvUncollectible then
                      (if cc_void_failed ctx then DStay T12 InvoicePayable None False
                       else DAct T8 ActVoid)
                    else if ob_inv ob = InvDraft then DAct T8d ActDeleteDraft
                    else if ob_inv ob = InvVoid \<or> ob_inv ob = InvNone then
                      DRelease T9 (if expired \<and> \<not> cc_voided ctx then ExpiredUnpaid else VoidedUnpaid)
                    else decide_none h ob))"

definition decide :: "hold_row \<Rightarrow> hold_obs \<Rightarrow> call_context \<Rightarrow> decision" where
  "decide h ob ctx =
     (if ph_state h = NeedsOperator then decide_operator h ob
      else if ob_sub ob = SubMissing then DOperator T1 (missing_detail (ph_state h)) None
      else if is_closing (ph_state h) \<and> is_live_sub (ob_sub ob) then DRelease T2 Adopted
      else (case (if is_closing (ph_state h) \<and> ob_sub ob = SubIncomplete
                  then decide_incomplete h ob ctx else None) of
              Some dec \<Rightarrow> dec
            | None \<Rightarrow>
                if ob_inv ob = InvPaid \<and> \<not> is_succeeded_pay (ob_pay ob) then
                  (if cc_reread ctx
                   then DOperator T11r ''the held invoice reads paid, but no PaymentIntent on it reads succeeded on two reads'' None
                   else DReread T11r)
                else if ob_pay ob = PayUnrecognised then
                  (if cc_reread ctx
                   then DOperator T11 ''the held invoice has a payment that is not a PaymentIntent, or more payments than one page, on two reads'' None
                   else DReread T11)
                else (case ob_sub ob of
                        SubEnded expired \<Rightarrow> decide_ended h ob expired ctx
                      | _ \<Rightarrow> decide_none h ob)))"


section \<open>What a decision rests on\<close>

lemmas decide_defs = decide_def decide_operator_def decide_incomplete_def decide_ended_def
  decide_succeeded_def decide_none_def

lemma decide_none_simps [simp]:
  "decide_none h ob \<noteq> DRelease t r" "decide_none h ob \<noteq> DReread t" "decide_none h ob \<noteq> DAct t x"
  "decide_none h ob \<noteq> DStay t st al ca"
  "decision_row (decide_none h ob) = T17"
  by (simp_all add: decide_none_def)

lemma decide_succeeded_release:
  "decide_succeeded h pis ctx = DRelease t r \<longleftrightarrow>
     (\<forall>p\<in>set pis. ro_kind (sp_refund p) = RfDone) \<and> t = T10 \<and>
     r = (if \<forall>p\<in>set pis. ro_by_this_hold (sp_refund p) then Refunded else AlreadyRefunded)"
proof (cases "filter is_uncovered pis = []")
  case True
  then show ?thesis by (auto simp: decide_succeeded_def)
next
  case False
  then have "\<not> (\<forall>p\<in>set pis. ro_kind (sp_refund p) = RfDone)"
    by (fastforce simp: filter_empty_conv is_uncovered_def)
  with False show ?thesis by (auto simp: decide_succeeded_def Let_def)
qed

lemma decide_succeeded_act:
  "decide_succeeded h pis ctx = DAct t x \<longleftrightarrow>
     t = T5 \<and> x = ActRefund (filter is_uncovered pis) \<and> filter is_uncovered pis \<noteq> [] \<and>
     ph_state h \<noteq> RefundPending \<and> \<not> cc_refund_attempted ctx \<and> ph_refund_attempt h < refund_budget"
  by (auto simp: decide_succeeded_def Let_def)

lemma decide_succeeded_reread [simp]: "decide_succeeded h pis ctx \<noteq> DReread t"
  by (simp add: decide_succeeded_def Let_def)

lemma decide_operator_release:
  "decide_operator h ob = DRelease t r \<longleftrightarrow>
     t = T2o \<and> r = Adopted \<and> (ob_sub ob = SubLive ''active'' \<or> ob_sub ob = SubLive ''trialing'') \<and>
     ph_open_note h \<noteq> Some link_refused_note"
  by (cases "ob_sub ob") (auto simp: decide_operator_def)

lemma decide_operator_simps [simp]:
  "decide_operator h ob \<noteq> DAct t x" "decide_operator h ob \<noteq> DReread t"
  by (simp_all add: decide_operator_def)

lemmas decide_neq_sym [simp] = decide_none_simps(1-4) [THEN not_sym] decide_operator_simps [THEN not_sym]

text \<open>A payment reading under which no money was taken and none is being taken.\<close>

definition pay_unpaid :: "pay_obs \<Rightarrow> bool" where
  "pay_unpaid p \<longleftrightarrow> p = PayAwaiting \<or> p = PayFailed"

lemma decide_ended_cases:
  assumes "ob_pay ob \<noteq> PayUnrecognised"
  shows "decide_ended h ob expired ctx =
     (case ob_pay ob of
        PaySucceeded pis \<Rightarrow> decide_succeeded h pis ctx
      | PayInFlight pi \<Rightarrow> if ph_state h = RefundPending then decide_none h ob else DStay T6 PaymentInFlight None False
      | PayCapturable pi \<Rightarrow> if ph_state h = RefundPending then decide_none h ob
          else if cc_pi_cancel_attempted ctx then DStay T7 PaymentInFlight None False
          else DAct T7 (ActCancelPi pi)
      | _ \<Rightarrow> if ph_state h = RefundPending then decide_none h ob
          else (case ob_inv ob of
             InvVoid \<Rightarrow> DRelease T9 (if expired \<and> \<not> cc_voided ctx then ExpiredUnpaid else VoidedUnpaid)
           | InvNone \<Rightarrow> DRelease T9 (if expired \<and> \<not> cc_voided ctx then ExpiredUnpaid else VoidedUnpaid)
           | InvDraft \<Rightarrow> DAct T8d ActDeleteDraft
           | InvPaid \<Rightarrow> decide_none h ob
           | InvOther \<Rightarrow> decide_none h ob
           | _ \<Rightarrow> if cc_void_failed ctx then DStay T12 InvoicePayable None False else DAct T8 ActVoid))"
  using assms by (cases "ob_pay ob"; cases "ob_inv ob") (simp_all add: decide_ended_def)

text \<open>The four shapes of a call that falls through to the rows of an ended subscription.\<close>

lemma decide_cases [consumes 0, case_names operator missing live incomplete paid unrecognised ended none]:
  obtains
    "ph_state h = NeedsOperator" "decide h ob ctx = decide_operator h ob"
  | "ph_state h \<noteq> NeedsOperator" "ob_sub ob = SubMissing" "decide h ob ctx = DOperator T1 (missing_detail (ph_state h)) None"
  | st where "is_closing (ph_state h)" "ob_sub ob = SubLive st" "decide h ob ctx = DRelease T2 Adopted"
  | dec where "is_closing (ph_state h)" "ob_sub ob = SubIncomplete" "decide_incomplete h ob ctx = Some dec"
      "decide h ob ctx = dec"
  | "ob_inv ob = InvPaid" "\<not> is_succeeded_pay (ob_pay ob)"
      "decide h ob ctx = DReread T11r \<and> \<not> cc_reread ctx \<or>
       cc_reread ctx \<and> (\<exists>s. decide h ob ctx = DOperator T11r s None)"
  | "ob_pay ob = PayUnrecognised"
      "decide h ob ctx = DReread T11 \<and> \<not> cc_reread ctx \<or>
       cc_reread ctx \<and> (\<exists>s. decide h ob ctx = DOperator T11 s None)"
  | expired where "ph_state h \<noteq> NeedsOperator" "ob_sub ob = SubEnded expired" "ob_pay ob \<noteq> PayUnrecognised"
      "ob_inv ob = InvPaid \<longrightarrow> is_succeeded_pay (ob_pay ob)"
      "decide h ob ctx = decide_ended h ob expired ctx"
  | "decide h ob ctx = decide_none h ob"
proof -
  consider "ph_state h = NeedsOperator" | "ph_state h \<noteq> NeedsOperator" "ob_sub ob = SubMissing"
    | st where "is_closing (ph_state h)" "ob_sub ob = SubLive st" "ob_sub ob \<noteq> SubMissing" "ph_state h \<noteq> NeedsOperator"
    | dec where "is_closing (ph_state h)" "ob_sub ob = SubIncomplete" "decide_incomplete h ob ctx = Some dec"
        "ph_state h \<noteq> NeedsOperator"
    | "ph_state h \<noteq> NeedsOperator" "ob_sub ob \<noteq> SubMissing"
      "\<not> (is_closing (ph_state h) \<and> (\<exists>st. ob_sub ob = SubLive st))"
      "(if is_closing (ph_state h) \<and> ob_sub ob = SubIncomplete then decide_incomplete h ob ctx else None) = None"
  proof (cases "ph_state h = NeedsOperator \<or> ob_sub ob = SubMissing \<or>
      is_closing (ph_state h) \<and> (\<exists>st. ob_sub ob = SubLive st)")
    case True
    with that(1-3) show ?thesis by fastforce
  next
    case False
    with that(4,5) show ?thesis
      by (cases "is_closing (ph_state h) \<and> ob_sub ob = SubIncomplete"; cases "decide_incomplete h ob ctx")
        simp_all
  qed
  then show ?thesis
  proof cases
    case 1
    show ?thesis by (rule that(1)) (simp_all add: 1 decide_def)
  next
    case 2
    show ?thesis by (rule that(2)) (simp_all add: 2 decide_def)
  next
    case (3 st)
    show ?thesis by (rule that(3) [OF 3(1,2)]) (simp add: 3 decide_def)
  next
    case (4 dec)
    show ?thesis by (rule that(4) [OF 4(1,2,3)]) (simp add: 4 decide_def)
  next
    case 5
    note d = decide_def [of h ob ctx] 5
    consider "ob_inv ob = InvPaid" "\<not> is_succeeded_pay (ob_pay ob)"
      | "\<not> (ob_inv ob = InvPaid \<and> \<not> is_succeeded_pay (ob_pay ob))" "ob_pay ob = PayUnrecognised"
      | e where "\<not> (ob_inv ob = InvPaid \<and> \<not> is_succeeded_pay (ob_pay ob))" "ob_pay ob \<noteq> PayUnrecognised"
          "ob_sub ob = SubEnded e"
      | "\<not> (ob_inv ob = InvPaid \<and> \<not> is_succeeded_pay (ob_pay ob))" "ob_pay ob \<noteq> PayUnrecognised"
          "\<not> (\<exists>e. ob_sub ob = SubEnded e)" by blast
    then show ?thesis
    proof cases
      case 1
      show ?thesis by (rule that(5) [OF 1]) (simp add: d 1)
    next
      case 2
      show ?thesis by (rule that(6) [OF 2(2)]) (use 2 in \<open>simp add: d is_succeeded_pay_def\<close>)
    next
      case (3 e)
      show ?thesis by (rule that(7) [OF 5(1) 3(3) 3(2)]) (use 3 d in \<open>auto simp del: de_Morgan_conj\<close>)
    next
      case 4
      then have "(case ob_sub ob of SubEnded e \<Rightarrow> decide_ended h ob e ctx | _ \<Rightarrow> decide_none h ob) = decide_none h ob"
        by (cases "ob_sub ob") auto
      then show ?thesis by (intro that(8)) (simp add: d 4 del: de_Morgan_conj)
    qed
  qed
qed


lemma decide_incomplete_Some:
  assumes "decide_incomplete h ob ctx = Some dec"
  shows "(\<exists>t al. dec = DStay t CancelUnproven al True \<and> cc_cancel_attempted ctx) \<or>
     dec = DAct T3 ActVoid \<and> pay_unpaid (ob_pay ob) \<and> (ob_inv ob = InvOpen \<or> ob_inv ob = InvUncollectible)
       \<and> \<not> cc_cancel_attempted ctx \<or>
     dec = DAct T3v ActCancel \<and> pay_unpaid (ob_pay ob) \<and> ob_inv ob = InvVoid \<and> \<not> cc_cancel_attempted ctx \<or>
     dec = DStay T4 (ph_state h) None False \<and> \<not> pay_unpaid (ob_pay ob)"
  using assms
  by (cases "ob_pay ob") (auto simp: decide_incomplete_def pay_unpaid_def split: if_splits)

lemma decide_release:
  assumes "decide h ob ctx = DRelease t r"
  shows "(r = Adopted \<and> (\<exists>st. ob_sub ob = SubLive st \<and>
            (is_closing (ph_state h) \<or>
             ph_state h = NeedsOperator \<and> (st = ''active'' \<or> st = ''trialing'') \<and>
             ph_open_note h \<noteq> Some link_refused_note))) \<or>
         (\<exists>x. ob_sub ob = SubEnded x) \<and> ph_state h \<noteq> NeedsOperator \<and>
         ((\<exists>pis. ob_pay ob = PaySucceeded pis \<and> (\<forall>p\<in>set pis. ro_kind (sp_refund p) = RfDone) \<and>
             r = (if \<forall>p\<in>set pis. ro_by_this_hold (sp_refund p) then Refunded else AlreadyRefunded)) \<or>
          pay_unpaid (ob_pay ob) \<and> (ob_inv ob = InvVoid \<or> ob_inv ob = InvNone) \<and>
          ph_state h \<noteq> RefundPending \<and> (r = ExpiredUnpaid \<or> r = VoidedUnpaid))"
proof (cases rule: decide_cases [of h ob ctx])
  case operator
  with assms show ?thesis by (auto simp: decide_operator_release)
next
  case (live st)
  with assms show ?thesis by auto
next
  case (incomplete dec)
  with assms decide_incomplete_Some [of h ob ctx dec] show ?thesis by auto
next
  case (ended expired)
  from assms ended(5) have d: "decide_ended h ob expired ctx = DRelease t r" by simp
  show ?thesis
  proof (cases "ob_pay ob")
    case (PaySucceeded pis)
    with d have "decide_succeeded h pis ctx = DRelease t r" by (simp add: decide_ended_cases)
    with PaySucceeded ended(1,2) show ?thesis unfolding decide_succeeded_release by auto
  qed (use d ended in \<open>auto simp: decide_ended_cases pay_unpaid_def split: if_splits inv_obs.splits\<close>)
qed (use assms in auto)

text \<open>When each Stripe write is made.\<close>

definition act_evidence :: "hold_row \<Rightarrow> hold_obs \<Rightarrow> call_context \<Rightarrow> hold_act \<Rightarrow> bool" where
  "act_evidence h ob ctx x =
     (case x of
        ActVoid \<Rightarrow> pay_unpaid (ob_pay ob) \<and> (ob_inv ob = InvOpen \<or> ob_inv ob = InvUncollectible) \<and>
          (is_closing (ph_state h) \<and> ob_sub ob = SubIncomplete \<and> \<not> cc_cancel_attempted ctx \<or>
           (\<exists>e. ob_sub ob = SubEnded e) \<and> \<not> cc_void_failed ctx)
      | ActCancel \<Rightarrow> pay_unpaid (ob_pay ob) \<and> ob_inv ob = InvVoid \<and> is_closing (ph_state h) \<and>
          ob_sub ob = SubIncomplete \<and> \<not> cc_cancel_attempted ctx
      | ActCancelPi pi \<Rightarrow> ob_pay ob = PayCapturable pi \<and> (\<exists>e. ob_sub ob = SubEnded e) \<and>
          \<not> cc_pi_cancel_attempted ctx
      | ActDeleteDraft \<Rightarrow> pay_unpaid (ob_pay ob) \<and> ob_inv ob = InvDraft \<and> (\<exists>e. ob_sub ob = SubEnded e)
      | ActRefund pis \<Rightarrow> (\<exists>e. ob_sub ob = SubEnded e) \<and> pis \<noteq> [] \<and>
          (\<exists>all. ob_pay ob = PaySucceeded all \<and> pis = filter is_uncovered all) \<and>
          \<not> cc_refund_attempted ctx \<and> ph_refund_attempt h < refund_budget)"

lemma decide_act:
  assumes "decide h ob ctx = DAct t x"
  shows "act_evidence h ob ctx x \<and> (t = T8 \<longrightarrow> x = ActVoid) \<and>
    (x = ActVoid \<longrightarrow> (if t = T8 then \<exists>e. ob_sub ob = SubEnded e else t = T3 \<and> is_closing (ph_state h)))"
proof (cases rule: decide_cases [of h ob ctx])
  case (incomplete dec)
  with assms decide_incomplete_Some [of h ob ctx dec] show ?thesis by (auto simp: act_evidence_def)
next
  case (ended expired)
  from assms ended(5) have d: "decide_ended h ob expired ctx = DAct t x" by simp
  show ?thesis
  proof (cases "ob_pay ob")
    case (PaySucceeded pis)
    with d have "decide_succeeded h pis ctx = DAct t x" by (simp add: decide_ended_cases)
    with PaySucceeded ended(1,2) show ?thesis unfolding decide_succeeded_act by (auto simp: act_evidence_def)
  qed (use d ended in \<open>auto simp: decide_ended_cases pay_unpaid_def act_evidence_def
        split: if_splits inv_obs.splits\<close>)
qed (use assms in auto)

lemma decide_reread: "decide h ob ctx = DReread t \<Longrightarrow> \<not> cc_reread ctx"
proof (cases rule: decide_cases [of h ob ctx])
  case (incomplete dec)
  assume "decide h ob ctx = DReread t"
  with incomplete decide_incomplete_Some [of h ob ctx dec] show ?thesis by auto
next
  case (ended expired)
  assume "decide h ob ctx = DReread t"
  with ended have d: "decide_ended h ob expired ctx = DReread t" by simp
  with ended show ?thesis
    by (cases "ob_pay ob"; cases "ob_inv ob") (auto simp: decide_ended_cases split: if_splits)
qed auto

text \<open>A row that keeps the hold open names an open state.\<close>

lemma decide_stay_open:
  assumes "decide h ob ctx = DStay t st al ca"
  shows "st \<noteq> HoldReleased"
proof (cases rule: decide_cases [of h ob ctx])
  case operator
  with assms show ?thesis by (auto simp: decide_operator_def split: if_splits)
next
  case (incomplete dec)
  with assms decide_incomplete_Some [of h ob ctx dec] show ?thesis by (auto simp: is_closing_def)
next
  case (ended expired)
  from assms ended(5) have d: "decide_ended h ob expired ctx = DStay t st al ca" by simp
  show ?thesis
  proof (cases "ob_pay ob")
    case (PaySucceeded pis)
    with d have "decide_succeeded h pis ctx = DStay t st al ca" by (simp add: decide_ended_cases)
    then show ?thesis by (auto simp: decide_succeeded_def Let_def split: if_splits)
  qed (use d ended in \<open>auto simp: decide_ended_cases split: if_splits inv_obs.splits\<close>)
qed (use assms in auto)


section \<open>What the reads behind a release said\<close>

definition sub_answered :: "'w stripe_reader \<Rightarrow> hold_row \<Rightarrow> string \<Rightarrow> bool" where
  "sub_answered rd h st \<longleftrightarrow> (\<exists>a b. sub_retrieve rd (ph_subscription_id h) a = (Inr st, b))"

definition ended_answered :: "'w stripe_reader \<Rightarrow> hold_row \<Rightarrow> bool" where
  "ended_answered rd h \<longleftrightarrow> sub_answered rd h ''canceled'' \<or> sub_answered rd h ''incomplete_expired''"

lemma observed_sub:
  assumes "observe_hold rd h w = (Inr ob, w')"
  shows "ob_sub ob = SubLive st \<Longrightarrow> sub_answered rd h st \<and> st \<in> set live_statuses"
    and "ob_sub ob = SubEnded x \<Longrightarrow> ended_answered rd h"
    and "ob_sub ob = SubIncomplete \<Longrightarrow> sub_answered rd h ''incomplete''"
proof -
  from assms obtain sub w1 where
    sub: "read_twice ''subscriptions.retrieve'' (sub_retrieve rd (ph_subscription_id h)) w = (Inr sub, w1)"
    and s: "ob_sub ob = (case sub of ReadMissing \<Rightarrow> SubMissing | Read st \<Rightarrow> classify_sub st)"
    by (rule observe_hold_Inr)
  show "ob_sub ob = SubLive st \<Longrightarrow> sub_answered rd h st \<and> st \<in> set live_statuses"
    "ob_sub ob = SubEnded x \<Longrightarrow> ended_answered rd h"
    "ob_sub ob = SubIncomplete \<Longrightarrow> sub_answered rd h ''incomplete''"
    using s sub
    by (cases sub; fastforce simp: sub_answered_def ended_answered_def dest!: read_twice_ReadD
        split: if_splits)+
qed

text \<open>The held invoice was read with this status, or Stripe said twice that it has no such invoice.\<close>

definition invoice_answered :: "'w stripe_reader \<Rightarrow> hold_row \<Rightarrow> string \<Rightarrow> bool" where
  "invoice_answered rd h st \<longleftrightarrow> (\<exists>a b. inv_retrieve rd (ph_invoice_id h) a = (Inr (Some st), b))"

definition invoice_gone :: "'w stripe_reader \<Rightarrow> hold_row \<Rightarrow> bool" where
  "invoice_gone rd h \<longleftrightarrow>
     (\<exists>a b e. inv_retrieve rd (ph_invoice_id h) a = (Inl e, b) \<and> is_resource_missing e)"

text \<open>One complete page of recognised payments of the held invoice, with this payment reading.\<close>

definition payments_answered :: "'w stripe_reader \<Rightarrow> hold_row \<Rightarrow> pay_obs \<Rightarrow> bool" where
  "payments_answered rd h pay \<longleftrightarrow>
     (\<exists>a b pg intents. invpay_list rd (ph_invoice_id h) a = (Inr pg, b) \<and> \<not> has_more pg \<and>
        list_all2 intent_of_payment (page_data pg) intents \<and> pay_evidence rd (ph_id h) intents pay)"

lemma observed_invoice:
  assumes "observe_hold rd h w = (Inr ob, w')"
  shows "ob_inv ob = InvVoid \<Longrightarrow> invoice_answered rd h ''void''"
    and "ob_inv ob = InvNone \<Longrightarrow> invoice_gone rd h"
proof -
  from assms obtain w1 invoice w2 where
    r: "read_twice ''invoices.retrieve'' (inv_retrieve rd (ph_invoice_id h)) w1 = (Inr invoice, w2)"
    and i: "ob_inv ob = (case invoice of ReadMissing \<Rightarrow> InvNone | Read st \<Rightarrow> classify_invoice st)"
    by (rule observe_hold_Inr)
  show "ob_inv ob = InvVoid \<Longrightarrow> invoice_answered rd h ''void''" "ob_inv ob = InvNone \<Longrightarrow> invoice_gone rd h"
    using i r by (cases invoice; auto simp: invoice_answered_def invoice_gone_def
        dest!: read_twice_ReadD read_twice_MissingD)+
qed

lemma observed_payments:
  assumes "observe_hold rd h w = (Inr ob, w')" "ob_inv ob \<noteq> InvNone" "ob_pay ob \<noteq> PayUnrecognised"
  shows "payments_answered rd h (ob_pay ob)"
proof -
  from assms(1) obtain w2 where
    "if ob_inv ob = InvNone then ob_pay ob = PayAwaiting
     else observe_payments rd (ph_invoice_id h) (ph_id h) w2 = (Inr (ob_pay ob), w')"
    by (rule observe_hold_Inr)
  with assms(2) have "observe_payments rd (ph_invoice_id h) (ph_id h) w2 = (Inr (ob_pay ob), w')" by simp
  from observe_payments_sound [OF this] assms(3) show ?thesis
    unfolding payments_answered_def by auto
qed

text \<open>An invoice that is gone was never payable: its payment reading is \<open>awaiting\<close>, by definition.\<close>

lemma observed_none:
  assumes "observe_hold rd h w = (Inr ob, w')" "ob_inv ob = InvNone"
  shows "ob_pay ob = PayAwaiting"
proof -
  from assms(1) obtain w2 where
    "if ob_inv ob = InvNone then ob_pay ob = PayAwaiting
     else observe_payments rd (ph_invoice_id h) (ph_id h) w2 = (Inr (ob_pay ob), w')"
    by (rule observe_hold_Inr)
  with assms(2) show ?thesis by simp
qed

section \<open>Properties\<close>

text \<open>
  C6. A release rests on positive evidence that Stripe gave for this very hold. A hold is adopted only
  when its subscription was read live; it is released as refunded or already refunded only when its
  subscription was read ended and every succeeded payment of the held invoice (there is at least one,
  on one complete page) is covered by succeeded refunds listed on one page, all of them the hold's own
  for \<open>refunded\<close>; it is released as voided or expired only when its subscription was read ended and the
  held invoice was either read void with a complete list of payments none of which took or is taking
  money, or is an invoice Stripe does not have. No observation releases a hold for another reason.
\<close>

theorem release_rests_on_evidence:
  assumes "observe_hold rd h w = (Inr ob, w')" "decide h ob ctx = DRelease t r"
  shows "case r of
     Adopted \<Rightarrow> \<exists>st\<in>set live_statuses. sub_answered rd h st
   | Refunded \<Rightarrow> ended_answered rd h \<and> (\<exists>pis. pis \<noteq> [] \<and> payments_answered rd h (PaySucceeded pis) \<and>
        (\<forall>p\<in>set pis. payment_evidence rd (ph_id h) p \<and> ro_kind (sp_refund p) = RfDone \<and>
           ro_by_this_hold (sp_refund p)))
   | AlreadyRefunded \<Rightarrow> ended_answered rd h \<and> (\<exists>pis. pis \<noteq> [] \<and> payments_answered rd h (PaySucceeded pis) \<and>
        (\<forall>p\<in>set pis. payment_evidence rd (ph_id h) p \<and> ro_kind (sp_refund p) = RfDone))
   | VoidedUnpaid \<Rightarrow> ended_answered rd h \<and>
        (invoice_gone rd h \<or> invoice_answered rd h ''void'' \<and>
           (\<exists>pay. pay_unpaid pay \<and> payments_answered rd h pay))
   | ExpiredUnpaid \<Rightarrow> ended_answered rd h \<and>
        (invoice_gone rd h \<or> invoice_answered rd h ''void'' \<and>
           (\<exists>pay. pay_unpaid pay \<and> payments_answered rd h pay))
   | _ \<Rightarrow> False"
proof -
  note sub = observed_sub [OF assms(1)] and inv = observed_invoice [OF assms(1)]
    and pay = observed_payments [OF assms(1)]
  from decide_release [OF assms(2)] consider
    (live) st where "r = Adopted" "ob_sub ob = SubLive st"
  | (paid) x pis where "ob_sub ob = SubEnded x" "ob_pay ob = PaySucceeded pis"
      "\<forall>p\<in>set pis. ro_kind (sp_refund p) = RfDone"
      "r = (if \<forall>p\<in>set pis. ro_by_this_hold (sp_refund p) then Refunded else AlreadyRefunded)"
  | (unpaid) x where "ob_sub ob = SubEnded x" "pay_unpaid (ob_pay ob)" "ob_inv ob = InvVoid \<or> ob_inv ob = InvNone"
      "r = ExpiredUnpaid \<or> r = VoidedUnpaid"
    by blast
  then show ?thesis
  proof cases
    case live
    with sub(1) show ?thesis by auto
  next
    case paid
    have "ob_inv ob \<noteq> InvNone" using observed_none [OF assms(1)] paid(2) by auto
    with pay paid(2) have p: "payments_answered rd h (PaySucceeded pis)" by auto
    then have "pis \<noteq> [] \<and> (\<forall>p\<in>set pis. payment_evidence rd (ph_id h) p)"
      by (auto simp: payments_answered_def pay_evidence_def)
    with p paid sub(2) show ?thesis by auto
  next
    case unpaid
    have "invoice_gone rd h \<or> invoice_answered rd h ''void'' \<and>
           (\<exists>pay. pay_unpaid pay \<and> payments_answered rd h pay)"
      using unpaid(2,3) inv pay by (auto simp: pay_unpaid_def)
    with unpaid sub(2) show ?thesis by auto
  qed
qed

definition sample_reader :: "string \<Rightarrow> string \<Rightarrow> 'w stripe_reader" where
  "sample_reader sub_status inv_status =
     \<lparr>sub_retrieve = (\<lambda>_ w. (Inr sub_status, w)),
      inv_retrieve = (\<lambda>_ w. (Inr (Some inv_status), w)),
      invpay_list = (\<lambda>_ w. (Inr \<lparr>has_more = False, page_data = []\<rparr>, w)),
      pi_retrieve = (\<lambda>_ w. (Inl \<lparr>exn_code = None, exn_msg = []\<rparr>, w)),
      refunds_list = (\<lambda>_ w. (Inl \<lparr>exn_code = None, exn_msg = []\<rparr>, w))\<rparr>"

lemma observe_sample_reader:
  "observe_hold (sample_reader st iv) h w =
     (Inr \<lparr>ob_sub = classify_sub st, ob_inv = classify_invoice (Some iv), ob_pay = PayAwaiting\<rparr>, w)"
  by (simp add: sample_reader_def observe_hold_def ebind_def read_twice_def
      observe_payments_def ereturn_def settle_intents_def)

theorem release_rests_on_evidence_witness:
  "let rd = sample_reader ''canceled'' ''void'' :: unit stripe_reader;
       ob = \<lparr>ob_sub = SubEnded False, ob_inv = InvVoid, ob_pay = PayAwaiting\<rparr>
   in observe_hold rd sample_hold () = (Inr ob, ()) \<and>
      decide sample_hold ob new_call_context = DRelease T9 VoidedUnpaid \<and> ended_answered rd sample_hold"
proof -
  let ?rd = "sample_reader ''canceled'' ''void'' :: unit stripe_reader"
  let ?ob = "\<lparr>ob_sub = SubEnded False, ob_inv = InvVoid, ob_pay = PayAwaiting\<rparr>"
  have o: "observe_hold ?rd sample_hold () = (Inr ?ob, ())"
    unfolding observe_sample_reader by (simp add: classify_sub_def classify_invoice_def)
  have d: "decide sample_hold ?ob new_call_context = DRelease T9 VoidedUnpaid"
    by (simp add: decide_def decide_ended_def is_closing_def)
  from release_rests_on_evidence [OF o d] o d show ?thesis by (simp add: Let_def)
qed

end
