(* ===== verification/Hold_Store_Laws.thy ===== *)
theory Hold_Store_Laws
  imports Hold_Store
begin

text \<open>
  What the payment-hold store promises: the table's constraints hold after every operation, every
  row only moves forward (its identity is fixed, its \<open>version\<close> and \<open>refund_attempt\<close> never go down,
  an unchanged \<open>version\<close> means unchanged state columns, \<open>released\<close> is terminal), and a state write
  lands only at the version it was prepared on and under the hold's own live lease.
\<close>

section \<open>Operations as data, and runs of them\<close>

datatype store_op =
    OpAcquire string string
  | OpRenew purchase_lease
  | OpGiveBack purchase_lease
  | OpOpen string purchase_lease open_input
  | OpWrite purchase_lease hold_ref hold_patch
  | OpReserve purchase_lease hold_ref
  | OpRelease purchase_lease hold_ref release_input
  | OpRelink purchase_lease hold_ref relink_patch
  | OpNudge string
  | OpStamp "string list"
  | OpClaim string notified_state
  | OpUnclaim string notified_state
  | OpTick nat

fun run_op :: "store_op \<Rightarrow> hold_db \<Rightarrow> hold_db" where
  "run_op (OpAcquire holder key) db = snd (try_acquire_lease holder key db)"
| "run_op (OpRenew l) db = snd (fence_for l db)"
| "run_op (OpGiveBack l) db = release_lease l db"
| "run_op (OpOpen new_id l i) db = snd (open_hold new_id l i db)"
| "run_op (OpWrite l ref p) db = snd (write_hold_state l ref p db)"
| "run_op (OpReserve l ref) db = snd (reserve_refund_attempt l ref db)"
| "run_op (OpRelease l ref i) db = snd (release_hold l ref i db)"
| "run_op (OpRelink l ref p) db = snd (write_adopted_relink_state l ref p db)"
| "run_op (OpNudge sub) db = snd (nudge_hold sub db)"
| "run_op (OpStamp ids) db = snd (stamp_hold_notice ids db)"
| "run_op (OpClaim hid st) db = snd (claim_hold_notice hid st db)"
| "run_op (OpUnclaim hid st) db = unclaim_hold_notice hid st db"
| "run_op (OpTick n) db = db\<lparr>db_now := db_now db + int n\<rparr>"

definition run_ops :: "store_op list \<Rightarrow> hold_db \<Rightarrow> hold_db" where
  "run_ops ops db = fold run_op ops db"

text \<open>
  The types of the source: a patch's state is an \<open>OpenPaymentHoldState\<close>, and an open's is
  \<open>closing\<close> or \<open>needs_operator\<close>.
\<close>

definition open_patch :: "hold_patch \<Rightarrow> bool" where
  "open_patch p \<longleftrightarrow> hp_state p \<noteq> Some HoldReleased"

fun well_typed_op :: "store_op \<Rightarrow> bool" where
  "well_typed_op (OpWrite l ref p) = open_patch p"
| "well_typed_op (OpOpen new_id l i) = (oi_state i = Closing \<or> oi_state i = NeedsOperator)"
| "well_typed_op _ = True"

section \<open>One table update\<close>

lemma sql_update_simps [simp]:
  "fst (sql_update p f rs) = map f (filter p rs)"
  "snd (sql_update p f rs) = map (\<lambda>r. if p r then f r else r) rs"
  by (simp_all add: sql_update_def)

lemma update_holds_simps [simp]:
  "fst (update_holds p f db) = map f (filter p (db_holds db))"
  "db_holds (snd (update_holds p f db)) = map (\<lambda>r. if p r then f r else r) (db_holds db)"
  "db_leases (snd (update_holds p f db)) = db_leases db"
  "db_setups (snd (update_holds p f db)) = db_setups db"
  "db_billing (snd (update_holds p f db)) = db_billing db"
  "db_now (snd (update_holds p f db)) = db_now db"
  by (simp_all add: update_holds_def sql_update_def)

lemma first_row_Some: "first_row (map f (filter p rs)) = Some h \<Longrightarrow> \<exists>r\<in>set rs. p r \<and> h = f r"
  by (induction rs) (auto simp: first_row_def split: if_splits)

lemma first_row_None: "first_row (map f (filter p rs)) = None \<Longrightarrow> r \<in> set rs \<Longrightarrow> \<not> p r"
  by (induction rs) (auto simp: first_row_def split: if_splits)

lemma map_update_id: "\<forall>r\<in>set rs. \<not> p r \<Longrightarrow> map (\<lambda>r. if p r then f r else r) rs = rs"
  by (induction rs) auto

section \<open>Every row only moves forward\<close>

text \<open>The columns no write ever changes, and the columns a hint or a claim may change.\<close>

definition identity_cols :: "hold_row \<Rightarrow> string \<times> string \<times> string \<times> hold_scope \<times> string \<times> string" where
  "identity_cols r = (ph_id r, ph_subscription_id r, ph_customer_id r, ph_scope r, ph_payer_key r,
     ph_invoice_id r)"

definition state_cols :: "hold_row \<Rightarrow> hold_row" where
  "state_cols r = r\<lparr>ph_nudged_at := None, ph_notice_last_sent_at := None, ph_notified_state := None,
     ph_notified_at := None, ph_updated_at := 0\<rparr>"

definition row_le :: "hold_row \<Rightarrow> hold_row \<Rightarrow> bool" where
  "row_le r r' \<longleftrightarrow>
     identity_cols r' = identity_cols r \<and> ph_open_note r' = ph_open_note r \<and>
     ph_version r \<le> ph_version r' \<and>
     (ph_version r' = ph_version r \<longrightarrow> state_cols r' = state_cols r) \<and>
     ph_refund_attempt r \<le> ph_refund_attempt r' \<and>
     (ph_state r = HoldReleased \<longrightarrow> ph_state r' = HoldReleased \<and>
        ph_release_reason r' = ph_release_reason r \<and> ph_released_at r' = ph_released_at r)"

lemma row_le_refl [simp, intro]: "row_le r r"
  by (simp add: row_le_def)

lemma row_le_trans: "row_le a b \<Longrightarrow> row_le b c \<Longrightarrow> row_le a c"
  by (auto simp: row_le_def)

lemma row_le_id: "row_le r r' \<Longrightarrow> ph_id r' = ph_id r"
  by (simp add: row_le_def identity_cols_def)

text \<open>A row of the earlier table is in the later one, moved forward.\<close>

definition db_le :: "hold_db \<Rightarrow> hold_db \<Rightarrow> bool" where
  "db_le db db' \<longleftrightarrow> (\<forall>r\<in>set (db_holds db). \<exists>r'\<in>set (db_holds db'). row_le r r')"

lemma db_le_refl [simp, intro]: "db_le db db"
  by (auto simp: db_le_def)

lemma db_le_trans: "db_le a b \<Longrightarrow> db_le b c \<Longrightarrow> db_le a c"
  unfolding db_le_def by (meson row_le_trans)

lemma db_le_same: "db_holds db' = db_holds db \<Longrightarrow> db_le db db'"
  by (auto simp: db_le_def)

lemma db_le_update:
  assumes "\<And>r. p r \<Longrightarrow> row_le r (f r)"
  shows "db_le db (snd (update_holds p f db))"
  unfolding db_le_def
proof
  fix r assume "r \<in> set (db_holds db)"
  then have "(if p r then f r else r) \<in> set (db_holds (snd (update_holds p f db)))" by auto
  moreover have "row_le r (if p r then f r else r)" using assms by simp
  ultimately show "\<exists>r'\<in>set (db_holds (snd (update_holds p f db))). row_le r r'" by blast
qed

text \<open>The row updates.\<close>

lemma row_le_hints:
  "row_le r (r\<lparr>ph_nudged_at := a, ph_updated_at := b\<rparr>)"
  "row_le r (r\<lparr>ph_notice_last_sent_at := a\<rparr>)"
  "row_le r (r\<lparr>ph_notified_state := c, ph_notified_at := d\<rparr>)"
  by (simp_all add: row_le_def identity_cols_def state_cols_def)

lemma row_le_bump_attempt: "ph_state r \<noteq> HoldReleased \<Longrightarrow> row_le r (bump_attempt now r)"
  by (simp add: row_le_def bump_attempt_def identity_cols_def)

lemma row_le_apply_relink: "row_le r (apply_relink now p r)"
  by (simp add: row_le_def apply_relink_def identity_cols_def)

lemma row_le_apply_patch:
  "ph_state r \<noteq> HoldReleased \<Longrightarrow> row_le r (apply_patch now p r)"
  by (simp add: row_le_def apply_patch_def identity_cols_def)

lemma row_le_apply_release:
  "ph_state r \<noteq> HoldReleased \<Longrightarrow> row_le r (apply_release now i r)"
  by (simp add: row_le_def apply_release_def identity_cols_def)

lemma close_setups_of_simps [simp]:
  "db_holds (snd (close_setups_of sub db)) = db_holds db"
  "db_leases (snd (close_setups_of sub db)) = db_leases db"
  "db_billing (snd (close_setups_of sub db)) = db_billing db"
  "db_now (snd (close_setups_of sub db)) = db_now db"
  by (simp_all add: close_setups_of_def case_prod_beta)

lemma lease_ops_holds [simp]:
  "db_holds (snd (try_acquire_lease holder key db)) = db_holds db"
  "db_holds (snd (renew_lease l m db)) = db_holds db"
  "db_holds (snd (fence_for l db)) = db_holds db"
  "db_holds (release_lease l db) = db_holds db"
  by (simp_all add: try_acquire_lease_def renew_lease_def fence_for_def release_lease_def Let_def
      split: option.splits)

lemma write_hold_state_snd:
  "snd (write_hold_state l ref p db) = snd (update_holds
     (\<lambda>r. state_write_fence l ref db r \<and> ph_state r \<noteq> HoldReleased) (apply_patch (db_now db) p) db)"
  by (simp add: write_hold_state_def case_prod_beta)

lemma reserve_refund_attempt_snd:
  "snd (reserve_refund_attempt l ref db) = snd (update_holds
     (\<lambda>r. state_write_fence l ref db r \<and> ph_state r \<noteq> HoldReleased) (bump_attempt (db_now db)) db)"
  by (simp add: reserve_refund_attempt_def case_prod_beta)

lemma release_hold_holds:
  "db_holds (snd (release_hold l ref i db)) =
     (case check_org_row i db of Inl _ \<Rightarrow> db_holds db
      | Inr _ \<Rightarrow> db_holds (snd (update_holds
          (\<lambda>r. state_write_fence l ref db r \<and> ph_state r \<noteq> HoldReleased)
          (apply_release (db_now db) i) db)))"
  by (simp add: release_hold_def case_prod_beta split: sum.splits option.splits)

lemma open_hold_holds:
  "db_holds (snd (open_hold new_id l i db)) =
     (case fst (open_hold new_id l i db) of Inr (Opened h) \<Rightarrow> db_holds db @ [h] | _ \<Rightarrow> db_holds db)"
  by (simp add: open_hold_def Let_def split: option.splits)

lemma run_op_db_le: "db_le db (run_op op db)"
proof (cases op)
  case (OpWrite l ref p)
  then show ?thesis
    by (simp add: write_hold_state_snd) (rule db_le_update, simp add: row_le_apply_patch)
next
  case (OpReserve l ref)
  then show ?thesis
    by (simp add: reserve_refund_attempt_snd)
      (rule db_le_update, simp add: row_le_bump_attempt)
next
  case (OpRelease l ref i)
  have "db_le db (snd (update_holds (\<lambda>r. state_write_fence l ref db r \<and> ph_state r \<noteq> HoldReleased)
          (apply_release (db_now db) i) db))"
    by (rule db_le_update) (simp add: row_le_apply_release)
  with OpRelease show ?thesis
    unfolding db_le_def by (auto simp: release_hold_holds split: sum.splits)
next
  case (OpRelink l ref p)
  then show ?thesis
    by (simp add: write_adopted_relink_state_def case_prod_beta)
      (rule db_le_update, simp add: row_le_apply_relink)
next
  case (OpOpen new_id l i)
  then show ?thesis
    by (auto simp: db_le_def open_hold_holds split: sum.splits open_result.splits)
next
  case (OpNudge sub)
  then show ?thesis
    by (simp add: nudge_hold_def case_prod_beta) (rule db_le_update, simp add: row_le_hints)
next
  case (OpStamp ids)
  then show ?thesis
    by (simp add: stamp_hold_notice_def case_prod_beta)
      (intro impI db_le_update, simp add: row_le_hints)
next
  case (OpClaim hid st)
  then show ?thesis
    by (simp add: claim_hold_notice_def case_prod_beta) (rule db_le_update, simp add: row_le_hints)
next
  case (OpUnclaim hid st)
  then show ?thesis
    by (simp add: unclaim_hold_notice_def) (rule db_le_update, simp add: row_le_hints)
qed (simp_all add: db_le_same)

lemma run_ops_Cons [simp]: "run_ops (op # ops) db = run_ops ops (run_op op db)"
  and run_ops_Nil [simp]: "run_ops [] db = db"
  by (simp_all add: run_ops_def)

lemma run_ops_append [simp]: "run_ops (xs @ ys) db = run_ops ys (run_ops xs db)"
  by (simp add: run_ops_def)

lemma run_ops_db_le: "db_le db (run_ops ops db)"
proof (induction ops arbitrary: db)
  case Nil
  then show ?case by simp
next
  case (Cons op ops)
  from run_op_db_le [of db op] Cons.IH [of "run_op op db"]
  show ?case by (simp add: db_le_trans)
qed

section \<open>The table's constraints are kept\<close>

text \<open>
  A table update keeps the constraints when it keeps ids and subscriptions, opens no released row,
  and keeps the row checks.
\<close>

definition keeps_row :: "hold_row \<Rightarrow> hold_row \<Rightarrow> bool" where
  "keeps_row r r' \<longleftrightarrow>
     ph_id r' = ph_id r \<and> ph_subscription_id r' = ph_subscription_id r \<and>
     (ph_state r' \<noteq> HoldReleased \<longrightarrow> ph_state r \<noteq> HoldReleased) \<and> (row_checks r \<longrightarrow> row_checks r')"

lemma keeps_row_refl: "keeps_row r r"
  by (simp add: keeps_row_def)

lemma open_subscriptions_map_subset:
  assumes "\<And>r. keeps_row r (g r)"
  shows "set (open_subscriptions (map g rs)) \<subseteq> set (open_subscriptions rs)"
proof
  fix s assume "s \<in> set (open_subscriptions (map g rs))"
  then obtain r where r: "r \<in> set rs" "ph_state (g r) \<noteq> HoldReleased" "s = ph_subscription_id (g r)"
    by (auto simp: open_subscriptions_def)
  with assms [of r] have "ph_state r \<noteq> HoldReleased" "s = ph_subscription_id r"
    by (simp_all add: keeps_row_def)
  with r(1) show "s \<in> set (open_subscriptions rs)" by (auto simp: open_subscriptions_def)
qed

lemma table_ok_map:
  assumes g: "\<And>r. keeps_row r (g r)" and ok: "table_ok rs"
  shows "table_ok (map g rs)"
proof -
  have ids: "map ph_id (map g rs) = map ph_id rs"
    using g by (simp add: keeps_row_def)
  have subs: "distinct (open_subscriptions (map g rs))" if "distinct (open_subscriptions rs)"
    using that
  proof (induction rs)
    case Nil
    then show ?case by simp
  next
    case (Cons r rs)
    have tail: "distinct (open_subscriptions rs)"
      using Cons.prems by (simp add: open_subscriptions_def split: if_splits)
    show ?case
    proof (cases "ph_state (g r) = HoldReleased")
      case True
      with Cons.IH [OF tail] show ?thesis by (simp add: open_subscriptions_def)
    next
      case False
      with g [of r] have r: "ph_state r \<noteq> HoldReleased" "ph_subscription_id (g r) = ph_subscription_id r"
        by (auto simp: keeps_row_def)
      with Cons.prems have "ph_subscription_id r \<notin> set (open_subscriptions rs)"
        by (simp add: open_subscriptions_def)
      then have "ph_subscription_id (g r) \<notin> set (open_subscriptions (map g rs))"
        using r(2) open_subscriptions_map_subset [of g rs, OF g] by auto
      with False Cons.IH [OF tail] show ?thesis by (simp add: open_subscriptions_def)
    qed
  qed
  have checks: "list_all row_checks (map g rs)" if "list_all row_checks rs"
    using that g by (auto simp: list_all_iff keeps_row_def)
  from ok ids subs checks show ?thesis by (simp add: table_ok_def del: map_map list.map_comp)
qed

lemma table_ok_update:
  assumes "\<And>r. p r \<Longrightarrow> keeps_row r (f r)" and "table_ok (db_holds db)"
  shows "table_ok (db_holds (snd (update_holds p f db)))"
  unfolding update_holds_simps
  by (rule table_ok_map [OF _ assms(2)]) (simp add: assms(1) keeps_row_refl)

lemma keeps_row_apply_patch:
  "ph_state r \<noteq> HoldReleased \<Longrightarrow> open_patch p \<Longrightarrow> keeps_row r (apply_patch now p r)"
  by (auto simp: keeps_row_def row_checks_def apply_patch_def open_patch_def set_if_def
      split: option.splits)

lemma keeps_row_apply_release: "ph_state r \<noteq> HoldReleased \<Longrightarrow> keeps_row r (apply_release now i r)"
  by (auto simp: keeps_row_def row_checks_def apply_release_def)

lemma keeps_row_bump_attempt: "keeps_row r (bump_attempt now r)"
  by (auto simp: keeps_row_def row_checks_def bump_attempt_def)

lemma keeps_row_apply_relink: "ph_state r = HoldReleased \<Longrightarrow> keeps_row r (apply_relink now p r)"
  by (auto simp: keeps_row_def row_checks_def apply_relink_def)

lemma keeps_row_hints:
  "keeps_row r (r\<lparr>ph_nudged_at := a, ph_updated_at := b\<rparr>)"
  "keeps_row r (r\<lparr>ph_notice_last_sent_at := a\<rparr>)"
  "keeps_row r (r\<lparr>ph_notified_state := c, ph_notified_at := d\<rparr>)"
  by (auto simp: keeps_row_def row_checks_def)

lemma table_ok_insert:
  assumes "table_ok rs" "ph_id h \<notin> set (map ph_id rs)" "row_checks h"
    and "List.find (is_open_on (ph_subscription_id h)) rs = None"
  shows "table_ok (rs @ [h])"
proof -
  from find_None_all [OF assms(4)]
  have "ph_subscription_id h \<notin> set (open_subscriptions rs)"
    by (auto simp: open_subscriptions_def is_open_on_def)
  with assms(1-3) show ?thesis
    by (auto simp: table_ok_def open_subscriptions_def)
qed

lemma open_hold_Opened:
  assumes "fst (open_hold new_id l i db) = Inr (Opened h)"
  shows "List.find (is_open_on (oi_subscription_id i)) (db_holds db) = None"
    "new_id \<notin> set (map ph_id (db_holds db))" "lease_live l db"
    "le_key l = lease_key_sql h"
    "\<exists>sc. h = hold_of_input new_id sc i (db_now db) \<and> le_key l = lease_key_for sc (oi_payer_key i)"
  using assms
  by (auto simp: open_hold_def Let_def lease_key_sql_eq hold_of_input_def
      split: if_splits option.splits)

lemma run_op_table_ok:
  assumes "table_ok (db_holds db)" "well_typed_op op"
  shows "table_ok (db_holds (run_op op db))"
proof (cases op)
  case (OpWrite l ref p)
  with assms show ?thesis
    by (auto simp: write_hold_state_snd keeps_row_apply_patch simp del: update_holds_simps
        intro!: table_ok_update)
next
  case (OpReserve l ref)
  with assms show ?thesis
    by (auto simp: reserve_refund_attempt_snd keeps_row_bump_attempt simp del: update_holds_simps
        intro!: table_ok_update)
next
  case (OpRelease l ref i)
  have "table_ok (db_holds (snd (update_holds
     (\<lambda>r. state_write_fence l ref db r \<and> ph_state r \<noteq> HoldReleased) (apply_release (db_now db) i) db)))"
    by (rule table_ok_update) (simp_all add: keeps_row_apply_release assms(1))
  with OpRelease assms(1) show ?thesis
    by (simp add: release_hold_holds del: update_holds_simps split: sum.splits)
next
  case (OpRelink l ref p)
  with assms show ?thesis
    by (auto simp: write_adopted_relink_state_def case_prod_beta keeps_row_apply_relink
        simp del: update_holds_simps intro!: table_ok_update)
next
  case (OpOpen new_id l i)
  show ?thesis
  proof (cases "\<exists>h. fst (open_hold new_id l i db) = Inr (Opened h)")
    case True
    then obtain h where h: "fst (open_hold new_id l i db) = Inr (Opened h)" by blast
    obtain sc where sc: "h = hold_of_input new_id sc i (db_now db)"
      using open_hold_Opened(5) [OF h] by blast
    have "row_checks h"
      using sc OpOpen assms(2) by (auto simp: row_checks_def hold_of_input_def)
    with assms(1) sc open_hold_Opened(1,2) [OF h] have "table_ok (db_holds db @ [h])"
      by (intro table_ok_insert) (simp_all add: hold_of_input_def)
    with OpOpen h show ?thesis by (simp add: open_hold_holds)
  next
    case False
    with OpOpen assms(1) show ?thesis
      by (auto simp: open_hold_holds split: sum.splits open_result.splits)
  qed
next
  case (OpNudge sub)
  with assms show ?thesis
    by (auto simp: nudge_hold_def case_prod_beta keeps_row_hints simp del: update_holds_simps
        intro!: table_ok_update)
next
  case (OpStamp ids)
  with assms show ?thesis
    by (auto simp: stamp_hold_notice_def case_prod_beta keeps_row_hints simp del: update_holds_simps
        intro!: table_ok_update)
next
  case (OpClaim hid st)
  with assms show ?thesis
    by (auto simp: claim_hold_notice_def case_prod_beta keeps_row_hints simp del: update_holds_simps
        intro!: table_ok_update)
next
  case (OpUnclaim hid st)
  with assms show ?thesis
    by (auto simp: unclaim_hold_notice_def keeps_row_hints simp del: update_holds_simps
        intro!: table_ok_update)
qed (use assms in simp_all)

lemma run_ops_table_ok:
  "table_ok (db_holds db) \<Longrightarrow> \<forall>op\<in>set ops. well_typed_op op \<Longrightarrow> table_ok (db_holds (run_ops ops db))"
  by (induction ops arbitrary: db) (auto simp: run_op_table_ok)

section \<open>What a state write that lands proves\<close>

text \<open>A row some caller read earlier: the table still has that row, moved forward.\<close>

definition snapshot :: "hold_row \<Rightarrow> hold_db \<Rightarrow> bool" where
  "snapshot h db \<longleftrightarrow> (\<exists>r\<in>set (db_holds db). row_le h r)"

lemma snapshot_mono: "snapshot h db \<Longrightarrow> db_le db db' \<Longrightarrow> snapshot h db'"
  unfolding snapshot_def db_le_def by (meson row_le_trans)

lemma snapshot_run_ops: "snapshot h db \<Longrightarrow> snapshot h (run_ops ops db)"
  using snapshot_mono run_ops_db_le by blast

definition ref_of :: "hold_row \<Rightarrow> hold_ref" where
  "ref_of h = \<lparr>hr_id = ph_id h, hr_version = ph_version h\<rparr>"

lemma ref_of_simps [simp]: "hr_id (ref_of h) = ph_id h" "hr_version (ref_of h) = ph_version h"
  by (simp_all add: ref_of_def)

lemma distinct_id_eq:
  assumes "table_ok rs" "r \<in> set rs" "r' \<in> set rs" "ph_id r = ph_id r'"
  shows "r = r'"
  using assms by (auto simp: table_ok_def distinct_map inj_on_def)

text \<open>The row a caller's snapshot matches is the caller's row, up to the hint columns.\<close>

lemma snapshot_row:
  assumes "table_ok (db_holds db)" "snapshot h db" "r \<in> set (db_holds db)"
    and "state_write_fence l (ref_of h) db r"
  shows "row_le h r" "state_cols r = state_cols h" "lease_live l db" "le_key l = lease_key_sql h"
proof -
  from assms(2) obtain r' where r': "r' \<in> set (db_holds db)" "row_le h r'"
    by (auto simp: snapshot_def)
  have "r' = r"
    using assms(1,3,4) r' by (intro distinct_id_eq [OF assms(1)])
      (auto simp: state_write_fence_def row_le_id)
  with r' assms(4) show le: "row_le h r" and "state_cols r = state_cols h"
    by (auto simp: row_le_def state_write_fence_def)
  from assms(4) show "lease_live l db" by (simp add: state_write_fence_def lease_fence_def)
  from assms(4) le show "le_key l = lease_key_sql h"
    by (auto simp: state_write_fence_def lease_fence_def row_le_def identity_cols_def lease_key_sql_def)
qed

text \<open>The operations fenced on a \<open>version\<close> and a lease, and whether one of them writes.\<close>

fun op_fence :: "store_op \<Rightarrow> (purchase_lease \<times> hold_ref) option" where
  "op_fence (OpWrite l ref p) = Some (l, ref)"
| "op_fence (OpReserve l ref) = Some (l, ref)"
| "op_fence (OpRelease l ref i) = Some (l, ref)"
| "op_fence (OpRelink l ref p) = Some (l, ref)"
| "op_fence _ = None"

fun op_lands :: "store_op \<Rightarrow> hold_db \<Rightarrow> bool" where
  "op_lands (OpWrite l ref p) db = (fst (write_hold_state l ref p db) \<noteq> None)"
| "op_lands (OpReserve l ref) db = (fst (reserve_refund_attempt l ref db) \<noteq> None)"
| "op_lands (OpRelease l ref i) db = (fst (release_hold l ref i db) \<noteq> None)"
| "op_lands (OpRelink l ref p) db = (fst (write_adopted_relink_state l ref p db) \<noteq> None)"
| "op_lands _ db = True"

lemma first_row_map_filter_neq_None:
  "first_row (map f (filter p rs)) \<noteq> None \<longleftrightarrow> (\<exists>r\<in>set rs. p r)"
  by (induction rs) (auto simp: first_row_def)

lemma write_hold_state_Some:
  assumes "write_hold_state l ref p db = (Some h, db')"
  shows "\<exists>r\<in>set (db_holds db). state_write_fence l ref db r \<and> ph_state r \<noteq> HoldReleased \<and>
           h = apply_patch (db_now db) p r \<and> h \<in> set (db_holds db')"
proof -
  let ?P = "\<lambda>r. state_write_fence l ref db r \<and> ph_state r \<noteq> HoldReleased"
  from assms have "first_row (map (apply_patch (db_now db) p) (filter ?P (db_holds db))) = Some h"
    by (simp add: write_hold_state_def case_prod_beta)
  from first_row_Some [OF this] obtain r where r: "r \<in> set (db_holds db)" "?P r"
      "h = apply_patch (db_now db) p r" by blast
  have "db' = snd (write_hold_state l ref p db)" using assms by simp
  then have "h \<in> set (db_holds db')"
    using r by (auto simp: write_hold_state_snd intro!: image_eqI [where x = r])
  with r show ?thesis by blast
qed

lemma reserve_refund_attempt_Some:
  assumes "reserve_refund_attempt l ref db = (Some (n, h), db')"
  shows "\<exists>r\<in>set (db_holds db). state_write_fence l ref db r \<and> ph_state r \<noteq> HoldReleased \<and>
           h = bump_attempt (db_now db) r \<and> n = ph_refund_attempt r \<and> h \<in> set (db_holds db')"
proof -
  let ?P = "\<lambda>r. state_write_fence l ref db r \<and> ph_state r \<noteq> HoldReleased"
  from assms have fr: "first_row (map (bump_attempt (db_now db)) (filter ?P (db_holds db))) = Some h"
    and n: "n = ph_refund_attempt h - 1"
    by (auto simp: reserve_refund_attempt_def case_prod_beta)
  from first_row_Some [OF fr] obtain r where r: "r \<in> set (db_holds db)" "?P r"
      "h = bump_attempt (db_now db) r" by blast
  have "db' = snd (reserve_refund_attempt l ref db)" using assms by simp
  then have "h \<in> set (db_holds db')"
    using r by (auto simp: reserve_refund_attempt_snd intro!: image_eqI [where x = r])
  with r n show ?thesis by (auto simp: bump_attempt_def)
qed

lemma release_hold_Some:
  assumes "release_hold l ref i db = (Some rh, db')"
  shows "\<exists>r\<in>set (db_holds db). state_write_fence l ref db r \<and> ph_state r \<noteq> HoldReleased \<and>
           rh_hold rh = apply_release (db_now db) i r \<and> rh_hold rh \<in> set (db_holds db')"
proof -
  let ?P = "\<lambda>r. state_write_fence l ref db r \<and> ph_state r \<noteq> HoldReleased"
  from assms have ck: "\<exists>c. check_org_row i db = Inr c"
    and fr: "first_row (map (apply_release (db_now db) i) (filter ?P (db_holds db))) = Some (rh_hold rh)"
    by (auto simp: release_hold_def case_prod_beta split: sum.splits option.splits if_splits)
  from first_row_Some [OF fr] obtain r where r: "r \<in> set (db_holds db)" "?P r"
      "rh_hold rh = apply_release (db_now db) i r" by blast
  have "db' = snd (release_hold l ref i db)" using assms by simp
  then have "rh_hold rh \<in> set (db_holds db')"
    using r ck by (auto simp: release_hold_holds intro!: image_eqI [where x = r])
  with r show ?thesis by blast
qed

lemma op_lands_fence:
  assumes "op_fence op = Some (l, ref)" "op_lands op db"
  shows "\<exists>r\<in>set (db_holds db). state_write_fence l ref db r"
proof (cases op)
  case (OpRelease l' ref' i)
  with assms obtain rh where "release_hold l ref i db = (Some rh, snd (release_hold l ref i db))"
    by (cases "release_hold l ref i db") auto
  from release_hold_Some [OF this] show ?thesis by blast
qed (use assms in \<open>auto simp: write_hold_state_def reserve_refund_attempt_def
    write_adopted_relink_state_def case_prod_beta first_row_map_filter_neq_None [unfolded not_None_eq]\<close>)

text \<open>A fenced operation that lands leaves its row at the next version.\<close>

lemma op_lands_bumps:
  assumes "op_fence op = Some (l, ref)" "op_lands op db"
  shows "\<exists>r\<in>set (db_holds (run_op op db)). ph_id r = hr_id ref \<and> ph_version r = Suc (hr_version ref)"
proof (cases op)
  case (OpWrite l' ref' p)
  with assms obtain h db' where "write_hold_state l ref p db = (Some h, db')"
    by (cases "write_hold_state l ref p db") auto
  with OpWrite assms write_hold_state_Some [OF this] show ?thesis
    by (auto simp: apply_patch_def state_write_fence_def intro!: bexI [where x = h])
next
  case (OpReserve l' ref')
  with assms obtain n h db' where "reserve_refund_attempt l ref db = (Some (n, h), db')"
    by (cases "reserve_refund_attempt l ref db") auto
  with OpReserve assms reserve_refund_attempt_Some [OF this] show ?thesis
    by (auto simp: bump_attempt_def state_write_fence_def intro!: bexI [where x = h])
next
  case (OpRelease l' ref' i)
  with assms obtain rh db' where "release_hold l ref i db = (Some rh, db')"
    by (cases "release_hold l ref i db") auto
  with OpRelease assms release_hold_Some [OF this] show ?thesis
    by (auto simp: apply_release_def state_write_fence_def intro!: bexI [where x = "rh_hold rh"])
next
  case (OpRelink l' ref' p)
  let ?P = "\<lambda>r. state_write_fence l ref db r \<and> ph_state r = HoldReleased \<and>
                 ph_release_reason r = Some Adopted \<and> ph_scope r = NewOrg"
  from OpRelink assms obtain r where r: "r \<in> set (db_holds db)" "?P r"
    by (auto simp: write_adopted_relink_state_def case_prod_beta
        first_row_map_filter_neq_None [unfolded not_None_eq])
  have "apply_relink (db_now db) p r \<in> set (db_holds (run_op op db))"
    using OpRelink assms r
    by (auto simp: write_adopted_relink_state_def case_prod_beta intro!: image_eqI [where x = r])
  with r show ?thesis
    by (auto simp: apply_relink_def state_write_fence_def intro!: bexI [rotated])
qed (use assms in simp_all)

lemma passed_version_never_fences:
  assumes "table_ok (db_holds db)" "r \<in> set (db_holds db)" "ph_id r = hr_id ref"
    "hr_version ref < ph_version r" "r' \<in> set (db_holds db)"
  shows "\<not> state_write_fence l ref db r'"
proof
  assume "state_write_fence l ref db r'"
  then have "ph_id r' = hr_id ref" "ph_version r' = hr_version ref"
    by (simp_all add: state_write_fence_def)
  with distinct_id_eq [OF assms(1,2,5)] assms(3,4) show False by simp
qed

section \<open>Properties\<close>

text \<open>
  C3. Of all the state writes prepared on one version of a hold, at most one ever lands: once a
  fenced operation on a reference has landed, no fenced operation on the same reference lands
  after any further run of store operations, whatever their callers, leases and order.
\<close>

theorem state_writes_exclusive:
  assumes "table_ok (db_holds db)" "well_typed_op op1" "\<forall>op\<in>set ops. well_typed_op op"
    and "op_fence op1 = Some (l1, ref)" "op_lands op1 db" "op_fence op2 = Some (l2, ref)"
  shows "\<not> op_lands op2 (run_ops ops (run_op op1 db))"
proof
  let ?db1 = "run_op op1 db" and ?db2 = "run_ops ops (run_op op1 db)"
  assume "op_lands op2 ?db2"
  from op_lands_fence [OF assms(6) this] obtain r2
    where r2: "r2 \<in> set (db_holds ?db2)" "state_write_fence l2 ref ?db2 r2" by blast
  from op_lands_bumps [OF assms(4,5)] obtain r1
    where r1: "r1 \<in> set (db_holds ?db1)" "ph_id r1 = hr_id ref" "ph_version r1 = Suc (hr_version ref)"
    by blast
  from run_ops_db_le [of ?db1 ops] r1(1) obtain r where
    r: "r \<in> set (db_holds ?db2)" "row_le r1 r" unfolding db_le_def by blast
  have "table_ok (db_holds ?db2)"
    using assms(1-3) by (simp add: run_op_table_ok run_ops_table_ok)
  with r r1 r2 show False
    using passed_version_never_fences [of ?db2 r ref r2 l2]
    by (auto simp: row_le_def identity_cols_def)
qed

text \<open>
  C4. The fence: a state write, a reservation, a release or a relink write lands only on the row
  that is at the version it was prepared on, and only while the caller's lease is live, names the
  caller, and is that row's own lease, so never under a lease of another scope or payer.
\<close>

theorem state_write_fenced:
  assumes "op_fence op = Some (l, ref)" "op_lands op db"
  shows "\<exists>r\<in>set (db_holds db). ph_id r = hr_id ref \<and> ph_version r = hr_version ref \<and>
           le_key l = lease_key_for (ph_scope r) (ph_payer_key r) \<and>
           (\<exists>row. db_leases db (le_key l) = Some row \<and> ls_holder row = le_holder l \<and>
                  db_now db < ls_expires_at row)"
proof -
  from op_lands_fence [OF assms] obtain r where
    "r \<in> set (db_holds db)" "state_write_fence l ref db r" by blast
  then show ?thesis
    by (intro bexI [of _ r])
      (auto simp: state_write_fence_def lease_fence_def lease_live_def lease_key_sql_eq
        split: option.splits)
qed

text \<open>
  C5. The table's constraints are an invariant of every run of store operations: ids are unique, at
  most one hold is open per subscription, a released row (and only a released row) says why and
  when, and every open hold is scheduled. Along the run every row only moves forward: identity
  columns are fixed, version and refund attempt never fall, and released is terminal.
\<close>

theorem hold_table_invariant:
  assumes "table_ok (db_holds db)" "\<forall>op\<in>set ops. well_typed_op op"
  shows "table_ok (db_holds (run_ops ops db)) \<and>
         (\<forall>r\<in>set (db_holds db). \<exists>r'\<in>set (db_holds (run_ops ops db)).
            identity_cols r' = identity_cols r \<and> ph_version r \<le> ph_version r' \<and>
            ph_refund_attempt r \<le> ph_refund_attempt r' \<and>
            (ph_state r = HoldReleased \<longrightarrow> ph_state r' = HoldReleased \<and>
               ph_release_reason r' = ph_release_reason r))"
proof -
  have "\<exists>r'\<in>set (db_holds (run_ops ops db)). row_le r r'" if "r \<in> set (db_holds db)" for r
    using run_ops_db_le [of db ops] that unfolding db_le_def by blast
  then show ?thesis
    using run_ops_table_ok [OF assms] unfolding row_le_def by blast
qed

text \<open>
  A release decides the setup in the same transaction. When a release lands, the row it returns
  is released for the given reason; a \<open>new_org\<close> release for any reason but \<open>adopted\<close> leaves no open
  setup of the hold's subscription, closes it as \<open>hold_released\<close> and touches no setup of another
  subscription; an adopted or an \<open>org_plan\<close> release leaves every setup as it was. A release that does
  not land changes nothing.
\<close>

theorem release_decides_setup:
  assumes "release_hold l ref i db = (res, db')"
  shows "case res of
           None \<Rightarrow> db_setups db' = db_setups db \<and> db_holds db' = db_holds db
         | Some rh \<Rightarrow>
             ph_state (rh_hold rh) = HoldReleased \<and>
             ph_release_reason (rh_hold rh) = Some (ri_reason i) \<and>
             (if ri_reason i = Adopted \<or> ph_scope (rh_hold rh) \<noteq> NewOrg
              then db_setups db' = db_setups db \<and> rh_closed_setup_id rh = None
              else (\<forall>s\<in>set (db_setups db'). su_subscription_id s = ph_subscription_id (rh_hold rh)
                        \<longrightarrow> \<not> setup_is_open s) \<and>
                   (rh_closed_setup_id rh \<noteq> None \<longleftrightarrow>
                      (\<exists>s\<in>set (db_setups db). su_subscription_id s = ph_subscription_id (rh_hold rh) \<and>
                         setup_is_open s)) \<and>
                   filter (\<lambda>s. su_subscription_id s \<noteq> ph_subscription_id (rh_hold rh)) (db_setups db') =
                   filter (\<lambda>s. su_subscription_id s \<noteq> ph_subscription_id (rh_hold rh)) (db_setups db))"
proof (cases res)
  case None
  let ?P = "\<lambda>r. state_write_fence l ref db r \<and> ph_state r \<noteq> HoldReleased"
  show ?thesis
  proof (cases "check_org_row i db")
    case (Inl u)
    with assms None show ?thesis by (simp add: release_hold_def)
  next
    case (Inr c)
    from assms None Inr have
      "first_row (map (apply_release (db_now db) i) (filter ?P (db_holds db))) = None"
      and db': "db' = snd (update_holds ?P (apply_release (db_now db) i) db)"
      by (auto simp: release_hold_def case_prod_beta split: option.splits if_splits)
    from first_row_None [OF this(1)] have "\<forall>r\<in>set (db_holds db). \<not> ?P r" by blast
    with db' None show ?thesis by (simp add: map_update_id)
  qed
next
  case (Some rh)
  with assms have eq: "release_hold l ref i db = (Some rh, db')" by simp
  from release_hold_Some [OF eq] obtain r where
    r: "rh_hold rh = apply_release (db_now db) i r" by blast
  let ?db1 = "snd (update_holds (\<lambda>r. state_write_fence l ref db r \<and> ph_state r \<noteq> HoldReleased)
      (apply_release (db_now db) i) db)"
  show ?thesis
  proof (cases "ri_reason i = Adopted \<or> ph_scope (rh_hold rh) \<noteq> NewOrg")
    case True
    with eq have "db' = ?db1 \<and> rh_closed_setup_id rh = None"
      by (auto simp: release_hold_def case_prod_beta split: sum.splits option.splits if_splits)
    with True Some r show ?thesis by (simp add: apply_release_def)
  next
    case False
    with eq have c: "db' = snd (close_setups_of (ph_subscription_id (rh_hold rh)) ?db1)"
      "rh_closed_setup_id rh = fst (close_setups_of (ph_subscription_id (rh_hold rh)) ?db1)"
      by (auto simp: release_hold_def case_prod_beta split: sum.splits option.splits if_splits)
    have setups: "db_setups ?db1 = db_setups db" by simp
    let ?sub = "ph_subscription_id (rh_hold rh)"
    have "\<forall>s\<in>set (db_setups db'). su_subscription_id s = ?sub \<longrightarrow> \<not> setup_is_open s"
      using c(1) setups by (auto simp: close_setups_of_def case_prod_beta setup_is_open_def)
    moreover have "rh_closed_setup_id rh \<noteq> None \<longleftrightarrow>
        (\<exists>s\<in>set (db_setups db). su_subscription_id s = ?sub \<and> setup_is_open s)"
      using c(2) setups
      by (auto simp: close_setups_of_def case_prod_beta
          first_row_map_filter_neq_None [unfolded not_None_eq])
    moreover have "filter (\<lambda>s. su_subscription_id s \<noteq> ?sub) (db_setups db') =
        filter (\<lambda>s. su_subscription_id s \<noteq> ?sub) (db_setups db)"
      using c(1) setups
      by (simp add: close_setups_of_def case_prod_beta) (rule filter_map_elsewhere, simp)
    ultimately show ?thesis using False Some r by (simp add: apply_release_def)
  qed
qed

theorem state_writes_exclusive_witness:
  "let ref = \<lparr>hr_id = ''h1'', hr_version = 0\<rparr>; op = OpWrite sample_lease ref empty_patch
   in op_lands op sample_db \<and>
      \<not> op_lands (OpReserve sample_lease ref) (run_ops [OpNudge ''sub_1''] (run_op op sample_db))"
proof -
  let ?ref = "\<lparr>hr_id = ''h1'', hr_version = 0\<rparr>" and ?op = "OpWrite sample_lease \<lparr>hr_id = ''h1'', hr_version = 0\<rparr> empty_patch"
  have ok: "table_ok (db_holds sample_db)" "well_typed_op ?op" "\<forall>op\<in>set [OpNudge ''sub_1'']. well_typed_op op"
    and l: "op_lands ?op sample_db" and f: "op_fence ?op = Some (sample_lease, ?ref)"
      "op_fence (OpReserve sample_lease ?ref) = Some (sample_lease, ?ref)"
    by (simp_all add: open_patch_def empty_patch_def)
  show ?thesis
    using l state_writes_exclusive [OF ok f(1) l f(2)] by (simp add: Let_def)
qed

theorem state_write_fenced_witness:
  "\<exists>r\<in>set (db_holds sample_db). ph_id r = ''h1'' \<and> ph_version r = 0 \<and>
     le_key sample_lease = lease_key_for (ph_scope r) (ph_payer_key r)"
proof -
  let ?ref = "\<lparr>hr_id = ''h1'', hr_version = 0\<rparr>"
  have "op_fence (OpWrite sample_lease ?ref empty_patch) = Some (sample_lease, ?ref)"
    "op_lands (OpWrite sample_lease ?ref empty_patch) sample_db" by simp_all
  from state_write_fenced [OF this] show ?thesis by auto
qed

theorem hold_table_invariant_witness:
  "table_ok (db_holds (run_ops [OpNudge ''sub_1'', OpTick 5] sample_db))"
proof -
  have "table_ok (db_holds sample_db)" "\<forall>op\<in>set [OpNudge ''sub_1'', OpTick 5]. well_typed_op op"
    by simp_all
  from hold_table_invariant [OF this] show ?thesis by blast
qed

theorem release_decides_setup_witness:
  "let i = \<lparr>ri_reason = Refunded, ri_released_by = None, ri_note = None, ri_observed_at = None,
            ri_last_pay = None, ri_expect_org_row = None\<rparr>;
       r = release_hold sample_lease \<lparr>hr_id = ''h1'', hr_version = 0\<rparr> i sample_db
   in map_option rh_closed_setup_id (fst r) = Some (Some ''s1'') \<and>
      (\<forall>s\<in>set (db_setups (snd r)). su_subscription_id s = ''sub_1'' \<longrightarrow> \<not> setup_is_open s)"
proof -
  let ?i = "\<lparr>ri_reason = Refunded, ri_released_by = None, ri_note = None, ri_observed_at = None,
            ri_last_pay = None, ri_expect_org_row = None\<rparr> :: release_input"
  let ?r = "release_hold sample_lease \<lparr>hr_id = ''h1'', hr_version = 0\<rparr> ?i sample_db"
  have eq: "?r = (fst ?r, snd ?r)" by simp
  have run: "fst ?r = Some \<lparr>rh_hold = apply_release 7 ?i sample_hold, rh_closed_setup_id = Some ''s1'',
      rh_checked_org_row = None\<rparr>"
    by (simp add: release_hold_def check_org_row_def update_holds_def sql_update_def first_row_def
        apply_release_def close_setups_of_def setup_is_open_def sample_setup_def)
  from release_decides_setup [OF eq] run show ?thesis
    by (simp add: Let_def apply_release_def)
qed

end
