(* ===== verification/Hold_Advance.thy ===== *)
theory Hold_Advance
  imports Hold_Machine Hold_Store_Laws
begin

text \<open>
  \<open>advanceHold\<close> of \<open>lib/billing/payment-holds/machine.ts\<close>: one call advances one open hold, with up to
  three Stripe writes, observing again after each. Everything the call touches is the record
  \<open>machine_deps\<close>; the local variables of the function are the record \<open>adv\<close>. \<open>av_trace\<close> is not in the
  source: it records what the call did, oldest first, so that the order of the effects can be stated.
\<close>

section \<open>What the call depends on\<close>

text \<open>\<open>HoldStripeWriter\<close>: the parameters the machine passes, in the order it writes them.\<close>

record 'w stripe_writer =
  inv_void :: "string \<Rightarrow> ('w, exn, unit) eff"
  inv_del :: "string \<Rightarrow> ('w, exn, unit) eff"
  sub_cancel :: "string \<Rightarrow> string \<Rightarrow> ('w, exn, unit) eff"
  pi_cancel :: "string \<Rightarrow> ('w, exn, unit) eff"
  refund_create :: "string \<Rightarrow> int \<Rightarrow> (string \<times> string) \<Rightarrow> string \<Rightarrow> ('w, exn, unit) eff"

record hold_alert =
  ha_subscription_id :: string
  ha_customer_id :: string
  ha_payment_intent_id :: "string option"
  ha_detail :: string

text \<open>\<open>HoldMachineDeps\<close>, with its \<open>HoldStore\<close> inlined. \<open>now\<close> reads a clock of the world.\<close>

record 'w machine_deps =
  dep_reader :: "'w stripe_reader"
  dep_writer :: "'w stripe_writer"
  dep_write :: "hold_ref \<Rightarrow> hold_patch \<Rightarrow> ('w, exn, hold_row option) eff"
  dep_reserve :: "hold_ref \<Rightarrow> ('w, exn, (nat \<times> hold_row) option) eff"
  dep_release :: "hold_ref \<Rightarrow> release_input \<Rightarrow> ('w, exn, released_hold option) eff"
  dep_fence :: "('w, exn, unit) eff"
  dep_alert :: "hold_alert \<Rightarrow> ('w, exn, bool) eff"
  dep_now :: "'w \<Rightarrow> int"

section \<open>What a call does\<close>

datatype hold_event =
    EvObserved hold_obs | EvObserveFailed obs_error
  | EvWrite hold_row hold_patch bool | EvReserve hold_row "nat option"
  | EvRelease hold_row release_input bool
  | EvAlert hold_alert | EvFence bool | EvReread "string option"
  | EvVoid string | EvDelete string | EvCancelSub string string | EvCancelPi string
  | EvRefund string int "string \<times> string" string

datatype advance_outcome = OutInert | OutReleased | OutOpen | OutStale | OutLeaseLost

text \<open>How the call ends: \<open>done(outcome)\<close>, or a rejection of a dependency nothing catches.\<close>

datatype ending = Done advance_outcome | Threw exn

record adv =
  av_hold :: hold_row
  av_rows :: "hold_tag list"
  av_obs :: "hold_obs option"
  av_alerted :: bool
  av_err :: "string option"
  av_ctx :: call_context
  av_acts :: nat
  av_trace :: "hold_event list"

definition adv_init :: "hold_row \<Rightarrow> adv" where
  "adv_init h = \<lparr>av_hold = h, av_rows = [], av_obs = None, av_alerted = False, av_err = None,
     av_ctx = new_call_context, av_acts = 0, av_trace = []\<rparr>"

text \<open>A piece of the call: it ends the call (\<open>Inl\<close>) or goes on with a value.\<close>

type_synonym ('w, 'a) adv_step = "(adv \<times> 'w, ending, 'a) eff"

definition note_event :: "hold_event \<Rightarrow> adv \<Rightarrow> adv" where
  "note_event e a = a\<lparr>av_trace := av_trace a @ [e]\<rparr>"

definition finish :: "advance_outcome \<Rightarrow> ('w, 'a) adv_step" where
  "finish out s = (Inl (Done out), s)"

definition upd :: "(adv \<Rightarrow> adv) \<Rightarrow> ('w, unit) adv_step" where
  "upd f s = (Inr (), f (fst s), snd s)"

text \<open>\<open>write(patch)\<close>: false when it matched no row.\<close>

definition adv_write :: "'w machine_deps \<Rightarrow> hold_patch \<Rightarrow> ('w, bool) adv_step" where
  "adv_write d p s =
     (let (a, w) = s in
      case dep_write d (ref_of (av_hold a)) p w of
        (Inl e, w') \<Rightarrow> (Inl (Threw e), note_event (EvWrite (av_hold a) p False) a, w')
      | (Inr None, w') \<Rightarrow> (Inr False, note_event (EvWrite (av_hold a) p False) a, w')
      | (Inr (Some row), w') \<Rightarrow> (Inr True, note_event (EvWrite (av_hold a) p True) a\<lparr>av_hold := row\<rparr>, w'))"

text \<open>\<open>const wrote = await write(\<dots>); return done(wrote ? "open" : "stale")\<close>.\<close>

definition write_done :: "'w machine_deps \<Rightarrow> hold_patch \<Rightarrow> ('w, 'a) adv_step" where
  "write_done d p = ebind (adv_write d p) (\<lambda>ok. finish (if ok then OutOpen else OutStale))"

text \<open>\<open>raise(detail, pi)\<close>.\<close>

definition adv_raise :: "'w machine_deps \<Rightarrow> string \<Rightarrow> string option \<Rightarrow> ('w, bool) adv_step" where
  "adv_raise d detail pi s =
     (let (a, w) = s;
          al = \<lparr>ha_subscription_id = ph_subscription_id (av_hold a),
                ha_customer_id = ph_customer_id (av_hold a), ha_payment_intent_id = pi, ha_detail = detail\<rparr>
      in case dep_alert d al w of
           (Inl e, w') \<Rightarrow> (Inl (Threw e), note_event (EvAlert al) a, w')
         | (Inr ok, w') \<Rightarrow> (Inr ok, (note_event (EvAlert al) a)\<lparr>av_alerted := av_alerted a \<or> ok\<rparr>, w'))"

text \<open>\<open>fenced()\<close>: any rejection means the lease is lost.\<close>

definition adv_fenced :: "'w machine_deps \<Rightarrow> ('w, bool) adv_step" where
  "adv_fenced d s =
     (let (a, w) = s in
      case dep_fence d w of
        (Inl _, w') \<Rightarrow> (Inr False, note_event (EvFence False) a, w')
      | (Inr _, w') \<Rightarrow> (Inr True, note_event (EvFence True) a, w'))"

text \<open>\<open>rereadInvoice()\<close>: the status, \<open>missing\<close>, or null.\<close>

definition reread_invoice :: "'w machine_deps \<Rightarrow> ('w, string option) adv_step" where
  "reread_invoice d s =
     (let (a, w) = s;
          (r, w') = inv_retrieve (dep_reader d) (ph_invoice_id (av_hold a)) w;
          after = (case r of Inr st \<Rightarrow> st
                   | Inl e \<Rightarrow> if is_resource_missing e then Some ''missing'' else None)
      in (Inr after, note_event (EvReread after) a, w'))"

text \<open>
  A Stripe write inside its \<open>try\<close>: a rejection leaves \<open>lastError = <call>: <message>\<close> and goes on.
  True when the call resolved.
\<close>

definition stripe_try ::
  "hold_event \<Rightarrow> string \<Rightarrow> ('w, exn, unit) eff \<Rightarrow> ('w, bool) adv_step" where
  "stripe_try ev what call s =
     (let (a, w) = s in
      case call w of
        (Inl e, w') \<Rightarrow> (Inr False, (note_event ev a)\<lparr>av_err := Some (what @ '': '' @ exn_msg e)\<rparr>, w')
      | (Inr _, w') \<Rightarrow> (Inr True, note_event ev a, w'))"

definition adv_release :: "'w machine_deps \<Rightarrow> release_input \<Rightarrow> ('w, 'a) adv_step" where
  "adv_release d i s =
     (let (a, w) = s in
      case dep_release d (ref_of (av_hold a)) i w of
        (Inl e, w') \<Rightarrow> (Inl (Threw e), note_event (EvRelease (av_hold a) i False) a, w')
      | (Inr None, w') \<Rightarrow> (Inl (Done OutStale), note_event (EvRelease (av_hold a) i False) a, w')
      | (Inr (Some rel), w') \<Rightarrow>
          (Inl (Done OutReleased), (note_event (EvRelease (av_hold a) i True) a)\<lparr>av_hold := rh_hold rel\<rparr>, w'))"

definition observed_release :: "release_reason \<Rightarrow> int \<Rightarrow> string \<Rightarrow> release_input" where
  "observed_release reason observed_at last_pay =
     \<lparr>ri_reason = reason, ri_released_by = None, ri_note = None, ri_observed_at = Some observed_at,
      ri_last_pay = Some (Some last_pay), ri_expect_org_row = None\<rparr>"

section \<open>Rows that keep the hold open\<close>

text \<open>\<open>\<dots>(lastError !== null ? { lastError } : {})\<close>.\<close>

definition err_patch :: "string option \<Rightarrow> string option option" where
  "err_patch e = (case e of None \<Rightarrow> None | Some m \<Rightarrow> Some (Some m))"

definition succeeded_of :: "pay_obs \<Rightarrow> succeeded_payment list" where
  "succeeded_of p = (case p of PaySucceeded pis \<Rightarrow> pis | _ \<Rightarrow> [])"

definition same_entry :: "hold_row \<Rightarrow> hold_state \<Rightarrow> bool" where
  "same_entry h st \<longleftrightarrow>
     (case ph_alerted_at h of None \<Rightarrow> False | Some t \<Rightarrow> t \<ge> ph_state_since h) \<and> ph_state h = st"

definition stay_patch :: "hold_row \<Rightarrow> hold_state \<Rightarrow> bool \<Rightarrow> bool \<Rightarrow> string option \<Rightarrow> hold_obs \<Rightarrow> int \<Rightarrow> hold_patch" where
  "stay_patch h st count ok err ob at =
     \<lparr>hp_state = Some st,
      hp_attempts = (if count then Some (ph_attempts h + 1) else None),
      hp_last_error = err_patch err,
      hp_last_pay = Some (Some (pay_kind (ob_pay ob))),
      hp_refund_action_since =
        (if st = RefundPending
         then Some (if \<exists>p\<in>set (succeeded_of (ob_pay ob)). ro_action_required (sp_refund p)
                    then coalesce (ph_refund_action_since h) (Some at) else None)
         else None),
      hp_observed_at = Some at,
      hp_next_check_at = Some (next_check st (ph_refund_attempt h) at),
      hp_alerted_at = (if ok then Some (Some at) else None),
      hp_age_alerted_at = None\<rparr>"

definition adv_stay ::
  "'w machine_deps \<Rightarrow> hold_state \<Rightarrow> string option \<Rightarrow> bool \<Rightarrow> hold_obs \<Rightarrow> int \<Rightarrow> ('w, 'a) adv_step" where
  "adv_stay d st al count ob at s =
     ebind (case al of
              Some detail \<Rightarrow> if \<not> same_entry (av_hold (fst s)) st then adv_raise d detail None else ereturn False
            | None \<Rightarrow> ereturn False)
       (\<lambda>ok s'. write_done d (stay_patch (av_hold (fst s')) st count ok (av_err (fst s')) ob at) s') s"

text \<open>The row that hands the hold to an operator.\<close>

definition operator_patch :: "hold_row \<Rightarrow> bool \<Rightarrow> string option \<Rightarrow> hold_obs \<Rightarrow> int \<Rightarrow> hold_patch" where
  "operator_patch h ok err ob at =
     empty_patch\<lparr>hp_state := Some NeedsOperator, hp_last_pay := Some (Some (pay_kind (ob_pay ob))),
       hp_observed_at := Some at, hp_next_check_at := Some (next_check NeedsOperator (ph_refund_attempt h) at),
       hp_alerted_at := (if ok then Some (Some at) else None), hp_last_error := err_patch err\<rparr>"

definition operator_pi :: "string option \<Rightarrow> pay_obs \<Rightarrow> string option" where
  "operator_pi pi p = coalesce pi (case p of PayInFlight x \<Rightarrow> Some x | PayCapturable x \<Rightarrow> Some x | _ \<Rightarrow> None)"

definition adv_operator ::
  "'w machine_deps \<Rightarrow> string \<Rightarrow> string option \<Rightarrow> hold_obs \<Rightarrow> int \<Rightarrow> ('w, 'a) adv_step" where
  "adv_operator d detail pi ob at =
     ebind (adv_raise d detail (operator_pi pi (ob_pay ob)))
       (\<lambda>ok s. write_done d (operator_patch (av_hold (fst s)) ok (av_err (fst s)) ob at) s)"

text \<open>A failed observation (I5).\<close>

definition failed_patch :: "hold_row \<Rightarrow> obs_error \<Rightarrow> int \<Rightarrow> hold_patch" where
  "failed_patch h e at =
     empty_patch\<lparr>hp_attempts := Some (ph_attempts h + 1), hp_last_error := Some (Some (obs_error_message e)),
       hp_next_check_at := Some (next_check (ph_state h) (ph_refund_attempt h) at)\<rparr>"


section \<open>The Stripe writes\<close>

definition enter_refund_patch :: "hold_row \<Rightarrow> hold_obs \<Rightarrow> int \<Rightarrow> hold_patch" where
  "enter_refund_patch h ob at =
     empty_patch\<lparr>hp_state := Some RefundDue, hp_last_pay := Some (Some (pay_kind (ob_pay ob))),
       hp_observed_at := Some at, hp_next_check_at := Some (next_check RefundDue (ph_refund_attempt h) at)\<rparr>"

definition refund_key :: "string \<Rightarrow> nat \<Rightarrow> string" where
  "refund_key pi n = ''hold-refund-'' @ pi @ ''-'' @ nat_str n"

definition set_refund_attempted :: "adv \<Rightarrow> adv" where
  "set_refund_attempted a = a\<lparr>av_ctx := (av_ctx a)\<lparr>cc_refund_attempted := True\<rparr>\<rparr>"

definition set_refund_failed :: "adv \<Rightarrow> adv" where
  "set_refund_failed a = a\<lparr>av_ctx := (av_ctx a)\<lparr>cc_refund_failed := True\<rparr>\<rparr>"

text \<open>One \<open>refunds.create\<close>, with the number the reservation gave.\<close>

definition refund_one :: "'w machine_deps \<Rightarrow> succeeded_payment \<Rightarrow> nat \<Rightarrow> ('w, bool) adv_step" where
  "refund_one d p n s =
     (let hid = ph_id (av_hold (fst s)); amt = ro_uncovered (sp_refund p);
          meta = (hold_refund_metadata_key, hid); key = refund_key (sp_id p) n
      in stripe_try (EvRefund (sp_id p) amt meta key) ''refunds.create''
           (refund_create (dep_writer d) (sp_id p) amt meta key) s)"

definition reserve_attempt :: "'w machine_deps \<Rightarrow> ('w, nat) adv_step" where
  "reserve_attempt d s =
     (let (a, w) = s in
      case dep_reserve d (ref_of (av_hold a)) w of
        (Inl e, w') \<Rightarrow> (Inl (Threw e), note_event (EvReserve (av_hold a) None) a, w')
      | (Inr None, w') \<Rightarrow> (Inl (Done OutStale), note_event (EvReserve (av_hold a) None) a, w')
      | (Inr (Some (n, h)), w') \<Rightarrow>
          (Inr n, (note_event (EvReserve (av_hold a) (Some n)) a)\<lparr>av_hold := h\<rparr>, w'))"

text \<open>The loop over the payments; it stops (\<open>break\<close>) at the first refund that fails.\<close>

fun adv_refunds :: "'w machine_deps \<Rightarrow> succeeded_payment list \<Rightarrow> ('w, unit) adv_step" where
  "adv_refunds d [] = ereturn ()"
| "adv_refunds d (p # ps) =
     ebind (reserve_attempt d) (\<lambda>n.
     ebind (adv_fenced d) (\<lambda>held.
       if \<not> held then finish OutLeaseLost
       else ebind (upd set_refund_attempted) (\<lambda>_.
            ebind (refund_one d p n) (\<lambda>ok. if ok then adv_refunds d ps else upd set_refund_failed))))"

definition act_refund ::
  "'w machine_deps \<Rightarrow> succeeded_payment list \<Rightarrow> hold_obs \<Rightarrow> int \<Rightarrow> ('w, unit) adv_step" where
  "act_refund d pis ob at s =
     ebind (if ph_state (av_hold (fst s)) \<noteq> RefundDue
            then adv_write d (enter_refund_patch (av_hold (fst s)) ob at) else ereturn True)
       (\<lambda>entered s'.
          if \<not> entered then finish OutStale s'
          else adv_refunds d (take (refund_budget - ph_refund_attempt (av_hold (fst s'))) pis) s') s"

definition set_voided :: "adv \<Rightarrow> adv" where
  "set_voided a = a\<lparr>av_ctx := (av_ctx a)\<lparr>cc_voided := True\<rparr>\<rparr>"

definition set_void_failed :: "adv \<Rightarrow> adv" where
  "set_void_failed a = a\<lparr>av_ctx := (av_ctx a)\<lparr>cc_void_failed := True\<rparr>\<rparr>"

text \<open>\<open>lastError ??= \<dots>\<close> after a void that is not proven.\<close>

definition void_unproven :: "string option \<Rightarrow> adv \<Rightarrow> adv" where
  "void_unproven after a = a\<lparr>av_err := coalesce (av_err a)
     (Some (''the held invoice reads '' @ (case after of None \<Rightarrow> ''unreadable'' | Some s \<Rightarrow> s)
        @ '' after the void''))\<rparr>"

definition push_row :: "hold_tag \<Rightarrow> adv \<Rightarrow> adv" where
  "push_row t a = a\<lparr>av_rows := av_rows a @ [t]\<rparr>"

definition void_twice_alert :: string where
  "void_twice_alert = ''the held invoice could not be voided twice, so the subscription was not cancelled''"

definition act_void :: "'w machine_deps \<Rightarrow> hold_tag \<Rightarrow> hold_obs \<Rightarrow> int \<Rightarrow> ('w, unit) adv_step" where
  "act_void d t ob at s =
     (let iv = ph_invoice_id (av_hold (fst s)) in
      ebind (stripe_try (EvVoid iv) ''invoices.voidInvoice'' (inv_void (dep_writer d) iv)) (\<lambda>_.
      ebind (reread_invoice d) (\<lambda>after.
        if after = Some ''void'' then (if t = T8 then upd set_voided else ereturn ())
        else if t = T8 then ebind (upd (void_unproven after)) (\<lambda>_. upd set_void_failed)
        else ebind (upd (void_unproven after)) (\<lambda>_ s'.
             let first = (ph_state (av_hold (fst s')) = Closing) in
             ebind (upd (push_row (if first then T3a else T3b))) (\<lambda>_.
               adv_stay d CancelUnproven (if first then None else Some void_twice_alert) True ob at) s'))) s)"

definition set_cancel_attempted :: "adv \<Rightarrow> adv" where
  "set_cancel_attempted a = a\<lparr>av_ctx := (av_ctx a)\<lparr>cc_cancel_attempted := True\<rparr>\<rparr>"

definition cancel_comment :: "hold_row \<Rightarrow> string" where
  "cancel_comment h = ''alethia:checkout_closed:'' @ ph_id h"

definition act_cancel :: "'w machine_deps \<Rightarrow> ('w, unit) adv_step" where
  "act_cancel d =
     ebind (upd set_cancel_attempted) (\<lambda>_ s.
       let h = av_hold (fst s) in
       ebind (stripe_try (EvCancelSub (ph_subscription_id h) (cancel_comment h)) ''subscriptions.cancel''
               (sub_cancel (dep_writer d) (ph_subscription_id h) (cancel_comment h))) (\<lambda>_. ereturn ()) s)"

definition set_pi_cancel_attempted :: "adv \<Rightarrow> adv" where
  "set_pi_cancel_attempted a = a\<lparr>av_ctx := (av_ctx a)\<lparr>cc_pi_cancel_attempted := True\<rparr>\<rparr>"

definition act_cancel_pi :: "'w machine_deps \<Rightarrow> string \<Rightarrow> ('w, unit) adv_step" where
  "act_cancel_pi d pi =
     ebind (upd set_pi_cancel_attempted) (\<lambda>_.
       ebind (stripe_try (EvCancelPi pi) ''paymentIntents.cancel'' (pi_cancel (dep_writer d) pi)) (\<lambda>_. ereturn ()))"

definition draft_patch :: "hold_row \<Rightarrow> string option \<Rightarrow> hold_obs \<Rightarrow> int \<Rightarrow> hold_patch" where
  "draft_patch h err ob at =
     empty_patch\<lparr>hp_state := Some InvoicePayable, hp_last_pay := Some (Some (pay_kind (ob_pay ob))),
       hp_observed_at := Some at, hp_next_check_at := Some (next_check InvoicePayable (ph_refund_attempt h) at),
       hp_last_error := err_patch err\<rparr>"

definition act_delete_draft :: "'w machine_deps \<Rightarrow> hold_obs \<Rightarrow> int \<Rightarrow> ('w, unit) adv_step" where
  "act_delete_draft d ob at s =
     (let iv = ph_invoice_id (av_hold (fst s)) in
      ebind (stripe_try (EvDelete iv) ''invoices.del'' (inv_del (dep_writer d) iv)) (\<lambda>_.
      ebind (reread_invoice d) (\<lambda>after s'.
        if after = Some ''missing''
        then adv_release d (observed_release DeletedDraft at (pay_kind (ob_pay ob))) s'
        else write_done d (draft_patch (av_hold (fst s')) (av_err (fst s')) ob at) s')) s)"

text \<open>Every act but the refund is fenced once, before its Stripe write.\<close>

definition adv_act :: "'w machine_deps \<Rightarrow> hold_tag \<Rightarrow> hold_act \<Rightarrow> hold_obs \<Rightarrow> int \<Rightarrow> ('w, unit) adv_step" where
  "adv_act d t x ob at =
     (case x of
        ActRefund pis \<Rightarrow> act_refund d pis ob at
      | _ \<Rightarrow> ebind (adv_fenced d) (\<lambda>held.
          if \<not> held then finish OutLeaseLost
          else (case x of
                  ActVoid \<Rightarrow> act_void d t ob at
                | ActCancel \<Rightarrow> act_cancel d
                | ActCancelPi pi \<Rightarrow> act_cancel_pi d pi
                | _ \<Rightarrow> act_delete_draft d ob at)))"

section \<open>One observation and what follows from it\<close>

definition spent_patch :: "hold_obs \<Rightarrow> int \<Rightarrow> hold_patch" where
  "spent_patch ob at =
     empty_patch\<lparr>hp_last_pay := Some (Some (pay_kind (ob_pay ob))), hp_observed_at := Some at,
       hp_next_check_at := Some at\<rparr>"

definition count_act :: "adv \<Rightarrow> adv" where
  "count_act a = a\<lparr>av_acts := av_acts a + 1\<rparr>"

definition set_reread :: "adv \<Rightarrow> adv" where
  "set_reread a = a\<lparr>av_ctx := (av_ctx a)\<lparr>cc_reread := True\<rparr>\<rparr>"

definition adv_decided :: "'w machine_deps \<Rightarrow> decision \<Rightarrow> hold_obs \<Rightarrow> int \<Rightarrow> ('w, unit) adv_step" where
  "adv_decided d dec ob at =
     (case dec of
        DReread t \<Rightarrow> upd set_reread
      | DRelease t r \<Rightarrow> adv_release d (observed_release r at (pay_kind (ob_pay ob)))
      | DOperator t detail pi \<Rightarrow> adv_operator d detail pi ob at
      | DStay t st al count \<Rightarrow> adv_stay d st al count ob at
      | DAct t x \<Rightarrow> (\<lambda>s. if av_acts (fst s) \<ge> max_acts then write_done d (spent_patch ob at) s
          else ebind (upd count_act) (\<lambda>_. adv_act d t x ob at) s))"

definition observed :: "hold_obs \<Rightarrow> decision \<Rightarrow> adv \<Rightarrow> adv" where
  "observed ob dec a =
     (note_event (EvObserved ob) a)\<lparr>av_obs := Some ob, av_rows := av_rows a @ [decision_row dec]\<rparr>"

definition adv_iter :: "'w machine_deps \<Rightarrow> ('w, unit) adv_step" where
  "adv_iter d s =
     (let (a, w) = s; at = dep_now d w in
      case observe_hold (dep_reader d) (av_hold a) w of
        (Inl e, w') \<Rightarrow>
          if ph_state (av_hold a) = HoldReleased
          then finish OutStale (note_event (EvObserveFailed e) a, w')
          else write_done d (failed_patch (av_hold a) e at) (note_event (EvObserveFailed e) a, w')
      | (Inr ob, w') \<Rightarrow>
          let dec = decide (av_hold a) ob (av_ctx a)
          in adv_decided d dec ob at (observed ob dec a, w'))"

text \<open>The \<open>for\<close> loop, with the reads that are left, and the write after it.\<close>

fun advance_loop :: "'w machine_deps \<Rightarrow> nat \<Rightarrow> ('w, unit) adv_step" where
  "advance_loop d 0 = (\<lambda>s. write_done d (empty_patch\<lparr>hp_next_check_at := Some (dep_now d (snd s))\<rparr>) s)"
| "advance_loop d (Suc n) = ebind (adv_iter d) (\<lambda>_. advance_loop d n)"

definition advance_hold :: "'w machine_deps \<Rightarrow> hold_row \<Rightarrow> 'w \<Rightarrow> (ending + unit) \<times> adv \<times> 'w" where
  "advance_hold d h w =
     (if ph_state h = HoldReleased then finish OutInert (adv_init h, w)
      else advance_loop d max_reads (adv_init h, w))"

end
