(* ===== verification/Hold_Advance_Laws.thy ===== *)
theory Hold_Advance_Laws
  imports Hold_Advance
begin

text \<open>
  What one \<open>advanceHold\<close> call does, for any Stripe, store, lease and alert behind its dependencies:
  the order of its effects (every Stripe write sits directly behind the lease fence and the observation
  that justifies it), and its bounds. The last sections add the store's contract.
\<close>

section \<open>Guarded traces\<close>

text \<open>The last observation of a trace (latest event first); a failed one is none.\<close>

fun last_obs :: "hold_event list \<Rightarrow> hold_obs option" where
  "last_obs [] = None"
| "last_obs (EvObserved ob # past) = Some ob"
| "last_obs (EvObserveFailed e # past) = None"
| "last_obs (_ # past) = last_obs past"

text \<open>A patch that records a failed observation and nothing else.\<close>

definition bookkeeping_patch :: "hold_patch \<Rightarrow> bool" where
  "bookkeeping_patch p \<longleftrightarrow> hp_state p = None \<and> hp_last_pay p = None \<and> hp_refund_action_since p = None \<and>
     hp_observed_at p = None \<and> hp_alerted_at p = None \<and> hp_age_alerted_at p = None"

definition fenced_on :: "(hold_obs \<Rightarrow> bool) \<Rightarrow> hold_event list \<Rightarrow> bool" where
  "fenced_on P past \<longleftrightarrow> (\<exists>ob rest. past = EvFence True # EvObserved ob # rest \<and> P ob)"

definition is_ended :: "hold_obs \<Rightarrow> bool" where
  "is_ended ob \<longleftrightarrow> (\<exists>e. ob_sub ob = SubEnded e)"

definition refund_due_on :: "string \<Rightarrow> int \<Rightarrow> hold_obs \<Rightarrow> bool" where
  "refund_due_on pi amt ob \<longleftrightarrow> is_ended ob \<and>
     (\<exists>p\<in>set (succeeded_of (ob_pay ob)). is_uncovered p \<and> sp_id p = pi \<and> ro_uncovered (sp_refund p) = amt)"

text \<open>The writes a call makes for one observation only.\<close>

fun is_refund :: "hold_event \<Rightarrow> bool" where
  "is_refund (EvRefund pi amt meta key) = True" | "is_refund _ = False"

fun is_cancel_sub :: "hold_event \<Rightarrow> bool" where
  "is_cancel_sub (EvCancelSub sub c) = True" | "is_cancel_sub _ = False"

fun is_cancel_pi :: "hold_event \<Rightarrow> bool" where
  "is_cancel_pi (EvCancelPi pi) = True" | "is_cancel_pi _ = False"

text \<open>How often a payment was refunded, and how often an observation lists it as succeeded and uncovered.\<close>

fun refunds_payment :: "string \<Rightarrow> hold_event \<Rightarrow> bool" where
  "refunds_payment pi (EvRefund p amt meta key) = (p = pi)" | "refunds_payment pi _ = False"

abbreviation refunded_times :: "string \<Rightarrow> hold_event list \<Rightarrow> nat" where
  "refunded_times pi tr \<equiv> length (filter (refunds_payment pi) tr)"

definition owed_times :: "string \<Rightarrow> succeeded_payment list \<Rightarrow> nat" where
  "owed_times pi ps = length (filter (\<lambda>p. is_uncovered p \<and> sp_id p = pi) ps)"

text \<open>What came before the last observation.\<close>

fun before_obs :: "hold_event list \<Rightarrow> hold_event list" where
  "before_obs [] = []"
| "before_obs (EvObserved ob # past) = past"
| "before_obs (_ # past) = before_obs past"

text \<open>What has to stand before an event, latest first.\<close>

fun event_ok :: "hold_event list \<Rightarrow> hold_event \<Rightarrow> bool" where
  "event_ok past (EvVoid iv) =
     fenced_on (\<lambda>ob. pay_unpaid (ob_pay ob) \<and> (ob_inv ob = InvOpen \<or> ob_inv ob = InvUncollectible) \<and>
        (ob_sub ob = SubIncomplete \<or> is_ended ob)) past"
| "event_ok past (EvCancelSub sub c) =
     (fenced_on (\<lambda>ob. pay_unpaid (ob_pay ob) \<and> ob_inv ob = InvVoid \<and> ob_sub ob = SubIncomplete) past \<and>
      (\<forall>e\<in>set past. \<not> is_cancel_sub e))"
| "event_ok past (EvDelete iv) =
     fenced_on (\<lambda>ob. pay_unpaid (ob_pay ob) \<and> ob_inv ob = InvDraft \<and> is_ended ob) past"
| "event_ok past (EvCancelPi pi) =
     (fenced_on (\<lambda>ob. ob_pay ob = PayCapturable pi \<and> is_ended ob) past \<and>
      (\<forall>e\<in>set past. \<not> is_cancel_pi e))"
| "event_ok past (EvRefund pi amt meta key) =
     (\<exists>h n rest. past = EvFence True # EvReserve h (Some n) # rest \<and> key = refund_key pi n \<and>
        (\<exists>ob. last_obs rest = Some ob \<and> refund_due_on pi amt ob \<and>
           refunded_times pi rest < owed_times pi (succeeded_of (ob_pay ob))) \<and>
        (\<forall>e\<in>set (before_obs rest). \<not> is_refund e))"
| "event_ok past (EvRelease h i ok) =
     ((\<exists>ob rest t ctx. past = EvObserved ob # rest \<and> decide h ob ctx = DRelease t (ri_reason i)) \<or>
      (ri_reason i = DeletedDraft \<and>
       (\<exists>iv rest. past = EvReread (Some ''missing'') # EvDelete iv # rest)))"
| "event_ok past (EvWrite h p ok) =
     open_patch p"
| "event_ok past _ = True"

text \<open>
  The events after which the call is over: a lost lease, a state write, a reservation or a release that
  matched no row, a release, and the write that records a failed observation.
\<close>

fun live :: "hold_event list \<Rightarrow> bool" where
  "live (EvFence False # _) = False"
| "live (EvReserve _ None # _) = False"
| "live (EvRelease _ _ _ # _) = False"
| "live (EvWrite _ _ ok # rest) = (ok \<and> (case rest of EvObserveFailed _ # _ \<Rightarrow> False | _ \<Rightarrow> True))"
| "live _ = True"

fun bookkeeping_event :: "hold_event \<Rightarrow> bool" where
  "bookkeeping_event (EvWrite h p ok) = bookkeeping_patch p"
| "bookkeeping_event _ = False"

fun failed :: "hold_event list \<Rightarrow> bool" where
  "failed (EvObserveFailed _ # _) = True"
| "failed _ = False"

fun guarded_rev :: "hold_event list \<Rightarrow> bool" where
  "guarded_rev [] = True"
| "guarded_rev (e # past) =
     (live past \<and> (failed past \<longrightarrow> bookkeeping_event e) \<and> event_ok past e \<and> guarded_rev past)"

definition guarded :: "hold_event list \<Rightarrow> bool" where
  "guarded tr = guarded_rev (rev tr)"

lemma guarded_rev_append:
  "guarded_rev (xs @ e # past) \<Longrightarrow>
     live past \<and> (failed past \<longrightarrow> bookkeeping_event e) \<and> event_ok past e"
  by (induction xs) simp_all

lemma guarded_split:
  "guarded (pre @ e # post) \<Longrightarrow>
     live (rev pre) \<and> (failed (rev pre) \<longrightarrow> bookkeeping_event e) \<and> event_ok (rev pre) e"
  by (simp add: guarded_def guarded_rev_append)

section \<open>One call of a dependency\<close>

text \<open>\<open>past a\<close>: what the call has done, latest first; \<open>guarded_past a\<close> is the invariant.\<close>

definition past :: "adv \<Rightarrow> hold_event list" where
  "past a = rev (av_trace a)"

definition guarded_past :: "adv \<Rightarrow> bool" where
  "guarded_past a = guarded_rev (past a)"

lemma guarded_past_note:
  "guarded_past (note_event e a) \<longleftrightarrow>
     live (past a) \<and> (failed (past a) \<longrightarrow> bookkeeping_event e) \<and> event_ok (past a) e \<and> guarded_past a"
  by (simp add: guarded_past_def past_def note_event_def)

lemma past_note [simp]: "past (note_event e a) = e # past a"
  by (simp add: past_def note_event_def)

lemma past_upd [simp]:
  "past (a\<lparr>av_hold := h\<rparr>) = past a" "past (a\<lparr>av_rows := r\<rparr>) = past a" "past (a\<lparr>av_obs := ob\<rparr>) = past a"
  "past (a\<lparr>av_alerted := b\<rparr>) = past a" "past (a\<lparr>av_err := e\<rparr>) = past a" "past (a\<lparr>av_ctx := c\<rparr>) = past a"
  "past (a\<lparr>av_acts := n\<rparr>) = past a"
  by (simp_all add: past_def)

lemmas adv_flag_defs = set_refund_attempted_def set_refund_failed_def set_voided_def set_void_failed_def
  void_unproven_def push_row_def set_cancel_attempted_def set_pi_cancel_attempted_def count_act_def
  set_reread_def observed_def

lemma past_flags [simp]:
  "past (set_refund_attempted a) = past a" "past (set_refund_failed a) = past a"
  "past (set_voided a) = past a" "past (set_void_failed a) = past a" "past (void_unproven r a) = past a"
  "past (push_row t a) = past a" "past (set_cancel_attempted a) = past a"
  "past (set_pi_cancel_attempted a) = past a" "past (count_act a) = past a" "past (set_reread a) = past a"
  "past (observed ob dec a) = EvObserved ob # past a"
  by (simp_all add: adv_flag_defs)

lemma av_hold_flags [simp]:
  "av_hold (note_event e a) = av_hold a"
  "av_hold (set_refund_attempted a) = av_hold a" "av_hold (set_refund_failed a) = av_hold a"
  "av_hold (set_voided a) = av_hold a" "av_hold (set_void_failed a) = av_hold a"
  "av_hold (void_unproven r a) = av_hold a" "av_hold (push_row t a) = av_hold a"
  "av_hold (set_cancel_attempted a) = av_hold a" "av_hold (set_pi_cancel_attempted a) = av_hold a"
  "av_hold (count_act a) = av_hold a" "av_hold (set_reread a) = av_hold a"
  "av_hold (observed ob dec a) = av_hold a" "av_hold (adv_init h) = h"
  by (simp_all add: adv_flag_defs note_event_def adv_init_def)

lemma yields_upd [simp]: "yields (upd f s) Q E = Q () (f (fst s), snd s)"
  by (simp add: upd_def)

lemma yields_finish [simp]: "yields (finish out s) Q E = E (Done out) s"
  by (simp add: finish_def)

lemma yields_adv_write:
  assumes "\<And>e w'. dep_write d (ref_of (av_hold (fst s))) p (snd s) = (Inl e, w') \<Longrightarrow>
             E (Threw e) (note_event (EvWrite (av_hold (fst s)) p False) (fst s), w')"
    and "\<And>w'. dep_write d (ref_of (av_hold (fst s))) p (snd s) = (Inr None, w') \<Longrightarrow>
             Q False (note_event (EvWrite (av_hold (fst s)) p False) (fst s), w')"
    and "\<And>row w'. dep_write d (ref_of (av_hold (fst s))) p (snd s) = (Inr (Some row), w') \<Longrightarrow>
             Q True (note_event (EvWrite (av_hold (fst s)) p True) (fst s)\<lparr>av_hold := row\<rparr>, w')"
  shows "yields (adv_write d p s) Q E"
  using assms by (cases s) (auto simp: adv_write_def split: sum.splits option.splits prod.splits)

lemma yields_write_done:
  assumes "\<And>e w'. dep_write d (ref_of (av_hold (fst s))) p (snd s) = (Inl e, w') \<Longrightarrow>
             E (Threw e) (note_event (EvWrite (av_hold (fst s)) p False) (fst s), w')"
    and "\<And>w'. dep_write d (ref_of (av_hold (fst s))) p (snd s) = (Inr None, w') \<Longrightarrow>
             E (Done OutStale) (note_event (EvWrite (av_hold (fst s)) p False) (fst s), w')"
    and "\<And>row w'. dep_write d (ref_of (av_hold (fst s))) p (snd s) = (Inr (Some row), w') \<Longrightarrow>
             E (Done OutOpen) (note_event (EvWrite (av_hold (fst s)) p True) (fst s)\<lparr>av_hold := row\<rparr>, w')"
  shows "yields (write_done d p s) Q E"
  unfolding write_done_def yields_ebind
  by (rule yields_adv_write) (simp_all add: assms)

definition alert_of :: "hold_row \<Rightarrow> string \<Rightarrow> string option \<Rightarrow> hold_alert" where
  "alert_of h detail pi = \<lparr>ha_subscription_id = ph_subscription_id h,
     ha_customer_id = ph_customer_id h, ha_payment_intent_id = pi, ha_detail = detail\<rparr>"

lemma yields_adv_raise:
  assumes "\<And>e w'. dep_alert d (alert_of (av_hold (fst s)) detail pi) (snd s) = (Inl e, w') \<Longrightarrow>
             E (Threw e) (note_event (EvAlert (alert_of (av_hold (fst s)) detail pi)) (fst s), w')"
    and "\<And>ok w'. dep_alert d (alert_of (av_hold (fst s)) detail pi) (snd s) = (Inr ok, w') \<Longrightarrow>
             Q ok ((note_event (EvAlert (alert_of (av_hold (fst s)) detail pi)) (fst s))
                     \<lparr>av_alerted := av_alerted (fst s) \<or> ok\<rparr>, w')"
  shows "yields (adv_raise d detail pi s) Q E"
  using assms by (cases s) (auto simp: adv_raise_def alert_of_def Let_def split: sum.splits prod.splits)

lemma yields_adv_fenced:
  assumes "\<And>e w'. dep_fence d (snd s) = (Inl e, w') \<Longrightarrow> Q False (note_event (EvFence False) (fst s), w')"
    and "\<And>w'. dep_fence d (snd s) = (Inr (), w') \<Longrightarrow> Q True (note_event (EvFence True) (fst s), w')"
  shows "yields (adv_fenced d s) Q E"
  using assms by (cases s) (auto simp: adv_fenced_def split: sum.splits prod.splits)

lemma yields_reread_invoice:
  assumes "\<And>r after w'. inv_retrieve (dep_reader d) (ph_invoice_id (av_hold (fst s))) (snd s) = (r, w') \<Longrightarrow>
             Q after (note_event (EvReread after) (fst s), w')"
  shows "yields (reread_invoice d s) Q E"
  using assms by (cases s) (auto simp: reread_invoice_def Let_def split: prod.splits)

lemma yields_stripe_try:
  assumes "\<And>e w'. call (snd s) = (Inl e, w') \<Longrightarrow>
             Q False ((note_event ev (fst s))\<lparr>av_err := Some (what @ '': '' @ exn_msg e)\<rparr>, w')"
    and "\<And>w'. call (snd s) = (Inr (), w') \<Longrightarrow> Q True (note_event ev (fst s), w')"
  shows "yields (stripe_try ev what call s) Q E"
  using assms by (cases s) (auto simp: stripe_try_def split: sum.splits prod.splits)

lemma yields_adv_release:
  assumes "\<And>e w'. dep_release d (ref_of (av_hold (fst s))) i (snd s) = (Inl e, w') \<Longrightarrow>
             E (Threw e) (note_event (EvRelease (av_hold (fst s)) i False) (fst s), w')"
    and "\<And>w'. dep_release d (ref_of (av_hold (fst s))) i (snd s) = (Inr None, w') \<Longrightarrow>
             E (Done OutStale) (note_event (EvRelease (av_hold (fst s)) i False) (fst s), w')"
    and "\<And>rel w'. dep_release d (ref_of (av_hold (fst s))) i (snd s) = (Inr (Some rel), w') \<Longrightarrow>
             E (Done OutReleased)
               ((note_event (EvRelease (av_hold (fst s)) i True) (fst s))\<lparr>av_hold := rh_hold rel\<rparr>, w')"
  shows "yields (adv_release d i s) Q E"
  using assms by (cases s) (auto simp: adv_release_def split: sum.splits option.splits prod.splits)

lemma yields_reserve_attempt:
  assumes "\<And>e w'. dep_reserve d (ref_of (av_hold (fst s))) (snd s) = (Inl e, w') \<Longrightarrow>
             E (Threw e) (note_event (EvReserve (av_hold (fst s)) None) (fst s), w')"
    and "\<And>w'. dep_reserve d (ref_of (av_hold (fst s))) (snd s) = (Inr None, w') \<Longrightarrow>
             E (Done OutStale) (note_event (EvReserve (av_hold (fst s)) None) (fst s), w')"
    and "\<And>n h w'. dep_reserve d (ref_of (av_hold (fst s))) (snd s) = (Inr (Some (n, h)), w') \<Longrightarrow>
             Q n ((note_event (EvReserve (av_hold (fst s)) (Some n)) (fst s))\<lparr>av_hold := h\<rparr>, w')"
  shows "yields (reserve_attempt d s) Q E"
  using assms by (cases s) (auto simp: reserve_attempt_def split: sum.splits option.splits prod.splits)

text \<open>The rows of the call that end it with a write.\<close>

lemma yields_adv_stay:
  assumes "\<And>s' ok. s' = s \<or> (\<exists>al w' b. s' = ((note_event (EvAlert al) (fst s))\<lparr>av_alerted := b\<rparr>, w')) \<Longrightarrow>
      yields (write_done d (stay_patch (av_hold (fst s')) st count ok (av_err (fst s')) ob at) s') Q E"
    and "\<And>al e w'. E (Threw e) (note_event (EvAlert al) (fst s), w')"
  shows "yields (adv_stay d st al count ob at s) Q E"
proof (cases "al \<noteq> None \<and> \<not> same_entry (av_hold (fst s)) st")
  case True
  then obtain detail where "al = Some detail" by blast
  with True show ?thesis
    unfolding adv_stay_def yields_ebind
    by simp (rule yields_adv_raise, simp add: assms(2), rule assms(1), blast)
next
  case False
  then show ?thesis
    unfolding adv_stay_def yields_ebind by (cases al) (simp_all add: assms(1))
qed


section \<open>Every effect is guarded\<close>

text \<open>The context remembers which of the writes of a call it has made.\<close>

definition remembered :: "call_context \<Rightarrow> hold_event \<Rightarrow> bool" where
  "remembered c e \<longleftrightarrow> (is_refund e \<longrightarrow> cc_refund_attempted c) \<and>
     (is_cancel_sub e \<longrightarrow> cc_cancel_attempted c) \<and> (is_cancel_pi e \<longrightarrow> cc_pi_cancel_attempted c)"

text \<open>The call goes on: everything so far was guarded, and nothing has ended it.\<close>

definition going :: "adv \<Rightarrow> bool" where
  "going a \<longleftrightarrow> guarded_past a \<and> live (past a) \<and> \<not> failed (past a) \<and>
     (\<forall>e\<in>set (past a). remembered (av_ctx a) e)"

lemma guarded_past_cong: "past a = past b \<Longrightarrow> guarded_past a = guarded_past b"
  by (simp add: guarded_past_def)

lemma going_cong: "past a = past b \<Longrightarrow> av_ctx a = av_ctx b \<Longrightarrow> going a = going b"
  by (simp add: going_def guarded_past_def)

lemma going_flags:
  "past a = past b \<Longrightarrow> \<forall>e. remembered (av_ctx b) e \<longrightarrow> remembered (av_ctx a) e \<Longrightarrow> going b \<Longrightarrow> going a"
  by (auto simp: going_def guarded_past_def)

lemma av_ctx_note [simp]: "av_ctx (note_event e a) = av_ctx a" "av_ctx (observed ob dec a) = av_ctx a"
  "av_ctx (count_act a) = av_ctx a" "av_ctx (push_row t a) = av_ctx a" "av_ctx (void_unproven r a) = av_ctx a"
  by (simp_all add: note_event_def observed_def count_act_def push_row_def void_unproven_def)

lemma guarded_past_upd [simp]:
  "guarded_past (a\<lparr>av_hold := h\<rparr>) = guarded_past a" "guarded_past (a\<lparr>av_alerted := b\<rparr>) = guarded_past a"
  "guarded_past (a\<lparr>av_err := e\<rparr>) = guarded_past a" "guarded_past (observed ob dec a) = guarded_past (note_event (EvObserved ob) a)"
  "going (observed ob dec a) = going (note_event (EvObserved ob) a)"
  by (rule guarded_past_cong going_cong; simp)+

lemma going_upd [simp]:
  "going (a\<lparr>av_hold := h\<rparr>) = going a" "going (a\<lparr>av_alerted := b\<rparr>) = going a"
  "going (a\<lparr>av_err := e\<rparr>) = going a"
  "going (void_unproven r a) = going a" "going (push_row t a) = going a" "going (count_act a) = going a"
  by (rule going_cong; simp)+

lemma going_set [simp]:
  "going a \<Longrightarrow> going (set_refund_attempted a)" "going a \<Longrightarrow> going (set_refund_failed a)"
  "going a \<Longrightarrow> going (set_voided a)" "going a \<Longrightarrow> going (set_void_failed a)"
  "going a \<Longrightarrow> going (set_cancel_attempted a)" "going a \<Longrightarrow> going (set_pi_cancel_attempted a)"
  "going a \<Longrightarrow> going (set_reread a)"
  by (erule going_flags [rotated 2], simp, simp add: adv_flag_defs remembered_def)+

lemma going_guarded: "going a \<Longrightarrow> guarded_past a" "going a \<Longrightarrow> live (past a)" "going a \<Longrightarrow> \<not> failed (past a)"
  by (simp_all add: going_def)

lemma failed_iff: "failed tr \<longleftrightarrow> (\<exists>e rest. tr = EvObserveFailed e # rest)"
  by (cases tr rule: failed.cases) auto

lemma live_write [simp]: "live (EvWrite h p ok # tr) \<longleftrightarrow> ok \<and> \<not> failed tr"
  by (auto simp: failed_iff split: list.splits hold_event.splits)

declare live.simps(4) [simp del]

text \<open>What it takes to go on after an event.\<close>

lemma going_note [simp]:
  "going a \<Longrightarrow> going (note_event e a) \<longleftrightarrow>
     live (e # past a) \<and> \<not> failed (e # past a) \<and> event_ok (past a) e \<and> remembered (av_ctx a) e"
  by (auto simp: going_def guarded_past_note)

lemma guarded_note [simp]:
  "going a \<Longrightarrow> guarded_past (note_event e a) \<longleftrightarrow> event_ok (past a) e"
  by (simp add: going_def guarded_past_note)

declare going_guarded [simp]

abbreviation ends_guarded :: "ending \<Rightarrow> adv \<times> 'w \<Rightarrow> bool" where
  "ends_guarded \<equiv> \<lambda>_ s. guarded_past (fst s)"

abbreviation stays_going :: "'a \<Rightarrow> adv \<times> 'w \<Rightarrow> bool" where
  "stays_going \<equiv> \<lambda>_ s. going (fst s)"

lemma guarded_write_done:
  assumes "guarded_past (fst s)" "live (past (fst s))" "open_patch p"
    and "failed (past (fst s)) \<longrightarrow> bookkeeping_patch p"
  shows "yields (write_done d p s) stays_going ends_guarded"
  using assms by (intro yields_write_done) (auto simp: guarded_past_note)

lemma open_patch_simps [simp]:
  "open_patch (stay_patch h st count ok err ob at) \<longleftrightarrow> st \<noteq> HoldReleased"
  "open_patch (operator_patch h ok err ob at)" "open_patch (failed_patch h e at)"
  "open_patch (enter_refund_patch h ob at)" "open_patch (draft_patch h err ob at)"
  "open_patch (spent_patch ob at)" "open_patch (empty_patch\<lparr>hp_next_check_at := x\<rparr>)"
  by (simp_all add: open_patch_def stay_patch_def operator_patch_def failed_patch_def
      enter_refund_patch_def draft_patch_def spent_patch_def empty_patch_def)

lemma bookkeeping_patch_simps [simp]:
  "bookkeeping_patch (failed_patch h e at)" "bookkeeping_patch (empty_patch\<lparr>hp_next_check_at := x\<rparr>)"
  by (simp_all add: bookkeeping_patch_def failed_patch_def empty_patch_def)

lemma guarded_adv_stay:
  assumes "going (fst s)" "st \<noteq> HoldReleased"
  shows "yields (adv_stay d st al count ob at s) stays_going ends_guarded"
  using assms by (intro yields_adv_stay guarded_write_done) auto

lemma guarded_adv_operator:
  assumes "going (fst s)"
  shows "yields (adv_operator d detail pi ob at s) stays_going ends_guarded"
  using assms unfolding adv_operator_def yields_ebind
  by (intro yields_adv_raise guarded_write_done) auto

lemma remembered_simps [simp]:
  "remembered c (EvObserved ob)" "remembered c (EvObserveFailed x)" "remembered c (EvWrite h p ok)"
  "remembered c (EvReserve h n)" "remembered c (EvRelease h i ok)" "remembered c (EvAlert al)"
  "remembered c (EvFence b)" "remembered c (EvReread r)" "remembered c (EvVoid iv)" "remembered c (EvDelete iv)"
  "remembered c (EvCancelSub sub cm) \<longleftrightarrow> cc_cancel_attempted c"
  "remembered c (EvCancelPi pi) \<longleftrightarrow> cc_pi_cancel_attempted c"
  "remembered c (EvRefund pi amt meta key) \<longleftrightarrow> cc_refund_attempted c"
  by (simp_all add: remembered_def)

lemma av_ctx_set [simp]:
  "cc_refund_attempted (av_ctx (set_refund_attempted a))"
  "cc_cancel_attempted (av_ctx (set_cancel_attempted a))"
  "cc_pi_cancel_attempted (av_ctx (set_pi_cancel_attempted a))"
  by (simp_all add: adv_flag_defs)

text \<open>What the context says was not done yet was not done.\<close>

lemma going_fresh:
  assumes "going a"
  shows "\<not> cc_refund_attempted (av_ctx a) \<Longrightarrow> \<forall>e\<in>set (past a). \<not> is_refund e"
    and "\<not> cc_cancel_attempted (av_ctx a) \<Longrightarrow> \<forall>e\<in>set (past a). \<not> is_cancel_sub e"
    and "\<not> cc_pi_cancel_attempted (av_ctx a) \<Longrightarrow> \<forall>e\<in>set (past a). \<not> is_cancel_pi e"
  using assms unfolding going_def remembered_def by blast+

lemma owed_times_simps:
  "owed_times pi [] = 0"
  "owed_times pi (p # ps) = (if is_uncovered p \<and> sp_id p = pi then 1 else 0) + owed_times pi ps"
  by (simp_all add: owed_times_def)

lemma owed_times_take: "owed_times pi (take n ps) \<le> owed_times pi ps"
  using append_take_drop_id [of n ps] by (metis filter_append le_add1 length_append owed_times_def)

lemma none_refunded: "\<forall>e\<in>set tr. \<not> is_refund e \<Longrightarrow> refunded_times pi tr = 0"
proof -
  have "refunds_payment pi e \<Longrightarrow> is_refund e" for e by (cases e) simp_all
  then show "\<forall>e\<in>set tr. \<not> is_refund e \<Longrightarrow> refunded_times pi tr = 0" by (auto simp: filter_empty_conv)
qed

lemma guarded_adv_refunds:
  assumes "going (fst s)" "last_obs (past (fst s)) = Some ob" "is_ended ob"
    and "\<forall>e\<in>set (before_obs (past (fst s))). \<not> is_refund e"
    and "\<forall>p\<in>set ps. is_uncovered p \<and> p \<in> set (succeeded_of (ob_pay ob))"
    and "\<And>pi. refunded_times pi (past (fst s)) + owed_times pi ps \<le> owed_times pi (succeeded_of (ob_pay ob))"
  shows "yields (adv_refunds d ps s) stays_going ends_guarded"
  using assms
proof (induction ps arbitrary: s)
  case Nil
  then show ?case by simp
next
  case (Cons p ps)
  let ?key = "\<lambda>n. refund_key (sp_id p) n"
  have due: "refund_due_on (sp_id p) (ro_uncovered (sp_refund p)) ob"
    using Cons.prems unfolding refund_due_on_def by auto
  have one: "yields (refund_one d p n s2) (\<lambda>ok s3. yields ((if ok then adv_refunds d ps else upd set_refund_failed) s3)
        stays_going ends_guarded) ends_guarded"
    if "going (fst s2)" "past (fst s2) = EvFence True # EvReserve h (Some n) # past (fst s)"
      "cc_refund_attempted (av_ctx (fst s2))" for s2 n h
  proof -
    have p: "is_uncovered p" using Cons.prems(5) by simp
    have left: "refunded_times pi (past (fst s)) + ((if sp_id p = pi then 1 else 0) + owed_times pi ps)
        \<le> owed_times pi (succeeded_of (ob_pay ob))" for pi
      using Cons.prems(6) [of pi] p by (simp add: owed_times_simps)
    have "refunded_times (sp_id p) (past (fst s)) < owed_times (sp_id p) (succeeded_of (ob_pay ob))"
      using left [of "sp_id p"] by simp
    moreover have "refunded_times pi (EvRefund (sp_id p) amt meta key # past (fst s2)) + owed_times pi ps
        \<le> owed_times pi (succeeded_of (ob_pay ob))" for pi amt meta key
      using left [of pi] that(2) by (cases "sp_id p = pi") simp_all
    ultimately show ?thesis
      using that due Cons.prems(1-5) unfolding refund_one_def Let_def
      by (intro yields_stripe_try) (auto intro!: Cons.IH)
  qed
  show ?case
    using Cons.prems(1)
    by (simp, intro yields_reserve_attempt) (auto intro!: yields_adv_fenced one)
qed

lemma guarded_act_refund:
  assumes "going (fst s)" "last_obs (past (fst s)) = Some ob" "is_ended ob"
    and "\<forall>e\<in>set (before_obs (past (fst s))). \<not> is_refund e"
    and "\<forall>p\<in>set pis. is_uncovered p \<and> p \<in> set (succeeded_of (ob_pay ob))"
    and "\<forall>e\<in>set (past (fst s)). \<not> is_refund e" "\<And>pi. owed_times pi pis \<le> owed_times pi (succeeded_of (ob_pay ob))"
  shows "yields (act_refund d pis ob at s) stays_going ends_guarded"
proof -
  have refunds: "yields (adv_refunds d (take n pis) s') stays_going ends_guarded"
    if "going (fst s')" "last_obs (past (fst s')) = Some ob"
      "\<forall>e\<in>set (before_obs (past (fst s'))). \<not> is_refund e" "\<forall>e\<in>set (past (fst s')). \<not> is_refund e" for n s'
    using that assms(3,5) none_refunded [OF that(4)] le_trans [OF owed_times_take assms(7)]
    by (intro guarded_adv_refunds) (auto dest: in_set_takeD)
  show ?thesis
    using assms(1,2,4,6) unfolding act_refund_def yields_ebind
    by (auto intro!: yields_adv_write refunds)
qed

lemma guarded_act_void:
  assumes "going (fst s)" "event_ok (past (fst s)) (EvVoid (ph_invoice_id (av_hold (fst s))))"
  shows "yields (act_void d t ob at s) stays_going ends_guarded"
  using assms unfolding act_void_def Let_def yields_ebind
  by (intro yields_stripe_try yields_reread_invoice) (auto intro!: guarded_adv_stay)

lemma guarded_act_delete_draft:
  assumes "going (fst s)" "event_ok (past (fst s)) (EvDelete (ph_invoice_id (av_hold (fst s))))"
  shows "yields (act_delete_draft d ob at s) stays_going ends_guarded"
  using assms unfolding act_delete_draft_def Let_def yields_ebind
  by (intro yields_stripe_try yields_reread_invoice)
    (auto intro!: guarded_write_done yields_adv_release simp: observed_release_def)

lemma guarded_adv_act:
  assumes "going (fst s)" "past (fst s) = EvObserved ob # rest"
    and "act_evidence h ob (av_ctx (fst s)) x"
  shows "yields (adv_act d t x ob at s) stays_going ends_guarded"
proof (cases x)
  case ActVoid
  with assms show ?thesis
    by (auto simp: adv_act_def act_evidence_def is_ended_def fenced_on_def
        intro!: yields_adv_fenced guarded_act_void)
next
  case ActCancel
  with assms show ?thesis
    using going_fresh(2) [OF assms(1)]
    by (auto simp: adv_act_def act_evidence_def fenced_on_def act_cancel_def Let_def
        intro!: yields_adv_fenced yields_stripe_try)
next
  case (ActCancelPi pi)
  with assms show ?thesis
    using going_fresh(3) [OF assms(1)]
    by (auto simp: adv_act_def act_evidence_def fenced_on_def act_cancel_pi_def is_ended_def
        intro!: yields_adv_fenced yields_stripe_try)
next
  case ActDeleteDraft
  with assms show ?thesis
    by (auto simp: adv_act_def act_evidence_def is_ended_def fenced_on_def
        intro!: yields_adv_fenced guarded_act_delete_draft)
next
  case (ActRefund pis)
  with assms show ?thesis
    using going_fresh(1) [OF assms(1)]
    by (auto simp: adv_act_def act_evidence_def is_ended_def succeeded_of_def owed_times_def intro!: guarded_act_refund)
qed

lemma guarded_adv_iter:
  assumes "going (fst s)"
  shows "yields (adv_iter d s) stays_going ends_guarded"
proof -
  obtain a w where s: "s = (a, w)" by (cases s)
  obtain r w' where r: "observe_hold (dep_reader d) (av_hold a) w = (r, w')" by fastforce
  show ?thesis
  proof (cases r)
    case (Inl e)
    with s r assms show ?thesis
      by (auto simp: adv_iter_def Let_def guarded_past_note intro!: guarded_write_done)
  next
    case (Inr ob)
    let ?dec = "decide (av_hold a) ob (av_ctx a)" and ?at = "dep_now d w"
    let ?s = "(observed ob ?dec a, w')"
    have g: "going (fst ?s)" "past (fst ?s) = EvObserved ob # past a"
      using assms s by simp_all
    have "yields (adv_decided d ?dec ob ?at ?s) stays_going ends_guarded"
    proof (cases ?dec)
      case (DRelease t x)
      then have ok: "event_ok (past (fst ?s)) (EvRelease (av_hold a) (observed_release x ?at (pay_kind (ob_pay ob))) b)"
        for b by (auto simp: observed_release_def)
      with DRelease g show ?thesis
        by (simp only: adv_decided_def decision.case) (rule yields_adv_release, simp_all del: event_ok.simps)
    next
      case (DAct t x)
      from decide_act [OF this] have "act_evidence (av_hold a) ob (av_ctx a) x" by simp
      with DAct g show ?thesis
        by (auto simp: adv_decided_def intro!: guarded_write_done guarded_adv_act)
    qed (use g in \<open>auto simp: adv_decided_def intro!: guarded_adv_stay guarded_adv_operator
            dest: decide_stay_open\<close>)
    with s r Inr show ?thesis by (simp add: adv_iter_def Let_def)
  qed
qed

lemma guarded_advance_loop:
  "going (fst s) \<Longrightarrow> yields (advance_loop d n s) stays_going ends_guarded"
proof (induction n arbitrary: s)
  case 0
  then show ?case by (auto intro!: guarded_write_done)
next
  case (Suc n)
  show ?case
    by (simp, rule yields_weaken [OF guarded_adv_iter]) (auto intro: Suc)
qed

lemma guarded_advance_hold:
  assumes "advance_hold d h w = (r, a, w')"
  shows "guarded (av_trace a)"
proof -
  have g: "going (adv_init h)" by (simp add: going_def guarded_past_def past_def adv_init_def)
  with assms guarded_advance_loop [of "(adv_init h, w)" d max_reads] have "guarded_past a"
    by (auto simp: advance_hold_def finish_def yields_def split: if_splits sum.splits)
  then show ?thesis by (simp add: guarded_def guarded_past_def past_def)
qed


section \<open>The bounds of a call\<close>

text \<open>What a call may still do: the acts it has made and whether it has re-read.\<close>

definition steps :: "adv \<Rightarrow> nat" where
  "steps a = av_acts a + (if cc_reread (av_ctx a) then 1 else 0)"

definition tally :: "adv \<Rightarrow> nat \<times> bool" where
  "tally a = (av_acts a, cc_reread (av_ctx a))"

lemma tally_simps [simp]:
  "tally (note_event e a) = tally a" "tally (a\<lparr>av_hold := h\<rparr>) = tally a"
  "tally (a\<lparr>av_alerted := b\<rparr>) = tally a" "tally (a\<lparr>av_err := m\<rparr>) = tally a"
  "tally (set_refund_attempted a) = tally a" "tally (set_refund_failed a) = tally a"
  "tally (set_voided a) = tally a" "tally (set_void_failed a) = tally a"
  "tally (void_unproven r a) = tally a" "tally (push_row t a) = tally a"
  "tally (set_cancel_attempted a) = tally a" "tally (set_pi_cancel_attempted a) = tally a"
  "tally (observed ob dec a) = tally a"
  "tally (count_act a) = (av_acts a + 1, cc_reread (av_ctx a))" "tally (set_reread a) = (av_acts a, True)"
  by (simp_all add: tally_def adv_flag_defs note_event_def)

abbreviation ends_anyhow :: "ending \<Rightarrow> adv \<times> 'w \<Rightarrow> bool" where
  "ends_anyhow \<equiv> \<lambda>_ _. True"

lemma tally_adv_refunds:
  "yields (adv_refunds d ps s) (\<lambda>_ s'. tally (fst s') = tally (fst s)) ends_anyhow"
proof (induction ps arbitrary: s)
  case Nil
  then show ?case by simp
next
  case (Cons p ps)
  have again: "yields (adv_refunds d ps s') (\<lambda>_ s'. tally (fst s') = tally (fst s)) ends_anyhow"
    if "tally (fst s') = tally (fst s)" for s'
    using Cons.IH [of s'] that by simp
  show ?case
    by (simp, intro yields_reserve_attempt)
      (auto simp: refund_one_def Let_def intro!: yields_adv_fenced yields_stripe_try again)
qed

lemma tally_adv_act:
  "yields (adv_act d t x ob at s) (\<lambda>_ s'. tally (fst s') = tally (fst s)) ends_anyhow"
proof (cases x)
  case ActVoid
  then show ?thesis
    by (auto simp: adv_act_def act_void_def Let_def
        intro!: yields_adv_fenced yields_stripe_try yields_reread_invoice yields_adv_stay yields_write_done)
next
  case ActDeleteDraft
  then show ?thesis
    by (auto simp: adv_act_def act_delete_draft_def Let_def
        intro!: yields_adv_fenced yields_stripe_try yields_reread_invoice yields_adv_release yields_write_done)
next
  case (ActRefund pis)
  have go: "yields (adv_refunds d (take n pis) s') (\<lambda>_ s'. tally (fst s') = tally (fst s)) ends_anyhow"
    if "tally (fst s') = tally (fst s)" for n s'
    using tally_adv_refunds [of d "take n pis" s'] that by simp
  with ActRefund show ?thesis
    by (auto simp: adv_act_def act_refund_def intro!: yields_adv_write)
qed (auto simp: adv_act_def act_cancel_def act_cancel_pi_def Let_def
      intro!: yields_adv_fenced yields_stripe_try)

text \<open>A call that goes on after an observation has made one more act, or its one re-read.\<close>

lemma steps_adv_iter:
  assumes "av_acts (fst s) \<le> max_acts"
  shows "yields (adv_iter d s)
    (\<lambda>_ s'. steps (fst s') = steps (fst s) + 1 \<and> av_acts (fst s') \<le> max_acts) ends_anyhow"
proof -
  obtain a w where s: "s = (a, w)" by (cases s)
  obtain r w' where r: "observe_hold (dep_reader d) (av_hold a) w = (r, w')" by fastforce
  show ?thesis
  proof (cases r)
    case (Inl e)
    with s r show ?thesis by (auto simp: adv_iter_def Let_def intro!: yields_write_done)
  next
    case (Inr ob)
    let ?dec = "decide (av_hold a) ob (av_ctx a)" and ?at = "dep_now d w"
    let ?s = "(observed ob ?dec a, w')"
    have "yields (adv_decided d ?dec ob ?at ?s)
       (\<lambda>_ s'. steps (fst s') = steps a + 1 \<and> av_acts (fst s') \<le> max_acts) ends_anyhow"
    proof (cases ?dec)
      case (DReread t)
      from decide_reread [OF this] assms s DReread show ?thesis
        by (simp add: adv_decided_def steps_def set_reread_def observed_def note_event_def)
    next
      case (DAct t x)
      have "yields (adv_act d t x ob ?at s1)
         (\<lambda>_ s'. steps (fst s') = steps a + 1 \<and> av_acts (fst s') \<le> max_acts) ends_anyhow"
        if "tally (fst s1) = (av_acts a + 1, cc_reread (av_ctx a))" "av_acts a < max_acts" for s1
        by (rule yields_weaken [OF tally_adv_act]) (use that in \<open>auto simp: tally_def steps_def\<close>)
      with DAct show ?thesis
        by (auto simp: adv_decided_def not_le tally_def count_act_def observed_def note_event_def
            intro!: yields_write_done)
    qed (auto simp: adv_decided_def adv_operator_def
          intro!: yields_adv_release yields_adv_stay yields_write_done yields_adv_raise)
    with s r Inr show ?thesis by (simp add: adv_iter_def Let_def)
  qed
qed

lemma steps_le: "av_acts a \<le> max_acts \<Longrightarrow> steps a < max_reads"
  by (simp add: steps_def max_reads_def)

lemma advance_loop_ends:
  assumes "av_acts (fst s) \<le> max_acts" "max_reads \<le> steps (fst s) + n"
  shows "\<exists>e s'. advance_loop d n s = (Inl e, s') \<and> advance_loop d (n + k) s = (Inl e, s')"
  using assms
proof (induction n arbitrary: s)
  case 0
  with steps_le [of "fst s"] show ?case by simp
next
  case (Suc n)
  obtain r s1 where r: "adv_iter d s = (r, s1)" by (cases "adv_iter d s")
  show ?case
  proof (cases r)
    case (Inl e)
    with r show ?thesis by (simp add: ebind_def)
  next
    case (Inr u)
    with steps_adv_iter [OF Suc.prems(1), of d] r Suc.prems(2)
    have "av_acts (fst s1) \<le> max_acts" "max_reads \<le> steps (fst s1) + n" by (simp_all add: yields_def)
    from Suc.IH [OF this] r Inr show ?thesis by (simp add: ebind_def)
  qed
qed

lemma advance_hold_ends: "\<exists>e a w'. advance_hold d h w = (Inl e, a, w')"
proof (cases "ph_state h = HoldReleased")
  case True
  then show ?thesis by (simp add: advance_hold_def finish_def)
next
  case False
  have "av_acts (fst (adv_init h, w)) \<le> max_acts" "max_reads \<le> steps (fst (adv_init h, w)) + max_reads"
    by (simp_all add: adv_init_def)
  from advance_loop_ends [OF this, of d 0] False show ?thesis by (auto simp: advance_hold_def)
qed


text \<open>The three kinds of Stripe traffic of a call.\<close>

fun is_look :: "hold_event \<Rightarrow> bool" where
  "is_look (EvObserved ob) = True" | "is_look (EvObserveFailed e) = True" | "is_look _ = False"

fun is_stripe_act :: "hold_event \<Rightarrow> bool" where
  "is_stripe_act (EvVoid iv) = True" | "is_stripe_act (EvDelete iv) = True"
| "is_stripe_act (EvCancelSub sub c) = True" | "is_stripe_act (EvCancelPi pi) = True"
| "is_stripe_act _ = False"

abbreviation count_of :: "(hold_event \<Rightarrow> bool) \<Rightarrow> adv \<Rightarrow> nat" where
  "count_of P a \<equiv> length (filter P (past a))"

text \<open>No more than \<open>n\<close> looks, \<open>k\<close> acts and \<open>m\<close> refunds.\<close>

definition at_most :: "nat \<Rightarrow> nat \<Rightarrow> nat \<Rightarrow> adv \<Rightarrow> bool" where
  "at_most n k m a \<longleftrightarrow> count_of is_look a \<le> n \<and> count_of is_stripe_act a \<le> k \<and> count_of is_refund a \<le> m"

lemma at_most_note:
  "at_most n k m (note_event e a) \<longleftrightarrow>
     count_of is_look a + (if is_look e then 1 else 0) \<le> n \<and>
     count_of is_stripe_act a + (if is_stripe_act e then 1 else 0) \<le> k \<and>
     count_of is_refund a + (if is_refund e then 1 else 0) \<le> m"
  by (simp add: at_most_def)

lemma at_most_simps [simp]:
  "at_most n k m (a\<lparr>av_hold := h\<rparr>) = at_most n k m a" "at_most n k m (a\<lparr>av_alerted := b\<rparr>) = at_most n k m a"
  "at_most n k m (a\<lparr>av_err := err\<rparr>) = at_most n k m a"
  "at_most n k m (set_refund_attempted a) = at_most n k m a" "at_most n k m (set_refund_failed a) = at_most n k m a"
  "at_most n k m (set_voided a) = at_most n k m a" "at_most n k m (set_void_failed a) = at_most n k m a"
  "at_most n k m (void_unproven r a) = at_most n k m a" "at_most n k m (push_row t a) = at_most n k m a"
  "at_most n k m (set_cancel_attempted a) = at_most n k m a" "at_most n k m (count_act a) = at_most n k m a"
  "at_most n k m (set_pi_cancel_attempted a) = at_most n k m a" "at_most n k m (set_reread a) = at_most n k m a"
  "at_most n k m (observed ob dec a) = at_most n k m (note_event (EvObserved ob) a)"
  "at_most n k m (note_event (EvWrite h p ok) a) = at_most n k m a"
  "at_most n k m (note_event (EvReserve h rn) a) = at_most n k m a"
  "at_most n k m (note_event (EvRelease h i ok) a) = at_most n k m a"
  "at_most n k m (note_event (EvAlert al) a) = at_most n k m a"
  "at_most n k m (note_event (EvFence b) a) = at_most n k m a"
  "at_most n k m (note_event (EvReread rr) a) = at_most n k m a"
  by (simp_all add: at_most_def)

lemma at_most_act:
  assumes "at_most n k m a" "is_stripe_act e"
  shows "at_most n (k + 1) m (note_event e a)"
proof -
  from assms(2) have "\<not> is_look e" "\<not> is_refund e" by (cases e; simp)+
  with assms show ?thesis by (simp add: at_most_def)
qed

lemma at_most_mono: "at_most n k m a \<Longrightarrow> k \<le> k' \<Longrightarrow> m \<le> m' \<Longrightarrow> at_most n k' m' a"
  by (simp add: at_most_def)

abbreviation both :: "(adv \<Rightarrow> bool) \<Rightarrow> (ending + 'a) \<times> adv \<times> 'w \<Rightarrow> bool" where
  "both P r \<equiv> yields r (\<lambda>_ s. P (fst s)) (\<lambda>_ s. P (fst s))"

lemma at_most_adv_refunds:
  "at_most n k m (fst s) \<Longrightarrow> both (at_most n k (m + length ps)) (adv_refunds d ps s)"
proof (induction ps arbitrary: s m)
  case Nil
  then show ?case by simp
next
  case (Cons p ps)
  have more: "at_most n k (Suc (m + length ps)) a" if "at_most n k m a" for a
    using that by (rule at_most_mono) simp_all
  have one: "both (at_most n k (Suc (m + length ps))) (adv_refunds d ps s')"
    if "at_most n k (Suc m) (fst s')" for s'
    using Cons.IH [OF that] by simp
  have noted: "at_most n k (Suc m) (note_event (EvRefund pi amt meta key) a)"
    "at_most n k (Suc (m + length ps)) (note_event (EvRefund pi amt meta key) a)"
    if "at_most n k m a" for pi amt meta key a
    using that by (simp_all add: at_most_def)
  show ?case
    using Cons.prems
    by (simp, intro yields_reserve_attempt)
      (auto simp: refund_one_def Let_def more noted intro!: yields_adv_fenced yields_stripe_try one)
qed

lemma at_most_adv_stay: "at_most n k m (fst s) \<Longrightarrow> both (at_most n k m) (adv_stay d st al c ob at s)"
  by (auto intro!: yields_adv_stay yields_write_done)

lemma at_most_write_done: "at_most n k m (fst s) \<Longrightarrow> both (at_most n k m) (write_done d p s)"
  by (auto intro!: yields_write_done)

lemma at_most_adv_act:
  assumes "at_most n k m (fst s)"
    and "case x of ActRefund pis \<Rightarrow> m = 0 | _ \<Rightarrow> m \<le> refund_budget"
  shows "both (at_most n (k + 1) refund_budget) (adv_act d t x ob at s)"
proof -
  have grow: "at_most n (Suc k) refund_budget a" if "at_most n k m' a" "m' \<le> refund_budget" for a m'
    using that by (auto intro: at_most_mono)
  have act: "at_most n (Suc k) refund_budget (note_event e a)"
    if "at_most n k m' a" "m' \<le> refund_budget" "is_stripe_act e" for e a m'
    using at_most_act [OF that(1,3)] that(2) by (auto intro: at_most_mono)
  show ?thesis
  proof (cases x)
    case ActVoid
    with assms show ?thesis
      by (auto simp: adv_act_def act_void_def Let_def grow act
          intro!: yields_adv_fenced yields_stripe_try yields_reread_invoice at_most_adv_stay)
  next
    case ActDeleteDraft
    with assms show ?thesis
      by (auto simp: adv_act_def act_delete_draft_def Let_def grow act intro!: yields_adv_fenced
          yields_stripe_try yields_reread_invoice yields_adv_release at_most_write_done)
  next
    case (ActRefund pis)
    have go: "both (at_most n (Suc k) refund_budget) (adv_refunds d (take (refund_budget - j) pis) s')"
      if "at_most n k 0 (fst s')" for j s'
      by (rule yields_weaken [OF at_most_adv_refunds [OF that]]) (auto intro: at_most_mono)
    with ActRefund assms grow show ?thesis
      by (auto simp: adv_act_def act_refund_def intro!: yields_adv_write)
  qed (use assms in \<open>auto simp: adv_act_def act_cancel_def act_cancel_pi_def Let_def grow act
        intro!: yields_adv_fenced yields_stripe_try\<close>)
qed


lemma av_acts_simps [simp]: "av_acts (note_event e a) = av_acts a" "av_acts (observed ob dec a) = av_acts a"
  by (simp_all add: observed_def note_event_def)

definition within_bounds :: "nat \<Rightarrow> adv \<Rightarrow> bool" where
  "within_bounds n a \<longleftrightarrow> going a \<and> av_acts a \<le> max_acts \<and> at_most n (av_acts a) refund_budget a"

lemma counts_adv_iter:
  assumes "within_bounds n (fst s)"
  shows "yields (adv_iter d s) (\<lambda>_ s'. within_bounds (n + 1) (fst s'))
     (\<lambda>_ s'. at_most (n + 1) max_acts refund_budget (fst s'))"
proof -
  have counts: "yields (adv_iter d s)
      (\<lambda>_ s'. av_acts (fst s') \<le> max_acts \<and> at_most (n + 1) (av_acts (fst s')) refund_budget (fst s'))
      (\<lambda>_ s'. at_most (n + 1) max_acts refund_budget (fst s'))"
  proof -
    obtain a w where s: "s = (a, w)" by (cases s)
    obtain r w' where r: "observe_hold (dep_reader d) (av_hold a) w = (r, w')" by fastforce
    have a: "going a" "av_acts a \<le> max_acts" "at_most n (av_acts a) refund_budget a"
      using assms s by (simp_all add: within_bounds_def)
    then have look: "at_most (Suc n) (av_acts a) refund_budget (note_event (EvObserveFailed e) a)"
      "at_most (Suc n) (av_acts a) refund_budget (observed ob dec a)"
      "at_most (Suc n) max_acts refund_budget (note_event (EvObserveFailed e) a)"
      "at_most (Suc n) max_acts refund_budget (observed ob dec a)" for e ob dec
      by (simp_all add: at_most_def)
    show ?thesis
    proof (cases r)
      case (Inl e)
      with s r look show ?thesis by (auto simp: adv_iter_def Let_def intro!: yields_write_done)
    next
      case (Inr ob)
      let ?dec = "decide (av_hold a) ob (av_ctx a)" and ?at = "dep_now d w"
      let ?s = "(observed ob ?dec a, w')"
      let ?Q = "\<lambda>_ s'. av_acts (fst s') \<le> max_acts \<and> at_most (Suc n) (av_acts (fst s')) refund_budget (fst s')"
      let ?E = "\<lambda>_ s'. at_most (Suc n) max_acts refund_budget (fst s')"
      have "yields (adv_decided d ?dec ob ?at ?s) ?Q ?E"
      proof (cases ?dec)
        case (DReread t)
        have "av_acts (set_reread (observed ob (DReread t) a)) = av_acts a"
          by (simp add: set_reread_def)
        with DReread look a show ?thesis by (simp add: adv_decided_def)
      next
        case (DAct t x)
        from decide_act [OF DAct] have ev: "act_evidence (av_hold a) ob (av_ctx a) x" by simp
        have none: "count_of is_refund a = 0" if "x = ActRefund pis" for pis
          using going_fresh(1) [OF a(1)] ev that by (simp add: act_evidence_def filter_empty_conv)
        have "yields (adv_act d t x ob ?at s1) ?Q ?E"
          if s1: "s1 = (count_act (observed ob (DAct t x) a), w')" and lt: "av_acts a < max_acts" for s1
        proof -
          let ?m = "case x of ActRefund pis \<Rightarrow> 0 | _ \<Rightarrow> refund_budget"
          have m: "at_most (Suc n) (av_acts a) ?m (fst s1)"
            using a(3) none s1 by (cases x) (simp_all add: at_most_def)
          have t: "tally (fst s1) = (av_acts a + 1, cc_reread (av_ctx a))"
            using s1 by (simp add: tally_def count_act_def observed_def note_event_def)
          have "both (at_most (Suc n) (av_acts a + 1) refund_budget) (adv_act d t x ob ?at s1)"
            by (rule at_most_adv_act [OF m]) (cases x; simp)
          with tally_adv_act [of d t x ob ?at s1]
          have "yields (adv_act d t x ob ?at s1)
            (\<lambda>_ s'. at_most (Suc n) (av_acts a + 1) refund_budget (fst s') \<and> tally (fst s') = tally (fst s1))
            (\<lambda>_ s'. at_most (Suc n) (av_acts a + 1) refund_budget (fst s') \<and> True)"
            unfolding yields_conj by blast
          then show ?thesis
            by (rule yields_weaken) (use t lt in \<open>auto simp: tally_def intro: at_most_mono\<close>)
        qed
        with DAct look show ?thesis
          by (auto simp: adv_decided_def not_le simp del: at_most_simps(14) intro!: yields_write_done)
      qed (use look in \<open>auto simp: adv_decided_def adv_operator_def simp del: at_most_simps(14)
            intro!: yields_adv_release yields_adv_stay yields_write_done yields_adv_raise\<close>)
      with s r Inr show ?thesis by (simp add: adv_iter_def Let_def)
    qed
  qed
  have "yields (adv_iter d s) stays_going ends_guarded"
    using assms by (intro guarded_adv_iter) (simp add: within_bounds_def)
  with counts have "yields (adv_iter d s)
     (\<lambda>_ s'. (av_acts (fst s') \<le> max_acts \<and> at_most (n + 1) (av_acts (fst s')) refund_budget (fst s')) \<and> going (fst s'))
     (\<lambda>_ s'. at_most (n + 1) max_acts refund_budget (fst s') \<and> guarded_past (fst s'))"
    unfolding yields_conj by blast
  then show ?thesis by (rule yields_weaken) (auto simp: within_bounds_def)
qed

lemma counts_advance_loop:
  "within_bounds n (fst s) \<Longrightarrow> both (at_most (n + k) max_acts refund_budget) (advance_loop d k s)"
proof (induction k arbitrary: n s)
  case 0
  then show ?case
    by (auto simp: within_bounds_def intro!: yields_write_done intro: at_most_mono)
next
  case (Suc k)
  have "at_most (n + 1) max_acts refund_budget a \<Longrightarrow> at_most (n + Suc k) max_acts refund_budget a" for a
    by (simp add: at_most_def)
  then show ?case
    by (simp, intro yields_weaken [OF counts_adv_iter [OF Suc.prems]]) (use Suc.IH in fastforce)+
qed


section \<open>Concrete calls for the witnesses\<close>

definition sample_deps ::
  "'w stripe_reader \<Rightarrow> (hold_ref \<Rightarrow> ('w, exn, (nat \<times> hold_row) option) eff) \<Rightarrow> 'w machine_deps" where
  "sample_deps rd reserve =
     \<lparr>dep_reader = rd,
      dep_writer = \<lparr>inv_void = (\<lambda>_. ereturn ()), inv_del = (\<lambda>_. ereturn ()), sub_cancel = (\<lambda>_ _. ereturn ()),
        pi_cancel = (\<lambda>_. ereturn ()), refund_create = (\<lambda>_ _ _ _. ereturn ())\<rparr>,
      dep_write = (\<lambda>_ p. ereturn (Some (apply_patch 9 p sample_hold))), dep_reserve = reserve,
      dep_release = (\<lambda>_ i. ereturn (Some \<lparr>rh_hold = apply_release 9 i sample_hold,
        rh_closed_setup_id = None, rh_checked_org_row = None\<rparr>)),
      dep_fence = ereturn (), dep_alert = (\<lambda>_. ereturn True), dep_now = (\<lambda>_. 9)\<rparr>"

text \<open>A closing hold whose invoice is void: the machine cancels the subscription.\<close>

definition cancel_call :: "(ending + unit) \<times> adv \<times> unit" where
  "cancel_call = advance_hold
     (sample_deps (sample_reader ''incomplete'' ''void'') (\<lambda>_. ereturn None)) sample_hold ()"

text \<open>An ended subscription whose held invoice was paid: the machine refunds the payment.\<close>

definition paid_reader :: "'w stripe_reader" where
  "paid_reader = (sample_reader ''canceled'' ''paid'')
     \<lparr>invpay_list := (\<lambda>_. ereturn \<lparr>has_more = False, page_data =
        [\<lparr>ip_type = ''payment_intent'', ip_payment_intent =
           Some (Intent \<lparr>pi_id = ''pi_1'', pi_status = ''succeeded'', pi_amount_received = 1000\<rparr>)\<rparr>]\<rparr>),
      refunds_list := (\<lambda>_. ereturn \<lparr>has_more = False, page_data = []\<rparr>)\<rparr>"

definition refund_call :: "(ending + unit) \<times> adv \<times> unit" where
  "refund_call = advance_hold
     (sample_deps paid_reader (\<lambda>_. ereturn (Some (0, bump_attempt 9 sample_hold)))) sample_hold ()"

section \<open>Properties\<close>

text \<open>
  C7. Void before cancel. Whatever Stripe, the store, the lease and the alert answer, the machine
  cancels a subscription only directly behind a renewed lease, on an observation in which the held
  invoice reads void, no payment of it took or is taking money, and the subscription is still
  incomplete; and it asks at most once per call.
\<close>

theorem void_before_cancel:
  assumes "advance_hold d h w = (r, a, w')" "av_trace a = pre @ EvCancelSub sub c # post"
  shows "(\<exists>pre0 ob. pre = pre0 @ [EvObserved ob, EvFence True] \<and> ob_inv ob = InvVoid \<and>
            ob_sub ob = SubIncomplete \<and> pay_unpaid (ob_pay ob)) \<and>
         (\<forall>e\<in>set pre \<union> set post. \<not> is_cancel_sub e)"
proof -
  from guarded_advance_hold [OF assms(1)] assms(2) have g: "guarded (pre @ EvCancelSub sub c # post)" by simp
  from guarded_split [OF this] obtain ob rest where
    "rev pre = EvFence True # EvObserved ob # rest" "pay_unpaid (ob_pay ob)" "ob_inv ob = InvVoid"
    "ob_sub ob = SubIncomplete" and no: "\<forall>e\<in>set pre. \<not> is_cancel_sub e"
    by (auto simp: fenced_on_def)
  moreover from this(1) have "pre = rev rest @ [EvObserved ob, EvFence True]"
    using arg_cong [of "rev pre" _ rev] by simp
  moreover have "\<not> is_cancel_sub e" if e: "e \<in> set post" for e
  proof
    assume c: "is_cancel_sub e"
    then obtain s2 c2 where "e = EvCancelSub s2 c2" by (cases e) simp_all
    with e obtain p q where "post = p @ EvCancelSub s2 c2 # q" by (auto simp: in_set_conv_decomp)
    with g have "guarded ((pre @ EvCancelSub sub c # p) @ EvCancelSub s2 c2 # q)" by simp
    from guarded_split [OF this] show False by auto
  qed
  ultimately show ?thesis by blast
qed

theorem void_before_cancel_witness:
  "\<exists>pre post. av_trace (fst (snd cancel_call)) =
      pre @ EvCancelSub ''sub_1'' ''alethia:checkout_closed:h1'' # post \<and>
    (\<exists>pre0 ob. pre = pre0 @ [EvObserved ob, EvFence True] \<and> ob_inv ob = InvVoid)"
proof -
  let ?tr = "av_trace (fst (snd cancel_call))"
  have "length ?tr = 5" "?tr ! 2 = EvCancelSub ''sub_1'' ''alethia:checkout_closed:h1''" by code_simp+
  then have tr: "?tr = take 2 ?tr @ EvCancelSub ''sub_1'' ''alethia:checkout_closed:h1'' # drop 3 ?tr"
    using id_take_nth_drop [of 2 ?tr] by simp
  have run: "advance_hold (sample_deps (sample_reader ''incomplete'' ''void'') (\<lambda>_. ereturn None)) sample_hold ()
      = (fst cancel_call, fst (snd cancel_call), snd (snd cancel_call))"
    by (simp only: cancel_call_def prod.collapse)
  from void_before_cancel [OF run tr] tr show ?thesis by blast
qed

text \<open>
  C8. Every refund is due and reserved. A refund is created only directly behind a renewed lease and a
  reservation of the attempt number its idempotency key is built from, when the last observation
  reads the subscription ended and lists this payment as succeeded with something uncovered; the
  amount is exactly what was uncovered. Once a refund has been created, no refund follows a later
  observation of the same call, so a read that lags is never refunded on; and a call has refunded this
  payment before fewer times than that observation lists it, so a payment listed once is refunded at
  most once by a call. A call may refund several payments.
\<close>

theorem refund_due_and_reserved:
  assumes "advance_hold d h w = (r, a, w')" "av_trace a = pre @ EvRefund pi amt meta key # post"
  shows "\<exists>pre0 h' n ob. pre = pre0 @ [EvReserve h' (Some n), EvFence True] \<and> key = refund_key pi n \<and>
           last_obs (rev pre0) = Some ob \<and> is_ended ob \<and>
           (\<exists>p\<in>set (succeeded_of (ob_pay ob)). is_uncovered p \<and> sp_id p = pi \<and>
              ro_uncovered (sp_refund p) = amt) \<and>
           (\<forall>e\<in>set (before_obs (rev pre0)). \<not> is_refund e) \<and>
           refunded_times pi pre < owed_times pi (succeeded_of (ob_pay ob))"
proof -
  from guarded_advance_hold [OF assms(1)] assms(2) have "guarded (pre @ EvRefund pi amt meta key # post)" by simp
  from guarded_split [OF this] obtain h' n rest ob where
    p: "rev pre = EvFence True # EvReserve h' (Some n) # rest" "key = refund_key pi n"
      "last_obs rest = Some ob" "refund_due_on pi amt ob" "\<forall>e\<in>set (before_obs rest). \<not> is_refund e"
      "refunded_times pi rest < owed_times pi (succeeded_of (ob_pay ob))"
    by auto
  from p(1) have "pre = rev rest @ [EvReserve h' (Some n), EvFence True]"
    using arg_cong [of "rev pre" _ rev] by simp
  with p show ?thesis
    by (intro exI [of _ "rev rest"] exI [of _ h'] exI [of _ n] exI [of _ ob])
      (simp add: refund_due_on_def rev_filter [symmetric])
qed

theorem refund_due_and_reserved_witness:
  "\<exists>pre post. av_trace (fst (snd refund_call)) =
      pre @ EvRefund ''pi_1'' 1000 (''alethia_payment_hold'', ''h1'') ''hold-refund-pi_1-0'' # post \<and>
    (\<exists>pre0 h' n. pre = pre0 @ [EvReserve h' (Some n), EvFence True] \<and>
       ''hold-refund-pi_1-0'' = refund_key ''pi_1'' n)"
proof -
  let ?tr = "av_trace (fst (snd refund_call))"
  let ?ev = "EvRefund ''pi_1'' 1000 (''alethia_payment_hold'', ''h1'') ''hold-refund-pi_1-0''"
  have "length ?tr = 7" "?tr ! 4 = ?ev" by code_simp+
  then have tr: "?tr = take 4 ?tr @ ?ev # drop 5 ?tr"
    using id_take_nth_drop [of 4 ?tr] by simp
  have run: "advance_hold (sample_deps paid_reader (\<lambda>_. ereturn (Some (0, bump_attempt 9 sample_hold)))) sample_hold ()
      = (fst refund_call, fst (snd refund_call), snd (snd refund_call))"
    by (simp only: refund_call_def prod.collapse)
  from refund_due_and_reserved [OF run tr] tr show ?thesis by blast
qed

text \<open>
  C9. The order of the other effects. A void, a delete and a capture's cancel are each made directly
  behind a renewed lease and the observation that calls for them. A release is prepared on the
  observation that decides it, or, for a deleted draft, on a re-read that found the invoice gone
  right after the delete. Nothing follows a lost lease, a state write, reservation or release that
  matched no row, or a release that landed; and an observation that fails is followed by one write of
  the attempt count, the error and the schedule, and by nothing else.
\<close>

theorem effects_in_order:
  assumes "advance_hold d h w = (r, a, w')" "av_trace a = pre @ e # post"
  shows "(case e of
       EvVoid iv \<Rightarrow> \<exists>pre0 ob. pre = pre0 @ [EvObserved ob, EvFence True] \<and> pay_unpaid (ob_pay ob) \<and>
          (ob_inv ob = InvOpen \<or> ob_inv ob = InvUncollectible) \<and> (ob_sub ob = SubIncomplete \<or> is_ended ob)
     | EvDelete iv \<Rightarrow> \<exists>pre0 ob. pre = pre0 @ [EvObserved ob, EvFence True] \<and> is_ended ob \<and>
          ob_inv ob = InvDraft \<and> pay_unpaid (ob_pay ob)
     | EvCancelPi pi \<Rightarrow> \<exists>pre0 ob. pre = pre0 @ [EvObserved ob, EvFence True] \<and> is_ended ob \<and>
          ob_pay ob = PayCapturable pi
     | EvRelease h1 i ok \<Rightarrow> post = [] \<and>
         ((\<exists>pre0 ob t ctx. pre = pre0 @ [EvObserved ob] \<and> decide h1 ob ctx = DRelease t (ri_reason i)) \<or>
          ri_reason i = DeletedDraft \<and>
            (\<exists>pre0 iv. pre = pre0 @ [EvDelete iv, EvReread (Some ''missing'')]))
     | EvObserveFailed x \<Rightarrow> post = [] \<or> (\<exists>h1 p ok. post = [EvWrite h1 p ok] \<and> bookkeeping_patch p)
     | EvFence ok \<Rightarrow> \<not> ok \<longrightarrow> post = []
     | EvReserve h1 n \<Rightarrow> n = None \<longrightarrow> post = []
     | EvWrite h1 p ok \<Rightarrow> open_patch p \<and> (\<not> ok \<longrightarrow> post = [])
     | _ \<Rightarrow> True)"
proof -
  have snoc: "rev pre = x # rest \<Longrightarrow> pre = rev rest @ [x]" for x rest
    using arg_cong [of "rev pre" _ rev] by simp
  have snoc2: "rev pre = x # y # rest \<Longrightarrow> pre = rev rest @ [y, x]" for x y rest
    using arg_cong [of "rev pre" _ rev] by simp
  from guarded_advance_hold [OF assms(1)] assms(2) have g: "guarded (pre @ e # post)" by simp
  then have ok: "event_ok (rev pre) e" using guarded_split by blast
  have last_event: "post = []" if "\<not> live (e # rev pre)"
  proof (cases post)
    case (Cons f post')
    with g have "guarded ((pre @ [e]) @ f # post')" by simp
    from guarded_split [OF this] that show ?thesis by simp
  qed simp
  have after_failed: "post = [] \<or> (\<exists>h1 p ok. post = [EvWrite h1 p ok] \<and> bookkeeping_patch p)"
    if f: "e = EvObserveFailed x" for x
  proof (cases post)
    case (Cons f post')
    with g have "guarded ((pre @ [e]) @ f # post')" by simp
    from guarded_split [OF this] f obtain h1 p b where p: "f = EvWrite h1 p b" "bookkeeping_patch p"
      by (cases f) simp_all
    have "post' = []"
    proof (cases post')
      case (Cons q post'')
      with \<open>post = f # post'\<close> g have "guarded ((pre @ [e, f]) @ q # post'')" by simp
      from guarded_split [OF this] f p show ?thesis by simp
    qed simp
    with Cons p show ?thesis by simp
  qed simp
  show ?thesis
  proof (cases e)
    case (EvRelease h1 i b)
    then have post: "post = []" by (intro last_event) simp
    from ok EvRelease consider
      ob rest t ctx where "rev pre = EvObserved ob # rest" "decide h1 ob ctx = DRelease t (ri_reason i)"
    | iv rest where "ri_reason i = DeletedDraft" "rev pre = EvReread (Some ''missing'') # EvDelete iv # rest"
      by auto
    then show ?thesis
    proof cases
      case (1 ob rest t ctx)
      from snoc [OF 1(1)] 1(2) EvRelease post show ?thesis by auto
    next
      case (2 iv rest)
      from snoc2 [OF 2(2)] 2(1) EvRelease post show ?thesis by auto
    qed
  next
    case (EvVoid iv)
    with ok show ?thesis using snoc2 by (fastforce simp: fenced_on_def)
  next
    case (EvDelete iv)
    with ok show ?thesis using snoc2 by (fastforce simp: fenced_on_def)
  next
    case (EvCancelPi pi)
    with ok show ?thesis using snoc2 by (fastforce simp: fenced_on_def)
  qed (use ok last_event after_failed in auto)
qed

theorem effects_in_order_witness:
  "\<exists>pre post h1 p ok. av_trace (fst (snd refund_call)) = pre @ EvWrite h1 p ok # post \<and> open_patch p"
proof -
  let ?tr = "av_trace (fst (snd refund_call))"
  have "length ?tr = 7" "(case ?tr ! 6 of EvWrite h1 p ok \<Rightarrow> True | _ \<Rightarrow> False)" by code_simp+
  then obtain h1 p ok where "length ?tr = 7" "?tr ! 6 = EvWrite h1 p ok" by (auto split: hold_event.splits)
  then have tr: "?tr = take 6 ?tr @ EvWrite h1 p ok # drop 7 ?tr"
    using id_take_nth_drop [of 6 ?tr] by simp
  have run: "advance_hold (sample_deps paid_reader (\<lambda>_. ereturn (Some (0, bump_attempt 9 sample_hold)))) sample_hold ()
      = (fst refund_call, fst (snd refund_call), snd (snd refund_call))"
    by (simp only: refund_call_def prod.collapse)
  have "open_patch p" using effects_in_order [OF run tr] by simp
  with tr show ?thesis by blast
qed

text \<open>
  C10. A call is bounded and always ends itself. It makes at most five observations, three voids,
  deletes and cancels together, and five refunds, and ends with an outcome or a rejection that a
  dependency threw; five observations are enough, so any larger bound on the loop gives the very same
  call, and the write after the loop is never reached.
\<close>

theorem advance_bounded:
  "\<exists>e a w'. advance_hold d h w = (Inl e, a, w') \<and>
     length (filter is_look (av_trace a)) \<le> 5 \<and>
     length (filter is_stripe_act (av_trace a)) \<le> 3 \<and>
     length (filter is_refund (av_trace a)) \<le> 5 \<and>
     advance_loop d (max_reads + k) (adv_init h, w) = advance_loop d max_reads (adv_init h, w)"
proof -
  have enough: "advance_loop d (max_reads + k) (adv_init h, w) = advance_loop d max_reads (adv_init h, w)"
    using advance_loop_ends [of "(adv_init h, w)" max_reads d k] by (auto simp: adv_init_def)
  obtain e a w' where r: "advance_hold d h w = (Inl e, a, w')" using advance_hold_ends [of d h w] by blast
  have "within_bounds 0 (adv_init h)"
    by (simp add: within_bounds_def going_def guarded_past_def past_def adv_init_def at_most_def)
  with counts_advance_loop [where n = 0 and s = "(adv_init h, w)" and k = max_reads and d = d]
  have "both (at_most max_reads max_acts refund_budget) (advance_loop d max_reads (adv_init h, w))" by simp
  moreover have "at_most max_reads max_acts refund_budget (adv_init h)"
    by (simp add: at_most_def past_def adv_init_def)
  ultimately have "at_most max_reads max_acts refund_budget a"
    using r by (auto simp: advance_hold_def finish_def split: if_splits)
  with r enough show ?thesis
    by (auto simp: at_most_def past_def max_reads_def max_acts_def refund_budget_def rev_filter [symmetric])
qed

end
