(* ===== verification/Hold_Contract.thy ===== *)
theory Hold_Contract
  imports Hold_Advance_Laws
begin

text \<open>
  The contract between the machine and its store. The locale says what the machine needs of the
  dependencies it is given: a row it was handed stays a row of the table that only moves forward, and a
  write, a reservation or a release that lands was prepared on that very row. Inside it: every effect
  of a call is on the held invoice and subscription, refund numbers are consecutive, below the budget,
  and never used twice. The interpretation is on the model's own store, with the purchase lease
  and with other callers' operations running between the statements of the call.
\<close>

section \<open>The dependencies' moves\<close>

text \<open>One call of a dependency takes the world from \<open>w\<close> to \<open>w'\<close>.\<close>

inductive dep_moves :: "'w machine_deps \<Rightarrow> 'w \<Rightarrow> 'w \<Rightarrow> bool" for d where
  read_sub: "sub_retrieve (dep_reader d) x w = (r1, w') \<Longrightarrow> dep_moves d w w'"
| read_inv: "inv_retrieve (dep_reader d) x w = (r2, w') \<Longrightarrow> dep_moves d w w'"
| read_payments: "invpay_list (dep_reader d) x w = (r3, w') \<Longrightarrow> dep_moves d w w'"
| read_pi: "pi_retrieve (dep_reader d) x w = (r4, w') \<Longrightarrow> dep_moves d w w'"
| read_refunds: "refunds_list (dep_reader d) x w = (r5, w') \<Longrightarrow> dep_moves d w w'"
| void: "inv_void (dep_writer d) x w = (r6, w') \<Longrightarrow> dep_moves d w w'"
| del: "inv_del (dep_writer d) x w = (r6, w') \<Longrightarrow> dep_moves d w w'"
| cancel: "sub_cancel (dep_writer d) x y w = (r6, w') \<Longrightarrow> dep_moves d w w'"
| cancel_pi: "pi_cancel (dep_writer d) x w = (r6, w') \<Longrightarrow> dep_moves d w w'"
| refund: "refund_create (dep_writer d) x n m k w = (r6, w') \<Longrightarrow> dep_moves d w w'"
| fence: "dep_fence d w = (r6, w') \<Longrightarrow> dep_moves d w w'"
| alert: "dep_alert d al w = (r7, w') \<Longrightarrow> dep_moves d w w'"
| store_write: "dep_write d ref p w = (r8, w') \<Longrightarrow> open_patch p \<Longrightarrow> dep_moves d w w'"
| store_reserve: "dep_reserve d ref w = (r9, w') \<Longrightarrow> dep_moves d w w'"
| store_release: "dep_release d ref i w = (r10, w') \<Longrightarrow> dep_moves d w w'"

lemma read_twice_frame:
  assumes "\<And>w w' r. rd w = (r, w') \<Longrightarrow> P w \<Longrightarrow> P w'" "read_twice what rd w = (r, w')" "P w"
  shows "P w'"
  using assms(2,3) unfolding read_twice_def
  by (auto split: prod.splits sum.splits if_splits dest: assms(1))

lemma ebind_frame:
  assumes "ebind m f w = (r, w')" "P w" "\<And>w w' r. m w = (r, w') \<Longrightarrow> P w \<Longrightarrow> P w'"
    and "\<And>a w w' r. f a w = (r, w') \<Longrightarrow> P w \<Longrightarrow> P w'"
  shows "P w'"
  using assms(1,2) by (auto simp: ebind_def split: prod.splits sum.splits dest: assms(3,4))

text \<open>An observation only reads: whatever every read keeps, it keeps.\<close>

lemma observe_hold_frame:
  assumes keep: "\<And>w w'. dep_moves d w w' \<Longrightarrow> P w \<Longrightarrow> P w'"
    and "observe_hold (dep_reader d) h w = (r, w')" "P w"
  shows "P w'"
proof -
  note k = dep_moves.intros [THEN keep]
  have intents: "P w'" if "collect_intents (dep_reader d) ps acc w = (r, w')" "P w" for ps acc w w' r
    using that
  proof (induction ps arbitrary: acc w w' r)
    case Nil
    then show ?case by simp
  next
    case (Cons p ps)
    from Cons.prems show ?case
      by (auto split: if_splits option.splits intent_ref.splits read_answer.splits
          intro: Cons.IH elim!: ebind_frame [where P = P] read_twice_frame [where P = P, rotated] k(4))
  qed
  have refunds: "P w'" if "collect_refunds (dep_reader d) hid is acc w = (r, w')" "P w" for hid "is" acc w w' r
    using that
  proof (induction "is" arbitrary: acc w w' r)
    case Nil
    then show ?case by simp
  next
    case (Cons i "is")
    from Cons.prems show ?case
      by (auto split: if_splits read_answer.splits
          intro: Cons.IH elim!: ebind_frame [where P = P] read_twice_frame [where P = P, rotated] k(5))
  qed
  have settle: "P w'" if "settle_intents (dep_reader d) hid is w = (r, w')" "P w" for hid "is" w w' r
    using that unfolding settle_intents_def
    by (auto split: if_splits option.splits intro: refunds elim!: ebind_frame [where P = P])
  have payments: "P w'" if "observe_payments (dep_reader d) iv hid w = (r, w')" "P w" for iv hid w w' r
    using that unfolding observe_payments_def
    by (auto split: if_splits option.splits read_answer.splits
        elim!: ebind_frame [where P = P] read_twice_frame [where P = P, rotated] k(3))
      (erule (1) intents settle)+
  show ?thesis
    using assms(2,3) unfolding observe_hold_def Let_def
    by (auto split: if_splits intro: payments
        elim!: ebind_frame [where P = P] read_twice_frame [where P = P, rotated] k(1,2))
qed


section \<open>The contract\<close>

locale hold_store_contract =
  fixes d :: "'w machine_deps" and good :: "'w \<Rightarrow> bool" and snap :: "hold_row \<Rightarrow> 'w \<Rightarrow> bool"
  assumes moves_good: "dep_moves d w w' \<Longrightarrow> good w \<Longrightarrow> good w'"
    and moves_snap: "dep_moves d w w' \<Longrightarrow> good w \<Longrightarrow> snap h w \<Longrightarrow> snap h w'"
    and write_lands: "good w \<Longrightarrow> snap h w \<Longrightarrow> dep_write d (ref_of h) p w = (Inr (Some h'), w') \<Longrightarrow>
        snap h' w' \<and> row_le h h' \<and> ph_refund_attempt h' = ph_refund_attempt h"
    and reserve_lands: "good w \<Longrightarrow> snap h w \<Longrightarrow> dep_reserve d (ref_of h) w = (Inr (Some (n, h')), w') \<Longrightarrow>
        snap h' w' \<and> row_le h h' \<and> n = ph_refund_attempt h \<and> ph_refund_attempt h' = Suc n"
    and release_lands: "good w \<Longrightarrow> snap h w \<Longrightarrow> dep_release d (ref_of h) i w = (Inr (Some rel), w') \<Longrightarrow>
        snap (rh_hold rel) w' \<and> row_le h (rh_hold rel) \<and> ph_state (rh_hold rel) = HoldReleased \<and>
        ph_release_reason (rh_hold rel) = Some (ri_reason i)"

text \<open>The Stripe writes of a call that started from \<open>h0\<close>, and the numbers its refunds may use.\<close>

definition on_hold :: "hold_row \<Rightarrow> nat \<Rightarrow> hold_event \<Rightarrow> bool" where
  "on_hold h0 lim e =
     (case e of
        EvVoid iv \<Rightarrow> iv = ph_invoice_id h0
      | EvDelete iv \<Rightarrow> iv = ph_invoice_id h0
      | EvCancelSub sub c \<Rightarrow> sub = ph_subscription_id h0 \<and> c = cancel_comment h0
      | EvRefund pi amt meta key \<Rightarrow> meta = (hold_refund_metadata_key, ph_id h0) \<and>
          (\<exists>n. key = refund_key pi n \<and> ph_refund_attempt h0 \<le> n \<and> n < lim \<and> n < refund_budget)
      | _ \<Rightarrow> True)"

fun refund_key_of :: "hold_event \<Rightarrow> string option" where
  "refund_key_of (EvRefund pi amt meta key) = Some key" | "refund_key_of _ = None"

definition refund_keys :: "hold_event list \<Rightarrow> string list" where
  "refund_keys tr = List.map_filter refund_key_of tr"

lemma refund_keys_simps [simp]:
  "refund_keys [] = []"
  "refund_keys (e # tr) = (case refund_key_of e of None \<Rightarrow> refund_keys tr | Some k \<Rightarrow> k # refund_keys tr)"
  by (simp_all add: refund_keys_def map_filter_simps split: option.split)

lemma refund_key_inject: "refund_key pi n = refund_key pi' n' \<longleftrightarrow> pi = pi' \<and> n = n'"
proof
  assume "refund_key pi n = refund_key pi' n'"
  then have "pi @ CHR ''-'' # nat_str n = pi' @ CHR ''-'' # nat_str n'" by (simp add: refund_key_def)
  from append_dash_inject [OF nat_str_no_dash nat_str_no_dash this] show "pi = pi' \<and> n = n'" by simp
qed simp

lemma on_hold_refund_key:
  "on_hold h0 lim e \<Longrightarrow> refund_key_of e = Some k \<Longrightarrow> \<exists>pi n. k = refund_key pi n \<and> n < lim"
  by (cases e) (auto simp: on_hold_def)

lemma refund_keys_below:
  assumes "\<forall>e\<in>set tr. on_hold h0 lim e" "k \<in> set (refund_keys tr)"
  shows "\<exists>pi n. k = refund_key pi n \<and> n < lim"
  using assms by (induction tr) (auto split: option.splits dest: on_hold_refund_key)

lemma on_hold_mono: "on_hold h0 lim e \<Longrightarrow> lim \<le> lim' \<Longrightarrow> on_hold h0 lim' e"
  by (cases e) (auto simp: on_hold_def)

text \<open>What a call keeps, from the row it started with.\<close>

definition kept_by :: "hold_row \<Rightarrow> adv \<Rightarrow> bool" where
  "kept_by h0 a \<longleftrightarrow> row_le h0 (av_hold a) \<and>
     (\<forall>e\<in>set (past a). on_hold h0 (ph_refund_attempt (av_hold a)) e) \<and> distinct (refund_keys (past a))"

lemma kept_by_flags [simp]:
  "kept_by h0 (a\<lparr>av_alerted := b\<rparr>) = kept_by h0 a" "kept_by h0 (a\<lparr>av_err := m\<rparr>) = kept_by h0 a"
  "kept_by h0 (set_refund_attempted a) = kept_by h0 a" "kept_by h0 (set_refund_failed a) = kept_by h0 a"
  "kept_by h0 (set_voided a) = kept_by h0 a" "kept_by h0 (set_void_failed a) = kept_by h0 a"
  "kept_by h0 (void_unproven r a) = kept_by h0 a" "kept_by h0 (push_row t a) = kept_by h0 a"
  "kept_by h0 (set_cancel_attempted a) = kept_by h0 a" "kept_by h0 (count_act a) = kept_by h0 a"
  "kept_by h0 (set_pi_cancel_attempted a) = kept_by h0 a" "kept_by h0 (set_reread a) = kept_by h0 a"
  "kept_by h0 (observed ob dec a) = kept_by h0 (note_event (EvObserved ob) a)"
  by (simp_all add: kept_by_def)

lemma kept_by_note:
  "refund_key_of e = None \<Longrightarrow>
   kept_by h0 (note_event e a) \<longleftrightarrow> kept_by h0 a \<and> on_hold h0 (ph_refund_attempt (av_hold a)) e"
  by (auto simp: kept_by_def)

lemma kept_by_hold:
  "kept_by h0 a \<Longrightarrow> row_le (av_hold a) h \<Longrightarrow> kept_by h0 (a\<lparr>av_hold := h\<rparr>)"
  unfolding kept_by_def
  by (auto intro: row_le_trans on_hold_mono simp: row_le_def [of "av_hold a" h])


lemma on_hold_simps [simp]:
  "on_hold h0 lim (EvObserved ob)" "on_hold h0 lim (EvObserveFailed x)" "on_hold h0 lim (EvWrite h p ok)"
  "on_hold h0 lim (EvReserve h n)" "on_hold h0 lim (EvRelease h i ok)" "on_hold h0 lim (EvAlert al)"
  "on_hold h0 lim (EvFence b)" "on_hold h0 lim (EvReread r)" "on_hold h0 lim (EvCancelPi pi)"
  "on_hold h0 lim (EvVoid iv) \<longleftrightarrow> iv = ph_invoice_id h0" "on_hold h0 lim (EvDelete iv) \<longleftrightarrow> iv = ph_invoice_id h0"
  "on_hold h0 lim (EvCancelSub sub c) \<longleftrightarrow> sub = ph_subscription_id h0 \<and> c = cancel_comment h0"
  by (simp_all add: on_hold_def)

lemma kept_by_ids:
  assumes "kept_by h0 a"
  shows "ph_id (av_hold a) = ph_id h0" "ph_invoice_id (av_hold a) = ph_invoice_id h0"
    "ph_subscription_id (av_hold a) = ph_subscription_id h0"
    "cancel_comment (av_hold a) = cancel_comment h0"
    "ph_refund_attempt h0 \<le> ph_refund_attempt (av_hold a)"
  using assms by (auto simp: kept_by_def row_le_def identity_cols_def cancel_comment_def)

text \<open>A refund with the number just reserved is a new key.\<close>

lemma kept_by_refund:
  assumes "kept_by h0 a" "\<forall>e\<in>set (past a). on_hold h0 n e" "ph_refund_attempt (av_hold a) = Suc n"
    and "ph_refund_attempt h0 \<le> n" "n < refund_budget"
  shows "kept_by h0 (note_event (EvRefund pi amt (hold_refund_metadata_key, ph_id (av_hold a)) (refund_key pi n)) a)"
proof -
  have "refund_key pi n \<notin> set (refund_keys (past a))"
    using refund_keys_below [OF assms(2)] by (fastforce simp: refund_key_inject)
  then show ?thesis
    using assms kept_by_ids(1) [OF assms(1)] by (auto simp: kept_by_def on_hold_def)
qed

section \<open>The client's lemmas\<close>

context hold_store_contract begin

definition own :: "hold_row \<Rightarrow> adv \<times> 'w \<Rightarrow> bool" where
  "own h0 s \<longleftrightarrow> good (snd s) \<and> snap (av_hold (fst s)) (snd s) \<and> kept_by h0 (fst s)"

text \<open>How a call may end: an outcome \<open>released\<close> comes with a released row.\<close>

definition ended :: "hold_row \<Rightarrow> ending \<Rightarrow> adv \<times> 'w \<Rightarrow> bool" where
  "ended h0 e s \<longleftrightarrow> own h0 s \<and> (e = Done OutReleased \<longrightarrow> ph_state (av_hold (fst s)) = HoldReleased)"

lemma ended_simps [simp]:
  "ended h0 (Threw e) s = own h0 s" "ended h0 (Done OutStale) s = own h0 s"
  "ended h0 (Done OutOpen) s = own h0 s" "ended h0 (Done OutLeaseLost) s = own h0 s"
  by (simp_all add: ended_def)

abbreviation owned :: "hold_row \<Rightarrow> (ending + 'a) \<times> adv \<times> 'w \<Rightarrow> bool" where
  "owned h0 r \<equiv> yields r (\<lambda>_ s. own h0 s) (ended h0)"

lemma own_move:
  assumes "own h0 (a, w)" "dep_moves d w w'" "refund_key_of e = None"
    and "on_hold h0 (ph_refund_attempt (av_hold a)) e"
  shows "own h0 (note_event e a, w')"
  using assms moves_good moves_snap by (auto simp: own_def kept_by_note)

lemma own_hold:
  assumes "own h0 (a, w)" "good w'" "snap h w'" "row_le (av_hold a) h" "refund_key_of e = None"
    and "on_hold h0 (ph_refund_attempt (av_hold a)) e"
  shows "own h0 ((note_event e a)\<lparr>av_hold := h\<rparr>, w')"
  using assms by (auto simp: own_def kept_by_note intro!: kept_by_hold)

lemma own_flags [simp]:
  "own h0 (a\<lparr>av_alerted := b\<rparr>, w) = own h0 (a, w)" "own h0 (a\<lparr>av_err := m\<rparr>, w) = own h0 (a, w)"
  "own h0 (set_refund_attempted a, w) = own h0 (a, w)" "own h0 (set_refund_failed a, w) = own h0 (a, w)"
  "own h0 (set_voided a, w) = own h0 (a, w)" "own h0 (set_void_failed a, w) = own h0 (a, w)"
  "own h0 (void_unproven r a, w) = own h0 (a, w)" "own h0 (push_row t a, w) = own h0 (a, w)"
  "own h0 (set_cancel_attempted a, w) = own h0 (a, w)" "own h0 (count_act a, w) = own h0 (a, w)"
  "own h0 (set_pi_cancel_attempted a, w) = own h0 (a, w)" "own h0 (set_reread a, w) = own h0 (a, w)"
  "own h0 (observed ob dec a, w) = own h0 (note_event (EvObserved ob) a, w)"
  by (simp_all add: own_def)

lemma owned_adv_write:
  assumes "own h0 s" "open_patch p"
  shows "yields (adv_write d p s) (\<lambda>_ s'. own h0 s' \<and>
     ph_refund_attempt (av_hold (fst s')) = ph_refund_attempt (av_hold (fst s))) (ended h0)"
proof (cases s)
  case (Pair a w)
  with assms have own: "own h0 (a, w)" and g: "good w" "snap (av_hold a) w" by (simp_all add: own_def)
  have m: "dep_moves d w w'" if "dep_write d (ref_of (av_hold a)) p w = (r, w')" for r w'
    using dep_moves.store_write [OF that assms(2)] .
  show ?thesis
    unfolding Pair
    by (rule yields_adv_write; simp)
      (auto intro: own_move [OF own] own_hold [OF own] m moves_good [OF m g(1)] dest: write_lands [OF g])
qed

lemma owned_write_done: "own h0 s \<Longrightarrow> open_patch p \<Longrightarrow> owned h0 (write_done d p s)"
  unfolding write_done_def yields_ebind
  by (rule yields_weaken [OF owned_adv_write]) auto

lemma owned_adv_raise: 
  assumes "own h0 s" "\<And>ok s'. own h0 s' \<Longrightarrow> Q ok s'"
  shows "yields (adv_raise d detail pi s) Q (ended h0)"
proof (cases s)
  case (Pair a w)
  with assms(1) have own: "own h0 (a, w)" by simp
  show ?thesis
    unfolding Pair
    by (rule yields_adv_raise; simp)
      (auto intro!: own_move [OF own] assms(2) intro: dep_moves.alert)
qed

lemma owned_adv_fenced: 
  assumes "own h0 s" "\<And>b w'. own h0 (note_event (EvFence b) (fst s), w') \<Longrightarrow> Q b (note_event (EvFence b) (fst s), w')"
  shows "yields (adv_fenced d s) Q (ended h0)"
proof (cases s)
  case (Pair a w)
  with assms(1) have own: "own h0 (a, w)" by simp
  have "Q b (note_event (EvFence b) (fst s), w')" if "dep_fence d w = (r, w')" for b r w'
    by (rule assms(2)) (use own_move [OF own dep_moves.fence [OF that]] Pair in simp)
  with Pair show ?thesis by (intro yields_adv_fenced) auto
qed

lemma owned_reread_invoice:
  assumes "own h0 s" "\<And>r w'. own h0 (note_event (EvReread r) (fst s), w') \<Longrightarrow> Q r (note_event (EvReread r) (fst s), w')"
  shows "yields (reread_invoice d s) Q (ended h0)"
proof (cases s)
  case (Pair a w)
  with assms(1) have own: "own h0 (a, w)" by simp
  have "Q after (note_event (EvReread after) (fst s), w')"
    if "inv_retrieve (dep_reader d) x w = (r, w')" for after x r w'
    by (rule assms(2)) (use own_move [OF own dep_moves.read_inv [OF that]] Pair in simp)
  with Pair show ?thesis by (intro yields_reread_invoice) auto
qed

lemma owned_stripe_try:
  assumes "own h0 s" "\<And>r w'. call (snd s) = (r, w') \<Longrightarrow> dep_moves d (snd s) w'"
    and "\<And>w'. dep_moves d (snd s) w' \<Longrightarrow> own h0 (note_event ev (fst s), w')"
    and "\<And>ok a' w'. own h0 (a', w') \<Longrightarrow> av_hold a' = av_hold (fst s) \<Longrightarrow> Q ok (a', w')"
  shows "yields (stripe_try ev what call s) Q (ended h0)"
proof (cases s)
  case (Pair a w)
  show ?thesis
    using assms(2,3) unfolding Pair
    by (intro yields_stripe_try; simp) (auto intro!: assms(4) simp: Pair)
qed

lemma owned_adv_release:
  assumes "own h0 s"
  shows "yields (adv_release d i s) Q (ended h0)"
proof (cases s)
  case (Pair a w)
  with assms have own: "own h0 (a, w)" and g: "good w" "snap (av_hold a) w" by (simp_all add: own_def)
  have m: "dep_moves d w w'" if "dep_release d (ref_of (av_hold a)) i w = (r, w')" for r w'
    using dep_moves.store_release [OF that] .
  show ?thesis
    unfolding Pair
    by (rule yields_adv_release; simp add: ended_def)
      (auto intro: own_move [OF own] own_hold [OF own] m moves_good [OF m g(1)] dest: release_lands [OF g])
qed

lemma owned_adv_stay:
  assumes "own h0 s" "st \<noteq> HoldReleased"
  shows "owned h0 (adv_stay d st al count ob at s)"
proof -
  have w: "owned h0 (write_done d (stay_patch (av_hold (fst s')) st count ok (av_err (fst s')) ob at) s')"
    if "own h0 s'" for s' ok
    using that assms(2) by (intro owned_write_done) simp_all
  show ?thesis
  proof (cases "al \<noteq> None \<and> \<not> same_entry (av_hold (fst s)) st")
    case True
    then obtain detail where "al = Some detail" by blast
    with True show ?thesis
      unfolding adv_stay_def yields_ebind by simp (rule owned_adv_raise [OF assms(1)], rule w)
  next
    case False
    then show ?thesis
      unfolding adv_stay_def yields_ebind using assms(1) by (cases al) (simp_all add: w)
  qed
qed

lemma owned_adv_operator:
  assumes "own h0 s"
  shows "owned h0 (adv_operator d detail pi ob at s)"
  unfolding adv_operator_def yields_ebind
  by (rule owned_adv_raise [OF assms]) (simp add: owned_write_done)

text \<open>The refund loop: every number it reserves is below the budget.\<close>

lemma owned_adv_refunds:
  assumes "own h0 s" "ph_refund_attempt (av_hold (fst s)) + length ps \<le> refund_budget \<or> ps = []"
  shows "owned h0 (adv_refunds d ps s)"
  using assms
proof (induction ps arbitrary: s)
  case Nil
  then show ?case by simp
next
  case (Cons p ps)
  obtain a w where s: "s = (a, w)" by (cases s)
  from Cons.prems(1) s have own: "own h0 (a, w)" and g: "good w" "snap (av_hold a) w" "kept_by h0 a"
    by (simp_all add: own_def)
  let ?n = "ph_refund_attempt (av_hold a)"
  have budget: "?n < refund_budget" using Cons.prems(2) s by simp
  have one: "yields (refund_one d p ?n s2)
      (\<lambda>ok s3. owned h0 ((if ok then adv_refunds d ps else upd set_refund_failed) s3)) (ended h0)"
    if s2: "own h0 s2" "\<forall>e\<in>set (past (fst s2)). on_hold h0 ?n e" "ph_refund_attempt (av_hold (fst s2)) = Suc ?n" for s2
  proof -
    have k: "kept_by h0 (fst s2)" using s2(1) by (simp add: own_def)
    have ev: "own h0 (note_event (EvRefund (sp_id p) (ro_uncovered (sp_refund p))
        (hold_refund_metadata_key, ph_id (av_hold (fst s2))) (refund_key (sp_id p) ?n)) (fst s2), w')"
      if "dep_moves d (snd s2) w'" for w'
      using s2 moves_good [OF that] moves_snap [OF that] kept_by_ids(5) [OF g(3)]
      by (auto simp: own_def intro!: kept_by_refund budget)
    show ?thesis
      unfolding refund_one_def Let_def
      by (rule owned_stripe_try [OF s2(1)])
        (use Cons.prems(2) s s2(3) in \<open>auto intro: dep_moves.refund ev Cons.IH\<close>)
  qed
  have m: "dep_moves d w w'" if "dep_reserve d (ref_of (av_hold a)) w = (r, w')" for r w'
    using dep_moves.store_reserve [OF that] .
  have reserved: "yields (adv_fenced d ((note_event (EvReserve (av_hold a) (Some n)) a)\<lparr>av_hold := h\<rparr>, w'))
      (\<lambda>held. \<lambda>s'. yields ((if \<not> held then finish OutLeaseLost
       else ebind (upd set_refund_attempted) (\<lambda>_.
            ebind (refund_one d p n) (\<lambda>ok. if ok then adv_refunds d ps else upd set_refund_failed))) s')
         (\<lambda>_ s. own h0 s) (ended h0)) (ended h0)"
    if r: "dep_reserve d (ref_of (av_hold a)) w = (Inr (Some (n, h)), w')" for n h w'
  proof -
    from reserve_lands [OF g(1,2) r] have l: "snap h w'" "row_le (av_hold a) h" "n = ?n"
      "ph_refund_attempt h = Suc ?n" by auto
    have own': "own h0 ((note_event (EvReserve (av_hold a) (Some n)) a)\<lparr>av_hold := h\<rparr>, w')"
      by (rule own_hold [OF own moves_good [OF m [OF r] g(1)] l(1,2)]) simp_all
    have on: "\<forall>e\<in>set (past a). on_hold h0 ?n e" using g(3) by (simp add: kept_by_def)
    show ?thesis
      by (rule owned_adv_fenced [OF own']) (use l on in \<open>auto intro!: one simp: l\<close>)
  qed
  show ?case
    unfolding s by (simp, rule yields_reserve_attempt; simp)
      (auto intro: own_move [OF own] m reserved simp del: yields_ebind)
qed

lemma owned_act_refund:
  assumes "own h0 s"
  shows "owned h0 (act_refund d pis ob at s)"
proof -
  have refunds: "owned h0 (adv_refunds d (take n pis) s')"
    if "own h0 s'" "n = refund_budget - ph_refund_attempt (av_hold (fst s'))" for s' n
    using that by (intro owned_adv_refunds) auto
  show ?thesis
  proof (cases "ph_state (av_hold (fst s)) = RefundDue")
    case True
    with refunds [OF assms refl] show ?thesis by (simp add: act_refund_def)
  next
    case False
    then show ?thesis
      unfolding act_refund_def yields_ebind
      by simp (rule yields_weaken [OF owned_adv_write [OF assms]], auto intro: refunds)
  qed
qed

lemma own_ids:
  assumes "own h0 s"
  shows "ph_invoice_id (av_hold (fst s)) = ph_invoice_id h0"
    "ph_subscription_id (av_hold (fst s)) = ph_subscription_id h0"
    "cancel_comment (av_hold (fst s)) = cancel_comment h0"
  using assms kept_by_ids by (auto simp: own_def)

lemma own_try:
  assumes "own h0 s" "refund_key_of ev = None" "on_hold h0 (ph_refund_attempt (av_hold (fst s))) ev"
    and "dep_moves d (snd s) w'"
  shows "own h0 (note_event ev (fst s), w')"
  using own_move [of h0 "fst s" "snd s"] assms by simp

lemma owned_adv_act:
  assumes own: "own h0 s"
  shows "owned h0 (adv_act d t x ob at s)"
proof (cases x)
  case (ActRefund pis)
  then show ?thesis by (simp add: adv_act_def owned_act_refund [OF own])
next
  case ActVoid
  have "owned h0 (act_void d t ob at s1)" if "own h0 s1" for s1
    unfolding act_void_def Let_def yields_ebind
    by (rule owned_stripe_try [OF that])
      (use that in \<open>auto intro!: own_try owned_reread_invoice owned_adv_stay dep_moves.void
        simp: own_ids\<close>)
  with ActVoid show ?thesis by (auto simp: adv_act_def intro!: owned_adv_fenced [OF own])
next
  case ActDeleteDraft
  have "owned h0 (act_delete_draft d ob at s1)" if "own h0 s1" for s1
    unfolding act_delete_draft_def Let_def yields_ebind
    by (rule owned_stripe_try [OF that])
      (use that in \<open>auto intro!: own_try owned_reread_invoice owned_write_done owned_adv_release dep_moves.del
        simp: own_ids\<close>)
  with ActDeleteDraft show ?thesis by (auto simp: adv_act_def intro!: owned_adv_fenced [OF own])
next
  case ActCancel
  have "owned h0 (act_cancel d s1)" if "own h0 s1" for s1
  proof -
    have own1: "own h0 (set_cancel_attempted (fst s1), snd s1)" using that by simp
    show ?thesis
      unfolding act_cancel_def Let_def yields_ebind yields_upd
      by (rule owned_stripe_try [OF own1])
        (auto intro!: own_move [OF own1] dep_moves.cancel simp: own_ids [OF that])
  qed
  with ActCancel show ?thesis by (auto simp: adv_act_def intro!: owned_adv_fenced [OF own])
next
  case (ActCancelPi pi)
  have "owned h0 (act_cancel_pi d pi s1)" if "own h0 s1" for s1
  proof -
    have own1: "own h0 (set_pi_cancel_attempted (fst s1), snd s1)" using that by simp
    show ?thesis
      unfolding act_cancel_pi_def Let_def yields_ebind yields_upd
      by (rule owned_stripe_try [OF own1]) (auto intro!: own_move [OF own1] dep_moves.cancel_pi)
  qed
  with ActCancelPi show ?thesis by (auto simp: adv_act_def intro!: owned_adv_fenced [OF own])
qed

lemma owned_adv_iter:
  assumes "own h0 s"
  shows "owned h0 (adv_iter d s)"
proof -
  obtain a w where s: "s = (a, w)" by (cases s)
  obtain r w' where r: "observe_hold (dep_reader d) (av_hold a) w = (r, w')" by fastforce
  from assms s have own: "own h0 (a, w)" by simp
  have "good w' \<and> snap (av_hold a) w'"
    by (rule observe_hold_frame [of d "\<lambda>w. good w \<and> snap (av_hold a) w", OF _ r])
      (use own moves_good moves_snap in \<open>auto simp: own_def\<close>)
  with own have seen: "own h0 (note_event (EvObserveFailed e) a, w')" "own h0 (note_event (EvObserved ob) a, w')" for e ob
    by (auto simp: own_def kept_by_note)
  show ?thesis
  proof (cases r)
    case (Inl e)
    with s r seen show ?thesis by (auto simp: adv_iter_def Let_def intro!: owned_write_done)
  next
    case (Inr ob)
    let ?dec = "decide (av_hold a) ob (av_ctx a)" and ?at = "dep_now d w"
    have "owned h0 (adv_decided d ?dec ob ?at (observed ob ?dec a, w'))"
    proof (cases ?dec)
      case (DAct t x)
      with seen show ?thesis by (auto simp: adv_decided_def intro!: owned_write_done owned_adv_act)
    qed (use seen in \<open>auto simp: adv_decided_def dest: decide_stay_open
          intro!: owned_adv_stay owned_adv_operator owned_adv_release\<close>)
    with s r Inr show ?thesis by (simp add: adv_iter_def Let_def)
  qed
qed

lemma owned_advance_loop: "own h0 s \<Longrightarrow> owned h0 (advance_loop d n s)"
proof (induction n arbitrary: s)
  case 0
  then show ?case by (simp add: owned_write_done)
next
  case (Suc n)
  then show ?case by (auto intro!: yields_weaken [OF owned_adv_iter])
qed

text \<open>What a whole call keeps.\<close>

lemma advance_hold_keeps:
  assumes "good w" "snap h w" "advance_hold d h w = (Inl e, a, w')"
  shows "good w' \<and> snap (av_hold a) w' \<and> row_le h (av_hold a) \<and>
     (e = Done OutReleased \<longrightarrow> ph_state (av_hold a) = HoldReleased) \<and>
     (\<forall>ev\<in>set (av_trace a). on_hold h (ph_refund_attempt (av_hold a)) ev) \<and>
     distinct (refund_keys (rev (av_trace a)))"
proof -
  have "own h (adv_init h, w)"
    using assms(1,2) by (simp add: own_def kept_by_def past_def adv_init_def)
  with assms(3) owned_advance_loop [of h "(adv_init h, w)" max_reads]
  have "own h (a, w')" "e = Done OutReleased \<longrightarrow> ph_state (av_hold a) = HoldReleased"
    by (auto simp: advance_hold_def finish_def ended_def split: if_splits)
  then show ?thesis by (auto simp: own_def kept_by_def past_def)
qed

end

end
