(* ===== verification/Hold_World.thy ===== *)
theory Hold_World
  imports Hold_Contract
begin

text \<open>
  The world a call of the machine runs in: the database of \<open>Hold_Store\<close>, the operations that other
  callers run between the call's own statements, statements the database rejects (before or after
  they took effect), and Stripe, the alert channel and the clock, which stay parameters over a state of
  their own. \<open>machineDepsFor\<close> of \<open>lib/billing/payment-holds/sweeper.ts\<close> binds the machine's
  dependencies to one lease in it.
\<close>

section \<open>Statements between other callers' operations\<close>

datatype fate = Runs | FailsBefore exn | FailsAfter exn

record 'x hold_world =
  hw_db :: hold_db
  hw_sched :: "(store_op list \<times> fate) list"
  hw_ext :: 'x

definition next_turn :: "'x hold_world \<Rightarrow> store_op list \<times> fate" where
  "next_turn w = (case hw_sched w of [] \<Rightarrow> ([], Runs) | t # _ \<Rightarrow> t)"

text \<open>One statement or transaction of ours, after whatever the others ran before it.\<close>

definition with_db :: "(hold_db \<Rightarrow> 'a \<times> hold_db) \<Rightarrow> ('x hold_world, exn, 'a) eff" where
  "with_db f w =
     (let db = run_ops (fst (next_turn w)) (hw_db w);
          w' = w\<lparr>hw_db := db, hw_sched := tl (hw_sched w)\<rparr>
      in case snd (next_turn w) of
           Runs \<Rightarrow> (Inr (fst (f db)), w'\<lparr>hw_db := snd (f db)\<rparr>)
         | FailsBefore e \<Rightarrow> (Inl e, w')
         | FailsAfter e \<Rightarrow> (Inl e, w'\<lparr>hw_db := snd (f db)\<rparr>))"

text \<open>A call outside the database.\<close>

definition on_ext :: "('x, exn, 'a) eff \<Rightarrow> ('x hold_world, exn, 'a) eff" where
  "on_ext m w = (fst (m (hw_ext w)), w\<lparr>hw_ext := snd (m (hw_ext w))\<rparr>)"

definition ext_reader :: "'x stripe_reader \<Rightarrow> 'x hold_world stripe_reader" where
  "ext_reader rd = \<lparr>sub_retrieve = (\<lambda>x. on_ext (sub_retrieve rd x)),
     inv_retrieve = (\<lambda>x. on_ext (inv_retrieve rd x)), invpay_list = (\<lambda>x. on_ext (invpay_list rd x)),
     pi_retrieve = (\<lambda>x. on_ext (pi_retrieve rd x)), refunds_list = (\<lambda>x. on_ext (refunds_list rd x))\<rparr>"

definition ext_writer :: "'x stripe_writer \<Rightarrow> 'x hold_world stripe_writer" where
  "ext_writer wr = \<lparr>inv_void = (\<lambda>x. on_ext (inv_void wr x)), inv_del = (\<lambda>x. on_ext (inv_del wr x)),
     sub_cancel = (\<lambda>x c. on_ext (sub_cancel wr x c)), pi_cancel = (\<lambda>x. on_ext (pi_cancel wr x)),
     refund_create = (\<lambda>x n m k. on_ext (refund_create wr x n m k))\<rparr>"

text \<open>\<open>SweepDeps\<close>, without the logger.\<close>

record 'x sweep_deps =
  sd_reader :: "'x stripe_reader"
  sd_writer :: "'x stripe_writer"
  sd_alert :: "hold_alert \<Rightarrow> ('x, exn, bool) eff"
  sd_now :: "'x \<Rightarrow> int"

definition lease_lost_exn :: "string \<Rightarrow> exn" where
  "lease_lost_exn key = \<lparr>exn_code = None,
     exn_msg = ''The purchase lease '' @ key @ '' was lost before a Stripe write.''\<rparr>"

text \<open>\<open>fenceFor(lease)\<close>: a rejection is a lost lease too.\<close>

definition lease_fence_call :: "purchase_lease \<Rightarrow> ('x hold_world, exn, unit) eff" where
  "lease_fence_call lease =
     ebind (with_db (fence_for lease)) (\<lambda>ok. if ok then ereturn () else ethrow (lease_lost_exn (le_key lease)))"

definition machine_deps_for :: "purchase_lease \<Rightarrow> 'x sweep_deps \<Rightarrow> 'x hold_world machine_deps" where
  "machine_deps_for lease sd =
     \<lparr>dep_reader = ext_reader (sd_reader sd), dep_writer = ext_writer (sd_writer sd),
      dep_write = (\<lambda>ref p. with_db (write_hold_state lease ref p)),
      dep_reserve = (\<lambda>ref. with_db (reserve_refund_attempt lease ref)),
      dep_release = (\<lambda>ref i. with_db (release_hold lease ref i)),
      dep_fence = lease_fence_call lease,
      dep_alert = (\<lambda>al. on_ext (sd_alert sd al)),
      dep_now = (\<lambda>w. sd_now sd (hw_ext w))\<rparr>"

section \<open>The store keeps the machine's contract\<close>

text \<open>The table's constraints hold, and the other callers pass what their types let them pass.\<close>

definition world_ok :: "'x hold_world \<Rightarrow> bool" where
  "world_ok w \<longleftrightarrow> table_ok (db_holds (hw_db w)) \<and>
     (\<forall>t\<in>set (hw_sched w). \<forall>op\<in>set (fst t). well_typed_op op)"

definition snapshot_in :: "hold_row \<Rightarrow> 'x hold_world \<Rightarrow> bool" where
  "snapshot_in h w \<longleftrightarrow> snapshot h (hw_db w)"

lemma on_ext_db: "on_ext m w = (r, w') \<Longrightarrow> hw_db w' = hw_db w \<and> hw_sched w' = hw_sched w"
  by (auto simp: on_ext_def)

lemma next_turn_ok: "world_ok w \<Longrightarrow> \<forall>op\<in>set (fst (next_turn w)). well_typed_op op"
  by (auto simp: world_ok_def next_turn_def split: list.splits)

lemma tl_sched: "x \<in> set (tl xs) \<Longrightarrow> x \<in> set xs"
  by (cases xs) simp_all

text \<open>A statement whose effect is that of one store operation keeps both.\<close>

lemma with_db_keeps:
  assumes "with_db f w = (r, w')" "\<And>db. snd (f db) = run_op op db" "well_typed_op op" "world_ok w"
  shows "world_ok w'" "snapshot_in h w \<Longrightarrow> snapshot_in h w'"
proof -
  let ?db = "run_ops (fst (next_turn w)) (hw_db w)"
  have ok: "table_ok (db_holds ?db)"
    using assms(4) next_turn_ok [OF assms(4)] by (intro run_ops_table_ok) (auto simp: world_ok_def)
  have le: "db_le (hw_db w) ?db" "db_le ?db (run_op op ?db)" by (rule run_ops_db_le run_op_db_le)+
  from assms(1,2) have db: "hw_db w' = ?db \<or> hw_db w' = run_op op ?db" and s: "hw_sched w' = tl (hw_sched w)"
    by (auto simp: with_db_def Let_def split: fate.splits)
  from db ok run_op_table_ok [OF ok assms(3)] s assms(4) show "world_ok w'"
    by (auto simp: world_ok_def dest: tl_sched)
  from db le show "snapshot_in h w \<Longrightarrow> snapshot_in h w'"
    unfolding snapshot_in_def by (metis snapshot_mono)
qed

text \<open>A statement that answers ran on the tables of a well-formed world.\<close>

lemma with_db_Inr:
  assumes "with_db f w = (Inr a, w')" "world_ok w" "snapshot_in h w"
  obtains db where "f db = (a, hw_db w')" "table_ok (db_holds db)" "snapshot h db"
proof -
  let ?db = "run_ops (fst (next_turn w)) (hw_db w)"
  have "table_ok (db_holds ?db)"
    using assms(2) next_turn_ok [OF assms(2)] by (intro run_ops_table_ok) (auto simp: world_ok_def)
  moreover have "snapshot h ?db" using assms(3) by (simp add: snapshot_in_def snapshot_run_ops)
  moreover have "f ?db = (a, hw_db w')"
    using assms(1) by (auto simp: with_db_def Let_def split: fate.splits)
  ultimately show ?thesis using that by blast
qed

lemma fence_keeps:
  assumes "lease_fence_call lease w = (r, w')" "world_ok w"
  shows "world_ok w'" "snapshot_in h w \<Longrightarrow> snapshot_in h w'"
proof -
  obtain b w1 where b: "with_db (fence_for lease) w = (b, w1)" by fastforce
  with assms(1) have "w' = w1"
    by (auto simp: lease_fence_call_def ebind_def ereturn_def ethrow_def split: sum.splits if_splits)
  with with_db_keeps [OF b, of "OpRenew lease"] assms(2) show "world_ok w'"
    "snapshot_in h w \<Longrightarrow> snapshot_in h w'" by simp_all
qed

lemma landed_row:
  assumes "table_ok (db_holds db)" "snapshot h db" "r \<in> set (db_holds db)" "state_write_fence l (ref_of h) db r"
    and "row_le r h'" "h' \<in> set (db_holds db')"
  shows "snapshot h' db' \<and> row_le h h' \<and> ph_refund_attempt r = ph_refund_attempt h"
proof -
  from snapshot_row(1,2) [OF assms(1-4)] have "row_le h r" "state_cols r = state_cols h" by simp_all
  moreover from this(2) have "ph_refund_attempt (state_cols r) = ph_refund_attempt (state_cols h)" by simp
  then have "ph_refund_attempt r = ph_refund_attempt h" by (simp add: state_cols_def)
  ultimately show ?thesis
    using assms(5,6) row_le_trans [of h r h'] row_le_refl by (auto simp: snapshot_def)
qed

lemma world_moves:
  assumes "dep_moves (machine_deps_for lease sd) w w'" "world_ok w"
  shows "world_ok w' \<and> (snapshot_in h w \<longrightarrow> snapshot_in h w')"
  using assms
proof (cases rule: dep_moves.cases)
  case fence
  with assms(2) show ?thesis
    using fence_keeps by (fastforce simp: machine_deps_for_def)
next
  case (store_write ref p r)
  then have "with_db (write_hold_state lease ref p) w = (r, w')" by (simp add: machine_deps_for_def)
  from with_db_keeps [OF this, of "OpWrite lease ref p"] store_write assms(2) show ?thesis by simp
next
  case (store_reserve ref r)
  then have "with_db (reserve_refund_attempt lease ref) w = (r, w')" by (simp add: machine_deps_for_def)
  from with_db_keeps [OF this, of "OpReserve lease ref"] assms(2) show ?thesis by simp
next
  case (store_release ref i r)
  then have "with_db (release_hold lease ref i) w = (r, w')" by (simp add: machine_deps_for_def)
  from with_db_keeps [OF this, of "OpRelease lease ref i"] assms(2) show ?thesis by simp
qed (auto simp: machine_deps_for_def ext_reader_def ext_writer_def world_ok_def snapshot_in_def dest!: on_ext_db)

interpretation leased: hold_store_contract "machine_deps_for lease sd" world_ok snapshot_in for lease sd
proof
  show "world_ok w'" if "dep_moves (machine_deps_for lease sd) w w'" "world_ok w" for w w'
    using world_moves [OF that] by simp
  show "snapshot_in h w'" if "dep_moves (machine_deps_for lease sd) w w'" "world_ok w" "snapshot_in h w" for w w' h
    using world_moves [OF that(1,2)] that(3) by simp
  show "snapshot_in h' w' \<and> row_le h h' \<and> ph_refund_attempt h' = ph_refund_attempt h"
    if a: "world_ok w" "snapshot_in h w" "dep_write (machine_deps_for lease sd) (ref_of h) p w = (Inr (Some h'), w')"
    for w h p h' w'
  proof -
    from a(3) have "with_db (write_hold_state lease (ref_of h) p) w = (Inr (Some h'), w')"
      by (simp add: machine_deps_for_def)
    from with_db_Inr [OF this a(1,2)] obtain db where
      db: "write_hold_state lease (ref_of h) p db = (Some h', hw_db w')" "table_ok (db_holds db)" "snapshot h db" .
    from write_hold_state_Some [OF db(1)] obtain r where r: "r \<in> set (db_holds db)"
      "state_write_fence lease (ref_of h) db r" "ph_state r \<noteq> HoldReleased"
      "h' = apply_patch (db_now db) p r" "h' \<in> set (db_holds (hw_db w'))" by blast
    have "row_le r h'" using r(3,4) by (simp add: row_le_apply_patch)
    from landed_row [OF db(2,3) r(1,2) this r(5)] r(4) show ?thesis
      by (simp add: snapshot_in_def apply_patch_def)
  qed
  show "snapshot_in h' w' \<and> row_le h h' \<and> n = ph_refund_attempt h \<and> ph_refund_attempt h' = Suc n"
    if a: "world_ok w" "snapshot_in h w"
      "dep_reserve (machine_deps_for lease sd) (ref_of h) w = (Inr (Some (n, h')), w')"
    for w h n h' w'
  proof -
    from a(3) have "with_db (reserve_refund_attempt lease (ref_of h)) w = (Inr (Some (n, h')), w')"
      by (simp add: machine_deps_for_def)
    from with_db_Inr [OF this a(1,2)] obtain db where
      db: "reserve_refund_attempt lease (ref_of h) db = (Some (n, h'), hw_db w')" "table_ok (db_holds db)" "snapshot h db" .
    from reserve_refund_attempt_Some [OF db(1)] obtain r where r: "r \<in> set (db_holds db)"
      "state_write_fence lease (ref_of h) db r" "ph_state r \<noteq> HoldReleased"
      "h' = bump_attempt (db_now db) r" "n = ph_refund_attempt r" "h' \<in> set (db_holds (hw_db w'))" by blast
    have "row_le r h'" using r(3,4) by (simp add: row_le_bump_attempt)
    moreover have "ph_refund_attempt h' = Suc n" using r(4,5) by (simp add: bump_attempt_def)
    ultimately show ?thesis
      using landed_row [OF db(2,3) r(1,2) _ r(6)] r(5) by (simp add: snapshot_in_def)
  qed
  show "snapshot_in (rh_hold rel) w' \<and> row_le h (rh_hold rel) \<and> ph_state (rh_hold rel) = HoldReleased \<and>
        ph_release_reason (rh_hold rel) = Some (ri_reason i)"
    if a: "world_ok w" "snapshot_in h w"
      "dep_release (machine_deps_for lease sd) (ref_of h) i w = (Inr (Some rel), w')"
    for w h i rel w'
  proof -
    from a(3) have "with_db (release_hold lease (ref_of h) i) w = (Inr (Some rel), w')"
      by (simp add: machine_deps_for_def)
    from with_db_Inr [OF this a(1,2)] obtain db where
      db: "release_hold lease (ref_of h) i db = (Some rel, hw_db w')" "table_ok (db_holds db)" "snapshot h db" .
    from release_hold_Some [OF db(1)] obtain r where r: "r \<in> set (db_holds db)"
      "state_write_fence lease (ref_of h) db r" "ph_state r \<noteq> HoldReleased"
      "rh_hold rel = apply_release (db_now db) i r" "rh_hold rel \<in> set (db_holds (hw_db w'))" by blast
    have "row_le r (rh_hold rel)" using r(3,4) by (simp add: row_le_apply_release)
    from landed_row [OF db(2,3) r(1,2) this r(5)] r(4) show ?thesis
      by (simp add: snapshot_in_def apply_release_def)
  qed
qed

section \<open>Properties\<close>

text \<open>
  C11. A call never leaves its hold and never reuses a refund key, whoever else writes. Started
  on a row of the table, under a lease, with any operations of any other callers running between its
  statements and any of its statements rejected before or after it took effect: the table's
  constraints still hold, the row the call returns is that hold moved forward (and released when the
  outcome says so), every void, delete, cancel and refund of the call is on the held invoice, the
  hold's subscription and the hold's own metadata, and its refund keys are distinct and built
  from numbers at or above the hold's attempt count and below the budget.
\<close>

theorem advance_keeps_to_its_hold:
  assumes "table_ok (db_holds (hw_db w))" "\<forall>t\<in>set (hw_sched w). \<forall>op\<in>set (fst t). well_typed_op op"
    and "h \<in> set (db_holds (hw_db w))"
    and "advance_hold (machine_deps_for lease sd) h w = (Inl e, a, w')"
  shows "table_ok (db_holds (hw_db w')) \<and>
    identity_cols (av_hold a) = identity_cols h \<and> ph_version h \<le> ph_version (av_hold a) \<and>
    (e = Done OutReleased \<longrightarrow> ph_state (av_hold a) = HoldReleased) \<and>
    (\<forall>ev\<in>set (av_trace a). case ev of
        EvVoid iv \<Rightarrow> iv = ph_invoice_id h
      | EvDelete iv \<Rightarrow> iv = ph_invoice_id h
      | EvCancelSub sub c \<Rightarrow> sub = ph_subscription_id h
      | EvRefund pi amt meta key \<Rightarrow> meta = (hold_refund_metadata_key, ph_id h) \<and>
          (\<exists>n. key = refund_key pi n \<and> ph_refund_attempt h \<le> n \<and> n < refund_budget)
      | _ \<Rightarrow> True) \<and>
    distinct (refund_keys (av_trace a))"
proof -
  have ok: "world_ok w" using assms(1,2) by (simp add: world_ok_def)
  have snap: "snapshot_in h w" using assms(3) by (auto simp: snapshot_in_def snapshot_def)
  from leased.advance_hold_keeps [OF ok snap assms(4)] have
    k: "world_ok w'" "row_le h (av_hold a)" "e = Done OutReleased \<longrightarrow> ph_state (av_hold a) = HoldReleased"
      "\<forall>ev\<in>set (av_trace a). on_hold h (ph_refund_attempt (av_hold a)) ev"
      "distinct (refund_keys (rev (av_trace a)))" by auto
  have "refund_keys (rev tr) = rev (refund_keys tr)" for tr
    by (simp add: refund_keys_def List.map_filter_def rev_map rev_filter)
  with k show ?thesis
    by (fastforce simp: world_ok_def row_le_def on_hold_def split: hold_event.splits)
qed

text \<open>
  C12. Within one hold, refund numbers are used once. Once a reservation has given out a number for a
  hold, every reservation for that same hold after any run of operations of any callers, under any
  leases, gives a greater one, and so no two reservations of one hold build the same idempotency
  key \<open>hold-refund-<payment>-<number>\<close>. The key names a payment and a number but no hold, and
  another hold's numbers start at 0: what keeps the keys of two holds apart is their payments, which
  is outside this statement.
\<close>

theorem refund_numbers_never_reused:
  assumes "table_ok (db_holds db)" "\<forall>op\<in>set ops. well_typed_op op"
    and "reserve_refund_attempt l1 ref1 db = (Some (n1, h1), db1)"
    and "reserve_refund_attempt l2 ref2 (run_ops ops db1) = (Some (n2, h2), db2)"
    and "hr_id ref1 = hr_id ref2"
  shows "n1 < n2 \<and> (\<forall>pi1 pi2. refund_key pi1 n1 \<noteq> refund_key pi2 n2)"
proof -
  from reserve_refund_attempt_Some [OF assms(3)] obtain r1 where
    r1: "ph_id r1 = hr_id ref1" "h1 = bump_attempt (db_now db) r1" "n1 = ph_refund_attempt r1"
      "h1 \<in> set (db_holds db1)" by (auto simp: state_write_fence_def)
  from reserve_refund_attempt_Some [OF assms(4)] obtain r2 where
    r2: "r2 \<in> set (db_holds (run_ops ops db1))" "ph_id r2 = hr_id ref2" "n2 = ph_refund_attempt r2"
    by (auto simp: state_write_fence_def)
  have "db1 = run_op (OpReserve l1 ref1) db" using assms(3) by simp
  then have "table_ok (db_holds (run_ops ops db1))"
    using assms(1,2) by (simp add: run_op_table_ok run_ops_table_ok del: run_op.simps)
  moreover from run_ops_db_le [of db1 ops] r1(4) obtain r where
    r: "r \<in> set (db_holds (run_ops ops db1))" "row_le h1 r" unfolding db_le_def by blast
  moreover have "ph_id r = ph_id r2"
    using row_le_id [OF r(2)] r1(1,2) r2(2) assms(5) by (simp add: bump_attempt_def)
  ultimately have "r = r2" using distinct_id_eq r2(1) by blast
  with r(2) r1(2,3) r2(3) have "n1 < n2" by (simp add: row_le_def bump_attempt_def)
  then show ?thesis by (auto simp: refund_key_inject)
qed


definition sample_sweep :: "unit stripe_reader \<Rightarrow> unit sweep_deps" where
  "sample_sweep rd = \<lparr>sd_reader = rd,
     sd_writer = \<lparr>inv_void = (\<lambda>_. ereturn ()), inv_del = (\<lambda>_. ereturn ()), sub_cancel = (\<lambda>_ _. ereturn ()),
        pi_cancel = (\<lambda>_. ereturn ()), refund_create = (\<lambda>_ _ _ _. ereturn ())\<rparr>,
     sd_alert = (\<lambda>_. ereturn True), sd_now = (\<lambda>_. 9)\<rparr>"

definition sample_world :: "unit hold_world" where
  "sample_world = \<lparr>hw_db = sample_db, hw_sched = [([OpNudge ''sub_1''], Runs)], hw_ext = ()\<rparr>"

definition paid_call :: "(ending + unit) \<times> adv \<times> unit hold_world" where
  "paid_call = advance_hold (machine_deps_for sample_lease (sample_sweep paid_reader)) sample_hold sample_world"

theorem advance_keeps_to_its_hold_witness:
  "fst paid_call = Inl (Done OutOpen) \<and> refund_keys (av_trace (fst (snd paid_call))) = [''hold-refund-pi_1-0''] \<and>
   table_ok (db_holds (hw_db (snd (snd paid_call)))) \<and>
   identity_cols (av_hold (fst (snd paid_call))) = identity_cols sample_hold"
proof -
  have out: "fst paid_call = Inl (Done OutOpen)" by code_simp
  have keys: "refund_keys (av_trace (fst (snd paid_call))) = [''hold-refund-pi_1-0'']" by code_simp
  have run: "advance_hold (machine_deps_for sample_lease (sample_sweep paid_reader)) sample_hold sample_world
      = (Inl (Done OutOpen), fst (snd paid_call), snd (snd paid_call))"
    by (simp only: paid_call_def [symmetric] out [symmetric] prod.collapse)
  have pre: "table_ok (db_holds (hw_db sample_world))"
    "\<forall>t\<in>set (hw_sched sample_world). \<forall>op\<in>set (fst t). well_typed_op op"
    "sample_hold \<in> set (db_holds (hw_db sample_world))"
    by (simp_all add: sample_world_def)
  from advance_keeps_to_its_hold [OF pre run] out keys show ?thesis by blast
qed

theorem refund_numbers_never_reused_witness:
  "\<exists>h1 db1 h2 db2. reserve_refund_attempt sample_lease \<lparr>hr_id = ''h1'', hr_version = 0\<rparr> sample_db = (Some (0, h1), db1) \<and>
     reserve_refund_attempt sample_lease \<lparr>hr_id = ''h1'', hr_version = 1\<rparr> (run_ops [OpNudge ''sub_1''] db1) =
       (Some (1, h2), db2) \<and> refund_key ''pi_1'' 0 \<noteq> refund_key ''pi_1'' 1"
proof -
  let ?ref1 = "\<lparr>hr_id = ''h1'', hr_version = 0\<rparr>" and ?ref2 = "\<lparr>hr_id = ''h1'', hr_version = 1\<rparr>"
  let ?r1 = "reserve_refund_attempt sample_lease ?ref1 sample_db"
  let ?r2 = "reserve_refund_attempt sample_lease ?ref2 (run_ops [OpNudge ''sub_1''] (snd ?r1))"
  have m: "map_option fst (fst ?r1) = Some 0" "map_option fst (fst ?r2) = Some 1" by code_simp+
  have pair: "map_option fst (fst x) = Some n \<Longrightarrow> \<exists>h. x = (Some (n, h), snd x)"
    for x :: "(nat \<times> hold_row) option \<times> hold_db" and n
    by (cases x; cases "fst x") auto
  from pair [OF m(1)] pair [OF m(2)] obtain h1 h2
    where r: "?r1 = (Some (0, h1), snd ?r1)" "?r2 = (Some (1, h2), snd ?r2)" by blast
  have "table_ok (db_holds sample_db)" "\<forall>op\<in>set [OpNudge ''sub_1'']. well_typed_op op" by simp_all
  from refund_numbers_never_reused [OF this r] have "refund_key ''pi_1'' 0 \<noteq> refund_key ''pi_1'' 1" by simp
  with r show ?thesis by blast
qed

end
