(* ===== verification/Hold_Moved.thy ===== *)
theory Hold_Moved
  imports Hold_World
begin

text \<open>
  The decisions around the machine: what an open means for the flow that raised it (\<open>decideOpen\<close>), the
  operator's release (\<open>operatorRelease\<close>), and the table of checks of the moved release
  (\<open>decideMovedRelease\<close>), all of \<open>lib/billing/payment-holds/machine.ts\<close>, with the reading of an
  organisation's metadata in \<open>lib/billing/new-org-setup.ts\<close>. \<open>JSON.parse\<close> and
  \<open>Date.prototype.toISOString\<close> are parameters.
\<close>

section \<open>What an open means\<close>

datatype open_decision = Proceed hold_row | RefuseHeld "hold_row option" | RefuseUnconfirmed

definition decide_open :: "open_result \<Rightarrow> string \<Rightarrow> open_decision" where
  "decide_open res payer =
     (case res of
        Opened h \<Rightarrow> Proceed h
      | AlreadyOpen h \<Rightarrow>
          RefuseHeld (case h of None \<Rightarrow> None | Some r \<Rightarrow> if ph_payer_key r = payer then Some r else None)
      | OpenLeaseLost \<Rightarrow> RefuseUnconfirmed)"

section \<open>The operator's release\<close>

text \<open>\<open>reason.trim() === ""\<close>, on the characters below 256.\<close>

definition js_space :: "char \<Rightarrow> bool" where
  "js_space c \<longleftrightarrow> of_char c \<in> {9, 10, 11, 12, 13, 32, 160 :: nat}"

definition js_blank :: "string \<Rightarrow> bool" where
  "js_blank s \<longleftrightarrow> list_all js_space s"

record operator_input =
  op_operator_id :: string
  op_reason :: string
  op_expect_org_row :: "(string \<times> string) option"

record operator_result =
  or_observation :: "obs_error + hold_obs"
  or_released :: "hold_row option"
  or_closed_setup :: "string option"
  or_checked_row :: "(string option \<times> string) option"

definition reason_required :: exn where
  "reason_required = \<lparr>exn_code = None, exn_msg = ''operatorRelease: a reason is required.''\<rparr>"

definition operator_release_input :: "operator_input \<Rightarrow> release_input" where
  "operator_release_input i =
     \<lparr>ri_reason = ByOperator, ri_released_by = Some (op_operator_id i), ri_note = Some (op_reason i),
      ri_observed_at = None, ri_last_pay = None, ri_expect_org_row = op_expect_org_row i\<rparr>"

definition operator_release ::
  "'w machine_deps \<Rightarrow> hold_row \<Rightarrow> operator_input \<Rightarrow> ('w, exn, operator_result) eff" where
  "operator_release d h i w =
     (if js_blank (op_reason i) then (Inl reason_required, w)
      else (case observe_hold (dep_reader d) h w of
              (ob, w1) \<Rightarrow>
                if ph_state h = HoldReleased
                then (Inr \<lparr>or_observation = ob, or_released = None, or_closed_setup = None,
                           or_checked_row = None\<rparr>, w1)
                else (case dep_release d (ref_of h) (operator_release_input i) w1 of
                        (Inl e, w2) \<Rightarrow> (Inl e, w2)
                      | (Inr rel, w2) \<Rightarrow>
                          (Inr \<lparr>or_observation = ob, or_released = map_option rh_hold rel,
                                or_closed_setup = Option.bind rel rh_closed_setup_id,
                                or_checked_row = Option.bind rel rh_checked_org_row\<rparr>, w2))))"

section \<open>An organisation's metadata\<close>

datatype json = JNull | JBool bool | JNum int | JStr string | JArr "json list" | JObj "(string \<times> json) list"

definition new_org_subscription_key :: string where
  "new_org_subscription_key = ''newOrgSubscriptionId''"

text \<open>\<open>stringKeyOf\<close> on a text column: \<open>parse\<close> is \<open>JSON.parse\<close>, \<open>None\<close> where it throws. A null
  column is not an object.\<close>

definition string_key_of :: "(string \<Rightarrow> json option) \<Rightarrow> string option \<Rightarrow> string \<Rightarrow> string option" where
  "string_key_of parse metadata key =
     (case Option.bind metadata parse of
        Some (JObj kvs) \<Rightarrow> (case map_of kvs key of
                             Some (JStr v) \<Rightarrow> if v = [] then None else Some v
                           | _ \<Rightarrow> None)
      | _ \<Rightarrow> None)"

definition new_org_subscription_id_of :: "(string \<Rightarrow> json option) \<Rightarrow> string option \<Rightarrow> string option" where
  "new_org_subscription_id_of parse metadata = string_key_of parse metadata new_org_subscription_key"

definition paid_subscription_statuses :: "string list" where
  "paid_subscription_statuses = [''active'', ''trialing'', ''past_due'']"

section \<open>The moved release\<close>

datatype moved_refusal =
    NotLinkRefused | TeamNotFound | SameTeam | PayerNotInTeam | TeamPurchaseInProgress | XMissing
  | StripeUnreadable | XEnded | XNotMovable | SubscriptionNotMoved | CustomerNotMoved | TeamHasOtherPlan
  | TooSoon | RowNotX | MovedLeaseLost | RowChanged

definition moved_release_search_lag_ms :: int where
  "moved_release_search_lag_ms = 15 * 60000"

definition moved_ended_statuses :: "string list" where
  "moved_ended_statuses = [''canceled'', ''incomplete_expired'']"

record moved_org_row =
  mo_subscription_id :: "string option"
  mo_status :: string
  mo_customer_id :: "string option"
  mo_updated_at :: int

record moved_other =
  mt_id :: string
  mt_status :: string
  mt_org_id :: "string option"
  mt_org_plan :: bool

record moved_reads =
  mr_x_status :: string
  mr_x_org_id :: "string option"
  mr_x_customer_id :: string
  mr_customer_deleted :: bool
  mr_customer_org_id :: "string option"
  mr_row :: "moved_org_row option"
  mr_others :: "moved_other list"

datatype moved_stripe_facts = FactsXMissing | FactsUnreadable string | FactsRead moved_reads

record moved_facts =
  mf_state :: hold_state
  mf_open_note :: "string option"
  mf_subscription_id :: string
  mf_team_id :: string
  mf_team :: "(string \<times> string option) option"
  mf_setup_org_id :: "string option"
  mf_member :: "(string \<times> string) option"
  mf_manages_billing :: bool
  mf_lock :: "bool option"
  mf_stripe :: "moved_stripe_facts option"
  mf_synced_once :: bool
  mf_row_after_sync :: "moved_org_row option"
  mf_now :: int

datatype moved_decision = MvRefuse moved_refusal string | MvReadStripe | MvSyncFirst | MvRelease

text \<open>An empty subscription id is falsy.\<close>

definition row_subscription :: "moved_org_row option \<Rightarrow> string option" where
  "row_subscription row = (case row of None \<Rightarrow> None
     | Some r \<Rightarrow> (case mo_subscription_id r of None \<Rightarrow> None | Some s \<Rightarrow> if s = [] then None else Some s))"

definition row_text :: "moved_org_row option \<Rightarrow> string" where
  "row_text row = (case row of None \<Rightarrow> ''nothing''
     | Some r \<Rightarrow> (case row_subscription row of None \<Rightarrow> ''nothing'' | Some s \<Rightarrow> s @ '', '' @ mo_status r))"

text \<open>\<open>row?.subscriptionId === x\<close>.\<close>

definition row_names :: "moved_org_row option \<Rightarrow> string \<Rightarrow> bool" where
  "row_names row x = (case row of None \<Rightarrow> False | Some r \<Rightarrow> mo_subscription_id r = Some x)"

definition blocking_plan :: "string \<Rightarrow> string \<Rightarrow> moved_other \<Rightarrow> bool" where
  "blocking_plan x t z \<longleftrightarrow> mt_id z \<noteq> x \<and> mt_org_id z = Some t \<and> mt_status z \<notin> set moved_ended_statuses \<and> mt_org_plan z"

definition or_nothing :: "string option \<Rightarrow> string" where
  "or_nothing s = (case s of None \<Rightarrow> ''nothing'' | Some v \<Rightarrow> v)"

text \<open>Rows 7 to 14, over what step 7 read.\<close>

definition decide_moved_reads :: "(int \<Rightarrow> string) \<Rightarrow> moved_facts \<Rightarrow> moved_reads \<Rightarrow> moved_decision" where
  "decide_moved_reads datestr f s =
     (let x = mf_subscription_id f; t = mf_team_id f; row = mr_row s in
      if mr_x_status s \<in> set moved_ended_statuses then MvRefuse XEnded (mr_x_status s)
      else if mr_x_status s \<notin> set paid_subscription_statuses then MvRefuse XNotMovable (mr_x_status s)
      else if mr_x_org_id s \<noteq> Some t then MvRefuse SubscriptionNotMoved (or_nothing (mr_x_org_id s))
      else if mr_customer_deleted s \<or> mr_customer_org_id s \<noteq> Some t
      then MvRefuse CustomerNotMoved (if mr_customer_deleted s then ''deleted'' else or_nothing (mr_customer_org_id s))
      else if (case row of None \<Rightarrow> False
               | Some r \<Rightarrow> row_subscription row \<noteq> None \<and> row_subscription row \<noteq> Some x \<and> mo_status r \<noteq> ''canceled'')
      then MvRefuse TeamHasOtherPlan (case row of None \<Rightarrow> [] | Some r \<Rightarrow> or_nothing (row_subscription row) @ '' ('' @ mo_status r @ '')'')
      else (case List.find (blocking_plan x t) (mr_others s) of
              Some z \<Rightarrow> MvRefuse TeamHasOtherPlan (mt_id z @ '' ('' @ mt_status z @ '')'')
            | None \<Rightarrow>
                if row_names row x \<and>
                   (case row of None \<Rightarrow> False | Some r \<Rightarrow> mf_now f - mo_updated_at r < moved_release_search_lag_ms)
                then MvRefuse TooSoon (case row of None \<Rightarrow> [] | Some r \<Rightarrow> datestr (mo_updated_at r + moved_release_search_lag_ms))
                else if mf_synced_once f
                then (if row_names (mf_row_after_sync f) x then MvRelease
                      else MvRefuse RowNotX (row_text (mf_row_after_sync f)))
                else (if row_names row x then MvRelease else MvSyncFirst)))"

definition decide_moved_release ::
  "(string \<Rightarrow> json option) \<Rightarrow> (int \<Rightarrow> string) \<Rightarrow> moved_facts \<Rightarrow> moved_decision" where
  "decide_moved_release parse datestr f =
     (let x = mf_subscription_id f; t = mf_team_id f in
      if mf_state f \<noteq> NeedsOperator \<or> mf_open_note f \<noteq> Some link_refused_note then MvRefuse NotLinkRefused []
      else (case mf_team f of
              None \<Rightarrow> MvRefuse TeamNotFound []
            | Some (_, metadata) \<Rightarrow>
                if mf_setup_org_id f = Some t \<or> new_org_subscription_id_of parse metadata = Some x
                then MvRefuse SameTeam []
                else if mf_member f \<noteq> Some (''owner'', ''active'') \<or> \<not> mf_manages_billing f
                then MvRefuse PayerNotInTeam []
                else if mf_lock f = Some False then MvRefuse TeamPurchaseInProgress []
                else (case (mf_lock f, mf_stripe f) of
                        (Some True, Some FactsXMissing) \<Rightarrow> MvRefuse XMissing []
                      | (Some True, Some (FactsUnreadable what)) \<Rightarrow> MvRefuse StripeUnreadable what
                      | (Some True, Some (FactsRead s)) \<Rightarrow> decide_moved_reads datestr f s
                      | _ \<Rightarrow> MvReadStripe)))"

section \<open>What the decisions answer\<close>

lemma decide_moved_reads_release:
  "decide_moved_reads datestr f s = MvRelease \<longleftrightarrow>
     mr_x_status s \<notin> set moved_ended_statuses \<and> mr_x_status s \<in> set paid_subscription_statuses \<and>
     mr_x_org_id s = Some (mf_team_id f) \<and> \<not> mr_customer_deleted s \<and> mr_customer_org_id s = Some (mf_team_id f) \<and>
     (\<forall>r. mr_row s = Some r \<longrightarrow> row_subscription (mr_row s) = None \<or>
        row_subscription (mr_row s) = Some (mf_subscription_id f) \<or> mo_status r = ''canceled'') \<and>
     (\<forall>z\<in>set (mr_others s). \<not> blocking_plan (mf_subscription_id f) (mf_team_id f) z) \<and>
     (\<forall>r. mr_row s = Some r \<and> mo_subscription_id r = Some (mf_subscription_id f) \<longrightarrow>
        moved_release_search_lag_ms \<le> mf_now f - mo_updated_at r) \<and>
     row_names (if mf_synced_once f then mf_row_after_sync f else mr_row s) (mf_subscription_id f)"
proof -
  have find: "List.find (blocking_plan x t) zs = None \<longleftrightarrow> (\<forall>z\<in>set zs. \<not> blocking_plan x t z)" for x t zs
    by (induction zs) auto
  show ?thesis
    by (cases "List.find (blocking_plan (mf_subscription_id f) (mf_team_id f)) (mr_others s)"; cases "mr_row s")
      (use find [of "mf_subscription_id f" "mf_team_id f" "mr_others s"] in
        \<open>auto simp: decide_moved_reads_def Let_def row_names_def\<close>)
qed


section \<open>Properties\<close>

text \<open>
  The moved release is exactly its table of checks. It releases if and only if the hold is the
  link's refusal waiting for an operator, the team exists and is not the setup's own team, the payer is
  an active owner who manages its billing, the team's purchase lock is held and Stripe was read, the
  subscription is paid and names the team, its customer exists and names the team, the team's row names
  no other subscription that is not canceled, no other plan of the team is alive, a row that
  already names the subscription has done so for the search lag, and the row (read again when the
  subscription was synced) names the subscription. It asks for a sync only before one has run, and for
  the reads only while the lock or the reads are missing.
\<close>

theorem moved_release_checks:
  "(decide_moved_release parse datestr f = MvRelease \<longleftrightarrow>
      mf_state f = NeedsOperator \<and> mf_open_note f = Some link_refused_note \<and>
      (\<exists>i metadata. mf_team f = Some (i, metadata) \<and>
         new_org_subscription_id_of parse metadata \<noteq> Some (mf_subscription_id f)) \<and>
      mf_setup_org_id f \<noteq> Some (mf_team_id f) \<and>
      mf_member f = Some (''owner'', ''active'') \<and> mf_manages_billing f \<and> mf_lock f = Some True \<and>
      (\<exists>s. mf_stripe f = Some (FactsRead s) \<and>
         mr_x_status s \<in> {''active'', ''trialing'', ''past_due''} \<and> mr_x_org_id s = Some (mf_team_id f) \<and>
         \<not> mr_customer_deleted s \<and> mr_customer_org_id s = Some (mf_team_id f) \<and>
         (\<forall>r. mr_row s = Some r \<longrightarrow> row_subscription (mr_row s) = None \<or>
            row_subscription (mr_row s) = Some (mf_subscription_id f) \<or> mo_status r = ''canceled'') \<and>
         (\<forall>z\<in>set (mr_others s). \<not> blocking_plan (mf_subscription_id f) (mf_team_id f) z) \<and>
         (\<forall>r. mr_row s = Some r \<and> mo_subscription_id r = Some (mf_subscription_id f) \<longrightarrow>
            15 * 60000 \<le> mf_now f - mo_updated_at r) \<and>
         row_names (if mf_synced_once f then mf_row_after_sync f else mr_row s) (mf_subscription_id f))) \<and>
   (mf_synced_once f \<longrightarrow> decide_moved_release parse datestr f \<noteq> MvSyncFirst) \<and>
   (decide_moved_release parse datestr f = MvReadStripe \<longrightarrow> mf_lock f = None \<or> mf_stripe f = None)"
proof -
  have paid: "st \<notin> set moved_ended_statuses \<and> st \<in> set paid_subscription_statuses \<longleftrightarrow>
      st \<in> {''active'', ''trialing'', ''past_due''}" for st
    by (auto simp: moved_ended_statuses_def paid_subscription_statuses_def)
  have no_sync: "decide_moved_reads datestr f s \<noteq> MvReadStripe"
    "mf_synced_once f \<Longrightarrow> decide_moved_reads datestr f s \<noteq> MvSyncFirst" for s
    by (auto simp: decide_moved_reads_def Let_def split: option.splits)
  note reads = decide_moved_reads_release [of datestr f, unfolded moved_release_search_lag_ms_def conj_assoc [symmetric] paid]
  show ?thesis
  proof (cases "mf_team f")
    case None
    then show ?thesis by (simp add: decide_moved_release_def Let_def)
  next
    case (Some team)
    obtain i metadata where team: "mf_team f = Some (i, metadata)" using Some by (cases team) simp
    consider (read) s where "mf_lock f = Some True" "mf_stripe f = Some (FactsRead s)"
      | (missing) "mf_lock f = Some True" "mf_stripe f = Some FactsXMissing"
      | (unreadable) u where "mf_lock f = Some True" "mf_stripe f = Some (FactsUnreadable u)"
      | (unread) "mf_lock f = Some True" "mf_stripe f = None"
      | (busy) "mf_lock f = Some False" | (unlocked) "mf_lock f = None"
      by (metis (full_types) moved_stripe_facts.exhaust option.exhaust)
    then show ?thesis
    proof cases
      case read
      with team no_sync [of s] reads [of s] show ?thesis
        by (auto simp: decide_moved_release_def Let_def)
    qed (use team in \<open>auto simp: decide_moved_release_def Let_def\<close>)
  qed
qed

definition sample_moved :: moved_facts where
  "sample_moved = \<lparr>mf_state = NeedsOperator, mf_open_note = Some link_refused_note,
     mf_subscription_id = ''sub_1'', mf_team_id = ''t1'', mf_team = Some (''t1'', None),
     mf_setup_org_id = None, mf_member = Some (''owner'', ''active''), mf_manages_billing = True,
     mf_lock = Some True,
     mf_stripe = Some (FactsRead \<lparr>mr_x_status = ''active'', mr_x_org_id = Some ''t1'', mr_x_customer_id = ''cus_1'',
       mr_customer_deleted = False, mr_customer_org_id = Some ''t1'', mr_row = None, mr_others = []\<rparr>),
     mf_synced_once = True,
     mf_row_after_sync = Some \<lparr>mo_subscription_id = Some ''sub_1'', mo_status = ''active'',
       mo_customer_id = Some ''cus_1'', mo_updated_at = 5\<rparr>, mf_now = 6\<rparr>"

theorem moved_release_checks_witness:
  "decide_moved_release (\<lambda>_. None) (\<lambda>_. []) sample_moved = MvRelease"
proof -
  have "row_names (mf_row_after_sync sample_moved) ''sub_1''"
    by (simp add: sample_moved_def row_names_def)
  then show ?thesis
    unfolding moved_release_checks [THEN conjunct1]
    by (simp add: sample_moved_def new_org_subscription_id_of_def string_key_of_def)
qed

text \<open>
  The operator's release. Without a reason nothing is read or written. With one it reads the hold
  for the operator to see, and a read that fails does not stop the release: it makes exactly one
  store call, and no Stripe write, alert or lease call. When it reports a released row, that row was at
  the version the operator looked at, under the live lease of its own payer, and is now released as
  \<open>operator\<close>, by that operator, with that reason as its note.
\<close>

theorem operator_release_outcome:
  assumes "operator_release (machine_deps_for lease sd) h i w = (r, w')"
  shows "(js_blank (op_reason i) \<longrightarrow> r = Inl reason_required \<and> w' = w) \<and>
    (\<forall>x. r = Inr x \<and> ph_state h \<noteq> HoldReleased \<longrightarrow>
       (\<exists>w1. observe_hold (ext_reader (sd_reader sd)) h w = (or_observation x, w1)) \<and>
       (\<forall>row. or_released x = Some row \<longrightarrow>
          ph_state row = HoldReleased \<and> ph_release_reason row = Some ByOperator \<and>
          ph_released_by row = Some (op_operator_id i) \<and> ph_release_note row = Some (op_reason i) \<and>
          ph_id row = ph_id h \<and> ph_version row = ph_version h + 1 \<and> le_key lease = lease_key_sql row)) \<and>
    (\<forall>x. r = Inr x \<and> ph_state h = HoldReleased \<longrightarrow> or_released x = None) \<and>
    operator_release ((machine_deps_for lease sd)\<lparr>dep_writer := wr, dep_alert := al, dep_fence := fe\<rparr>) h i w = (r, w')"
proof -
  obtain ob w1 where ob: "observe_hold (ext_reader (sd_reader sd)) h w = (ob, w1)" by fastforce
  have rd: "dep_reader (machine_deps_for lease sd) = ext_reader (sd_reader sd)"
    by (simp add: machine_deps_for_def)
  have row: "ph_state row = HoldReleased \<and> ph_release_reason row = Some ByOperator \<and>
        ph_released_by row = Some (op_operator_id i) \<and> ph_release_note row = Some (op_reason i) \<and>
        ph_id row = ph_id h \<and> ph_version row = ph_version h + 1 \<and> le_key lease = lease_key_sql row"
    if "with_db (release_hold lease (ref_of h) (operator_release_input i)) w1 = (Inr (Some rel), w2)"
      "row = rh_hold rel" for rel row w2
  proof -
    from that(1) obtain db where "release_hold lease (ref_of h) (operator_release_input i) db = (Some rel, hw_db w2)"
      by (auto simp: with_db_def Let_def prod_eq_iff split: fate.splits)
    from release_hold_Some [OF this] that(2) obtain r0 where
      "state_write_fence lease (ref_of h) db r0" "row = apply_release (db_now db) (operator_release_input i) r0" by blast
    then show ?thesis
      by (simp add: apply_release_def operator_release_input_def state_write_fence_def lease_fence_def lease_key_sql_def)
  qed
  obtain rel w2 where rel: "with_db (release_hold lease (ref_of h) (operator_release_input i)) w1 = (rel, w2)" by fastforce
  have got: "ph_state row = HoldReleased \<and> ph_release_reason row = Some ByOperator \<and>
        ph_released_by row = Some (op_operator_id i) \<and> ph_release_note row = Some (op_reason i) \<and>
        ph_id row = ph_id h \<and> ph_version row = ph_version h + 1 \<and> le_key lease = lease_key_sql row"
    if "rel = Inr o1" "Some row = map_option rh_hold o1" for o1 row
  proof (cases o1)
    case None
    with that show ?thesis by simp
  next
    case (Some rl)
    show ?thesis by (rule row [of rl w2]) (use that rel Some in simp_all)
  qed
  note d = operator_release_def rd ob
  have res: "if js_blank (op_reason i) then r = Inl reason_required \<and> w' = w
     else if ph_state h = HoldReleased then \<exists>x. r = Inr x \<and> or_released x = None
     else (case rel of Inl e \<Rightarrow> r = Inl e | Inr o1 \<Rightarrow> \<exists>x. r = Inr x \<and> or_observation x = ob \<and>
             or_released x = map_option rh_hold o1)"
    using assms rel by (auto simp: d machine_deps_for_def split: sum.splits)
  have swap: "operator_release ((machine_deps_for lease sd)\<lparr>dep_writer := wr, dep_alert := al, dep_fence := fe\<rparr>) h i w
      = operator_release (machine_deps_for lease sd) h i w"
    by (simp add: operator_release_def case_prod_beta)
  show ?thesis
    using res swap assms ob got by (auto split: if_splits sum.splits)
qed

text \<open>
  An open surfaces a row only to its payer key. The flow goes on to void and cancel only with a row
  the open itself wrote, in the state it asked for; a hold that was already open refuses, and is
  handed out only when its payer key is the caller's own.
\<close>

theorem open_surfaces_own_payer:
  assumes "open_hold new_id lease i db = (Inr res, db')"
  shows "case decide_open res payer of
      Proceed h \<Rightarrow> h \<in> set (db_holds db') \<and> ph_state h = oi_state i \<and> ph_payer_key h = oi_payer_key i \<and>
        List.find (is_open_on (oi_subscription_id i)) (db_holds db) = None
    | RefuseHeld (Some r) \<Rightarrow> db' = db \<and> ph_payer_key r = payer \<and> ph_state r \<noteq> HoldReleased
    | _ \<Rightarrow> db' = db"
  using assms
  by (auto simp: open_hold_def decide_open_def Let_def hold_of_input_def is_open_on_def
      split: option.splits if_splits dest!: find_Some_mem)

definition sample_open :: open_input where
  "sample_open = \<lparr>oi_scope = None, oi_subscription_id = ''sub_1'', oi_customer_id = ''cus_1'',
     oi_payer_key = ''u1'', oi_invoice_id = ''in_1'', oi_payment_intent_id = None, oi_state = Closing,
     oi_next_check_at = 9, oi_opened_by = OpenedByPurchase, oi_opened_by_user_id = None, oi_open_note = None\<rparr>"

theorem open_surfaces_own_payer_witness:
  "open_hold ''h2'' sample_lease sample_open sample_db = (Inr (AlreadyOpen (Some sample_hold)), sample_db) \<and>
   ph_payer_key sample_hold = ''u1''"
proof -
  have run: "open_hold ''h2'' sample_lease sample_open sample_db =
      (Inr (AlreadyOpen (Some sample_hold)), sample_db)"
    by (simp add: open_hold_def sample_open_def sample_lease_def lease_key_for_def lease_live_def is_open_on_def)
  from open_surfaces_own_payer [OF run, of "''u1''"] run show ?thesis by (simp add: decide_open_def)
qed

text \<open>
  The payer key alone does not tell the scopes apart. A create-a-team open by payer \<open>u1\<close>, on
  a subscription that an open \<open>org_plan\<close> hold with the payer key \<open>u1\<close> already names, is answered
  with that hold's row, although the two scopes' payers are different and their leases never meet.
\<close>

theorem open_surfaces_other_scope:
  "let org = sample_hold\<lparr>ph_scope := OrgPlan\<rparr>; db = sample_db\<lparr>db_holds := [org]\<rparr>;
       res = fst (open_hold ''h2'' sample_lease sample_open db)
   in res = Inr (AlreadyOpen (Some org)) \<and>
      decide_open (AlreadyOpen (Some org)) (oi_payer_key sample_open) = RefuseHeld (Some org) \<and>
      ph_scope org = OrgPlan \<and> lease_key_sql org \<noteq> le_key sample_lease"
  by (simp add: Let_def open_hold_def sample_open_def sample_lease_def lease_key_for_def lease_live_def
      is_open_on_def decide_open_def lease_key_sql_def)


definition operator_call :: "(exn + operator_result) \<times> unit hold_world" where
  "operator_call = operator_release
     (machine_deps_for sample_lease (sample_sweep (sample_reader ''active'' ''paid''))) sample_hold
     \<lparr>op_operator_id = ''op1'', op_reason = ''by hand'', op_expect_org_row = None\<rparr> sample_world"

theorem operator_release_outcome_witness:
  "\<exists>x row. fst operator_call = Inr x \<and> or_released x = Some row \<and> ph_state row = HoldReleased \<and>
     ph_release_reason row = Some ByOperator \<and> ph_released_by row = Some ''op1''"
proof -
  have "case fst operator_call of Inl e \<Rightarrow> False | Inr x \<Rightarrow> \<not> Option.is_none (or_released x)" by code_simp
  then obtain x row where x: "fst operator_call = Inr x" "or_released x = Some row"
    by (auto simp: Option.is_none_def split: sum.splits)
  have run: "operator_release (machine_deps_for sample_lease (sample_sweep (sample_reader ''active'' ''paid''))) sample_hold
     \<lparr>op_operator_id = ''op1'', op_reason = ''by hand'', op_expect_org_row = None\<rparr> sample_world
     = (Inr x, snd operator_call)"
    using x(1) by (simp only: operator_call_def prod_eq_iff fst_conv snd_conv)
  from operator_release_outcome [OF run] x show ?thesis by auto
qed

end
