(* ===== verification/Hold_Sweep.thy ===== *)
theory Hold_Sweep
  imports Hold_Moved
begin

text \<open>
  The sweeper's own decisions (\<open>lib/billing/payment-holds/sweeper.ts\<close>): when a hold is due, when its
  age is alerted on, the relink retry of an adopted hold with the compare-and-set behind its alerts, and
  the coalescing of woken ticks. What one relink does to Stripe and the setup
  (\<open>relinkAdoptedSetup\<close>) is a parameter here, and so is the text of a date.
\<close>

section \<open>Due holds and age alerts\<close>

definition hour_ms :: int where "hour_ms = 60 * 60000"
definition day_ms :: int where "day_ms = 24 * hour_ms"

text \<open>\<open>dueNow\<close> of one row at the database's \<open>now()\<close>; a comparison with NULL is not true.\<close>

definition due_now :: "int \<Rightarrow> hold_row \<Rightarrow> bool" where
  "due_now now h \<longleftrightarrow> ph_state h \<noteq> HoldReleased \<and>
     ((case ph_next_check_at h of None \<Rightarrow> False | Some t \<Rightarrow> t \<le> now) \<or>
      (case ph_nudged_at h of None \<Rightarrow> False | Some t \<Rightarrow> t > ph_observed_at h))"

record age_bound =
  ab_since :: int
  ab_ms :: int
  ab_what :: string

definition age_bound_of :: "hold_row \<Rightarrow> age_bound option" where
  "age_bound_of h =
     (let entered = ph_state_since h;
          bound = (\<lambda>ms what. Some \<lparr>ab_since = entered, ab_ms = ms, ab_what = what\<rparr>)
      in case ph_state h of
           PaymentInFlight \<Rightarrow>
             if ph_last_pay h = Some ''capturable'' then bound (8 * day_ms) ''a payment authorised, not captured''
             else bound (14 * day_ms) ''a payment still processing''
         | InvoicePayable \<Rightarrow> bound day_ms ''an invoice not proven unpayable''
         | RefundDue \<Rightarrow> bound (2 * day_ms) ''a refund owed and not issued''
         | RefundPending \<Rightarrow> None
         | NeedsOperator \<Rightarrow> None
         | HoldReleased \<Rightarrow> None
         | _ \<Rightarrow>
             if ph_last_pay h = Some ''in_flight'' then bound (14 * day_ms) ''a payment still processing''
             else if ph_last_pay h = Some ''capturable'' then bound (8 * day_ms) ''a payment authorised, not captured''
             else if ph_last_pay h = Some ''succeeded'' then bound hour_ms ''a paid subscription not yet active''
             else bound day_ms ''a checkout not proven closed'')"

definition last_pay_text :: "hold_row \<Rightarrow> string" where
  "last_pay_text h = (case ph_last_pay h of None \<Rightarrow> ''none'' | Some p \<Rightarrow> p)"

text \<open>An alert that is due from \<open>due\<close> on, unless one was raised at or past it.\<close>

definition alert_due :: "int option \<Rightarrow> int \<Rightarrow> int \<Rightarrow> bool" where
  "alert_due prior now due \<longleftrightarrow> now \<ge> due \<and> (case prior of None \<Rightarrow> True | Some l \<Rightarrow> l < due)"

definition refund_pending_alert :: "(int \<Rightarrow> string) \<Rightarrow> hold_row \<Rightarrow> int \<Rightarrow> string option" where
  "refund_pending_alert datestr h now =
     (let prior = ph_age_alerted_at h in
      case (case ph_refund_action_since h of
              None \<Rightarrow> None
            | Some since \<Rightarrow>
                if alert_due prior now (max since (ph_state_since h) + day_ms)
                then Some (''payment hold '' @ ph_id h @ '' has a refund waiting on requires_action since ''
                           @ datestr since)
                else None) of
        Some msg \<Rightarrow> Some msg
      | None \<Rightarrow>
          if alert_due prior now (ph_state_since h + 14 * day_ms)
          then Some (''payment hold '' @ ph_id h @ '' has been refund_pending since ''
             @ datestr (ph_state_since h) @ '' (a refund not yet settled; last observation ''
             @ last_pay_text h @ '')'')
          else None)"

definition age_alerted_this_entry :: "hold_row \<Rightarrow> bool" where
  "age_alerted_this_entry h = (case ph_age_alerted_at h of None \<Rightarrow> False | Some t \<Rightarrow> t \<ge> ph_state_since h)"

text \<open>\<open>alertedThisEntry\<close>: the hold's own alert reached a channel in its current state entry.\<close>

definition alerted_this_entry :: "hold_row \<Rightarrow> bool" where
  "alerted_this_entry h = (case ph_alerted_at h of None \<Rightarrow> False | Some t \<Rightarrow> t \<ge> ph_state_since h)"

definition age_alert_for :: "(int \<Rightarrow> string) \<Rightarrow> hold_row \<Rightarrow> int \<Rightarrow> string option" where
  "age_alert_for datestr h now =
     (if ph_state h = HoldReleased then None
      else if ph_state h = NeedsOperator then
        (if alerted_this_entry h then None
         else let since = (if age_alerted_this_entry h then the (ph_age_alerted_at h) else ph_state_since h);
                  ms = (if age_alerted_this_entry h then 7 * day_ms else day_ms)
              in if now - since \<ge> ms
                 then Some (''payment hold '' @ ph_id h @ '' has waited for an operator since ''
                   @ datestr (ph_state_since h) @ '', and its alert did not reach a channel'')
                 else None)
      else if ph_state h = RefundPending then refund_pending_alert datestr h now
      else if age_alerted_this_entry h then None
      else (case age_bound_of h of
              None \<Rightarrow> None
            | Some b \<Rightarrow>
                if now - ab_since b < ab_ms b then None
                else Some (''payment hold '' @ ph_id h @ '' has been '' @ state_str (ph_state h) @ '' since ''
                  @ datestr (ph_state_since h) @ '' ('' @ ab_what b @ ''; last observation ''
                  @ last_pay_text h @ '')'')))"

text \<open>\<open>raiseAgeAlert\<close>: the stamp first; the alert only when the stamp returned the row.\<close>

definition age_patch :: "int \<Rightarrow> hold_patch" where
  "age_patch now = empty_patch\<lparr>hp_age_alerted_at := Some (Some now)\<rparr>"

definition raise_age_alert :: "(int \<Rightarrow> string) \<Rightarrow> 'w machine_deps \<Rightarrow> hold_row \<Rightarrow> ('w, exn, bool) eff" where
  "raise_age_alert datestr d h w =
     (let now = dep_now d w in
      case age_alert_for datestr h now of
        None \<Rightarrow> (Inr False, w)
      | Some detail \<Rightarrow>
          ebind (dep_write d (ref_of h) (age_patch now)) (\<lambda>stamped.
            case stamped of None \<Rightarrow> ereturn False
            | Some _ \<Rightarrow> ebind (dep_alert d (alert_of h detail (ph_payment_intent_id h))) (\<lambda>_. ereturn True)) w)"

section \<open>The relink of an adopted hold\<close>

datatype relink_result =
    RlLinked | RlRefused string "hold_row option" | RlNoSetup | RlNoOrg | RlNotLinked string

text \<open>What \<open>relinkAdoptedSetup\<close> throws: \<open>PurchaseLeaseLostError\<close>, or anything else.\<close>

datatype relink_throw = LostLease exn | OtherFailure exn

text \<open>
  \<open>rk_relink\<close> is \<open>relinkAdoptedSetup\<close> given an \<open>alert\<close> that only collects: it returns the alerts it
  would have raised. \<open>rk_renew\<close> and \<open>rk_write\<close> are bound to the caller's lease.
\<close>

record 'w relink_deps =
  rk_relink :: "hold_row \<Rightarrow> ('w, relink_throw, relink_result \<times> hold_alert list) eff"
  rk_renew :: "('w, exn, bool) eff"
  rk_write :: "hold_ref \<Rightarrow> relink_patch \<Rightarrow> ('w, exn, hold_row option) eff"
  rk_alert :: "hold_alert \<Rightarrow> ('w, exn, bool) eff"
  rk_now :: "'w \<Rightarrow> int"
  rk_lease_key :: string

definition is_adopted :: "hold_row \<Rightarrow> bool" where
  "is_adopted h \<longleftrightarrow> ph_state h = HoldReleased \<and> ph_release_reason h = Some Adopted"

definition relink_retry_delays_ms :: "int list" where
  "relink_retry_delays_ms = [5 * minute_ms, 15 * minute_ms, hour_ms, 4 * hour_ms, 12 * hour_ms]"

definition relink_max_attempts :: nat where
  "relink_max_attempts = length relink_retry_delays_ms + 1"

definition relink_undelivered_alert_retry_ms :: int where
  "relink_undelivered_alert_retry_ms = day_ms"

text \<open>\<open>Some\<close> is \<open>retry\<close> with its delay, \<open>None\<close> is \<open>give_up\<close>.\<close>

definition relink_retry_after :: "nat \<Rightarrow> int option" where
  "relink_retry_after attempts =
     (if attempts \<ge> relink_max_attempts then None
      else let i = max attempts 1 - 1
           in if i < length relink_retry_delays_ms then Some (relink_retry_delays_ms ! i) else None)"

text \<open>
  \<open>recordRelink\<close>: a lost lease is thrown; a renewal or a write that rejects reads as a write that
  matched nothing.
\<close>

definition record_relink ::
  "'w relink_deps \<Rightarrow> hold_row \<Rightarrow> relink_patch \<Rightarrow> ('w, relink_throw, hold_row option) eff" where
  "record_relink k h p w =
     (case rk_renew k w of
        (Inl _, w1) \<Rightarrow> (Inr None, w1)
      | (Inr held, w1) \<Rightarrow>
          if \<not> held then (Inl (LostLease (lease_lost_exn (rk_lease_key k))), w1)
          else (case rk_write k (ref_of h) p w1 of
                  (Inl _, w2) \<Rightarrow> (Inr None, w2)
                | (Inr r, w2) \<Rightarrow> (Inr r, w2)))"

text \<open>The alerts of one decision, in order; a rejection of the channel ends them.\<close>

fun raise_alerts :: "'w relink_deps \<Rightarrow> hold_alert list \<Rightarrow> bool \<Rightarrow> ('w, relink_throw, bool) eff" where
  "raise_alerts k [] delivered w = (Inr delivered, w)"
| "raise_alerts k (al # als) delivered w =
     (case rk_alert k al w of
        (Inl e, w1) \<Rightarrow> (Inl (OtherFailure e), w1)
      | (Inr ok, w1) \<Rightarrow> raise_alerts k als (delivered \<or> ok) w1)"

definition decide_with_alerts ::
  "'w relink_deps \<Rightarrow> hold_row \<Rightarrow> nat option \<Rightarrow> string \<Rightarrow> hold_alert list \<Rightarrow> ('w, relink_throw, unit) eff" where
  "decide_with_alerts k h attempts last_error alerts w =
     (let now = rk_now k w;
          claim = \<lparr>rp_attempts = attempts, rp_last_error = Some (Some last_error),
                   rp_next_check_at = Some (now + relink_undelivered_alert_retry_ms), rp_alerted_at = None\<rparr>;
          settle = \<lparr>rp_attempts = None, rp_last_error = None, rp_next_check_at = None, rp_alerted_at = Some now\<rparr>
      in ebind (record_relink k h claim) (\<lambda>claimed.
           case claimed of
             None \<Rightarrow> ereturn ()
           | Some row \<Rightarrow> ebind (raise_alerts k alerts False) (\<lambda>delivered.
               if delivered then ebind (record_relink k row settle) (\<lambda>_. ereturn ()) else ereturn ())) w)"

definition give_up_alert :: "hold_row \<Rightarrow> nat \<Rightarrow> string \<Rightarrow> hold_alert" where
  "give_up_alert h attempts message = alert_of h
     (''its payment hold '' @ ph_id h @ '' was released as adopted, and re-linking its team setup failed ''
        @ nat_str attempts @ '' times (the last: '' @ message
        @ ''). The setup stays open; link it to the team, or refund it, by hand.'') None"

definition record_failed_relink :: "'w relink_deps \<Rightarrow> hold_row \<Rightarrow> string \<Rightarrow> ('w, relink_throw, unit) eff" where
  "record_failed_relink k h message w =
     (let attempts = ph_attempts h + 1 in
      case relink_retry_after attempts of
        Some delay \<Rightarrow>
          ebind (record_relink k h \<lparr>rp_attempts = Some attempts, rp_last_error = Some (Some message),
             rp_next_check_at = Some (rk_now k w + delay), rp_alerted_at = None\<rparr>) (\<lambda>_. ereturn ()) w
      | None \<Rightarrow> decide_with_alerts k h (Some attempts) message [give_up_alert h attempts message] w)"

definition settled_patch :: "relink_result \<Rightarrow> relink_patch" where
  "settled_patch r = \<lparr>rp_attempts = None,
     rp_last_error = (case r of RlNotLinked why \<Rightarrow> Some (Some why) | _ \<Rightarrow> None),
     rp_next_check_at = None, rp_alerted_at = None\<rparr>"

definition relink_adopted_hold ::
  "'w relink_deps \<Rightarrow> hold_row \<Rightarrow> ('w, relink_throw, relink_result option) eff" where
  "relink_adopted_hold k h w =
     (case rk_relink k h w of
        (Inl (LostLease e), w1) \<Rightarrow> (Inl (LostLease e), w1)
      | (Inl (OtherFailure e), w1) \<Rightarrow>
          ebind (record_failed_relink k h (exn_msg e)) (\<lambda>_. ereturn None) w1
      | (Inr (r, held), w1) \<Rightarrow>
          (case r of
             RlNotLinked why \<Rightarrow>
               if held \<noteq> [] then ebind (decide_with_alerts k h None why held) (\<lambda>_. ereturn (Some r)) w1
               else ebind (record_relink k h (settled_patch r)) (\<lambda>_. ereturn (Some r)) w1
           | _ \<Rightarrow> ebind (record_relink k h (settled_patch r)) (\<lambda>_. ereturn (Some r)) w1))"

section \<open>Ticks\<close>

text \<open>\<open>runState()\<close>: a timer that is set is \<open>wake\<close>.\<close>

record tick_state =
  tk_running :: bool
  tk_again :: bool
  tk_wake :: bool

text \<open>
  The atomic pieces of \<open>tick\<close> and \<open>wakePaymentHoldSweeper\<close>, between two awaits. \<open>tick\<close> returns whether
  it starts a run; the run's end is the code after \<open>superviseLoop\<close>, which never rejects.
\<close>

definition tick_begin :: "bool \<Rightarrow> tick_state \<Rightarrow> bool \<times> tick_state" where
  "tick_begin from_wake t =
     (if tk_running t then (False, if from_wake then t\<lparr>tk_again := True\<rparr> else t)
      else (True, t\<lparr>tk_running := True\<rparr>))"

definition tick_end :: "tick_state \<Rightarrow> bool \<times> tick_state" where
  "tick_end t =
     (let t1 = t\<lparr>tk_running := False\<rparr>
      in if tk_again t1 then tick_begin False (t1\<lparr>tk_again := False\<rparr>) else (False, t1))"

definition wake_sweeper :: "tick_state \<Rightarrow> tick_state" where
  "wake_sweeper t = (if tk_wake t then t else t\<lparr>tk_wake := True\<rparr>)"

definition wake_fires :: "tick_state \<Rightarrow> bool \<times> tick_state" where
  "wake_fires t = tick_begin True (t\<lparr>tk_wake := False\<rparr>)"


section \<open>A relink decision alerts at most once\<close>

text \<open>
  What the relink needs of the store: once a hold's version has passed the one a caller holds, it stays
  passed, and no write of that caller lands.
\<close>

locale relink_contract =
  fixes k :: "'w relink_deps" and passed :: "hold_ref \<Rightarrow> 'w \<Rightarrow> bool"
  assumes relink_passed: "rk_relink k h w = (r1, w') \<Longrightarrow> passed ref w \<Longrightarrow> passed ref w'"
    and renew_passed: "rk_renew k w = (r2, w') \<Longrightarrow> passed ref w \<Longrightarrow> passed ref w'"
    and write_passed: "rk_write k ref p w = (r3, w') \<Longrightarrow> passed ref w \<Longrightarrow> r3 = Inr None \<or> (\<exists>e. r3 = Inl e)"

context relink_contract begin

lemma record_relink_misses:
  assumes "passed (ref_of h) w"
  shows "fst (record_relink k h p w) = Inr None \<or> (\<exists>e. fst (record_relink k h p w) = Inl e)"
proof -
  obtain b w1 where b: "rk_renew k w = (b, w1)" by fastforce
  obtain r w2 where r: "rk_write k (ref_of h) p w1 = (r, w2)" by fastforce
  from write_passed [OF r renew_passed [OF b assms]] b r show ?thesis
    by (auto simp: record_relink_def split: sum.splits)
qed

lemma record_relink_alert [simp]: "record_relink (k\<lparr>rk_alert := f\<rparr>) h p w = record_relink k h p w"
  by (auto simp: record_relink_def split: prod.split sum.split)

lemma decide_with_alerts_silent:
  assumes "passed (ref_of h) w"
  shows "decide_with_alerts (k\<lparr>rk_alert := f\<rparr>) h n e als w = decide_with_alerts k h n e als w"
proof -
  let ?p = "\<lparr>rp_attempts = n, rp_last_error = Some (Some e),
             rp_next_check_at = Some (rk_now k w + relink_undelivered_alert_retry_ms), rp_alerted_at = None\<rparr>"
  obtain r w1 where r: "record_relink k h ?p w = (r, w1)" by fastforce
  with record_relink_misses [OF assms, of ?p] have "r = Inr None \<or> (\<exists>x. r = Inl x)" by simp
  with r show ?thesis by (auto simp: decide_with_alerts_def Let_def ebind_def)
qed

lemma relink_silent:
  assumes "passed (ref_of h) w"
  shows "relink_adopted_hold (k\<lparr>rk_alert := f\<rparr>) h w = relink_adopted_hold k h w"
proof -
  obtain r w1 where r: "rk_relink k h w = (r, w1)" by fastforce
  from relink_passed [OF r assms] have p: "passed (ref_of h) w1" .
  have failed: "record_failed_relink (k\<lparr>rk_alert := f\<rparr>) h m w1 = record_failed_relink k h m w1" for m
    using decide_with_alerts_silent [OF p] by (simp add: record_failed_relink_def Let_def ebind_def split: option.split)
  from r show ?thesis
    by (auto simp: relink_adopted_hold_def ebind_def failed decide_with_alerts_silent [OF p]
        split: sum.split relink_throw.split relink_result.split)
qed

end

text \<open>The relink's dependencies on the model's store, under a lease.\<close>

definition relink_deps_for ::
  "purchase_lease \<Rightarrow> 'x sweep_deps \<Rightarrow> (hold_row \<Rightarrow> ('x hold_world, relink_throw, relink_result \<times> hold_alert list) eff)
    \<Rightarrow> 'x hold_world relink_deps" where
  "relink_deps_for lease sd relink =
     \<lparr>rk_relink = relink, rk_renew = with_db (renew_lease lease 0),
      rk_write = (\<lambda>ref p. with_db (write_adopted_relink_state lease ref p)),
      rk_alert = (\<lambda>al. on_ext (sd_alert sd al)), rk_now = (\<lambda>w. sd_now sd (hw_ext w)), rk_lease_key = le_key lease\<rparr>"

definition version_passed :: "hold_ref \<Rightarrow> 'x hold_world \<Rightarrow> bool" where
  "version_passed ref w \<longleftrightarrow> world_ok w \<and>
     (\<exists>r\<in>set (db_holds (hw_db w)). ph_id r = hr_id ref \<and> hr_version ref < ph_version r)"

text \<open>A relink that keeps the store's rules: it may run any of its operations.\<close>

definition relink_keeps ::
  "(hold_row \<Rightarrow> ('x hold_world, relink_throw, relink_result \<times> hold_alert list) eff) \<Rightarrow> bool" where
  "relink_keeps relink \<longleftrightarrow>
     (\<forall>h w r w'. relink h w = (r, w') \<longrightarrow> world_ok w \<longrightarrow> world_ok w' \<and> db_le (hw_db w) (hw_db w'))"

lemma version_passed_mono:
  "version_passed ref w \<Longrightarrow> world_ok w' \<Longrightarrow> db_le (hw_db w) (hw_db w') \<Longrightarrow> version_passed ref w'"
  unfolding version_passed_def db_le_def row_le_def identity_cols_def by fastforce

lemma with_db_le:
  assumes "with_db f w = (r, w')" "\<And>db. snd (f db) = run_op op db"
  shows "db_le (hw_db w) (hw_db w')"
proof -
  have "hw_db w' = run_ops (fst (next_turn w)) (hw_db w) \<or>
        hw_db w' = run_op op (run_ops (fst (next_turn w)) (hw_db w))"
    using assms by (auto simp: with_db_def Let_def split: fate.splits)
  then show ?thesis using run_ops_db_le run_op_db_le db_le_trans by metis
qed

interpretation leased_relink: relink_contract "relink_deps_for lease sd relink"
  "\<lambda>ref w. relink_keeps relink \<and> version_passed ref w" for lease sd relink
proof
  let ?k = "relink_deps_for lease sd relink"
  show "relink_keeps relink \<and> version_passed ref w'"
    if "rk_relink ?k h w = (r, w')" "relink_keeps relink \<and> version_passed ref w" for h w r w' ref
    using that version_passed_mono [of ref w w']
    by (auto simp: relink_deps_for_def relink_keeps_def version_passed_def)
  show "relink_keeps relink \<and> version_passed ref w'"
    if r: "rk_renew ?k w = (r, w')" and p: "relink_keeps relink \<and> version_passed ref w" for w r w' ref
  proof -
    from r have w: "with_db (renew_lease lease 0) w = (r, w')" by (simp add: relink_deps_for_def)
    have op: "snd (renew_lease lease 0 db) = run_op (OpRenew lease) db" for db by (simp add: fence_for_def)
    have "world_ok w'" using with_db_keeps(1) [OF w op] p by (simp add: version_passed_def)
    with version_passed_mono [OF _ this with_db_le [OF w op]] p show ?thesis by simp
  qed
  show "r = Inr None \<or> (\<exists>e. r = Inl e)"
    if w: "rk_write ?k ref p w = (r, w')" and p: "relink_keeps relink \<and> version_passed ref w" for ref p w r w'
  proof (cases r)
    case (Inr row)
    let ?db = "run_ops (fst (next_turn w)) (hw_db w)"
    from p obtain r0 where ok: "world_ok w" and r0: "r0 \<in> set (db_holds (hw_db w))" "ph_id r0 = hr_id ref"
      "hr_version ref < ph_version r0" by (auto simp: version_passed_def)
    from run_ops_db_le [of "hw_db w" "fst (next_turn w)"] r0(1) obtain r1 where
      r1: "r1 \<in> set (db_holds ?db)" "row_le r0 r1" unfolding db_le_def by blast
    have t: "table_ok (db_holds ?db)"
      using ok next_turn_ok [OF ok] by (intro run_ops_table_ok) (auto simp: world_ok_def)
    have none: "\<not> state_write_fence lease ref ?db r2" if "r2 \<in> set (db_holds ?db)" for r2
      by (rule passed_version_never_fences [OF t r1(1)])
        (use r0 r1(2) that in \<open>auto simp: row_le_def identity_cols_def\<close>)
    from w Inr have "row = fst (write_adopted_relink_state lease ref p ?db)"
      by (auto simp: relink_deps_for_def with_db_def Let_def split: fate.splits)
    also have "\<dots> = None"
      using none by (auto simp: write_adopted_relink_state_def case_prod_beta first_row_def filter_empty_conv split: list.split)
    finally show ?thesis using Inr by simp
  qed simp
qed


section \<open>Runs of ticks\<close>

text \<open>
  A run of the process: callers wake the sweeper, the timer fires, the interval ticks, a running sweep
  ends. \<open>tr_pending\<close> is not in the source: a wake has been asked for since the last sweep started.
\<close>

record tick_run =
  tr_state :: tick_state
  tr_pending :: bool
  tr_started :: nat

datatype tick_event = TickWake | TickFire | TickInterval | TickFinish

definition started :: "bool \<times> tick_state \<Rightarrow> tick_run \<Rightarrow> tick_run" where
  "started b r = r\<lparr>tr_state := snd b, tr_pending := (tr_pending r \<and> \<not> fst b),
     tr_started := tr_started r + (if fst b then 1 else 0)\<rparr>"

definition idle_run :: tick_run where
  "idle_run = \<lparr>tr_state = \<lparr>tk_running = False, tk_again = False, tk_wake = False\<rparr>,
     tr_pending = False, tr_started = 0\<rparr>"

inductive tick_step :: "tick_run \<Rightarrow> tick_event \<Rightarrow> tick_run \<Rightarrow> bool" where
  wake: "tick_step r TickWake (r\<lparr>tr_state := wake_sweeper (tr_state r), tr_pending := True\<rparr>)"
| fire: "tk_wake (tr_state r) \<Longrightarrow> tick_step r TickFire (started (wake_fires (tr_state r)) r)"
| interval: "tick_step r TickInterval (started (tick_begin False (tr_state r)) r)"
| finish: "tk_running (tr_state r) \<Longrightarrow> tick_step r TickFinish (started (tick_end (tr_state r)) r)"

inductive tick_reach :: "tick_run \<Rightarrow> bool" where
  start: "tick_reach idle_run"
| step: "tick_reach r \<Longrightarrow> tick_step r e r' \<Longrightarrow> tick_reach r'"

inductive_cases tick_stepE: "tick_step r e r'"

lemmas tick_defs = started_def wake_fires_def tick_begin_def tick_end_def wake_sweeper_def Let_def

lemma tick_invariant:
  assumes "tick_reach r"
  shows "(tk_again (tr_state r) \<longrightarrow> tk_running (tr_state r)) \<and>
    (tr_pending r \<longrightarrow> tk_wake (tr_state r) \<or> tk_running (tr_state r) \<and> tk_again (tr_state r))"
  using assms
proof induction
  case start
  then show ?case by (simp add: idle_run_def)
next
  case (step r e r')
  from step.hyps(2) step.IH show ?case
    by (elim tick_stepE) (auto simp: tick_defs split: if_splits)
qed

text \<open>An event that can happen, and after which \<open>P\<close> holds however it happens.\<close>

definition surely :: "tick_run \<Rightarrow> tick_event \<Rightarrow> (tick_run \<Rightarrow> tick_run \<Rightarrow> bool) \<Rightarrow> bool" where
  "surely r e P \<longleftrightarrow> (\<exists>r'. tick_step r e r') \<and> (\<forall>r'. tick_step r e r' \<longrightarrow> P r r')"

definition starts_sweep :: "tick_run \<Rightarrow> tick_run \<Rightarrow> bool" where
  "starts_sweep r r' \<longleftrightarrow> tr_started r' = tr_started r + 1 \<and> \<not> tr_pending r' \<and> tk_running (tr_state r')"

lemma tick_enabled:
  "(\<exists>r'. tick_step r TickFire r') \<longleftrightarrow> tk_wake (tr_state r)"
  "(\<exists>r'. tick_step r TickFinish r') \<longleftrightarrow> tk_running (tr_state r)"
  by (auto elim: tick_stepE intro: tick_step.fire tick_step.finish)

section \<open>Properties\<close>

text \<open>
  Every open hold is alerted on in finite time, and not over and over. A hold that has stayed in
  one open state for fourteen days without an age alert raises one (unless an operator's entry alert
  already reached a channel). Once the alert is stamped, the same entry alerts again only in two cases: a hold
  waiting for an operator, seven days later; and a pending refund whose second mark, fourteen days in
  or a day after a refund asked for action, had not been reached.
\<close>

theorem age_alert_bounded:
  "(ph_state h \<noteq> HoldReleased \<and> ph_age_alerted_at h = None \<and> 14 * day_ms \<le> now - ph_state_since h \<and>
     (ph_state h = NeedsOperator \<longrightarrow> \<not> alerted_this_entry h) \<longrightarrow> age_alert_for datestr h now \<noteq> None) \<and>
   (age_alert_for datestr h now \<noteq> None \<and> now \<le> later \<and>
     age_alert_for datestr (apply_patch t (age_patch now) h) later \<noteq> None \<longrightarrow>
       (ph_state h = NeedsOperator \<and> now + 7 * day_ms \<le> later) \<or>
       (ph_state h = RefundPending \<and>
          (now < ph_state_since h + 14 * day_ms \<or>
           (\<exists>since. ph_refund_action_since h = Some since \<and> now < max since (ph_state_since h) + day_ms))))"
proof -
  have units: "hour_ms = 3600000" "day_ms = 86400000" by (simp_all add: hour_ms_def day_ms_def)
  have bound: "\<exists>b. age_bound_of h = Some b \<and> ab_since b = ph_state_since h \<and> 0 < ab_ms b \<and> ab_ms b \<le> 14 * day_ms"
    if "ph_state h \<notin> {RefundPending, NeedsOperator, HoldReleased}" for h
    using that by (cases "ph_state h") (auto simp: age_bound_of_def units Let_def)
  have first: "age_alert_for datestr h now \<noteq> None"
    if a: "ph_state h \<noteq> HoldReleased" "ph_age_alerted_at h = None" "14 * day_ms \<le> now - ph_state_since h"
      "ph_state h = NeedsOperator \<longrightarrow> \<not> alerted_this_entry h"
  proof (cases "ph_state h \<in> {RefundPending, NeedsOperator}")
    case True
    with a show ?thesis
      by (auto simp: age_alert_for_def refund_pending_alert_def alert_due_def age_alerted_this_entry_def
          Let_def units split: option.split)
  next
    case False
    with a bound [of h] show ?thesis
      by (auto simp: age_alert_for_def age_alerted_this_entry_def units)
  qed
  let ?h = "apply_patch t (age_patch now) h"
  have stamped: "ph_state ?h = ph_state h" "ph_state_since ?h = ph_state_since h" "ph_last_pay ?h = ph_last_pay h"
    "ph_age_alerted_at ?h = Some now" "ph_alerted_at ?h = ph_alerted_at h" "ph_id ?h = ph_id h"
    "ph_refund_action_since ?h = ph_refund_action_since h"
    by (simp_all add: apply_patch_def age_patch_def empty_patch_def set_if_def)
  have again: "(ph_state h = NeedsOperator \<and> now + 7 * day_ms \<le> later) \<or>
       (ph_state h = RefundPending \<and>
          (now < ph_state_since h + 14 * day_ms \<or>
           (\<exists>since. ph_refund_action_since h = Some since \<and> now < max since (ph_state_since h) + day_ms)))"
    if a: "age_alert_for datestr h now \<noteq> None" "now \<le> later" "age_alert_for datestr ?h later \<noteq> None"
  proof -
    consider "ph_state h = NeedsOperator" | "ph_state h = RefundPending" | "ph_state h = HoldReleased"
      | "ph_state h \<notin> {RefundPending, NeedsOperator, HoldReleased}" by auto
    then show ?thesis
    proof cases
      case 1
      have "ph_state_since h \<le> now"
        using a(1) 1 by (auto simp: age_alert_for_def age_alerted_this_entry_def Let_def units
            split: if_splits option.splits)
      with a(3) 1 show ?thesis
        by (auto simp: age_alert_for_def age_alerted_this_entry_def stamped Let_def split: if_splits)
    next
      case 2
      with a(3) show ?thesis
        by (auto simp: age_alert_for_def refund_pending_alert_def alert_due_def stamped Let_def
            split: if_splits option.splits)
    next
      case 3
      with a(1) show ?thesis by (simp add: age_alert_for_def)
    next
      case 4
      with a(1) bound [OF 4] have "ph_state_since h \<le> now"
        by (auto simp: age_alert_for_def split: if_splits)
      with a(3) 4 show ?thesis
        by (simp add: age_alert_for_def age_alerted_this_entry_def stamped)
    qed
  qed
  show ?thesis using first again by blast
qed

theorem age_alert_bounded_witness:
  "age_alert_for (\<lambda>_. []) sample_hold (14 * 86400000) \<noteq> None"
proof -
  have "ph_state sample_hold \<noteq> HoldReleased \<and> ph_age_alerted_at sample_hold = None \<and>
    14 * day_ms \<le> 14 * 86400000 - ph_state_since sample_hold \<and>
    (ph_state sample_hold = NeedsOperator \<longrightarrow> \<not> alerted_this_entry sample_hold)"
    by (simp add: day_ms_def hour_ms_def sample_hold_def)
  with age_alert_bounded [of sample_hold "14 * 86400000" "\<lambda>_. []" "14 * 86400000" 0] show ?thesis by blast
qed

text \<open>
  A relink decision is one caller's. Once the version of the hold a caller relinks has passed,
  by any store operation of anyone, that caller's whole relink runs the same whatever the alert
  channel does, because it never calls it: of the callers prepared on one version, only the one
  whose claim landed can alert the operator.
\<close>

theorem relink_alert_needs_claim:
  assumes "table_ok (db_holds (hw_db w))" "\<forall>t\<in>set (hw_sched w). \<forall>op\<in>set (fst t). well_typed_op op"
    and "r \<in> set (db_holds (hw_db w))" "ph_id r = ph_id h" "ph_version h < ph_version r"
    and "relink_keeps relink"
  shows "relink_adopted_hold ((relink_deps_for lease sd relink)\<lparr>rk_alert := channel\<rparr>) h w =
         relink_adopted_hold (relink_deps_for lease sd relink) h w"
proof (rule leased_relink.relink_silent)
  show "relink_keeps relink \<and> version_passed (ref_of h) w"
    using assms by (auto simp: version_passed_def world_ok_def)
qed

theorem relink_alert_needs_claim_witness:
  "let relink = (\<lambda>_ w. (Inr (RlNotLinked ''why'', [alert_of sample_hold ''detail'' None]), w));
       w = \<lparr>hw_db = sample_db\<lparr>db_holds := [sample_hold\<lparr>ph_version := 1\<rparr>]\<rparr>, hw_sched = [], hw_ext = ()\<rparr>;
       k = relink_deps_for sample_lease (sample_sweep (sample_reader ''active'' ''paid'')) relink
   in relink_adopted_hold (k\<lparr>rk_alert := \<lambda>_ w. (Inl \<lparr>exn_code = None, exn_msg = []\<rparr>, w)\<rparr>) sample_hold w =
      relink_adopted_hold k sample_hold w"
proof -
  let ?relink = "\<lambda>_ w. (Inr (RlNotLinked ''why'', [alert_of sample_hold ''detail'' None]), w)"
  let ?w = "\<lparr>hw_db = sample_db\<lparr>db_holds := [sample_hold\<lparr>ph_version := 1\<rparr>]\<rparr>, hw_sched = [], hw_ext = ()\<rparr> :: unit hold_world"
  have "row_checks (sample_hold\<lparr>ph_version := 1\<rparr>)" by (simp add: row_checks_def)
  then have "table_ok (db_holds (hw_db ?w))"
    by (simp add: table_ok_def open_subscriptions_def)
  moreover have "sample_hold\<lparr>ph_version := 1\<rparr> \<in> set (db_holds (hw_db ?w))" by simp
  moreover have "relink_keeps ?relink" by (auto simp: relink_keeps_def)
  ultimately show ?thesis
    unfolding Let_def by (intro relink_alert_needs_claim [where r = "sample_hold\<lparr>ph_version := 1\<rparr>"]) simp_all
qed

text \<open>
  C13. A wake is never lost. In every reachable state of the ticks, a wake that no sweep has started
  after is still remembered, by the timer or by the running sweep's request for one more, so it is never
  dropped while the sweeper is idle with no timer set. And what remembers it serves it: with nothing
  running the timer can fire, and its firing starts a sweep; a running sweep asked for one more can end,
  and its end starts it; a running sweep not yet asked is asked by the timer's firing, and its end then
  starts one. The interval's own ticks are not counted on. One more is asked for only while a sweep runs.
\<close>

theorem wake_never_lost:
  assumes "tick_reach r"
  shows "(tk_again (tr_state r) \<longrightarrow> tk_running (tr_state r)) \<and>
    (tr_pending r \<longrightarrow>
       (if \<not> tk_running (tr_state r) then tk_wake (tr_state r) \<and> surely r TickFire starts_sweep
        else if tk_again (tr_state r) then surely r TickFinish starts_sweep
        else tk_wake (tr_state r) \<and> surely r TickFire (\<lambda>_ r'. tr_pending r' \<and> surely r' TickFinish starts_sweep)))"
proof -
  note inv = tick_invariant [OF assms]
  have "surely r TickFire starts_sweep" if "\<not> tk_running (tr_state r)" "tk_wake (tr_state r)"
    using that by (auto simp: tick_enabled tick_defs starts_sweep_def surely_def elim: tick_stepE)
  moreover have again: "surely r TickFinish starts_sweep" if "tk_running (tr_state r)" "tk_again (tr_state r)" for r
    using that by (auto simp: tick_enabled tick_defs starts_sweep_def surely_def elim: tick_stepE)
  moreover have "surely r TickFire (\<lambda>_ r'. tr_pending r' \<and> surely r' TickFinish starts_sweep)"
    if "tk_running (tr_state r)" "tk_wake (tr_state r)" "tr_pending r"
  proof -
    have asked: "tr_pending r' \<and> tk_running (tr_state r') \<and> tk_again (tr_state r')" if "tick_step r TickFire r'" for r'
      using that \<open>tk_running (tr_state r)\<close> \<open>tr_pending r\<close> by (elim tick_stepE) (simp_all add: tick_defs)
    then show ?thesis using that(2) again by (auto simp: tick_enabled surely_def)
  qed
  ultimately show ?thesis using inv by auto
qed

theorem wake_never_lost_witness:
  "\<exists>r r'. tick_reach r \<and> tr_pending r \<and> tick_step r TickFire r' \<and> starts_sweep r r'"
proof -
  let ?r = "idle_run\<lparr>tr_state := wake_sweeper (tr_state idle_run), tr_pending := True\<rparr>"
  have r: "tick_reach ?r" using tick_reach.step [OF tick_reach.start tick_step.wake] .
  have "tr_pending ?r" "\<not> tk_running (tr_state ?r)" by (simp_all add: idle_run_def tick_defs)
  with wake_never_lost [OF r] have "surely ?r TickFire starts_sweep" by simp
  then obtain r' where "tick_step ?r TickFire r'" "starts_sweep ?r r'" unfolding surely_def by blast
  with r \<open>tr_pending ?r\<close> show ?thesis by blast
qed

end
