(* ===== verification/Fleet_Plan.thy ===== *)
theory Fleet_Plan
  imports Prelude "HOL-Library.Sublist"
begin

text \<open>
  The warm-pool planner (lib/fleet/plan.ts over lib/fleet/types.ts): a pure function from a pool's
  declared target and the observed instances to the create, drain and destroy actions of one tick.
  The counts are JavaScript numbers that the pool configuration makes integers; they are \<open>int\<close> here,
  and \<open>Number.POSITIVE_INFINITY\<close> as a create budget is \<open>None\<close>. The closures that mutate the planner's
  local variables are state transformers on \<open>plan_state\<close>.
\<close>

section \<open>Data\<close>

record fleet_target =
  ft_provider :: string
  ft_warm_min :: int
  ft_max :: int
  ft_slots :: int
  ft_locations :: "string list"
  ft_min_per_location :: int
  ft_surge :: int
  ft_buffer :: int
  ft_scale_down_grace :: int
  ft_target_version :: "string option"
  ft_channel :: "string option"
  ft_teardown :: bool

record provider_instance =
  pi_id :: string
  pi_location :: string
  pi_version :: "string option"
  pi_age :: int

datatype runner_status = RsOnline | RsDraining | RsOffline | RsNone

record observed_instance = provider_instance +
  ov_runner :: "string option"
  ov_status :: runner_status
  ov_busy :: bool

record pool_view =
  os_instances :: "observed_instance list"
  os_backlog :: int
  os_recent_peak :: int
  os_boot_grace :: int
  os_surplus_ticks :: int
  os_max_creates :: "int option"

datatype action_reason =
  ScaleUpDemand | MinPerLocation | RolloutSurge | RolloutDrain | ReapDead | ReapDrained |
  ScaleDownIdle | Teardown

datatype fleet_action =
  ActCreate string "string option" action_reason
| ActDrain string string action_reason
| ActDestroy string action_reason

section \<open>The target and the buckets\<close>

definition clamp :: "int \<Rightarrow> int \<Rightarrow> int \<Rightarrow> int" where
  "clamp n lo hi = min hi (max lo n)"

text \<open>\<open>Math.ceil(a / b)\<close> of integers, \<open>b\<close> positive.\<close>

definition ceil_div :: "int \<Rightarrow> int \<Rightarrow> int" where
  "ceil_div a b = - ((- a) div b)"

definition target_count :: "fleet_target \<Rightarrow> int \<Rightarrow> int \<Rightarrow> int" where
  "target_count p backlog peak =
     (let slots = max 1 (ft_slots p);
          demand = max peak (ceil_div (max 0 backlog) slots)
      in clamp (max (ft_warm_min p) (demand + ft_buffer p)) 0 (ft_max p))"

datatype bucket = BkOnline | BkDraining | BkBooting | BkDead

definition classify :: "observed_instance \<Rightarrow> int \<Rightarrow> bucket" where
  "classify i grace =
     (if ov_status i = RsOnline then BkOnline
      else if ov_status i = RsDraining then BkDraining
      else if ov_status i = RsNone \<and> pi_age i \<le> grace then BkBooting
      else BkDead)"

text \<open>A runner id in a condition: null and the empty string are falsy.\<close>

definition truthy :: "string option \<Rightarrow> bool" where
  "truthy s \<longleftrightarrow> s \<noteq> None \<and> s \<noteq> Some []"

section \<open>Teardown\<close>

definition teardown_actions :: "int \<Rightarrow> observed_instance \<Rightarrow> fleet_action list" where
  "teardown_actions grace i =
     (case classify i grace of
        BkOnline \<Rightarrow>
          if ov_busy i \<and> truthy (ov_runner i)
          then [ActDrain (the (ov_runner i)) (pi_id i) Teardown]
          else [ActDestroy (pi_id i) Teardown]
      | BkDraining \<Rightarrow> if \<not> ov_busy i then [ActDestroy (pi_id i) Teardown] else []
      | _ \<Rightarrow> [ActDestroy (pi_id i) Teardown])"

section \<open>Creating\<close>

text \<open>The variables the planner's closures share: the actions so far, \<open>liveByLoc\<close>, \<open>live\<close>, \<open>created\<close>.\<close>

record plan_state =
  ps_actions :: "fleet_action list"
  ps_by_loc :: "string \<rightharpoonup> int"
  ps_live :: int
  ps_created :: int

definition loc_count :: "(string \<rightharpoonup> int) \<Rightarrow> string \<Rightarrow> int" where
  "loc_count m l = (case m l of None \<Rightarrow> 0 | Some n \<Rightarrow> n)"

definition loc_add :: "string \<Rightarrow> int \<Rightarrow> (string \<rightharpoonup> int) \<Rightarrow> (string \<rightharpoonup> int)" where
  "loc_add l d m = m(l \<mapsto> loc_count m l + d)"

definition max_instances :: "fleet_target \<Rightarrow> int" where
  "max_instances p = ft_max p + ft_surge p"

definition budget_spent :: "pool_view \<Rightarrow> plan_state \<Rightarrow> bool" where
  "budget_spent ob s = (case os_max_creates ob of None \<Rightarrow> False | Some n \<Rightarrow> n \<le> ps_created s)"

text \<open>The second loop of \<open>pickLocation\<close>: the first least-loaded location; \<open>None\<close> is \<open>bestN = Infinity\<close>.\<close>

fun least_loaded :: "(string \<rightharpoonup> int) \<Rightarrow> string list \<Rightarrow> string \<Rightarrow> int option \<Rightarrow> string" where
  "least_loaded m [] best bestn = best"
| "least_loaded m (l # ls) best bestn =
     (if bestn = None \<or> loc_count m l < the bestn
      then least_loaded m ls l (Some (loc_count m l))
      else least_loaded m ls best bestn)"

definition pick_location :: "fleet_target \<Rightarrow> (string \<rightharpoonup> int) \<Rightarrow> string" where
  "pick_location p m =
     (case List.find (\<lambda>l. loc_count m l < ft_min_per_location p) (ft_locations p) of
        Some l \<Rightarrow> l
      | None \<Rightarrow> least_loaded m (ft_locations p) (case ft_locations p of [] \<Rightarrow> [] | l # _ \<Rightarrow> l) None)"

definition add_create :: "string \<Rightarrow> string option \<Rightarrow> action_reason \<Rightarrow> plan_state \<Rightarrow> plan_state" where
  "add_create l v r s =
     s\<lparr>ps_actions := ps_actions s @ [ActCreate l v r], ps_by_loc := loc_add l 1 (ps_by_loc s),
       ps_live := ps_live s + 1, ps_created := ps_created s + 1\<rparr>"

text \<open>The closure \<open>create\<close>; \<open>None\<close> is its answer false, with nothing changed.\<close>

definition create_vm ::
  "fleet_target \<Rightarrow> pool_view \<Rightarrow> string option \<Rightarrow> action_reason \<Rightarrow> plan_state \<Rightarrow> plan_state option" where
  "create_vm p ob v r s =
     (if max_instances p \<le> ps_live s \<or> budget_spent ob s then None
      else Some (add_create (pick_location p (ps_by_loc s)) v r s))"

lemma add_create_sel [simp]:
  "ps_live (add_create l v r s) = ps_live s + 1"
  "ps_created (add_create l v r s) = ps_created s + 1"
  "ps_actions (add_create l v r s) = ps_actions s @ [ActCreate l v r]"
  "ps_by_loc (add_create l v r s) = loc_add l 1 (ps_by_loc s)"
  by (simp_all add: add_create_def)

lemma create_vm_Some:
  "create_vm p ob v r s = Some s' \<longleftrightarrow>
     ps_live s < max_instances p \<and> \<not> budget_spent ob s \<and>
     s' = add_create (pick_location p (ps_by_loc s)) v r s"
  by (auto simp: create_vm_def)

text \<open>The loop \<open>while (live < target) if (!create(...)) break\<close>.\<close>

function scale_up :: "fleet_target \<Rightarrow> pool_view \<Rightarrow> int \<Rightarrow> plan_state \<Rightarrow> plan_state" where
  "scale_up p ob target s =
     (if ps_live s < target
      then (case create_vm p ob (ft_target_version p) ScaleUpDemand s of
              None \<Rightarrow> s
            | Some s' \<Rightarrow> scale_up p ob target s')
      else s)"
  by pat_completeness auto
termination
  by (relation "measure (\<lambda>(p, ob, target, s). nat (target - ps_live s))") (auto simp: create_vm_Some)

declare scale_up.simps [simp del]

text \<open>The loop that brings one location up to its minimum.\<close>

function fill_location :: "fleet_target \<Rightarrow> pool_view \<Rightarrow> string \<Rightarrow> plan_state \<Rightarrow> plan_state" where
  "fill_location p ob l s =
     (if loc_count (ps_by_loc s) l < ft_min_per_location p \<and> ps_live s < max_instances p \<and> \<not> budget_spent ob s
      then fill_location p ob l (add_create l (ft_target_version p) MinPerLocation s)
      else s)"
  by pat_completeness auto
termination
  by (relation "measure (\<lambda>(p, ob, l, s). nat (max_instances p - ps_live s))") auto

declare fill_location.simps [simp del]

section \<open>Rolling out and scaling down\<close>

definition add_action :: "fleet_action \<Rightarrow> plan_state \<Rightarrow> plan_state" where
  "add_action a s = s\<lparr>ps_actions := ps_actions s @ [a]\<rparr>"

definition outdated_of :: "fleet_target \<Rightarrow> observed_instance list \<Rightarrow> observed_instance list" where
  "outdated_of p online = filter (\<lambda>h. pi_version h \<noteq> ft_target_version p) online"

definition rollout ::
  "fleet_target \<Rightarrow> pool_view \<Rightarrow> int \<Rightarrow> observed_instance list \<Rightarrow> plan_state \<Rightarrow> plan_state" where
  "rollout p ob target online s =
     (let outdated = outdated_of p online
      in if ft_target_version p \<noteq> None \<and> outdated \<noteq> []
         then (if target < int (length online)
               then (let victim = (case List.find (\<lambda>h. \<not> ov_busy h) outdated of
                                     Some h \<Rightarrow> h | None \<Rightarrow> hd outdated)
                     in if truthy (ov_runner victim)
                        then add_action (ActDrain (the (ov_runner victim)) (pi_id victim) RolloutDrain) s
                        else s)
               else if ps_live s < target + ft_surge p
               then (case create_vm p ob (ft_target_version p) RolloutSurge s of None \<Rightarrow> s | Some s' \<Rightarrow> s')
               else s)
         else s)"

definition drop_vm :: "observed_instance \<Rightarrow> plan_state \<Rightarrow> plan_state" where
  "drop_vm h s = (add_action (ActDestroy (pi_id h) ScaleDownIdle) s)
     \<lparr>ps_by_loc := loc_add (pi_location h) (- 1) (ps_by_loc s), ps_live := ps_live s - 1\<rparr>"

text \<open>The scale-down loop over the idle instances; \<open>over\<close> is its running surplus.\<close>

fun drop_idle :: "fleet_target \<Rightarrow> observed_instance list \<Rightarrow> int \<Rightarrow> plan_state \<Rightarrow> plan_state" where
  "drop_idle p [] over s = s"
| "drop_idle p (h # hs) over s =
     (if over \<le> 0 then s
      else if loc_count (ps_by_loc s) (pi_location h) \<le> ft_min_per_location p then drop_idle p hs over s
      else drop_idle p hs (over - 1) (drop_vm h s))"

definition idle_sorted :: "(string \<rightharpoonup> int) \<Rightarrow> observed_instance list \<Rightarrow> observed_instance list" where
  "idle_sorted m online =
     sort_key (\<lambda>h. - loc_count m (pi_location h)) (filter (\<lambda>h. \<not> ov_busy h) online)"

definition scale_down ::
  "fleet_target \<Rightarrow> pool_view \<Rightarrow> int \<Rightarrow> observed_instance list \<Rightarrow> plan_state \<Rightarrow> plan_state" where
  "scale_down p ob target online s =
     (if outdated_of p online = [] \<and> ft_scale_down_grace p \<le> os_surplus_ticks ob
      then drop_idle p (idle_sorted (ps_by_loc s) online) (ps_live s - target) s
      else s)"

section \<open>The plan\<close>

definition in_bucket :: "pool_view \<Rightarrow> bucket \<Rightarrow> observed_instance list" where
  "in_bucket ob b = filter (\<lambda>i. classify i (os_boot_grace ob) = b) (os_instances ob)"

text \<open>The state after the sorting loop and the reaping of drained instances.\<close>

definition plan_start :: "pool_view \<Rightarrow> plan_state" where
  "plan_start ob =
     \<lparr>ps_actions = map (\<lambda>i. ActDestroy (pi_id i) ReapDead) (in_bucket ob BkDead) @
        map (\<lambda>d. ActDestroy (pi_id d) ReapDrained) (filter (\<lambda>d. \<not> ov_busy d) (in_bucket ob BkDraining)),
      ps_by_loc = fold (\<lambda>i. loc_add (pi_location i) 1) (in_bucket ob BkOnline @ in_bucket ob BkBooting) Map.empty,
      ps_live = int (length (in_bucket ob BkOnline)) + int (length (in_bucket ob BkBooting)),
      ps_created = 0\<rparr>"

definition plan_filled :: "fleet_target \<Rightarrow> pool_view \<Rightarrow> plan_state" where
  "plan_filled p ob =
     (let target = target_count p (os_backlog ob) (os_recent_peak ob)
      in fold (fill_location p ob) (ft_locations p) (scale_up p ob target (plan_start ob)))"

definition plan :: "fleet_target \<Rightarrow> pool_view \<Rightarrow> fleet_action list" where
  "plan p ob =
     (if ft_teardown p
      then concat (map (teardown_actions (os_boot_grace ob)) (os_instances ob))
      else (let target = target_count p (os_backlog ob) (os_recent_peak ob);
                online = in_bucket ob BkOnline
            in ps_actions (scale_down p ob target online (rollout p ob target online (plan_filled p ob)))))"

section \<open>What the steps add\<close>

fun is_create :: "fleet_action \<Rightarrow> bool" where
  "is_create (ActCreate _ _ _) = True"
| "is_create _ = False"

fun creates_at :: "string \<Rightarrow> fleet_action \<Rightarrow> bool" where
  "creates_at l (ActCreate l' _ _) = (l' = l)"
| "creates_at l _ = False"

definition num :: "('a \<Rightarrow> bool) \<Rightarrow> 'a list \<Rightarrow> int" where
  "num P xs = int (length (filter P xs))"

lemma num_simps [simp]:
  "num P [] = 0" "num P (x # xs) = (if P x then 1 else 0) + num P xs"
  "num P (xs @ ys) = num P xs + num P ys"
  by (simp_all add: num_def)

lemma num_nonneg [simp]: "0 \<le> num P xs"
  by (simp add: num_def)

lemma num_all: "\<forall>x\<in>set xs. P x \<Longrightarrow> num P xs = int (length xs)"
  by (induction xs) auto

lemma num_cong: "(\<And>x. x \<in> set xs \<Longrightarrow> P x = Q x) \<Longrightarrow> num P xs = num Q xs"
  by (simp add: num_def cong: filter_cong)

lemma num_none: "\<forall>x\<in>set xs. \<not> P x \<Longrightarrow> num P xs = 0"
  by (induction xs) auto

lemma num_mono: "\<forall>x\<in>set xs. P x \<longrightarrow> Q x \<Longrightarrow> num P xs \<le> num Q xs"
  by (induction xs) auto

lemma loc_count_add [simp]: "loc_count (loc_add l d m) l' = loc_count m l' + (if l' = l then d else 0)"
  by (simp add: loc_add_def loc_count_def)

text \<open>A new instance goes to a listed location (or to the empty name when none is listed).\<close>

definition placed :: "fleet_target \<Rightarrow> string \<Rightarrow> bool" where
  "placed p l \<longleftrightarrow> l \<in> set (ft_locations p) \<or> ft_locations p = [] \<and> l = []"

lemma least_loaded_mem: "least_loaded m ls best n = best \<or> least_loaded m ls best n \<in> set ls"
  by (induction m ls best n rule: least_loaded.induct) auto

lemma pick_location_placed: "placed p (pick_location p m)"
proof (cases "List.find (\<lambda>l. loc_count m l < ft_min_per_location p) (ft_locations p)")
  case None
  then show ?thesis
    using least_loaded_mem [of m "ft_locations p" "hd (ft_locations p)" None]
    by (cases "ft_locations p") (auto simp: pick_location_def placed_def)
next
  case (Some l)
  then show ?thesis
    using find_Some_mem [OF Some] by (simp add: pick_location_def placed_def)
qed

text \<open>
  What the three filling loops do to the state: they only append creations at the target version, in
  listed locations, count each one everywhere, and stop at the instance cap and at the budget.
\<close>

definition grows :: "fleet_target \<Rightarrow> pool_view \<Rightarrow> plan_state \<Rightarrow> plan_state \<Rightarrow> bool" where
  "grows p ob s s' \<longleftrightarrow>
     (\<exists>cs. ps_actions s' = ps_actions s @ cs \<and>
        (\<forall>a\<in>set cs. \<exists>l r. a = ActCreate l (ft_target_version p) r \<and> placed p l) \<and>
        ps_live s' = ps_live s + int (length cs) \<and> ps_created s' = ps_created s + int (length cs) \<and>
        (cs \<noteq> [] \<longrightarrow> ps_live s' \<le> max_instances p \<and>
           (\<forall>n. os_max_creates ob = Some n \<longrightarrow> ps_created s' \<le> n)) \<and>
        (\<forall>l. loc_count (ps_by_loc s') l = loc_count (ps_by_loc s) l + num (creates_at l) cs))"

lemma grows_refl [simp]: "grows p ob s s"
  by (simp add: grows_def)

lemma grows_trans:
  assumes "grows p ob s t" "grows p ob t u"
  shows "grows p ob s u"
proof -
  from assms obtain cs ds where
    "ps_actions t = ps_actions s @ cs" "ps_actions u = ps_actions t @ ds"
    "\<forall>a\<in>set cs. \<exists>l r. a = ActCreate l (ft_target_version p) r \<and> placed p l"
    "\<forall>a\<in>set ds. \<exists>l r. a = ActCreate l (ft_target_version p) r \<and> placed p l"
    "ps_live t = ps_live s + int (length cs)" "ps_live u = ps_live t + int (length ds)"
    "ps_created t = ps_created s + int (length cs)" "ps_created u = ps_created t + int (length ds)"
    "cs \<noteq> [] \<longrightarrow> ps_live t \<le> max_instances p \<and> (\<forall>n. os_max_creates ob = Some n \<longrightarrow> ps_created t \<le> n)"
    "ds \<noteq> [] \<longrightarrow> ps_live u \<le> max_instances p \<and> (\<forall>n. os_max_creates ob = Some n \<longrightarrow> ps_created u \<le> n)"
    "\<forall>l. loc_count (ps_by_loc t) l = loc_count (ps_by_loc s) l + num (creates_at l) cs"
    "\<forall>l. loc_count (ps_by_loc u) l = loc_count (ps_by_loc t) l + num (creates_at l) ds"
    unfolding grows_def by blast
  then show ?thesis
    unfolding grows_def by (intro exI [of _ "cs @ ds"]) (cases ds; auto)
qed

lemma add_create_grows:
  assumes "placed p l" "ps_live s < max_instances p" "\<not> budget_spent ob s"
  shows "grows p ob s (add_create l (ft_target_version p) r s)"
  unfolding grows_def
  using assms by (intro exI [of _ "[ActCreate l (ft_target_version p) r]"])
    (auto simp: budget_spent_def)

lemma create_vm_grows: "create_vm p ob (ft_target_version p) r s = Some s' \<Longrightarrow> grows p ob s s'"
  by (auto simp: create_vm_Some intro: add_create_grows pick_location_placed)

lemma scale_up_grows: "grows p ob s (scale_up p ob target s)"
proof (induction p ob target s rule: scale_up.induct)
  case (1 p ob target s)
  show ?case
  proof (cases "create_vm p ob (ft_target_version p) ScaleUpDemand s")
    case (Some s')
    with grows_trans [OF create_vm_grows [OF Some] "1" [OF _ Some]] show ?thesis
      by (subst scale_up.simps) simp
  qed (subst scale_up.simps, simp)
qed

lemma fill_location_grows: "l \<in> set (ft_locations p) \<Longrightarrow> grows p ob s (fill_location p ob l s)"
proof (induction p ob l s rule: fill_location.induct)
  case (1 p ob l s)
  show ?case
  proof (cases "loc_count (ps_by_loc s) l < ft_min_per_location p \<and> ps_live s < max_instances p \<and> \<not> budget_spent ob s")
    case True
    with "1.prems" grows_trans [OF add_create_grows "1.IH" [OF True "1.prems"]] show ?thesis
      by (subst fill_location.simps) (simp add: placed_def)
  next
    case False
    then show ?thesis by (subst fill_location.simps) (simp only: if_False grows_refl)
  qed
qed

lemma fill_locations_grow:
  "set ls \<subseteq> set (ft_locations p) \<Longrightarrow> grows p ob s (fold (fill_location p ob) ls s)"
proof (induction ls arbitrary: s)
  case (Cons l ls)
  then show ?case
    using grows_trans [OF fill_location_grows [of l p ob s]] by simp
qed simp

lemma plan_filled_grows: "grows p ob (plan_start ob) (plan_filled p ob)"
  unfolding plan_filled_def Let_def
  by (rule grows_trans [OF scale_up_grows fill_locations_grow]) simp

section \<open>How far the steps get\<close>

text \<open>Nothing more may be created: the pool is at its cap, or the tick's budget is spent.\<close>

definition capped :: "fleet_target \<Rightarrow> pool_view \<Rightarrow> plan_state \<Rightarrow> bool" where
  "capped p ob s \<longleftrightarrow> max_instances p \<le> ps_live s \<or> budget_spent ob s"

lemma grows_mono:
  assumes "grows p ob s s'"
  shows "ps_live s \<le> ps_live s'" "loc_count (ps_by_loc s) l \<le> loc_count (ps_by_loc s') l"
    "capped p ob s \<Longrightarrow> capped p ob s'"
  using assms by (auto simp: grows_def capped_def budget_spent_def split: option.splits)

lemma scale_up_reaches: "target \<le> ps_live (scale_up p ob target s) \<or> capped p ob (scale_up p ob target s)"
proof (induction p ob target s rule: scale_up.induct)
  case (1 p ob target s)
  then show ?case
    by (subst (1 2) scale_up.simps)
      (auto simp: capped_def create_vm_def split: option.splits if_splits)
qed

lemma fill_location_reaches:
  "ft_min_per_location p \<le> loc_count (ps_by_loc (fill_location p ob l s)) l \<or> capped p ob (fill_location p ob l s)"
proof (induction p ob l s rule: fill_location.induct)
  case (1 p ob l s)
  then show ?case
    by (subst (1 2) fill_location.simps) (auto simp: capped_def)
qed

lemma fill_locations_reach:
  assumes "set ls \<subseteq> set (ft_locations p)" "l \<in> set ls"
  shows "ft_min_per_location p \<le> loc_count (ps_by_loc (fold (fill_location p ob) ls s)) l \<or>
    capped p ob (fold (fill_location p ob) ls s)"
  using assms
proof (induction ls arbitrary: s)
  case (Cons k ls)
  show ?case
  proof (cases "l \<in> set ls")
    case True
    with Cons show ?thesis by simp
  next
    case False
    with Cons have "l = k" "set ls \<subseteq> set (ft_locations p)" by auto
    with fill_location_reaches [of p ob k s] grows_mono(2,3) [OF fill_locations_grow [of ls p ob "fill_location p ob k s"]]
    show ?thesis by (force intro: order_trans)
  qed
qed simp

section \<open>What the plan is made of\<close>

fun is_drain :: "fleet_action \<Rightarrow> bool" where
  "is_drain (ActDrain _ _ _) = True"
| "is_drain _ = False"

fun is_idle_drop :: "fleet_action \<Rightarrow> bool" where
  "is_idle_drop (ActDestroy _ ScaleDownIdle) = True"
| "is_idle_drop _ = False"

text \<open>The instances the scale-down loop drops, in the order it drops them.\<close>

fun dropped :: "fleet_target \<Rightarrow> observed_instance list \<Rightarrow> int \<Rightarrow> plan_state \<Rightarrow> observed_instance list" where
  "dropped p [] over s = []"
| "dropped p (h # hs) over s =
     (if over \<le> 0 then []
      else if loc_count (ps_by_loc s) (pi_location h) \<le> ft_min_per_location p then dropped p hs over s
      else h # dropped p hs (over - 1) (drop_vm h s))"

lemma drop_vm_sel [simp]:
  "ps_actions (drop_vm h s) = ps_actions s @ [ActDestroy (pi_id h) ScaleDownIdle]"
  "ps_live (drop_vm h s) = ps_live s - 1" "ps_created (drop_vm h s) = ps_created s"
  "ps_by_loc (drop_vm h s) = loc_add (pi_location h) (- 1) (ps_by_loc s)"
  by (simp_all add: drop_vm_def add_action_def)

lemma drop_idle_effect:
  "ps_actions (drop_idle p hs over s) =
     ps_actions s @ map (\<lambda>h. ActDestroy (pi_id h) ScaleDownIdle) (dropped p hs over s) \<and>
   ps_live (drop_idle p hs over s) = ps_live s - int (length (dropped p hs over s)) \<and>
   int (length (dropped p hs over s)) \<le> max 0 over \<and>
   subseq (dropped p hs over s) hs \<and>
   (\<forall>l. loc_count (ps_by_loc (drop_idle p hs over s)) l =
      loc_count (ps_by_loc s) l - num (\<lambda>h. pi_location h = l) (dropped p hs over s))"
  by (induction p hs over s rule: drop_idle.induct) (auto simp: algebra_simps)

lemma drop_idle_keeps_min:
  "min (loc_count (ps_by_loc s) l) (ft_min_per_location p) \<le> loc_count (ps_by_loc (drop_idle p hs over s)) l"
proof (induction p hs over s rule: drop_idle.induct)
  case (2 p h hs over s)
  show ?case
    using "2.IH"(1) "2.IH"(2) by (auto simp: min_le_iff_disj split: if_splits)
qed simp

text \<open>The three parts of a normal plan: the reaps, the creations of the filling loops, and one last step.\<close>

definition reaps :: "pool_view \<Rightarrow> fleet_action list" where
  "reaps ob = ps_actions (plan_start ob)"

lemma plan_filled_parts:
  obtains cs where "ps_actions (plan_filled p ob) = reaps ob @ cs"
    "\<forall>a\<in>set cs. \<exists>l r. a = ActCreate l (ft_target_version p) r \<and> placed p l"
    "ps_live (plan_filled p ob) = ps_live (plan_start ob) + int (length cs)"
    "ps_created (plan_filled p ob) = int (length cs)"
    "cs \<noteq> [] \<longrightarrow> ps_live (plan_filled p ob) \<le> max_instances p"
    "\<forall>n. cs \<noteq> [] \<and> os_max_creates ob = Some n \<longrightarrow> int (length cs) \<le> n"
    "\<forall>l. loc_count (ps_by_loc (plan_filled p ob)) l = loc_count (ps_by_loc (plan_start ob)) l + num (creates_at l) cs"
proof -
  have "ps_created (plan_start ob) = 0" by (simp add: plan_start_def)
  with plan_filled_grows [of p ob] that show thesis
    unfolding grows_def reaps_def by fastforce
qed

text \<open>The last step is at most one of: a drain, one more creation, or the scale-down.\<close>

datatype last_step = NoStep | DrainStep observed_instance | SurgeStep string | DropStep "observed_instance list"

fun last_actions :: "fleet_target \<Rightarrow> last_step \<Rightarrow> fleet_action list" where
  "last_actions p NoStep = []"
| "last_actions p (DrainStep h) = [ActDrain (the (ov_runner h)) (pi_id h) RolloutDrain]"
| "last_actions p (SurgeStep l) = [ActCreate l (ft_target_version p) RolloutSurge]"
| "last_actions p (DropStep hs) = map (\<lambda>h. ActDestroy (pi_id h) ScaleDownIdle) hs"

definition last_step_ok :: "fleet_target \<Rightarrow> pool_view \<Rightarrow> int \<Rightarrow> plan_state \<Rightarrow> last_step \<Rightarrow> bool" where
  "last_step_ok p ob target s x \<longleftrightarrow>
     (case x of
        NoStep \<Rightarrow> True
      | DrainStep h \<Rightarrow> h \<in> set (in_bucket ob BkOnline) \<and> pi_version h \<noteq> ft_target_version p \<and>
          ft_target_version p \<noteq> None \<and> truthy (ov_runner h) \<and> target < int (length (in_bucket ob BkOnline))
      | SurgeStep l \<Rightarrow> placed p l \<and> ps_live s < max_instances p \<and> \<not> budget_spent ob s \<and>
          ft_target_version p \<noteq> None \<and> outdated_of p (in_bucket ob BkOnline) \<noteq> [] \<and>
          int (length (in_bucket ob BkOnline)) \<le> target \<and> ps_live s < target + ft_surge p
      | DropStep hs \<Rightarrow> hs = dropped p (idle_sorted (ps_by_loc s) (in_bucket ob BkOnline)) (ps_live s - target) s \<and>
          outdated_of p (in_bucket ob BkOnline) = [] \<and> ft_scale_down_grace p \<le> os_surplus_ticks ob)"

lemma find_outdated: "List.find P xs = Some h \<Longrightarrow> h \<in> set xs"
  using find_Some_mem by fast

lemma victim_mem:
  "xs \<noteq> [] \<Longrightarrow> (case List.find P xs of None \<Rightarrow> hd xs | Some h \<Rightarrow> h) \<in> set xs"
  by (auto dest: find_outdated split: option.split)

lemma plan_parts:
  assumes "\<not> ft_teardown p" "target = target_count p (os_backlog ob) (os_recent_peak ob)"
  obtains x where "plan p ob = ps_actions (plan_filled p ob) @ last_actions p x"
    "last_step_ok p ob target (plan_filled p ob) x"
proof -
  let ?on = "in_bucket ob BkOnline" and ?s = "plan_filled p ob"
  have plan: "plan p ob = ps_actions (scale_down p ob target ?on (rollout p ob target ?on ?s))"
    using assms by (simp add: plan_def Let_def)
  show thesis
  proof (cases "outdated_of p ?on = []")
    case True
    then have r: "rollout p ob target ?on ?s = ?s" by (simp add: rollout_def)
    show thesis
    proof (cases "ft_scale_down_grace p \<le> os_surplus_ticks ob")
      case g: True
      show thesis
        by (rule that [of "DropStep (dropped p (idle_sorted (ps_by_loc ?s) ?on) (ps_live ?s - target) ?s)"])
          (use True g in \<open>simp_all add: plan r scale_down_def drop_idle_effect last_step_ok_def\<close>)
    qed (rule that [of NoStep], simp_all add: plan r scale_down_def last_step_ok_def)
  next
    case False
    then have sd: "scale_down p ob target ?on u = u" for u by (simp add: scale_down_def)
    let ?v = "case List.find (\<lambda>h. \<not> ov_busy h) (outdated_of p ?on) of Some h \<Rightarrow> h | None \<Rightarrow> hd (outdated_of p ?on)"
    have v: "?v \<in> set ?on" "pi_version ?v \<noteq> ft_target_version p"
      using victim_mem [OF False, of "\<lambda>h. \<not> ov_busy h"] by (auto simp: outdated_of_def)
    consider (drain) "ft_target_version p \<noteq> None" "target < int (length ?on)" "truthy (ov_runner ?v)"
      | (surge) s' where "ft_target_version p \<noteq> None" "\<not> target < int (length ?on)" "ps_live ?s < target + ft_surge p"
          "create_vm p ob (ft_target_version p) RolloutSurge ?s = Some s'"
      | (none) "rollout p ob target ?on ?s = ?s"
    proof (cases "ft_target_version p \<noteq> None \<and> target < int (length ?on) \<and> truthy (ov_runner ?v)")
      case a: False
      show thesis
      proof (cases "ft_target_version p \<noteq> None \<and> \<not> target < int (length ?on) \<and> ps_live ?s < target + ft_surge p \<and>
          create_vm p ob (ft_target_version p) RolloutSurge ?s \<noteq> None")
        case b: False
        obtain v where v': "v = ?v" by blast
        from a b have "rollout p ob target ?on ?s = ?s"
          unfolding rollout_def Let_def v' [symmetric] by (auto split: option.splits)
        then show thesis by (rule none)
      qed (use surge in blast)
    qed (use drain in blast)
    then show thesis
    proof cases
      case drain
      then have "rollout p ob target ?on ?s = add_action (ActDrain (the (ov_runner ?v)) (pi_id ?v) RolloutDrain) ?s"
        using False by (simp add: rollout_def Let_def)
      with drain v show thesis
        by (intro that [of "DrainStep ?v"]) (simp_all add: plan sd add_action_def last_step_ok_def)
    next
      case surge
      then have "rollout p ob target ?on ?s = s'"
        using False by (simp add: rollout_def Let_def)
      with surge False show thesis
        by (intro that [of "SurgeStep (pick_location p (ps_by_loc ?s))"])
          (auto simp: plan sd last_step_ok_def create_vm_Some pick_location_placed)
    next
      case none
      then show thesis by (intro that [of NoStep]) (simp_all add: plan sd last_step_ok_def)
    qed
  qed
qed

section \<open>Properties of the plan\<close>

fun touched :: "fleet_action \<Rightarrow> string list" where
  "touched (ActCreate _ _ _) = []"
| "touched (ActDrain _ i _) = [i]"
| "touched (ActDestroy i _) = [i]"

lemma subseq_set: "subseq xs ys \<Longrightarrow> set xs \<subseteq> set ys"
  by (induction rule: list_emb.induct) auto

lemma subseq_distinct: "subseq xs ys \<Longrightarrow> distinct ys \<Longrightarrow> distinct xs"
  by (induction rule: list_emb.induct) (auto dest: subseq_set)

definition action_ok :: "fleet_target \<Rightarrow> pool_view \<Rightarrow> fleet_action \<Rightarrow> bool" where
  "action_ok p ob a \<longleftrightarrow>
     (case a of
        ActCreate l v _ \<Rightarrow> \<not> ft_teardown p \<and> placed p l \<and> v = ft_target_version p
      | ActDrain w i _ \<Rightarrow>
          (\<exists>x\<in>set (os_instances ob). pi_id x = i \<and> ov_runner x = Some w \<and> ov_status x = RsOnline \<and>
             (if ft_teardown p then ov_busy x else pi_version x \<noteq> ft_target_version p))
      | ActDestroy i _ \<Rightarrow>
          (\<exists>x\<in>set (os_instances ob). pi_id x = i \<and> (ov_status x = RsDraining \<longrightarrow> \<not> ov_busy x) \<and>
             (ov_status x = RsOnline \<longrightarrow> \<not> ov_busy x \<or> ft_teardown p \<and> \<not> truthy (ov_runner x))))"

lemma classify_iff [simp]:
  "classify i g = BkOnline \<longleftrightarrow> ov_status i = RsOnline"
  "classify i g = BkDraining \<longleftrightarrow> ov_status i = RsDraining"
  "classify i g = BkBooting \<longleftrightarrow> ov_status i = RsNone \<and> pi_age i \<le> g"
  "classify i g = BkDead \<longleftrightarrow> ov_status i = RsOffline \<or> ov_status i = RsNone \<and> g < pi_age i"
  by (cases "ov_status i"; simp add: classify_def)+

lemma in_bucket_mem: "x \<in> set (in_bucket ob b) \<longleftrightarrow> x \<in> set (os_instances ob) \<and> classify x (os_boot_grace ob) = b"
  by (auto simp: in_bucket_def)

lemma idle_sorted_mem: "x \<in> set (idle_sorted m xs) \<longleftrightarrow> x \<in> set xs \<and> \<not> ov_busy x"
  by (simp add: idle_sorted_def)

lemma dropped_idle:
  assumes "x \<in> set (dropped p (idle_sorted m xs) over s)"
  shows "x \<in> set xs \<and> \<not> ov_busy x"
  using assms drop_idle_effect [of p "idle_sorted m xs" over s] subseq_set idle_sorted_mem by blast

lemma truthy_Some: "truthy r \<Longrightarrow> r = Some (the r)"
  by (auto simp: truthy_def)

lemma teardown_action_cases:
  assumes "a \<in> set (teardown_actions g i)"
  shows "a = ActDrain (the (ov_runner i)) (pi_id i) Teardown \<and> ov_status i = RsOnline \<and> ov_busy i \<and> truthy (ov_runner i) \<or>
    a = ActDestroy (pi_id i) Teardown \<and> (ov_status i = RsDraining \<longrightarrow> \<not> ov_busy i) \<and>
      (ov_status i = RsOnline \<longrightarrow> \<not> ov_busy i \<or> \<not> truthy (ov_runner i))"
  using assms
  by (cases "ov_status i"; auto simp: teardown_actions_def classify_def split: if_splits)

lemma last_actions_ok:
  assumes "\<not> ft_teardown p" "last_step_ok p ob t s x" "a \<in> set (last_actions p x)"
  shows "action_ok p ob a"
  using assms
  by (cases x) (auto simp: last_step_ok_def action_ok_def in_bucket_mem truthy_Some dest!: dropped_idle)

lemma destroy_ok:
  assumes "x \<in> set (os_instances ob)" "ov_status x = RsDraining \<longrightarrow> \<not> ov_busy x"
    "ov_status x = RsOnline \<longrightarrow> \<not> ov_busy x \<or> ft_teardown p \<and> \<not> truthy (ov_runner x)"
  shows "action_ok p ob (ActDestroy (pi_id x) r)"
  using assms by (auto simp: action_ok_def)

lemma reaps_ok: "a \<in> set (reaps ob) \<Longrightarrow> action_ok p ob a"
  by (auto simp: reaps_def plan_start_def in_bucket_mem intro!: destroy_ok)

lemma plan_actions_ok:
  assumes "a \<in> set (plan p ob)"
  shows "action_ok p ob a"
proof (cases "ft_teardown p")
  case True
  with assms obtain i where i: "i \<in> set (os_instances ob)" "a \<in> set (teardown_actions (os_boot_grace ob) i)"
    by (auto simp: plan_def)
  from teardown_action_cases [OF i(2)] i(1) True truthy_Some [of "ov_runner i"] show ?thesis
    by (auto simp: action_ok_def intro: bexI [of _ i])
next
  case False
  obtain x where x: "plan p ob = ps_actions (plan_filled p ob) @ last_actions p x"
    "last_step_ok p ob (target_count p (os_backlog ob) (os_recent_peak ob)) (plan_filled p ob) x"
    using plan_parts [OF False refl] by metis
  obtain cs where cs: "ps_actions (plan_filled p ob) = reaps ob @ cs"
    "\<forall>a\<in>set cs. \<exists>l r. a = ActCreate l (ft_target_version p) r \<and> placed p l"
    by (rule plan_filled_parts)
  from assms x cs have "a \<in> set (reaps ob) \<or> a \<in> set cs \<or> a \<in> set (last_actions p x)" by auto
  then show ?thesis
    using reaps_ok last_actions_ok [OF False x(2)] cs(2) False by (fastforce simp: action_ok_def)
qed

text \<open>Which instances a plan touches: each at most once.\<close>

definition touches :: "fleet_action list \<Rightarrow> string list" where
  "touches as = concat (map touched as)"

lemma touches_simps [simp]:
  "touches [] = []" "touches (a # as) = touched a @ touches as" "touches (as @ bs) = touches as @ touches bs"
  by (simp_all add: touches_def)

lemma touches_creates: "\<forall>a\<in>set cs. \<exists>l v r. a = ActCreate l v r \<Longrightarrow> touches cs = []"
  by (induction cs) auto

lemma touches_map_destroy [simp]: "touches (map (\<lambda>i. ActDestroy (pi_id i) r) xs) = map pi_id xs"
  by (induction xs) auto

lemma touches_teardown:
  "subseq (touches (concat (map (teardown_actions g) xs))) (map pi_id xs)"
proof (induction xs)
  case (Cons i xs)
  have "touches (teardown_actions g i) = [pi_id i] \<or> touches (teardown_actions g i) = []"
    by (cases "ov_status i") (auto simp: teardown_actions_def classify_def)
  with Cons show ?case by auto
qed simp

lemma touches_last:
  assumes "last_step_ok p ob t s x"
  shows "set (touches (last_actions p x)) \<subseteq> pi_id ` set (in_bucket ob BkOnline)"
  using assms by (cases x) (auto simp: last_step_ok_def dest!: dropped_idle)

lemma distinct_dropped:
  assumes "distinct (map pi_id xs)"
  shows "distinct (map pi_id (dropped p (idle_sorted m xs) over s))"
proof -
  have "distinct (map pi_id (idle_sorted m xs))"
    using assms by (auto simp: idle_sorted_def distinct_map inj_on_def)
  moreover have "subseq (map pi_id (dropped p (idle_sorted m xs) over s)) (map pi_id (idle_sorted m xs))"
    using drop_idle_effect subseq_map by blast
  ultimately show ?thesis by (rule subseq_distinct [rotated])
qed

lemma buckets_apart:
  assumes "distinct (map pi_id (os_instances ob))" "b \<noteq> b'"
  shows "pi_id ` set (in_bucket ob b) \<inter> pi_id ` set (in_bucket ob b') = {}"
  using assms by (auto simp: in_bucket_mem distinct_map dest: inj_onD)

lemma distinct_bucket:
  "distinct (map pi_id (os_instances ob)) \<Longrightarrow> distinct (map pi_id (filter P (in_bucket ob b)))"
  by (auto simp: in_bucket_def distinct_map intro: inj_on_subset)

lemma distinct_last:
  assumes "distinct (map pi_id (os_instances ob))" "last_step_ok p ob t s x"
  shows "distinct (touches (last_actions p x))"
  using assms distinct_dropped [of "in_bucket ob BkOnline"] distinct_bucket [OF assms(1), of "\<lambda>_. True"]
  by (cases x) (auto simp: last_step_ok_def)

lemma touches_reaps:
  "touches (reaps ob) = map pi_id (in_bucket ob BkDead) @ map pi_id (filter (\<lambda>d. \<not> ov_busy d) (in_bucket ob BkDraining))"
  by (simp add: reaps_def plan_start_def)

lemma distinct_reaps:
  assumes "distinct (map pi_id (os_instances ob))"
  shows "distinct (touches (reaps ob))"
  using distinct_bucket [OF assms, of "\<lambda>_. True" BkDead] distinct_bucket [OF assms, of "\<lambda>d. \<not> ov_busy d" BkDraining]
    buckets_apart [OF assms, of BkDead BkDraining]
  by (auto simp: touches_reaps)

text \<open>
  C14. What a plan may do to an instance. No instance is named by two actions of a plan. Every destroy
  names an observed instance, and never one with a job in flight that is still online or draining
  (except, in a teardown, an online one that has no runner to drain); every drain names an observed
  online instance with that instance's own runner, and outside a teardown only one at another
  version than the target's. Creations are never planned in a teardown, are at the target version and
  in a listed location.
\<close>

theorem plan_touches_safely:
  assumes "distinct (map pi_id (os_instances ob))"
  shows "distinct (touches (plan p ob)) \<and>
    (\<forall>a\<in>set (plan p ob).
       case a of
         ActCreate l v _ \<Rightarrow> \<not> ft_teardown p \<and> placed p l \<and> v = ft_target_version p
       | ActDrain w i _ \<Rightarrow>
           (\<exists>x\<in>set (os_instances ob). pi_id x = i \<and> ov_runner x = Some w \<and> ov_status x = RsOnline \<and>
              (if ft_teardown p then ov_busy x else pi_version x \<noteq> ft_target_version p))
       | ActDestroy i _ \<Rightarrow>
           (\<exists>x\<in>set (os_instances ob). pi_id x = i \<and> (ov_status x = RsDraining \<longrightarrow> \<not> ov_busy x) \<and>
              (ov_status x = RsOnline \<longrightarrow> \<not> ov_busy x \<or> ft_teardown p \<and> \<not> truthy (ov_runner x))))"
proof -
  have "distinct (touches (plan p ob))"
  proof (cases "ft_teardown p")
    case True
    with assms touches_teardown show ?thesis
      by (auto simp: plan_def intro: subseq_distinct)
  next
    case False
    obtain x where x: "plan p ob = ps_actions (plan_filled p ob) @ last_actions p x"
      "last_step_ok p ob (target_count p (os_backlog ob) (os_recent_peak ob)) (plan_filled p ob) x"
      using plan_parts [OF False refl] by metis
    obtain cs where cs: "ps_actions (plan_filled p ob) = reaps ob @ cs"
      "\<forall>a\<in>set cs. \<exists>l r. a = ActCreate l (ft_target_version p) r \<and> placed p l"
      by (rule plan_filled_parts)
    then have "touches cs = []" by (intro touches_creates) blast
    moreover have "set (touches (reaps ob)) \<inter> set (touches (last_actions p x)) = {}"
      using touches_last [OF x(2)] buckets_apart [OF assms, of BkOnline BkDead]
        buckets_apart [OF assms, of BkOnline BkDraining]
      by (fastforce simp: touches_reaps)
    ultimately show ?thesis
      using x cs distinct_reaps [OF assms] distinct_last [OF assms x(2)] by simp
  qed
  then show ?thesis using plan_actions_ok [of _ p ob, unfolded action_ok_def] by blast
qed

definition sample_pool :: fleet_target where
  "sample_pool = \<lparr>ft_provider = ''aws'', ft_warm_min = 1, ft_max = 4, ft_slots = 2,
     ft_locations = [''fsn1'', ''nbg1''], ft_min_per_location = 0, ft_surge = 1, ft_buffer = 0,
     ft_scale_down_grace = 3, ft_target_version = Some ''v2'', ft_channel = None, ft_teardown = False\<rparr>"

definition sample_vm :: "string \<Rightarrow> runner_status \<Rightarrow> string \<Rightarrow> observed_instance" where
  "sample_vm i st v = \<lparr>pi_id = i, pi_location = ''fsn1'', pi_version = Some v, pi_age = 60,
     ov_runner = (if st = RsNone then None else Some (''r'' @ i)), ov_status = st, ov_busy = False\<rparr>"

definition sample_view :: "observed_instance list \<Rightarrow> int \<Rightarrow> int \<Rightarrow> pool_view" where
  "sample_view is backlog surplus = \<lparr>os_instances = is, os_backlog = backlog, os_recent_peak = 0,
     os_boot_grace = 180, os_surplus_ticks = surplus, os_max_creates = None\<rparr>"

theorem plan_touches_safely_witness:
  "let ob = sample_view [sample_vm ''a'' RsOnline ''v1'', sample_vm ''b'' RsOnline ''v1'', sample_vm ''c'' RsOffline ''v1''] 0 0
   in plan sample_pool ob = [ActDestroy ''c'' ReapDead, ActDrain ''ra'' ''a'' RolloutDrain] \<and>
      distinct (touches (plan sample_pool ob))"
proof -
  let ?ob = "sample_view [sample_vm ''a'' RsOnline ''v1'', sample_vm ''b'' RsOnline ''v1'', sample_vm ''c'' RsOffline ''v1''] 0 0"
  have "distinct (map pi_id (os_instances ?ob))" by (simp add: sample_view_def sample_vm_def)
  from plan_touches_safely [OF this, of sample_pool] show ?thesis
    by (simp add: Let_def) code_simp
qed

definition live_seen :: "pool_view \<Rightarrow> int" where
  "live_seen ob = int (length (in_bucket ob BkOnline)) + int (length (in_bucket ob BkBooting))"

lemma plan_start_sel:
  "ps_live (plan_start ob) = live_seen ob" "ps_created (plan_start ob) = 0"
  "ps_actions (plan_start ob) = reaps ob"
  by (simp_all add: plan_start_def live_seen_def reaps_def)

lemma plan_split:
  assumes "\<not> ft_teardown p" "target = target_count p (os_backlog ob) (os_recent_peak ob)"
  obtains cs x where "plan p ob = reaps ob @ cs @ last_actions p x"
    "ps_actions (plan_filled p ob) = reaps ob @ cs"
    "last_step_ok p ob target (plan_filled p ob) x"
    "\<forall>a\<in>set cs. is_create a"
    "ps_live (plan_filled p ob) = live_seen ob + int (length cs)"
    "ps_created (plan_filled p ob) = int (length cs)"
    "cs \<noteq> [] \<longrightarrow> ps_live (plan_filled p ob) \<le> max_instances p"
    "\<forall>n. cs \<noteq> [] \<and> os_max_creates ob = Some n \<longrightarrow> int (length cs) \<le> n"
    "\<forall>l. loc_count (ps_by_loc (plan_filled p ob)) l = loc_count (ps_by_loc (plan_start ob)) l + num (creates_at l) cs"
proof -
  obtain x where x: "plan p ob = ps_actions (plan_filled p ob) @ last_actions p x"
    "last_step_ok p ob target (plan_filled p ob) x"
    using plan_parts [OF assms] by metis
  obtain cs where cs: "ps_actions (plan_filled p ob) = reaps ob @ cs"
    "\<forall>a\<in>set cs. \<exists>l r. a = ActCreate l (ft_target_version p) r \<and> placed p l"
    "ps_live (plan_filled p ob) = live_seen ob + int (length cs)"
    "ps_created (plan_filled p ob) = int (length cs)"
    "cs \<noteq> [] \<longrightarrow> ps_live (plan_filled p ob) \<le> max_instances p"
    "\<forall>n. cs \<noteq> [] \<and> os_max_creates ob = Some n \<longrightarrow> int (length cs) \<le> n"
    "\<forall>l. loc_count (ps_by_loc (plan_filled p ob)) l = loc_count (ps_by_loc (plan_start ob)) l + num (creates_at l) cs"
    by (rule plan_filled_parts [of p ob, unfolded plan_start_sel]) blast
  have c: "\<forall>a\<in>set cs. is_create a" using cs(2) by force
  show thesis by (rule that [OF _ cs(1) x(2) c cs(3-7)]) (use x(1) cs(1) in simp_all)
qed

lemma loc_count_fold:
  "loc_count (fold (\<lambda>i. loc_add (pi_location i) 1) xs m) l = loc_count m l + num (\<lambda>i. pi_location i = l) xs"
  by (induction xs arbitrary: m) auto

lemma plan_start_by_loc:
  "loc_count (ps_by_loc (plan_start ob)) l = num (\<lambda>i. pi_location i = l) (in_bucket ob BkOnline @ in_bucket ob BkBooting)"
  unfolding plan_start_def plan_state.simps loc_count_fold by (simp add: loc_count_def)

fun surges :: "last_step \<Rightarrow> int" where
  "surges (SurgeStep _) = 1" | "surges _ = 0"

fun drains :: "last_step \<Rightarrow> int" where
  "drains (DrainStep _) = 1" | "drains _ = 0"

fun drops :: "last_step \<Rightarrow> observed_instance list" where
  "drops (DropStep hs) = hs" | "drops _ = []"

lemma last_counts [simp]:
  "num is_create (last_actions p x) = surges x"
  "num is_drain (last_actions p x) = drains x"
  "num is_idle_drop (last_actions p x) = int (length (drops x))"
  by (cases x; simp add: num_all num_none)+

lemma reap_counts [simp]:
  "num is_create (reaps ob) = 0" "num is_drain (reaps ob) = 0" "num is_idle_drop (reaps ob) = 0"
  "num (creates_at l) (reaps ob) = 0"
  by (rule num_none; auto simp: reaps_def plan_start_def)+

lemma create_counts:
  assumes "\<forall>a\<in>set cs. is_create a"
  shows "num is_create cs = int (length cs)" "num is_drain cs = 0" "num is_idle_drop cs = 0"
proof -
  have "\<not> is_drain a \<and> \<not> is_idle_drop a" if "is_create a" for a
    using that by (cases a) auto
  with assms show "num is_create cs = int (length cs)" "num is_drain cs = 0" "num is_idle_drop cs = 0"
    by (auto intro: num_all num_none)
qed

text \<open>The instances of a location after the plan: those seen that it does not drop, and those it creates.\<close>

definition left_at :: "fleet_target \<Rightarrow> pool_view \<Rightarrow> string \<Rightarrow> int" where
  "left_at p ob l =
     num (\<lambda>x. pi_location x = l \<and> ActDestroy (pi_id x) ScaleDownIdle \<notin> set (plan p ob))
       (in_bucket ob BkOnline @ in_bucket ob BkBooting) + num (creates_at l) (plan p ob)"

lemma num_card: "distinct xs \<Longrightarrow> num P xs = int (card {x \<in> set xs. P x})"
  by (simp add: num_def distinct_card [symmetric])

lemma num_minus:
  assumes "distinct xs" "distinct ds" "set ds \<subseteq> set xs"
  shows "num (\<lambda>x. P x \<and> x \<notin> set ds) xs = num P xs - num P ds"
proof -
  have "{x \<in> set xs. P x \<and> x \<notin> set ds} = {x \<in> set xs. P x} - {x \<in> set ds. P x}" by auto
  moreover have "{x \<in> set ds. P x} \<subseteq> {x \<in> set xs. P x}" using assms(3) by auto
  ultimately show ?thesis
    using assms(1,2) by (simp add: num_card card_Diff_subset of_nat_diff card_mono)
qed

lemma left_at_eq:
  assumes "distinct (map pi_id (os_instances ob))" "\<not> ft_teardown p"
    "plan p ob = reaps ob @ cs @ last_actions p x" "\<forall>a\<in>set cs. is_create a"
    "set (drops x) \<subseteq> set (in_bucket ob BkOnline)" "distinct (drops x)"
  shows "left_at p ob l = loc_count (ps_by_loc (plan_start ob)) l + num (creates_at l) (plan p ob)
    - num (\<lambda>h. pi_location h = l) (drops x)"
proof -
  let ?xs = "in_bucket ob BkOnline @ in_bucket ob BkBooting"
  have inj: "inj_on pi_id (set ?xs)" and d: "distinct ?xs"
    using assms(1) by (auto simp: in_bucket_def distinct_map intro: inj_on_subset)
  have drop: "ActDestroy (pi_id h) ScaleDownIdle \<in> set (plan p ob) \<longleftrightarrow> h \<in> set (drops x)" if "h \<in> set ?xs" for h
  proof -
    have "ActDestroy (pi_id h) ScaleDownIdle \<notin> set (reaps ob)" by (auto simp: reaps_def plan_start_def)
    moreover have "ActDestroy (pi_id h) ScaleDownIdle \<notin> set cs" using assms(4) by force
    moreover have "ActDestroy (pi_id h) ScaleDownIdle \<in> set (last_actions p x) \<longleftrightarrow> pi_id h \<in> pi_id ` set (drops x)"
      by (cases x) auto
    moreover have "pi_id h \<in> pi_id ` set (drops x) \<longleftrightarrow> h \<in> set (drops x)"
      using inj that assms(5) by (auto dest: inj_onD)
    ultimately show ?thesis using assms(3) by simp
  qed
  have "num (\<lambda>h. pi_location h = l \<and> ActDestroy (pi_id h) ScaleDownIdle \<notin> set (plan p ob)) ?xs =
      num (\<lambda>h. pi_location h = l \<and> h \<notin> set (drops x)) ?xs"
    by (rule num_cong) (simp only: drop)
  also have "\<dots> = num (\<lambda>h. pi_location h = l) ?xs - num (\<lambda>h. pi_location h = l) (drops x)"
    by (rule num_minus [OF d assms(6)]) (use assms(5) in auto)
  finally show ?thesis by (simp only: left_at_def plan_start_by_loc)
qed

lemma drops_ok:
  assumes "last_step_ok p ob t s x" "distinct (map pi_id (os_instances ob))"
  shows "set (drops x) \<subseteq> set (in_bucket ob BkOnline) \<and> distinct (drops x)"
proof (cases x)
  case (DropStep hs)
  have "distinct (map pi_id (in_bucket ob BkOnline))"
    using distinct_bucket [OF assms(2), of "\<lambda>_. True"] by simp
  from distinct_dropped [OF this] DropStep assms(1) show ?thesis
    by (auto simp: last_step_ok_def distinct_map dest!: dropped_idle)
qed auto

lemma plan_filled_reaches:
  assumes "target = target_count p (os_backlog ob) (os_recent_peak ob)"
  shows "target \<le> ps_live (plan_filled p ob) \<or> capped p ob (plan_filled p ob)"
    "l \<in> set (ft_locations p) \<Longrightarrow>
       ft_min_per_location p \<le> loc_count (ps_by_loc (plan_filled p ob)) l \<or> capped p ob (plan_filled p ob)"
proof -
  let ?u = "scale_up p ob target (plan_start ob)"
  have g: "grows p ob ?u (plan_filled p ob)"
    unfolding plan_filled_def Let_def assms [symmetric] by (rule fill_locations_grow) simp
  show "target \<le> ps_live (plan_filled p ob) \<or> capped p ob (plan_filled p ob)"
    using scale_up_reaches [of target p ob "plan_start ob"] grows_mono(1,3) [OF g] by force
  show "ft_min_per_location p \<le> loc_count (ps_by_loc (plan_filled p ob)) l \<or> capped p ob (plan_filled p ob)"
    if "l \<in> set (ft_locations p)"
    using fill_locations_reach [OF order_refl that] assms by (simp add: plan_filled_def Let_def)
qed

lemma teardown_counts:
  assumes "ft_teardown p"
  shows "num is_create (plan p ob) = 0" "num is_idle_drop (plan p ob) = 0"
    "num is_drain (plan p ob) = num (\<lambda>i. ov_status i = RsOnline \<and> ov_busy i \<and> truthy (ov_runner i)) (os_instances ob)"
    "int (length (plan p ob)) = num (\<lambda>i. \<not> (ov_status i = RsDraining \<and> ov_busy i)) (os_instances ob)"
proof -
  let ?all = "\<lambda>xs. concat (map (teardown_actions (os_boot_grace ob)) xs)"
  have one: "num is_create (teardown_actions g i) = 0" "num is_idle_drop (teardown_actions g i) = 0"
    "num is_drain (teardown_actions g i) = (if ov_status i = RsOnline \<and> ov_busy i \<and> truthy (ov_runner i) then 1 else 0)"
    "length (teardown_actions g i) = (if ov_status i = RsDraining \<and> ov_busy i then 0 else 1)" for g i
    by (cases "ov_status i"; simp add: teardown_actions_def classify_def)+
  have "num is_create (?all xs) = 0" "num is_idle_drop (?all xs) = 0"
    "num is_drain (?all xs) = num (\<lambda>i. ov_status i = RsOnline \<and> ov_busy i \<and> truthy (ov_runner i)) xs"
    "int (length (?all xs)) = num (\<lambda>i. \<not> (ov_status i = RsDraining \<and> ov_busy i)) xs" for xs
    by (induction xs) (simp_all add: one)
  with assms show "num is_create (plan p ob) = 0" "num is_idle_drop (plan p ob) = 0"
    "num is_drain (plan p ob) = num (\<lambda>i. ov_status i = RsOnline \<and> ov_busy i \<and> truthy (ov_runner i)) (os_instances ob)"
    "int (length (plan p ob)) = num (\<lambda>i. \<not> (ov_status i = RsDraining \<and> ov_busy i)) (os_instances ob)"
    by (simp_all add: plan_def)
qed

lemma plan_creates_budget:
  assumes "os_max_creates ob = Some n"
  shows "num is_create (plan p ob) \<le> max 0 n"
proof (cases "ft_teardown p")
  case True
  then show ?thesis by (simp add: teardown_counts)
next
  case False
  obtain cs x where x: "plan p ob = reaps ob @ cs @ last_actions p x" "ps_actions (plan_filled p ob) = reaps ob @ cs"
    "last_step_ok p ob (target_count p (os_backlog ob) (os_recent_peak ob)) (plan_filled p ob) x" "\<forall>a\<in>set cs. is_create a"
    and live: "ps_live (plan_filled p ob) = live_seen ob + int (length cs)" "ps_created (plan_filled p ob) = int (length cs)"
    and caps: "cs \<noteq> [] \<longrightarrow> ps_live (plan_filled p ob) \<le> max_instances p"
      "\<forall>n. cs \<noteq> [] \<and> os_max_creates ob = Some n \<longrightarrow> int (length cs) \<le> n"
    by (rule plan_split [OF False refl]) blast
  have "num is_create (plan p ob) = int (length cs) + surges x"
    unfolding x(1) by (simp add: create_counts [OF x(4)])
  moreover have "surges x \<noteq> 0 \<longrightarrow> surges x = 1 \<and> \<not> budget_spent ob (plan_filled p ob)"
    using x(3) by (cases x) (simp_all add: last_step_ok_def)
  ultimately show ?thesis
    using caps(2) live assms
    by (cases "surges x = 0"; cases "cs = []") (auto simp: budget_spent_def le_max_iff_disj)
qed





text \<open>
  The warm floor can be planned away. Idle scale-down counts booting instances as surplus but only
  removes online ones: with a floor of one, two idle instances online and a third still booting, the
  plan after the grace window destroys both online ones and leaves nothing that can claim a job. The
  surplus counter is the one the controller carries, more than the target being online on each tick.
\<close>

theorem plan_breaks_warm_floor:
  "let ob = sample_view [sample_vm ''a'' RsOnline ''v2'', sample_vm ''b'' RsOnline ''v2'', sample_vm ''c'' RsNone ''v2''] 0 3
   in target_count sample_pool 0 0 = ft_warm_min sample_pool \<and> ft_warm_min sample_pool = 1 \<and>
      length (in_bucket ob BkOnline) = 2 \<and>
      plan sample_pool ob = [ActDestroy ''a'' ScaleDownIdle, ActDestroy ''b'' ScaleDownIdle]"
  by code_simp

lemma dropped_empty:
  "dropped p hs over s = [] \<longleftrightarrow>
     over \<le> 0 \<or> (\<forall>h\<in>set hs. loc_count (ps_by_loc s) (pi_location h) \<le> ft_min_per_location p)"
  by (induction p hs over s rule: dropped.induct) auto

lemma scale_up_idle: "target \<le> ps_live s \<or> capped p ob s \<Longrightarrow> scale_up p ob target s = s"
  by (subst scale_up.simps) (auto simp: capped_def create_vm_def)

lemma fill_location_idle:
  assumes "ft_min_per_location p \<le> loc_count (ps_by_loc s) l \<or> capped p ob s"
  shows "fill_location p ob l s = s"
proof -
  have "\<not> (loc_count (ps_by_loc s) l < ft_min_per_location p \<and> ps_live s < max_instances p \<and> \<not> budget_spent ob s)"
    using assms by (auto simp: capped_def)
  then show ?thesis by (subst fill_location.simps) (simp only: if_False)
qed

lemma fill_locations_idle:
  assumes "\<forall>l\<in>set ls. ft_min_per_location p \<le> loc_count (ps_by_loc s) l \<or> capped p ob s"
  shows "fold (fill_location p ob) ls s = s"
  using assms
proof (induction ls)
  case (Cons l ls)
  then have "fill_location p ob l s = s" by (intro fill_location_idle) auto
  with Cons show ?case by auto
qed simp

text \<open>Nothing is missing: the capacity and every location's minimum are there, or a cap is.\<close>

definition filled_up :: "fleet_target \<Rightarrow> pool_view \<Rightarrow> bool" where
  "filled_up p ob \<longleftrightarrow>
     capped p ob (plan_start ob) \<or>
     target_count p (os_backlog ob) (os_recent_peak ob) \<le> live_seen ob \<and>
     (\<forall>l\<in>set (ft_locations p). ft_min_per_location p \<le> loc_count (ps_by_loc (plan_start ob)) l)"

lemma filled_up_iff: "filled_up p ob \<longleftrightarrow> plan_filled p ob = plan_start ob"
proof
  assume "filled_up p ob"
  then show "plan_filled p ob = plan_start ob"
    unfolding plan_filled_def Let_def filled_up_def
    by (subst scale_up_idle; auto simp: plan_start_sel intro!: fill_locations_idle)
next
  assume eq: "plan_filled p ob = plan_start ob"
  show "filled_up p ob"
    using plan_filled_reaches [OF refl, where p = p and ob = ob] unfolding eq filled_up_def plan_start_sel by blast
qed

lemma plan_filled_same:
  assumes "ps_actions (plan_filled p ob) = reaps ob"
  shows "filled_up p ob"
proof -
  let ?t = "target_count p (os_backlog ob) (os_recent_peak ob)" and ?s = "plan_filled p ob"
  obtain cs where "ps_actions ?s = reaps ob @ cs" "ps_live ?s = live_seen ob + int (length cs)"
    "ps_created ?s = int (length cs)"
    "\<forall>l. loc_count (ps_by_loc ?s) l = loc_count (ps_by_loc (plan_start ob)) l + num (creates_at l) cs"
    by (rule plan_filled_parts [of p ob, unfolded plan_start_sel]) blast
  with assms have s: "ps_live ?s = live_seen ob" "ps_created ?s = 0"
    "\<forall>l. loc_count (ps_by_loc ?s) l = loc_count (ps_by_loc (plan_start ob)) l" by simp_all
  then have "capped p ob ?s = capped p ob (plan_start ob)"
    by (simp add: capped_def budget_spent_def plan_start_sel split: option.split)
  with plan_filled_reaches [OF refl, where p = p and ob = ob] s show ?thesis
    unfolding filled_up_def by auto
qed

lemma plan_empty_parts:
  assumes "\<not> ft_teardown p"
  shows "plan p ob = [] \<longleftrightarrow>
    reaps ob = [] \<and> filled_up p ob \<and>
    ps_actions (scale_down p ob (target_count p (os_backlog ob) (os_recent_peak ob)) (in_bucket ob BkOnline)
      (rollout p ob (target_count p (os_backlog ob) (os_recent_peak ob)) (in_bucket ob BkOnline) (plan_start ob))) = []"
    (is "_ \<longleftrightarrow> ?rhs")
proof
  assume e: "plan p ob = []"
  obtain cs x where x: "plan p ob = reaps ob @ cs @ last_actions p x" "ps_actions (plan_filled p ob) = reaps ob @ cs"
    by (rule plan_split [OF assms refl]) blast
  with e have "reaps ob = []" "ps_actions (plan_filled p ob) = reaps ob" by simp_all
  moreover from this(2) have "filled_up p ob" by (rule plan_filled_same)
  ultimately show ?rhs
    using e assms by (simp add: filled_up_iff plan_def Let_def)
next
  assume ?rhs
  with assms show "plan p ob = []" by (simp add: filled_up_iff plan_def Let_def)
qed

text \<open>
  When the planner rests. With a surge of at least one, and every online instance registered to a
  runner, a normal plan is empty exactly when: nothing is dead and every draining instance is still
  working; capacity and location minimums are met, or a cap forbids creating; every online instance
  is at the target version, or the rollout can move neither way, because nothing above the target is
  online and capacity is already surged or a cap forbids surging; and once rolled out and past the
  grace window, there is no surplus, or every idle instance is one its location's minimum needs.
\<close>

theorem plan_empty_iff:
  assumes "\<not> ft_teardown p" "\<forall>x\<in>set (in_bucket ob BkOnline). truthy (ov_runner x)"
  shows "(let t = target_count p (os_backlog ob) (os_recent_peak ob); online = in_bucket ob BkOnline;
              outdated = outdated_of p online
     in plan p ob = [] \<longleftrightarrow>
        in_bucket ob BkDead = [] \<and> (\<forall>d\<in>set (in_bucket ob BkDraining). ov_busy d) \<and>
        filled_up p ob \<and>
        (ft_target_version p \<noteq> None \<and> outdated \<noteq> [] \<longrightarrow>
           int (length online) \<le> t \<and> (t + ft_surge p \<le> live_seen ob \<or> capped p ob (plan_start ob))) \<and>
        (outdated = [] \<and> ft_scale_down_grace p \<le> os_surplus_ticks ob \<longrightarrow>
           live_seen ob \<le> t \<or>
           (\<forall>h\<in>set online. \<not> ov_busy h \<longrightarrow>
              loc_count (ps_by_loc (plan_start ob)) (pi_location h) \<le> ft_min_per_location p)))"
proof -
  define t where "t = target_count p (os_backlog ob) (os_recent_peak ob)"
  let ?on = "in_bucket ob BkOnline" and ?s = "plan_start ob"
  have reaped: "reaps ob = [] \<longleftrightarrow> in_bucket ob BkDead = [] \<and> (\<forall>d\<in>set (in_bucket ob BkDraining). ov_busy d)"
    by (auto simp: reaps_def plan_start_def filter_empty_conv)
  have rest: "ps_actions (scale_down p ob t ?on (rollout p ob t ?on ?s)) = [] \<longleftrightarrow>
      (ft_target_version p \<noteq> None \<and> outdated_of p ?on \<noteq> [] \<longrightarrow>
         int (length ?on) \<le> t \<and> (t + ft_surge p \<le> live_seen ob \<or> capped p ob ?s)) \<and>
      (outdated_of p ?on = [] \<and> ft_scale_down_grace p \<le> os_surplus_ticks ob \<longrightarrow>
         live_seen ob \<le> t \<or>
         (\<forall>h\<in>set ?on. \<not> ov_busy h \<longrightarrow> loc_count (ps_by_loc ?s) (pi_location h) \<le> ft_min_per_location p))"
    if "reaps ob = []"
  proof (cases "outdated_of p ?on = []")
    case True
    then have "rollout p ob t ?on ?s = ?s" by (simp add: rollout_def)
    with True that show ?thesis
      by (auto simp: scale_down_def drop_idle_effect dropped_empty plan_start_sel idle_sorted_mem)
  next
    case False
    let ?v = "case List.find (\<lambda>h. \<not> ov_busy h) (outdated_of p ?on) of Some h \<Rightarrow> h | None \<Rightarrow> hd (outdated_of p ?on)"
    obtain v where v: "v = ?v" by blast
    have "v \<in> set (outdated_of p ?on)" unfolding v by (rule victim_mem [OF False])
    then have "truthy (ov_runner v)" using assms(2) by (simp add: outdated_of_def)
    with False that show ?thesis
      unfolding scale_down_def rollout_def Let_def v [symmetric]
      by (auto simp: add_action_def create_vm_def capped_def plan_start_sel)
  qed
  show ?thesis
    unfolding Let_def plan_empty_parts [OF assms(1)] t_def [symmetric] using reaped rest by blast
qed

theorem plan_empty_iff_witness:
  "plan sample_pool (sample_view [sample_vm ''a'' RsOnline ''v2''] 0 7) = []"
proof -
  let ?ob = "sample_view [sample_vm ''a'' RsOnline ''v2''] 0 7"
  have "\<not> ft_teardown sample_pool" "\<forall>x\<in>set (in_bucket ?ob BkOnline). truthy (ov_runner x)"
    by (simp_all add: sample_pool_def sample_view_def sample_vm_def in_bucket_def truthy_def)
  note plan_empty_iff [OF this]
  moreover have "in_bucket ?ob BkDead = []" "in_bucket ?ob BkDraining = []" "outdated_of sample_pool (in_bucket ?ob BkOnline) = []"
    "live_seen ?ob \<le> target_count sample_pool (os_backlog ?ob) (os_recent_peak ?ob)"
    by code_simp+
  moreover have "filled_up sample_pool ?ob" by code_simp
  ultimately show ?thesis by (simp add: Let_def)
qed

text \<open>
  An instance whose runner went offline in the middle of a job is reaped as dead, busy or not.
\<close>

lemma plan_destroys_busy_offline:
  "plan sample_pool (sample_view [sample_vm ''a'' RsOnline ''v2'', (sample_vm ''b'' RsOffline ''v2'')\<lparr>ov_busy := True\<rparr>] 0 0) =
     [ActDestroy ''b'' ReapDead]"
  by code_simp

text \<open>A pool without a target version never scales down while an online instance carries a version.\<close>

lemma unversioned_never_scales_down:
  assumes "\<not> ft_teardown p" "ft_target_version p = None" "x \<in> set (in_bucket ob BkOnline)" "pi_version x \<noteq> None"
  shows "num is_idle_drop (plan p ob) = 0"
proof -
  obtain cs y where y: "plan p ob = reaps ob @ cs @ last_actions p y" 
    "last_step_ok p ob (target_count p (os_backlog ob) (os_recent_peak ob)) (plan_filled p ob) y" "\<forall>a\<in>set cs. is_create a"
    by (rule plan_split [OF assms(1) refl]) blast
  have "outdated_of p (in_bucket ob BkOnline) \<noteq> []"
    using assms(2-4) by (auto simp: outdated_of_def filter_empty_conv)
  then have "drops y = []" using y(2) by (cases y) (simp_all add: last_step_ok_def)
  then show ?thesis unfolding y(1) by (simp add: create_counts [OF y(3)])
qed

end
