(* ===== verification/Fleet_Controller.thy ===== *)
theory Fleet_Controller
  imports Fleet_Plan "HOL-Library.AList"
begin

text \<open>
  The fleet controller (lib/fleet/controller.ts): one reconcile pass of a pool, and of every pool under
  the fleet-wide create budget, over the provider and the dependencies it is handed, which are
  arguments; the in-memory world the repository drives it with (lib/fleet/fake-provider.ts), on which
  the controller's contracts are interpreted; and the serializer of the passes (lib/fleet/scaler.ts).
  Metrics and logging have no effect on what is modelled and are left out.
\<close>

section \<open>The dependencies\<close>

record runner_state =
  rn_id :: string
  rn_status :: runner_status
  rn_version :: "string option"
  rn_busy :: bool

datatype action_kind = KindCreate | KindDrain | KindDestroy

record action_metadata =
  am_instance :: "string option"
  am_location :: "string option"
  am_version :: "string option"

record action_record =
  ar_provider :: string
  ar_action :: action_kind
  ar_reason :: action_reason
  ar_runner :: "string option"
  ar_queue_depth :: int
  ar_pool_size :: int
  ar_metadata :: action_metadata

record 'w fleet_provider =
  pv_list :: "fleet_target \<Rightarrow> ('w, exn, provider_instance list) eff"
  pv_create :: "fleet_target \<Rightarrow> string \<Rightarrow> string option \<Rightarrow> string \<Rightarrow> ('w, exn, unit) eff"
  pv_destroy :: "string \<Rightarrow> ('w, exn, unit) eff"

record 'w controller_deps =
  cd_runner_map :: "string \<Rightarrow> ('w, exn, string \<rightharpoonup> runner_state) eff"
  cd_backlog :: "string \<Rightarrow> ('w, exn, int) eff"
  cd_dispatchable :: "(string \<Rightarrow> ('w, exn, int) eff) option"
  cd_recent_peak :: "string \<Rightarrow> ('w, exn, int) eff"
  cd_ceiling :: "int option option"
  cd_live_managed :: "('w, exn, int) eff option"
  cd_resolve_channel :: "string \<Rightarrow> ('w, exn, string option) eff"
  cd_drain :: "string \<Rightarrow> ('w, exn, unit) eff"
  cd_retire :: "string \<Rightarrow> ('w, exn, unit) eff"
  cd_persist_observed :: "string \<Rightarrow> string \<Rightarrow> string option \<Rightarrow> ('w, exn, unit) eff"
  cd_boot_grace :: int
  cd_mint_token :: "('w, exn, string) eff"
  cd_record_action :: "action_record \<Rightarrow> ('w, exn, unit) eff"
  cd_boot_failures :: "(string \<Rightarrow> int \<Rightarrow> ('w, exn, int) eff) option"
  cd_disable_pool :: "(string \<Rightarrow> ('w, exn, unit) eff) option"
  cd_failure_limit :: "int option"
  cd_failure_window :: "int option"
  cd_scale_lock :: "string \<Rightarrow> ('w, exn, unit) eff \<Rightarrow> ('w, exn, bool) eff"

section \<open>Promises\<close>

text \<open>\<open>await p.catch(log)\<close>: whatever the call answers, the caller goes on.\<close>

definition best_effort :: "('w, 'e, 'a) eff \<Rightarrow> ('w, 'e, unit) eff" where
  "best_effort m w = (Inr (), snd (m w))"

fun for_each :: "('a \<Rightarrow> ('w, 'e, unit) eff) \<Rightarrow> 'a list \<Rightarrow> ('w, 'e, unit) eff" where
  "for_each f [] = ereturn ()"
| "for_each f (x # xs) = ebind (f x) (\<lambda>_. for_each f xs)"

text \<open>
  \<open>Promise.all\<close> of two calls: both run, and a rejection of either rejects. The calls are reads; the
  model runs them in the order they are written.
\<close>

definition all_both :: "('w, 'e, 'a) eff \<Rightarrow> ('w, 'e, 'b) eff \<Rightarrow> ('w, 'e, 'a \<times> 'b) eff" where
  "all_both m n w =
     (case m w of (x, w1) \<Rightarrow> case n w1 of (y, w2) \<Rightarrow>
        (case x of Inl e \<Rightarrow> Inl e | Inr a \<Rightarrow> (case y of Inl e \<Rightarrow> Inl e | Inr b \<Rightarrow> Inr (a, b)), w2))"

section \<open>One pool\<close>

text \<open>What a tick carries in memory: the surplus counters, the create budget (\<open>None\<close> is unlimited).\<close>

record 'w fleet_run =
  fr_surplus :: "string \<rightharpoonup> int"
  fr_budget :: "int option"
  fr_world :: 'w

definition on_world :: "('w, 'e, 'a) eff \<Rightarrow> ('w fleet_run, 'e, 'a) eff" where
  "on_world m c = (case m (fr_world c) of (r, w) \<Rightarrow> (r, c\<lparr>fr_world := w\<rparr>))"

definition resolve_version :: "'w controller_deps \<Rightarrow> fleet_target \<Rightarrow> ('w, exn, string option) eff" where
  "resolve_version deps p =
     (if ft_target_version p = None \<and> truthy (ft_channel p)
      then cd_resolve_channel deps (the (ft_channel p))
      else ereturn (ft_target_version p))"

definition observe_instance :: "(string \<rightharpoonup> runner_state) \<Rightarrow> provider_instance \<Rightarrow> observed_instance" where
  "observe_instance rmap i =
     (case rmap (pi_id i) of
        None \<Rightarrow> \<lparr>pi_id = pi_id i, pi_location = pi_location i, pi_version = pi_version i, pi_age = pi_age i,
                 ov_runner = None, ov_status = RsNone, ov_busy = False\<rparr>
      | Some r \<Rightarrow> \<lparr>pi_id = pi_id i, pi_location = pi_location i,
                 pi_version = coalesce (rn_version r) (pi_version i), pi_age = pi_age i,
                 ov_runner = Some (rn_id r), ov_status = rn_status r, ov_busy = rn_busy r\<rparr>)"

definition persist_all :: "'w controller_deps \<Rightarrow> observed_instance list \<Rightarrow> ('w, exn, unit) eff" where
  "persist_all deps obs =
     for_each (\<lambda>x. best_effort (cd_persist_observed deps (the (ov_runner x)) (pi_location x) (pi_version x)))
       (filter (\<lambda>x. ov_runner x \<noteq> None \<and> pi_location x \<noteq> []) obs)"

text \<open>\<open>new Map(...)\<close> keeps the last instance of an id.\<close>

definition by_instance :: "observed_instance list \<Rightarrow> string \<Rightarrow> observed_instance option" where
  "by_instance obs i = List.find (\<lambda>x. pi_id x = i) (rev obs)"

definition record_of :: "fleet_target \<Rightarrow> int \<Rightarrow> int \<Rightarrow> action_kind \<Rightarrow> action_reason \<Rightarrow> string option \<Rightarrow>
    action_metadata \<Rightarrow> action_record" where
  "record_of p backlog online k r runner m =
     \<lparr>ar_provider = ft_provider p, ar_action = k, ar_reason = r, ar_runner = runner,
      ar_queue_depth = backlog, ar_pool_size = online, ar_metadata = m\<rparr>"

definition apply_action ::
  "'w fleet_provider \<Rightarrow> 'w controller_deps \<Rightarrow> fleet_target \<Rightarrow> observed_instance list \<Rightarrow> int \<Rightarrow> int \<Rightarrow>
   fleet_action \<Rightarrow> ('w, exn, unit) eff" where
  "apply_action prov deps p obs backlog online a =
     (case a of
        ActCreate l v r \<Rightarrow>
          ebind (cd_mint_token deps) (\<lambda>token w.
            case pv_create prov p l v token w of
              (Inl e, w') \<Rightarrow> ereturn () w'
            | (Inr _, w') \<Rightarrow> best_effort (cd_record_action deps (record_of p backlog online KindCreate r None
                 \<lparr>am_instance = None, am_location = Some l, am_version = v\<rparr>)) w')
      | ActDrain runner i r \<Rightarrow>
          ebind (cd_drain deps runner) (\<lambda>_.
            best_effort (cd_record_action deps (record_of p backlog online KindDrain r (Some runner)
              \<lparr>am_instance = Some i, am_location = None, am_version = None\<rparr>)))
      | ActDestroy i r \<Rightarrow>
          ebind (pv_destroy prov i) (\<lambda>_.
            let x = by_instance obs i; runner = Option.bind x ov_runner
            in ebind (if truthy runner then cd_retire deps (the runner) else ereturn ()) (\<lambda>_.
               best_effort (cd_record_action deps (record_of p backlog online KindDestroy r runner
                 \<lparr>am_instance = Some i, am_location = map_option pi_location x, am_version = None\<rparr>)))))"

definition is_reap_dead :: "fleet_action \<Rightarrow> bool" where
  "is_reap_dead a \<longleftrightarrow> (case a of ActDestroy _ ReapDead \<Rightarrow> True | _ \<Rightarrow> False)"

text \<open>The circuit breaker; a failed count reads as no failures, a failed pause is logged.\<close>

definition breaker :: "'w controller_deps \<Rightarrow> fleet_target \<Rightarrow> fleet_action list \<Rightarrow> int \<Rightarrow> ('w, exn, unit) eff" where
  "breaker deps p actions online w =
     (case (cd_boot_failures deps, cd_disable_pool deps) of
        (Some failures, Some disable) \<Rightarrow>
          if (\<exists>a\<in>set actions. is_reap_dead a) \<and> online = 0
          then (let limit = (case cd_failure_limit deps of None \<Rightarrow> 5 | Some n \<Rightarrow> n);
                    window = (case cd_failure_window deps of None \<Rightarrow> 30 | Some n \<Rightarrow> n)
                in case failures (ft_provider p) window w of
                     (r, w1) \<Rightarrow>
                       if limit \<le> (case r of Inl _ \<Rightarrow> 0 | Inr n \<Rightarrow> n)
                       then best_effort (disable (ft_provider p)) w1
                       else ereturn () w1)
          else ereturn () w
      | _ \<Rightarrow> ereturn () w)"

text \<open>The reads of a pass, up to the plan's inputs.\<close>

definition pool_reads ::
  "'w fleet_provider \<Rightarrow> 'w controller_deps \<Rightarrow> fleet_target \<Rightarrow>
   ('w, exn, fleet_target \<times> observed_instance list \<times> int \<times> int \<times> int) eff" where
  "pool_reads prov deps p =
     ebind (resolve_version deps p) (\<lambda>v.
       let q = p\<lparr>ft_target_version := v\<rparr>
       in ebind (all_both (pv_list prov q) (all_both (cd_runner_map deps (ft_provider p))
                  (all_both (cd_backlog deps (ft_provider p)) (cd_recent_peak deps (ft_provider p)))))
            (\<lambda>(instances, rmap, backlog, peak).
               let obs = map (observe_instance rmap) instances
               in ebind (persist_all deps obs) (\<lambda>_.
                    ebind (case cd_dispatchable deps of Some f \<Rightarrow> f (ft_provider p) | None \<Rightarrow> ereturn backlog)
                      (\<lambda>dispatchable. ereturn (q, obs, backlog, dispatchable, peak)))))"

definition surplus_after :: "(string \<rightharpoonup> int) \<Rightarrow> string \<Rightarrow> int \<Rightarrow> int \<Rightarrow> int" where
  "surplus_after m prov online target =
     (if target < online then (case m prov of None \<Rightarrow> 0 | Some n \<Rightarrow> n) + 1 else 0)"

definition spend :: "int option \<Rightarrow> fleet_action list \<Rightarrow> int option" where
  "spend budget actions = map_option (\<lambda>n. max 0 (n - num is_create actions)) budget"

definition reconcile_pool ::
  "'w fleet_provider \<Rightarrow> 'w controller_deps \<Rightarrow> fleet_target \<Rightarrow> ('w fleet_run, exn, int) eff" where
  "reconcile_pool prov deps p =
     ebind (on_world (pool_reads prov deps p)) (\<lambda>(q, obs, backlog, dispatchable, peak) c.
       let target = target_count q dispatchable peak;
           online = num (\<lambda>x. ov_status x = RsOnline) obs;
           ticks = surplus_after (fr_surplus c) (ft_provider p) online target;
           actions = plan q \<lparr>os_instances = obs, os_backlog = dispatchable, os_recent_peak = peak,
             os_boot_grace = cd_boot_grace deps, os_surplus_ticks = ticks, os_max_creates = fr_budget c\<rparr>;
           c' = c\<lparr>fr_surplus := (fr_surplus c)(ft_provider p \<mapsto> ticks), fr_budget := spend (fr_budget c) actions\<rparr>
       in if actions = [] then ereturn 0 c'
          else ebind (on_world (cd_scale_lock deps (ft_provider p)
                   (for_each (apply_action prov deps q obs backlog online) actions)))
                 (\<lambda>acquired.
                    if \<not> acquired then ereturn 0
                    else ebind (on_world (breaker deps p actions online)) (\<lambda>_. ereturn (int (length actions)))) c')"

section \<open>Every pool\<close>

text \<open>A pool whose pass is rejected is logged; the next one runs.\<close>

fun reconcile_each ::
  "'w fleet_provider \<Rightarrow> 'w controller_deps \<Rightarrow> fleet_target list \<Rightarrow> 'w fleet_run \<Rightarrow> 'w fleet_run" where
  "reconcile_each prov deps [] c = c"
| "reconcile_each prov deps (p # ps) c = reconcile_each prov deps ps (snd (reconcile_pool prov deps p c))"

definition ceiling_of :: "'w controller_deps \<Rightarrow> int option" where
  "ceiling_of deps = (case cd_ceiling deps of None \<Rightarrow> None | Some n \<Rightarrow> n)"

definition reconcile_all ::
  "'w fleet_provider \<Rightarrow> 'w controller_deps \<Rightarrow> fleet_target list \<Rightarrow> ('w fleet_run, exn, unit) eff" where
  "reconcile_all prov deps ps =
     ebind (case (ceiling_of deps, cd_live_managed deps) of
              (Some ceiling, Some live) \<Rightarrow>
                ebind (on_world live) (\<lambda>n. ereturn (Some (max 0 (ceiling - n))))
            | _ \<Rightarrow> ereturn None)
       (\<lambda>remaining c. (Inr (), reconcile_each prov deps ps (c\<lparr>fr_budget := remaining\<rparr>)))"

section \<open>The in-memory world\<close>

record fake_instance = provider_instance +
  fk_status :: runner_status
  fk_busy :: bool
  fk_runner :: "string option"

record fake_fleet =
  ff_instances :: "(string \<times> fake_instance) list"
  ff_idc :: nat
  ff_backlog :: int
  ff_recent_peak :: int
  ff_channel_version :: "string option"
  ff_boot_grace :: int
  ff_persisted :: "string \<rightharpoonup> string \<times> string option"
  ff_recorded :: "action_record list"

definition fake_list :: "fake_fleet \<Rightarrow> provider_instance list" where
  "fake_list w = map (\<lambda>(_, i). \<lparr>pi_id = pi_id i, pi_location = pi_location i, pi_version = pi_version i, pi_age = pi_age i\<rparr>)
     (ff_instances w)"

definition fake_create :: "string \<Rightarrow> string option \<Rightarrow> fake_fleet \<Rightarrow> fake_fleet" where
  "fake_create l v w =
     (let i = ''f'' @ nat_str (ff_idc w)
      in w\<lparr>ff_idc := ff_idc w + 1,
           ff_instances := AList.update i
             \<lparr>pi_id = i, pi_location = l, pi_version = v, pi_age = 0, fk_status = RsNone, fk_busy = False, fk_runner = None\<rparr>
             (ff_instances w)\<rparr>)"

definition fake_destroy :: "string \<Rightarrow> fake_fleet \<Rightarrow> fake_fleet" where
  "fake_destroy i w = w\<lparr>ff_instances := AList.delete i (ff_instances w)\<rparr>"

definition fake_provider :: "fake_fleet fleet_provider" where
  "fake_provider = \<lparr>pv_list = (\<lambda>_ w. (Inr (fake_list w), w)),
     pv_create = (\<lambda>_ l v _ w. (Inr (), fake_create l v w)),
     pv_destroy = (\<lambda>i w. (Inr (), fake_destroy i w))\<rparr>"

definition add_runner :: "string \<times> fake_instance \<Rightarrow> (string \<rightharpoonup> runner_state) \<Rightarrow> (string \<rightharpoonup> runner_state)" where
  "add_runner x m =
     (case x of (_, i) \<Rightarrow>
        if fk_status i \<noteq> RsNone \<and> truthy (fk_runner i)
        then m(pi_id i \<mapsto> \<lparr>rn_id = the (fk_runner i), rn_status = fk_status i, rn_version = pi_version i, rn_busy = fk_busy i\<rparr>)
        else m)"

definition fake_runner_map :: "fake_fleet \<Rightarrow> string \<rightharpoonup> runner_state" where
  "fake_runner_map w = fold add_runner (ff_instances w) Map.empty"

text \<open>\<open>for (const i of this.instances.values()) if (i.runnerId === runnerId) i.status = ...\<close>\<close>

definition fake_set_status :: "string \<Rightarrow> runner_status \<Rightarrow> fake_fleet \<Rightarrow> fake_fleet" where
  "fake_set_status r st w = w\<lparr>ff_instances :=
     map (\<lambda>(k, i). (k, if fk_runner i = Some r then i\<lparr>fk_status := st\<rparr> else i)) (ff_instances w)\<rparr>"

definition fake_deps :: "fake_fleet \<Rightarrow> fake_fleet controller_deps" where
  "fake_deps w0 = \<lparr>cd_runner_map = (\<lambda>_ w. (Inr (fake_runner_map w), w)),
     cd_backlog = (\<lambda>_ w. (Inr (ff_backlog w), w)),
     cd_dispatchable = None,
     cd_recent_peak = (\<lambda>_ w. (Inr (ff_recent_peak w), w)),
     cd_ceiling = None, cd_live_managed = None,
     cd_resolve_channel = (\<lambda>_ w. (Inr (ff_channel_version w), w)),
     cd_drain = (\<lambda>r w. (Inr (), fake_set_status r RsDraining w)),
     cd_retire = (\<lambda>r w. (Inr (), fake_set_status r RsOffline w)),
     cd_persist_observed = (\<lambda>r l v w. (Inr (), w\<lparr>ff_persisted := (ff_persisted w)(r \<mapsto> (l, v))\<rparr>)),
     cd_boot_grace = ff_boot_grace w0,
     cd_mint_token = (\<lambda>w. (Inr (''fake-boot-'' @ nat_str (ff_idc w)), w)),
     cd_record_action = (\<lambda>x w. (Inr (), w\<lparr>ff_recorded := ff_recorded w @ [x]\<rparr>)),
     cd_boot_failures = None, cd_disable_pool = None, cd_failure_limit = None, cd_failure_window = None,
     cd_scale_lock = (\<lambda>_ apply. ebind apply (\<lambda>_. ereturn True))\<rparr>"

definition fake_seed :: "fake_instance \<Rightarrow> fake_fleet \<Rightarrow> fake_fleet" where
  "fake_seed i w = w\<lparr>ff_instances := AList.update (pi_id i) i (ff_instances w)\<rparr>"

definition fake_tick :: "fake_fleet \<Rightarrow> fake_fleet" where
  "fake_tick w = w\<lparr>ff_instances := map (\<lambda>(k, i). (k,
     if fk_status i = RsNone
     then i\<lparr>fk_status := RsOnline, fk_runner := Some (''r-'' @ pi_id i), pi_age := 300\<rparr>
     else i\<lparr>pi_age := pi_age i + 60\<rparr>)) (ff_instances w)\<rparr>"

section \<open>The create budget\<close>

definition adds :: "('w \<Rightarrow> nat) \<Rightarrow> nat \<Rightarrow> ('w, 'e, 'a) eff \<Rightarrow> bool" where
  "adds made n m \<longleftrightarrow> (\<forall>w. made (snd (m w)) \<le> made w + n)"

lemma adds_ereturn [simp]: "adds made n (ereturn a)"
  by (simp add: adds_def ereturn_def)

lemma adds_ebind:
  assumes "adds made a m" "\<And>x. adds made b (f x)" "a + b \<le> n"
  shows "adds made n (ebind m f)"
  unfolding adds_def
proof
  fix w
  obtain r w1 where m: "m w = (r, w1)" by fastforce
  with assms(1) have "made w1 \<le> made w + a" unfolding adds_def by (metis snd_conv)
  moreover have "made (snd (f x w1)) \<le> made w1 + b" for x using assms(2) by (simp add: adds_def)
  ultimately have "made (snd (f x w1)) \<le> made w + n" "made w1 \<le> made w + n" for x
    using assms(3) by (smt (verit) le_trans add_le_mono1 add.assoc add.commute nat_add_left_cancel_le, linarith)
  then show "made (snd (ebind m f w)) \<le> made w + n"
    using m by (cases r) (simp_all add: ebind_def)
qed

lemma adds_best_effort: "adds made n m \<Longrightarrow> adds made n (best_effort m)"
  by (simp add: adds_def best_effort_def)

lemma adds_all_both:
  assumes "adds made 0 m" "adds made 0 n"
  shows "adds made 0 (all_both m n)"
  using assms unfolding adds_def all_both_def
  by (auto split: prod.split) (metis le_trans snd_conv)

lemma adds_for_each:
  assumes "\<And>x. x \<in> set xs \<Longrightarrow> adds made (g x) (f x)"
  shows "adds made (\<Sum>x\<leftarrow>xs. g x) (for_each f xs)"
  using assms by (induction xs) (auto intro!: adds_ebind)

lemma on_world_then:
  "ebind (on_world l) (\<lambda>a. if \<not> a then ereturn z else ebind (on_world k) (\<lambda>_. ereturn y)) s =
    on_world (ebind l (\<lambda>a. if \<not> a then ereturn z else ebind k (\<lambda>_. ereturn y))) s"
  by (auto simp: ebind_def on_world_def ereturn_def split: prod.split sum.split)

text \<open>
  What the budget needs of the world: only a create call makes an instance, at most one, and the scale
  lock runs the pass's mutations at most once.
\<close>

locale create_count =
  fixes prov :: "'w fleet_provider" and deps :: "'w controller_deps" and made :: "'w \<Rightarrow> nat"
  assumes provider_adds: "adds made 0 (pv_list prov p)" "adds made 1 (pv_create prov p l v t)" "adds made 0 (pv_destroy prov i)"
    and read_adds: "adds made 0 (cd_runner_map deps s)" "adds made 0 (cd_backlog deps s)" "adds made 0 (cd_recent_peak deps s)"
      "adds made 0 (cd_resolve_channel deps s)" "adds made 0 (cd_mint_token deps)"
    and write_adds: "adds made 0 (cd_drain deps s)" "adds made 0 (cd_retire deps s)" "adds made 0 (cd_persist_observed deps s l v)"
      "adds made 0 (cd_record_action deps r)"
    and optional_adds: "cd_dispatchable deps = Some f1 \<Longrightarrow> adds made 0 (f1 s)" "cd_live_managed deps = Some f2 \<Longrightarrow> adds made 0 f2"
      "cd_boot_failures deps = Some f3 \<Longrightarrow> adds made 0 (f3 s n)" "cd_disable_pool deps = Some f4 \<Longrightarrow> adds made 0 (f4 s)"
    and lock_adds: "adds made k m \<Longrightarrow> adds made k (cd_scale_lock deps s m)"
begin

lemma dispatchable_adds:
  "adds made 0 (case cd_dispatchable deps of Some f \<Rightarrow> f s | None \<Rightarrow> ereturn n)"
  by (cases "cd_dispatchable deps") (simp_all add: optional_adds(1))

lemma reads_add: "adds made 0 (pool_reads prov deps p)"
  unfolding pool_reads_def Let_def resolve_version_def persist_all_def
  by (intro adds_ebind [where a = 0 and b = 0] adds_all_both provider_adds read_adds)
    (auto intro!: adds_ebind [where a = 0 and b = 0] read_adds write_adds dispatchable_adds adds_best_effort
       adds_for_each [where g = "\<lambda>_. 0", simplified] split: prod.split)

lemma apply_adds: "adds made (if is_create a then 1 else 0) (apply_action prov deps p obs b online a)"
proof (cases a)
  case (ActCreate l v r)
  have "made (snd (apply_action prov deps p obs b online a w)) \<le> made w + 1" for w
  proof (cases "cd_mint_token deps w")
    case m: (Pair t w1)
    have w1: "made w1 \<le> made w" using read_adds(5) m unfolding adds_def by (metis add_0_right snd_conv)
    show ?thesis
    proof (cases t)
      case (Inr token)
      obtain x w2 where c: "pv_create prov p l v token w1 = (x, w2)" by fastforce
      have "made w2 \<le> made w1 + 1" using provider_adds(2) c unfolding adds_def by (metis snd_conv)
      moreover have "made (snd (cd_record_action deps y w2)) \<le> made w2" for y
        using write_adds(4) by (simp add: adds_def)
      ultimately have "made w2 \<le> made w + 1" "made (snd (cd_record_action deps y w2)) \<le> made w + 1" for y
        using w1 by (linarith, meson add_le_mono1 le_trans)
      then show ?thesis
        using ActCreate m Inr c
        by (cases x) (simp_all add: apply_action_def ebind_def ereturn_def best_effort_def)
    qed (use ActCreate m w1 in \<open>simp add: apply_action_def ebind_def\<close>)
  qed
  with ActCreate show ?thesis by (simp add: adds_def)
next
  case (ActDrain w i r)
  then show ?thesis
    by (auto simp: apply_action_def intro!: adds_ebind [where a = 0 and b = 0] write_adds adds_best_effort)
next
  case (ActDestroy i r)
  then show ?thesis
    by (auto simp: apply_action_def Let_def intro!: adds_ebind [where a = 0 and b = 0] provider_adds write_adds adds_best_effort)
qed

lemma apply_all_adds: "adds made (nat (num is_create as)) (for_each (apply_action prov deps p obs b online) as)"
proof -
  have "(\<Sum>a\<leftarrow>as. if is_create a then 1 else 0) = nat (num is_create as)"
    by (induction as) (simp_all add: nat_add_distrib)
  with adds_for_each [of as made "\<lambda>a. if is_create a then 1 else 0" "apply_action prov deps p obs b online", OF apply_adds]
  show ?thesis by simp
qed

lemma breaker_adds: "adds made 0 (breaker deps p as online)"
proof (cases "cd_boot_failures deps"; cases "cd_disable_pool deps")
  fix f g assume f: "cd_boot_failures deps = Some f" and g: "cd_disable_pool deps = Some g"
  have fs: "f s n w = (x, w') \<Longrightarrow> made w' \<le> made w" and gs: "made (snd (g s w)) \<le> made w" for s n w x w'
    using optional_adds(3) [OF f, of s n] optional_adds(4) [OF g, of s] unfolding adds_def
    by (metis add_0_right snd_conv)+
  show ?thesis
    using f g by (auto simp: breaker_def adds_def best_effort_def ereturn_def Let_def split: prod.split
        intro: order_trans [OF gs] dest: fs)
qed (simp_all add: breaker_def adds_def ereturn_def)

text \<open>A budget and what was made add up: a pass moves creations from the one to the other.\<close>

definition within :: "int \<Rightarrow> 'w fleet_run \<Rightarrow> bool" where
  "within cap c \<longleftrightarrow> (\<exists>n. fr_budget c = Some n \<and> 0 \<le> n \<and> int (made (fr_world c)) + n \<le> cap)"

lemma pool_within:
  assumes "within cap c"
  shows "within cap (snd (reconcile_pool prov deps p c))"
proof -
  obtain n where n: "fr_budget c = Some n" "0 \<le> n" "int (made (fr_world c)) + n \<le> cap"
    using assms by (auto simp: within_def)
  obtain r w1 where rd: "pool_reads prov deps p (fr_world c) = (r, w1)" by fastforce
  have w1: "made w1 \<le> made (fr_world c)" using reads_add rd unfolding adds_def by (metis add_0_right snd_conv)
  show ?thesis
  proof (cases r)
    case (Inl e)
    then show ?thesis
      using n w1 rd by (simp add: reconcile_pool_def ebind_def on_world_def within_def)
  next
    case (Inr x)
    obtain q obs b d peak where x: "x = (q, obs, b, d, peak)" by (cases x) auto
    define online where "online = num (\<lambda>x. ov_status x = RsOnline) obs"
    define ticks where "ticks = surplus_after (fr_surplus c) (ft_provider p) online (target_count q d peak)"
    define as where "as = plan q \<lparr>os_instances = obs, os_backlog = d, os_recent_peak = peak,
             os_boot_grace = cd_boot_grace deps, os_surplus_ticks = ticks, os_max_creates = fr_budget c\<rparr>"
    have k: "num is_create as \<le> n"
      using plan_creates_budget [of "\<lparr>os_instances = obs, os_backlog = d, os_recent_peak = peak,
             os_boot_grace = cd_boot_grace deps, os_surplus_ticks = ticks, os_max_creates = fr_budget c\<rparr>" n q] n
      by (simp add: as_def)
    let ?m = "ebind (cd_scale_lock deps (ft_provider p) (for_each (apply_action prov deps q obs b online) as))
      (\<lambda>acquired. if \<not> acquired then ereturn 0 else ebind (breaker deps p as online) (\<lambda>_. ereturn (int (length as))))"
    have m: "adds made (nat (num is_create as)) ?m"
      by (rule adds_ebind [OF lock_adds [OF apply_all_adds], where b = 0])
        (auto intro!: adds_ebind [where a = 0 and b = 0] breaker_adds)
    let ?c = "c\<lparr>fr_world := w1, fr_surplus := (fr_surplus c)(ft_provider p \<mapsto> ticks), fr_budget := spend (fr_budget c) as\<rparr>"
    have run: "reconcile_pool prov deps p c = (if as = [] then ereturn 0 ?c else on_world ?m ?c)"
      using rd Inr unfolding reconcile_pool_def ebind_def [of "on_world (pool_reads prov deps p)"]
      by (simp add: on_world_def [of "pool_reads prov deps p"] x Let_def on_world_then as_def online_def ticks_def cong: if_cong)
    have "int (made (fr_world (snd (on_world ?m ?c)))) \<le> int (made (fr_world c)) + num is_create as"
      using m w1 unfolding adds_def on_world_def
      by (simp split: prod.split) (smt (verit) snd_conv nat_eq_iff2 num_nonneg of_nat_add of_nat_le_iff)
    moreover have "fr_budget (snd (on_world ?m ?c)) = Some (n - num is_create as)"
      using k n by (simp add: on_world_def spend_def split: prod.split)
    ultimately show ?thesis
      using n w1 k by (auto simp: run within_def ereturn_def spend_def)
  qed
qed

lemma each_within: "within cap c \<Longrightarrow> within cap (reconcile_each prov deps ps c)"
  by (induction ps arbitrary: c) (auto intro: pool_within)

lemma all_within_ceiling:
  assumes "ceiling_of deps = Some ceiling" "cd_live_managed deps = Some live" "fst (live (fr_world c)) = Inr n"
  shows "int (made (fr_world (snd (reconcile_all prov deps ps c)))) \<le> int (made (fr_world c)) + max 0 (ceiling - n)"
proof -
  obtain w1 where l: "live (fr_world c) = (Inr n, w1)" using assms(3) by (metis prod.collapse)
  then have "made w1 \<le> made (fr_world c)"
    using optional_adds(2) [OF assms(2)] unfolding adds_def by (metis add_0_right snd_conv)
  then have "within (int (made (fr_world c)) + max 0 (ceiling - n)) (c\<lparr>fr_world := w1, fr_budget := Some (max 0 (ceiling - n))\<rparr>)"
    by (simp add: within_def)
  from each_within [OF this, of ps] show ?thesis
    using assms l by (auto simp: reconcile_all_def ebind_def on_world_def ereturn_def within_def)
qed

end

lemma fake_idc [simp]:
  "ff_idc (fake_create l v w) = ff_idc w + 1" "ff_idc (fake_destroy i w) = ff_idc w"
  "ff_idc (fake_set_status r st w) = ff_idc w"
  by (simp_all add: fake_create_def fake_destroy_def fake_set_status_def Let_def)

text \<open>The in-memory world with a fleet-wide ceiling, its live count being the instances it holds.\<close>

definition fake_deps_capped :: "fake_fleet \<Rightarrow> int \<Rightarrow> fake_fleet controller_deps" where
  "fake_deps_capped w0 ceiling = (fake_deps w0)
     \<lparr>cd_ceiling := Some (Some ceiling), cd_live_managed := Some (\<lambda>w. (Inr (int (length (ff_instances w))), w))\<rparr>"

interpretation fake_count: create_count fake_provider "fake_deps w0" ff_idc for w0
  by unfold_locales
    (auto simp: fake_provider_def fake_deps_def adds_def ereturn_def intro!: adds_ebind [where b = 0, unfolded adds_def, rule_format])

interpretation fake_capped: create_count fake_provider "fake_deps_capped w0 n" ff_idc for w0 n
  by unfold_locales
    (auto simp: fake_provider_def fake_deps_def fake_deps_capped_def adds_def ereturn_def
       intro!: adds_ebind [where b = 0, unfolded adds_def, rule_format])

text \<open>
  C17. The fleet-wide ceiling. Over any provider and dependencies in which only a create call makes an
  instance, at most one each, and the scale lock runs a pass's mutations at most once: one tick over
  every pool makes at most as many instances as the ceiling leaves above the live count it read,
  whatever the pools demand, whichever calls are rejected, and none when the ceiling is already met.
\<close>

theorem fleet_stays_under_ceiling:
  assumes "create_count prov deps made"
    and "ceiling_of deps = Some ceiling" "cd_live_managed deps = Some live" "fst (live (fr_world c)) = Inr n"
  shows "int (made (fr_world (snd (reconcile_all prov deps ps c)))) \<le> int (made (fr_world c)) + max 0 (ceiling - n)"
  using assms(2-4) by (rule create_count.all_within_ceiling [OF assms(1)])

definition empty_fake :: fake_fleet where
  "empty_fake = \<lparr>ff_instances = [], ff_idc = 0, ff_backlog = 9, ff_recent_peak = 0, ff_channel_version = None,
     ff_boot_grace = 180, ff_persisted = Map.empty, ff_recorded = []\<rparr>"

definition fake_start :: "fake_fleet fleet_run" where
  "fake_start = \<lparr>fr_surplus = Map.empty, fr_budget = None, fr_world = empty_fake\<rparr>"

theorem fleet_stays_under_ceiling_witness:
  "let w = fr_world (snd (reconcile_all fake_provider (fake_deps_capped empty_fake 1) [sample_pool] fake_start))
   in ff_idc w = 1 \<and> int (ff_idc w) \<le> 0 + max 0 (1 - 0)"
proof -
  have "ceiling_of (fake_deps_capped empty_fake 1) = Some 1"
    "cd_live_managed (fake_deps_capped empty_fake 1) = Some (\<lambda>w. (Inr (int (length (ff_instances w))), w))"
    by (simp_all add: ceiling_of_def fake_deps_capped_def)
  note fleet_stays_under_ceiling [OF fake_capped.create_count_axioms this, of fake_start 0 "[sample_pool]"]
  moreover have "ff_idc (fr_world (snd (reconcile_all fake_provider (fake_deps_capped empty_fake 1) [sample_pool] fake_start))) = 1"
    by code_simp
  ultimately show ?thesis
    by (simp add: fake_start_def empty_fake_def)
qed

section \<open>Tearing a pool down\<close>

text \<open>
  A call that answers, its answer satisfying \<open>P\<close>, and takes a sound world whose instances are seen as
  \<open>V\<close> to one whose instances are seen as \<open>V'\<close>.
\<close>

definition gives :: "('w \<Rightarrow> bool) \<Rightarrow> ('w \<Rightarrow> 'v) \<Rightarrow> ('w, 'e, 'a) eff \<Rightarrow> 'v \<Rightarrow> 'v \<Rightarrow> ('a \<Rightarrow> bool) \<Rightarrow> bool" where
  "gives ok vms m V V' P \<longleftrightarrow>
     (\<forall>w. ok w \<and> vms w = V \<longrightarrow> (\<exists>a w'. m w = (Inr a, w') \<and> P a \<and> ok w' \<and> vms w' = V'))"

lemma gives_ereturn [simp]: "P a \<Longrightarrow> gives ok vms (ereturn a) V V P"
  by (simp add: gives_def ereturn_def)

lemma gives_ebind:
  assumes "gives ok vms m V V' P" "\<And>a. P a \<Longrightarrow> gives ok vms (f a) V' V'' Q"
  shows "gives ok vms (ebind m f) V V'' Q"
  unfolding gives_def
proof (intro allI impI)
  fix w assume "ok w \<and> vms w = V"
  with assms(1) obtain a w1 where "m w = (Inr a, w1)" "P a" "ok w1 \<and> vms w1 = V'"
    unfolding gives_def by blast
  with assms(2) [of a] show "\<exists>a w'. ebind m f w = (Inr a, w') \<and> Q a \<and> ok w' \<and> vms w' = V''"
    unfolding gives_def by (simp add: ebind_def)
qed

lemma gives_then:
  "gives ok vms m V V' (\<lambda>_. True) \<Longrightarrow> gives ok vms n V' V'' Q \<Longrightarrow> gives ok vms (ebind m (\<lambda>_. n)) V V'' Q"
  by (rule gives_ebind)

lemma gives_one:
  "gives ok vms (f a) V V' (\<lambda>_. True) \<Longrightarrow> gives ok vms (for_each f [a]) V V' (\<lambda>_. True)"
  by (auto intro: gives_ebind)

lemma gives_weaken: "gives ok vms m V V' P \<Longrightarrow> (\<And>a. P a \<Longrightarrow> Q a) \<Longrightarrow> gives ok vms m V V' Q"
  unfolding gives_def by fast

lemma gives_all_both:
  assumes "gives ok vms m V V P" "gives ok vms n V V Q"
  shows "gives ok vms (all_both m n) V V (\<lambda>(a, b). P a \<and> Q b)"
  unfolding gives_def
proof (intro allI impI)
  fix w assume "ok w \<and> vms w = V"
  with assms(1) obtain a w1 where "m w = (Inr a, w1)" "P a" "ok w1 \<and> vms w1 = V" unfolding gives_def by blast
  moreover from assms(2) this(3) obtain b w2 where "n w1 = (Inr b, w2)" "Q b" "ok w2 \<and> vms w2 = V"
    unfolding gives_def by blast
  ultimately show "\<exists>x w'. all_both m n w = (Inr x, w') \<and> (case x of (a, b) \<Rightarrow> P a \<and> Q b) \<and> ok w' \<and> vms w' = V"
    by (simp add: all_both_def)
qed

lemma gives_for_each:
  "(\<And>x. x \<in> set xs \<Longrightarrow> gives ok vms (f x) V V (\<lambda>_. True)) \<Longrightarrow> gives ok vms (for_each f xs) V V (\<lambda>_. True)"
  by (induction xs) (auto intro: gives_ebind)

lemma for_each_append: "for_each f (xs @ ys) = ebind (for_each f xs) (\<lambda>_. for_each f ys)"
  by (induction xs) (auto simp: ebind_def ereturn_def fun_eq_iff split: prod.split sum.split)

definition provider_part :: "observed_instance \<Rightarrow> provider_instance" where
  "provider_part x = \<lparr>pi_id = pi_id x, pi_location = pi_location x, pi_version = pi_version x, pi_age = pi_age x\<rparr>"

text \<open>What a pool's instances keep distinct: their ids, and the runners they carry.\<close>

definition view_ok :: "observed_instance list \<Rightarrow> bool" where
  "view_ok V \<longleftrightarrow> distinct (map pi_id V) \<and>
     (\<forall>x\<in>set V. \<forall>y\<in>set V. ov_runner x = ov_runner y \<and> ov_runner x \<noteq> None \<longrightarrow> pi_id x = pi_id y)"

lemma view_ok_part:
  assumes "view_ok V" "distinct (map pi_id V')"
    "\<forall>x\<in>set V'. \<exists>x0\<in>set V. pi_id x0 = pi_id x \<and> ov_runner x0 = ov_runner x"
  shows "view_ok V'"
  unfolding view_ok_def
proof (intro conjI ballI impI)
  fix x y assume xy: "x \<in> set V'" "y \<in> set V'" "ov_runner x = ov_runner y \<and> ov_runner x \<noteq> None"
  with assms(3) obtain x0 y0 where "x0 \<in> set V" "y0 \<in> set V" "pi_id x0 = pi_id x" "pi_id y0 = pi_id y"
    "ov_runner x0 = ov_runner x" "ov_runner y0 = ov_runner y" by meson
  with xy(3) assms(1) show "pi_id x = pi_id y" unfolding view_ok_def by metis
qed (rule assms(2))

definition mark_draining :: "string \<Rightarrow> observed_instance \<Rightarrow> observed_instance" where
  "mark_draining r x = (if ov_runner x = Some r then x\<lparr>ov_status := RsDraining\<rparr> else x)"

text \<open>
  What a teardown needs of the world: the reads agree with what there is, a destroy removes exactly its
  instance, a drain marks exactly the instance of its runner, and the pass gets the scale lock.
\<close>

locale pool_world =
  fixes prov :: "'w fleet_provider" and deps :: "'w controller_deps"
    and ok :: "'w \<Rightarrow> bool" and vms :: "'w \<Rightarrow> observed_instance list"
  assumes distinct_vms: "ok w \<Longrightarrow> view_ok (vms w)"
    and lists: "gives ok vms (pv_list prov p) V V (\<lambda>is. is = map provider_part V)"
    and runners: "gives ok vms (cd_runner_map deps s) V V (\<lambda>rm. \<forall>x\<in>set V. observe_instance rm (provider_part x) = x)"
    and counts: "gives ok vms (cd_backlog deps s) V V (\<lambda>_. True)" "gives ok vms (cd_recent_peak deps s) V V (\<lambda>_. True)"
      "cd_dispatchable deps = Some f1 \<Longrightarrow> gives ok vms (f1 s) V V (\<lambda>_. True)"
    and resolves: "gives ok vms (cd_resolve_channel deps s) V V (\<lambda>_. True)"
    and bookkeeping: "gives ok vms (best_effort (cd_persist_observed deps s l v)) V V (\<lambda>_. True)"
      "gives ok vms (best_effort (cd_record_action deps a)) V V (\<lambda>_. True)"
      "cd_boot_failures deps = Some f3 \<Longrightarrow> gives ok vms (best_effort (f3 s n)) V V (\<lambda>_. True)"
      "cd_disable_pool deps = Some f4 \<Longrightarrow> gives ok vms (best_effort (f4 s)) V V (\<lambda>_. True)"
    and destroys: "gives ok vms (pv_destroy prov i) V (filter (\<lambda>x. pi_id x \<noteq> i) V) (\<lambda>_. True)"
    and drains_one: "\<forall>x\<in>set V. ov_runner x = Some r \<longrightarrow> ov_status x = RsOnline \<Longrightarrow>
      gives ok vms (cd_drain deps r) V (map (mark_draining r) V) (\<lambda>_. True)"
    and retires: "\<forall>x\<in>set V. ov_runner x \<noteq> Some r \<Longrightarrow> gives ok vms (cd_retire deps r) V V (\<lambda>_. True)"
    and locks: "gives ok vms m V V' (\<lambda>_. True) \<Longrightarrow> gives ok vms (cd_scale_lock deps s m) V V' (\<lambda>b. b)"
begin

end

text \<open>What a teardown leaves of an instance: nothing, unless it is working; then it drains.\<close>

definition torn_down :: "observed_instance \<Rightarrow> observed_instance list" where
  "torn_down x =
     (if ov_busy x \<and> (ov_status x = RsOnline \<and> truthy (ov_runner x) \<or> ov_status x = RsDraining)
      then [x\<lparr>ov_status := RsDraining\<rparr>] else [])"

context pool_world
begin

lemma teardown_one:
  assumes d: "view_ok (D @ y # ys)" and obs: "by_instance obs (pi_id y) = Some y"
  shows "gives ok vms (for_each (apply_action prov deps p obs b online) (teardown_actions g y))
    (D @ y # ys) (D @ torn_down y @ ys) (\<lambda>_. True)"
proof -
  let ?V = "D @ y # ys"
  have others: "pi_id x \<noteq> pi_id y" "ov_runner y \<noteq> None \<Longrightarrow> ov_runner x \<noteq> ov_runner y" if "x \<in> set (D @ ys)" for x
  proof -
    have "pi_id y \<notin> pi_id ` set (D @ ys)" using d by (simp add: view_ok_def image_Un)
    then show "pi_id x \<noteq> pi_id y" using that by (metis imageI)
    moreover have "x \<in> set ?V" "y \<in> set ?V" using that by auto
    ultimately show "ov_runner x \<noteq> ov_runner y" if "ov_runner y \<noteq> None"
      using d that unfolding view_ok_def by metis
  qed
  have gone: "filter (\<lambda>x. pi_id x \<noteq> pi_id y) ?V = D @ ys"
    using others(1) by (auto intro!: filter_True)
  have destroy: "gives ok vms (for_each (apply_action prov deps p obs b online) [ActDestroy (pi_id y) Teardown])
      ?V (D @ ys) (\<lambda>_. True)"
  proof -
    have "gives ok vms (pv_destroy prov (pi_id y)) ?V (D @ ys) (\<lambda>_. True)"
      using destroys [of "pi_id y" ?V] by (simp only: gone)
    moreover have "gives ok vms (if truthy (ov_runner y) then cd_retire deps (the (ov_runner y)) else ereturn ())
        (D @ ys) (D @ ys) (\<lambda>_. True)"
      using others(2) retires [of "D @ ys" "the (ov_runner y)"] by (auto simp: truthy_def)
    ultimately show ?thesis
      by (intro gives_one) (auto simp: apply_action_def obs Let_def intro!: gives_then [where V' = "D @ ys"] bookkeeping)
  qed
  have drain: "gives ok vms (for_each (apply_action prov deps p obs b online) [ActDrain (the (ov_runner y)) (pi_id y) Teardown])
      ?V (D @ [y\<lparr>ov_status := RsDraining\<rparr>] @ ys) (\<lambda>_. True)"
    if y: "ov_status y = RsOnline" "truthy (ov_runner y)"
  proof -
    obtain r where r: "ov_runner y = Some r" using y(2) by (auto simp: truthy_def)
    have same: "map (mark_draining r) xs = xs" if "set xs \<subseteq> set (D @ ys)" for xs
      using that others(2) r by (intro map_idI) (auto simp: mark_draining_def)
    have "map (mark_draining r) ?V = D @ [y\<lparr>ov_status := RsDraining\<rparr>] @ ys"
      using same [of D] same [of ys] r by (simp add: mark_draining_def)
    moreover have "\<forall>x\<in>set ?V. ov_runner x = Some r \<longrightarrow> ov_status x = RsOnline"
      using others(2) r y(1) by auto
    ultimately have "gives ok vms (cd_drain deps r) ?V (D @ [y\<lparr>ov_status := RsDraining\<rparr>] @ ys) (\<lambda>_. True)"
      using drains_one [of ?V r] by simp
    then show ?thesis
      using r by (auto simp: apply_action_def intro!: gives_ebind intro: bookkeeping)
  qed
  have stay: "y\<lparr>ov_status := RsDraining\<rparr> = y" if "ov_status y = RsDraining" using that by simp
  show ?thesis
    using destroy drain
    by (cases "ov_status y") (auto simp: teardown_actions_def classify_def torn_down_def stay)
qed

lemma view_ok_torn:
  assumes "view_ok (D @ y # ys)"
  shows "view_ok (D @ torn_down y @ ys)"
proof (rule view_ok_part [OF assms])
  show "distinct (map pi_id (D @ torn_down y @ ys))"
    using assms by (auto simp: view_ok_def torn_down_def)
qed (auto simp: torn_down_def)

lemma teardown_all:
  assumes "view_ok (D @ ys)" "\<forall>y\<in>set ys. by_instance obs (pi_id y) = Some y"
  shows "gives ok vms (for_each (apply_action prov deps p obs b online) (concat (map (teardown_actions g) ys)))
    (D @ ys) (D @ concat (map torn_down ys)) (\<lambda>_. True)"
  using assms
proof (induction ys arbitrary: D)
  case (Cons y ys)
  have "gives ok vms (for_each (apply_action prov deps p obs b online) (concat (map (teardown_actions g) ys)))
      (D @ torn_down y @ ys) (D @ torn_down y @ concat (map torn_down ys)) (\<lambda>_. True)"
    using Cons.IH [of "D @ torn_down y"] Cons.prems view_ok_torn by simp
  with teardown_one [of D y ys obs p b online g] Cons.prems show ?case
    by (auto simp: for_each_append intro: gives_ebind)
qed simp

end

lemma by_instance_mem:
  assumes "distinct (map pi_id obs)" "x \<in> set obs"
  shows "by_instance obs (pi_id x) = Some x"
proof -
  have "List.find (\<lambda>y. pi_id y = pi_id x) xs = Some x" if "distinct (map pi_id xs)" "x \<in> set xs" for xs
    using that by (induction xs) (auto simp: image_iff)
  from this [of "rev obs"] assms show ?thesis by (simp add: by_instance_def rev_map [symmetric])
qed

lemma gives_run:
  assumes "gives ok vms m V V' P" "ok w" "vms w = V"
  obtains a w' where "m w = (Inr a, w')" "P a" "ok w'" "vms w' = V'"
  using assms unfolding gives_def by blast

context pool_world
begin

lemma breaker_gives: "gives ok vms (breaker deps p as online) V V (\<lambda>_. True)"
proof (cases "cd_boot_failures deps"; cases "cd_disable_pool deps")
  fix f g assume f: "cd_boot_failures deps = Some f" and g: "cd_disable_pool deps = Some g"
  have keep: "ok w \<and> vms w = V \<Longrightarrow> f s n w = (x, w') \<Longrightarrow> ok w' \<and> vms w' = V"
    "ok w \<and> vms w = V \<Longrightarrow> ok (snd (g s w)) \<and> vms (snd (g s w)) = V" for s n w x w'
    using bookkeeping(3) [OF f, of s n V] bookkeeping(4) [OF g, of s V]
    unfolding gives_def best_effort_def by auto
  show ?thesis
    unfolding gives_def
  proof (intro allI impI)
    fix w assume w: "ok w \<and> vms w = V"
    let ?n = "case cd_failure_window deps of None \<Rightarrow> 30 | Some n \<Rightarrow> n"
    obtain r w1 where r: "f (ft_provider p) ?n w = (r, w1)" by fastforce
    from keep(1) [OF w r] have w1: "ok w1 \<and> vms w1 = V" .
    from keep(2) [OF w1] have w2: "ok (snd (g (ft_provider p) w1))" "vms (snd (g (ft_provider p) w1)) = V" by auto
    show "\<exists>a w'. breaker deps p as online w = (Inr a, w') \<and> True \<and> ok w' \<and> vms w' = V"
      using w w1 w2 f g r by (simp add: breaker_def best_effort_def ereturn_def Let_def)
  qed
qed (simp_all add: breaker_def gives_def ereturn_def)

lemma reads_give:
  "gives ok vms (pool_reads prov deps p) V V
     (\<lambda>(q, obs, b, d, peak). obs = V \<and> q = p\<lparr>ft_target_version := ft_target_version q\<rparr>)"
proof -
  let ?P = "\<lambda>(is, rm, b, peak). is = map provider_part V \<and> (\<forall>x\<in>set V. observe_instance rm (provider_part x) = x)"
  have version: "gives ok vms (resolve_version deps p) V V (\<lambda>_. True)"
    by (simp add: resolve_version_def resolves)
  have all: "gives ok vms (all_both (pv_list prov q) (all_both (cd_runner_map deps (ft_provider p))
      (all_both (cd_backlog deps (ft_provider p)) (cd_recent_peak deps (ft_provider p))))) V V ?P" for q
    by (rule gives_weaken [OF gives_all_both [OF lists gives_all_both [OF runners
          gives_all_both [OF counts(1) counts(2)]]]]) auto
  have seen: "map (observe_instance rm) (map provider_part V) = V"
    if "\<forall>x\<in>set V. observe_instance rm (provider_part x) = x" for rm
    using that by (auto intro: map_idI simp: comp_def)
  have persist: "gives ok vms (persist_all deps obs) V V (\<lambda>_. True)" for obs
    by (auto simp: persist_all_def intro!: gives_for_each bookkeeping)
  have dispatch: "gives ok vms (case cd_dispatchable deps of Some f \<Rightarrow> f (ft_provider p) | None \<Rightarrow> ereturn b) V V (\<lambda>_. True)" for b
    by (cases "cd_dispatchable deps") (simp_all add: counts(3))
  show ?thesis
    unfolding pool_reads_def Let_def
    by (rule gives_ebind [OF version], rule gives_ebind [OF all])
      (auto simp: seen [unfolded map_map] seen intro!: gives_then [OF persist] gives_ebind [OF dispatch])
qed

text \<open>One pass over a pool being torn down leaves the working instances, draining, and nothing else.\<close>

lemma teardown_pass:
  assumes "ok (fr_world c)" "ft_teardown p"
  shows "\<exists>n c'. reconcile_pool prov deps p c = (Inr n, c') \<and> ok (fr_world c') \<and>
    vms (fr_world c') = concat (map torn_down (vms (fr_world c)))"
proof -
  let ?V = "vms (fr_world c)"
  obtain x w1 where "pool_reads prov deps p (fr_world c) = (Inr x, w1)"
    "case x of (q, obs, b, d, peak) \<Rightarrow> obs = ?V \<and> q = p\<lparr>ft_target_version := ft_target_version q\<rparr>" "ok w1" "vms w1 = ?V"
    by (rule gives_run [OF reads_give [of p ?V] assms(1) refl])
  then obtain q b d peak where rd: "pool_reads prov deps p (fr_world c) = (Inr (q, ?V, b, d, peak), w1)"
    and q: "q = p\<lparr>ft_target_version := ft_target_version q\<rparr>" and w1: "ok w1" "vms w1 = ?V"
    by (cases x) auto
  have td: "ft_teardown q" using assms(2) by (subst q) simp
  define as where "as = concat (map (teardown_actions (cd_boot_grace deps)) ?V)"
  have plan: "plan q \<lparr>os_instances = ?V, os_backlog = d, os_recent_peak = peak, os_boot_grace = cd_boot_grace deps,
      os_surplus_ticks = t, os_max_creates = bu\<rparr> = as" for t bu
    using td by (simp add: plan_def as_def)
  have V: "view_ok ?V" by (rule distinct_vms [OF assms(1)])
  then have "\<forall>y\<in>set ?V. by_instance ?V (pi_id y) = Some y"
    using by_instance_mem by (auto simp: view_ok_def)
  from teardown_all [of "[]" ?V ?V q b online "cd_boot_grace deps" for online] V this
  have run: "gives ok vms (for_each (apply_action prov deps q ?V b online) as) ?V (concat (map torn_down ?V)) (\<lambda>_. True)"
    for online by (simp add: as_def)
  have rest: "gives ok vms (ebind (cd_scale_lock deps (ft_provider p) (for_each (apply_action prov deps q ?V b online) as))
        (\<lambda>acquired. if \<not> acquired then ereturn 0 else ebind (breaker deps p as online) (\<lambda>_. ereturn (int (length as)))))
      ?V (concat (map torn_down ?V)) (\<lambda>_. True)" for online
    by (rule gives_ebind [OF locks [OF run]]) (auto intro!: gives_then [OF breaker_gives])
  let ?on = "num (\<lambda>x. ov_status x = RsOnline) ?V"
  define c1 where "c1 = c\<lparr>fr_world := w1, fr_surplus := (fr_surplus c)(ft_provider p \<mapsto>
      surplus_after (fr_surplus c) (ft_provider p) ?on (target_count q d peak)), fr_budget := spend (fr_budget c) as\<rparr>"
  let ?m = "ebind (cd_scale_lock deps (ft_provider p) (for_each (apply_action prov deps q ?V b ?on) as))
        (\<lambda>acquired. if \<not> acquired then ereturn 0 else ebind (breaker deps p as ?on) (\<lambda>_. ereturn (int (length as))))"
  have pass: "reconcile_pool prov deps p c = (if as = [] then ereturn 0 c1 else on_world ?m c1)"
    using rd unfolding reconcile_pool_def ebind_def [of "on_world (pool_reads prov deps p)"]
    by (simp add: on_world_def [of "pool_reads prov deps p"] Let_def on_world_then plan c1_def cong: if_cong)
  have none: "concat (map torn_down ?V) = ?V" if "as = []"
  proof -
    have stay: "y\<lparr>ov_status := RsDraining\<rparr> = y" if "ov_status y = RsDraining" for y :: observed_instance
      using that by simp
    have "torn_down y = [y]" if "teardown_actions g y = []" for g y
      using that by (cases "ov_status y") (auto simp: teardown_actions_def classify_def torn_down_def stay split: if_splits)
    then have "map torn_down ?V = map (\<lambda>y. [y]) ?V"
      using \<open>as = []\<close> unfolding as_def concat_eq_Nil_conv by (intro map_cong) auto
    then show ?thesis by (simp only: concat_map_singleton map_ident)
  qed
  obtain n w2 where run2: "?m w1 = (Inr n, w2)" "ok w2" "vms w2 = concat (map torn_down ?V)"
    by (rule gives_run [OF rest w1])
  show ?thesis
    using run2 none w1 unfolding pass
    by (cases "as = []") (simp_all add: c1_def ereturn_def on_world_def)
qed

end

text \<open>The in-memory world's own invariant: ids key the instances, runners are not shared, and none is unregistered with one.\<close>

definition fake_ok :: "fake_fleet \<Rightarrow> bool" where
  "fake_ok w \<longleftrightarrow> distinct (map fst (ff_instances w)) \<and> (\<forall>x\<in>set (ff_instances w). pi_id (snd x) = fst x) \<and>
     (\<forall>x\<in>set (ff_instances w). (fk_status (snd x) = RsNone \<longrightarrow> fk_runner (snd x) = None) \<and> fk_runner (snd x) \<noteq> Some []) \<and>
     (\<forall>x\<in>set (ff_instances w). \<forall>y\<in>set (ff_instances w).
        fk_runner (snd x) = fk_runner (snd y) \<and> fk_runner (snd x) \<noteq> None \<longrightarrow> fst x = fst y)"

definition fake_seen :: "fake_instance \<Rightarrow> observed_instance" where
  "fake_seen i = \<lparr>pi_id = pi_id i, pi_location = pi_location i, pi_version = pi_version i, pi_age = pi_age i,
     ov_runner = fk_runner i, ov_status = (if fk_runner i = None then RsNone else fk_status i),
     ov_busy = (fk_runner i \<noteq> None \<and> fk_busy i)\<rparr>"

definition fake_view :: "fake_fleet \<Rightarrow> observed_instance list" where
  "fake_view w = map (fake_seen \<circ> snd) (ff_instances w)"

definition runner_of_fake :: "fake_instance \<Rightarrow> runner_state option" where
  "runner_of_fake i =
     (if fk_status i \<noteq> RsNone \<and> truthy (fk_runner i)
      then Some \<lparr>rn_id = the (fk_runner i), rn_status = fk_status i, rn_version = pi_version i, rn_busy = fk_busy i\<rparr>
      else None)"

lemma fold_runner_map:
  assumes "distinct (map fst xs)" "\<forall>x\<in>set xs. pi_id (snd x) = fst x"
  shows "(\<forall>k. k \<notin> fst ` set xs \<longrightarrow> fold add_runner xs m k = m k) \<and>
    ((\<forall>k\<in>fst ` set xs. m k = None) \<longrightarrow> (\<forall>x\<in>set xs. fold add_runner xs m (fst x) = runner_of_fake (snd x)))"
  using assms
proof (induction xs arbitrary: m)
  case (Cons x xs)
  let ?m = "add_runner x m"
  have k: "fst x \<notin> fst ` set xs" "pi_id (snd x) = fst x" using Cons.prems by auto
  have IH: "(\<forall>j. j \<notin> fst ` set xs \<longrightarrow> fold add_runner xs ?m j = ?m j) \<and>
      ((\<forall>j\<in>fst ` set xs. ?m j = None) \<longrightarrow> (\<forall>y\<in>set xs. fold add_runner xs ?m (fst y) = runner_of_fake (snd y)))"
    by (rule Cons.IH) (use Cons.prems in auto)
  have "?m (fst x) = runner_of_fake (snd x)" if "m (fst x) = None"
    using that k by (simp add: runner_of_fake_def add_runner_def case_prod_unfold)
  moreover have other: "?m j = m j" if "j \<noteq> fst x" for j
    using that k by (simp add: add_runner_def case_prod_unfold)
  moreover have "\<forall>j\<in>fst ` set xs. j \<noteq> fst x" using k(1) by metis
  ultimately show ?case using IH k(1) by auto
qed simp

lemma fake_reads:
  assumes "fake_ok w"
  shows "fake_list w = map provider_part (fake_view w)"
    "\<forall>x\<in>set (fake_view w). observe_instance (fake_runner_map w) (provider_part x) = x"
proof -
  show "fake_list w = map provider_part (fake_view w)"
    by (simp add: fake_list_def fake_view_def provider_part_def fake_seen_def case_prod_unfold)
  have m: "fake_runner_map w (fst x) = runner_of_fake (snd x)" if "x \<in> set (ff_instances w)" for x
    using fold_runner_map [of "ff_instances w" Map.empty] assms that
    by (simp add: fake_ok_def fake_runner_map_def)
  show "\<forall>x\<in>set (fake_view w). observe_instance (fake_runner_map w) (provider_part x) = x"
  proof
    fix x assume "x \<in> set (fake_view w)"
    then obtain y where y: "y \<in> set (ff_instances w)" "x = fake_seen (snd y)" by (auto simp: fake_view_def)
    with assms m have "pi_id (snd y) = fst y" "fk_status (snd y) = RsNone \<longrightarrow> fk_runner (snd y) = None"
      "fk_runner (snd y) \<noteq> Some []" "fake_runner_map w (fst y) = runner_of_fake (snd y)"
      by (auto simp: fake_ok_def)
    then show "observe_instance (fake_runner_map w) (provider_part x) = x"
      unfolding y(2) by (cases "fk_runner (snd y)")
        (auto simp: observe_instance_def provider_part_def fake_seen_def runner_of_fake_def truthy_def coalesce_def
          split: option.split)
  qed
qed

lemma fake_view_ok:
  assumes "fake_ok w"
  shows "view_ok (fake_view w)"
proof -
  have "map (pi_id \<circ> (fake_seen \<circ> snd)) (ff_instances w) = map fst (ff_instances w)"
    using assms by (auto simp: fake_ok_def fake_seen_def)
  with assms show ?thesis
    unfolding view_ok_def fake_view_def fake_ok_def map_map by (simp add: fake_seen_def del: map_eq_conv) blast
qed

lemma fake_destroy_view:
  assumes "fake_ok w"
  shows "fake_ok (fake_destroy i w)" "fake_view (fake_destroy i w) = filter (\<lambda>x. pi_id x \<noteq> i) (fake_view w)"
proof -
  have "set (ff_instances (fake_destroy i w)) \<subseteq> set (ff_instances w)"
    by (auto simp: fake_destroy_def AList.delete_eq)
  moreover have "distinct (map fst (ff_instances (fake_destroy i w)))"
    using assms by (simp add: fake_ok_def fake_destroy_def AList.distinct_delete)
  ultimately show "fake_ok (fake_destroy i w)"
    using assms unfolding fake_ok_def by blast
  have "filter (\<lambda>(k', _). i \<noteq> k') (ff_instances w) = filter (\<lambda>x. pi_id (snd x) \<noteq> i) (ff_instances w)"
    using assms by (intro filter_cong) (auto simp: fake_ok_def)
  then show "fake_view (fake_destroy i w) = filter (\<lambda>x. pi_id x \<noteq> i) (fake_view w)"
    by (simp add: fake_view_def fake_destroy_def AList.delete_eq filter_map comp_def fake_seen_def)
qed

lemma fake_status_ok:
  assumes "fake_ok w" "st \<noteq> RsNone"
  shows "fake_ok (fake_set_status r st w)"
proof -
  let ?f = "\<lambda>(k, i). (k :: string, if fk_runner i = Some r then i\<lparr>fk_status := st\<rparr> else i)"
  have f: "fst (?f x) = fst x" "pi_id (snd (?f x)) = pi_id (snd x)" "fk_runner (snd (?f x)) = fk_runner (snd x)"
    "fk_status (snd (?f x)) = RsNone \<Longrightarrow> fk_status (snd x) = RsNone" for x
    using assms(2) by (auto simp: case_prod_unfold split: if_splits)
  have ins: "ff_instances (fake_set_status r st w) = map ?f (ff_instances w)" by (simp add: fake_set_status_def)
  have m: "map fst (map ?f (ff_instances w)) = map fst (ff_instances w)" by (simp add: case_prod_unfold)
  moreover have "\<forall>x\<in>set (ff_instances w). fk_status (snd (?f x)) = RsNone \<longrightarrow> fk_runner (snd x) = None"
    using assms(1) f(4) unfolding fake_ok_def by blast
  moreover note assms(1) [unfolded fake_ok_def]
  ultimately show ?thesis
    unfolding fake_ok_def ins set_map ball_simps f(1-3) m by blast
qed

lemma fake_drain_view: "fake_view (fake_set_status r RsDraining w) = map (mark_draining r) (fake_view w)"
  by (simp add: fake_view_def fake_set_status_def mark_draining_def fake_seen_def case_prod_unfold)

lemma fake_retire_view:
  assumes "\<forall>x\<in>set (fake_view w). ov_runner x \<noteq> Some r"
  shows "fake_set_status r st w = w"
proof -
  have "map (\<lambda>(k, i). (k, if fk_runner i = Some r then i\<lparr>fk_status := st\<rparr> else i)) (ff_instances w) = ff_instances w"
    using assms by (intro map_idI) (auto simp: fake_view_def fake_seen_def)
  then show ?thesis by (simp add: fake_set_status_def)
qed

lemma fake_frame [simp]:
  "fake_ok (w\<lparr>ff_persisted := a\<rparr>) = fake_ok w" "fake_view (w\<lparr>ff_persisted := a\<rparr>) = fake_view w"
  "fake_ok (w\<lparr>ff_recorded := b\<rparr>) = fake_ok w" "fake_view (w\<lparr>ff_recorded := b\<rparr>) = fake_view w"
  by (simp_all add: fake_ok_def fake_view_def)

interpretation fake_world: pool_world fake_provider "fake_deps w0" fake_ok fake_view for w0
proof unfold_locales
  fix m :: "(fake_fleet, exn, unit) eff" and V V' s
  assume "gives fake_ok fake_view m V V' (\<lambda>_. True)"
  then show "gives fake_ok fake_view (cd_scale_lock (fake_deps w0) s m) V V' (\<lambda>b. b)"
    by (simp add: fake_deps_def gives_then)
qed (auto simp: gives_def fake_provider_def fake_deps_def best_effort_def fake_view_ok fake_reads
    fake_destroy_view fake_status_ok fake_drain_view fake_retire_view)

text \<open>
  Tearing a pool down, in the in-memory world the repository drives the controller with. One pass
  over a pool that is being deleted or paused answers, keeps the world sound, and leaves exactly the
  instances with a job in flight on a runner, each draining, whatever their versions; so a pool
  with no job in flight is empty after one pass, and nothing but finishing its jobs is left to do.
\<close>

theorem teardown_drains_pool:
  assumes "fake_ok (fr_world c)" "ft_teardown p"
  shows "\<exists>n c'. reconcile_pool fake_provider (fake_deps w0) p c = (Inr n, c') \<and> fake_ok (fr_world c') \<and>
    fake_view (fr_world c') =
      map (\<lambda>x. x\<lparr>ov_status := RsDraining\<rparr>)
        (filter (\<lambda>x. ov_busy x \<and> (ov_status x = RsOnline \<and> truthy (ov_runner x) \<or> ov_status x = RsDraining))
          (fake_view (fr_world c))) \<and>
    ((\<forall>x\<in>set (fake_view (fr_world c)). \<not> ov_busy x) \<longrightarrow> ff_instances (fr_world c') = [])"
proof -
  have torn: "concat (map torn_down xs) = map (\<lambda>x. x\<lparr>ov_status := RsDraining\<rparr>)
      (filter (\<lambda>x. ov_busy x \<and> (ov_status x = RsOnline \<and> truthy (ov_runner x) \<or> ov_status x = RsDraining)) xs)" for xs
    by (induction xs) (auto simp: torn_down_def)
  obtain n c' where "reconcile_pool fake_provider (fake_deps w0) p c = (Inr n, c')" "fake_ok (fr_world c')"
    "fake_view (fr_world c') = concat (map torn_down (fake_view (fr_world c)))"
    using fake_world.teardown_pass [OF assms] by blast
  moreover from this(3) have "(\<forall>x\<in>set (fake_view (fr_world c)). \<not> ov_busy x) \<longrightarrow> fake_view (fr_world c') = []"
    by (auto simp: torn_down_def)
  moreover have "fake_view w = [] \<longleftrightarrow> ff_instances w = []" for w by (simp add: fake_view_def)
  ultimately show ?thesis unfolding torn by blast
qed

definition sample_fake :: fake_fleet where
  "sample_fake = fake_seed \<lparr>pi_id = ''a'', pi_location = ''fsn1'', pi_version = Some ''v1'', pi_age = 300,
       fk_status = RsOnline, fk_busy = True, fk_runner = Some ''r-a''\<rparr>
     (fake_seed \<lparr>pi_id = ''b'', pi_location = ''fsn1'', pi_version = Some ''v2'', pi_age = 300,
       fk_status = RsOnline, fk_busy = False, fk_runner = Some ''r-b''\<rparr> empty_fake)"

theorem teardown_drains_pool_witness:
  "\<exists>n c'. reconcile_pool fake_provider (fake_deps empty_fake) (sample_pool\<lparr>ft_teardown := True\<rparr>)
      (fake_start\<lparr>fr_world := sample_fake\<rparr>) = (Inr n, c') \<and>
    map pi_id (fake_view (fr_world c')) = [''a''] \<and> map ov_status (fake_view (fr_world c')) = [RsDraining]"
proof -
  have "fake_ok (fr_world (fake_start\<lparr>fr_world := sample_fake\<rparr>))" "ft_teardown (sample_pool\<lparr>ft_teardown := True\<rparr>)"
    by (simp_all add: fake_ok_def sample_fake_def fake_seed_def empty_fake_def)
  from teardown_drains_pool [OF this, of empty_fake] show ?thesis
    by (force simp: sample_fake_def fake_seed_def empty_fake_def fake_view_def fake_seen_def truthy_def)
qed

section \<open>Serializing the passes\<close>

text \<open>
  The loop host's process-wide state: whether a pass is in flight, and whether a wake arrived while one
  was. A pass always settles (the supervisor swallows every throw).
\<close>

record scaler =
  sl_in_flight :: bool
  sl_queued :: bool

text \<open>Whether the call starts a pass, and the state after it.\<close>

definition schedule_tick :: "scaler \<Rightarrow> bool \<times> scaler" where
  "schedule_tick s = (if sl_in_flight s then (False, s\<lparr>sl_queued := True\<rparr>) else (True, s\<lparr>sl_in_flight := True\<rparr>))"

definition pass_settled :: "scaler \<Rightarrow> bool \<times> scaler" where
  "pass_settled s =
     (if sl_queued s then (True, s\<lparr>sl_in_flight := True, sl_queued := False\<rparr>) else (False, s\<lparr>sl_in_flight := False\<rparr>))"

datatype scaler_event = ScheduleTick | PassSettled

fun scaler_step :: "scaler_event \<Rightarrow> scaler \<Rightarrow> bool \<times> scaler" where
  "scaler_step ScheduleTick s = schedule_tick s"
| "scaler_step PassSettled s = (if sl_in_flight s then pass_settled s else (False, s))"

fun scaler_run :: "scaler_event list \<Rightarrow> scaler \<Rightarrow> nat \<times> scaler" where
  "scaler_run [] s = (0, s)"
| "scaler_run (e # es) s =
     (case scaler_step e s of (started, s') \<Rightarrow> case scaler_run es s' of (n, s'') \<Rightarrow> ((if started then 1 else 0) + n, s''))"

text \<open>However many wakes arrive during a pass, exactly one pass follows it.\<close>

lemma wakes_coalesce:
  "scaler_run (ScheduleTick # replicate (Suc n) ScheduleTick @ [PassSettled, PassSettled]) \<lparr>sl_in_flight = False, sl_queued = False\<rparr> =
     (2, \<lparr>sl_in_flight = False, sl_queued = False\<rparr>)"
proof -
  have "scaler_run (replicate n ScheduleTick @ es) \<lparr>sl_in_flight = True, sl_queued = True\<rparr> =
      scaler_run es \<lparr>sl_in_flight = True, sl_queued = True\<rparr>" for es n
    by (induction n) (simp_all add: schedule_tick_def split: prod.split)
  then show ?thesis by (simp add: schedule_tick_def pass_settled_def)
qed

end
