(* ===== verification/Draft_Content.thy ===== *)
theory Draft_Content
  imports Prelude "HOL-Library.Word"
begin

text \<open>
  The content of an Elench draft (lib/elench/draft-content.ts): the box text with its mention pills as
  spans of it, and the normalization the composer applies on every edit. JavaScript strings are lists
  of UTF-16 code units, \<open>16 word list\<close>, because the text's length, its spans and the surrogates the
  normalization repairs are all measured in them.
\<close>

section \<open>Strings of code units\<close>

type_synonym utf16 = "16 word list"

definition high_surrogate :: "16 word \<Rightarrow> bool" where
  "high_surrogate u \<longleftrightarrow> 0xD800 \<le> u \<and> u \<le> 0xDBFF"

definition low_surrogate :: "16 word \<Rightarrow> bool" where
  "low_surrogate u \<longleftrightarrow> 0xDC00 \<le> u \<and> u \<le> 0xDFFF"

text \<open>\<open>String.prototype.toWellFormed\<close>: every surrogate that is not half of a pair becomes U+FFFD.\<close>

fun to_well_formed :: "utf16 \<Rightarrow> utf16" where
  "to_well_formed [] = []"
| "to_well_formed [u] = [if high_surrogate u \<or> low_surrogate u then 0xFFFD else u]"
| "to_well_formed (u # v # us) =
     (if high_surrogate u \<and> low_surrogate v then u # v # to_well_formed us
      else (if high_surrogate u \<or> low_surrogate u then 0xFFFD else u) # to_well_formed (v # us))"

definition normalize_draft_text :: "utf16 \<Rightarrow> utf16" where
  "normalize_draft_text s = to_well_formed (filter (\<lambda>u. u \<noteq> 0) s)"

definition is_normalized_draft_text :: "utf16 \<Rightarrow> bool" where
  "is_normalized_draft_text s \<longleftrightarrow> s = normalize_draft_text s"

text \<open>\<open>String.prototype.slice\<close>: a negative index counts from the end.\<close>

definition slice_index :: "nat \<Rightarrow> int \<Rightarrow> nat" where
  "slice_index n i = nat (if i < 0 then max (int n + i) 0 else min i (int n))"

definition js_slice :: "'a list \<Rightarrow> int \<Rightarrow> int \<Rightarrow> 'a list" where
  "js_slice s a b =
     (let i = slice_index (length s) a; j = slice_index (length s) b in take (j - i) (drop i s))"

lemma js_slice_inside:
  assumes "0 \<le> a" "a \<le> b" "b \<le> int (length s)"
  shows "js_slice s a b = take (nat b - nat a) (drop (nat a) s)"
  using assms by (simp add: js_slice_def slice_index_def Let_def)

lemma js_slice_backwards: "0 \<le> a \<Longrightarrow> b < a \<Longrightarrow> 0 \<le> b \<Longrightarrow> js_slice s a b = []"
  by (simp add: js_slice_def slice_index_def Let_def nat_le_iff)

section \<open>Content\<close>

datatype mention_type = MtProject | MtCluster | MtConnector | MtJob | MtRunner | MtIdentity | MtArtifact

record draft_mention =
  dm_id :: utf16
  dm_type :: mention_type
  dm_label :: utf16
  dm_start :: int
  dm_end :: int

record cell_target =
  ct_x :: int
  ct_y :: int

record editor_content =
  ec_text :: utf16
  ec_mentions :: "draft_mention list"

record draft_content =
  dc_text :: utf16
  dc_mentions :: "draft_mention list"
  dc_artifacts :: "string list"
  dc_cell :: "cell_target option"

definition max_draft_mention_spans :: nat where "max_draft_mention_spans = 50"
definition max_draft_distinct_mentions :: nat where "max_draft_distinct_mentions = 20"
definition max_draft_artifacts :: nat where "max_draft_artifacts = 10"
definition max_draft_mention_field :: nat where "max_draft_mention_field = 256"
definition max_user_message_chars :: nat where "max_user_message_chars = 100000"

definition at_sign :: "16 word" where "at_sign = 0x40"

text \<open>An integer the schemas take is a safe one: \<open>z.number().int()\<close> refuses those past 2^53 - 1.\<close>

definition safe_int :: "int \<Rightarrow> bool" where
  "safe_int n \<longleftrightarrow> \<bar>n\<bar> \<le> 9007199254740991"

text \<open>\<open>mentionFieldSchema\<close>, \<open>draftMentionSchema\<close>, \<open>draftCellTargetSchema\<close>.\<close>

definition mention_field_ok :: "utf16 \<Rightarrow> bool" where
  "mention_field_ok s \<longleftrightarrow> length s \<le> max_draft_mention_field \<and> is_normalized_draft_text s"

definition draft_mention_ok :: "draft_mention \<Rightarrow> bool" where
  "draft_mention_ok m \<longleftrightarrow> mention_field_ok (dm_id m) \<and> mention_field_ok (dm_label m) \<and> 1 \<le> length (dm_label m) \<and>
     0 \<le> dm_start m \<and> safe_int (dm_start m) \<and> 1 \<le> dm_end m \<and> safe_int (dm_end m)"

definition cell_target_ok :: "cell_target \<Rightarrow> bool" where
  "cell_target_ok c \<longleftrightarrow> 0 \<le> ct_x c \<and> ct_x c \<le> 4 \<and> 0 \<le> ct_y c \<and> safe_int (ct_y c)"

text \<open>
  The distinct mentions of a list of spans: type and id, with the first label. The source keys them
  by the text \<open>type:id\<close>, and no type contains a colon.
\<close>

fun distinct_from :: "(mention_type \<times> utf16) list \<Rightarrow> draft_mention list \<Rightarrow> (utf16 \<times> mention_type \<times> utf16) list" where
  "distinct_from seen [] = []"
| "distinct_from seen (m # ms) =
     (if (dm_type m, dm_id m) \<in> set seen then distinct_from seen ms
      else (dm_id m, dm_type m, dm_label m) # distinct_from ((dm_type m, dm_id m) # seen) ms)"

definition distinct_mentions :: "draft_mention list \<Rightarrow> (utf16 \<times> mention_type \<times> utf16) list" where
  "distinct_mentions ms = distinct_from [] ms"

fun spans_from :: "utf16 \<Rightarrow> int \<Rightarrow> draft_mention list \<Rightarrow> bool" where
  "spans_from s e [] = True"
| "spans_from s e (m # ms) =
     (if dm_start m < e then False
      else if int (length s) < dm_end m then False
      else if js_slice s (dm_start m) (dm_end m) \<noteq> at_sign # dm_label m then False
      else spans_from s (dm_end m) ms)"

definition spans_are_valid :: "utf16 \<Rightarrow> draft_mention list \<Rightarrow> bool" where
  "spans_are_valid s ms = spans_from s 0 ms"

text \<open>\<open>contentSchema\<close>; what a UUID is belongs to the validation library.\<close>

definition content_schema :: "(string \<Rightarrow> bool) \<Rightarrow> draft_content \<Rightarrow> bool" where
  "content_schema is_uuid c \<longleftrightarrow>
     length (dc_text c) \<le> max_user_message_chars \<and> is_normalized_draft_text (dc_text c) \<and>
     list_all draft_mention_ok (dc_mentions c) \<and> length (dc_mentions c) \<le> max_draft_mention_spans \<and>
     length (distinct_mentions (dc_mentions c)) \<le> max_draft_distinct_mentions \<and>
     list_all is_uuid (dc_artifacts c) \<and> length (dc_artifacts c) \<le> max_draft_artifacts \<and>
     (case dc_cell c of None \<Rightarrow> True | Some t \<Rightarrow> cell_target_ok t) \<and>
     spans_are_valid (dc_text c) (dc_mentions c)"

section \<open>Content in the reducer\<close>

definition empty_content :: draft_content where
  "empty_content = \<lparr>dc_text = [], dc_mentions = [], dc_artifacts = [], dc_cell = None\<rparr>"

definition mention_equals :: "draft_mention \<Rightarrow> draft_mention \<Rightarrow> bool" where
  "mention_equals a b \<longleftrightarrow> dm_id a = dm_id b \<and> dm_type a = dm_type b \<and> dm_label a = dm_label b \<and>
     dm_start a = dm_start b \<and> dm_end a = dm_end b"

definition content_equals :: "draft_content \<Rightarrow> draft_content \<Rightarrow> bool" where
  "content_equals a b \<longleftrightarrow>
     dc_text a = dc_text b \<and>
     length (dc_mentions a) = length (dc_mentions b) \<and>
     list_all (\<lambda>(m, i). mention_equals m (dc_mentions b ! i)) (zip (dc_mentions a) [0..<length (dc_mentions a)]) \<and>
     length (dc_artifacts a) = length (dc_artifacts b) \<and>
     list_all (\<lambda>(x, i). x = dc_artifacts b ! i) (zip (dc_artifacts a) [0..<length (dc_artifacts a)]) \<and>
     (case dc_cell a of
        None \<Rightarrow> dc_cell b = None
      | Some x \<Rightarrow> (case dc_cell b of None \<Rightarrow> False | Some y \<Rightarrow> ct_x x = ct_x y \<and> ct_y x = ct_y y))"

definition is_empty_content :: "draft_content \<Rightarrow> bool" where
  "is_empty_content c \<longleftrightarrow> dc_text c = [] \<and> dc_mentions c = [] \<and> dc_artifacts c = [] \<and> dc_cell c = None"

text \<open>The loop of \<open>normalizeEditorContent\<close> over the spans the editor yields.\<close>

fun normalize_spans :: "utf16 \<Rightarrow> int \<Rightarrow> draft_mention list \<Rightarrow> draft_mention list" where
  "normalize_spans s e [] = []"
| "normalize_spans s e (m # ms) =
     (let label = normalize_draft_text (dm_label m); mid = normalize_draft_text (dm_id m)
      in if label = [] then normalize_spans s e ms
         else if dm_start m < e \<or> int (length s) < dm_end m then normalize_spans s e ms
         else if js_slice s (dm_start m) (dm_end m) \<noteq> at_sign # label then normalize_spans s e ms
         else m\<lparr>dm_id := mid, dm_label := label\<rparr> # normalize_spans s (dm_end m) ms)"

definition normalize_editor_content :: "editor_content \<Rightarrow> editor_content" where
  "normalize_editor_content c =
     (let s = normalize_draft_text (ec_text c)
      in \<lparr>ec_text = s, ec_mentions = normalize_spans s 0 (ec_mentions c)\<rparr>)"

section \<open>Equality of contents\<close>

lemma mention_equals_iff [simp]: "mention_equals a b \<longleftrightarrow> a = b"
  by (cases a; cases b) (simp add: mention_equals_def)

lemma list_all_zip_nth:
  assumes "length xs = length ys"
  shows "list_all (\<lambda>(x, i). P x (ys ! i)) (zip xs [0..<length xs]) \<longleftrightarrow> list_all2 P xs ys"
  using assms by (auto simp: list_all_length list_all2_conv_all_nth)

lemma list_all_zip_eq:
  assumes "length xs = length ys"
  shows "list_all (\<lambda>(x, i). x = ys ! i) (zip xs [0..<length xs]) \<longleftrightarrow> xs = ys"
  using list_all_zip_nth [OF assms, of "(=)"] by (simp add: list.rel_eq)

lemma content_equals_eq [simp]: "content_equals a b \<longleftrightarrow> a = b"
proof -
  have cells: "(case dc_cell a of None \<Rightarrow> dc_cell b = None
      | Some x \<Rightarrow> (case dc_cell b of None \<Rightarrow> False | Some y \<Rightarrow> ct_x x = ct_x y \<and> ct_y x = ct_y y)) \<longleftrightarrow> dc_cell a = dc_cell b"
    by (auto split: option.split)
  have "content_equals a b \<longleftrightarrow> dc_text a = dc_text b \<and> dc_mentions a = dc_mentions b \<and>
      dc_artifacts a = dc_artifacts b \<and> dc_cell a = dc_cell b"
    unfolding content_equals_def cells mention_equals_iff using list_all_zip_eq by metis
  then show ?thesis by (cases a; cases b) simp
qed

section \<open>Normalization\<close>

text \<open>A string no surrogate of which is left alone.\<close>

fun well_formed :: "utf16 \<Rightarrow> bool" where
  "well_formed [] = True"
| "well_formed [u] = (\<not> high_surrogate u \<and> \<not> low_surrogate u)"
| "well_formed (u # v # us) =
     (if high_surrogate u then low_surrogate v \<and> well_formed us else \<not> low_surrogate u \<and> well_formed (v # us))"

lemma surrogates_apart: "high_surrogate u \<Longrightarrow> \<not> low_surrogate u"
proof
  assume "high_surrogate u" "low_surrogate u"
  then have "(0xDC00 :: 16 word) \<le> 0xDBFF"
    unfolding high_surrogate_def low_surrogate_def by (meson order_trans)
  then show False by simp
qed

lemma replacement_plain [simp]: "\<not> high_surrogate 0xFFFD" "\<not> low_surrogate 0xFFFD"
  by (simp_all add: high_surrogate_def low_surrogate_def)

lemma low_not_high: "low_surrogate u \<Longrightarrow> \<not> high_surrogate u"
  using surrogates_apart by blast

lemma to_well_formed_nonempty [simp]: "to_well_formed s = [] \<longleftrightarrow> s = []"
  by (induction s rule: to_well_formed.induct) auto

lemma well_formed_Cons:
  "\<not> high_surrogate u \<Longrightarrow> \<not> low_surrogate u \<Longrightarrow> well_formed (u # us) \<longleftrightarrow> well_formed us"
  by (cases us) auto

lemma to_well_formed_ok: "well_formed (to_well_formed s)"
  by (induction s rule: to_well_formed.induct) (auto simp: well_formed_Cons)

lemma to_well_formed_id: "well_formed s \<Longrightarrow> to_well_formed s = s"
  by (induction s rule: well_formed.induct) (auto split: if_splits dest: surrogates_apart)

lemma to_well_formed_iff: "to_well_formed s = s \<longleftrightarrow> well_formed s"
  using to_well_formed_ok to_well_formed_id by metis

lemma to_well_formed_no_nul: "0 \<notin> set s \<Longrightarrow> 0 \<notin> set (to_well_formed s)"
  by (induction s rule: to_well_formed.induct) auto

lemma filter_no_nul: "0 \<notin> set s \<Longrightarrow> filter (\<lambda>u. u \<noteq> 0) s = s"
  by (auto simp: filter_id_conv)

lemma is_normalized_iff: "is_normalized_draft_text s \<longleftrightarrow> 0 \<notin> set s \<and> well_formed s"
proof
  assume "is_normalized_draft_text s"
  then have "s = to_well_formed (filter (\<lambda>u. u \<noteq> 0) s)"
    by (simp add: is_normalized_draft_text_def normalize_draft_text_def)
  then show "0 \<notin> set s \<and> well_formed s"
    using to_well_formed_no_nul [of "filter (\<lambda>u. u \<noteq> 0) s"] to_well_formed_ok [of "filter (\<lambda>u. u \<noteq> 0) s"] by auto
next
  assume "0 \<notin> set s \<and> well_formed s"
  then show "is_normalized_draft_text s"
    by (simp add: is_normalized_draft_text_def normalize_draft_text_def filter_no_nul to_well_formed_id)
qed

lemma normalize_normalized: "is_normalized_draft_text (normalize_draft_text s)"
  unfolding is_normalized_iff normalize_draft_text_def
  using to_well_formed_no_nul [of "filter (\<lambda>u. u \<noteq> 0) s"] to_well_formed_ok by auto

lemma normalize_idem [simp]: "normalize_draft_text (normalize_draft_text s) = normalize_draft_text s"
  using normalize_normalized [of s] by (simp add: is_normalized_draft_text_def)

lemma normalize_spans_valid:
  "spans_from s e (normalize_spans s e ms) \<and>
   (\<forall>m\<in>set (normalize_spans s e ms). is_normalized_draft_text (dm_id m) \<and> is_normalized_draft_text (dm_label m) \<and> dm_label m \<noteq> [])"
  by (induction ms arbitrary: e) (auto simp: Let_def normalize_normalized)

lemma normalize_spans_id:
  assumes "spans_from s e ms"
    "\<forall>m\<in>set ms. is_normalized_draft_text (dm_id m) \<and> is_normalized_draft_text (dm_label m) \<and> dm_label m \<noteq> []"
  shows "normalize_spans s e ms = ms"
  using assms
proof (induction ms arbitrary: e)
  case (Cons m ms)
  then have "normalize_draft_text (dm_label m) = dm_label m" "normalize_draft_text (dm_id m) = dm_id m"
    by (simp_all add: is_normalized_draft_text_def)
  moreover from this have "m\<lparr>dm_id := normalize_draft_text (dm_id m), dm_label := normalize_draft_text (dm_label m)\<rparr> = m" by simp
  ultimately show ?case using Cons by (auto simp: Let_def split: if_splits)
qed simp

section \<open>Properties\<close>

definition editor_valid :: "editor_content \<Rightarrow> bool" where
  "editor_valid c \<longleftrightarrow> is_normalized_draft_text (ec_text c) \<and> spans_are_valid (ec_text c) (ec_mentions c) \<and>
     (\<forall>m\<in>set (ec_mentions c). is_normalized_draft_text (dm_id m) \<and> is_normalized_draft_text (dm_label m) \<and> dm_label m \<noteq> [])"

lemma normalize_editor_valid: "editor_valid (normalize_editor_content c)"
  using normalize_spans_valid
  by (simp add: editor_valid_def normalize_editor_content_def Let_def normalize_normalized spans_are_valid_def)

lemma normalize_editor_id: "editor_valid c \<Longrightarrow> normalize_editor_content c = c"
proof -
  assume v: "editor_valid c"
  then have "normalize_draft_text (ec_text c) = ec_text c" by (simp add: editor_valid_def is_normalized_draft_text_def)
  with v show ?thesis
    by (simp add: editor_valid_def normalize_editor_content_def spans_are_valid_def normalize_spans_id)
qed

text \<open>
  C18. What the editor yields, normalized. Whatever text and pills the editor yields, the result is text
  that the database stores unchanged (no U+0000, no lone surrogate) with pills in order, apart, inside
  the text, each on exactly its \<open>@label\<close>; it is left alone exactly when it already was that, so
  normalizing again changes nothing, and content that was normalized before a save reads back as it was.
\<close>

theorem normalize_editor_fixpoint:
  "editor_valid (normalize_editor_content c) \<and> (normalize_editor_content c = c \<longleftrightarrow> editor_valid c) \<and>
   normalize_editor_content (normalize_editor_content c) = normalize_editor_content c \<and>
   0 \<notin> set (ec_text (normalize_editor_content c)) \<and> well_formed (ec_text (normalize_editor_content c))"
proof -
  note v = normalize_editor_valid [of c]
  then have "0 \<notin> set (ec_text (normalize_editor_content c)) \<and> well_formed (ec_text (normalize_editor_content c))"
    unfolding editor_valid_def is_normalized_iff by blast
  with v normalize_editor_id [of c] normalize_editor_id [OF v] show ?thesis by metis
qed

text \<open>Position \<open>i\<close> of a text lies between the halves of a surrogate pair.\<close>

definition splits_pair :: "utf16 \<Rightarrow> nat \<Rightarrow> bool" where
  "splits_pair s i \<longleftrightarrow> 0 < i \<and> i < length s \<and> high_surrogate (s ! (i - 1)) \<and> low_surrogate (s ! i)"

lemma well_formed_last: "well_formed l \<Longrightarrow> l \<noteq> [] \<Longrightarrow> \<not> high_surrogate (last l)"
  by (induction l rule: well_formed.induct) (auto split: if_splits dest: low_not_high)

lemma at_sign_plain: "\<not> low_surrogate at_sign"
  by (simp add: low_surrogate_def at_sign_def)

lemma span_covers:
  assumes "js_slice s a b = at_sign # l" "0 \<le> a" "0 \<le> b" "b \<le> int (length s)"
  shows "nat a < length s \<and> s ! nat a = at_sign \<and> nat a < nat b \<and> nat b \<le> length s \<and>
    (l \<noteq> [] \<longrightarrow> s ! (nat b - 1) = last l)"
proof -
  have ab: "a \<le> b" using assms js_slice_backwards [of a b s] by (cases "a \<le> b") auto
  with assms have t: "take (nat b - nat a) (drop (nat a) s) = at_sign # l" by (simp add: js_slice_inside)
  then have len: "Suc (length l) = nat b - nat a"
    using assms(4) ab by (metis length_Cons length_drop length_take min.absorb2 diff_le_mono nat_le_iff)
  have nth: "s ! (nat a + i) = (at_sign # l) ! i" if "i < Suc (length l)" for i
  proof -
    have "take (nat b - nat a) (drop (nat a) s) ! i = s ! (nat a + i)"
      using that len assms(4) ab by (subst nth_take) (auto intro: nth_drop)
    with t show ?thesis by simp
  qed
  have "s ! (nat b - 1) = last l" if "l \<noteq> []"
  proof -
    have "nat b - 1 = nat a + length l" using len by linarith
    then show ?thesis using nth [of "length l"] that by (cases l rule: rev_cases) (auto simp: nth_append)
  qed
  moreover have "s ! nat a = at_sign" using nth [of 0] by simp
  ultimately show ?thesis using len assms(4) by auto
qed

lemma spans_from_members:
  assumes "spans_from s e ms" "0 \<le> e" "\<forall>m\<in>set ms. 0 \<le> dm_end m" "m \<in> set ms"
  shows "js_slice s (dm_start m) (dm_end m) = at_sign # dm_label m \<and> 0 \<le> dm_start m \<and> dm_end m \<le> int (length s)"
  using assms by (induction ms arbitrary: e) (auto split: if_splits)

text \<open>
  No pill of an admitted draft splits a surrogate pair: the span rules together with the
  normalization of text and labels place both ends of every span between whole characters, and every
  span is inside the text and not empty.
\<close>

theorem spans_keep_surrogates:
  assumes "content_schema is_uuid c" "m \<in> set (dc_mentions c)"
  shows "\<not> splits_pair (dc_text c) (nat (dm_start m)) \<and> \<not> splits_pair (dc_text c) (nat (dm_end m)) \<and>
    0 \<le> dm_start m \<and> dm_start m < dm_end m \<and> dm_end m \<le> int (length (dc_text c))"
proof -
  have ok: "draft_mention_ok m'" if "m' \<in> set (dc_mentions c)" for m'
    using assms(1) that by (auto simp: content_schema_def list_all_iff)
  then have ends: "\<forall>m\<in>set (dc_mentions c). 0 \<le> dm_end m" by (force simp: draft_mention_ok_def)
  have sp: "js_slice (dc_text c) (dm_start m) (dm_end m) = at_sign # dm_label m \<and> 0 \<le> dm_start m \<and>
      dm_end m \<le> int (length (dc_text c))"
    using spans_from_members [OF _ _ ends assms(2)] assms(1) by (auto simp: content_schema_def spans_are_valid_def)
  have label: "well_formed (dm_label m)" "dm_label m \<noteq> []"
    using ok [OF assms(2)] by (auto simp: draft_mention_ok_def mention_field_ok_def is_normalized_iff)
  have "0 \<le> dm_end m" using ends assms(2) by blast
  with sp have "nat (dm_start m) < length (dc_text c) \<and> dc_text c ! nat (dm_start m) = at_sign \<and>
      nat (dm_start m) < nat (dm_end m) \<and> nat (dm_end m) \<le> length (dc_text c) \<and>
      dc_text c ! (nat (dm_end m) - 1) = last (dm_label m)"
    using span_covers label(2) by blast
  with sp label well_formed_last [OF label] at_sign_plain show ?thesis
    by (auto simp: splits_pair_def)
qed

definition sample_content :: draft_content where
  "sample_content = \<lparr>dc_text = [0x40, 0xD83D, 0xDE00, 0x21],
     dc_mentions = [\<lparr>dm_id = [0x31], dm_type = MtProject, dm_label = [0xD83D, 0xDE00], dm_start = 0, dm_end = 3\<rparr>],
     dc_artifacts = [], dc_cell = None\<rparr>"

theorem spans_keep_surrogates_witness:
  "\<exists>m\<in>set (dc_mentions sample_content). high_surrogate (dc_text sample_content ! 1) \<and>
     \<not> splits_pair (dc_text sample_content) (nat (dm_end m))"
proof -
  have "is_normalized_draft_text (dc_text sample_content)" "spans_are_valid (dc_text sample_content) (dc_mentions sample_content)"
    "\<forall>m\<in>set (dc_mentions sample_content). is_normalized_draft_text (dm_id m) \<and> is_normalized_draft_text (dm_label m)"
    by code_simp+
  then have "content_schema (\<lambda>_. True) sample_content"
    by (simp add: content_schema_def sample_content_def draft_mention_ok_def mention_field_ok_def distinct_mentions_def safe_int_def
        max_user_message_chars_def max_draft_mention_spans_def max_draft_distinct_mentions_def max_draft_mention_field_def)
  moreover have m: "hd (dc_mentions sample_content) \<in> set (dc_mentions sample_content)"
    by (simp add: sample_content_def)
  ultimately have "\<not> splits_pair (dc_text sample_content) (nat (dm_end (hd (dc_mentions sample_content))))"
    using spans_keep_surrogates by blast
  moreover have "high_surrogate (dc_text sample_content ! 1)" by code_simp
  ultimately show ?thesis using m by blast
qed

end
