(* ===== verification/Draft_State.thy ===== *)
theory Draft_State
  imports Draft_Content
begin

text \<open>
  The data of Elench drafts: the rows and outcomes the server answers with (lib/elench/draft-outcomes.ts),
  the per-key entry this tab holds, the store state around it, and the events and effects of the
  drafting half of the reducer (lib/stores/elench-drafts/types.ts). Identifiers and timestamps are
  strings; texts are UTF-16; the time a send was made is a number, \<open>NaN\<close> being \<open>None\<close>.
\<close>

section \<open>What the server answers\<close>

datatype draft_row_state = RowActive | RowSending | RowDiscarded

datatype thread_status = ThreadNone | ThreadUnlisted | ThreadListed | ThreadDeleted

datatype send_kind = SendFirst | SendLater

record draft_thread =
  dt_status :: thread_status
  dt_first_turn :: "string option"
  dt_has_turn :: bool

record draft_claim =
  cl_token :: string
  cl_turn :: string
  cl_kind :: send_kind
  cl_at :: string

record pending_failed_send =
  fs_turn :: "string option"
  fs_kind :: send_kind
  fs_error :: string
  fs_uncertain :: bool

record failed_send = pending_failed_send +
  fs_at :: string

record last_sent =
  ls_turn :: string
  ls_kind :: send_kind
  ls_at :: string

record server_draft =
  sd_org :: string
  sd_project :: "string option"
  sd_conversation :: string
  sd_revision :: int
  sd_state :: draft_row_state
  sd_content :: draft_content
  sd_claim :: "draft_claim option"
  sd_failed_send :: "failed_send option"
  sd_last_sent :: "last_sent option"
  sd_thread_seen :: bool
  sd_title :: "utf16 option"
  sd_last_writer :: "string option"
  sd_discarded_at :: "string option"
  sd_updated_at :: string

text \<open>The refusals every action can answer; \<open>scope-changed\<close> and \<open>forbidden\<close> carry their reason.\<close>

datatype gate_refusal =
  RefInvalid | RefUnauthorized | RefForbidden bool | RefOtherOrg | RefAddress string | RefRateLimited | RefUnavailable

datatype save_result =
  SaveSaved int | SaveConflict server_draft draft_thread | SaveClaimed server_draft draft_thread
| SaveDiscarded server_draft draft_thread | SaveGone draft_thread | SaveLimit | SaveRefused gate_refusal

datatype restore_result =
  RestoreSaved int | RestoreConflict server_draft draft_thread | RestoreGone draft_thread | RestoreRefused gate_refusal

section \<open>Keys and entries\<close>

record draft_scope =
  ds_org :: string
  ds_project :: "string option"

record draft_key = draft_scope +
  dk_conversation :: string

record draft_claiming =
  cg_attempt :: string
  cg_token :: string
  cg_turn :: string
  cg_kind :: send_kind
  cg_content :: draft_content

datatype send_phase = PhaseStarting | PhaseRouting | PhaseConsuming | PhaseReleasing

record draft_sending =
  sg_attempt :: string
  sg_token :: "string option"
  sg_turn :: string
  sg_kind :: send_kind
  sg_text :: utf16
  sg_mentions :: "draft_mention list"
  sg_cell :: "cell_target option"
  sg_origin :: string
  sg_at :: "int option"
  sg_phase :: send_phase

datatype block_reason =
  BlockOtherOrg | BlockCredential | BlockAddress string | BlockUnauthorized | BlockForbidden bool
| BlockLimit | BlockInvalid | BlockError

datatype draft_save_state = SvIdle | SvSaving | SvRetrying | SvHeld | SvBlocked

datatype conflict_kind = CkEdited | CkDiscarded | CkGone | CkClaimed | CkUncertain

record draft_conflict =
  cf_kind :: conflict_kind
  cf_row :: "server_draft option"

datatype write_op = OpSave | OpRestore

record inflight_save =
  if_op :: write_op
  if_base :: int
  if_content :: draft_content
  if_failed_send :: "pending_failed_send option"

datatype transcript_state = TranscriptUnloaded | TranscriptLoading | TranscriptLoaded

record draft_entry =
  en_key :: draft_key
  en_server :: "server_draft option"
  en_local :: "draft_content option"
  en_epoch :: int
  en_claiming :: "draft_claiming option"
  en_sending :: "draft_sending option"
  en_pending_failed_send :: "pending_failed_send option"
  en_abandoned :: "string list"
  en_save :: draft_save_state
  en_blocked_by :: "block_reason option"
  en_conflict :: "draft_conflict option"
  en_thread :: thread_status
  en_transcript :: transcript_state
  en_ack_seq :: int
  en_inflight :: "inflight_save option"
  en_credential_ack :: bool
  en_transient_failures :: nat
  en_error_failures :: nat

text \<open>\<open>activeKey\<close> and \<open>entries\<close> are dictionaries the source also iterates over, in insertion order.\<close>

record drafts_state =
  st_viewer :: "string option"
  st_scope :: "draft_scope option"
  st_generation :: int
  st_page_org :: "string option"
  st_active_key :: "(string \<times> string) list"
  st_entries :: "(string \<times> draft_entry) list"

section \<open>Events and effects\<close>

datatype save_trigger = TrTimer | TrBlur | TrHidden | TrBeforeSubmit | TrRetry | TrOnline

datatype unblock_reason = UnblockSignedIn | UnblockLimitFreed

datatype entry_event =
  EvEdit int editor_content
| EvSaveTrigger save_trigger
| EvSaveResult int save_result
| EvRestoreResult int restore_result
| EvWriteRejected int bool
| EvKeepMine
| EvUseTheirs
| EvRestore
| EvLetGo
| EvNotListed int
| EvCredentialAck
| EvUnblock unblock_reason
| EvTranscriptLoaded

record entry_context =
  cx_page_org :: "string option"
  cx_tab_id :: string
  cx_active :: bool
  cx_now :: string

datatype drafts_event =
  EvOpenNew string
| EvOpenArtifactNew string string
| EvSelect draft_key thread_status
| EvScopeChange draft_scope
| EvPageOrg "string option"
| EvViewerChange "string option"
| EvEntry draft_key entry_event

datatype draft_notice = NoticeUnsaved | NoticeHeldOtherOrg | NoticeBlocked | NoticeCredential | NoticeDeletedUnsentRemoved

datatype schedule_reason = ScheduleTimer | ScheduleRetry

datatype draft_effect =
  EfSave draft_key int draft_content "pending_failed_send option"
| EfRestore draft_key int
| EfScheduleSave draft_key int schedule_reason
| EfLoadTranscript draft_key
| EfList draft_scope int
| EfCacheRemove draft_key
| EfCacheClear
| EfNotice draft_key draft_notice

text \<open>One entry reduction: the next entry (\<open>None\<close> when it is removed) and its effects; one store reduction.\<close>

type_synonym entry_transition = "draft_entry option \<times> draft_effect list"
type_synonym drafts_transition = "drafts_state \<times> draft_effect list"

end
