(* ===== verification/Draft_Credential.thy ===== *)
theory Draft_Credential
  imports Draft_Content
begin

text \<open>
  The credential detector of the drafting reducer (reducer-drafting.ts, \<open>looksLikeCredential\<close>). Its
  twelve regular expressions use literals, alternatives of literals, character classes with a lower
  bound or an exact count, optional characters and \<open>\b\<close>; \<open>test\<close> asks whether any position matches, so
  greediness does not matter. Alternatives with an optional character inside are written out.
\<close>

section \<open>Patterns\<close>

datatype rx =
  RxBound
| RxLit utf16
| RxAny "utf16 list"
| RxMany "16 word \<Rightarrow> bool" nat
| RxExact "16 word \<Rightarrow> bool" nat
| RxOpt "16 word \<Rightarrow> bool"

definition units :: "string \<Rightarrow> utf16" where
  "units s = map of_char s"

definition in_range :: "char \<Rightarrow> char \<Rightarrow> 16 word \<Rightarrow> bool" where
  "in_range a b u \<longleftrightarrow> of_char a \<le> u \<and> u \<le> of_char b"

definition one_of :: "string \<Rightarrow> 16 word \<Rightarrow> bool" where
  "one_of s u \<longleftrightarrow> u \<in> set (units s)"

definition digit :: "16 word \<Rightarrow> bool" where "digit = in_range CHR ''0'' CHR ''9''"
definition upper :: "16 word \<Rightarrow> bool" where "upper = in_range CHR ''A'' CHR ''Z''"
definition lower :: "16 word \<Rightarrow> bool" where "lower = in_range CHR ''a'' CHR ''z''"

definition alnum :: "16 word \<Rightarrow> bool" where "alnum u \<longleftrightarrow> digit u \<or> upper u \<or> lower u"
definition alnum_plus :: "string \<Rightarrow> 16 word \<Rightarrow> bool" where "alnum_plus s u \<longleftrightarrow> alnum u \<or> one_of s u"

text \<open>\<open>\w\<close>, and \<open>\s\<close> as ECMAScript defines it: white space and line terminators.\<close>

definition word_unit :: "16 word \<Rightarrow> bool" where "word_unit = alnum_plus ''_''"

definition space_unit :: "16 word \<Rightarrow> bool" where
  "space_unit u \<longleftrightarrow> u \<in> {0x9, 0xA, 0xB, 0xC, 0xD, 0x20, 0xA0, 0x1680, 0x2028, 0x2029, 0x202F, 0x205F, 0x3000, 0xFEFF} \<or>
     0x2000 \<le> u \<and> u \<le> 0x200A"

definition at_boundary :: "16 word option \<Rightarrow> utf16 \<Rightarrow> bool" where
  "at_boundary p s \<longleftrightarrow>
     (case p of None \<Rightarrow> False | Some u \<Rightarrow> word_unit u) \<noteq> (case s of [] \<Rightarrow> False | u # _ \<Rightarrow> word_unit u)"

definition starts_with :: "utf16 \<Rightarrow> utf16 \<Rightarrow> bool" where
  "starts_with l s \<longleftrightarrow> take (length l) s = l"

definition last_unit :: "16 word option \<Rightarrow> utf16 \<Rightarrow> 16 word option" where
  "last_unit p l = (if l = [] then p else Some (last l))"

text \<open>Whether the pattern matches here, \<open>p\<close> being the unit before this position.\<close>

function rx_match :: "rx list \<Rightarrow> 16 word option \<Rightarrow> utf16 \<Rightarrow> bool" where
  "rx_match [] p s = True"
| "rx_match (RxBound # rs) p s = (at_boundary p s \<and> rx_match rs p s)"
| "rx_match (RxLit l # rs) p s = (starts_with l s \<and> rx_match rs (last_unit p l) (drop (length l) s))"
| "rx_match (RxAny ls # rs) p s =
     (\<exists>l\<in>set ls. starts_with l s \<and> rx_match rs (last_unit p l) (drop (length l) s))"
| "rx_match (RxMany c n # rs) p s =
     (n = 0 \<and> rx_match rs p s \<or>
      (case s of [] \<Rightarrow> False | u # us \<Rightarrow> c u \<and> rx_match (RxMany c (n - 1) # rs) (Some u) us))"
| "rx_match (RxExact c n # rs) p s =
     (if n = 0 then rx_match rs p s
      else (case s of [] \<Rightarrow> False | u # us \<Rightarrow> c u \<and> rx_match (RxExact c (n - 1) # rs) (Some u) us))"
| "rx_match (RxOpt c # rs) p s =
     (rx_match rs p s \<or> (case s of [] \<Rightarrow> False | u # us \<Rightarrow> c u \<and> rx_match rs (Some u) us))"
  by pat_completeness auto
termination
  by (relation "measures [\<lambda>(rs, p, s). length rs + length s, \<lambda>(rs, p, s). length rs]") auto

fun rx_search :: "rx list \<Rightarrow> 16 word option \<Rightarrow> utf16 \<Rightarrow> bool" where
  "rx_search rs p [] = rx_match rs p []"
| "rx_search rs p (u # us) = (rx_match rs p (u # us) \<or> rx_search rs (Some u) us)"

section \<open>The patterns of the source\<close>

definition key_unit :: "16 word \<Rightarrow> bool" where "key_unit = alnum_plus ''_-''"

definition credential_patterns :: "rx list list" where
  "credential_patterns =
    [[RxLit (units ''-----BEGIN ''), RxMany (\<lambda>u. upper u \<or> digit u \<or> one_of '' '' u) 0, RxLit (units ''PRIVATE KEY-----'')],
     [RxBound, RxAny [units ''AKIA'', units ''ASIA''], RxExact (\<lambda>u. digit u \<or> upper u) 16, RxBound],
     [RxBound, RxLit (units ''gh''), RxExact (one_of ''pousr'') 1, RxLit (units ''_''), RxMany alnum 36],
     [RxBound, RxLit (units ''github_pat_''), RxMany (alnum_plus ''_'') 22],
     [RxBound, RxLit (units ''glpat-''), RxMany key_unit 20],
     [RxBound, RxLit (units ''xox''), RxExact (one_of ''abposr'') 1, RxLit (units ''-''), RxMany (alnum_plus ''-'') 10],
     [RxBound, RxExact (one_of ''sr'') 1, RxLit (units ''k_live_''), RxMany alnum 16],
     [RxBound, RxLit (units ''sk-''), RxMany key_unit 20],
     [RxBound, RxLit (units ''AIza''), RxExact key_unit 35],
     [RxBound, RxLit (units ''eyJ''), RxMany key_unit 10, RxLit (units ''.eyJ''), RxMany key_unit 10,
      RxLit (units ''.''), RxMany key_unit 10],
     [RxBound, RxAny [units ''client-key-data'', units ''client-certificate-data'', units ''token''],
      RxMany space_unit 0, RxLit (units '':''), RxMany space_unit 0, RxMany (\<lambda>u. \<not> space_unit u) 16]]"

text \<open>The last pattern ignores case; its classes do not depend on it.\<close>

definition credential_word_pattern :: "rx list" where
  "credential_word_pattern =
     [RxBound,
      RxAny [units ''password'', units ''passwd'', units ''secret'',
        units ''apikey'', units ''api_key'', units ''api-key'',
        units ''accesskey'', units ''access_key'', units ''access-key'',
        units ''clientsecret'', units ''client_secret'', units ''client-secret''],
      RxMany space_unit 0, RxExact (one_of '':='') 1, RxMany space_unit 0,
      RxOpt (\<lambda>u. u = 0x22 \<or> u = 0x27), RxMany (\<lambda>u. \<not> space_unit u \<and> u \<noteq> 0x22 \<and> u \<noteq> 0x27) 8]"

definition ascii_lower :: "16 word \<Rightarrow> 16 word" where
  "ascii_lower u = (if upper u then u + 0x20 else u)"

definition looks_like_credential :: "utf16 \<Rightarrow> bool" where
  "looks_like_credential s \<longleftrightarrow>
     (\<exists>rs\<in>set credential_patterns. rx_search rs None s) \<or>
     rx_search credential_word_pattern None (map ascii_lower s)"

end
