(* ===== verification/Draft_Drafting.thy ===== *)
theory Draft_Drafting
  imports Draft_State Draft_Credential "HOL-Library.AList"
begin

text \<open>
  The drafting half of the Elench drafts reducer (lib/stores/elench-drafts/reducer-drafting.ts), whole:
  the per-key reduction \<open>reduce_draft_entry\<close> and the store reduction \<open>reduce_drafts\<close>. Both are pure in
  the source too; a JavaScript object used as a dictionary and iterated over is an association list,
  which \<open>AList.update\<close> keeps in insertion order as the engine does.
\<close>

section \<open>Constants, keys, entries\<close>

definition save_debounce_ms :: int where "save_debounce_ms = 800"
definition max_retry_delay_ms :: int where "max_retry_delay_ms = 60000"
definition max_error_retries :: nat where "max_error_retries = 3"

record drafts_env =
  ev_tab_id :: string
  ev_now :: string

definition scope_id :: "'a draft_scope_scheme \<Rightarrow> string" where
  "scope_id s = ds_org s @ '':'' @ (case ds_project s of None \<Rightarrow> ''org'' | Some p \<Rightarrow> ''project:'' @ p)"

definition key_id :: "draft_key \<Rightarrow> string" where
  "key_id k = scope_id k @ '':'' @ dk_conversation k"

definition same_scope :: "'a draft_scope_scheme \<Rightarrow> 'b draft_scope_scheme \<Rightarrow> bool" where
  "same_scope a b \<longleftrightarrow> ds_org a = ds_org b \<and> ds_project a = ds_project b"

text \<open>\<open>{ ...scope, conversationId }\<close>\<close>

definition key_in :: "draft_scope \<Rightarrow> string \<Rightarrow> draft_key" where
  "key_in s c = \<lparr>ds_org = ds_org s, ds_project = ds_project s, dk_conversation = c\<rparr>"

definition shown_content :: "draft_entry \<Rightarrow> draft_content" where
  "shown_content e =
     (case en_claiming e of
        Some c \<Rightarrow> cg_content c
      | None \<Rightarrow>
          (case en_sending e of
             Some s \<Rightarrow>
               if sg_token s \<noteq> None
               then (case en_local e of None \<Rightarrow> empty_content | Some l \<Rightarrow> l)
               else (case en_local e of Some l \<Rightarrow> l
                     | None \<Rightarrow> (case en_server e of None \<Rightarrow> empty_content | Some r \<Rightarrow> sd_content r))
           | None \<Rightarrow> (case en_local e of Some l \<Rightarrow> l
                     | None \<Rightarrow> (case en_server e of None \<Rightarrow> empty_content | Some r \<Rightarrow> sd_content r))))"

definition new_entry :: "draft_key \<Rightarrow> thread_status \<Rightarrow> draft_entry" where
  "new_entry k t = \<lparr>en_key = k, en_server = None, en_local = None, en_epoch = 0, en_claiming = None,
     en_sending = None, en_pending_failed_send = None, en_abandoned = [], en_save = SvIdle,
     en_blocked_by = None, en_conflict = None, en_thread = t,
     en_transcript = (if t = ThreadListed \<or> t = ThreadUnlisted then TranscriptUnloaded else TranscriptLoaded),
     en_ack_seq = 0, en_inflight = None, en_credential_ack = False, en_transient_failures = 0,
     en_error_failures = 0\<rparr>"

definition credential_holds :: "draft_entry \<Rightarrow> bool" where
  "credential_holds e \<longleftrightarrow>
     (case en_local e of None \<Rightarrow> False
      | Some l \<Rightarrow> \<not> en_credential_ack e \<and> looks_like_credential (dc_text l))"

section \<open>Save states\<close>

text \<open>The \<open>kind\<close> of a block reason, which is what the reducer compares.\<close>

fun block_kind :: "block_reason \<Rightarrow> string" where
  "block_kind BlockOtherOrg = ''other-org''"
| "block_kind BlockCredential = ''credential''"
| "block_kind (BlockAddress _) = ''address''"
| "block_kind BlockUnauthorized = ''unauthorized''"
| "block_kind (BlockForbidden _) = ''forbidden''"
| "block_kind BlockLimit = ''limit''"
| "block_kind BlockInvalid = ''invalid''"
| "block_kind BlockError = ''error''"

definition blocked_kind :: "draft_entry \<Rightarrow> string option" where
  "blocked_kind e = map_option block_kind (en_blocked_by e)"

definition notice_for :: "draft_save_state \<Rightarrow> block_reason option \<Rightarrow> draft_notice" where
  "notice_for sv r =
     (if r = Some BlockCredential then NoticeCredential
      else if r = Some BlockOtherOrg then NoticeHeldOtherOrg
      else if sv = SvRetrying then NoticeUnsaved else NoticeBlocked)"

definition enter_unsaved :: "draft_entry \<Rightarrow> draft_save_state \<Rightarrow> block_reason option \<Rightarrow> entry_transition" where
  "enter_unsaved e sv r =
     (Some (e\<lparr>en_save := sv, en_blocked_by := r\<rparr>),
      if en_save e = sv \<and> blocked_kind e = map_option block_kind r then []
      else [EfNotice (en_key e) (notice_for sv r)])"

definition retry_delay_ms :: "nat \<Rightarrow> int" where
  "retry_delay_ms n = min (1000 * 2 ^ (n - 1)) max_retry_delay_ms"

definition unchanged :: "draft_entry \<Rightarrow> entry_transition" where
  "unchanged e = (Some e, [])"

section \<open>D7: sending a save\<close>

definition try_save :: "draft_entry \<Rightarrow> entry_context \<Rightarrow> entry_transition" where
  "try_save e cx =
     (case en_local e of
        None \<Rightarrow> unchanged e
      | Some l \<Rightarrow>
          if en_inflight e \<noteq> None then unchanged e
          else if en_claiming e \<noteq> None \<or> en_sending e \<noteq> None then unchanged e
          else if en_conflict e \<noteq> None then unchanged e
          else if en_save e = SvBlocked then unchanged e
          else if credential_holds e then enter_unsaved e SvHeld (Some BlockCredential)
          else if cx_page_org cx \<noteq> Some (ds_org (en_key e)) then enter_unsaved e SvHeld (Some BlockOtherOrg)
          else (let base = (case en_server e of None \<Rightarrow> 0 | Some r \<Rightarrow> sd_revision r)
                in (Some (e\<lparr>en_save := SvSaving, en_blocked_by := None,
                       en_inflight := Some \<lparr>if_op = OpSave, if_base = base, if_content = l,
                         if_failed_send = en_pending_failed_send e\<rparr>\<rparr>),
                    [EfSave (en_key e) base l (en_pending_failed_send e)])))"

section \<open>D5, D6, D36: an edit\<close>

text \<open>What the box keeps as unsaved after an edit to \<open>next\<close>.\<close>

definition edited_local :: "draft_entry \<Rightarrow> draft_content \<Rightarrow> draft_content option" where
  "edited_local e next =
     (if (case en_sending e of None \<Rightarrow> False | Some s \<Rightarrow> sg_token s \<noteq> None)
      then (if is_empty_content next then None else Some next)
      else if en_sending e = None
      then (let flying = (case en_inflight e of None \<Rightarrow> False | Some i \<Rightarrow> \<not> content_equals next (if_content i));
                matches_row = (case en_server e of None \<Rightarrow> is_empty_content next
                               | Some r \<Rightarrow> content_equals next (sd_content r))
            in if matches_row \<and> \<not> flying \<and> en_conflict e = None then None else Some next)
      else Some next)"

definition reduce_edit :: "draft_entry \<Rightarrow> int \<Rightarrow> editor_content \<Rightarrow> entry_transition" where
  "reduce_edit e epoch c =
     (if epoch \<noteq> en_epoch e then unchanged e
      else if en_claiming e \<noteq> None then unchanged e
      else (let edited = normalize_editor_content c; shown = shown_content e;
                next = \<lparr>dc_text = ec_text edited, dc_mentions = ec_mentions edited,
                        dc_artifacts = dc_artifacts shown, dc_cell = dc_cell shown\<rparr>;
                edit = e\<lparr>en_local := edited_local e next\<rparr>;
                held = (blocked_kind e = Some ''credential'')
            in if credential_holds edit
               then (if held then unchanged edit else enter_unsaved edit SvHeld (Some BlockCredential))
               else (Some (if held then edit\<lparr>en_save := SvIdle, en_blocked_by := None\<rparr> else edit),
                     if edited_local e next = None then []
                     else [EfScheduleSave (en_key e) save_debounce_ms ScheduleTimer])))"

section \<open>The answer to a write\<close>

definition acknowledged_row ::
  "draft_entry \<Rightarrow> draft_content \<Rightarrow> int \<Rightarrow> pending_failed_send option \<Rightarrow> entry_context \<Rightarrow> server_draft" where
  "acknowledged_row e sent revision carried cx =
     (let prev = en_server e; prev_failed = Option.bind prev sd_failed_send;
          failed = (case carried of
             Some f \<Rightarrow> Some \<lparr>fs_turn = fs_turn f, fs_kind = fs_kind f, fs_error = fs_error f,
                            fs_uncertain = fs_uncertain f, fs_at = cx_now cx\<rparr>
           | None \<Rightarrow> (case prev_failed of None \<Rightarrow> None
               | Some f \<Rightarrow> if \<not> fs_uncertain f \<and> map_option (dc_text \<circ> sd_content) prev \<noteq> Some (dc_text sent)
                          then None else Some f))
      in \<lparr>sd_org = ds_org (en_key e), sd_project = ds_project (en_key e),
          sd_conversation = dk_conversation (en_key e), sd_revision = revision, sd_state = RowActive,
          sd_content = sent, sd_claim = None, sd_failed_send = failed,
          sd_last_sent = Option.bind prev sd_last_sent,
          sd_thread_seen = (case prev of None \<Rightarrow> False | Some r \<Rightarrow> sd_thread_seen r),
          sd_title = Option.bind prev sd_title, sd_last_writer = Some (cx_tab_id cx),
          sd_discarded_at = None, sd_updated_at = cx_now cx\<rparr>)"

definition settle :: "draft_entry \<Rightarrow> int \<Rightarrow> draft_entry" where
  "settle e seq = e\<lparr>en_inflight := None, en_ack_seq := max (en_ack_seq e) seq\<rparr>"

definition answered :: "draft_entry \<Rightarrow> draft_entry" where
  "answered e =
     (let keep = (en_save e = SvHeld \<and> blocked_kind e = Some ''credential'')
      in e\<lparr>en_save := (if keep then SvHeld else SvIdle), en_blocked_by := (if keep then en_blocked_by e else None),
           en_transient_failures := 0, en_error_failures := 0\<rparr>)"

fun is_notice :: "draft_effect \<Rightarrow> bool" where
  "is_notice (EfNotice _ _) = True"
| "is_notice _ = False"

definition retry_after :: "draft_entry \<Rightarrow> nat \<Rightarrow> entry_transition" where
  "retry_after e n =
     (let failing = en_transient_failures e + en_error_failures e > 0
      in case enter_unsaved e SvRetrying None of
           (e', fx) \<Rightarrow> (e', (if failing then filter (\<lambda>x. \<not> is_notice x) fx else fx) @
             [EfScheduleSave (en_key e) (retry_delay_ms n) ScheduleRetry]))"

definition transient_failure :: "draft_entry \<Rightarrow> entry_transition" where
  "transient_failure e =
     (let n = en_transient_failures e + 1
      in case retry_after e n of (e', fx) \<Rightarrow> (map_option (\<lambda>x. x\<lparr>en_transient_failures := n\<rparr>) e', fx))"

definition error_failure :: "draft_entry \<Rightarrow> entry_transition" where
  "error_failure e =
     (let n = en_error_failures e + 1
      in if max_error_retries < n
         then enter_unsaved (e\<lparr>en_error_failures := n\<rparr>) SvBlocked (Some BlockError)
         else (case retry_after e n of (e', fx) \<Rightarrow> (map_option (\<lambda>x. x\<lparr>en_error_failures := n\<rparr>) e', fx)))"

definition gone_with_nothing_unsaved :: "draft_entry \<Rightarrow> thread_status option \<Rightarrow> entry_context \<Rightarrow> entry_transition" where
  "gone_with_nothing_unsaved e t cx =
     (let fx = (if t = Some ThreadDeleted then [EfNotice (en_key e) NoticeDeletedUnsentRemoved] else [])
      in if \<not> cx_active cx then (None, fx)
         else (Some (e\<lparr>en_server := None, en_epoch := en_epoch e + 1\<rparr>), fx))"

definition reduce_gone :: "draft_entry \<Rightarrow> draft_thread \<Rightarrow> entry_context \<Rightarrow> entry_transition" where
  "reduce_gone e th cx =
     (let next = (answered e)\<lparr>en_thread := dt_status th\<rparr>
      in if en_local next = None \<and> en_claiming next = None \<and> en_sending next = None
         then gone_with_nothing_unsaved next (Some (dt_status th)) cx
         else unchanged next)"

fun reduce_refusal :: "draft_entry \<Rightarrow> gate_refusal \<Rightarrow> entry_transition" where
  "reduce_refusal e RefInvalid = enter_unsaved e SvBlocked (Some BlockInvalid)"
| "reduce_refusal e RefUnauthorized = enter_unsaved e SvBlocked (Some BlockUnauthorized)"
| "reduce_refusal e (RefForbidden m) = enter_unsaved e SvBlocked (Some (BlockForbidden m))"
| "reduce_refusal e RefOtherOrg = enter_unsaved e SvHeld (Some BlockOtherOrg)"
| "reduce_refusal e (RefAddress slug) = enter_unsaved e SvBlocked (Some (BlockAddress slug))"
| "reduce_refusal e RefRateLimited = transient_failure e"
| "reduce_refusal e RefUnavailable = transient_failure e"

definition reduce_conflict :: "draft_entry \<Rightarrow> server_draft \<Rightarrow> entry_context \<Rightarrow> entry_transition" where
  "reduce_conflict e row cx =
     (case en_local e of
        None \<Rightarrow> unchanged e
      | Some l \<Rightarrow>
          if content_equals l (sd_content row) then unchanged (e\<lparr>en_server := Some row, en_local := None\<rparr>)
          else if sd_last_writer row = Some (cx_tab_id cx) then try_save (e\<lparr>en_server := Some row\<rparr>) cx
          else unchanged (e\<lparr>en_conflict := Some \<lparr>cf_kind = CkEdited, cf_row = Some row\<rparr>\<rparr>))"

definition reduce_save_result :: "draft_entry \<Rightarrow> int \<Rightarrow> save_result \<Rightarrow> entry_context \<Rightarrow> entry_transition" where
  "reduce_save_result e seq result cx =
     (case en_inflight e of
        None \<Rightarrow> unchanged e
      | Some i \<Rightarrow>
          if if_op i \<noteq> OpSave then unchanged e
          else (let settled = settle e seq in
            case result of
              SaveSaved revision \<Rightarrow>
                (let sent = if_content i;
                     acked = (answered settled)
                       \<lparr>en_server := Some (acknowledged_row e sent revision (if_failed_send i) cx),
                        en_pending_failed_send :=
                          (if if_failed_send i \<noteq> None then None else en_pending_failed_send settled)\<rparr>
                 in if (case en_local acked of None \<Rightarrow> False | Some l \<Rightarrow> content_equals l sent) then unchanged (acked\<lparr>en_local := None\<rparr>)
                    else try_save acked cx)
            | SaveConflict row th \<Rightarrow> reduce_conflict ((answered settled)\<lparr>en_thread := dt_status th\<rparr>) row cx
            | SaveDiscarded row th \<Rightarrow>
                unchanged ((answered settled)\<lparr>en_thread := dt_status th,
                  en_conflict := Some \<lparr>cf_kind = CkDiscarded, cf_row = Some row\<rparr>\<rparr>)
            | SaveClaimed row th \<Rightarrow> unchanged ((answered settled)\<lparr>en_thread := dt_status th\<rparr>)
            | SaveGone th \<Rightarrow> reduce_gone settled th cx
            | SaveLimit \<Rightarrow> enter_unsaved settled SvBlocked (Some BlockLimit)
            | SaveRefused r \<Rightarrow> reduce_refusal settled r))"

definition reduce_restore_result :: "draft_entry \<Rightarrow> int \<Rightarrow> restore_result \<Rightarrow> entry_context \<Rightarrow> entry_transition" where
  "reduce_restore_result e seq result cx =
     (case en_inflight e of
        None \<Rightarrow> unchanged e
      | Some i \<Rightarrow>
          if if_op i \<noteq> OpRestore then unchanged e
          else (let settled = settle e seq in
            case result of
              RestoreSaved revision \<Rightarrow>
                try_save ((answered settled)\<lparr>en_server := map_option
                  (\<lambda>r. r\<lparr>sd_state := RowActive, sd_discarded_at := None, sd_revision := revision\<rparr>) (en_server settled)\<rparr>) cx
            | RestoreConflict row th \<Rightarrow> reduce_conflict ((answered settled)\<lparr>en_thread := dt_status th\<rparr>) row cx
            | RestoreGone th \<Rightarrow> reduce_gone settled th cx
            | RestoreRefused r \<Rightarrow> reduce_refusal settled r))"

section \<open>The entry reducer\<close>

definition holds_cache :: "draft_entry option \<Rightarrow> bool" where
  "holds_cache e \<longleftrightarrow>
     (case e of None \<Rightarrow> False
      | Some e \<Rightarrow> en_local e \<noteq> None \<or> en_claiming e \<noteq> None \<or> en_sending e \<noteq> None \<or> en_pending_failed_send e \<noteq> None)"

text \<open>\<open>entry.conflict?.kind === kind ? entry.conflict.row : null\<close>\<close>

definition conflict_row :: "conflict_kind \<Rightarrow> draft_entry \<Rightarrow> server_draft option" where
  "conflict_row k e = (case en_conflict e of None \<Rightarrow> None | Some c \<Rightarrow> if cf_kind c = k then cf_row c else None)"

definition reduce_save_trigger :: "draft_entry \<Rightarrow> save_trigger \<Rightarrow> entry_context \<Rightarrow> entry_transition" where
  "reduce_save_trigger e reason cx =
     (if en_save e = SvRetrying \<and> reason \<notin> {TrRetry, TrOnline, TrBeforeSubmit} then unchanged e else try_save e cx)"

definition reduce_conflict_restore :: "draft_entry \<Rightarrow> entry_transition" where
  "reduce_conflict_restore e =
     (case conflict_row CkDiscarded e of
        None \<Rightarrow> unchanged e
      | Some row \<Rightarrow>
          if en_inflight e \<noteq> None then unchanged e
          else (let after = (case en_local e of None \<Rightarrow> sd_content row | Some l \<Rightarrow> l);
                    replaced = \<not> content_equals (shown_content e) after
                in (Some (e\<lparr>en_epoch := (if replaced then en_epoch e + 1 else en_epoch e),
                       en_server := Some row, en_conflict := None,
                       en_inflight := Some \<lparr>if_op = OpRestore, if_base = sd_revision row,
                         if_content = sd_content row, if_failed_send = None\<rparr>\<rparr>),
                    [EfRestore (en_key e) (sd_revision row)])))"

definition reduce_not_listed :: "draft_entry \<Rightarrow> int \<Rightarrow> entry_context \<Rightarrow> entry_transition" where
  "reduce_not_listed e seq cx =
     (if en_local e \<noteq> None \<or> en_claiming e \<noteq> None \<or> en_sending e \<noteq> None \<or> en_inflight e \<noteq> None \<or>
         en_server e = None \<or> seq \<le> en_ack_seq e
      then unchanged e else gone_with_nothing_unsaved e None cx)"

fun reduce_entry_event :: "draft_entry \<Rightarrow> entry_event \<Rightarrow> entry_context \<Rightarrow> entry_transition" where
  "reduce_entry_event e (EvEdit epoch c) cx = reduce_edit e epoch c"
| "reduce_entry_event e (EvSaveTrigger reason) cx = reduce_save_trigger e reason cx"
| "reduce_entry_event e (EvSaveResult seq result) cx = reduce_save_result e seq result cx"
| "reduce_entry_event e (EvRestoreResult seq result) cx = reduce_restore_result e seq result cx"
| "reduce_entry_event e (EvWriteRejected seq network) cx =
     (if en_inflight e = None then unchanged e
      else if network then transient_failure (settle e seq) else error_failure (settle e seq))"
| "reduce_entry_event e EvKeepMine cx =
     (case conflict_row CkEdited e of None \<Rightarrow> unchanged e
      | Some row \<Rightarrow> try_save (e\<lparr>en_server := Some row, en_conflict := None\<rparr>) cx)"
| "reduce_entry_event e EvUseTheirs cx =
     (case conflict_row CkEdited e of None \<Rightarrow> unchanged e
      | Some row \<Rightarrow> unchanged (e\<lparr>en_server := Some row, en_local := None, en_conflict := None,
          en_epoch := en_epoch e + 1\<rparr>))"
| "reduce_entry_event e EvRestore cx = reduce_conflict_restore e"
| "reduce_entry_event e EvLetGo cx =
     (if (case en_conflict e of None \<Rightarrow> True | Some c \<Rightarrow> cf_kind c \<noteq> CkDiscarded) then unchanged e else (None, []))"
| "reduce_entry_event e (EvNotListed seq) cx = reduce_not_listed e seq cx"
| "reduce_entry_event e EvCredentialAck cx =
     try_save (if blocked_kind e = Some ''credential''
               then e\<lparr>en_credential_ack := True, en_save := SvIdle, en_blocked_by := None\<rparr>
               else e\<lparr>en_credential_ack := True\<rparr>) cx"
| "reduce_entry_event e (EvUnblock reason) cx =
     (let want = (case reason of UnblockSignedIn \<Rightarrow> ''unauthorized'' | UnblockLimitFreed \<Rightarrow> ''limit'')
      in if en_save e \<noteq> SvBlocked \<or> blocked_kind e \<noteq> Some want then unchanged e
         else try_save (e\<lparr>en_save := SvIdle, en_blocked_by := None\<rparr>) cx)"
| "reduce_entry_event e EvTranscriptLoaded cx = unchanged (e\<lparr>en_transcript := TranscriptLoaded\<rparr>)"

definition reduce_draft_entry :: "draft_entry \<Rightarrow> entry_event \<Rightarrow> entry_context \<Rightarrow> entry_transition" where
  "reduce_draft_entry e ev cx =
     (case reduce_entry_event e ev cx of
        (e', fx) \<Rightarrow> (e', if holds_cache (Some e) \<and> \<not> holds_cache e' then fx @ [EfCacheRemove (en_key e)] else fx))"

section \<open>The store reducer\<close>

definition initial_drafts_state :: "string option \<Rightarrow> drafts_state" where
  "initial_drafts_state viewer = \<lparr>st_viewer = viewer, st_scope = None, st_generation = 0, st_page_org = None,
     st_active_key = [], st_entries = []\<rparr>"

definition is_blank :: "draft_entry \<Rightarrow> bool" where
  "is_blank e \<longleftrightarrow> en_thread e = ThreadNone \<and> en_server e = None \<and>
     (case en_local e of None \<Rightarrow> True | Some l \<Rightarrow> is_empty_content l) \<and>
     en_claiming e = None \<and> en_sending e = None \<and> en_pending_failed_send e = None"

definition entry_at :: "drafts_state \<Rightarrow> string \<Rightarrow> draft_entry option" where
  "entry_at s i = map_of (st_entries s) i"

definition put_entry :: "drafts_state \<Rightarrow> string \<Rightarrow> draft_entry option \<Rightarrow> drafts_state" where
  "put_entry s i e = s\<lparr>st_entries :=
     (case e of None \<Rightarrow> AList.delete i (st_entries s) | Some e \<Rightarrow> AList.update i e (st_entries s))\<rparr>"

definition context_for :: "drafts_state \<Rightarrow> draft_key \<Rightarrow> drafts_env \<Rightarrow> entry_context" where
  "context_for s k env = \<lparr>cx_page_org = st_page_org s, cx_tab_id = ev_tab_id env,
     cx_active = (map_of (st_active_key s) (scope_id k) = Some (dk_conversation k)), cx_now = ev_now env\<rparr>"

definition apply_to_entry :: "drafts_state \<Rightarrow> draft_key \<Rightarrow> entry_event \<Rightarrow> drafts_env \<Rightarrow> drafts_transition" where
  "apply_to_entry s k ev env =
     (case entry_at s (key_id k) of
        None \<Rightarrow> (s, [])
      | Some e \<Rightarrow>
          (case reduce_draft_entry e ev (context_for s (en_key e) env) of
             (e', fx) \<Rightarrow>
               let next = put_entry s (key_id k) e'; sid = scope_id (en_key e)
               in if e' \<noteq> None \<or> map_of (st_active_key next) sid \<noteq> Some (dk_conversation (en_key e)) then (next, fx)
                  else (next\<lparr>st_active_key := AList.delete sid (st_active_key next)\<rparr>, fx)))"

definition open_new :: "drafts_state \<Rightarrow> string \<Rightarrow> drafts_transition" where
  "open_new s c =
     (case st_scope s of
        None \<Rightarrow> (s, [])
      | Some scope \<Rightarrow>
          let sid = scope_id scope;
              active = Option.bind (map_of (st_active_key s) sid) (\<lambda>i. entry_at s (key_id (key_in scope i)));
              k = key_in scope c
          in if (case active of None \<Rightarrow> False | Some e \<Rightarrow> is_blank e) then (s, [])
             else if entry_at s (key_id k) \<noteq> None then (s, [])
             else (let next = put_entry s (key_id k) (Some (new_entry k ThreadNone))
                   in (next\<lparr>st_active_key := AList.update sid (dk_conversation k) (st_active_key next)\<rparr>, [])))"

definition open_artifact_new :: "drafts_state \<Rightarrow> string \<Rightarrow> string \<Rightarrow> drafts_env \<Rightarrow> drafts_transition" where
  "open_artifact_new s c artifact env =
     (case st_scope s of
        None \<Rightarrow> (s, [])
      | Some scope \<Rightarrow>
          let k = key_in scope c
          in if entry_at s (key_id k) \<noteq> None then (s, [])
             else (let e = (new_entry k ThreadNone)\<lparr>en_local := Some (empty_content\<lparr>dc_artifacts := [artifact]\<rparr>)\<rparr>;
                       activated = (put_entry s (key_id k) (Some e))
                         \<lparr>st_active_key := AList.update (scope_id scope) (dk_conversation k) (st_active_key s)\<rparr>
                   in apply_to_entry activated k (EvSaveTrigger TrTimer) env))"

definition select_key :: "drafts_state \<Rightarrow> draft_key \<Rightarrow> thread_status \<Rightarrow> drafts_transition" where
  "select_key s k t =
     (if (case st_scope s of None \<Rightarrow> True | Some scope \<Rightarrow> \<not> same_scope k scope) then (s, [])
      else (let existing = (case entry_at s (key_id k) of None \<Rightarrow> new_entry k t | Some e \<Rightarrow> e);
                stored = (en_thread existing = ThreadListed \<or> en_thread existing = ThreadUnlisted);
                e = existing\<lparr>en_transcript := (if stored then TranscriptLoading else TranscriptLoaded)\<rparr>;
                next = put_entry s (key_id k) (Some e)
            in (next\<lparr>st_active_key := AList.update (scope_id k) (dk_conversation k) (st_active_key next)\<rparr>,
                if stored then [EfLoadTranscript k] else [])))"

definition scope_change :: "drafts_state \<Rightarrow> draft_scope \<Rightarrow> drafts_transition" where
  "scope_change s scope =
     (let org_changed = (case st_scope s of None \<Rightarrow> True | Some old \<Rightarrow> ds_org old \<noteq> ds_org scope);
          generation = st_generation s + 1
      in (s\<lparr>st_scope := Some scope, st_generation := generation,
            st_page_org := (if org_changed then None else st_page_org s)\<rparr>,
          [EfList scope generation]))"

definition resumable :: "draft_entry \<Rightarrow> bool" where
  "resumable e \<longleftrightarrow> en_save e = SvHeld \<and> blocked_kind e = Some ''other-org'' \<or>
     en_save e = SvBlocked \<and> blocked_kind e = Some ''address''"

text \<open>The loop of \<open>PAGE_ORG\<close> over the entries as they were when it started.\<close>

fun resume_entries :: "(string \<times> draft_entry) list \<Rightarrow> string \<Rightarrow> drafts_env \<Rightarrow> drafts_state \<Rightarrow> drafts_transition" where
  "resume_entries [] org env s = (s, [])"
| "resume_entries ((i, e) # es) org env s =
     (if ds_org (en_key e) \<noteq> org \<or> \<not> resumable e then resume_entries es org env s
      else (case reduce_draft_entry (e\<lparr>en_save := SvIdle, en_blocked_by := None\<rparr>) (EvSaveTrigger TrTimer)
              (context_for s (en_key e) env) of
              (e', fx) \<Rightarrow>
                (case resume_entries es org env (put_entry s i e') of (s', fx') \<Rightarrow> (s', fx @ fx'))))"

definition page_org_change :: "drafts_state \<Rightarrow> string option \<Rightarrow> drafts_env \<Rightarrow> drafts_transition" where
  "page_org_change s org env =
     (let next = s\<lparr>st_page_org := org\<rparr>
      in case org of None \<Rightarrow> (next, []) | Some o' \<Rightarrow> resume_entries (st_entries s) o' env next)"

definition viewer_change :: "drafts_state \<Rightarrow> string option \<Rightarrow> drafts_transition" where
  "viewer_change s viewer =
     (if viewer = st_viewer s then (s, [])
      else (s\<lparr>st_viewer := viewer, st_active_key := [], st_entries := []\<rparr>, [EfCacheClear]))"

fun reduce_drafts :: "drafts_state \<Rightarrow> drafts_event \<Rightarrow> drafts_env \<Rightarrow> drafts_transition" where
  "reduce_drafts s (EvOpenNew c) env = open_new s c"
| "reduce_drafts s (EvOpenArtifactNew c a) env = open_artifact_new s c a env"
| "reduce_drafts s (EvSelect k t) env = select_key s k t"
| "reduce_drafts s (EvScopeChange scope) env = scope_change s scope"
| "reduce_drafts s (EvPageOrg org) env = page_org_change s org env"
| "reduce_drafts s (EvViewerChange viewer) env = viewer_change s viewer"
| "reduce_drafts s (EvEntry k ev) env = apply_to_entry s k ev env"

end
