(* ===== verification/Draft_Send_State.thy ===== *)
theory Draft_Send_State
  imports Draft_Drafting
begin

text \<open>
  The data of the sending half of the Elench drafts reducer (reducer-sending.ts): the answers of the
  claim actions and of \<open>startConversation\<close> (lib/elench/draft-outcomes.ts), the events, the effects,
  the context and the transition of one key.
\<close>

section \<open>What the server answers\<close>

datatype claim_result =
  ClaimByYou int draft_content | ClaimTaken server_draft draft_thread | ClaimConflict server_draft draft_thread
| ClaimDiscarded server_draft draft_thread | ClaimGone draft_thread | ClaimWrongKind draft_thread | ClaimEmpty
| ClaimLimit | ClaimRefused gate_refusal

datatype consume_result =
  ConsumeDone int | ConsumeNotClaimed server_draft draft_thread | ConsumeGone draft_thread | ConsumeRefused gate_refusal

datatype release_result =
  ReleaseDone server_draft | ReleaseConsumed int | ReleaseNotClaimed server_draft draft_thread
| ReleaseGone draft_thread | ReleaseRefused gate_refusal

datatype touch_result =
  TouchDone | TouchNotClaimed server_draft draft_thread | TouchGone draft_thread

datatype start_result =
  StartCreated int int | StartStored int | StartDeleted int | StartConflict int
| StartDraftConflict server_draft draft_thread | StartNotClaimed server_draft draft_thread
| StartTaken server_draft draft_thread | StartGone draft_thread | StartRefused gate_refusal

datatype discard_result =
  DiscardDone int | DiscardConflict server_draft draft_thread | DiscardTaken server_draft draft_thread
| DiscardGone draft_thread | DiscardRefused gate_refusal

record list_entry =
  le_row :: server_draft
  le_thread :: draft_thread
  le_title :: "utf16 option"

record list_ok =
  lo_org :: string
  lo_drafts :: "list_entry list"

text \<open>\<open>outcome\<close>, where the reducer records it as a failure code.\<close>

fun refusal_outcome :: "gate_refusal \<Rightarrow> string" where
  "refusal_outcome RefInvalid = ''invalid''"
| "refusal_outcome RefUnauthorized = ''unauthorized''"
| "refusal_outcome (RefForbidden _) = ''forbidden''"
| "refusal_outcome RefOtherOrg = ''scope-changed''"
| "refusal_outcome (RefAddress _) = ''scope-changed''"
| "refusal_outcome RefRateLimited = ''rate-limited''"
| "refusal_outcome RefUnavailable = ''unavailable''"

fun start_outcome :: "start_result \<Rightarrow> string" where
  "start_outcome (StartCreated _ _) = ''created''"
| "start_outcome (StartStored _) = ''already-stored''"
| "start_outcome (StartDeleted _) = ''deleted''"
| "start_outcome (StartConflict _) = ''conflict''"
| "start_outcome (StartDraftConflict _ _) = ''draft-conflict''"
| "start_outcome (StartNotClaimed _ _) = ''not-claimed''"
| "start_outcome (StartTaken _ _) = ''claimed''"
| "start_outcome (StartGone _) = ''gone''"
| "start_outcome (StartRefused r) = refusal_outcome r"

text \<open>A chat route's refusal (lib/agent/turn-claims.ts), as far as the reducer reads it.\<close>

datatype turn_refusal_code =
  TurnInProgress | TurnAnswered | TurnCommittedDifferentText | ThreadBusy | TranscriptStale | ThreadWasDeleted
| ThreadNotFound | OrgForbidden | ProjectNotFound | ClientOutdated | TurnHasAcceptedApproval

fun refusal_code_text :: "turn_refusal_code \<Rightarrow> string" where
  "refusal_code_text TurnInProgress = ''turn-in-progress''"
| "refusal_code_text TurnAnswered = ''turn-answered''"
| "refusal_code_text TurnCommittedDifferentText = ''turn-committed-different-text''"
| "refusal_code_text ThreadBusy = ''thread-busy''"
| "refusal_code_text TranscriptStale = ''transcript-stale''"
| "refusal_code_text ThreadWasDeleted = ''thread-deleted''"
| "refusal_code_text ThreadNotFound = ''thread-not-found''"
| "refusal_code_text OrgForbidden = ''org-forbidden''"
| "refusal_code_text ProjectNotFound = ''project-not-found''"
| "refusal_code_text ClientOutdated = ''client-outdated''"
| "refusal_code_text TurnHasAcceptedApproval = ''turn-has-accepted-approval''"

record turn_refusal =
  tr_refusal :: turn_refusal_code
  tr_turn :: "string option"
  tr_committed :: bool
  tr_text_committed :: bool
  tr_answered :: bool
  tr_revision :: "int option"
  tr_answer :: "string option"

section \<open>Failures, context, cache items\<close>

record fresh_ids =
  fr_attempt :: string
  fr_token :: string
  fr_turn :: string
  fr_conversation :: string

record draft_fence =
  fe_turn :: string
  fe_before :: draft_content
  fe_merged :: draft_content

record send_context = entry_context +
  cx_fresh :: fresh_ids
  cx_mounted :: bool
  cx_fence :: "draft_fence option"

datatype write_failure = FailRejected bool | FailTimeout

datatype route_failure = RouteStatus nat "turn_refusal option" | RouteNetwork | RouteStop | RouteDeadline

datatype failure_arm = ArmCertain | ArmUncertain | ArmCommitted | ArmDifferentText

record cached_draft =
  ca_key :: draft_key
  ca_base :: int
  ca_local :: "draft_content option"
  ca_claiming :: "draft_claiming option"
  ca_sending :: "draft_sending option"
  ca_abandoned :: "string list"
  ca_epoch :: int

section \<open>Events and effects\<close>

datatype send_event =
  EvSubmit bool
| EvSubmitExternal utf16 "draft_mention list" "cell_target option" string bool
| EvClaimResult string int claim_result
| EvClaimFailed string int write_failure
| EvStartResult string int start_result
| EvStartFailed string int write_failure
| EvRouteHandoff string
| EvRouteFailed string route_failure
| EvConsumeResult string int nat consume_result
| EvConsumeFailed string int nat write_failure
| EvReleaseResult string int nat release_result
| EvReleaseFailed string int nat write_failure
| EvHeartbeat string touch_result
| EvDiscard
| EvDiscardResult int int discard_result
| EvDiscardFailed
| EvUndoDiscard int draft_content
| EvUncertainDismiss
| EvCopyKeep
| EvCopyDiscard
| EvListed int list_entry

datatype send_notice =
  NoticeNotSent | NoticeNotSentUnreachable | NoticeEmptyBox | NoticeWaitForSend | NoticeTranscriptShown
| NoticeFirstSent | NoticeFirstSentMoreInBox | NoticeSentElsewhere | NoticeClaimedElsewhere
| NoticeKeptInNewDeleted | NoticeKeptInNewStarted | NoticeEarlierVersionSent | NoticeBeingAnswered
| NoticeThreadBusy | NoticeReloadToContinue | NoticeDiscardConflict | NoticeDiscardFailed

record external_prompt =
  ep_text :: utf16
  ep_mentions :: "draft_mention list"
  ep_cell :: "cell_target option"

text \<open>
  The effects of the drafting half are effects here as they are (\<open>SfDraft\<close>); the rest is the sending
  half's own. \<open>SfNotice\<close> carries the failure code of a "Not sent".
\<close>

datatype send_effect =
  SfDraft draft_effect
| SfNotice draft_key send_notice "string option"
| SfClaim draft_key string int draft_content string string send_kind
| SfStart draft_key string string int string "string option" "external_prompt option"
| SfSendMessage draft_key string utf16 "draft_mention list" "cell_target option"
| SfRemoveOptimistic draft_key string
| SfConsume draft_key string nat int
| SfRelease draft_key string string bool "string option" nat int
| SfDiscard draft_key int
| SfOfferUndoDiscard draft_key int draft_content
| SfDismissFailedSend draft_key int draft_content
| SfThreadRevision draft_key int
| SfPlaceArtifacts draft_key "string list"
| SfPollThread draft_key

record draft_fork =
  fk_content :: draft_content
  fk_discard :: "int option"
  fk_notice :: send_notice

text \<open>One reduction of a key; a fence of \<open>None\<close> is the source's \<open>undefined\<close>, which keeps the key's fence.\<close>

record send_transition =
  tn_entry :: "draft_entry option"
  tn_effects :: "send_effect list"
  tn_fork :: "draft_fork option"
  tn_fence :: "draft_fence option option"

end
