(* ===== verification/Draft_Sending.thy ===== *)
theory Draft_Sending
  imports Draft_Send_State
begin

text \<open>
  The sending half of the Elench drafts reducer (lib/stores/elench-drafts/reducer-sending.ts), whole:
  claims, sends, releases, consumes, the heartbeat's answer, discard, the cards, listed rows, cache
  items, and the answers to a save that this half reads first. Helpers of the source whose transition
  always has an entry return it as it is, in a pair with the effects: the source's null checks on them
  are dead code.
\<close>

section \<open>Small helpers\<close>

definition plain :: "draft_entry \<Rightarrow> send_effect list \<Rightarrow> send_transition" where
  "plain e fx = \<lparr>tn_entry = Some e, tn_effects = fx, tn_fork = None, tn_fence = None\<rparr>"

definition no_change :: "draft_entry \<Rightarrow> send_transition" where
  "no_change e = plain e []"

definition drafted :: "entry_transition \<Rightarrow> send_transition" where
  "drafted t = \<lparr>tn_entry = fst t, tn_effects = map SfDraft (snd t), tn_fork = None, tn_fence = None\<rparr>"

definition notice :: "draft_key \<Rightarrow> send_notice \<Rightarrow> send_effect" where
  "notice k n = SfNotice k n None"

definition not_sent_for :: "draft_key \<Rightarrow> string option \<Rightarrow> send_effect" where
  "not_sent_for k reason = SfNotice k NoticeNotSent reason"

definition prepend :: "send_effect list \<Rightarrow> send_transition \<Rightarrow> send_transition" where
  "prepend fx t = t\<lparr>tn_effects := fx @ tn_effects t\<rparr>"

definition acked :: "draft_entry \<Rightarrow> int \<Rightarrow> draft_entry" where
  "acked e seq = e\<lparr>en_ack_seq := max (en_ack_seq e) seq\<rparr>"

definition forget :: "draft_entry \<Rightarrow> string \<Rightarrow> draft_entry" where
  "forget e token = (if token \<in> set (en_abandoned e) then e\<lparr>en_abandoned := filter (\<lambda>t. t \<noteq> token) (en_abandoned e)\<rparr> else e)"

text \<open>\<open>sending.token === null ? entry : forget(entry, sending.token)\<close>\<close>

definition forget_send :: "draft_entry \<Rightarrow> draft_sending \<Rightarrow> draft_entry" where
  "forget_send e s = (case sg_token s of None \<Rightarrow> e | Some t \<Rightarrow> forget e t)"

definition with_epoch :: "draft_entry \<Rightarrow> draft_entry \<Rightarrow> draft_entry" where
  "with_epoch earlier after =
     (if content_equals (shown_content earlier) (shown_content after) then after
      else after\<lparr>en_epoch := en_epoch earlier + 1\<rparr>)"

definition append_content :: "draft_content \<Rightarrow> draft_content option \<Rightarrow> draft_content" where
  "append_content head' tail' =
     (case tail' of
        None \<Rightarrow> head'
      | Some tl' \<Rightarrow>
          if is_empty_content tl' then head'
          else (let sep = (if dc_text head' = [] \<or> dc_text tl' = [] then [] else [0xA, 0xA]);
                    offset = int (length (dc_text head') + length sep)
                in \<lparr>dc_text = dc_text head' @ sep @ dc_text tl',
                    dc_mentions = dc_mentions head' @
                      map (\<lambda>m. m\<lparr>dm_start := dm_start m + offset, dm_end := dm_end m + offset\<rparr>) (dc_mentions tl'),
                    dc_artifacts = dc_artifacts head' @ filter (\<lambda>a. a \<notin> set (dc_artifacts head')) (dc_artifacts tl'),
                    dc_cell = coalesce (dc_cell head') (dc_cell tl')\<rparr>))"

text \<open>\<open>trimStart\<close> and \<open>trim\<close>\<close>

definition trim_start :: "utf16 \<Rightarrow> utf16" where
  "trim_start s = dropWhile space_unit s"

definition js_trim :: "utf16 \<Rightarrow> utf16" where
  "js_trim s = rev (dropWhile space_unit (rev (trim_start s)))"

definition trim_for_send :: "utf16 \<Rightarrow> draft_mention list \<Rightarrow> editor_content" where
  "trim_for_send s ms =
     (let lead = int (length s) - int (length (trim_start s)); trimmed = js_trim s
      in \<lparr>ec_text = trimmed,
          ec_mentions = filter (\<lambda>m. 0 \<le> dm_start m \<and> dm_end m \<le> int (length trimmed))
            (map (\<lambda>m. m\<lparr>dm_start := dm_start m - lead, dm_end := dm_end m - lead\<rparr>) ms)\<rparr>)"

definition revision_of :: "draft_entry \<Rightarrow> int" where
  "revision_of e = (case en_server e of None \<Rightarrow> 0 | Some r \<Rightarrow> sd_revision r)"

text \<open>\<open>rowOf\<close>; its last argument is the record update at the call.\<close>

definition row_of :: "draft_entry \<Rightarrow> 'a entry_context_scheme \<Rightarrow> server_draft" where
  "row_of e cx =
     (let prev = en_server e
      in \<lparr>sd_org = ds_org (en_key e), sd_project = ds_project (en_key e), sd_conversation = dk_conversation (en_key e),
          sd_revision = revision_of e, sd_state = (case prev of None \<Rightarrow> RowActive | Some r \<Rightarrow> sd_state r),
          sd_content = (case prev of None \<Rightarrow> empty_content | Some r \<Rightarrow> sd_content r),
          sd_claim = Option.bind prev sd_claim, sd_failed_send = Option.bind prev sd_failed_send,
          sd_last_sent = Option.bind prev sd_last_sent,
          sd_thread_seen = (case prev of None \<Rightarrow> False | Some r \<Rightarrow> sd_thread_seen r),
          sd_title = Option.bind prev sd_title, sd_last_writer = Option.bind prev sd_last_writer,
          sd_discarded_at = Option.bind prev sd_discarded_at, sd_updated_at = cx_now cx\<rparr>)"

definition drafting_context :: "send_context \<Rightarrow> entry_context" where
  "drafting_context cx = entry_context.truncate cx"

text \<open>
  \<open>reduceDraftingEvent\<close>. The identity test of the source only spares an allocation: an entry equal to
  \<open>open\<close> with the card put back is the entry itself.
\<close>

definition open_card :: "draft_entry \<Rightarrow> draft_conflict option" where
  "open_card e = (case en_conflict e of None \<Rightarrow> None
     | Some c \<Rightarrow> if cf_kind c \<noteq> CkUncertain \<or> cf_row c \<noteq> None then None else Some c)"

definition reduce_drafting_event :: "draft_entry \<Rightarrow> entry_event \<Rightarrow> entry_context \<Rightarrow> entry_transition" where
  "reduce_drafting_event e ev cx =
     (case open_card e of
        None \<Rightarrow> reduce_draft_entry e ev cx
      | Some bar \<Rightarrow>
          (case reduce_draft_entry (e\<lparr>en_conflict := None\<rparr>) ev cx of
             (None, fx) \<Rightarrow> (None, fx)
           | (Some e', fx) \<Rightarrow>
               if en_conflict e' \<noteq> None then (Some e', fx) else (Some (e'\<lparr>en_conflict := Some bar\<rparr>), fx)))"

definition save_now :: "draft_entry \<Rightarrow> send_context \<Rightarrow> send_transition" where
  "save_now e cx = drafted (reduce_drafting_event e (EvSaveTrigger TrBeforeSubmit) (drafting_context cx))"

definition save_if_dirty :: "send_transition \<Rightarrow> send_context \<Rightarrow> send_transition" where
  "save_if_dirty t cx =
     (case tn_entry t of
        None \<Rightarrow> t
      | Some e \<Rightarrow> if en_local e = None then t
          else prepend (tn_effects t) ((save_now e cx)\<lparr>tn_fork := tn_fork t, tn_fence := tn_fence t\<rparr>))"

definition local_or_empty :: "draft_entry \<Rightarrow> draft_content" where
  "local_or_empty e = (case en_local e of None \<Rightarrow> empty_content | Some l \<Rightarrow> l)"

definition as_saving :: "draft_entry \<Rightarrow> draft_entry" where
  "as_saving e = e\<lparr>en_inflight := Some \<lparr>if_op = OpSave, if_base = revision_of e, if_content = local_or_empty e,
     if_failed_send = None\<rparr>\<rparr>"

definition read_as_save :: "draft_entry \<Rightarrow> int \<Rightarrow> save_result \<Rightarrow> send_context \<Rightarrow> send_transition" where
  "read_as_save e seq r cx = drafted (reduce_drafting_event (as_saving e) (EvSaveResult seq r) (drafting_context cx))"

definition stored_thread :: "thread_status \<Rightarrow> bool" where
  "stored_thread t \<longleftrightarrow> t = ThreadListed \<or> t = ThreadUnlisted"

definition reload :: "draft_entry \<Rightarrow> send_context \<Rightarrow> draft_entry \<times> send_effect list" where
  "reload e cx =
     (if cx_active cx \<and> cx_mounted cx
      then (e\<lparr>en_transcript := TranscriptLoading\<rparr>, [SfDraft (EfLoadTranscript (en_key e))])
      else (e\<lparr>en_transcript := TranscriptUnloaded\<rparr>, []))"

definition with_thread :: "draft_entry \<Rightarrow> thread_status \<Rightarrow> send_context \<Rightarrow> draft_entry \<times> send_effect list" where
  "with_thread e t cx =
     (if t = en_thread e then (e, [])
      else (let was_empty = (en_thread e = ThreadNone \<or> en_thread e = ThreadDeleted); next = e\<lparr>en_thread := t\<rparr>
            in if was_empty \<and> stored_thread t then reload next cx else (next, [])))"

definition delay_for :: "nat \<Rightarrow> int" where
  "delay_for retry = (if retry = 0 then 0 else retry_delay_ms retry)"

definition release_effect ::
  "draft_key \<Rightarrow> string \<Rightarrow> string \<Rightarrow> bool \<Rightarrow> string option \<Rightarrow> nat \<Rightarrow> send_effect" where
  "release_effect k token error uncertain fresh retry =
     SfRelease k token error uncertain fresh retry (delay_for retry)"

definition consume_effect :: "draft_key \<Rightarrow> string \<Rightarrow> nat \<Rightarrow> send_effect" where
  "consume_effect k token retry = SfConsume k token retry (delay_for retry)"

definition sent_proven :: "server_draft \<Rightarrow> draft_thread \<Rightarrow> string \<Rightarrow> bool" where
  "sent_proven row th turn \<longleftrightarrow>
     map_option ls_turn (sd_last_sent row) = Some turn \<or> dt_first_turn th = Some turn \<or> dt_has_turn th"

definition row_artifacts :: "draft_entry \<Rightarrow> string list" where
  "row_artifacts e = (case en_server e of None \<Rightarrow> [] | Some r \<Rightarrow> dc_artifacts (sd_content r))"

definition sending_words :: "draft_entry \<Rightarrow> draft_sending \<Rightarrow> draft_content" where
  "sending_words e s =
     append_content \<lparr>dc_text = sg_text s, dc_mentions = sg_mentions s,
       dc_artifacts = (if sg_token s = None then [] else row_artifacts e), dc_cell = None\<rparr> (en_local e)"

definition fork_words :: "draft_entry \<Rightarrow> draft_content \<Rightarrow> int option \<Rightarrow> send_notice \<Rightarrow> send_transition" where
  "fork_words e c discard n =
     \<lparr>tn_entry = Some (e\<lparr>en_claiming := None, en_sending := None, en_local := Some c, en_epoch := en_epoch e + 1\<rparr>),
      tn_effects = [], tn_fork = Some \<lparr>fk_content = c, fk_discard = discard, fk_notice = n\<rparr>, tn_fence = None\<rparr>"

text \<open>\<open>Date.parse\<close> of what \<open>Date.prototype.toISOString\<close> writes, the only time the store passes.\<close>

definition digit_value :: "char \<Rightarrow> int option" where
  "digit_value c = (let n = int (of_char c) - 48 in if 0 \<le> n \<and> n \<le> 9 then Some n else None)"

fun digits_value :: "int \<Rightarrow> string \<Rightarrow> int option" where
  "digits_value acc [] = Some acc"
| "digits_value acc (c # cs) = Option.bind (digit_value c) (\<lambda>d. digits_value (10 * acc + d) cs)"

definition days_from_civil :: "int \<Rightarrow> int \<Rightarrow> int \<Rightarrow> int" where
  "days_from_civil y m d =
     (let y' = (if m \<le> 2 then y - 1 else y); era = y' div 400; yoe = y' - era * 400;
          doy = (153 * (if m > 2 then m - 3 else m + 9) + 2) div 5 + d - 1;
          doe = yoe * 365 + yoe div 4 - yoe div 100 + doy
      in era * 146097 + doe - 719468)"

definition date_parse :: "string \<Rightarrow> int option" where
  "date_parse s =
     (let part = (\<lambda>a n. digits_value 0 (take n (drop a s)))
      in if length s = 24 \<and> s ! 4 = CHR ''-'' \<and> s ! 7 = CHR ''-'' \<and> s ! 10 = CHR ''T'' \<and> s ! 13 = CHR '':'' \<and>
            s ! 16 = CHR '':'' \<and> s ! 19 = CHR ''.'' \<and> s ! 23 = CHR ''Z''
         then (case (part 0 4, part 5 2, part 8 2, part 11 2, part 14 2, part 17 2, part 20 3) of
                 (Some y, Some mo, Some d, Some h, Some mi, Some sec, Some ms) \<Rightarrow>
                   Some ((((days_from_civil y mo d * 24 + h) * 60 + mi) * 60 + sec) * 1000 + ms)
               | _ \<Rightarrow> None)
         else None)"


section \<open>D9, D10, D10x, D10y: submitting\<close>

definition claim_effect :: "draft_entry \<Rightarrow> draft_claiming \<Rightarrow> send_effect" where
  "claim_effect e c = SfClaim (en_key e) (cg_attempt c) (revision_of e) (cg_content c) (cg_turn c) (cg_token c) (cg_kind c)"

definition load_first :: "draft_entry \<Rightarrow> send_context \<Rightarrow> draft_entry \<times> send_effect list" where
  "load_first e cx = (case reload e cx of (e', fx) \<Rightarrow> (e', fx @ [notice (en_key e) NoticeTranscriptShown]))"

definition failed_turn :: "draft_entry \<Rightarrow> draft_content \<Rightarrow> send_context \<Rightarrow> string option" where
  "failed_turn e shown cx =
     (let marker = Option.bind (en_server e) (\<lambda>r. Option.bind (sd_failed_send r) fs_turn);
          pending = Option.bind (en_pending_failed_send e) fs_turn
      in if marker \<noteq> None \<and> (case en_server e of None \<Rightarrow> False | Some r \<Rightarrow> dc_text shown = dc_text (sd_content r))
         then marker
         else if pending \<noteq> None \<and> (case cx_fence cx of None \<Rightarrow> False | Some f \<Rightarrow> dc_text shown = dc_text (fe_merged f))
         then pending else None)"

definition submit :: "draft_entry \<Rightarrow> bool \<Rightarrow> send_context \<Rightarrow> send_transition" where
  "submit e chat_ready cx =
     (if en_claiming e \<noteq> None \<or> en_sending e \<noteq> None then plain e [notice (en_key e) NoticeWaitForSend]
      else if (case en_conflict e of None \<Rightarrow> False | Some c \<Rightarrow> cf_kind c \<noteq> CkUncertain \<or> cf_row c \<noteq> None) then no_change e
      else if cx_page_org cx \<noteq> Some (ds_org (en_key e)) then no_change e
      else (let content = shown_content e; stored = stored_thread (en_thread e)
            in if js_trim (dc_text content) = [] then plain e [notice (en_key e) NoticeEmptyBox]
               else if max_user_message_chars < length (dc_text content) then no_change e
               else if stored \<and> en_transcript e \<noteq> TranscriptLoaded
               then (case load_first e cx of (e', fx) \<Rightarrow> plain e' fx)
               else if stored \<and> \<not> chat_ready then no_change e
               else (let claiming = \<lparr>cg_attempt = fr_attempt (cx_fresh cx), cg_token = fr_token (cx_fresh cx),
                           cg_turn = (case failed_turn e content cx of None \<Rightarrow> fr_turn (cx_fresh cx) | Some t \<Rightarrow> t),
                           cg_kind = (if stored then SendLater else SendFirst), cg_content = content\<rparr>;
                         next = e\<lparr>en_claiming := Some claiming, en_local := None, en_conflict := None\<rparr>
                     in if en_inflight e \<noteq> None then no_change next
                        else plain next [claim_effect next claiming])))"

definition submit_external ::
  "draft_entry \<Rightarrow> utf16 \<Rightarrow> draft_mention list \<Rightarrow> cell_target option \<Rightarrow> string \<Rightarrow> bool \<Rightarrow> send_context \<Rightarrow> send_transition" where
  "submit_external e txt ms cell origin chat_ready cx =
     (if en_claiming e \<noteq> None \<or> en_sending e \<noteq> None then plain e [notice (en_key e) NoticeWaitForSend]
      else if cx_page_org cx \<noteq> Some (ds_org (en_key e)) then no_change e
      else (let prompt = normalize_editor_content \<lparr>ec_text = txt, ec_mentions = ms\<rparr>
            in if js_trim (ec_text prompt) = [] \<or> max_user_message_chars < length (ec_text prompt) then no_change e
               else (let stored = stored_thread (en_thread e);
                         sending = \<lparr>sg_attempt = fr_attempt (cx_fresh cx), sg_token = None,
                           sg_turn = fr_turn (cx_fresh cx), sg_kind = (if stored then SendLater else SendFirst),
                           sg_text = ec_text prompt, sg_mentions = ec_mentions prompt, sg_cell = cell,
                           sg_origin = origin, sg_at = date_parse (cx_now cx),
                           sg_phase = (if stored then PhaseRouting else PhaseStarting)\<rparr>
                     in if \<not> stored
                        then (if map_option sd_state (en_server e) = Some RowSending then no_change e
                              else plain (e\<lparr>en_sending := Some sending\<rparr>)
                                [SfStart (en_key e) (sg_attempt sending) (sg_turn sending) (revision_of e) origin None
                                   (Some \<lparr>ep_text = ec_text prompt, ep_mentions = ec_mentions prompt, ep_cell = cell\<rparr>)])
                        else if en_transcript e \<noteq> TranscriptLoaded
                        then (case load_first e cx of (e', fx) \<Rightarrow> plain e' fx)
                        else if \<not> chat_ready then plain e [notice (en_key e) NoticeWaitForSend]
                        else (let sent = trim_for_send (ec_text prompt) (ec_mentions prompt)
                              in plain (e\<lparr>en_sending := Some sending\<rparr>)
                                   [SfSendMessage (en_key e) (sg_turn sending) (ec_text sent) (ec_mentions sent) cell]))))"

section \<open>D9b, D10b, D10c: the claim's answer\<close>

definition unclaim :: "draft_entry \<Rightarrow> draft_claiming \<Rightarrow> draft_entry" where
  "unclaim e c =
     (let same = (case en_server e of None \<Rightarrow> False | Some r \<Rightarrow> content_equals (cg_content c) (sd_content r))
      in e\<lparr>en_claiming := None, en_local := (if same then None else Some (cg_content c))\<rparr>)"

definition granted_send :: "draft_claiming \<Rightarrow> send_context \<Rightarrow> draft_sending" where
  "granted_send c cx =
     \<lparr>sg_attempt = cg_attempt c, sg_token = Some (cg_token c), sg_turn = cg_turn c, sg_kind = cg_kind c,
      sg_text = dc_text (cg_content c), sg_mentions = dc_mentions (cg_content c), sg_cell = dc_cell (cg_content c),
      sg_origin = ''composer'', sg_at = date_parse (cx_now cx),
      sg_phase = (if cg_kind c = SendLater then PhaseRouting else PhaseStarting)\<rparr>"

definition granted :: "draft_entry \<Rightarrow> draft_claiming \<Rightarrow> int \<Rightarrow> send_context \<Rightarrow> send_transition" where
  "granted e c revision cx =
     (let content = cg_content c;
          server = (row_of e cx)\<lparr>sd_revision := revision, sd_state := RowSending, sd_content := content,
            sd_claim := Some \<lparr>cl_token = cg_token c, cl_turn = cg_turn c, cl_kind = cg_kind c, cl_at = cx_now cx\<rparr>,
            sd_failed_send := None\<rparr>;
          next = e\<lparr>en_claiming := None, en_sending := Some (granted_send c cx), en_server := Some server,
            en_pending_failed_send := None, en_epoch := en_epoch e + 1\<rparr>
      in if cg_kind c = SendLater
         then (let sent = trim_for_send (dc_text content) (dc_mentions content)
               in plain next [SfSendMessage (en_key e) (cg_turn c) (ec_text sent) (ec_mentions sent) (dc_cell content)])
         else plain next [SfStart (en_key e) (cg_attempt c) (cg_turn c) revision ''composer'' (Some (cg_token c)) None])"

definition claimed_elsewhere :: "draft_entry \<Rightarrow> server_draft \<Rightarrow> draft_thread \<Rightarrow> send_context \<Rightarrow> send_transition" where
  "claimed_elsewhere e row th cx =
     (case with_thread e (dt_status th) cx of
        (e', fx) \<Rightarrow>
          (case List.find (\<lambda>t. map_option cl_token (sd_claim row) = Some t) (en_abandoned e') of
             Some token \<Rightarrow> plain e' (fx @ [release_effect (en_key e) token ''abandoned'' False None 0])
           | None \<Rightarrow>
               (let entering = (map_option cf_kind (en_conflict e') \<noteq> Some CkClaimed);
                    next = with_epoch e (e'\<lparr>en_server := Some row, en_conflict := Some \<lparr>cf_kind = CkClaimed, cf_row = Some row\<rparr>\<rparr>)
                in plain next (if entering then fx @ [notice (en_key e) NoticeClaimedElsewhere] else fx))))"

definition loads_transcript :: "send_effect \<Rightarrow> bool" where
  "loads_transcript x = (case x of SfDraft (EfLoadTranscript _) \<Rightarrow> True | _ \<Rightarrow> False)"

definition claim_result_of :: "draft_entry \<Rightarrow> string \<Rightarrow> int \<Rightarrow> claim_result \<Rightarrow> send_context \<Rightarrow> send_transition" where
  "claim_result_of entry attempt seq r cx =
     (case en_claiming entry of
        None \<Rightarrow> no_change entry
      | Some c \<Rightarrow>
          if cg_attempt c \<noteq> attempt then no_change entry
          else (let e = acked entry seq; back = unclaim e c; not_sent = [notice (en_key entry) NoticeNotSent]
                in case r of
                     ClaimByYou revision _ \<Rightarrow> granted e c revision cx
                   | ClaimWrongKind th \<Rightarrow>
                       (case with_thread back (dt_status th) cx of
                          (e', fx) \<Rightarrow>
                            prepend (if list_ex loads_transcript fx
                                     then not_sent @ [notice (en_key entry) NoticeTranscriptShown] else not_sent) (plain e' fx))
                   | ClaimEmpty \<Rightarrow> plain back (not_sent @ [notice (en_key entry) NoticeEmptyBox])
                   | ClaimTaken row th \<Rightarrow> prepend not_sent (claimed_elsewhere back row th cx)
                   | ClaimGone th \<Rightarrow>
                       fork_words (back\<lparr>en_thread := dt_status th\<rparr>) (cg_content c) None NoticeKeptInNewDeleted
                   | ClaimConflict row th \<Rightarrow> prepend not_sent (read_as_save back seq (SaveConflict row th) cx)
                   | ClaimDiscarded row th \<Rightarrow> prepend not_sent (read_as_save back seq (SaveDiscarded row th) cx)
                   | ClaimLimit \<Rightarrow> prepend not_sent (read_as_save back seq SaveLimit cx)
                   | ClaimRefused g \<Rightarrow> prepend not_sent (read_as_save back seq (SaveRefused g) cx)))"

definition claim_failed :: "draft_entry \<Rightarrow> string \<Rightarrow> int \<Rightarrow> write_failure \<Rightarrow> send_context \<Rightarrow> send_transition" where
  "claim_failed entry attempt seq failure cx =
     (case en_claiming entry of
        None \<Rightarrow> no_change entry
      | Some c \<Rightarrow>
          if cg_attempt c \<noteq> attempt then no_change entry
          else (let back = unclaim entry c;
                    unreachable = (case failure of FailTimeout \<Rightarrow> True | FailRejected network \<Rightarrow> network);
                    not_sent = notice (en_key entry) (if unreachable then NoticeNotSentUnreachable else NoticeNotSent)
                in case failure of
                     FailTimeout \<Rightarrow>
                       plain (back\<lparr>en_abandoned := en_abandoned back @ [cg_token c]\<rparr>)
                         [not_sent, release_effect (en_key entry) (cg_token c) ''unreachable'' False None 0]
                   | FailRejected network \<Rightarrow>
                       prepend [not_sent]
                         (drafted (reduce_drafting_event (as_saving back) (EvWriteRejected seq network) (drafting_context cx)))))"


section \<open>A claim's later answers\<close>

text \<open>\<open>null\<close> for \<open>row\<close> is the row the source makes up from the last one it saw.\<close>

definition sent_mark :: "draft_sending \<Rightarrow> send_kind \<Rightarrow> send_context \<Rightarrow> last_sent" where
  "sent_mark s k cx = \<lparr>ls_turn = sg_turn s, ls_kind = k, ls_at = cx_now cx\<rparr>"

definition consumed_arm ::
  "draft_entry \<Rightarrow> draft_sending \<Rightarrow> server_draft option \<Rightarrow> int \<Rightarrow> send_context \<Rightarrow> send_transition" where
  "consumed_arm e s row revision cx =
     (let server = (case row of Some r \<Rightarrow> r
        | None \<Rightarrow> (row_of e cx)\<lparr>sd_revision := revision, sd_state := RowActive, sd_content := empty_content,
            sd_claim := None, sd_failed_send := None, sd_last_sent := Some (sent_mark s (sg_kind s) cx)\<rparr>);
          next = with_epoch e ((forget_send e s)\<lparr>en_sending := None, en_server := Some server\<rparr>)
      in save_if_dirty (no_change next) cx)"

definition committed_first :: "draft_entry \<Rightarrow> draft_sending \<Rightarrow> server_draft option \<Rightarrow> send_context \<Rightarrow> send_transition" where
  "committed_first e s row cx =
     (let server = (case row of Some r \<Rightarrow> r
        | None \<Rightarrow> (row_of e cx)\<lparr>sd_state := RowActive, sd_content := empty_content, sd_claim := None,
            sd_last_sent := Some (sent_mark s SendFirst cx)\<rparr>);
          next = with_epoch e ((forget_send e s)\<lparr>en_sending := None, en_server := Some server, en_thread := ThreadListed\<rparr>)
      in case reload next cx of
           (e', fx) \<Rightarrow> save_if_dirty (plain e' (fx @ [notice (en_key e)
             (if en_local e = None then NoticeFirstSent else NoticeFirstSentMoreInBox)])) cx)"

definition uncertain_card :: draft_conflict where
  "uncertain_card = \<lparr>cf_kind = CkUncertain, cf_row = None\<rparr>"

definition released_back :: "draft_entry \<Rightarrow> draft_sending \<Rightarrow> server_draft \<Rightarrow> send_context \<Rightarrow> send_transition" where
  "released_back e s row cx =
     (let base = forget_send e s
      in if sg_kind s = SendLater \<and> en_thread e = ThreadDeleted
         then fork_words base (sending_words base s) (Some (sd_revision row)) NoticeKeptInNewDeleted
         else (let held = (dc_text (sd_content row) = sg_text s);
                   claimed = \<lparr>dc_text = sg_text s, dc_mentions = sg_mentions s,
                     dc_artifacts = dc_artifacts (sd_content row), dc_cell = sg_cell s\<rparr>;
                   merged = (if held
                             then (case en_local e of None \<Rightarrow> None | Some l \<Rightarrow> Some (append_content (sd_content row) (Some l)))
                             else Some (append_content claimed (en_local e)));
                   uncertain = (case sd_failed_send row of None \<Rightarrow> False | Some f \<Rightarrow> fs_uncertain f);
                   next = base\<lparr>en_sending := None, en_server := Some row, en_local := merged, en_epoch := en_epoch e + 1,
                     en_conflict := (if uncertain then Some uncertain_card else en_conflict e)\<rparr>;
                   t = save_if_dirty (no_change next) cx
               in if uncertain then t
                  else prepend [not_sent_for (en_key e) (map_option fs_error (sd_failed_send row))] t))"

definition hand_over :: "draft_entry \<Rightarrow> draft_sending \<Rightarrow> server_draft \<Rightarrow> draft_entry" where
  "hand_over e s row =
     (let freed = forget_send e s
      in freed\<lparr>en_sending := None,
           en_local := (if dc_text (sd_content row) = sg_text s then en_local freed else Some (sending_words freed s))\<rparr>)"

definition read_not_claimed ::
  "draft_entry \<Rightarrow> draft_sending \<Rightarrow> server_draft \<Rightarrow> draft_thread \<Rightarrow> send_context \<Rightarrow> send_transition" where
  "read_not_claimed e s row th cx =
     (case with_thread e (dt_status th) cx of
        (e', fx) \<Rightarrow>
          if sent_proven row th (sg_turn s)
          then prepend fx (if sg_kind s = SendFirst then committed_first e' s (Some row) cx
                           else consumed_arm e' s (Some row) (sd_revision row) cx)
          else if sd_state row = RowSending
          then prepend fx (claimed_elsewhere (hand_over e' s row) row th cx)
          else prepend fx (released_back e' s row cx))"

definition release_now :: "draft_entry \<Rightarrow> draft_sending \<Rightarrow> string \<Rightarrow> bool \<Rightarrow> string option \<Rightarrow> send_transition" where
  "release_now e s error uncertain fresh =
     (case sg_token s of
        None \<Rightarrow> no_change e
      | Some token \<Rightarrow> plain (e\<lparr>en_sending := Some (s\<lparr>sg_phase := PhaseReleasing\<rparr>)\<rparr>)
          [release_effect (en_key e) token error uncertain fresh 0])"

section \<open>D10f: an external send failed\<close>

text \<open>What the box held, and what it holds with the prompt in front.\<close>

definition box_before :: "draft_entry \<Rightarrow> draft_content" where
  "box_before e = (case en_local e of Some l \<Rightarrow> l
     | None \<Rightarrow> (case en_server e of None \<Rightarrow> empty_content | Some r \<Rightarrow> sd_content r))"

definition box_merged :: "draft_entry \<Rightarrow> draft_sending \<Rightarrow> draft_content" where
  "box_merged e s =
     (append_content \<lparr>dc_text = sg_text s, dc_mentions = sg_mentions s, dc_artifacts = [], dc_cell = sg_cell s\<rparr>
        (Some (box_before e)))\<lparr>dc_cell := sg_cell s\<rparr>"

definition fenced_entry :: "draft_entry \<Rightarrow> draft_sending \<Rightarrow> string \<Rightarrow> bool \<Rightarrow> draft_entry" where
  "fenced_entry e s error uncertain =
     e\<lparr>en_sending := None, en_local := Some (box_merged e s),
       en_pending_failed_send := Some \<lparr>fs_turn = Some (sg_turn s), fs_kind = sg_kind s, fs_error = error,
         fs_uncertain = uncertain\<rparr>,
       en_epoch := en_epoch e + 1, en_conflict := (if uncertain then Some uncertain_card else en_conflict e)\<rparr>"

definition fail_external :: "draft_entry \<Rightarrow> draft_sending \<Rightarrow> string \<Rightarrow> bool \<Rightarrow> send_context \<Rightarrow> send_transition" where
  "fail_external e s error uncertain cx =
     (let t = save_now (fenced_entry e s error uncertain) cx
      in \<lparr>tn_entry = tn_entry t,
          tn_effects = (if uncertain then tn_effects t else not_sent_for (en_key e) (Some error) # tn_effects t),
          tn_fork = None,
          tn_fence = Some (Some \<lparr>fe_turn = sg_turn s, fe_before = box_before e, fe_merged = box_merged e s\<rparr>)\<rparr>)"

section \<open>D12, D13, D18, D11: the start's answer\<close>

definition started_row :: "draft_entry \<Rightarrow> draft_sending \<Rightarrow> int \<Rightarrow> send_context \<Rightarrow> server_draft" where
  "started_row e s revision cx =
     (if sg_token s = None
      then (row_of e cx)\<lparr>sd_revision := revision, sd_failed_send := None, sd_thread_seen := True\<rparr>
      else (row_of e cx)\<lparr>sd_revision := revision, sd_state := RowActive, sd_content := empty_content, sd_claim := None,
        sd_failed_send := None, sd_thread_seen := True, sd_last_sent := Some (sent_mark s SendFirst cx)\<rparr>)"

definition start_done ::
  "draft_entry \<Rightarrow> draft_sending \<Rightarrow> int \<Rightarrow> int option \<Rightarrow> send_context \<Rightarrow> send_transition" where
  "start_done e s revision thread_revision cx =
     (let artifacts = (if sg_token s = None then [] else row_artifacts e);
          next = with_epoch e ((forget_send e s)\<lparr>en_sending := None, en_server := Some (started_row e s revision cx),
            en_thread := ThreadListed\<rparr>);
          step = (case thread_revision of
             None \<Rightarrow> reload next cx
           | Some tr \<Rightarrow> (next\<lparr>en_transcript := TranscriptLoaded\<rparr>,
               SfThreadRevision (en_key e) tr #
               (if cx_active cx \<and> cx_mounted cx
                then (let sent = trim_for_send (sg_text s) (sg_mentions s)
                      in [SfSendMessage (en_key e) (sg_turn s) (ec_text sent) (ec_mentions sent) None])
                else [])))
      in save_if_dirty (plain (fst step)
           (snd step @ (if artifacts = [] then [] else [SfPlaceArtifacts (en_key e) artifacts]))) cx)"

definition start_result_of :: "draft_entry \<Rightarrow> string \<Rightarrow> int \<Rightarrow> start_result \<Rightarrow> send_context \<Rightarrow> send_transition" where
  "start_result_of entry attempt seq r cx =
     (case en_sending entry of
        None \<Rightarrow> no_change entry
      | Some s \<Rightarrow>
          if sg_attempt s \<noteq> attempt \<or> sg_phase s \<noteq> PhaseStarting then no_change entry
          else (let e = acked entry seq; external = (sg_token s = None)
                in case r of
                     StartCreated revision tr \<Rightarrow> start_done e s revision (Some tr) cx
                   | StartStored revision \<Rightarrow> start_done e s revision None cx
                   | StartDeleted revision \<Rightarrow>
                       fork_words (e\<lparr>en_thread := ThreadDeleted\<rparr>) (sending_words e s)
                         (if external then None else Some revision) NoticeKeptInNewDeleted
                   | StartConflict revision \<Rightarrow>
                       fork_words e (sending_words e s) (if external then None else Some revision) NoticeKeptInNewStarted
                   | StartNotClaimed row th \<Rightarrow>
                       if external then fail_external e s ''not-claimed'' False cx else read_not_claimed e s row th cx
                   | StartTaken row th \<Rightarrow>
                       if external then fail_external e s ''claimed'' False cx
                       else claimed_elsewhere (hand_over e s row) row th cx
                   | _ \<Rightarrow>
                       if external then fail_external e s (start_outcome r) False cx
                       else release_now e s (start_outcome r) False None))"

definition start_failed :: "draft_entry \<Rightarrow> string \<Rightarrow> int \<Rightarrow> write_failure \<Rightarrow> send_context \<Rightarrow> send_transition" where
  "start_failed entry attempt seq failure cx =
     (case en_sending entry of
        None \<Rightarrow> no_change entry
      | Some s \<Rightarrow>
          if sg_attempt s \<noteq> attempt \<or> sg_phase s \<noteq> PhaseStarting then no_change entry
          else (let error = (case failure of FailTimeout \<Rightarrow> ''timeout''
                      | FailRejected network \<Rightarrow> if network then ''network'' else ''error'')
                in if sg_token s = None then fail_external entry s error False cx
                   else release_now entry s error False None))"


section \<open>D9c, D9d, D20: the chat route\<close>

definition certain_statuses :: "nat list" where
  "certain_statuses = [400, 401, 402, 413, 503]"

fun classify_route_failure :: "route_failure \<Rightarrow> failure_arm" where
  "classify_route_failure (RouteStatus status (Some r)) =
     (if \<not> tr_committed r then ArmCertain else if tr_text_committed r then ArmCommitted else ArmDifferentText)"
| "classify_route_failure (RouteStatus status None) =
     (if status \<in> set certain_statuses then ArmCertain else ArmUncertain)"
| "classify_route_failure _ = ArmUncertain"

fun failure_code :: "route_failure \<Rightarrow> string" where
  "failure_code (RouteStatus status (Some r)) = refusal_code_text (tr_refusal r)"
| "failure_code (RouteStatus status None) = ''status-'' @ nat_str status"
| "failure_code RouteNetwork = ''network''"
| "failure_code RouteStop = ''stop''"
| "failure_code RouteDeadline = ''deadline''"

text \<open>\<open>failure.kind === "status" ? (failure.refusal?.refusal ?? null) : null\<close>\<close>

fun refusal_of :: "route_failure \<Rightarrow> turn_refusal_code option" where
  "refusal_of (RouteStatus _ r) = map_option tr_refusal r"
| "refusal_of _ = None"

definition committed_turn :: "draft_entry \<Rightarrow> route_failure \<Rightarrow> send_context \<Rightarrow> draft_entry \<times> send_effect list" where
  "committed_turn e f cx =
     (case reload e cx of
        (e', fx) \<Rightarrow> (e', if refusal_of f = Some TurnInProgress
          then fx @ [SfPollThread (en_key e), notice (en_key e) NoticeBeingAnswered] else fx))"

definition refusal_extras :: "draft_entry \<Rightarrow> route_failure \<Rightarrow> send_context \<Rightarrow> draft_entry \<times> send_effect list" where
  "refusal_extras e f cx =
     (if refusal_of f = Some TranscriptStale then load_first e cx
      else if refusal_of f = Some ThreadBusy
      then (case reload e cx of (e', fx) \<Rightarrow> (e', notice (en_key e) NoticeThreadBusy # fx))
      else if refusal_of f = Some ClientOutdated then (e, [notice (en_key e) NoticeReloadToContinue])
      else if refusal_of f = Some ThreadWasDeleted then (e\<lparr>en_thread := ThreadDeleted\<rparr>, [])
      else (e, []))"

definition route_failed_external :: "draft_entry \<Rightarrow> draft_sending \<Rightarrow> route_failure \<Rightarrow> send_context \<Rightarrow> send_transition" where
  "route_failed_external e s f cx =
     (let removed = SfRemoveOptimistic (en_key e) (sg_turn s); arm = classify_route_failure f; error = failure_code f
      in if arm = ArmCommitted
         then (case committed_turn (e\<lparr>en_sending := None\<rparr>) f cx of (e', fx) \<Rightarrow> plain e' (removed # fx))
         else if error = ''thread-deleted''
         then prepend [removed] (fork_words (e\<lparr>en_thread := ThreadDeleted\<rparr>) (sending_words e s) None NoticeKeptInNewDeleted)
         else (case (if arm = ArmCertain then refusal_extras e f cx else (e, [])) of
                 (e', fx) \<Rightarrow> prepend (removed # fx) (fail_external e' s error (arm \<noteq> ArmCertain) cx)))"

definition route_failed_claimed ::
  "draft_entry \<Rightarrow> draft_sending \<Rightarrow> string \<Rightarrow> route_failure \<Rightarrow> send_context \<Rightarrow> send_transition" where
  "route_failed_claimed e s token f cx =
     (let removed = SfRemoveOptimistic (en_key e) (sg_turn s); error = failure_code f
      in case classify_route_failure f of
           ArmCertain \<Rightarrow>
             (case refusal_extras e f cx of (e', fx) \<Rightarrow> prepend (removed # fx) (release_now e' s error False None))
         | ArmUncertain \<Rightarrow> prepend [removed] (release_now e s error True None)
         | ArmCommitted \<Rightarrow>
             (case committed_turn (e\<lparr>en_sending := Some (s\<lparr>sg_phase := PhaseConsuming\<rparr>)\<rparr>) f cx of
                (e', fx) \<Rightarrow> plain e' (removed # consume_effect (en_key e) token 0 # fx))
         | ArmDifferentText \<Rightarrow>
             (let t = release_now e s error False (Some (fr_turn (cx_fresh cx)))
              in case tn_entry t of
                   None \<Rightarrow> t
                 | Some e1 \<Rightarrow>
                     (case reload e1 cx of
                        (e', fx) \<Rightarrow> plain e' (removed # tn_effects t @ fx @ [notice (en_key e) NoticeEarlierVersionSent]))))"

definition route_failed :: "draft_entry \<Rightarrow> string \<Rightarrow> route_failure \<Rightarrow> send_context \<Rightarrow> send_transition" where
  "route_failed e turn f cx =
     (case en_sending e of
        None \<Rightarrow> no_change e
      | Some s \<Rightarrow>
          if sg_turn s \<noteq> turn \<or> sg_phase s \<noteq> PhaseRouting then no_change e
          else (case sg_token s of
                  None \<Rightarrow> route_failed_external e s f cx
                | Some token \<Rightarrow> route_failed_claimed e s token f cx))"

definition route_handoff :: "draft_entry \<Rightarrow> string \<Rightarrow> send_transition" where
  "route_handoff e turn =
     (case en_sending e of
        None \<Rightarrow> no_change e
      | Some s \<Rightarrow>
          if sg_turn s \<noteq> turn \<or> sg_phase s \<noteq> PhaseRouting then no_change e
          else (case sg_token s of
                  None \<Rightarrow> no_change (e\<lparr>en_sending := None\<rparr>)
                | Some token \<Rightarrow> plain (e\<lparr>en_sending := Some (s\<lparr>sg_phase := PhaseConsuming\<rparr>)\<rparr>)
                    [consume_effect (en_key e) token 0]))"

definition consume_result_of ::
  "draft_entry \<Rightarrow> string \<Rightarrow> int \<Rightarrow> nat \<Rightarrow> consume_result \<Rightarrow> send_context \<Rightarrow> send_transition" where
  "consume_result_of entry token seq retry r cx =
     (case en_sending entry of
        None \<Rightarrow> no_change entry
      | Some s \<Rightarrow>
          if sg_token s \<noteq> Some token \<or> sg_phase s \<noteq> PhaseConsuming then no_change entry
          else (let e = acked entry seq
                in case r of
                     ConsumeDone revision \<Rightarrow> consumed_arm e s None revision cx
                   | ConsumeNotClaimed row th \<Rightarrow>
                       (case with_thread e (dt_status th) cx of
                          (e', fx) \<Rightarrow>
                            if sent_proven row th (sg_turn s)
                            then prepend fx (consumed_arm e' s (Some row) (sd_revision row) cx)
                            else plain (with_epoch e ((forget e' token)\<lparr>en_sending := None, en_server := Some row,
                              en_conflict := Some \<lparr>cf_kind = CkUncertain, cf_row = Some row\<rparr>\<rparr>)) fx)
                   | ConsumeGone th \<Rightarrow>
                       (let done = (forget e token)\<lparr>en_sending := None, en_thread := dt_status th\<rparr>
                        in case en_local done of
                             Some l \<Rightarrow> fork_words done l None NoticeKeptInNewDeleted
                           | None \<Rightarrow>
                               \<lparr>tn_entry = (if \<not> cx_active cx then None
                                  else Some (done\<lparr>en_server := None, en_epoch := en_epoch done + 1\<rparr>)),
                                tn_effects = (if dt_status th = ThreadDeleted
                                  then [SfDraft (EfNotice (en_key entry) NoticeDeletedUnsentRemoved)] else []),
                                tn_fork = None, tn_fence = None\<rparr>)
                   | ConsumeRefused _ \<Rightarrow> plain e [consume_effect (en_key entry) token (retry + 1)]))"

definition consume_failed :: "draft_entry \<Rightarrow> string \<Rightarrow> nat \<Rightarrow> send_transition" where
  "consume_failed e token retry =
     (case en_sending e of
        None \<Rightarrow> no_change e
      | Some s \<Rightarrow>
          if sg_token s \<noteq> Some token \<or> sg_phase s \<noteq> PhaseConsuming then no_change e
          else plain e [consume_effect (en_key e) token (retry + 1)])"

section \<open>The release's answer, the heartbeat's answer\<close>

definition abandoned_released :: "draft_entry \<Rightarrow> string \<Rightarrow> release_result \<Rightarrow> send_context \<Rightarrow> send_transition" where
  "abandoned_released e token r cx =
     (case r of
        ReleaseDone row \<Rightarrow>
          (let freed = forget e token
           in if en_claiming freed \<noteq> None \<or> en_sending freed \<noteq> None then no_change freed
              else (let local = (case en_local freed of None \<Rightarrow> None
                           | Some l \<Rightarrow> if content_equals l (sd_content row) then None else Some l)
                    in save_if_dirty (no_change (with_epoch freed (freed\<lparr>en_server := Some row, en_local := local\<rparr>))) cx))
      | ReleaseRefused _ \<Rightarrow> plain e [release_effect (en_key e) token ''abandoned'' False None 1]
      | _ \<Rightarrow> no_change (forget e token))"

definition release_retry :: "draft_entry \<Rightarrow> draft_sending \<Rightarrow> nat \<Rightarrow> send_transition" where
  "release_retry e s retry =
     (case sg_token s of
        None \<Rightarrow> no_change e
      | Some token \<Rightarrow>
          plain (e\<lparr>en_abandoned := (if token \<in> set (en_abandoned e) then en_abandoned e else en_abandoned e @ [token])\<rparr>)
            [release_effect (en_key e) token ''retry'' False None (retry + 1)])"

text \<open>The send in \<open>releasing\<close> under this token, if that is what the entry holds.\<close>

definition releasing_send :: "draft_entry \<Rightarrow> string \<Rightarrow> draft_sending option" where
  "releasing_send e token =
     (case en_sending e of
        None \<Rightarrow> None
      | Some s \<Rightarrow> if sg_token s = Some token \<and> sg_phase s = PhaseReleasing then Some s else None)"

text \<open>The retry of an abandoned claim's release keeps its backoff.\<close>

fun renumber_release :: "draft_key \<Rightarrow> string \<Rightarrow> nat \<Rightarrow> send_effect \<Rightarrow> send_effect" where
  "renumber_release k token retry (SfRelease k' t error uncertain fresh r d) =
     (if t = token then release_effect k token error uncertain fresh (retry + 1) else SfRelease k' t error uncertain fresh r d)"
| "renumber_release k token retry x = x"

definition release_result_of ::
  "draft_entry \<Rightarrow> string \<Rightarrow> int \<Rightarrow> nat \<Rightarrow> release_result \<Rightarrow> send_context \<Rightarrow> send_transition" where
  "release_result_of entry token seq retry r cx =
     (case releasing_send entry token of
        Some s \<Rightarrow>
               (let e = acked entry seq
                in case r of
                     ReleaseDone row \<Rightarrow> released_back e s row cx
                   | ReleaseConsumed revision \<Rightarrow>
                       if sg_kind s = SendFirst then committed_first e s None cx else consumed_arm e s None revision cx
                   | ReleaseNotClaimed row th \<Rightarrow> read_not_claimed e s row th cx
                   | ReleaseGone th \<Rightarrow>
                       fork_words ((forget e token)\<lparr>en_thread := dt_status th\<rparr>) (sending_words e s) None NoticeKeptInNewDeleted
                   | ReleaseRefused _ \<Rightarrow> release_retry e s retry)
      | None \<Rightarrow>
          if token \<notin> set (en_abandoned entry) then no_change entry
          else (let t = abandoned_released (acked entry seq) token r cx
                in t\<lparr>tn_effects := map (renumber_release (en_key entry) token retry) (tn_effects t)\<rparr>))"

definition release_failed :: "draft_entry \<Rightarrow> string \<Rightarrow> nat \<Rightarrow> send_transition" where
  "release_failed e token retry =
     (case releasing_send e token of
        Some s \<Rightarrow> release_retry e s retry
      | None \<Rightarrow>
          if token \<notin> set (en_abandoned e) then no_change e
          else plain e [release_effect (en_key e) token ''abandoned'' False None (retry + 1)])"

definition heartbeat_result :: "draft_entry \<Rightarrow> string \<Rightarrow> touch_result \<Rightarrow> send_context \<Rightarrow> send_transition" where
  "heartbeat_result e token r cx =
     (case en_sending e of
        None \<Rightarrow> no_change e
      | Some s \<Rightarrow>
          if sg_token s \<noteq> Some token \<or> sg_phase s \<noteq> PhaseRouting then no_change e
          else (case r of
                  TouchNotClaimed row th \<Rightarrow> read_not_claimed e s row th cx
                | TouchGone th \<Rightarrow>
                    fork_words (e\<lparr>en_thread := dt_status th\<rparr>) (sending_words e s) None NoticeKeptInNewDeleted
                | TouchDone \<Rightarrow> no_change e))"


section \<open>D21: discard\<close>

definition discard_draft :: "draft_entry \<Rightarrow> send_transition" where
  "discard_draft e =
     (if en_claiming e \<noteq> None \<or> en_sending e \<noteq> None \<or> en_inflight e \<noteq> None then no_change e
      else (case en_server e of
              None \<Rightarrow> no_change e
            | Some r \<Rightarrow> if sd_state r = RowSending then no_change e else plain e [SfDiscard (en_key e) (sd_revision r)]))"

definition discard_result_of :: "draft_entry \<Rightarrow> int \<Rightarrow> int \<Rightarrow> discard_result \<Rightarrow> send_context \<Rightarrow> send_transition" where
  "discard_result_of entry base seq r cx =
     (if map_option sd_revision (en_server entry) \<noteq> Some base then no_change entry
      else (let e = acked entry seq
            in case r of
                 DiscardDone revision \<Rightarrow>
                   plain (with_epoch e (e\<lparr>en_server := None, en_local := None, en_conflict := None, en_pending_failed_send := None\<rparr>))
                     [SfOfferUndoDiscard (en_key entry) revision (shown_content e)]
               | DiscardConflict row th \<Rightarrow>
                   if en_claiming e \<noteq> None \<or> en_sending e \<noteq> None then plain e [notice (en_key entry) NoticeDiscardConflict]
                   else plain (e\<lparr>en_local := Some (case en_local e of Some l \<Rightarrow> l
                            | None \<Rightarrow> (case en_server e of None \<Rightarrow> empty_content | Some r \<Rightarrow> sd_content r)),
                          en_conflict := Some \<lparr>cf_kind = CkEdited, cf_row = Some row\<rparr>\<rparr>)
                        [notice (en_key entry) NoticeDiscardConflict]
               | DiscardTaken row th \<Rightarrow> claimed_elsewhere e row th cx
               | DiscardGone th \<Rightarrow>
                   \<lparr>tn_entry = (if cx_active cx
                      then Some (with_epoch e (e\<lparr>en_server := None, en_local := None, en_thread := dt_status th\<rparr>)) else None),
                    tn_effects = [], tn_fork = None, tn_fence = None\<rparr>
               | DiscardRefused _ \<Rightarrow> plain e [notice (en_key entry) NoticeDiscardFailed]))"

definition undo_discard :: "draft_entry \<Rightarrow> int \<Rightarrow> draft_content \<Rightarrow> send_context \<Rightarrow> send_transition" where
  "undo_discard e revision content cx =
     (if en_server e \<noteq> None \<or> en_inflight e \<noteq> None \<or> en_claiming e \<noteq> None \<or> en_sending e \<noteq> None then no_change e
      else (let server = (row_of e cx)\<lparr>sd_revision := revision, sd_state := RowDiscarded, sd_content := content,
                  sd_discarded_at := Some (cx_now cx)\<rparr>
            in plain (with_epoch e (e\<lparr>en_server := Some server,
                 en_inflight := Some \<lparr>if_op = OpRestore, if_base = revision, if_content = content, if_failed_send = None\<rparr>\<rparr>))
                 [SfDraft (EfRestore (en_key e) revision)]))"

section \<open>D31, D9c: the cards\<close>

definition dismiss_with :: "draft_entry \<Rightarrow> draft_content option \<Rightarrow> send_transition" where
  "dismiss_with e local =
     (let server = map_option (\<lambda>r. r\<lparr>sd_failed_send := None\<rparr>) (en_server e);
          next = with_epoch e (e\<lparr>en_local := local, en_server := server, en_conflict := None\<rparr>)
      in case en_server next of
           None \<Rightarrow> no_change next
         | Some r \<Rightarrow>
             if en_inflight next \<noteq> None then no_change next
             else (let content = (case local of None \<Rightarrow> sd_content r | Some l \<Rightarrow> l)
                   in plain (next\<lparr>en_save := SvSaving, en_inflight := Some \<lparr>if_op = OpSave, if_base = sd_revision r,
                          if_content = content, if_failed_send = None\<rparr>\<rparr>)
                        [SfDismissFailedSend (en_key e) (sd_revision r) content]))"

text \<open>\<open>entry.conflict?.kind === "uncertain" ? entry.conflict.row : null\<close> is the copy that came back.\<close>

definition copy_row :: "draft_entry \<Rightarrow> server_draft option" where
  "copy_row e = conflict_row CkUncertain e"

section \<open>D22, D26, D30: listed rows and cache items\<close>

definition adopt_or_conflict :: "draft_entry \<Rightarrow> server_draft \<Rightarrow> send_context \<Rightarrow> send_transition" where
  "adopt_or_conflict e row cx =
     (let next = (case en_local e of
                    None \<Rightarrow> with_epoch e (e\<lparr>en_server := (if sd_state row = RowDiscarded then None else Some row)\<rparr>)
                  | Some _ \<Rightarrow>
                      if en_conflict e = None \<and> revision_of e < sd_revision row
                      then e\<lparr>en_conflict := Some \<lparr>cf_kind = (if sd_state row = RowDiscarded then CkDiscarded else CkEdited),
                              cf_row = Some row\<rparr>\<rparr>
                      else e);
          uncertain = (case sd_failed_send row of None \<Rightarrow> False | Some f \<Rightarrow> fs_uncertain f)
      in save_if_dirty (no_change
           (if uncertain \<and> en_conflict next = None then next\<lparr>en_conflict := Some uncertain_card\<rparr> else next)) cx)"

definition claimed_bar_ends :: "draft_entry \<Rightarrow> draft_conflict \<Rightarrow> server_draft \<Rightarrow> send_context \<Rightarrow> send_transition" where
  "claimed_bar_ends e bar row cx =
     (let former = Option.bind (cf_row bar) (\<lambda>r. map_option cl_turn (sd_claim r));
          frozen = map_option sd_content (cf_row bar); opened = e\<lparr>en_conflict := None\<rparr>
      in if former \<noteq> None \<and> map_option ls_turn (sd_last_sent row) = former
         then (if (case en_local e of None \<Rightarrow> True
                   | Some l \<Rightarrow> (case frozen of None \<Rightarrow> False | Some c \<Rightarrow> content_equals l c))
               then (case reload (with_epoch e (opened\<lparr>en_server := Some row, en_local := None\<rparr>)) cx of
                       (e', fx) \<Rightarrow> plain e' (fx @ [notice (en_key e) NoticeSentElsewhere]))
               else no_change (opened\<lparr>en_conflict := Some \<lparr>cf_kind = CkEdited, cf_row = Some row\<rparr>\<rparr>))
         else adopt_or_conflict opened row cx)"

definition listed :: "draft_entry \<Rightarrow> int \<Rightarrow> list_entry \<Rightarrow> send_context \<Rightarrow> send_transition" where
  "listed entry seq item cx =
     (if seq \<le> en_ack_seq entry then no_change entry
      else (let row = le_row item; th = le_thread item
            in case with_thread entry (dt_status th) cx of
                 (e, fx) \<Rightarrow>
                   if en_claiming e \<noteq> None then plain e fx
                   else (case en_sending e of
                           Some s \<Rightarrow>
                             if sg_token s = None \<or> sg_phase s \<noteq> PhaseRouting then plain e fx
                             else if sd_state row = RowSending \<and> map_option cl_token (sd_claim row) = sg_token s then plain e fx
                             else prepend fx (read_not_claimed e s row th cx)
                         | None \<Rightarrow>
                             if sd_state row = RowSending \<and> sd_claim row \<noteq> None
                             then prepend fx (claimed_elsewhere e row th cx)
                             else (case en_conflict e of
                                     None \<Rightarrow> prepend fx (adopt_or_conflict e row cx)
                                   | Some bar \<Rightarrow>
                                       prepend fx (if cf_kind bar = CkClaimed then claimed_bar_ends e bar row cx
                                                   else adopt_or_conflict e row cx)))))"

definition restored_entry :: "cached_draft \<Rightarrow> list_entry option \<Rightarrow> draft_entry" where
  "restored_entry c item =
     (let status = (case item of None \<Rightarrow> ThreadNone | Some i \<Rightarrow> dt_status (le_thread i))
      in (new_entry (ca_key c) status)\<lparr>en_server := map_option le_row item, en_local := ca_local c,
           en_epoch := ca_epoch c, en_abandoned := ca_abandoned c\<rparr>)"

definition restored_claim :: "draft_claiming \<Rightarrow> send_context \<Rightarrow> draft_sending" where
  "restored_claim c cx = (granted_send c cx)\<lparr>sg_phase := PhaseReleasing\<rparr>"

definition restore_from_cache :: "cached_draft \<Rightarrow> list_entry option \<Rightarrow> send_context \<Rightarrow> send_transition" where
  "restore_from_cache c item cx =
     (let base = restored_entry c item
      in case ca_claiming c of
           Some cl \<Rightarrow> plain (base\<lparr>en_sending := Some (restored_claim cl cx)\<rparr>)
             [release_effect (ca_key c) (cg_token cl) ''reload'' False None 0]
         | None \<Rightarrow>
             (case ca_sending c of
                Some s \<Rightarrow>
                  (case sg_token s of
                     None \<Rightarrow> fail_external base s ''reload'' (sg_kind s = SendLater) cx
                   | Some token \<Rightarrow> plain (base\<lparr>en_sending := Some (s\<lparr>sg_phase := PhaseReleasing\<rparr>)\<rparr>)
                       [release_effect (ca_key c) token ''reload'' (sg_kind s = SendLater \<and> sg_phase s \<noteq> PhaseStarting) None 0])
              | None \<Rightarrow>
                  (case ca_local c of
                     None \<Rightarrow> no_change base
                   | Some l \<Rightarrow>
                       (case item of
                          None \<Rightarrow> if ca_base c = 0 then save_now base cx else fork_words base l None NoticeKeptInNewDeleted
                        | Some i \<Rightarrow>
                            if ca_base c < sd_revision (le_row i)
                            then no_change (base\<lparr>en_server := None, en_conflict := Some
                              \<lparr>cf_kind = (if sd_state (le_row i) = RowDiscarded then CkDiscarded else CkEdited),
                               cf_row = Some (le_row i)\<rparr>\<rparr>)
                            else save_now base cx))))"

section \<open>The answers to a save that this half reads first\<close>

definition settled_save :: "draft_entry \<Rightarrow> int \<Rightarrow> draft_entry" where
  "settled_save e seq = (acked e seq)\<lparr>en_inflight := None, en_save := (if en_save e = SvSaving then SvIdle else en_save e)\<rparr>"

definition fence_lost :: "draft_entry \<Rightarrow> int \<Rightarrow> draft_fence \<Rightarrow> server_draft \<Rightarrow> send_context \<Rightarrow> send_transition" where
  "fence_lost e seq f row cx =
     (let typed = (case en_local e of None \<Rightarrow> False | Some l \<Rightarrow> \<not> content_equals l (fe_merged f));
          earlier = (if content_equals (fe_before f) (sd_content row) then None else Some (fe_before f));
          next = with_epoch e ((settled_save e seq)\<lparr>en_server := Some row,
            en_local := (if typed then en_local e else earlier), en_pending_failed_send := None, en_thread := ThreadListed,
            en_conflict := (if typed then Some \<lparr>cf_kind = CkEdited, cf_row = Some row\<rparr> else en_conflict e)\<rparr>)
      in case reload next cx of
           (e', fx) \<Rightarrow> (plain e' (fx @ [notice (en_key e) NoticeFirstSent]))\<lparr>tn_fence := Some None\<rparr>)"

definition intercept_save :: "draft_entry \<Rightarrow> int \<Rightarrow> save_result \<Rightarrow> send_context \<Rightarrow> send_transition option" where
  "intercept_save e seq r cx =
     (case r of
        SaveClaimed row th \<Rightarrow>
          Some (case en_claiming e of
                  None \<Rightarrow> claimed_elsewhere (settled_save e seq) row th cx
                | Some c \<Rightarrow> prepend [notice (en_key e) NoticeNotSent]
                    (claimed_elsewhere (unclaim (settled_save e seq) c) row th cx))
      | SaveGone th \<Rightarrow>
          if en_sending e \<noteq> None then None
          else (case (case en_claiming e of Some c \<Rightarrow> Some (cg_content c) | None \<Rightarrow> en_local e) of
                  None \<Rightarrow> None
                | Some words \<Rightarrow> Some (fork_words ((settled_save e seq)\<lparr>en_claiming := None, en_thread := dt_status th\<rparr>)
                    words None NoticeKeptInNewDeleted))
      | SaveConflict row th \<Rightarrow>
          (case cx_fence cx of
             None \<Rightarrow> None
           | Some f \<Rightarrow> if dt_first_turn th = Some (fe_turn f) then Some (fence_lost e seq f row cx) else None)
      | _ \<Rightarrow> None)"

definition intercept_drafting_event :: "draft_entry \<Rightarrow> entry_event \<Rightarrow> send_context \<Rightarrow> send_transition option" where
  "intercept_drafting_event e ev cx =
     (case ev of
        EvSaveResult seq r \<Rightarrow>
          (case en_inflight e of
             None \<Rightarrow> None
           | Some i \<Rightarrow> if if_op i \<noteq> OpSave then None else intercept_save e seq r cx)
      | _ \<Rightarrow> None)"

definition after_drafting :: "draft_entry \<Rightarrow> send_transition \<Rightarrow> send_transition" where
  "after_drafting earlier t =
     (case tn_entry t of
        None \<Rightarrow> t
      | Some after \<Rightarrow>
          (let waited = (en_claiming earlier \<noteq> None \<and> en_inflight earlier \<noteq> None \<and> en_inflight after = None);
               out = (case en_claiming after of
                        Some c \<Rightarrow> if waited then t\<lparr>tn_effects := tn_effects t @ [claim_effect after c]\<rparr> else t
                      | None \<Rightarrow> t)
           in if en_pending_failed_send after = None \<and> tn_fence out = None then out\<lparr>tn_fence := Some None\<rparr> else out))"

section \<open>The sending entry reducer\<close>

fun reduce_send_entry :: "draft_entry \<Rightarrow> send_event \<Rightarrow> send_context \<Rightarrow> send_transition" where
  "reduce_send_entry e (EvSubmit ready) cx = submit e ready cx"
| "reduce_send_entry e (EvSubmitExternal txt ms cell origin ready) cx = submit_external e txt ms cell origin ready cx"
| "reduce_send_entry e (EvClaimResult attempt seq r) cx = claim_result_of e attempt seq r cx"
| "reduce_send_entry e (EvClaimFailed attempt seq f) cx = claim_failed e attempt seq f cx"
| "reduce_send_entry e (EvStartResult attempt seq r) cx = start_result_of e attempt seq r cx"
| "reduce_send_entry e (EvStartFailed attempt seq f) cx = start_failed e attempt seq f cx"
| "reduce_send_entry e (EvRouteHandoff turn) cx = route_handoff e turn"
| "reduce_send_entry e (EvRouteFailed turn f) cx = route_failed e turn f cx"
| "reduce_send_entry e (EvConsumeResult token seq retry r) cx = consume_result_of e token seq retry r cx"
| "reduce_send_entry e (EvConsumeFailed token seq retry f) cx = consume_failed e token retry"
| "reduce_send_entry e (EvReleaseResult token seq retry r) cx = release_result_of e token seq retry r cx"
| "reduce_send_entry e (EvReleaseFailed token seq retry f) cx = release_failed e token retry"
| "reduce_send_entry e (EvHeartbeat token r) cx = heartbeat_result e token r cx"
| "reduce_send_entry e EvDiscard cx = discard_draft e"
| "reduce_send_entry e (EvDiscardResult base seq r) cx = discard_result_of e base seq r cx"
| "reduce_send_entry e EvDiscardFailed cx = plain e [notice (en_key e) NoticeDiscardFailed]"
| "reduce_send_entry e (EvUndoDiscard revision c) cx = undo_discard e revision c cx"
| "reduce_send_entry e EvUncertainDismiss cx =
     (if map_option cf_kind (en_conflict e) \<noteq> Some CkUncertain \<or> copy_row e \<noteq> None then no_change e
      else dismiss_with e (en_local e))"
| "reduce_send_entry e EvCopyKeep cx =
     (case copy_row e of
        None \<Rightarrow> no_change e
      | Some row \<Rightarrow> dismiss_with e (case en_local e of None \<Rightarrow> None | Some l \<Rightarrow> Some (append_content (sd_content row) (Some l))))"
| "reduce_send_entry e EvCopyDiscard cx =
     (case copy_row e of
        None \<Rightarrow> no_change e
      | Some row \<Rightarrow> dismiss_with e (Some (local_or_empty e)))"
| "reduce_send_entry e (EvListed seq item) cx = listed e seq item cx"

end
