(* ===== verification/Draft_Store.thy ===== *)
theory Draft_Store
  imports Draft_Sending
begin

text \<open>
  The composed drafts reducer (lib/stores/elench-drafts/reducer.ts): one key's event through both
  halves (\<open>reduce_entry\<close>), its write-back with forks and fences (\<open>commit\<close>), and the store reduction
  (\<open>reduce_store\<close>). Dictionaries the source iterates over are association lists in insertion order.
\<close>

section \<open>The store\<close>

record pending_fork =
  pf_from :: draft_key
  pf_revision :: int

record drafts_store = drafts_state +
  st_forks :: "(string \<times> pending_fork) list"
  st_fences :: "(string \<times> draft_fence) list"

record store_env = drafts_env +
  ev_fresh :: fresh_ids
  ev_mounted :: bool

datatype key_event = KeyDraft entry_event | KeySend send_event

datatype store_event =
  StOpenNew string
| StOpenArtifactNew string string
| StSelect draft_key thread_status
| StScopeChange draft_scope
| StPageOrg "string option"
| StViewerChange "string option"
| StEntry draft_key key_event
| StServerRows int int list_ok "cached_draft list"

type_synonym store_transition = "drafts_store \<times> send_effect list"

definition initial_drafts_store :: "string option \<Rightarrow> drafts_store" where
  "initial_drafts_store viewer = drafts_state.extend (initial_drafts_state viewer) \<lparr>st_forks = [], st_fences = []\<rparr>"

definition store_entry :: "drafts_store \<Rightarrow> string \<Rightarrow> draft_entry option" where
  "store_entry s i = map_of (st_entries s) i"

definition store_context :: "drafts_store \<Rightarrow> draft_key \<Rightarrow> store_env \<Rightarrow> send_context" where
  "store_context s k env = \<lparr>cx_page_org = st_page_org s, cx_tab_id = ev_tab_id env,
     cx_active = (map_of (st_active_key s) (scope_id k) = Some (dk_conversation k)), cx_now = ev_now env,
     cx_fresh = ev_fresh env, cx_mounted = ev_mounted env, cx_fence = map_of (st_fences s) (key_id k)\<rparr>"

section \<open>One key's event through both halves\<close>

definition is_edit :: "key_event \<Rightarrow> bool" where
  "is_edit ev = (case ev of KeyDraft (EvEdit _ _) \<Rightarrow> True | _ \<Rightarrow> False)"

definition is_cache_remove :: "send_effect \<Rightarrow> bool" where
  "is_cache_remove x = (case x of SfDraft (EfCacheRemove _) \<Rightarrow> True | _ \<Rightarrow> False)"

definition both_halves :: "draft_entry \<Rightarrow> key_event \<Rightarrow> send_context \<Rightarrow> send_transition" where
  "both_halves e ev cx =
     (case ev of
        KeySend sev \<Rightarrow> reduce_send_entry e sev cx
      | KeyDraft dev \<Rightarrow> after_drafting e
          (case intercept_drafting_event e dev cx of
             Some t \<Rightarrow> t
           | None \<Rightarrow> drafted (reduce_drafting_event e dev (drafting_context cx))))"

text \<open>I6: a box replaced from outside moves the epoch, whichever transition replaced it.\<close>

definition bump_epoch :: "draft_entry \<Rightarrow> key_event \<Rightarrow> draft_entry option \<Rightarrow> draft_entry option" where
  "bump_epoch e ev after =
     (case after of
        None \<Rightarrow> None
      | Some a \<Rightarrow>
          if \<not> is_edit ev \<and> en_epoch a = en_epoch e \<and> \<not> content_equals (shown_content e) (shown_content a)
          then Some (a\<lparr>en_epoch := en_epoch e + 1\<rparr>) else Some a)"

definition reduce_entry :: "draft_entry \<Rightarrow> key_event \<Rightarrow> send_context \<Rightarrow> send_transition" where
  "reduce_entry e ev cx =
     (let t = both_halves e ev cx; after = bump_epoch e ev (tn_entry t);
          fx = filter (\<lambda>x. \<not> is_cache_remove x) (tn_effects t);
          kept = (if tn_fork t = None then after else None)
      in t\<lparr>tn_entry := after,
           tn_effects := (if holds_cache (Some e) \<and> \<not> holds_cache kept then fx @ [SfDraft (EfCacheRemove (en_key e))] else fx)\<rparr>)"

section \<open>Writing a key back\<close>

text \<open>A fence of \<open>None\<close> keeps the key's fence, as the source's \<open>undefined\<close> does.\<close>

definition store_put :: "drafts_store \<Rightarrow> draft_key \<Rightarrow> draft_entry option \<Rightarrow> draft_fence option option \<Rightarrow> drafts_store" where
  "store_put s k e fence =
     (let i = key_id k
      in s\<lparr>st_entries := (case e of None \<Rightarrow> AList.delete i (st_entries s) | Some e \<Rightarrow> AList.update i e (st_entries s)),
           st_fences := (if fence \<noteq> None \<or> e = None
             then (case fence of Some (Some f) \<Rightarrow> AList.update i f (st_fences s) | _ \<Rightarrow> AList.delete i (st_fences s))
             else st_fences s)\<rparr>)"

definition fork_key :: "draft_key \<Rightarrow> store_env \<Rightarrow> draft_key" where
  "fork_key from env = from\<lparr>dk_conversation := fr_conversation (ev_fresh env)\<rparr>"

definition apply_fork ::
  "drafts_store \<Rightarrow> draft_key \<Rightarrow> draft_fork \<Rightarrow> draft_entry option \<Rightarrow> store_env \<Rightarrow> store_transition" where
  "apply_fork s from f fallback env =
     (let to' = fork_key from env; sid = scope_id from
      in if store_entry s (key_id to') \<noteq> None \<or> dk_conversation to' = dk_conversation from
         then (store_put s from fallback (Some None), [])
         else (let s1 = store_put s from None (Some None);
                   s2 = (if map_of (st_active_key s1) sid = Some (dk_conversation from)
                         then s1\<lparr>st_active_key := AList.update sid (dk_conversation to') (st_active_key s1)\<rparr> else s1);
                   s3 = (case fk_discard f of None \<Rightarrow> s2
                         | Some r \<Rightarrow> s2\<lparr>st_forks := AList.update (key_id to') \<lparr>pf_from = from, pf_revision = r\<rparr> (st_forks s2)\<rparr>);
                   seeded = (new_entry to' ThreadNone)\<lparr>en_local := Some (fk_content f)\<rparr>;
                   s4 = store_put s3 to' (Some seeded) None;
                   t = reduce_entry seeded (KeyDraft (EvSaveTrigger TrBeforeSubmit)) (store_context s4 to' env)
               in (store_put s4 to' (tn_entry t) (tn_fence t), tn_effects t @ [notice to' (fk_notice f)])))"

definition commit :: "drafts_store \<Rightarrow> draft_key \<Rightarrow> send_transition \<Rightarrow> store_env \<Rightarrow> store_transition" where
  "commit s k t env =
     (case tn_fork t of
        Some f \<Rightarrow>
          (case apply_fork s k f (tn_entry t) env of
             (s', fx) \<Rightarrow>
               (s', (if store_entry s' (key_id k) \<noteq> None then filter (\<lambda>x. \<not> is_cache_remove x) (tn_effects t)
                     else tn_effects t) @ fx))
      | None \<Rightarrow>
          (let next = store_put s k (tn_entry t) (tn_fence t); sid = scope_id k
           in if tn_entry t \<noteq> None \<or> map_of (st_active_key next) sid \<noteq> Some (dk_conversation k) then (next, tn_effects t)
              else (next\<lparr>st_active_key := AList.delete sid (st_active_key next)\<rparr>, tn_effects t)))"

text \<open>An answer \<open>saved\<close> to a save: what D18's discard waits for.\<close>

definition acknowledges_save :: "key_event \<Rightarrow> bool" where
  "acknowledges_save ev = (case ev of KeyDraft (EvSaveResult _ (SaveSaved _)) \<Rightarrow> True | _ \<Rightarrow> False)"

definition apply_key_event :: "drafts_store \<Rightarrow> draft_key \<Rightarrow> key_event \<Rightarrow> store_env \<Rightarrow> store_transition" where
  "apply_key_event s k ev env =
     (let i = key_id k
      in case store_entry s i of
           None \<Rightarrow> (s, [])
         | Some e \<Rightarrow>
             (case commit s (en_key e) (reduce_entry e ev (store_context s (en_key e) env)) env of
                (s', fx) \<Rightarrow>
                  (case map_of (st_forks s) i of
                     None \<Rightarrow> (s', fx)
                   | Some p \<Rightarrow>
                       if \<not> acknowledges_save ev \<or> en_inflight e = None then (s', fx)
                       else (s'\<lparr>st_forks := AList.delete i (st_forks s')\<rparr>, fx @ [SfDiscard (pf_from p) (pf_revision p)]))))"

section \<open>The store reduction\<close>

text \<open>The loop of \<open>PAGE_ORG\<close> over the entries as they were when it started.\<close>

fun resume_keys :: "draft_entry list \<Rightarrow> string \<Rightarrow> store_env \<Rightarrow> drafts_store \<Rightarrow> store_transition" where
  "resume_keys [] org env s = (s, [])"
| "resume_keys (e # es) org env s =
     (if ds_org (en_key e) \<noteq> org \<or> \<not> resumable e then resume_keys es org env s
      else (case apply_key_event (store_put s (en_key e) (Some (e\<lparr>en_save := SvIdle, en_blocked_by := None\<rparr>)) None)
              (en_key e) (KeyDraft (EvSaveTrigger TrTimer)) env of
              (s1, fx) \<Rightarrow> (case resume_keys es org env s1 of (s2, fx') \<Rightarrow> (s2, fx @ fx'))))"

definition store_page_org :: "drafts_store \<Rightarrow> string option \<Rightarrow> store_env \<Rightarrow> store_transition" where
  "store_page_org s org env =
     (let next = s\<lparr>st_page_org := org\<rparr>
      in case org of None \<Rightarrow> (next, []) | Some o' \<Rightarrow> resume_keys (map snd (st_entries s)) o' env next)"

definition row_key :: "server_draft \<Rightarrow> draft_key" where
  "row_key r = \<lparr>ds_org = sd_org r, ds_project = sd_project r, dk_conversation = sd_conversation r\<rparr>"

definition listed_key ::
  "(string \<times> cached_draft) list \<Rightarrow> int \<Rightarrow> store_env \<Rightarrow> list_entry \<Rightarrow> drafts_store \<Rightarrow> store_transition" where
  "listed_key restored seq env item s =
     (let k = row_key (le_row item); i = key_id k
      in case (store_entry s i, map_of restored i) of
           (None, Some c) \<Rightarrow> commit s k (restore_from_cache c (Some item) (store_context s k env)) env
         | (None, None) \<Rightarrow>
             apply_key_event (store_put s k (Some (new_entry k (dt_status (le_thread item)))) None) k
               (KeySend (EvListed seq item)) env
         | (Some _, _) \<Rightarrow> apply_key_event s k (KeySend (EvListed seq item)) env)"

text \<open>A loop of store steps that collects their effects.\<close>

fun run_steps :: "('a \<Rightarrow> drafts_store \<Rightarrow> store_transition) \<Rightarrow> 'a list \<Rightarrow> drafts_store \<Rightarrow> store_transition" where
  "run_steps f [] s = (s, [])"
| "run_steps f (x # xs) s = (case f x s of (s1, fx) \<Rightarrow> (case run_steps f xs s1 of (s2, fx') \<Rightarrow> (s2, fx @ fx')))"

definition restore_key :: "string list \<Rightarrow> store_env \<Rightarrow> string \<times> cached_draft \<Rightarrow> drafts_store \<Rightarrow> store_transition" where
  "restore_key seen env p s =
     (if fst p \<in> set seen \<or> store_entry s (fst p) \<noteq> None then (s, [])
      else commit s (ca_key (snd p)) (restore_from_cache (snd p) None (store_context s (ca_key (snd p)) env)) env)"

definition unlisted_key ::
  "string list \<Rightarrow> (string \<times> cached_draft) list \<Rightarrow> draft_scope \<Rightarrow> int \<Rightarrow> store_env \<Rightarrow> string \<times> draft_entry \<Rightarrow>
   drafts_store \<Rightarrow> store_transition" where
  "unlisted_key seen restored scope seq env p s =
     (if fst p \<in> set seen \<or> \<not> same_scope (en_key (snd p)) scope \<or> map_of restored (fst p) \<noteq> None then (s, [])
      else apply_key_event s (en_key (snd p)) (KeyDraft (EvNotListed seq)) env)"

definition restored_map :: "cached_draft list \<Rightarrow> draft_scope \<Rightarrow> (string \<times> cached_draft) list" where
  "restored_map cs scope =
     fold (\<lambda>c. AList.update (key_id (ca_key c)) c) (filter (\<lambda>c. same_scope (ca_key c) scope) cs) []"

definition server_rows ::
  "drafts_store \<Rightarrow> int \<Rightarrow> int \<Rightarrow> list_ok \<Rightarrow> cached_draft list \<Rightarrow> store_env \<Rightarrow> store_transition" where
  "server_rows s seq generation result cs env =
     (case st_scope s of
        None \<Rightarrow> (s, [])
      | Some scope \<Rightarrow>
          if generation \<noteq> st_generation s then (s, [])
          else (let restored = restored_map cs scope;
                    items = filter (\<lambda>i. same_scope (row_key (le_row i)) scope) (lo_drafts result);
                    seen = map (\<lambda>i. key_id (row_key (le_row i))) items;
                    r0 = store_page_org s (Some (lo_org result)) env;
                    r1 = run_steps (listed_key restored seq env) items (fst r0);
                    r2 = run_steps (restore_key seen env) restored (fst r1);
                    r3 = run_steps (unlisted_key seen restored scope seq env) (st_entries (fst r2)) (fst r2)
                in (fst r3, snd r0 @ snd r1 @ snd r2 @ snd r3)))"

text \<open>The store events of the drafting half, which keep the forks and the fences.\<close>

definition through_drafts :: "drafts_store \<Rightarrow> drafts_event \<Rightarrow> store_env \<Rightarrow> store_transition" where
  "through_drafts s ev env =
     (case reduce_drafts (drafts_state.truncate s) ev (drafts_env.truncate env) of
        (s', fx) \<Rightarrow>
          (drafts_state.extend s' \<lparr>st_forks = st_forks s, st_fences = st_fences s\<rparr>, map SfDraft fx))"

definition store_viewer_change :: "drafts_store \<Rightarrow> string option \<Rightarrow> store_env \<Rightarrow> store_transition" where
  "store_viewer_change s viewer env =
     (if viewer = st_viewer s then (s, [])
      else (case through_drafts s (EvViewerChange viewer) env of (s', fx) \<Rightarrow> (s'\<lparr>st_forks := [], st_fences := []\<rparr>, fx)))"

fun reduce_store :: "drafts_store \<Rightarrow> store_event \<Rightarrow> store_env \<Rightarrow> store_transition" where
  "reduce_store s (StEntry k ev) env = apply_key_event s k ev env"
| "reduce_store s (StServerRows seq generation result restored) env = server_rows s seq generation result restored env"
| "reduce_store s (StViewerChange viewer) env = store_viewer_change s viewer env"
| "reduce_store s (StPageOrg org) env = store_page_org s org env"
| "reduce_store s (StOpenNew c) env = through_drafts s (EvOpenNew c) env"
| "reduce_store s (StOpenArtifactNew c a) env = through_drafts s (EvOpenArtifactNew c a) env"
| "reduce_store s (StSelect k t) env = through_drafts s (EvSelect k t) env"
| "reduce_store s (StScopeChange scope) env = through_drafts s (EvScopeChange scope) env"

end
