(* ===== verification/Draft_Frames.thy ===== *)
theory Draft_Frames
  imports Draft_Store "HOL-Library.Sublist"
begin

text \<open>
  What the steps of the drafts reducer leave alone. A save attempt touches only the three fields of
  the save state (\<open>saved_as\<close>), so a statement about an entry that does not read them passes through
  every \<open>try_save\<close>, \<open>save_now\<close> and \<open>save_if_dirty\<close>; statements about a transition are pushed to its
  entry, its effects and its fork by the rewrite rules collected here.
\<close>

section \<open>What the box shows\<close>

text \<open>Of an entry, \<open>shown_content\<close> reads the claim, the send, the unsaved words and the row.\<close>

lemma shown_cong:
  assumes "en_claiming e' = en_claiming e" "en_sending e' = en_sending e" "en_local e' = en_local e" "en_server e' = en_server e"
  shows "shown_content e' = shown_content e"
  unfolding shown_content_def assms ..

section \<open>Transitions\<close>

lemma plain_simps [simp]:
  "tn_entry (plain e fx) = Some e" "tn_effects (plain e fx) = fx" "tn_fork (plain e fx) = None"
  "tn_fence (plain e fx) = None"
  by (simp_all add: plain_def)

lemma no_change_simps [simp]:
  "tn_entry (no_change e) = Some e" "tn_effects (no_change e) = []" "tn_fork (no_change e) = None"
  "tn_fence (no_change e) = None"
  by (simp_all add: no_change_def)

lemma prepend_simps [simp]:
  "tn_entry (prepend fx t) = tn_entry t" "tn_effects (prepend fx t) = fx @ tn_effects t"
  "tn_fork (prepend fx t) = tn_fork t" "tn_fence (prepend fx t) = tn_fence t"
  by (simp_all add: prepend_def)

lemma drafted_simps [simp]:
  "tn_entry (drafted t) = fst t" "tn_effects (drafted t) = map SfDraft (snd t)" "tn_fork (drafted t) = None"
  "tn_fence (drafted t) = None"
  by (simp_all add: drafted_def)

lemma fork_words_simps [simp]:
  "tn_entry (fork_words e c d n) = Some (e\<lparr>en_claiming := None, en_sending := None, en_local := Some c, en_epoch := en_epoch e + 1\<rparr>)"
  "tn_effects (fork_words e c d n) = []"
  "tn_fork (fork_words e c d n) = Some \<lparr>fk_content = c, fk_discard = d, fk_notice = n\<rparr>"
  by (simp_all add: fork_words_def)

lemma unchanged_simps [simp]: "fst (unchanged e) = Some e" "snd (unchanged e) = []"
  by (simp_all add: unchanged_def)

lemma drafting_context_simps [simp]:
  "cx_page_org (drafting_context cx) = cx_page_org cx" "cx_tab_id (drafting_context cx) = cx_tab_id cx"
  "cx_active (drafting_context cx) = cx_active cx" "cx_now (drafting_context cx) = cx_now cx"
  by (simp_all add: drafting_context_def entry_context.truncate_def)

section \<open>The save state\<close>

definition saved_as :: "draft_entry \<Rightarrow> draft_entry \<Rightarrow> bool" where
  "saved_as e e' \<longleftrightarrow> (\<exists>sv bl fl. e' = e\<lparr>en_save := sv, en_blocked_by := bl, en_inflight := fl\<rparr>)"

lemma saved_asI: "saved_as e (e\<lparr>en_save := sv, en_blocked_by := bl, en_inflight := fl\<rparr>)"
  by (auto simp: saved_as_def)

lemma saved_as_refl [simp]: "saved_as e e"
  using saved_asI [where e = e and sv = "en_save e" and bl = "en_blocked_by e" and fl = "en_inflight e"] by simp

lemma saved_as_save_blocked [simp]: "saved_as e (e\<lparr>en_save := sv, en_blocked_by := bl\<rparr>)"
  using saved_asI [where e = e and sv = sv and bl = bl and fl = "en_inflight e"] by simp

lemma saved_as_trans: "saved_as a b \<Longrightarrow> saved_as b c \<Longrightarrow> saved_as a c"
  unfolding saved_as_def by (elim exE) (simp, (rule exI)+, rule refl)

lemma saved_as_fields:
  assumes "saved_as e e'"
  shows "en_key e' = en_key e" "en_server e' = en_server e" "en_local e' = en_local e" "en_epoch e' = en_epoch e"
    "en_claiming e' = en_claiming e" "en_sending e' = en_sending e"
    "en_pending_failed_send e' = en_pending_failed_send e" "en_abandoned e' = en_abandoned e"
    "en_conflict e' = en_conflict e" "en_thread e' = en_thread e" "en_transcript e' = en_transcript e"
    "en_ack_seq e' = en_ack_seq e" "en_credential_ack e' = en_credential_ack e"
    "shown_content e' = shown_content e" "revision_of e' = revision_of e"
  using assms by (auto simp: saved_as_def revision_of_def intro: shown_cong)

lemma enter_unsaved_fst: "fst (enter_unsaved e sv r) = Some (e\<lparr>en_save := sv, en_blocked_by := r\<rparr>)"
  by (simp add: enter_unsaved_def)

lemma try_save_saved_as: "\<exists>e'. fst (try_save e cx) = Some e' \<and> saved_as e e'"
proof (cases "en_local e")
  case (Some l)
  then show ?thesis
    by (auto simp: try_save_def enter_unsaved_fst Let_def saved_asI simp flip: unchanged_simps)
qed (auto simp: try_save_def)

lemma reduce_save_trigger_saved_as: "\<exists>e'. fst (reduce_save_trigger e r cx) = Some e' \<and> saved_as e e'"
  using try_save_saved_as [of e cx] by (auto simp: reduce_save_trigger_def)

lemma reduce_draft_entry_fst: "fst (reduce_draft_entry e ev cx) = fst (reduce_entry_event e ev cx)"
  by (simp add: reduce_draft_entry_def split: prod.split)

lemma saved_as_put_back:
  assumes "saved_as (e\<lparr>en_conflict := None\<rparr>) e'" "en_conflict e = c"
  shows "saved_as e (e'\<lparr>en_conflict := c\<rparr>)"
proof -
  obtain sv bl fl where e': "e' = e\<lparr>en_conflict := None, en_save := sv, en_blocked_by := bl, en_inflight := fl\<rparr>"
    using assms(1) by (auto simp: saved_as_def)
  have "e\<lparr>en_conflict := c\<rparr> = e" using assms(2) by (cases e) simp
  then have "e'\<lparr>en_conflict := c\<rparr> = e\<lparr>en_save := sv, en_blocked_by := bl, en_inflight := fl\<rparr>"
    using e' by (cases e) simp
  then show ?thesis using saved_asI by metis
qed

lemma save_now_saved_as: "\<exists>e'. tn_entry (save_now e cx) = Some e' \<and> saved_as e e'"
proof (cases "open_card e")
  case None
  then show ?thesis
    using reduce_save_trigger_saved_as [of e TrBeforeSubmit "drafting_context cx"]
    by (auto simp: save_now_def reduce_drafting_event_def reduce_draft_entry_fst)
next
  case (Some bar)
  then have bar: "en_conflict e = Some bar" by (auto simp: open_card_def split: option.splits if_splits)
  obtain e' fx where r: "reduce_draft_entry (e\<lparr>en_conflict := None\<rparr>) (EvSaveTrigger TrBeforeSubmit) (drafting_context cx) = (Some e', fx)"
    "saved_as (e\<lparr>en_conflict := None\<rparr>) e'"
    using reduce_save_trigger_saved_as [of "e\<lparr>en_conflict := None\<rparr>" TrBeforeSubmit "drafting_context cx"]
      reduce_draft_entry_fst [of "e\<lparr>en_conflict := None\<rparr>" "EvSaveTrigger TrBeforeSubmit" "drafting_context cx"]
    by (metis prod.collapse reduce_entry_event.simps(2))
  then have "en_conflict e' = None" by (simp add: saved_as_fields)
  moreover have "saved_as e (e'\<lparr>en_conflict := Some bar\<rparr>)"
    using saved_as_put_back [OF r(2) bar] .
  ultimately show ?thesis
    using Some r(1) by (simp add: save_now_def reduce_drafting_event_def)
qed

lemma save_now_plain [simp]: "tn_fork (save_now e cx) = None" "tn_fence (save_now e cx) = None"
  by (simp_all add: save_now_def)

text \<open>A statement about the entry a transition leaves, true when it leaves none.\<close>

definition leaves :: "(draft_entry \<Rightarrow> bool) \<Rightarrow> send_transition \<Rightarrow> bool" where
  "leaves P t \<longleftrightarrow> (\<forall>e. tn_entry t = Some e \<longrightarrow> P e)"

lemma leaves_simps [simp]:
  "leaves P (plain e fx) = P e" "leaves P (no_change e) = P e" "leaves P (prepend fx t) = leaves P t"
  "leaves P (t\<lparr>tn_effects := fx\<rparr>) = leaves P t" "leaves P (t\<lparr>tn_fence := f\<rparr>) = leaves P t"
  "leaves P (fork_words e c d n) =
     P (e\<lparr>en_claiming := None, en_sending := None, en_local := Some c, en_epoch := en_epoch e + 1\<rparr>)"
  by (simp_all add: leaves_def)

lemma leaves_drafted: "leaves P (drafted t) \<longleftrightarrow> (\<forall>e. fst t = Some e \<longrightarrow> P e)"
  by (simp add: leaves_def)

lemma leaves_save_now:
  assumes "P e" "\<And>e'. saved_as e e' \<Longrightarrow> P e \<Longrightarrow> P e'"
  shows "leaves P (save_now e cx)"
  using save_now_saved_as [of e cx] assms by (auto simp: leaves_def)

lemma save_if_dirty_saved_as:
  assumes "tn_entry t = Some e"
  shows "\<exists>e'. tn_entry (save_if_dirty t cx) = Some e' \<and> saved_as e e'"
  using assms save_now_saved_as [of e cx] by (auto simp: save_if_dirty_def prepend_def)

lemma save_if_dirty_fork [simp]: "tn_fork (save_if_dirty t cx) = tn_fork t" "tn_fence (save_if_dirty t cx) = tn_fence t"
  by (simp_all add: save_if_dirty_def split: option.split)

lemma leaves_save_if_dirty:
  assumes "leaves P t" "\<And>e e'. saved_as e e' \<Longrightarrow> P e \<Longrightarrow> P e'"
  shows "leaves P (save_if_dirty t cx)"
proof (cases "tn_entry t")
  case None
  then show ?thesis by (simp add: leaves_def save_if_dirty_def)
next
  case (Some e)
  then show ?thesis using save_if_dirty_saved_as [OF Some, of cx] assms by (auto simp: leaves_def)
qed

section \<open>Loading a transcript\<close>

lemma reload_fst: "fst (reload e cx) = e\<lparr>en_transcript := (if cx_active cx \<and> cx_mounted cx then TranscriptLoading else TranscriptUnloaded)\<rparr>"
  by (simp add: reload_def)

lemma load_first_fst: "fst (load_first e cx) = fst (reload e cx)"
  by (simp add: load_first_def split: prod.split)

text \<open>Statements that do not read the thread status or the transcript.\<close>

definition thread_as :: "draft_entry \<Rightarrow> draft_entry \<Rightarrow> bool" where
  "thread_as e e' \<longleftrightarrow> (\<exists>th tr. e' = e\<lparr>en_thread := th, en_transcript := tr\<rparr>)"

lemma thread_asI: "thread_as e (e\<lparr>en_thread := th, en_transcript := tr\<rparr>)"
  by (auto simp: thread_as_def)

lemma thread_as_refl [simp]: "thread_as e e"
  using thread_asI [where e = e and th = "en_thread e" and tr = "en_transcript e"] by simp

lemma thread_as_thread [simp]: "thread_as e (e\<lparr>en_thread := th\<rparr>)"
  using thread_asI [where e = e and th = th and tr = "en_transcript e"] by simp

lemma thread_as_transcript [simp]: "thread_as e (e\<lparr>en_transcript := tr\<rparr>)"
  using thread_asI [where e = e and th = "en_thread e" and tr = tr] by simp

lemma thread_as_trans: "thread_as a b \<Longrightarrow> thread_as b c \<Longrightarrow> thread_as a c"
  unfolding thread_as_def by (elim exE) (simp, (rule exI)+, rule refl)

lemma thread_as_fields:
  assumes "thread_as e e'"
  shows "en_key e' = en_key e" "en_server e' = en_server e" "en_local e' = en_local e" "en_epoch e' = en_epoch e"
    "en_claiming e' = en_claiming e" "en_sending e' = en_sending e"
    "en_pending_failed_send e' = en_pending_failed_send e" "en_abandoned e' = en_abandoned e"
    "en_conflict e' = en_conflict e" "en_inflight e' = en_inflight e" "en_ack_seq e' = en_ack_seq e"
    "en_save e' = en_save e" "en_blocked_by e' = en_blocked_by e"
    "shown_content e' = shown_content e" "revision_of e' = revision_of e"
  using assms by (auto simp: thread_as_def revision_of_def intro: shown_cong)

lemma reload_thread_as: "thread_as e (fst (reload e cx))"
  by (simp add: reload_fst)

lemma with_thread_thread_as: "thread_as e (fst (with_thread e t cx))"
proof -
  have "thread_as e (fst (reload (e\<lparr>en_thread := t\<rparr>) cx))"
    using thread_as_trans [OF thread_as_thread reload_thread_as] .
  then show ?thesis by (simp add: with_thread_def Let_def)
qed

lemma load_first_thread_as: "thread_as e (fst (load_first e cx))"
  by (simp add: load_first_fst reload_thread_as)

lemma committed_turn_thread_as: "thread_as e (fst (committed_turn e f cx))"
  using reload_thread_as [of e cx] by (cases "reload e cx") (simp add: committed_turn_def)

lemma refusal_extras_thread_as: "thread_as e (fst (refusal_extras e f cx))"
  using reload_thread_as [of e cx] load_first_thread_as [of e cx] by (cases "reload e cx") (simp add: refusal_extras_def)

section \<open>Small updates\<close>

lemma acked_fields [simp]:
  "en_key (acked e n) = en_key e" "en_server (acked e n) = en_server e" "en_local (acked e n) = en_local e"
  "en_epoch (acked e n) = en_epoch e" "en_claiming (acked e n) = en_claiming e" "en_sending (acked e n) = en_sending e"
  "en_pending_failed_send (acked e n) = en_pending_failed_send e" "en_abandoned (acked e n) = en_abandoned e"
  "en_conflict (acked e n) = en_conflict e" "en_inflight (acked e n) = en_inflight e" "en_thread (acked e n) = en_thread e"
  "en_save (acked e n) = en_save e" "shown_content (acked e n) = shown_content e" "revision_of (acked e n) = revision_of e"
  "row_artifacts (acked e n) = row_artifacts e"
  by (auto simp: acked_def revision_of_def row_artifacts_def intro: shown_cong)

lemma forget_fields [simp]:
  "en_key (forget e t) = en_key e" "en_server (forget e t) = en_server e" "en_local (forget e t) = en_local e"
  "en_epoch (forget e t) = en_epoch e" "en_claiming (forget e t) = en_claiming e" "en_sending (forget e t) = en_sending e"
  "en_conflict (forget e t) = en_conflict e" "en_inflight (forget e t) = en_inflight e" "en_thread (forget e t) = en_thread e"
  "en_save (forget e t) = en_save e" "shown_content (forget e t) = shown_content e" "row_artifacts (forget e t) = row_artifacts e"
  by (auto simp: forget_def row_artifacts_def intro: shown_cong)

lemma forget_send_fields [simp]:
  "en_key (forget_send e s) = en_key e" "en_server (forget_send e s) = en_server e" "en_local (forget_send e s) = en_local e"
  "en_epoch (forget_send e s) = en_epoch e" "en_claiming (forget_send e s) = en_claiming e"
  "en_sending (forget_send e s) = en_sending e" "en_conflict (forget_send e s) = en_conflict e"
  "en_inflight (forget_send e s) = en_inflight e" "en_thread (forget_send e s) = en_thread e"
  "en_save (forget_send e s) = en_save e" "shown_content (forget_send e s) = shown_content e"
  "row_artifacts (forget_send e s) = row_artifacts e"
  by (simp_all add: forget_send_def split: option.split)

lemma with_epoch_fields [simp]:
  "en_key (with_epoch b e) = en_key e" "en_server (with_epoch b e) = en_server e" "en_local (with_epoch b e) = en_local e"
  "en_claiming (with_epoch b e) = en_claiming e" "en_sending (with_epoch b e) = en_sending e"
  "en_conflict (with_epoch b e) = en_conflict e" "en_inflight (with_epoch b e) = en_inflight e"
  "en_thread (with_epoch b e) = en_thread e" "en_save (with_epoch b e) = en_save e"
  "en_abandoned (with_epoch b e) = en_abandoned e" "en_pending_failed_send (with_epoch b e) = en_pending_failed_send e"
  "shown_content (with_epoch b e) = shown_content e"
  by (auto simp: with_epoch_def intro: shown_cong)

lemma settled_save_fields [simp]:
  "en_key (settled_save e n) = en_key e" "en_server (settled_save e n) = en_server e" "en_local (settled_save e n) = en_local e"
  "en_epoch (settled_save e n) = en_epoch e" "en_claiming (settled_save e n) = en_claiming e"
  "en_sending (settled_save e n) = en_sending e" "en_conflict (settled_save e n) = en_conflict e"
  "en_inflight (settled_save e n) = None" "shown_content (settled_save e n) = shown_content e"
  "en_abandoned (settled_save e n) = en_abandoned e"
  by (auto simp: settled_save_def intro: shown_cong)

lemma settle_fields [simp]:
  "en_key (settle e n) = en_key e" "en_server (settle e n) = en_server e" "en_local (settle e n) = en_local e"
  "en_epoch (settle e n) = en_epoch e" "en_claiming (settle e n) = en_claiming e" "en_sending (settle e n) = en_sending e"
  "en_conflict (settle e n) = en_conflict e" "en_inflight (settle e n) = None" "en_save (settle e n) = en_save e"
  "en_pending_failed_send (settle e n) = en_pending_failed_send e" "shown_content (settle e n) = shown_content e"
  by (auto simp: settle_def intro: shown_cong)

lemma answered_fields [simp]:
  "en_key (answered e) = en_key e" "en_server (answered e) = en_server e" "en_local (answered e) = en_local e"
  "en_epoch (answered e) = en_epoch e" "en_claiming (answered e) = en_claiming e" "en_sending (answered e) = en_sending e"
  "en_conflict (answered e) = en_conflict e" "en_inflight (answered e) = en_inflight e"
  "en_pending_failed_send (answered e) = en_pending_failed_send e" "shown_content (answered e) = shown_content e"
  by (auto simp: answered_def Let_def intro: shown_cong)

lemma as_saving_fields [simp]:
  "en_key (as_saving e) = en_key e" "en_server (as_saving e) = en_server e" "en_local (as_saving e) = en_local e"
  "en_epoch (as_saving e) = en_epoch e" "en_claiming (as_saving e) = en_claiming e" "en_sending (as_saving e) = en_sending e"
  "en_conflict (as_saving e) = en_conflict e" "shown_content (as_saving e) = shown_content e"
  by (auto simp: as_saving_def intro: shown_cong)

lemma unclaim_fields [simp]:
  "en_key (unclaim e c) = en_key e" "en_server (unclaim e c) = en_server e" "en_epoch (unclaim e c) = en_epoch e"
  "en_claiming (unclaim e c) = None" "en_sending (unclaim e c) = en_sending e" "en_conflict (unclaim e c) = en_conflict e"
  "en_inflight (unclaim e c) = en_inflight e" "en_abandoned (unclaim e c) = en_abandoned e"
  by (simp_all add: unclaim_def Let_def)

lemma hand_over_fields [simp]:
  "en_key (hand_over e s r) = en_key e" "en_server (hand_over e s r) = en_server e" "en_epoch (hand_over e s r) = en_epoch e"
  "en_claiming (hand_over e s r) = en_claiming e" "en_sending (hand_over e s r) = None"
  "en_conflict (hand_over e s r) = en_conflict e"
  by (simp_all add: hand_over_def Let_def)

end
