(* ===== verification/Draft_Steps.thy ===== *)
theory Draft_Steps
  imports Draft_Frames
begin

text \<open>
  What every step of a key has in common, as an interface: a relation \<open>R\<close> between an entry and a later
  one that reads only the key, the epoch, the claim and the send, lets the epoch rise, the claim and the
  send end and the send's phase move (\<open>entry_order\<close>). Then \<open>R\<close> holds over every event but the three that
  begin something: Enter, an external prompt and a granted claim.
\<close>

lemma after_drafting_simps [simp]:
  "tn_entry (after_drafting b t) = tn_entry t" "tn_fork (after_drafting b t) = tn_fork t"
  by (simp_all add: after_drafting_def Let_def split: option.split)

text \<open>The events that begin a claim or a send.\<close>

definition begins :: "send_event \<Rightarrow> bool" where
  "begins ev \<longleftrightarrow> (case ev of EvSubmit _ \<Rightarrow> True | EvSubmitExternal _ _ _ _ _ \<Rightarrow> True
     | EvClaimResult _ _ (ClaimByYou _ _) \<Rightarrow> True | _ \<Rightarrow> False)"

section \<open>The interface\<close>

locale entry_order =
  fixes R :: "draft_entry \<Rightarrow> draft_entry \<Rightarrow> bool"
  assumes R_refl [simp]: "R a a"
    and trans: "R a b \<Longrightarrow> R b c \<Longrightarrow> R a c"
    and cong: "en_key a = en_key b \<Longrightarrow> en_epoch a = en_epoch b \<Longrightarrow> en_claiming a = en_claiming b \<Longrightarrow>
      en_sending a = en_sending b \<Longrightarrow> R e a = R e b"
    and raise [simp]: "R e a \<Longrightarrow> en_epoch a \<le> n \<Longrightarrow> R e (a\<lparr>en_epoch := n\<rparr>)"
    and outside [simp]: "R e b \<Longrightarrow> R e a \<Longrightarrow> R e (with_epoch b a)"
    and send_ends [simp]: "R e a \<Longrightarrow> R e (a\<lparr>en_sending := None\<rparr>)"
    and claim_ends [simp]: "R e a \<Longrightarrow> R e (a\<lparr>en_claiming := None\<rparr>)"
    and phase_moves [simp]: "en_sending a = Some s \<Longrightarrow> R e a \<Longrightarrow> R e (a\<lparr>en_sending := Some (s\<lparr>sg_phase := p\<rparr>)\<rparr>)"
begin

lemma R_saved_as: "saved_as a b \<Longrightarrow> R e a \<Longrightarrow> R e b"
  using cong [of a b e] by (simp add: saved_as_fields)

lemma R_thread_as: "thread_as a b \<Longrightarrow> R e a \<Longrightarrow> R e b"
  using cong [of a b e] by (simp add: thread_as_fields)

lemma R_updates [simp]:
  "R e (a\<lparr>en_server := v0\<rparr>) = R e a"
  "R e (a\<lparr>en_local := v1\<rparr>) = R e a"
  "R e (a\<lparr>en_pending_failed_send := v4\<rparr>) = R e a"
  "R e (a\<lparr>en_abandoned := v5\<rparr>) = R e a"
  "R e (a\<lparr>en_save := v6\<rparr>) = R e a"
  "R e (a\<lparr>en_blocked_by := v7\<rparr>) = R e a"
  "R e (a\<lparr>en_conflict := v8\<rparr>) = R e a"
  "R e (a\<lparr>en_thread := v9\<rparr>) = R e a"
  "R e (a\<lparr>en_transcript := v10\<rparr>) = R e a"
  "R e (a\<lparr>en_ack_seq := v11\<rparr>) = R e a"
  "R e (a\<lparr>en_inflight := v12\<rparr>) = R e a"
  "R e (a\<lparr>en_credential_ack := v13\<rparr>) = R e a"
  "R e (a\<lparr>en_transient_failures := v14\<rparr>) = R e a"
  "R e (a\<lparr>en_error_failures := v15\<rparr>) = R e a"
  by (rule cong; simp)+

lemma R_helpers [simp]:
  "R e (acked a n) = R e a" "R e (forget a t) = R e a" "R e (forget_send a s) = R e a"
  "R e (settled_save a n) = R e a" "R e (settle a n) = R e a" "R e (answered a) = R e a" "R e (as_saving a) = R e a"
  by (rule cong; simp)+

lemma R_unclaim [simp]: "R e a \<Longrightarrow> R e (unclaim a c)"
  by (simp add: unclaim_def Let_def)

lemma R_hand_over [simp]: "R e a \<Longrightarrow> R e (hand_over a s r)"
  by (simp add: hand_over_def Let_def)

lemma leaves_trans: "R e a \<Longrightarrow> leaves (R a) t \<Longrightarrow> leaves (R e) t"
  using trans by (auto simp: leaves_def)

lemma leaves_dirty: "leaves (R e) t \<Longrightarrow> leaves (R e) (save_if_dirty t cx)"
  by (rule leaves_save_if_dirty) (auto intro: R_saved_as)

lemma leaves_saved: "R e a \<Longrightarrow> leaves (R e) (save_now a cx)"
  by (rule leaves_save_now) (auto intro: R_saved_as)

definition steps_on :: "draft_entry \<Rightarrow> entry_transition \<Rightarrow> bool" where
  "steps_on e t \<longleftrightarrow> (\<forall>e'. fst t = Some e' \<longrightarrow> R e e')"

lemma steps_on_simps [simp]: "steps_on e (unchanged a) = R e a" "steps_on e (None, fx)" "steps_on e (Some a, fx) = R e a"
  by (simp_all add: steps_on_def)

lemma steps_on_try_save: "R e a \<Longrightarrow> steps_on e (try_save a cx)"
  using try_save_saved_as [of a cx] R_saved_as by (auto simp: steps_on_def)

lemma steps_on_enter [simp]: "steps_on e (enter_unsaved a sv r) = R e a"
  by (simp add: enter_unsaved_def)

lemma steps_on_retry: "steps_on e (transient_failure a) = R e a" "steps_on e (error_failure a) = R e a"
  by (simp_all add: transient_failure_def error_failure_def retry_after_def Let_def enter_unsaved_def)

lemma steps_on_gone:
  "R e a \<Longrightarrow> steps_on e (gone_with_nothing_unsaved a t cx)"
  "R e a \<Longrightarrow> steps_on e (reduce_gone a th cx)"
  by (auto simp: gone_with_nothing_unsaved_def reduce_gone_def Let_def)

lemma steps_on_refusal: "R e a \<Longrightarrow> steps_on e (reduce_refusal a r)"
  by (cases r) (auto simp: steps_on_retry)

lemma steps_on_conflict: "R e a \<Longrightarrow> steps_on e (reduce_conflict a row cx)"
  by (auto simp: reduce_conflict_def intro!: steps_on_try_save split: option.split)

lemma steps_on_save_result: "steps_on e (reduce_save_result e seq r cx)"
  by (auto simp: reduce_save_result_def Let_def split: option.split save_result.split
      intro!: steps_on_try_save steps_on_conflict steps_on_gone steps_on_refusal)

lemma steps_on_restore_result: "steps_on e (reduce_restore_result e seq r cx)"
  by (auto simp: reduce_restore_result_def Let_def split: option.split restore_result.split
      intro!: steps_on_try_save steps_on_conflict steps_on_gone steps_on_refusal)

lemma steps_on_edit: "steps_on e (reduce_edit e n c)"
  by (simp add: reduce_edit_def Let_def)

lemma steps_on_event: "steps_on e (reduce_entry_event e ev cx)"
proof (cases ev)
  case (EvSaveTrigger r)
  then show ?thesis by (simp add: reduce_save_trigger_def steps_on_try_save)
next
  case (EvWriteRejected seq network)
  then show ?thesis by (simp add: steps_on_retry)
next
  case (EvNotListed seq)
  then show ?thesis by (simp add: reduce_not_listed_def steps_on_gone)
qed (auto simp: steps_on_edit steps_on_save_result steps_on_restore_result reduce_conflict_restore_def Let_def
      split: option.split unblock_reason.split intro!: steps_on_try_save)

lemma steps_on_drafting_event: "steps_on e (reduce_drafting_event e ev cx)"
proof (cases "open_card e")
  case None
  then show ?thesis
    using steps_on_event [of e ev cx] by (simp add: reduce_drafting_event_def steps_on_def reduce_draft_entry_fst)
next
  case (Some bar)
  obtain a fx where r: "reduce_draft_entry (e\<lparr>en_conflict := None\<rparr>) ev cx = (a, fx)" by fastforce
  then have b: "steps_on (e\<lparr>en_conflict := None\<rparr>) (a, fx)"
    using steps_on_event [of "e\<lparr>en_conflict := None\<rparr>" ev cx] reduce_draft_entry_fst [of "e\<lparr>en_conflict := None\<rparr>" ev cx]
    by (simp add: steps_on_def)
  have step: "R e (e\<lparr>en_conflict := None\<rparr>)" by simp
  have "R e x" if "a = Some x" for x using b that trans [OF step] by (simp add: steps_on_def)
  with Some r show ?thesis by (cases a) (simp_all add: reduce_drafting_event_def)
qed

lemma leaves_drafted_event:
  assumes "R e a"
  shows "leaves (R e) (drafted (reduce_drafting_event a ev cx))"
  using steps_on_drafting_event [of a ev cx] trans [OF assms] by (auto simp: leaves_def steps_on_def)

section \<open>The sending half\<close>

lemma R_thread:
  assumes "R e a"
  shows "R e (fst (with_thread a t cx))" "R e (fst (reload a cx))" "R e (fst (load_first a cx))"
    "R e (fst (committed_turn a f cx))" "R e (fst (refusal_extras a f cx))"
  by (rule R_thread_as [OF _ assms], rule with_thread_thread_as reload_thread_as load_first_thread_as
      committed_turn_thread_as refusal_extras_thread_as)+

lemma leaves_claimed_elsewhere: "leaves (R e) (claimed_elsewhere e row th cx)"
proof -
  obtain a fx where t: "with_thread e (dt_status th) cx = (a, fx)" by fastforce
  then have "R e a" using R_thread(1) [of e e "dt_status th" cx] by simp
  with t show ?thesis
    by (simp add: claimed_elsewhere_def Let_def split: option.split)
qed

lemma leaves_committed_first:
  assumes "R e a"
  shows "leaves (R e) (committed_first a s row cx)"
proof -
  define nx where "nx = with_epoch a ((forget_send a s)\<lparr>en_sending := None,
    en_server := Some (case row of Some r \<Rightarrow> r | None \<Rightarrow> (row_of a cx)\<lparr>sd_state := RowActive, sd_content := empty_content,
      sd_claim := None, sd_last_sent := Some (sent_mark s SendFirst cx)\<rparr>), en_thread := ThreadListed\<rparr>)"
  have "R a nx" by (simp add: nx_def)
  then have "R e (fst (reload nx cx))" using R_thread(2) trans assms by blast
  then show ?thesis
    by (cases "reload nx cx") (simp add: committed_first_def Let_def nx_def leaves_dirty)
qed


lemma leaves_consumed_arm: "R e a \<Longrightarrow> leaves (R e) (consumed_arm a s row r cx)"
  by (rule leaves_trans [of e a]) (simp_all add: consumed_arm_def Let_def leaves_dirty)

lemma leaves_released_back: "R e a \<Longrightarrow> leaves (R e) (released_back a s row cx)"
  by (rule leaves_trans [of e a])
     (auto simp: released_back_def Let_def intro!: leaves_dirty)

lemma leaves_read_not_claimed:
  assumes "R e a"
  shows "leaves (R e) (read_not_claimed a s row th cx)"
proof -
  obtain b fx where t: "with_thread a (dt_status th) cx = (b, fx)" by fastforce
  then have b: "R e b" using R_thread(1) [OF assms, of "dt_status th" cx] by simp
  have "leaves (R e) (claimed_elsewhere (hand_over b s row) row th cx)"
    by (rule leaves_trans [OF _ leaves_claimed_elsewhere]) (simp add: b)
  with t b show ?thesis
    by (simp add: read_not_claimed_def leaves_committed_first leaves_consumed_arm leaves_released_back)
qed

lemma leaves_release_now: "R e a \<Longrightarrow> en_sending a = Some s \<Longrightarrow> leaves (R e) (release_now a s error u fresh)"
  by (simp add: release_now_def split: option.split)

lemma leaves_fail_external:
  assumes "R e a"
  shows "leaves (R e) (fail_external a s error u cx)"
proof -
  have "R e (fenced_entry a s error u)" using assms by (simp add: fenced_entry_def)
  then have "leaves (R e) (save_now (fenced_entry a s error u) cx)" by (rule leaves_saved)
  then show ?thesis by (simp add: fail_external_def Let_def leaves_def)
qed

lemma leaves_start_done:
  assumes "R e a"
  shows "leaves (R e) (start_done a s r tr cx)"
proof -
  define nx where "nx = with_epoch a ((forget_send a s)\<lparr>en_sending := None, en_server := Some (started_row a s r cx),
    en_thread := ThreadListed\<rparr>)"
  have "R a nx" by (simp add: nx_def)
  then have "R e nx" using trans assms by blast
  then show ?thesis
    using R_thread(2) [of e nx cx]
    by (simp add: start_done_def Let_def nx_def leaves_dirty split: option.split)
qed

lemma leaves_dismiss_with: "leaves (R e) (dismiss_with e l)"
  by (simp add: dismiss_with_def Let_def split: option.split)

lemma leaves_adopt: "R e a \<Longrightarrow> leaves (R e) (adopt_or_conflict a row cx)"
  by (rule leaves_trans [of e a])
     (auto simp: adopt_or_conflict_def Let_def intro!: leaves_dirty split: option.split)

lemma leaves_claim_answers:
  "\<not> begins (EvClaimResult attempt seq r) \<Longrightarrow> leaves (R e) (claim_result_of e attempt seq r cx)"
  "leaves (R e) (claim_failed e attempt seq f cx)"
proof -
  assume nb: "\<not> begins (EvClaimResult attempt seq r)"
  have "leaves (R e) (claimed_elsewhere a row th cx)" if "R e a" for a row th
    by (rule leaves_trans [OF that leaves_claimed_elsewhere])
  moreover have "R e (fst (with_thread a t cx))" if "R e a" for a t
    by (rule R_thread(1) [OF that])
  ultimately show "leaves (R e) (claim_result_of e attempt seq r cx)"
    using nb by (auto simp: claim_result_of_def Let_def read_as_save_def case_prod_unfold begins_def
        intro!: leaves_drafted_event split: option.split claim_result.splits)
next
  show "leaves (R e) (claim_failed e attempt seq f cx)"
    by (auto simp: claim_failed_def Let_def intro!: leaves_drafted_event split: option.split write_failure.split)
qed

lemma leaves_start_answers:
  "leaves (R e) (start_result_of e attempt seq r cx)" "leaves (R e) (start_failed e attempt seq f cx)"
proof -
  have "leaves (R e) (claimed_elsewhere a row th cx)" if "R e a" for a row th
    by (rule leaves_trans [OF that leaves_claimed_elsewhere])
  then show "leaves (R e) (start_result_of e attempt seq r cx)"
    by (cases "en_sending e"; cases r)
       (simp_all add: start_result_of_def Let_def leaves_start_done leaves_fail_external leaves_release_now
         leaves_read_not_claimed)
  show "leaves (R e) (start_failed e attempt seq f cx)"
    by (simp add: start_failed_def Let_def leaves_fail_external leaves_release_now split: option.split)
qed


lemma leaves_route_failed: "leaves (R e) (route_failed e turn f cx)"
proof -
  have ct: "R e (fst (committed_turn a f cx))" "R e (fst (refusal_extras a f cx))" "R e (fst (reload a cx))"
    if "R e a" for a
    using R_thread [OF that] by blast+
  have sg: "en_sending (fst (refusal_extras e f cx)) = en_sending e"
    by (simp add: thread_as_fields [OF refusal_extras_thread_as])
  have "leaves (R e) (route_failed_external e s f cx)" for s
    using ct(1) [of "e\<lparr>en_sending := None\<rparr>"] ct(2) [of e]
    by (auto simp: route_failed_external_def Let_def case_prod_unfold intro!: leaves_fail_external)
  moreover have "leaves (R e) (route_failed_claimed e s t f cx)" if "en_sending e = Some s" for s t
    using ct(1) [of "e\<lparr>en_sending := Some (s\<lparr>sg_phase := PhaseConsuming\<rparr>)\<rparr>"] ct(2) [of e]
      ct(3) [of "e\<lparr>en_sending := Some (s\<lparr>sg_phase := PhaseReleasing\<rparr>)\<rparr>"] ct(3) [of e] that sg
    by (auto simp: route_failed_claimed_def Let_def case_prod_unfold release_now_def
        split: failure_arm.split option.split)
  ultimately show ?thesis by (simp add: route_failed_def split: option.split)
qed

lemma leaves_consume_result: "leaves (R e) (consume_result_of e token seq retry r cx)"
  using R_thread(1) [of e "acked e seq" _ cx]
  by (auto simp: consume_result_of_def Let_def case_prod_unfold leaves_consumed_arm
      split: option.split consume_result.split) (auto simp: leaves_def with_epoch_def)

lemma leaves_release_answers:
  "leaves (R e) (release_result_of e token seq retry r cx)" "leaves (R e) (release_failed e token retry)"
proof -
  have "leaves (R e) (abandoned_released a token r cx)" if "R e a" for a
    by (rule leaves_trans [OF that])
       (auto simp: abandoned_released_def Let_def split: release_result.split option.split
          intro!: leaves_dirty outside)
  then show "leaves (R e) (release_result_of e token seq retry r cx)"
    by (auto simp: release_result_of_def Let_def release_retry_def leaves_released_back leaves_committed_first
        leaves_consumed_arm leaves_read_not_claimed split: option.split release_result.split)
  show "leaves (R e) (release_failed e token retry)"
    by (simp add: release_failed_def release_retry_def split: option.split)
qed

lemma leaves_listed: "leaves (R e) (listed e seq item cx)"
proof -
  obtain a fx where t: "with_thread e (dt_status (le_thread item)) cx = (a, fx)" by fastforce
  then have a: "R e a" using R_thread(1) [of e e "dt_status (le_thread item)" cx] by simp
  have "R e (fst (reload (with_epoch a (a\<lparr>en_conflict := None, en_server := Some row, en_local := None\<rparr>)) cx))" for row
    by (rule R_thread, rule trans [OF a]) simp
  then have "leaves (R e) (claimed_bar_ends a bar row cx)" for bar row
    by (auto simp: claimed_bar_ends_def Let_def case_prod_unfold a intro!: leaves_adopt)
  moreover have "leaves (R e) (claimed_elsewhere a row th cx)" for row th
    by (rule leaves_trans [OF a leaves_claimed_elsewhere])
  ultimately show ?thesis
    by (auto simp: listed_def Let_def t a leaves_read_not_claimed leaves_adopt split: option.split)
qed

lemma leaves_send_event:
  assumes "\<not> begins ev"
  shows "leaves (R e) (reduce_send_entry e ev cx)"
proof (cases ev)
  case (EvSubmit ready)
  with assms show ?thesis by (simp add: begins_def)
next
  case (EvSubmitExternal words ms cell origin ready)
  with assms show ?thesis by (simp add: begins_def)
next
  case (EvClaimResult attempt seq r)
  with assms show ?thesis by (simp add: leaves_claim_answers)
next
  case (EvHeartbeat token r)
  then show ?thesis
    by (simp add: heartbeat_result_def leaves_read_not_claimed split: option.split touch_result.split)
next
  case (EvDiscardResult base seq r)
  have "leaves (R e) (claimed_elsewhere (acked e seq) row th cx)" for row th
    by (rule leaves_trans [OF _ leaves_claimed_elsewhere]) simp
  with EvDiscardResult show ?thesis
    by (auto simp: discard_result_of_def Let_def split: discard_result.split)
       (auto simp: leaves_def with_epoch_def)
qed (auto simp: leaves_claim_answers leaves_start_answers leaves_route_failed leaves_consume_result leaves_release_answers
      leaves_listed leaves_dismiss_with route_handoff_def consume_failed_def discard_draft_def undo_discard_def Let_def
      split: option.split)

lemma leaves_intercept: "intercept_drafting_event e ev cx = Some t \<Longrightarrow> leaves (R e) t"
proof -
  assume i: "intercept_drafting_event e ev cx = Some t"
  then obtain seq r where "ev = EvSaveResult seq r" and r: "intercept_save e seq r cx = Some t"
    by (auto simp: intercept_drafting_event_def split: entry_event.splits option.splits if_splits)
  have ce: "leaves (R e) (claimed_elsewhere a row th cx)" if "R e a" for a row th
    by (rule leaves_trans [OF that leaves_claimed_elsewhere])
  have "R e (fst (reload (with_epoch e a) cx))" if "R e a" for a
    by (rule R_thread) (simp add: that)
  then have "leaves (R e) (fence_lost e seq f row cx)" for f row
    by (simp add: fence_lost_def Let_def case_prod_unfold)
  with r ce show ?thesis
    by (auto simp: intercept_save_def split: save_result.splits option.splits if_splits)
qed

lemma leaves_both_halves:
  assumes "\<forall>sev. ev = KeySend sev \<longrightarrow> \<not> begins sev"
  shows "leaves (R e) (both_halves e ev cx)"
proof (cases ev)
  case (KeyDraft dev)
  have "leaves (R e) (case intercept_drafting_event e dev cx of Some t \<Rightarrow> t
      | None \<Rightarrow> drafted (reduce_drafting_event e dev (drafting_context cx)))"
    using leaves_intercept [of e dev cx] leaves_drafted_event [of e e dev "drafting_context cx"]
    by (simp split: option.split)
  with KeyDraft show ?thesis by (simp add: both_halves_def leaves_def)
qed (use assms in \<open>simp add: both_halves_def leaves_send_event\<close>)

end

end
