(* ===== verification/Draft_Epoch.thy ===== *)
theory Draft_Epoch
  imports Draft_Steps
begin

text \<open>
  Two things no reduction of a key breaks: the key itself (I2) and the order of its epochs (I6). The
  box changes from outside only together with a new epoch, so an edit typed against an older box is
  dropped. And a key is never claimed and sent at once: what is pending only ever ends.
\<close>

section \<open>Key and epoch\<close>

definition follows :: "draft_entry \<Rightarrow> draft_entry \<Rightarrow> bool" where
  "follows e e' \<longleftrightarrow> en_key e' = en_key e \<and> en_epoch e \<le> en_epoch e'"

lemma follows_refl [simp]: "follows e e"
  by (simp add: follows_def)

lemma follows_trans: "follows a b \<Longrightarrow> follows b c \<Longrightarrow> follows a c"
  by (auto simp: follows_def)

interpretation epochs: entry_order follows
  by unfold_locales (auto simp: follows_def with_epoch_def)

lemma granted_entry:
  "tn_entry (granted e c n cx) = Some e' \<Longrightarrow>
     follows e e' \<and> en_claiming e' = None \<and> en_sending e' = Some (granted_send c cx) \<and> tn_fork (granted e c n cx) = None"
  by (auto simp: granted_def Let_def follows_def split: if_splits)

text \<open>The three events that begin something.\<close>

lemma submit_entry:
  assumes "tn_entry (submit e ready cx) = Some e'"
  shows "follows e e' \<and> en_sending e' = en_sending e \<and> (en_claiming e' = en_claiming e \<or> en_sending e = None)"
  using assms thread_as_fields [OF load_first_thread_as [of e cx]]
  by (auto simp: submit_def Let_def case_prod_unfold follows_def split: if_splits)

lemma submit_external_entry:
  assumes "tn_entry (submit_external e words ms cell origin ready cx) = Some e'"
  shows "follows e e' \<and> en_claiming e' = en_claiming e \<and> (en_sending e' = en_sending e \<or> en_claiming e = None)"
  using assms thread_as_fields [OF load_first_thread_as [of e cx]]
  by (auto simp: submit_external_def Let_def case_prod_unfold follows_def split: if_splits)

lemma claim_granted_entry:
  assumes "tn_entry (claim_result_of e attempt seq (ClaimByYou n c) cx) = Some e'"
  shows "follows e e' \<and> (en_claiming e' = None \<or> en_claiming e' = en_claiming e \<and> en_sending e' = en_sending e)"
  using assms by (auto simp: claim_result_of_def Let_def follows_def dest: granted_entry split: option.splits if_splits)

lemma leaves_both_follows: "leaves (follows e) (both_halves e ev cx)"
proof (cases "\<exists>sev. ev = KeySend sev \<and> begins sev")
  case True
  then obtain sev where ev: "ev = KeySend sev" and b: "begins sev" by blast
  then show ?thesis
    using submit_entry submit_external_entry claim_granted_entry
    by (cases sev) (auto simp: begins_def both_halves_def leaves_def split: claim_result.splits)
qed (use epochs.leaves_both_halves in blast)

section \<open>One claim or send at a time\<close>

definition less_busy :: "draft_entry \<Rightarrow> draft_entry \<Rightarrow> bool" where
  "less_busy e e' \<longleftrightarrow> (en_claiming e' = None \<or> en_claiming e' = en_claiming e) \<and>
     (en_sending e' = None \<or> (\<exists>s p. en_sending e = Some s \<and> en_sending e' = Some (s\<lparr>sg_phase := p\<rparr>)))"

lemma same_phase: "\<exists>p. s = s\<lparr>sg_phase := p\<rparr>"
  by (rule exI [of _ "sg_phase s"]) simp

interpretation busy: entry_order less_busy
proof unfold_locales
  show "less_busy a a" for a using same_phase by (cases "en_sending a") (auto simp: less_busy_def)
  show "less_busy a b \<Longrightarrow> less_busy b c \<Longrightarrow> less_busy a c" for a b c by (auto simp: less_busy_def)
  show "less_busy e a \<Longrightarrow> less_busy e (a\<lparr>en_sending := Some (s\<lparr>sg_phase := p\<rparr>)\<rparr>)" if "en_sending a = Some s" for a e s p
    using that by (auto simp: less_busy_def)
qed (auto simp: less_busy_def with_epoch_def)

definition single :: "draft_entry \<Rightarrow> bool" where
  "single e \<longleftrightarrow> en_claiming e = None \<or> en_sending e = None"

lemma single_both_halves:
  assumes "single e"
  shows "leaves single (both_halves e ev cx)"
proof (cases "\<exists>sev. ev = KeySend sev \<and> begins sev")
  case True
  then obtain sev where ev: "ev = KeySend sev" and b: "begins sev" by blast
  then show ?thesis
    using submit_entry submit_external_entry claim_granted_entry assms
    by (cases sev) (fastforce simp: begins_def both_halves_def leaves_def single_def split: claim_result.splits)+
next
  case False
  then have "leaves (less_busy e) (both_halves e ev cx)" using busy.leaves_both_halves by blast
  then show ?thesis using assms by (auto simp: leaves_def less_busy_def single_def)
qed

section \<open>The composed reduction\<close>

lemma reduce_entry_simps [simp]:
  "tn_entry (reduce_entry e ev cx) = bump_epoch e ev (tn_entry (both_halves e ev cx))"
  "tn_fork (reduce_entry e ev cx) = tn_fork (both_halves e ev cx)"
  "tn_fence (reduce_entry e ev cx) = tn_fence (both_halves e ev cx)"
  by (simp_all add: reduce_entry_def Let_def)

lemma reduce_entry_follows: "leaves (follows e) (reduce_entry e ev cx)"
  using leaves_both_follows [of e ev cx]
  by (cases "tn_entry (both_halves e ev cx)") (auto simp: leaves_def bump_epoch_def follows_def)

lemma reduce_entry_epoch:
  assumes "tn_entry (reduce_entry e ev cx) = Some e'" "\<not> is_edit ev" "shown_content e' \<noteq> shown_content e"
  shows "en_epoch e < en_epoch e'"
proof -
  obtain a where a: "tn_entry (both_halves e ev cx) = Some a"
    using assms(1) by (cases "tn_entry (both_halves e ev cx)") (auto simp: bump_epoch_def)
  have "en_epoch e \<le> en_epoch a" using leaves_both_follows [of e ev cx] a by (simp add: leaves_def follows_def)
  moreover have "shown_content (a\<lparr>en_epoch := n\<rparr>) = shown_content a" for n by (rule shown_cong) simp_all
  ultimately show ?thesis using assms a by (auto simp: bump_epoch_def split: if_splits)
qed


section \<open>An edit of an older box\<close>

text \<open>The entry after a run of events, each reduced in the context of its moment; \<open>None\<close> once it is removed.\<close>

fun key_run :: "draft_entry \<Rightarrow> (key_event \<times> send_context) list \<Rightarrow> draft_entry option" where
  "key_run e [] = Some e"
| "key_run e ((ev, cx) # evs) =
     (case tn_entry (reduce_entry e ev cx) of None \<Rightarrow> None | Some e' \<Rightarrow> key_run e' evs)"

lemma stale_edit_dropped:
  assumes "n \<noteq> en_epoch e"
  shows "tn_entry (reduce_entry e (KeyDraft (EvEdit n c)) cx) = Some e \<and>
    tn_effects (reduce_entry e (KeyDraft (EvEdit n c)) cx) = []"
proof -
  have u: "reduce_draft_entry a (EvEdit n c) cx' = (Some a, [])" if "en_epoch a = en_epoch e" for a cx'
    using assms that by (simp add: reduce_draft_entry_def reduce_edit_def unchanged_def)
  have "reduce_drafting_event e (EvEdit n c) cx' = (Some e, [])" for cx'
    by (cases e) (auto simp: reduce_drafting_event_def open_card_def u split: option.split)
  then have "both_halves e (KeyDraft (EvEdit n c)) cx = after_drafting e (drafted (Some e, []))"
    by (simp add: both_halves_def intercept_drafting_event_def)
  then show ?thesis
    by (auto simp: reduce_entry_def Let_def bump_epoch_def is_edit_def after_drafting_def split: option.split)
qed

lemma key_run_follows: "key_run e evs = Some e' \<Longrightarrow> follows e e'"
proof (induction evs arbitrary: e)
  case (Cons p evs)
  obtain ev cx where p: "p = (ev, cx)" by fastforce
  with Cons.prems obtain a where a: "tn_entry (reduce_entry e ev cx) = Some a" "key_run a evs = Some e'"
    by (cases "tn_entry (reduce_entry e ev cx)") auto
  then have "follows e a" using reduce_entry_follows [of e ev cx] by (simp add: leaves_def del: reduce_entry_simps)
  with Cons.IH [OF a(2)] follows_trans show ?case by blast
qed simp

lemma key_run_shown:
  assumes "key_run e evs = Some e'" "\<forall>p\<in>set evs. \<not> is_edit (fst p)"
  shows "shown_content e' = shown_content e \<or> en_epoch e < en_epoch e'"
  using assms
proof (induction evs arbitrary: e)
  case (Cons p evs)
  obtain ev cx where p: "p = (ev, cx)" by fastforce
  with Cons.prems obtain a where a: "tn_entry (reduce_entry e ev cx) = Some a" "key_run a evs = Some e'"
    by (cases "tn_entry (reduce_entry e ev cx)") auto
  have "follows e a" using reduce_entry_follows [of e ev cx] a by (simp add: leaves_def del: reduce_entry_simps)
  moreover have "shown_content a = shown_content e \<or> en_epoch e < en_epoch a"
    using reduce_entry_epoch [OF a(1)] Cons.prems(2) p by auto
  moreover have "follows a e'" using key_run_follows a(2) .
  moreover have "shown_content e' = shown_content a \<or> en_epoch a < en_epoch e'"
    using Cons.IH [OF a(2)] Cons.prems(2) by simp
  ultimately show ?case by (auto simp: follows_def)
qed simp

text \<open>
  C19. A stale editor update is never applied (I6). The editor is seeded with what the box showed at an
  epoch. Whatever events the key then goes through, in any contexts, its key stays and its epochs never
  go back; and when the box came to show something else, other than by the user's own edits, an edit
  stamped with the old epoch changes nothing and asks for nothing: so no edit is ever applied to a box
  other than the one it was typed into.
\<close>

theorem stale_edit_never_applied:
  assumes "key_run e evs = Some e'" "\<forall>p\<in>set evs. \<not> is_edit (fst p)" "shown_content e' \<noteq> shown_content e"
  shows "en_key e' = en_key e \<and> en_epoch e < en_epoch e' \<and>
    tn_entry (reduce_entry e' (KeyDraft (EvEdit (en_epoch e) c)) cx) = Some e' \<and>
    tn_effects (reduce_entry e' (KeyDraft (EvEdit (en_epoch e) c)) cx) = []"
proof -
  have "en_key e' = en_key e" using key_run_follows [OF assms(1)] by (simp add: follows_def)
  moreover have lt: "en_epoch e < en_epoch e'" using key_run_shown [OF assms(1,2)] assms(3) by blast
  moreover have "en_epoch e \<noteq> en_epoch e'" using lt by simp
  ultimately show ?thesis using stale_edit_dropped by blast
qed

definition sample_draft_key :: draft_key where
  "sample_draft_key = \<lparr>ds_org = ''o1'', ds_project = None, dk_conversation = ''c1''\<rparr>"

definition sample_fresh :: fresh_ids where
  "sample_fresh = \<lparr>fr_attempt = ''a1'', fr_token = ''k1'', fr_turn = ''t1'', fr_conversation = ''c2''\<rparr>"

definition sample_context :: send_context where
  "sample_context = \<lparr>cx_page_org = Some ''o1'', cx_tab_id = ''tab1'', cx_active = True,
     cx_now = ''2026-01-02T03:04:05.678Z'', cx_fresh = sample_fresh, cx_mounted = True, cx_fence = None\<rparr>"

definition sample_words :: "string \<Rightarrow> draft_content" where
  "sample_words s = \<lparr>dc_text = units s, dc_mentions = [], dc_artifacts = [], dc_cell = None\<rparr>"

definition sample_row :: "int \<Rightarrow> string \<Rightarrow> server_draft" where
  "sample_row n s = \<lparr>sd_org = ''o1'', sd_project = None, sd_conversation = ''c1'', sd_revision = n, sd_state = RowActive,
     sd_content = sample_words s, sd_claim = None, sd_failed_send = None, sd_last_sent = None, sd_thread_seen = False,
     sd_title = None, sd_last_writer = Some ''tab2'', sd_discarded_at = None, sd_updated_at = ''2026-01-02T03:04:00.000Z''\<rparr>"

definition sample_draft :: draft_entry where
  "sample_draft = (new_entry sample_draft_key ThreadNone)\<lparr>en_server := Some (sample_row 3 ''old'')\<rparr>"

definition sample_listing :: "(key_event \<times> send_context) list" where
  "sample_listing = [(KeySend (EvListed 7 \<lparr>le_row = sample_row 4 ''new'',
     le_thread = \<lparr>dt_status = ThreadNone, dt_first_turn = None, dt_has_turn = False\<rparr>, le_title = None\<rparr>), sample_context)]"

text \<open>Another tab's row is adopted; the edit typed against the old box is dropped.\<close>

theorem stale_edit_never_applied_witness:
  "\<exists>e'. key_run sample_draft sample_listing = Some e' \<and> shown_content e' = sample_words ''new'' \<and>
     tn_entry (reduce_entry e' (KeyDraft (EvEdit 0 \<lparr>ec_text = [0x78], ec_mentions = []\<rparr>)) sample_context) = Some e'"
proof -
  have run: "map_option shown_content (key_run sample_draft sample_listing) = Some (sample_words ''new'')"
    "shown_content sample_draft \<noteq> sample_words ''new''" "en_epoch sample_draft = 0"
    "\<forall>p\<in>set sample_listing. \<not> is_edit (fst p)"
    by code_simp+
  then obtain e' where e': "key_run sample_draft sample_listing = Some e'" "shown_content e' = sample_words ''new''"
    by auto
  moreover have "shown_content e' \<noteq> shown_content sample_draft" using e' run by simp
  ultimately show ?thesis
    using stale_edit_never_applied [OF e'(1) run(4)] run(3) by metis
qed

end
