(* ===== verification/Draft_Words.thy ===== *)
theory Draft_Words
  imports Draft_Epoch
begin

text \<open>
  Words are never lost (I3, I5): what becomes of the words in the box, and of the words of a claim or
  a send, on every event of the composed reducer. A transition keeps words when the key's next entry
  holds them (in the box, in a claim, in a send, or in the row the server acknowledged) or when its
  fork carries them to a new key.
\<close>

section \<open>Holding words\<close>

definition entry_holds :: "utf16 \<Rightarrow> draft_entry \<Rightarrow> bool" where
  "entry_holds w e \<longleftrightarrow>
     (\<exists>l. en_local e = Some l \<and> sublist w (dc_text l)) \<or>
     (\<exists>c. en_claiming e = Some c \<and> sublist w (dc_text (cg_content c))) \<or>
     (\<exists>s. en_sending e = Some s \<and> sublist w (sg_text s)) \<or>
     (\<exists>r. en_server e = Some r \<and> sublist w (dc_text (sd_content r)))"

text \<open>With a fork, both the fork and the entry left when the store cannot fork hold the words.\<close>

definition keeps_words :: "utf16 \<Rightarrow> send_transition \<Rightarrow> bool" where
  "keeps_words w t \<longleftrightarrow> (\<exists>e. tn_entry t = Some e \<and> entry_holds w e) \<and>
     (case tn_fork t of None \<Rightarrow> True | Some f \<Rightarrow> sublist w (dc_text (fk_content f)))"

lemma holds_local: "en_local e = Some l \<Longrightarrow> sublist w (dc_text l) \<Longrightarrow> entry_holds w e"
  by (auto simp: entry_holds_def)

lemma holds_claiming: "en_claiming e = Some c \<Longrightarrow> sublist w (dc_text (cg_content c)) \<Longrightarrow> entry_holds w e"
  by (auto simp: entry_holds_def)

lemma holds_sending: "en_sending e = Some s \<Longrightarrow> sublist w (sg_text s) \<Longrightarrow> entry_holds w e"
  by (auto simp: entry_holds_def)

lemma holds_server: "en_server e = Some r \<Longrightarrow> sublist w (dc_text (sd_content r)) \<Longrightarrow> entry_holds w e"
  by (auto simp: entry_holds_def)

lemma holds_saved_as: "saved_as a b \<Longrightarrow> entry_holds w b = entry_holds w a"
  by (simp add: entry_holds_def saved_as_fields)

lemma holds_thread_as: "thread_as a b \<Longrightarrow> entry_holds w b = entry_holds w a"
  by (simp add: entry_holds_def thread_as_fields)

lemma holds_epoch [simp]: "entry_holds w (e\<lparr>en_epoch := n\<rparr>) = entry_holds w e" "entry_holds w (with_epoch b e) = entry_holds w e"
  by (simp_all add: entry_holds_def)

lemma keeps_simps [simp]:
  "keeps_words w (plain e fx) = entry_holds w e" "keeps_words w (no_change e) = entry_holds w e"
  "keeps_words w (prepend fx t) = keeps_words w t" "keeps_words w (t\<lparr>tn_effects := fx\<rparr>) = keeps_words w t"
  "keeps_words w (t\<lparr>tn_fence := fe\<rparr>) = keeps_words w t"
  "keeps_words w (fork_words e c d n) = sublist w (dc_text c)"
  by (auto simp: keeps_words_def entry_holds_def)

lemma keeps_save_now: "keeps_words w (save_now e cx) = entry_holds w e"
  using save_now_saved_as [of e cx] by (auto simp: keeps_words_def holds_saved_as)

lemma keeps_save_if_dirty [simp]: "keeps_words w (save_if_dirty t cx) = keeps_words w t"
proof (cases "tn_entry t")
  case None
  then show ?thesis by (simp add: save_if_dirty_def)
next
  case (Some e)
  then show ?thesis using save_if_dirty_saved_as [OF Some, of cx] by (auto simp: keeps_words_def holds_saved_as)
qed

lemma keeps_drafted: "keeps_words w (drafted t) \<longleftrightarrow> (\<exists>e. fst t = Some e \<and> entry_holds w e)"
  by (simp add: keeps_words_def)

lemma append_content_head: "sublist (dc_text h) (dc_text (append_content h x))"
  by (auto simp: append_content_def Let_def split: option.split)

lemma append_content_tail: "sublist (dc_text l) (dc_text (append_content h (Some l)))"
  using sublist_append_leftI [of "dc_text l" "dc_text h @ [0xA, 0xA]"]
  by (auto simp: append_content_def Let_def is_empty_content_def)

lemma append_content_mono: "sublist w (dc_text h) \<Longrightarrow> sublist w (dc_text (append_content h x))"
  using append_content_head sublist_order.order_trans by blast

lemma sending_words_send: "sublist (sg_text s) (dc_text (sending_words e s))"
  by (simp add: sending_words_def append_content_mono)

lemma sending_words_local: "en_local e = Some l \<Longrightarrow> sublist (dc_text l) (dc_text (sending_words e s))"
  by (simp add: sending_words_def append_content_tail)

lemma box_merged_prompt: "sublist (sg_text s) (dc_text (box_merged e s))"
  by (simp add: box_merged_def append_content_mono)

lemma box_merged_local: "en_local e = Some l \<Longrightarrow> sublist (dc_text l) (dc_text (box_merged e s))"
  by (simp add: box_merged_def box_before_def append_content_tail)

section \<open>Steps that do not touch the words\<close>

lemma keeps_claimed_elsewhere:
  assumes "en_local e = Some l" "sublist w (dc_text l)"
  shows "keeps_words w (claimed_elsewhere e row th cx)"
proof -
  obtain a fx where t: "with_thread e (dt_status th) cx = (a, fx)" by fastforce
  then have "en_local a = Some l" using with_thread_thread_as [of e "dt_status th" cx] assms by (simp add: thread_as_fields)
  with t assms show ?thesis
    by (auto simp: claimed_elsewhere_def Let_def split: option.split intro: holds_local)
qed

lemma keeps_consumed_arm:
  assumes "en_local e = Some l" "sublist w (dc_text l)"
  shows "keeps_words w (consumed_arm e s row r cx)"
  using assms by (simp add: consumed_arm_def Let_def entry_holds_def)

lemma keeps_committed_first:
  assumes "en_local e = Some l" "sublist w (dc_text l)"
  shows "keeps_words w (committed_first e s row cx)"
  using assms by (auto simp: committed_first_def Let_def case_prod_unfold reload_fst entry_holds_def)

lemma keeps_start_done:
  assumes "en_local e = Some l" "sublist w (dc_text l)"
  shows "keeps_words w (start_done e s r tr cx)"
  using assms by (auto simp: start_done_def Let_def reload_fst entry_holds_def split: option.split)

lemma keeps_fail_external:
  assumes "sublist w (dc_text (box_merged e s))"
  shows "keeps_words w (fail_external e s error u cx)"
proof -
  have "keeps_words w (save_now (fenced_entry e s error u) cx)"
    unfolding keeps_save_now using assms by (intro holds_local [of _ "box_merged e s"]) (simp_all add: fenced_entry_def)
  then show ?thesis by (simp add: fail_external_def Let_def keeps_words_def)
qed

lemma keeps_release_now: "entry_holds w (e\<lparr>en_sending := Some (s\<lparr>sg_phase := PhaseReleasing\<rparr>)\<rparr>) \<Longrightarrow> sg_token s \<noteq> None \<Longrightarrow>
    keeps_words w (release_now e s error u fresh)"
  by (auto simp: release_now_def split: option.split)

lemma keeps_released_back:
  assumes "en_local e = Some l" "sublist w (dc_text l)"
  shows "keeps_words w (released_back e s row cx)"
proof -
  have tl: "sublist w (dc_text (append_content h (Some l)))" for h
    using append_content_tail assms(2) sublist_order.order_trans by blast
  have "sublist w (dc_text (sending_words (forget_send e s) s))"
    using sending_words_local [of "forget_send e s" l s] assms sublist_order.order_trans by auto
  with assms tl show ?thesis by (auto simp: released_back_def Let_def entry_holds_def)
qed

lemma keeps_released_back_send: "keeps_words (sg_text s) (released_back e s row cx)"
  using append_content_head [of "\<lparr>dc_text = sg_text s, dc_mentions = sg_mentions s,
      dc_artifacts = dc_artifacts (sd_content row), dc_cell = sg_cell s\<rparr>" "en_local e"]
  by (auto simp: released_back_def Let_def entry_holds_def sending_words_send)

lemma hand_over_local:
  assumes "en_local e = Some l" "sublist w (dc_text l)"
  shows "\<exists>l'. en_local (hand_over e s row) = Some l' \<and> sublist w (dc_text l')"
  using assms sending_words_local [of "forget_send e s" l s] sublist_order.order_trans
  by (auto simp: hand_over_def Let_def)

lemma keeps_read_not_claimed:
  assumes "en_local e = Some l" "sublist w (dc_text l)"
  shows "keeps_words w (read_not_claimed e s row th cx)"
proof -
  obtain a fx where t: "with_thread e (dt_status th) cx = (a, fx)" by fastforce
  then have a: "en_local a = Some l" using with_thread_thread_as [of e "dt_status th" cx] assms by (simp add: thread_as_fields)
  obtain l' where "en_local (hand_over a s row) = Some l'" "sublist w (dc_text l')"
    using hand_over_local [OF a assms(2)] by blast
  then have "keeps_words w (claimed_elsewhere (hand_over a s row) row th cx)" by (rule keeps_claimed_elsewhere)
  with t a assms(2) show ?thesis
    by (simp add: read_not_claimed_def keeps_consumed_arm keeps_committed_first keeps_released_back)
qed

lemma keeps_adopt:
  assumes "en_local e = Some l" "sublist w (dc_text l)"
  shows "keeps_words w (adopt_or_conflict e row cx)"
  using assms by (auto simp: adopt_or_conflict_def Let_def entry_holds_def)

lemma holds_thread_local:
  assumes "en_local e = Some l" "sublist w (dc_text l)"
  shows "entry_holds w (fst (with_thread e t cx))" "entry_holds w (fst (reload e cx))" "entry_holds w (fst (load_first e cx))"
    "entry_holds w (fst (committed_turn e f cx))" "entry_holds w (fst (refusal_extras e f cx))"
  using holds_local [OF assms]
  by (simp_all add: holds_thread_as [OF with_thread_thread_as] holds_thread_as [OF reload_thread_as]
      holds_thread_as [OF load_first_thread_as] holds_thread_as [OF committed_turn_thread_as]
      holds_thread_as [OF refusal_extras_thread_as])

lemma keeps_dismiss_with: "sublist w (dc_text l) \<Longrightarrow> keeps_words w (dismiss_with e (Some l))"
  by (auto simp: dismiss_with_def Let_def entry_holds_def split: option.split)


section \<open>The drafting half\<close>

definition still_holds :: "utf16 \<Rightarrow> entry_transition \<Rightarrow> bool" where
  "still_holds w t \<longleftrightarrow> (\<exists>e. fst t = Some e \<and> entry_holds w e)"

lemma still_holds_simps [simp]:
  "still_holds w (unchanged e) = entry_holds w e" "still_holds w (Some e, fx) = entry_holds w e" "\<not> still_holds w (None, fx)"
  by (simp_all add: still_holds_def)

lemma holds_save_fields [simp]:
  "entry_holds w (e\<lparr>en_save := sv\<rparr>) = entry_holds w e" "entry_holds w (e\<lparr>en_blocked_by := bl\<rparr>) = entry_holds w e"
  "entry_holds w (e\<lparr>en_inflight := fl\<rparr>) = entry_holds w e" "entry_holds w (e\<lparr>en_thread := th\<rparr>) = entry_holds w e"
  "entry_holds w (e\<lparr>en_conflict := c\<rparr>) = entry_holds w e" "entry_holds w (e\<lparr>en_abandoned := ab\<rparr>) = entry_holds w e"
  "entry_holds w (e\<lparr>en_transcript := tr\<rparr>) = entry_holds w e" "entry_holds w (e\<lparr>en_ack_seq := sq\<rparr>) = entry_holds w e"
  "entry_holds w (e\<lparr>en_pending_failed_send := p\<rparr>) = entry_holds w e" "entry_holds w (e\<lparr>en_credential_ack := b\<rparr>) = entry_holds w e"
  "entry_holds w (e\<lparr>en_transient_failures := tf\<rparr>) = entry_holds w e" "entry_holds w (e\<lparr>en_error_failures := ef\<rparr>) = entry_holds w e"
  "entry_holds w (settle e sq) = entry_holds w e" "entry_holds w (answered e) = entry_holds w e"
  "entry_holds w (acked e sq) = entry_holds w e" "entry_holds w (forget e tk) = entry_holds w e"
  "entry_holds w (forget_send e s) = entry_holds w e" "entry_holds w (as_saving e) = entry_holds w e"
  "entry_holds w (settled_save e sq) = entry_holds w e"
  by (simp_all add: entry_holds_def)

lemma still_holds_try_save [simp]: "still_holds w (try_save e cx) = entry_holds w e"
  using try_save_saved_as [of e cx] by (auto simp: still_holds_def holds_saved_as)

lemma still_holds_enter [simp]: "still_holds w (enter_unsaved e sv r) = entry_holds w e"
  by (simp add: enter_unsaved_def)

lemma still_holds_retry [simp]:
  "still_holds w (transient_failure e) = entry_holds w e" "still_holds w (error_failure e) = entry_holds w e"
  by (simp_all add: transient_failure_def error_failure_def retry_after_def Let_def enter_unsaved_def)

lemma still_holds_refusal [simp]: "still_holds w (reduce_refusal e r) = entry_holds w e"
  by (cases r) simp_all

lemma still_holds_gone:
  "en_local e \<noteq> None \<or> en_claiming e \<noteq> None \<or> en_sending e \<noteq> None \<Longrightarrow> still_holds w (reduce_gone e th cx) = entry_holds w e"
  by (auto simp: reduce_gone_def Let_def)

text \<open>The words of the box, or of a claim, or of a send, whichever the entry holds.\<close>

definition box_holds :: "utf16 \<Rightarrow> draft_entry \<Rightarrow> bool" where
  "box_holds w e \<longleftrightarrow> (\<exists>l. en_local e = Some l \<and> sublist w (dc_text l)) \<or>
     (\<exists>c. en_claiming e = Some c \<and> sublist w (dc_text (cg_content c))) \<or>
     (\<exists>s. en_sending e = Some s \<and> sublist w (sg_text s))"

lemma box_holds_entry: "box_holds w e \<Longrightarrow> entry_holds w e"
  by (auto simp: box_holds_def entry_holds_def)

lemma box_holds_some: "box_holds w e \<Longrightarrow> en_local e \<noteq> None \<or> en_claiming e \<noteq> None \<or> en_sending e \<noteq> None"
  by (auto simp: box_holds_def)

lemma box_holds_cong:
  assumes "en_local a = en_local b" "en_claiming a = en_claiming b" "en_sending a = en_sending b"
  shows "box_holds w a = box_holds w b"
  by (simp add: box_holds_def assms)

lemma holds_server_update:
  "box_holds w e \<Longrightarrow> entry_holds w (e\<lparr>en_server := r\<rparr>)"
  "box_holds w e \<Longrightarrow> entry_holds w (e\<lparr>en_epoch := n, en_server := r\<rparr>)"
  by (auto simp: box_holds_def entry_holds_def)

lemma holds_local_saved:
  assumes "box_holds w e" "en_local e = Some (sd_content r)"
  shows "entry_holds w (e\<lparr>en_server := Some r, en_local := None\<rparr>)"
  using assms by (auto simp: box_holds_def entry_holds_def)

lemma still_holds_conflict: "box_holds w e \<Longrightarrow> still_holds w (reduce_conflict e row cx)"
  by (auto simp: reduce_conflict_def holds_local_saved holds_server_update box_holds_entry split: option.split)

lemma still_holds_save_result:
  assumes "box_holds w e"
  shows "still_holds w (reduce_save_result e seq r cx)"
proof -
  have b: "box_holds w (answered (settle e seq))" "box_holds w ((answered (settle e seq))\<lparr>en_thread := th\<rparr>)"
    "box_holds w (settle e seq)" for th
    using assms by (simp_all add: box_holds_def)
  have k: "en_local (settle e seq) \<noteq> None \<or> en_claiming (settle e seq) \<noteq> None \<or> en_sending (settle e seq) \<noteq> None"
    using box_holds_some [OF b(3)] .
  have s: "entry_holds w ((answered (settle e seq))\<lparr>en_server := Some x, en_pending_failed_send := p\<rparr>)" for x p
    using holds_server_update(1) [OF b(1)] by simp
  have a: "entry_holds w ((answered (settle e seq))\<lparr>en_server := Some x, en_pending_failed_send := p, en_local := None\<rparr>)"
    if "en_local e = Some (sd_content x)" for x p
    using assms that by (auto simp: box_holds_def entry_holds_def)
  have "sd_content (acknowledged_row e c n f cx) = c" for c n f by (simp add: acknowledged_row_def Let_def)
  then show ?thesis
    using assms b s a still_holds_gone [OF k, of w] box_holds_entry [OF assms]
    by (auto simp: reduce_save_result_def Let_def still_holds_conflict split: option.split save_result.split)
qed

lemma still_holds_restore_result:
  assumes "box_holds w e"
  shows "still_holds w (reduce_restore_result e seq r cx)"
proof -
  have b: "box_holds w (answered (settle e seq))" "box_holds w ((answered (settle e seq))\<lparr>en_thread := th\<rparr>)"
    "box_holds w (settle e seq)" for th
    using assms by (simp_all add: box_holds_def)
  have k: "en_local (settle e seq) \<noteq> None \<or> en_claiming (settle e seq) \<noteq> None \<or> en_sending (settle e seq) \<noteq> None"
    using box_holds_some [OF b(3)] .
  show ?thesis
    using b holds_server_update(1) [OF b(1)] still_holds_gone [OF k, of w] box_holds_entry [OF assms]
    by (auto simp: reduce_restore_result_def Let_def still_holds_conflict split: option.split restore_result.split)
qed

fun drops_in_drafting :: "entry_event \<Rightarrow> bool" where
  "drops_in_drafting (EvEdit _ _) = True"
| "drops_in_drafting EvUseTheirs = True"
| "drops_in_drafting EvLetGo = True"
| "drops_in_drafting _ = False"

lemma still_holds_event:
  assumes "box_holds w e" "\<not> drops_in_drafting ev"
  shows "still_holds w (reduce_entry_event e ev cx)"
proof (cases ev)
  case (EvNotListed seq)
  then show ?thesis
    using box_holds_some [OF assms(1)] box_holds_entry [OF assms(1)] by (auto simp: reduce_not_listed_def)
qed (use assms in \<open>auto simp: reduce_save_trigger_def still_holds_save_result still_holds_restore_result
      reduce_conflict_restore_def Let_def holds_server_update box_holds_entry split: option.split unblock_reason.split\<close>)

lemma still_holds_use_theirs:
  assumes "en_claiming e \<noteq> None \<or> en_sending e \<noteq> None"
    "\<And>a. en_claiming a = en_claiming e \<Longrightarrow> en_sending a = en_sending e \<Longrightarrow> entry_holds w a"
  shows "still_holds w (reduce_entry_event e EvUseTheirs cx)" "still_holds w (reduce_edit e n c)"
  using assms(2) by (auto simp: reduce_edit_def Let_def split: option.split)

lemma still_holds_drafting_event:
  assumes "\<And>a. en_local a = en_local e \<Longrightarrow> en_claiming a = en_claiming e \<Longrightarrow> en_sending a = en_sending e \<Longrightarrow>
      still_holds w (reduce_entry_event a ev cx)"
  shows "still_holds w (reduce_drafting_event e ev cx)"
proof (cases "open_card e")
  case None
  then show ?thesis
    using assms [of e] by (simp add: reduce_drafting_event_def still_holds_def reduce_draft_entry_fst)
next
  case (Some bar)
  obtain a fx where r: "reduce_draft_entry (e\<lparr>en_conflict := None\<rparr>) ev cx = (a, fx)" by fastforce
  then have "still_holds w (a, fx)"
    using assms [of "e\<lparr>en_conflict := None\<rparr>"] reduce_draft_entry_fst [of "e\<lparr>en_conflict := None\<rparr>" ev cx]
    by (simp add: still_holds_def)
  with Some r show ?thesis by (cases a) (simp_all add: reduce_drafting_event_def)
qed

lemma keeps_drafted_event:
  assumes "box_holds w e" "\<not> drops_in_drafting ev"
  shows "keeps_words w (drafted (reduce_drafting_event e ev cx))"
proof -
  have "still_holds w (reduce_drafting_event e ev cx)"
    by (rule still_holds_drafting_event, rule still_holds_event [OF _ assms(2)])
       (use assms(1) in \<open>simp add: box_holds_def\<close>)
  then show ?thesis by (simp add: keeps_drafted still_holds_def)
qed


section \<open>The words in the box\<close>

text \<open>
  The events that may remove the words of the box: the user's own edit and choices (Use theirs, Let it
  go, Discard), a failed prompt that turned out to be stored (untouched since it was put back), and a
  draft that turned out to be sent from another tab (untouched since it was frozen there).
\<close>

definition drops_box :: "draft_entry \<Rightarrow> key_event \<Rightarrow> send_context \<Rightarrow> bool" where
  "drops_box e ev cx \<longleftrightarrow>
     (case ev of
        KeyDraft (EvEdit _ _) \<Rightarrow> True
      | KeyDraft EvUseTheirs \<Rightarrow> True
      | KeyDraft EvLetGo \<Rightarrow> True
      | KeyDraft (EvSaveResult _ (SaveConflict row th)) \<Rightarrow>
          (case cx_fence cx of None \<Rightarrow> False
           | Some f \<Rightarrow> dt_first_turn th = Some (fe_turn f) \<and> en_local e = Some (fe_merged f))
      | KeySend (EvDiscardResult _ _ (DiscardDone _)) \<Rightarrow> True
      | KeySend (EvDiscardResult _ _ (DiscardGone _)) \<Rightarrow> True
      | KeySend (EvListed _ item) \<Rightarrow>
          (case en_conflict e of None \<Rightarrow> False
           | Some bar \<Rightarrow> cf_kind bar = CkClaimed \<and>
               (case cf_row bar of None \<Rightarrow> False
                | Some r \<Rightarrow> sd_claim r \<noteq> None \<and>
                    map_option ls_turn (sd_last_sent (le_row item)) = map_option cl_turn (sd_claim r) \<and>
                    en_local e = Some (sd_content r)))
      | _ \<Rightarrow> False)"

lemma box_holds_local: "en_local e = Some l \<Longrightarrow> box_holds (dc_text l) e"
  by (auto simp: box_holds_def)

lemma keeps_route_failed:
  assumes "en_local e = Some l"
  shows "keeps_words (dc_text l) (route_failed e turn f cx)"
proof -
  have h: "entry_holds (dc_text l) (fst (committed_turn a f cx))" "entry_holds (dc_text l) (fst (refusal_extras a f cx))"
    "entry_holds (dc_text l) (fst (reload a cx))" "en_local (fst (refusal_extras a f cx)) = Some l" if "en_local a = Some l" for a
    using holds_thread_local [OF that, of "dc_text l"] that refusal_extras_thread_as [of a f cx] by (simp_all add: thread_as_fields)
  have "keeps_words (dc_text l) (route_failed_external e s f cx)" for s
    using h [of "e\<lparr>en_sending := None\<rparr>"] h [OF assms] assms
    by (auto simp: route_failed_external_def Let_def case_prod_unfold sending_words_local box_merged_local
        intro!: keeps_fail_external)
  moreover have "keeps_words (dc_text l) (route_failed_claimed e s t f cx)" if "sg_token s = Some t" for s t
    using h [of "e\<lparr>en_sending := Some (s\<lparr>sg_phase := PhaseConsuming\<rparr>)\<rparr>"] h [OF assms]
      h [of "e\<lparr>en_sending := Some (s\<lparr>sg_phase := PhaseReleasing\<rparr>)\<rparr>"] assms that
    by (auto simp: route_failed_claimed_def Let_def case_prod_unfold release_now_def entry_holds_def
        split: failure_arm.split)
  ultimately show ?thesis
    using holds_local [OF assms] by (auto simp: route_failed_def split: option.split)
qed

lemma keeps_start_answers:
  assumes "en_local e = Some l"
  shows "keeps_words (dc_text l) (start_result_of e attempt seq r cx)"
    "keeps_words (dc_text l) (start_failed e attempt seq f cx)"
proof -
  have h: "entry_holds (dc_text l) e" using holds_local [OF assms] by simp
  have r: "keeps_words (dc_text l) (release_now a s er u fr)" if "en_local a = Some l" "sg_token s \<noteq> None" for a s er u fr
    by (rule keeps_release_now [OF _ that(2)]) (use that(1) in \<open>simp add: entry_holds_def\<close>)
  have x: "keeps_words (dc_text l) (fail_external a s er u cx)" if "en_local a = Some l" for a s er u
    by (rule keeps_fail_external [OF box_merged_local [OF that]])
  have a: "en_local (acked e seq) = Some l" using assms by simp
  have c: "keeps_words (dc_text l) (claimed_elsewhere (hand_over (acked e seq) s row) row th cx)" for s row th
    using hand_over_local [OF a, of "dc_text l" s row] keeps_claimed_elsewhere by auto
  have f: "sublist (dc_text l) (dc_text (sending_words (acked e seq) s))" for s by (rule sending_words_local [OF a])
  show "keeps_words (dc_text l) (start_result_of e attempt seq r cx)"
    by (cases "en_sending e"; cases r)
       (simp_all add: start_result_of_def Let_def h r [OF a] x [OF a] c f
         keeps_start_done [OF a] keeps_read_not_claimed [OF a])
  show "keeps_words (dc_text l) (start_failed e attempt seq f cx)"
    using h r [OF assms] x [OF assms] by (auto simp: start_failed_def Let_def split: option.split)
qed

lemma keeps_consume_result:
  assumes "en_local e = Some l"
  shows "keeps_words (dc_text l) (consume_result_of e token seq retry r cx)"
proof -
  have a: "en_local (acked e seq) = Some l" using assms by simp
  have t: "en_local (fst (with_thread (acked e seq) th cx)) = Some l" for th
    using with_thread_thread_as [of "acked e seq" th cx] a by (simp add: thread_as_fields)
  show ?thesis
    using holds_local [OF assms, of "dc_text l"] assms t keeps_consumed_arm [OF a, of "dc_text l"]
    by (auto simp: consume_result_of_def Let_def case_prod_unfold keeps_consumed_arm
        split: option.split consume_result.split) (auto simp: entry_holds_def)
qed

lemma keeps_release_answers:
  assumes "en_local e = Some l"
  shows "keeps_words (dc_text l) (release_result_of e token seq retry r cx)"
    "keeps_words (dc_text l) (release_failed e token retry)"
proof -
  have a: "en_local (acked e seq) = Some l" using assms by simp
  have h: "entry_holds (dc_text l) e" using holds_local [OF assms] by simp
  have f: "sublist (dc_text l) (dc_text (sending_words (acked e seq) s))" for s by (rule sending_words_local [OF a])
  have "keeps_words (dc_text l) (abandoned_released (acked e seq) token r cx)"
    using h a by (auto simp: abandoned_released_def Let_def split: release_result.split option.split)
      (auto simp: entry_holds_def)
  then show "keeps_words (dc_text l) (release_result_of e token seq retry r cx)"
    using h by (auto simp: release_result_of_def Let_def release_retry_def f keeps_released_back [OF a] keeps_committed_first [OF a]
        keeps_consumed_arm [OF a] keeps_read_not_claimed [OF a] split: option.split release_result.split)
  show "keeps_words (dc_text l) (release_failed e token retry)"
    using h by (auto simp: release_failed_def release_retry_def split: option.split)
qed


lemma keeps_listed:
  assumes "en_local e = Some l" "\<not> drops_box e (KeySend (EvListed seq item)) cx"
  shows "keeps_words (dc_text l) (listed e seq item cx)"
proof -
  obtain a fx where t: "with_thread e (dt_status (le_thread item)) cx = (a, fx)" by fastforce
  then have ta: "thread_as e a" using with_thread_thread_as [of e "dt_status (le_thread item)" cx] by simp
  then have a: "en_local a = Some l" "en_conflict a = en_conflict e" using assms(1) by (simp_all add: thread_as_fields)
  have o: "en_local (a\<lparr>en_conflict := None\<rparr>) = Some l" using a by simp
  have "keeps_words (dc_text l) (claimed_bar_ends a bar (le_row item) cx)" if "en_conflict e = Some bar" "cf_kind bar = CkClaimed" for bar
    using assms that a holds_local [OF o, of "dc_text l"] keeps_adopt [OF o, of "dc_text l"]
    by (auto simp: claimed_bar_ends_def Let_def drops_box_def split: option.splits)
  then show ?thesis
    using a holds_local [OF a(1), of "dc_text l"] holds_local [OF assms(1), of "dc_text l"]
    by (auto simp: listed_def Let_def t keeps_read_not_claimed [OF a(1)] keeps_adopt [OF a(1)] keeps_claimed_elsewhere [OF a(1)]
        split: option.split)
qed

lemma keeps_submits:
  assumes "en_local e = Some l" "en_claiming e = None"
  shows "keeps_words (dc_text l) (submit e ready cx)"
    "keeps_words (dc_text l) (submit_external e words ms cell origin ready cx)"
proof -
  have h: "entry_holds (dc_text l) e" "entry_holds (dc_text l) (fst (load_first e cx))"
    using holds_local [OF assms(1)] holds_thread_local [OF assms(1)] by simp_all
  have "shown_content e = l" if "en_sending e = None" using assms that by (simp add: shown_content_def)
  then show "keeps_words (dc_text l) (submit e ready cx)"
    using h assms by (auto simp: submit_def Let_def case_prod_unfold) (auto simp: entry_holds_def)
  have "entry_holds (dc_text l) (e\<lparr>en_sending := x\<rparr>)" for x using assms(1) by (simp add: entry_holds_def)
  then show "keeps_words (dc_text l) (submit_external e words ms cell origin ready cx)"
    using h by (simp add: submit_external_def Let_def case_prod_unfold)
qed

lemma keeps_intercept:
  assumes "en_local e = Some l" "en_claiming e = None" "\<not> drops_box e (KeyDraft ev) cx"
    "intercept_drafting_event e ev cx = Some t"
  shows "keeps_words (dc_text l) t"
proof -
  obtain seq r where ev: "ev = EvSaveResult seq r" and r: "intercept_save e seq r cx = Some t"
    using assms(4) by (auto simp: intercept_drafting_event_def split: entry_event.splits option.splits if_splits)
  have s: "en_local (settled_save e seq) = Some l" using assms by simp
  have "keeps_words (dc_text l) (fence_lost e seq f row cx)" if "fe_merged f \<noteq> l" for f row
    using assms(1) that by (auto simp: fence_lost_def Let_def case_prod_unfold reload_fst entry_holds_def)
  then show ?thesis
    using r assms(1-3) keeps_claimed_elsewhere [OF s, of "dc_text l"] ev
    by (auto simp: intercept_save_def drops_box_def split: save_result.splits option.splits if_splits)
qed

lemma keeps_send_event:
  assumes "en_local e = Some l" "en_claiming e = None" "\<not> drops_box e (KeySend ev) cx"
  shows "keeps_words (dc_text l) (reduce_send_entry e ev cx)"
proof (cases ev)
  case (EvHeartbeat token r)
  then show ?thesis
    using holds_local [OF assms(1), of "dc_text l"] sending_words_local [OF assms(1)] keeps_read_not_claimed [OF assms(1)]
    by (auto simp: heartbeat_result_def split: option.split touch_result.split)
next
  case (EvDiscardResult base seq r)
  have "en_local (acked e seq) = Some l" using assms(1) by simp
  then have "keeps_words (dc_text l) (claimed_elsewhere (acked e seq) row th cx)" for row th
    by (rule keeps_claimed_elsewhere) simp
  with EvDiscardResult show ?thesis
    using assms holds_local [OF assms(1), of "dc_text l"]
    by (auto simp: discard_result_of_def Let_def drops_box_def split: discard_result.splits) (auto simp: entry_holds_def)
next
  case EvCopyKeep
  then show ?thesis
    using assms(1) holds_local [OF assms(1), of "dc_text l"] append_content_tail
    by (auto intro!: keeps_dismiss_with split: option.split)
next
  case (EvRouteHandoff turn)
  then show ?thesis
    using assms(1) by (auto simp: route_handoff_def entry_holds_def split: option.split)
next
  case (EvUndoDiscard revision c)
  then show ?thesis
    using assms(1) by (auto simp: undo_discard_def Let_def entry_holds_def)
qed (use assms holds_local [OF assms(1), of "dc_text l"] in \<open>auto simp: keeps_submits keeps_start_answers keeps_route_failed
      keeps_consume_result keeps_release_answers keeps_listed claim_result_of_def claim_failed_def consume_failed_def
      discard_draft_def local_or_empty_def intro!: keeps_dismiss_with split: option.split\<close>)

lemma keeps_reduce_entry:
  assumes "keeps_words w (both_halves e ev cx)"
  shows "keeps_words w (reduce_entry e ev cx)"
  using assms by (auto simp: keeps_words_def bump_epoch_def)

lemma keeps_after_drafting [simp]: "keeps_words w (after_drafting b t) = keeps_words w t"
  by (simp add: keeps_words_def)

lemma keeps_box:
  assumes "en_local e = Some l" "en_claiming e = None" "\<not> drops_box e ev cx"
  shows "keeps_words (dc_text l) (reduce_entry e ev cx)"
proof (rule keeps_reduce_entry, cases ev)
  case (KeyDraft dev)
  have "\<not> drops_in_drafting dev" using assms(3) KeyDraft by (cases dev) (auto simp: drops_box_def)
  then have "keeps_words (dc_text l) (case intercept_drafting_event e dev cx of Some t \<Rightarrow> t
      | None \<Rightarrow> drafted (reduce_drafting_event e dev (drafting_context cx)))"
    using keeps_intercept [OF assms(1,2)] assms(3) KeyDraft keeps_drafted_event [OF box_holds_local [OF assms(1)]]
    by (auto split: option.split)
  with KeyDraft show "keeps_words (dc_text l) (both_halves e ev cx)" by (simp add: both_halves_def)
next
  case (KeySend sev)
  then show "keeps_words (dc_text l) (both_halves e ev cx)"
    using keeps_send_event [OF assms(1,2)] assms(3) by (simp add: both_halves_def)
qed

text \<open>
  C20. The words in the box are never lost (I3, I5). Whatever happens to a key whose box holds unsaved
  words while no claim is pending: unless it is one of the events that may remove them, the words are
  afterwards still in the box, in the claim or the send the event started, or exactly acknowledged by
  the server; and when the event forks the draft, the fork carries them, and so does the entry that
  stays when the fork cannot be made. No answer, failure, list, restored row or card drops them.
\<close>

theorem box_words_kept:
  assumes "en_local e = Some l" "en_claiming e = None" "\<not> drops_box e ev cx"
  shows "keeps_words (dc_text l) (reduce_entry e ev cx)"
  using assms by (rule keeps_box)

section \<open>The words of a claim and of a send\<close>

lemma claimed_elsewhere_claiming:
  assumes "en_claiming e = Some c" "sublist w (dc_text (cg_content c))"
  shows "keeps_words w (claimed_elsewhere e row th cx)"
proof -
  obtain a fx where t: "with_thread e (dt_status th) cx = (a, fx)" by fastforce
  then have "en_claiming a = Some c" using with_thread_thread_as [of e "dt_status th" cx] assms by (simp add: thread_as_fields)
  with t assms show ?thesis
    by (auto simp: claimed_elsewhere_def Let_def split: option.split intro: holds_claiming)
qed

definition unsaved_claim :: "draft_entry \<Rightarrow> draft_claiming \<Rightarrow> bool" where
  "unsaved_claim e c \<longleftrightarrow> en_claiming e = Some c \<and> en_sending e = None \<and>
     (\<forall>r. en_server e = Some r \<longrightarrow> \<not> content_equals (cg_content c) (sd_content r))"

lemma unclaim_local: "unsaved_claim e c \<Longrightarrow> en_server a = en_server e \<Longrightarrow> en_local (unclaim a c) = Some (cg_content c)"
  by (auto simp: unsaved_claim_def unclaim_def Let_def split: option.split)

lemma keeps_claim_answers:
  assumes "unsaved_claim e c"
  shows "keeps_words (dc_text (cg_content c)) (claim_result_of e attempt seq r cx)"
    "keeps_words (dc_text (cg_content c)) (claim_failed e attempt seq f cx)"
proof -
  note c = assms [unfolded unsaved_claim_def]
  have h: "entry_holds (dc_text (cg_content c)) e" using c by (auto intro: holds_claiming)
  have l: "en_local (unclaim (acked e seq) c) = Some (cg_content c)" "en_local (unclaim e c) = Some (cg_content c)"
    using unclaim_local [OF assms] by simp_all
  have b: "box_holds (dc_text (cg_content c)) (as_saving (unclaim (acked e seq) c))"
    "box_holds (dc_text (cg_content c)) (as_saving (unclaim e c))"
    by (auto simp: box_holds_def l)
  have t: "entry_holds (dc_text (cg_content c)) (fst (with_thread (unclaim (acked e seq) c) th cx))" for th
    by (rule holds_thread_local [OF l(1)]) simp
  have g: "keeps_words (dc_text (cg_content c)) (granted (acked e seq) c n cx)" for n
    by (auto simp: granted_def Let_def granted_send_def entry_holds_def)
  show "keeps_words (dc_text (cg_content c)) (claim_result_of e attempt seq r cx)"
    using c h g t holds_local [OF l(1), of "dc_text (cg_content c)"] keeps_drafted_event [OF b(1)]
      keeps_claimed_elsewhere [OF l(1), of "dc_text (cg_content c)"]
    by (auto simp: claim_result_of_def Let_def case_prod_unfold read_as_save_def split: claim_result.split)
  show "keeps_words (dc_text (cg_content c)) (claim_failed e attempt seq f cx)"
    using c h holds_local [OF l(2), of "dc_text (cg_content c)"] keeps_drafted_event [OF b(2)]
    by (auto simp: claim_failed_def Let_def split: write_failure.split)
qed

text \<open>What may remove the words of a pending claim: the user letting the draft go, a discard asked for before the claim.\<close>

definition drops_claim :: "key_event \<Rightarrow> bool" where
  "drops_claim ev \<longleftrightarrow>
     (case ev of
        KeyDraft EvLetGo \<Rightarrow> True
      | KeySend (EvDiscardResult _ _ (DiscardGone _)) \<Rightarrow> True
      | _ \<Rightarrow> False)"

lemma keeps_claim_send_event:
  assumes "unsaved_claim e c" "\<not> drops_claim (KeySend ev)"
  shows "keeps_words (dc_text (cg_content c)) (reduce_send_entry e ev cx)"
proof -
  note c = assms(1) [unfolded unsaved_claim_def]
  have h: "entry_holds (dc_text (cg_content c)) a" if "en_claiming a = en_claiming e" for a
    using that c by (auto intro: holds_claiming)
  have s: "en_sending e = None" "en_claiming e = Some c" using c by simp_all
  have th: "entry_holds (dc_text (cg_content c)) (fst (with_thread e t cx))" for t
    by (rule h) (simp add: thread_as_fields [OF with_thread_thread_as])
  have d: "keeps_words (dc_text (cg_content c)) (dismiss_with e l)" for l
    by (auto simp: dismiss_with_def Let_def h split: option.split)
  show ?thesis
  proof (cases ev)
    case (EvDiscardResult base seq r)
    have "keeps_words (dc_text (cg_content c)) (claimed_elsewhere (acked e seq) row th cx)" for row th
      using claimed_elsewhere_claiming [of "acked e seq" c "dc_text (cg_content c)" row th cx] s by simp
    with EvDiscardResult assms(2) s show ?thesis
      by (auto simp: discard_result_of_def Let_def drops_claim_def h split: discard_result.splits)
  next
    case (EvReleaseResult token seq retry r)
    have "keeps_words (dc_text (cg_content c)) (abandoned_released (acked e seq) token r cx)"
      using s by (auto simp: abandoned_released_def Let_def h split: release_result.split)
    with EvReleaseResult s show ?thesis
      by (auto simp: release_result_of_def releasing_send_def Let_def h)
  qed (use s in \<open>auto simp: keeps_claim_answers [OF assms(1)] submit_def submit_external_def start_result_of_def start_failed_def
        route_handoff_def route_failed_def consume_result_of_def consume_failed_def release_failed_def releasing_send_def
        heartbeat_result_def discard_draft_def undo_discard_def listed_def Let_def case_prod_unfold h th d
        thread_as_fields [OF with_thread_thread_as] split: option.split\<close>)
qed

lemma keeps_claim_intercept:
  assumes "unsaved_claim e c" "intercept_drafting_event e ev cx = Some t"
  shows "keeps_words (dc_text (cg_content c)) t"
proof -
  note c = assms(1) [unfolded unsaved_claim_def]
  obtain seq r where r: "intercept_save e seq r cx = Some t"
    using assms(2) by (auto simp: intercept_drafting_event_def split: entry_event.splits option.splits if_splits)
  have l: "en_local (unclaim (settled_save e seq) c) = Some (cg_content c)" using unclaim_local [OF assms(1)] by simp
  have "keeps_words (dc_text (cg_content c)) (fence_lost e seq f row cx)" for f row
    using c by (auto simp: fence_lost_def Let_def case_prod_unfold reload_fst entry_holds_def)
  then show ?thesis
    using r c keeps_claimed_elsewhere [OF l, of "dc_text (cg_content c)"]
    by (auto simp: intercept_save_def split: save_result.splits option.splits if_splits)
qed

lemma keeps_claim_drafting:
  assumes "en_claiming e = Some c" "ev \<noteq> EvLetGo"
  shows "keeps_words (dc_text (cg_content c)) (drafted (reduce_drafting_event e ev cx))"
proof (cases "drops_in_drafting ev")
  case True
  have "still_holds (dc_text (cg_content c)) (reduce_drafting_event e ev cx)"
  proof (rule still_holds_drafting_event)
    fix a :: draft_entry assume a: "en_claiming a = en_claiming e"
    have "entry_holds (dc_text (cg_content c)) b" if "en_claiming b = en_claiming a" for b
      using that a assms by (auto intro: holds_claiming)
    then show "still_holds (dc_text (cg_content c)) (reduce_entry_event a ev cx)"
      using True assms(2) still_holds_use_theirs [of a "dc_text (cg_content c)"] a assms(1)
      by (cases ev) simp_all
  qed
  then show ?thesis by (simp add: keeps_drafted still_holds_def)
next
  case False
  show ?thesis by (rule keeps_drafted_event [OF _ False]) (use assms in \<open>auto simp: box_holds_def\<close>)
qed


text \<open>
  What settles a send, so that its words need not come back: the server's answer that the turn is stored,
  or the proof of it (the last-sent mark, the first turn, the turn in the transcript), the hand-off to the
  chat route, and the two events that remove the entry itself.
\<close>

definition settles_send :: "draft_sending \<Rightarrow> key_event \<Rightarrow> bool" where
  "settles_send s ev \<longleftrightarrow>
     (case ev of
        KeyDraft EvLetGo \<Rightarrow> True
      | KeyDraft _ \<Rightarrow> False
      | KeySend sev \<Rightarrow>
          (case sev of
             EvDiscardResult _ _ (DiscardGone _) \<Rightarrow> True
           | EvStartResult _ _ (StartCreated _ _) \<Rightarrow> True
           | EvStartResult _ _ (StartStored _) \<Rightarrow> True
           | EvStartResult _ _ (StartNotClaimed row th) \<Rightarrow> sent_proven row th (sg_turn s)
           | EvReleaseResult _ _ _ (ReleaseConsumed _) \<Rightarrow> True
           | EvReleaseResult _ _ _ (ReleaseNotClaimed row th) \<Rightarrow> sent_proven row th (sg_turn s)
           | EvHeartbeat _ (TouchNotClaimed row th) \<Rightarrow> sent_proven row th (sg_turn s)
           | EvListed _ item \<Rightarrow> sent_proven (le_row item) (le_thread item) (sg_turn s)
           | EvConsumeResult _ _ _ r \<Rightarrow> (case r of ConsumeRefused _ \<Rightarrow> False | _ \<Rightarrow> True)
           | EvRouteHandoff _ \<Rightarrow> sg_token s = None
           | EvRouteFailed _ f \<Rightarrow> sg_token s = None \<and> classify_route_failure f = ArmCommitted
           | _ \<Rightarrow> False))"

text \<open>The row an answer carried is frozen under a claim this tab itself gave up, and holds the words: it is released at once.\<close>

definition frees_own_row :: "utf16 \<Rightarrow> draft_entry \<Rightarrow> send_transition \<Rightarrow> bool" where
  "frees_own_row w e t \<longleftrightarrow> (\<exists>(row :: server_draft) token. dc_text (sd_content row) = w \<and> map_option cl_token (sd_claim row) = Some token \<and>
     token \<in> set (en_abandoned e) \<and> release_effect (en_key e) token ''abandoned'' False None 0 \<in> set (tn_effects t))"

lemma frees_own_row_simps [simp]:
  "frees_own_row w (acked e n) t = frees_own_row w e t"
  by (simp add: frees_own_row_def)

lemma frees_own_row_prepend: "frees_own_row w e t \<Longrightarrow> frees_own_row w e (prepend fx t)"
  by (auto simp: frees_own_row_def)

lemma forget_send_abandoned: "set (en_abandoned (forget_send e s)) \<subseteq> set (en_abandoned e)"
  by (auto simp: forget_send_def forget_def split: option.split)

lemma handed_over_words:
  "keeps_words (sg_text s) (claimed_elsewhere (hand_over e s row) row th cx) \<or>
   frees_own_row (sg_text s) e (claimed_elsewhere (hand_over e s row) row th cx)"
proof (cases "dc_text (sd_content row) = sg_text s")
  case False
  then have "en_local (hand_over e s row) = Some (sending_words (forget_send e s) s)" by (simp add: hand_over_def Let_def)
  then show ?thesis using keeps_claimed_elsewhere sending_words_send by blast
next
  case True
  obtain a fx where t: "with_thread (hand_over e s row) (dt_status th) cx = (a, fx)" by fastforce
  then have "thread_as (hand_over e s row) a" using with_thread_thread_as [of "hand_over e s row" "dt_status th" cx] by simp
  then have "en_abandoned a = en_abandoned (forget_send e s)" by (simp add: thread_as_fields hand_over_def Let_def)
  then have ab: "set (en_abandoned a) \<subseteq> set (en_abandoned e)" using forget_send_abandoned by metis
  show ?thesis
  proof (cases "List.find (\<lambda>t. map_option cl_token (sd_claim row) = Some t) (en_abandoned a)")
    case None
    with t True show ?thesis by (auto simp: claimed_elsewhere_def Let_def entry_holds_def)
  next
    case (Some token)
    then have "token \<in> set (en_abandoned e)" "map_option cl_token (sd_claim row) = Some token"
      using find_Some_mem [OF Some] ab by auto
    moreover have "release_effect (en_key e) token ''abandoned'' False None 0 \<in>
        set (tn_effects (claimed_elsewhere (hand_over e s row) row th cx))"
      using t Some by (simp add: claimed_elsewhere_def)
    ultimately show ?thesis using True unfolding frees_own_row_def by blast
  qed
qed

lemma not_claimed_words:
  assumes "\<not> sent_proven row th (sg_turn s)"
  shows "keeps_words (sg_text s) (read_not_claimed e s row th cx) \<or> frees_own_row (sg_text s) e (read_not_claimed e s row th cx)"
proof -
  obtain a fx where t: "with_thread e (dt_status th) cx = (a, fx)" by fastforce
  then have ta: "thread_as e a" using with_thread_thread_as [of e "dt_status th" cx] by simp
  then have "frees_own_row w a u = frees_own_row w e u" for w u
    by (simp add: frees_own_row_def thread_as_fields)
  then show ?thesis
    using t assms handed_over_words [of s a row th cx] keeps_released_back_send [of s a row cx]
    by (auto simp: read_not_claimed_def frees_own_row_prepend)
qed

lemma keeps_send_words:
  assumes "en_sending e = Some s" "en_claiming e = None" "\<not> settles_send s (KeySend ev)"
  shows "keeps_words (sg_text s) (reduce_send_entry e ev cx) \<or> frees_own_row (sg_text s) e (reduce_send_entry e ev cx)"
proof -
  have h: "entry_holds (sg_text s) a" if "en_sending a = Some s'" "sg_text s' = sg_text s" for a s'
    using that by (auto intro: holds_sending)
  note h0 = h [OF assms(1) refl]
  have w: "sublist (sg_text s) (dc_text (sending_words a s))" for a by (rule sending_words_send)
  have r: "keeps_words (sg_text s) (release_now a s er u fr)" if "sg_token s \<noteq> None" for a er u fr
    by (rule keeps_release_now [OF _ that], rule h [of _ "s\<lparr>sg_phase := PhaseReleasing\<rparr>"]) simp_all
  have x: "keeps_words (sg_text s) (fail_external a s er u cx)" for a er u
    by (rule keeps_fail_external [OF box_merged_prompt])
  have th: "entry_holds (sg_text s) (fst (with_thread e t cx))" "entry_holds (sg_text s) (fst (refusal_extras e f cx))" for t f
    using h0 by (simp_all add: holds_thread_as [OF with_thread_thread_as] holds_thread_as [OF refusal_extras_thread_as])
  have ws: "en_sending (fst (with_thread e t cx)) = Some s" "en_claiming (fst (with_thread e t cx)) = None" for t
    using assms by (simp_all add: thread_as_fields [OF with_thread_thread_as])
  have ce: "keeps_words (sg_text s) (claimed_elsewhere a row th cx)" if "en_sending a = Some s" for a row th
  proof -
    have "en_sending (fst (with_thread a (dt_status th) cx)) = Some s" using that by (simp add: thread_as_fields [OF with_thread_thread_as])
    then show ?thesis
      using h [of _ s] by (auto simp: claimed_elsewhere_def Let_def case_prod_unfold split: option.split)
  qed
  show ?thesis
  proof (cases ev)
    case (EvStartResult attempt seq res)
    have "keeps_words (sg_text s) (start_result_of e attempt seq res cx) \<or>
        frees_own_row (sg_text s) e (start_result_of e attempt seq res cx)"
      using EvStartResult assms(1,3) not_claimed_words [of _ _ s "acked e seq" cx] handed_over_words [of s "acked e seq" _ _ cx]
      by (cases res) (auto simp: start_result_of_def Let_def h0 x r w settles_send_def)
    then show ?thesis using EvStartResult by simp
  next
    case (EvRouteFailed turn f)
    have "keeps_words (sg_text s) (route_failed_external e s f cx)" if "sg_token s = None"
      using EvRouteFailed assms(3) that x w
      by (auto simp: route_failed_external_def settles_send_def Let_def case_prod_unfold)
    moreover have "keeps_words (sg_text s) (route_failed_claimed e s t f cx)" if "sg_token s = Some t" for t
    proof -
      have "keeps_words (sg_text s) (release_now a s er u fr)" for a er u fr using r that by simp
      moreover have "entry_holds (sg_text s) (fst (committed_turn (e\<lparr>en_sending := Some (s\<lparr>sg_phase := PhaseConsuming\<rparr>)\<rparr>) f cx))"
        "entry_holds (sg_text s) (fst (reload (e\<lparr>en_sending := Some (s\<lparr>sg_phase := PhaseReleasing\<rparr>)\<rparr>) cx))"
        unfolding holds_thread_as [OF committed_turn_thread_as] holds_thread_as [OF reload_thread_as]
        by (rule h [of _ "s\<lparr>sg_phase := PhaseConsuming\<rparr>"], simp_all)
           (rule h [of _ "s\<lparr>sg_phase := PhaseReleasing\<rparr>"], simp_all)
      ultimately show ?thesis
        using that by (auto simp: route_failed_claimed_def Let_def case_prod_unfold release_now_def split: failure_arm.split)
    qed
    ultimately show ?thesis using EvRouteFailed assms(1) h0 by (simp add: route_failed_def split: option.split)
  next
    case (EvReleaseResult token seq retry res)
    have "keeps_words (sg_text s) (abandoned_released (acked e seq) token res cx)"
      using assms(1) h [of _ s] by (auto simp: abandoned_released_def Let_def split: release_result.split)
    moreover have "sg_token s = Some token \<Longrightarrow> sg_phase s = PhaseReleasing \<Longrightarrow>
        keeps_words (sg_text s) (release_result_of e token seq retry res cx) \<or>
        frees_own_row (sg_text s) e (release_result_of e token seq retry res cx)"
      using EvReleaseResult assms(1,3) not_claimed_words [of _ _ s "acked e seq" cx] keeps_released_back_send [of s "acked e seq" _ cx] w
      by (cases res) (simp_all add: release_result_of_def releasing_send_def release_retry_def Let_def h0 settles_send_def)
    ultimately show ?thesis
      using EvReleaseResult assms(1) h0 by (auto simp: release_result_of_def releasing_send_def Let_def)
  next
    case (EvDiscardResult base seq res)
    then show ?thesis
      using assms h [of _ s]
      by (auto simp: discard_result_of_def Let_def settles_send_def intro!: ce split: discard_result.splits)
  next
    case (EvListed seq item)
    have tt: "thread_as e (fst (with_thread e t cx))" for t by (rule with_thread_thread_as)
    have "frees_own_row v (fst (with_thread e t cx)) u = frees_own_row v e u" for v t u
      by (simp add: frees_own_row_def thread_as_fields [OF tt])
    then show ?thesis
      using EvListed assms ws th h0 not_claimed_words [of "le_row item" "le_thread item" s "fst (with_thread e (dt_status (le_thread item)) cx)" cx]
      by (auto simp: listed_def Let_def case_prod_unfold settles_send_def frees_own_row_prepend)
  next
    case (EvHeartbeat token res)
    then show ?thesis
      using assms h0 w not_claimed_words [of _ _ s e cx]
      by (cases res) (simp_all add: heartbeat_result_def settles_send_def)
  qed (use assms h0 w x r h in \<open>auto simp: submit_def submit_external_def claim_result_of_def claim_failed_def start_failed_def
        route_handoff_def consume_result_of_def consume_failed_def release_failed_def releasing_send_def release_retry_def
        discard_draft_def undo_discard_def settles_send_def dismiss_with_def Let_def
        split: option.split consume_result.splits\<close>)
qed


lemma keeps_send_drafting:
  assumes "en_sending e = Some s" "ev \<noteq> EvLetGo"
  shows "keeps_words (sg_text s) (drafted (reduce_drafting_event e ev cx))"
proof (cases "drops_in_drafting ev")
  case True
  have "still_holds (sg_text s) (reduce_drafting_event e ev cx)"
  proof (rule still_holds_drafting_event)
    fix a :: draft_entry assume a: "en_sending a = en_sending e"
    have "entry_holds (sg_text s) b" if "en_sending b = en_sending a" for b
      using that a assms by (auto intro: holds_sending)
    then show "still_holds (sg_text s) (reduce_entry_event a ev cx)"
      using True assms(2) still_holds_use_theirs [of a "sg_text s"] a assms(1) by (cases ev) simp_all
  qed
  then show ?thesis by (simp add: keeps_drafted still_holds_def)
next
  case False
  show ?thesis by (rule keeps_drafted_event [OF _ False]) (use assms in \<open>auto simp: box_holds_def\<close>)
qed

lemma keeps_send_intercept:
  assumes "en_sending e = Some s" "en_claiming e = None" "intercept_drafting_event e ev cx = Some t"
  shows "keeps_words (sg_text s) t"
proof -
  obtain seq r where r: "intercept_save e seq r cx = Some t"
    using assms(3) by (auto simp: intercept_drafting_event_def split: entry_event.splits option.splits if_splits)
  have "keeps_words (sg_text s) (claimed_elsewhere (settled_save e seq) row th cx)" for row th
  proof -
    have "en_sending (fst (with_thread (settled_save e seq) (dt_status th) cx)) = Some s"
      using assms(1) by (simp add: thread_as_fields [OF with_thread_thread_as])
    then show ?thesis
      by (auto simp: claimed_elsewhere_def Let_def case_prod_unfold split: option.split intro: holds_sending)
  qed
  moreover have "keeps_words (sg_text s) (fence_lost e seq f row cx)" for f row
    using assms(1) by (auto simp: fence_lost_def Let_def case_prod_unfold reload_fst entry_holds_def)
  ultimately show ?thesis
    using r assms(1,2) by (auto simp: intercept_save_def split: save_result.splits option.splits if_splits)
qed

lemma frees_own_row_reduce:
  "frees_own_row w e (both_halves e (KeySend ev) cx) \<Longrightarrow> frees_own_row w e (reduce_entry e (KeySend ev) cx)"
  by (auto simp: frees_own_row_def reduce_entry_def Let_def release_effect_def is_cache_remove_def)

lemma keeps_claim:
  assumes "unsaved_claim e c" "\<not> drops_claim ev"
  shows "keeps_words (dc_text (cg_content c)) (reduce_entry e ev cx)"
proof (rule keeps_reduce_entry, cases ev)
  case (KeyDraft dev)
  have "en_claiming e = Some c" "dev \<noteq> EvLetGo" using assms KeyDraft by (auto simp: unsaved_claim_def drops_claim_def)
  then show "keeps_words (dc_text (cg_content c)) (both_halves e ev cx)"
    using KeyDraft assms keeps_claim_intercept [of e c dev cx] keeps_claim_drafting [of e c dev]
    by (auto simp: both_halves_def split: option.split)
next
  case (KeySend sev)
  then show "keeps_words (dc_text (cg_content c)) (both_halves e ev cx)"
    using assms keeps_claim_send_event by (simp add: both_halves_def)
qed

lemma keeps_send:
  assumes "en_sending e = Some s" "en_claiming e = None" "\<not> settles_send s ev"
  shows "keeps_words (sg_text s) (reduce_entry e ev cx) \<or> frees_own_row (sg_text s) e (reduce_entry e ev cx)"
proof (cases ev)
  case (KeyDraft dev)
  have "dev \<noteq> EvLetGo" using assms(3) KeyDraft by (auto simp: settles_send_def)
  then have "keeps_words (sg_text s) (both_halves e ev cx)"
    using KeyDraft assms keeps_send_intercept [of e s dev cx] keeps_send_drafting [of e s dev]
    by (auto simp: both_halves_def split: option.split)
  then show ?thesis using keeps_reduce_entry by blast
next
  case (KeySend sev)
  then have "keeps_words (sg_text s) (both_halves e ev cx) \<or> frees_own_row (sg_text s) e (both_halves e ev cx)"
    using assms keeps_send_words [of e s sev cx] by (simp add: both_halves_def)
  then show ?thesis using keeps_reduce_entry frees_own_row_reduce KeySend by blast
qed

text \<open>
  C21. The words the user pressed Enter on, or sent from a card, are not lost by failures (I3). Two events
  remove an entry whole, whatever it holds: the user's \<open>Let go\<close>, and the answer to a discard that the row is
  gone. After any other event, words of a pending claim that the server has not acknowledged are in the send
  the claim was granted to, back in the box, or carried by a fork. Words of a live send are, while no claim is
  pending, after any other event that does not settle the send (the server's word that the turn is stored or the row consumed or no
  longer claimed with the turn proven sent, any answer but a refusal to a consume, the hand-off to the chat
  route of a send without a claim, and the route's word that it is committed), still in the send, back in the
  box, in the row the server returned, or carried by a fork; the one other case is a returned row that holds
  them frozen under a claim this tab itself gave up, and that row is released at once. Failures, timeouts,
  refusals, heartbeats, lists and deleted threads never remove them.
\<close>

theorem sent_words_kept:
  "(unsaved_claim e c \<and> \<not> drops_claim ev \<longrightarrow> keeps_words (dc_text (cg_content c)) (reduce_entry e ev cx)) \<and>
   (en_sending e = Some s \<and> en_claiming e = None \<and> \<not> settles_send s ev \<longrightarrow>
      keeps_words (sg_text s) (reduce_entry e ev cx) \<or> frees_own_row (sg_text s) e (reduce_entry e ev cx))"
  using keeps_claim keeps_send by blast

section \<open>Witnesses\<close>

definition sample_send :: draft_sending where
  "sample_send = \<lparr>sg_attempt = ''a0'', sg_token = Some ''k0'', sg_turn = ''t0'', sg_kind = SendFirst, sg_text = units ''hello'',
     sg_mentions = [], sg_cell = None, sg_origin = ''composer'', sg_at = None, sg_phase = PhaseStarting\<rparr>"

definition sample_sending :: draft_entry where
  "sample_sending = sample_draft\<lparr>en_local := Some (sample_words ''more''), en_sending := Some sample_send\<rparr>"

text \<open>The conversation was deleted while its first turn was starting: the fork carries both texts.\<close>

theorem box_words_kept_witness:
  "\<exists>f. tn_fork (reduce_entry sample_sending (KeySend (EvStartResult ''a0'' 9 (StartDeleted 4))) sample_context) = Some f \<and>
     dc_text (fk_content f) = units ''hello'' @ [0xA, 0xA] @ units ''more'' \<and> sublist (units ''more'') (dc_text (fk_content f))"
proof -
  let ?t = "reduce_entry sample_sending (KeySend (EvStartResult ''a0'' 9 (StartDeleted 4))) sample_context"
  have "keeps_words (dc_text (sample_words ''more'')) ?t"
    by (rule box_words_kept) (simp_all add: sample_sending_def sample_draft_def new_entry_def drops_box_def)
  moreover have "map_option (dc_text \<circ> fk_content) (tn_fork ?t) = Some (units ''hello'' @ [0xA, 0xA] @ units ''more'')"
    by code_simp
  ultimately show ?thesis by (auto simp: keeps_words_def sample_words_def)
qed

text \<open>The start was rejected by the network: the words stay in the send while it is released.\<close>

theorem sent_words_kept_witness:
  "\<exists>e'. tn_entry (reduce_entry sample_sending (KeySend (EvStartFailed ''a0'' 9 (FailRejected True))) sample_context) = Some e' \<and>
     entry_holds (units ''hello'') e' \<and> map_option sg_phase (en_sending e') = Some PhaseReleasing"
proof -
  let ?ev = "KeySend (EvStartFailed ''a0'' 9 (FailRejected True))"
  let ?t = "reduce_entry sample_sending ?ev sample_context"
  have "en_sending sample_sending = Some sample_send \<and> en_claiming sample_sending = None \<and> \<not> settles_send sample_send ?ev"
    by (simp add: sample_sending_def sample_draft_def new_entry_def settles_send_def)
  then have "keeps_words (sg_text sample_send) ?t \<or> frees_own_row (sg_text sample_send) sample_sending ?t"
    using sent_words_kept [of sample_sending _ ?ev sample_context sample_send] by blast
  moreover have "en_abandoned sample_sending = []" by (simp add: sample_sending_def sample_draft_def new_entry_def)
  ultimately have "keeps_words (sg_text sample_send) ?t" by (simp add: frees_own_row_def)
  moreover have "map_option (\<lambda>e. map_option sg_phase (en_sending e)) (tn_entry ?t) = Some (Some PhaseReleasing)"
    by code_simp
  ultimately show ?thesis by (auto simp: keeps_words_def sample_send_def simp del: reduce_entry_simps)
qed

end
