(* ===== verification/Draft_Sends.thy ===== *)
theory Draft_Sends
  imports Draft_Words
begin

text \<open>
  What leaves the tab. Three effects send words: a claim (with the box as it is claimed), a start and a
  chat message. \<open>sends\<close> picks them out of a transition; every step but a handful is quiet, and those
  few emit one such effect, of exactly the words the user pressed Enter on.
\<close>

section \<open>Quiet steps\<close>

fun is_send :: "send_effect \<Rightarrow> bool" where
  "is_send (SfClaim _ _ _ _ _ _ _) = True"
| "is_send (SfStart _ _ _ _ _ _ _) = True"
| "is_send (SfSendMessage _ _ _ _ _) = True"
| "is_send _ = False"

definition sends :: "send_transition \<Rightarrow> send_effect list" where
  "sends t = filter is_send (tn_effects t)"

abbreviation quiet :: "send_effect list \<Rightarrow> bool" where
  "quiet fx \<equiv> filter is_send fx = []"

lemma quiet_effects [simp]:
  "is_send (notice k n) = False" "is_send (not_sent_for k r) = False" "is_send (release_effect k t er u f rt) = False"
  "is_send (consume_effect k t rt) = False"
  by (simp_all add: notice_def not_sent_for_def release_effect_def consume_effect_def)

lemma quiet_drafts [simp]: "filter is_send (map SfDraft fx) = []"
  by (induction fx) simp_all

lemma sends_simps [simp]:
  "sends (plain e fx) = filter is_send fx" "sends (no_change e) = []" "sends (prepend fx t) = filter is_send fx @ sends t"
  "sends (drafted d) = []" "sends (fork_words e c dc n) = []" "sends (t\<lparr>tn_fence := fe\<rparr>) = sends t"
  by (simp_all add: sends_def)

lemma sends_save [simp]: "sends (save_now e cx) = []" "sends (save_if_dirty t cx) = sends t"
  by (simp_all add: save_now_def save_if_dirty_def sends_def split: option.split)

lemma quiet_threads [simp]:
  "filter is_send (snd (reload e cx)) = []" "filter is_send (snd (with_thread e t cx)) = []"
  "filter is_send (snd (load_first e cx)) = []" "filter is_send (snd (committed_turn e f cx)) = []"
  "filter is_send (snd (refusal_extras e f cx)) = []"
  by (simp_all add: reload_def with_thread_def load_first_def committed_turn_def refusal_extras_def Let_def)

lemma sends_answers [simp]:
  "sends (claimed_elsewhere e row th cx) = []" "sends (consumed_arm e s r n cx) = []" "sends (committed_first e s r cx) = []"
  "sends (released_back e s row cx) = []" "sends (release_now e s er u f) = []"
  "sends (adopt_or_conflict e row cx) = []" "sends (release_retry e s rt) = []"
  by (simp_all add: claimed_elsewhere_def consumed_arm_def committed_first_def released_back_def release_now_def
      adopt_or_conflict_def release_retry_def Let_def case_prod_unfold split: option.split)

lemma sends_fail_external [simp]: "sends (fail_external e s er u cx) = []"
  by (simp add: fail_external_def Let_def sends_def sends_save(1) [unfolded sends_def])

lemma sends_answers_more [simp]:
  "sends (read_not_claimed e s row th cx) = []" "sends (claimed_bar_ends e bar row cx) = []" "sends (dismiss_with e l) = []"
  by (simp_all add: read_not_claimed_def claimed_bar_ends_def dismiss_with_def Let_def case_prod_unfold split: option.split)

lemma sends_routes [simp]: "sends (route_failed e turn f cx) = []" "sends (route_handoff e turn) = []"
  by (auto simp: route_failed_def route_handoff_def route_failed_external_def route_failed_claimed_def Let_def case_prod_unfold
      release_now_def split: option.split failure_arm.split)

lemma sends_consume [simp]: "sends (consume_result_of e token seq retry r cx) = []" "sends (consume_failed e token retry) = []"
  by (auto simp: consume_result_of_def consume_failed_def Let_def case_prod_unfold
      split: option.split consume_result.split) (simp_all add: sends_def)

lemma renumber_release_sends [simp]: "filter is_send (map (renumber_release k t n) fx) = filter is_send fx"
proof (induction fx)
  case (Cons x fx)
  then show ?case by (cases x) simp_all
qed simp

lemma sends_release [simp]: "sends (release_result_of e token seq retry r cx) = []" "sends (release_failed e token retry) = []"
proof -
  have "sends (abandoned_released a token r cx) = []" for a
    by (auto simp: abandoned_released_def Let_def split: release_result.split)
  then show "sends (release_result_of e token seq retry r cx) = []"
    by (auto simp: release_result_of_def Let_def split: option.split release_result.split) (simp_all add: sends_def)
  show "sends (release_failed e token retry) = []"
    by (simp add: release_failed_def split: option.split)
qed

lemma sends_rest [simp]:
  "sends (heartbeat_result e token h cx) = []" "sends (discard_draft e) = []"
  "sends (undo_discard e n c cx) = []" "sends (listed e seq item cx) = []" "sends (claim_failed e attempt seq fl cx) = []"
  "sends (start_failed e attempt seq fl cx) = []"
  by (auto simp: heartbeat_result_def discard_draft_def undo_discard_def listed_def claim_failed_def start_failed_def Let_def
      case_prod_unfold split: option.split touch_result.split write_failure.split)

lemma sends_discard [simp]: "sends (discard_result_of e base seq r cx) = []"
  by (auto simp: discard_result_of_def Let_def split: discard_result.split) (simp_all add: sends_def)

lemma sends_intercept: "intercept_drafting_event e ev cx = Some t \<Longrightarrow> sends t = []"
  by (auto simp: intercept_drafting_event_def intercept_save_def fence_lost_def Let_def case_prod_unfold
      split: entry_event.splits option.splits if_splits save_result.splits)

lemma is_send_kept: "is_send x \<Longrightarrow> \<not> is_cache_remove x"
  by (cases x) (simp_all add: is_cache_remove_def)

lemma sends_reduce_entry: "sends (reduce_entry e ev cx) = sends (both_halves e ev cx)"
proof -
  have "filter is_send (filter (\<lambda>x. \<not> is_cache_remove x) fx) = filter is_send fx" for fx
    by (induction fx) (auto simp: is_send_kept)
  then show ?thesis by (simp add: sends_def reduce_entry_def Let_def)
qed

section \<open>The steps that send\<close>

lemma sends_granted:
  "sends (granted e c n cx) =
     (if cg_kind c = SendLater
      then [SfSendMessage (en_key e) (cg_turn c) (js_trim (dc_text (cg_content c)))
              (ec_mentions (trim_for_send (dc_text (cg_content c)) (dc_mentions (cg_content c)))) (dc_cell (cg_content c))]
      else [SfStart (en_key e) (cg_attempt c) (cg_turn c) n ''composer'' (Some (cg_token c)) None])"
  by (simp add: granted_def Let_def trim_for_send_def)

lemma sends_claim_result:
  "sends (claim_result_of e attempt seq r cx) =
     (case (en_claiming e, r) of
        (Some c, ClaimByYou n _) \<Rightarrow> if cg_attempt c = attempt then sends (granted (acked e seq) c n cx) else []
      | _ \<Rightarrow> [])"
  by (auto simp: claim_result_of_def Let_def case_prod_unfold read_as_save_def split: option.split claim_result.split)

lemma sends_start_result:
  "sends (start_result_of e attempt seq r cx) =
     (case (en_sending e, r) of
        (Some s, StartCreated _ _) \<Rightarrow>
          if sg_attempt s = attempt \<and> sg_phase s = PhaseStarting \<and> cx_active cx \<and> cx_mounted cx
          then [SfSendMessage (en_key e) (sg_turn s) (js_trim (sg_text s)) (ec_mentions (trim_for_send (sg_text s) (sg_mentions s))) None]
          else []
      | _ \<Rightarrow> [])"
  by (auto simp: start_result_of_def start_done_def Let_def trim_for_send_def split: option.split start_result.split)


text \<open>The conditions under which Enter claims the box.\<close>

definition may_claim :: "draft_entry \<Rightarrow> bool \<Rightarrow> send_context \<Rightarrow> bool" where
  "may_claim e ready cx \<longleftrightarrow> en_claiming e = None \<and> en_sending e = None \<and> cx_page_org cx = Some (ds_org (en_key e)) \<and>
     js_trim (dc_text (shown_content e)) \<noteq> [] \<and> length (dc_text (shown_content e)) \<le> max_user_message_chars \<and>
     (stored_thread (en_thread e) \<longrightarrow> en_transcript e = TranscriptLoaded \<and> ready)"

text \<open>What a send effect of a transition rests on, by its kind.\<close>

fun send_rests_on :: "draft_entry \<Rightarrow> key_event \<Rightarrow> send_context \<Rightarrow> send_effect \<Rightarrow> bool" where
  "send_rests_on e ev cx (SfClaim k attempt base c turn token kind) \<longleftrightarrow> k = en_key e \<and>
     ((\<exists>ready. ev = KeySend (EvSubmit ready) \<and> may_claim e ready cx \<and> en_inflight e = None \<and>
         attempt = fr_attempt (cx_fresh cx) \<and> token = fr_token (cx_fresh cx) \<and> base = revision_of e \<and> c = shown_content e \<and>
         kind = (if stored_thread (en_thread e) then SendLater else SendFirst)) \<or>
      (\<exists>cl dev e'. ev = KeyDraft dev \<and> en_inflight e \<noteq> None \<and> en_claiming e = Some cl \<and> cg_content cl = c \<and> cg_turn cl = turn \<and>
         cg_token cl = token \<and> cg_attempt cl = attempt \<and> cg_kind cl = kind \<and>
         tn_entry (reduce_entry e ev cx) = Some e' \<and> en_claiming e' = Some cl \<and> en_inflight e' = None \<and> base = revision_of e'))"
| "send_rests_on e ev cx (SfStart k attempt turn revision origin token prompt) \<longleftrightarrow> k = en_key e \<and>
     ((\<exists>c seq c'. ev = KeySend (EvClaimResult attempt seq (ClaimByYou revision c')) \<and> en_claiming e = Some c \<and> cg_kind c = SendFirst \<and>
         attempt = cg_attempt c \<and> turn = cg_turn c \<and> token = Some (cg_token c) \<and> prompt = None) \<or>
      (\<exists>words ms cell ready. ev = KeySend (EvSubmitExternal words ms cell origin ready) \<and> en_claiming e = None \<and> en_sending e = None \<and>
         cx_page_org cx = Some (ds_org (en_key e)) \<and> \<not> stored_thread (en_thread e) \<and> token = None \<and> turn = fr_turn (cx_fresh cx) \<and>
         map_option ep_text prompt = Some (normalize_draft_text words) \<and> map_option ep_cell prompt = Some cell))"
| "send_rests_on e ev cx (SfSendMessage k turn sent ms cell) \<longleftrightarrow> k = en_key e \<and>
     ((\<exists>c attempt seq n c'. ev = KeySend (EvClaimResult attempt seq (ClaimByYou n c')) \<and> en_claiming e = Some c \<and>
         cg_attempt c = attempt \<and> cg_kind c = SendLater \<and> turn = cg_turn c \<and> sent = js_trim (dc_text (cg_content c)) \<and>
         cell = dc_cell (cg_content c)) \<or>
      (\<exists>words ms' origin ready. ev = KeySend (EvSubmitExternal words ms' cell origin ready) \<and> ready \<and> en_claiming e = None \<and>
         en_sending e = None \<and> cx_page_org cx = Some (ds_org (en_key e)) \<and> stored_thread (en_thread e) \<and>
         en_transcript e = TranscriptLoaded \<and> turn = fr_turn (cx_fresh cx) \<and> sent = js_trim (normalize_draft_text words)) \<or>
      (\<exists>s attempt seq n tr. ev = KeySend (EvStartResult attempt seq (StartCreated n tr)) \<and> en_sending e = Some s \<and>
         sg_attempt s = attempt \<and> sg_phase s = PhaseStarting \<and> turn = sg_turn s \<and> sent = js_trim (sg_text s) \<and> cell = None))"
| "send_rests_on e ev cx _ \<longleftrightarrow> True"

lemma sends_submit:
  "sends (submit e ready cx) =
     (if may_claim e ready cx \<and> en_inflight e = None \<and>
         (case en_conflict e of None \<Rightarrow> True | Some c \<Rightarrow> cf_kind c = CkUncertain \<and> cf_row c = None)
      then [SfClaim (en_key e) (fr_attempt (cx_fresh cx)) (revision_of e) (shown_content e)
              (case failed_turn e (shown_content e) cx of None \<Rightarrow> fr_turn (cx_fresh cx) | Some t \<Rightarrow> t)
              (fr_token (cx_fresh cx)) (if stored_thread (en_thread e) then SendLater else SendFirst)]
      else [])"
  by (auto simp: submit_def may_claim_def claim_effect_def Let_def case_prod_unfold revision_of_def split: option.split)

lemma external_words: "ec_text (normalize_editor_content \<lparr>ec_text = s, ec_mentions = ms\<rparr>) = normalize_draft_text s"
  by (simp add: normalize_editor_content_def Let_def)

lemma rests_external: "\<forall>x\<in>set (sends (submit_external e words ms cell origin ready cx)).
    send_rests_on e (KeySend (EvSubmitExternal words ms cell origin ready)) cx x"
  by (auto simp: submit_external_def Let_def case_prod_unfold external_words trim_for_send_def)

lemma length_external: "length (sends (submit_external e words ms cell origin ready cx)) \<le> 1"
  by (simp add: submit_external_def Let_def case_prod_unfold)


section \<open>What was asked\<close>

lemma after_drafting_sends:
  assumes "sends t = []"
  shows "sends (after_drafting e t) =
    (case tn_entry t of None \<Rightarrow> [] | Some a \<Rightarrow> (case en_claiming a of None \<Rightarrow> [] | Some c \<Rightarrow>
       if en_claiming e \<noteq> None \<and> en_inflight e \<noteq> None \<and> en_inflight a = None then [claim_effect a c] else []))"
  using assms by (auto simp: after_drafting_def Let_def sends_def claim_effect_def split: option.split)

text \<open>A drafting event is quiet but for a claim that waited for a write on the wire.\<close>

lemma sends_drafting:
  obtains t where "both_halves e (KeyDraft dev) cx = after_drafting e t" "sends t = []"
proof (cases "intercept_drafting_event e dev cx")
  case None
  then show ?thesis using that by (simp add: both_halves_def)
next
  case (Some t)
  then show ?thesis using that [of t] sends_intercept by (simp add: both_halves_def)
qed

lemma bump_epoch_fields:
  assumes "tn_entry t = Some a"
  obtains a' where "bump_epoch e ev (tn_entry t) = Some a'" "en_claiming a' = en_claiming a" "en_inflight a' = en_inflight a"
    "revision_of a' = revision_of a" "en_key a' = en_key a" "en_sending a' = en_sending a" "en_local a' = en_local a"
    "en_server a' = en_server a"
proof (cases "\<not> is_edit ev \<and> en_epoch a = en_epoch e \<and> \<not> content_equals (shown_content e) (shown_content a)")
  case True
  then show ?thesis using assms that [of "a\<lparr>en_epoch := en_epoch e + 1\<rparr>"] by (simp add: bump_epoch_def revision_of_def)
next
  case False
  then have "bump_epoch e ev (tn_entry t) = Some a" using assms by (auto simp: bump_epoch_def)
  then show ?thesis using that by blast
qed

lemma claim_stays: "tn_entry (both_halves e (KeyDraft dev) cx) = Some a \<Longrightarrow> en_claiming a = Some c \<Longrightarrow> en_claiming e = Some c"
  using busy.leaves_both_halves [of "KeyDraft dev" e cx] by (auto simp: leaves_def less_busy_def)

lemma drafting_rests:
  "(\<forall>x\<in>set (sends (both_halves e (KeyDraft dev) cx)). send_rests_on e (KeyDraft dev) cx x) \<and>
   length (sends (both_halves e (KeyDraft dev) cx)) \<le> 1"
proof -
  obtain t where t: "both_halves e (KeyDraft dev) cx = after_drafting e t" "sends t = []"
    using sends_drafting by blast
  show ?thesis
  proof (cases "tn_entry t")
    case None
    then show ?thesis using t by (simp add: after_drafting_sends)
  next
    case (Some a)
    then have a: "tn_entry (both_halves e (KeyDraft dev) cx) = Some a" using t by simp
    then obtain a' where a': "tn_entry (reduce_entry e (KeyDraft dev) cx) = Some a'" "en_claiming a' = en_claiming a"
      "en_inflight a' = en_inflight a" "revision_of a' = revision_of a"
      using bump_epoch_fields [of "both_halves e (KeyDraft dev) cx" a e "KeyDraft dev"] by auto
    have k: "en_key a = en_key e" using leaves_both_follows [of e "KeyDraft dev" cx] a by (simp add: leaves_def follows_def)
    show ?thesis
      using t Some a' k claim_stays [OF a]
      by (auto simp: after_drafting_sends claim_effect_def simp del: reduce_entry_simps split: option.splits)
  qed
qed

lemma not_later: "k \<noteq> SendLater \<longleftrightarrow> k = SendFirst"
  by (cases k) simp_all

lemma send_rests:
  "(\<forall>x\<in>set (sends (reduce_send_entry e sev cx)). send_rests_on e (KeySend sev) cx x) \<and>
   length (sends (reduce_send_entry e sev cx)) \<le> 1"
proof (cases sev)
  case (EvSubmit ready)
  then show ?thesis by (auto simp: sends_submit)
next
  case (EvSubmitExternal words ms cell origin ready)
  then show ?thesis using rests_external length_external by simp
next
  case (EvClaimResult attempt seq r)
  then show ?thesis
    by (cases r) (auto simp: sends_claim_result sends_granted acked_def not_later split: option.split)
next
  case (EvStartResult attempt seq r)
  then show ?thesis
    by (cases r) (auto simp: sends_start_result trim_for_send_def Let_def split: option.split)
qed (auto split: option.split)

text \<open>
  C22. What is sent is what the user asked to send, once. Every claim, start and chat message a
  reduction asks for rests on its cause (\<open>send_rests_on\<close>): a claim carries the box as Enter found it, or
  is the pending claim that waited for the write on the wire, on the revision that write left; a start
  or message of the composer follows the server's grant of this very claim and carries its turn, its
  token and its words; a prompt from outside is sent only on a free key of the page's organization; and
  a first message follows its own start's creation. No reduction asks for more than one, and a key is
  never claimed and sent at once.
\<close>

theorem sends_what_was_asked:
  "(\<forall>x\<in>set (sends (reduce_entry e ev cx)). send_rests_on e ev cx x) \<and> length (sends (reduce_entry e ev cx)) \<le> 1 \<and>
   (single e \<longrightarrow> leaves single (reduce_entry e ev cx))"
proof -
  have "leaves single (reduce_entry e ev cx)" if "single e"
    using single_both_halves [OF that, of ev cx]
    by (cases "tn_entry (both_halves e ev cx)") (auto simp: leaves_def bump_epoch_def single_def)
  moreover have "(\<forall>x\<in>set (sends (both_halves e ev cx)). send_rests_on e ev cx x) \<and> length (sends (both_halves e ev cx)) \<le> 1"
  proof (cases ev)
    case (KeyDraft dev)
    then show ?thesis using drafting_rests by simp
  next
    case (KeySend sev)
    then show ?thesis using send_rests [of e sev cx] by (simp add: both_halves_def)
  qed
  ultimately show ?thesis by (simp add: sends_reduce_entry)
qed

text \<open>Enter on the sample draft claims its words on its revision.\<close>

theorem sends_what_was_asked_witness:
  "sends (reduce_entry sample_draft (KeySend (EvSubmit True)) sample_context) =
     [SfClaim sample_draft_key ''a1'' 3 (sample_words ''old'') ''t1'' ''k1'' SendFirst] \<and>
   leaves single (reduce_entry sample_draft (KeySend (EvSubmit True)) sample_context)"
proof
  show "sends (reduce_entry sample_draft (KeySend (EvSubmit True)) sample_context) =
     [SfClaim sample_draft_key ''a1'' 3 (sample_words ''old'') ''t1'' ''k1'' SendFirst]"
    by (simp add: sends_reduce_entry both_halves_def sends_submit may_claim_def sample_draft_def new_entry_def sample_context_def
        sample_draft_key_def sample_row_def sample_words_def sample_fresh_def shown_content_def revision_of_def stored_thread_def
        failed_turn_def Let_def js_trim_def trim_start_def units_def space_unit_def max_user_message_chars_def)
  have "single sample_draft" by (simp add: single_def sample_draft_def new_entry_def)
  then show "leaves single (reduce_entry sample_draft (KeySend (EvSubmit True)) sample_context)"
    using sends_what_was_asked [of sample_draft "KeySend (EvSubmit True)" sample_context] by blast
qed

end
