(* ===== verification/Draft_Wire.thy ===== *)
theory Draft_Wire
  imports Draft_Sends
begin

text \<open>
  One write on the wire. Three effects write a row: a save, a restore and a dismissed failed send. A
  reduction asks for at most one, only on a free wire or by the answer that frees it, and records
  it as the entry's write in flight; a save passes every gate of D7 at that moment.
\<close>

section \<open>Writes\<close>

fun is_save :: "draft_effect \<Rightarrow> bool" where
  "is_save (EfSave _ _ _ _) = True"
| "is_save (EfRestore _ _) = True"
| "is_save _ = False"

fun is_write :: "send_effect \<Rightarrow> bool" where
  "is_write (SfDraft x) = is_save x"
| "is_write (SfDismissFailedSend _ _ _) = True"
| "is_write _ = False"

definition writes :: "send_transition \<Rightarrow> send_effect list" where
  "writes t = filter is_write (tn_effects t)"

text \<open>The write is the one in flight; a save carries the whole box on the acknowledged revision, through every gate.\<close>

definition save_gates :: "draft_entry \<Rightarrow> string option \<Rightarrow> int \<Rightarrow> draft_content \<Rightarrow> bool" where
  "save_gates a org base c \<longleftrightarrow> en_local a = Some c \<and> base = revision_of a \<and> org = Some (ds_org (en_key a)) \<and>
     en_claiming a = None \<and> en_sending a = None \<and> \<not> credential_holds a \<and>
     (en_conflict a = None \<or> en_conflict a = Some uncertain_card)"

fun in_flight :: "draft_entry \<Rightarrow> string option \<Rightarrow> draft_effect \<Rightarrow> bool" where
  "in_flight a org (EfSave k base c f) \<longleftrightarrow> k = en_key a \<and> save_gates a org base c \<and>
     en_inflight a = Some \<lparr>if_op = OpSave, if_base = base, if_content = c, if_failed_send = f\<rparr>"
| "in_flight a org (EfRestore k base) \<longleftrightarrow> k = en_key a \<and>
     (\<exists>c. en_inflight a = Some \<lparr>if_op = OpRestore, if_base = base, if_content = c, if_failed_send = None\<rparr>)"
| "in_flight a org _ \<longleftrightarrow> False"

fun write_rests_on :: "draft_entry \<Rightarrow> string option \<Rightarrow> send_effect \<Rightarrow> bool" where
  "write_rests_on a org (SfDraft x) \<longleftrightarrow> in_flight a org x"
| "write_rests_on a org (SfDismissFailedSend k base c) \<longleftrightarrow> k = en_key a \<and>
     en_inflight a = Some \<lparr>if_op = OpSave, if_base = base, if_content = c, if_failed_send = None\<rparr>"
| "write_rests_on a org _ \<longleftrightarrow> False"

text \<open>\<open>busy\<close> says that a write was on the wire before, and that this is not its answer.\<close>

definition wired :: "bool \<Rightarrow> string option \<Rightarrow> send_transition \<Rightarrow> bool" where
  "wired busy org t \<longleftrightarrow> writes t = [] \<or>
     \<not> busy \<and> (\<exists>a x. tn_entry t = Some a \<and> writes t = [x] \<and> write_rests_on a org x)"

definition saves_well :: "bool \<Rightarrow> string option \<Rightarrow> entry_transition \<Rightarrow> bool" where
  "saves_well busy org t \<longleftrightarrow> filter is_save (snd t) = [] \<or>
     \<not> busy \<and> (\<exists>a x. fst t = Some a \<and> filter is_save (snd t) = [x] \<and> in_flight a org x)"

lemma write_effects [simp]:
  "\<not> is_write (notice k n)" "\<not> is_write (not_sent_for k r)" "\<not> is_write (release_effect k t er u f rt)"
  "\<not> is_write (consume_effect k t rt)" "\<not> is_write (claim_effect a c)"
  by (simp_all add: notice_def not_sent_for_def release_effect_def consume_effect_def claim_effect_def)

lemma writes_simps [simp]:
  "writes (plain e fx) = filter is_write fx" "writes (no_change e) = []" "writes (prepend fx t) = filter is_write fx @ writes t"
  "writes (fork_words e c dc n) = []" "writes (t\<lparr>tn_fence := fe\<rparr>) = writes t"
  by (simp_all add: writes_def)

lemma filter_map_drafts [simp]: "filter is_write (map SfDraft fx) = map SfDraft (filter is_save fx)"
  by (induction fx) simp_all

lemma wired_drafted [simp]: "wired b org (drafted t) = saves_well b org t"
proof -
  have w: "writes (drafted t) = map SfDraft (filter is_save (snd t))" "tn_entry (drafted t) = fst t"
    by (simp_all add: writes_def)
  show ?thesis unfolding wired_def saves_well_def w by (auto simp: map_eq_Cons_conv)
qed

lemma wired_quiet: "writes t = [] \<Longrightarrow> wired b org t"
  by (simp add: wired_def)

lemma wired_simps [simp]:
  "wired b org (no_change e)" "wired b org (fork_words e c dc n)" "wired b org (t\<lparr>tn_fence := fe\<rparr>) = wired b org t"
  "filter is_write fx = [] \<Longrightarrow> wired b org (plain e fx)"
  "filter is_write fx = [] \<Longrightarrow> wired b org (prepend fx t) = wired b org t"
  by (simp_all add: wired_def)

section \<open>Drafting events\<close>

lemma saves_well_quiet [simp]: "filter is_save fx = [] \<Longrightarrow> saves_well b org (e, fx)" "saves_well b org (unchanged a)"
  by (simp_all add: saves_well_def unchanged_def)

lemma saves_well_enter [simp]: "saves_well b org (enter_unsaved e sv r)"
  by (simp add: enter_unsaved_def)

lemma saves_well_try:
  assumes "b \<Longrightarrow> en_inflight e \<noteq> None"
  shows "saves_well b (cx_page_org cx) (try_save e cx)"
  using assms
  by (auto simp: try_save_def saves_well_def unchanged_def enter_unsaved_def Let_def save_gates_def revision_of_def
      credential_holds_def split: option.split)

lemma saves_well_retry [simp]: "saves_well b org (transient_failure e)" "saves_well b org (error_failure e)"
  by (simp_all add: transient_failure_def error_failure_def retry_after_def Let_def enter_unsaved_def)

lemma saves_well_gone [simp]: "saves_well b org (gone_with_nothing_unsaved e t cx)" "saves_well b org (reduce_gone e th cx)"
  by (simp_all add: gone_with_nothing_unsaved_def reduce_gone_def Let_def)

lemma saves_well_refusal [simp]: "saves_well b org (reduce_refusal e r)"
  by (cases r) simp_all

lemma saves_well_conflict: "saves_well False (cx_page_org cx) (reduce_conflict e row cx)"
  by (auto simp: reduce_conflict_def intro!: saves_well_try split: option.split)

definition is_answer :: "entry_event \<Rightarrow> bool" where
  "is_answer ev \<longleftrightarrow> (case ev of EvSaveResult _ _ \<Rightarrow> True | EvRestoreResult _ _ \<Rightarrow> True | EvWriteRejected _ _ \<Rightarrow> True | _ \<Rightarrow> False)"

lemma saves_well_event:
  assumes "b \<Longrightarrow> en_inflight e \<noteq> None \<and> \<not> is_answer ev"
  shows "saves_well b (cx_page_org cx) (reduce_entry_event e ev cx)"
proof (cases ev)
  case (EvEdit n c)
  then show ?thesis by (simp add: reduce_edit_def Let_def)
next
  case (EvSaveResult seq r)
  then have "\<not> b" using assms by (auto simp: is_answer_def)
  with EvSaveResult show ?thesis
    by (auto simp: reduce_save_result_def Let_def intro!: saves_well_try saves_well_conflict split: option.split save_result.split)
next
  case (EvRestoreResult seq r)
  then have "\<not> b" using assms by (auto simp: is_answer_def)
  with EvRestoreResult show ?thesis
    by (auto simp: reduce_restore_result_def Let_def intro!: saves_well_try saves_well_conflict split: option.split restore_result.split)
next
  case EvRestore
  then show ?thesis using assms by (auto simp: reduce_conflict_restore_def Let_def saves_well_def unchanged_def split: option.split)
qed (use assms in \<open>auto simp: reduce_save_trigger_def reduce_not_listed_def Let_def
       intro!: saves_well_try split: option.split unblock_reason.split\<close>)

lemma saves_well_cong:
  assumes "en_key a = en_key b" "en_local a = en_local b" "revision_of a = revision_of b" "en_claiming a = en_claiming b"
    "en_sending a = en_sending b" "credential_holds a = credential_holds b" "en_inflight a = en_inflight b"
    "en_conflict a = None \<and> en_conflict b = Some uncertain_card \<or> en_conflict a = en_conflict b" "in_flight a org x"
  shows "in_flight b org x"
  using assms by (cases x) (auto simp: save_gates_def)


lemma saves_well_draft_entry:
  assumes "b \<Longrightarrow> en_inflight e \<noteq> None \<and> \<not> is_answer ev"
  shows "saves_well b (cx_page_org cx) (reduce_draft_entry e ev cx)"
  using saves_well_event [of b e ev cx] assms
  by (auto simp: reduce_draft_entry_def saves_well_def case_prod_unfold)

lemma credential_holds_other [simp]:
  "credential_holds (e\<lparr>en_conflict := c\<rparr>) = credential_holds e" "credential_holds (e\<lparr>en_epoch := n\<rparr>) = credential_holds e"
  by (simp_all add: credential_holds_def split: option.split)

lemma open_card_uncertain: "open_card e = Some bar \<Longrightarrow> bar = uncertain_card"
  by (cases bar) (auto simp: open_card_def uncertain_card_def split: option.splits if_splits)

lemma saves_well_drafting:
  assumes "b \<Longrightarrow> en_inflight e \<noteq> None \<and> \<not> is_answer ev"
  shows "saves_well b (cx_page_org cx) (reduce_drafting_event e ev cx)"
proof (cases "open_card e")
  case None
  then show ?thesis using saves_well_draft_entry assms by (simp add: reduce_drafting_event_def)
next
  case (Some bar)
  obtain a fx where r: "reduce_draft_entry (e\<lparr>en_conflict := None\<rparr>) ev cx = (a, fx)" by fastforce
  have w: "saves_well b (cx_page_org cx) (a, fx)"
    using saves_well_draft_entry [of b "e\<lparr>en_conflict := None\<rparr>" ev cx] assms r by simp
  have again: "in_flight (a'\<lparr>en_conflict := Some bar\<rparr>) org x" if "in_flight a' org x" "en_conflict a' = None" for a' x org
    using saves_well_cong [of a' "a'\<lparr>en_conflict := Some bar\<rparr>" org x] that open_card_uncertain [OF Some]
    by (simp add: revision_of_def)
  show ?thesis
  proof (cases a)
    case None
    then show ?thesis using w r Some by (simp add: reduce_drafting_event_def)
  next
    case a': (Some a')
    then show ?thesis using w r Some again by (auto simp: reduce_drafting_event_def saves_well_def)
  qed
qed

section \<open>Sending events\<close>

lemma wired_save_now:
  assumes "b \<Longrightarrow> en_inflight e \<noteq> None"
  shows "wired b (cx_page_org cx) (save_now e cx)"
  using saves_well_drafting [of b e "EvSaveTrigger TrBeforeSubmit" "drafting_context cx"] assms
  by (simp add: save_now_def is_answer_def)

lemma wired_dirty:
  assumes "writes t = []" "\<And>a. tn_entry t = Some a \<Longrightarrow> b \<Longrightarrow> en_inflight a \<noteq> None"
  shows "wired b (cx_page_org cx) (save_if_dirty t cx)"
proof (cases "tn_entry t")
  case None
  then show ?thesis using assms(1) by (simp add: save_if_dirty_def wired_quiet)
next
  case (Some a)
  have "wired b (cx_page_org cx) (save_now a cx)" using wired_save_now assms(2) [OF Some] by blast
  moreover have "filter is_write (tn_effects t) = []" using assms(1) by (simp add: writes_def)
  ultimately show ?thesis using Some assms(1) by (auto simp: save_if_dirty_def wired_quiet wired_def writes_def)
qed

lemma wired_as_save: "wired False (cx_page_org cx) (read_as_save e seq r cx)"
  using saves_well_drafting [of False "as_saving e" "EvSaveResult seq r" "drafting_context cx"] by (simp add: read_as_save_def)

lemma quiet_thread_writes [simp]:
  "filter is_write (snd (reload e cx)) = []" "filter is_write (snd (with_thread e t cx)) = []"
  "filter is_write (snd (load_first e cx)) = []" "filter is_write (snd (committed_turn e f cx)) = []"
  "filter is_write (snd (refusal_extras e f cx)) = []"
  by (simp_all add: reload_def with_thread_def load_first_def committed_turn_def refusal_extras_def Let_def)

lemma inflight_thread_as: "thread_as a b \<Longrightarrow> en_inflight b = en_inflight a"
  by (auto simp: thread_as_def)

lemma inflight_threads [simp]:
  "en_inflight (fst (reload e cx)) = en_inflight e" "en_inflight (fst (with_thread e t cx)) = en_inflight e"
  "en_inflight (fst (load_first e cx)) = en_inflight e" "en_inflight (fst (committed_turn e f cx)) = en_inflight e"
  "en_inflight (fst (refusal_extras e f cx)) = en_inflight e"
  by (auto intro!: inflight_thread_as reload_thread_as with_thread_thread_as load_first_thread_as committed_turn_thread_as
      refusal_extras_thread_as)

lemma inflight_helpers [simp]:
  "en_inflight (acked e n) = en_inflight e" "en_inflight (forget e t) = en_inflight e"
  "en_inflight (forget_send e s) = en_inflight e" "en_inflight (with_epoch b e) = en_inflight e"
  "en_inflight (unclaim e c) = en_inflight e" "en_inflight (hand_over e s r) = en_inflight e"
  by (simp_all add: with_epoch_def unclaim_def hand_over_def Let_def)

lemma writes_granted [simp]: "writes (granted e c n cx) = []"
  by (simp add: granted_def Let_def)

lemma writes_claimed [simp]: "writes (claimed_elsewhere e row th cx) = []"
  by (simp add: claimed_elsewhere_def Let_def case_prod_unfold split: option.split)

lemma writes_submit [simp]: "writes (submit e ready cx) = []" "writes (submit_external e ws ms cell origin ready cx) = []"
  by (simp_all add: submit_def submit_external_def Let_def case_prod_unfold)

abbreviation keeps_wire :: "bool \<Rightarrow> draft_entry \<Rightarrow> bool" where
  "keeps_wire b e \<equiv> (b \<longrightarrow> en_inflight e \<noteq> None)"

lemma wired_answers:
  assumes "keeps_wire b e"
  shows "wired b (cx_page_org cx) (consumed_arm e s r n cx)" "wired b (cx_page_org cx) (committed_first e s r cx)"
    "wired b (cx_page_org cx) (released_back e s row cx)" "wired b (cx_page_org cx) (adopt_or_conflict e row cx)"
    "wired b (cx_page_org cx) (fail_external e s er u cx)"
proof -
  show "wired b (cx_page_org cx) (consumed_arm e s r n cx)"
    using assms by (auto simp: consumed_arm_def Let_def intro!: wired_dirty)
  show "wired b (cx_page_org cx) (committed_first e s r cx)"
    using assms by (auto simp: committed_first_def Let_def case_prod_unfold intro!: wired_dirty)
  show "wired b (cx_page_org cx) (released_back e s row cx)"
    using assms by (auto simp: released_back_def Let_def intro!: wired_dirty)
  show "wired b (cx_page_org cx) (adopt_or_conflict e row cx)"
    using assms by (auto simp: adopt_or_conflict_def Let_def intro!: wired_dirty split: option.splits if_splits)
  have "wired b (cx_page_org cx) (save_now (fenced_entry e s er u) cx)"
    using assms by (auto simp: fenced_entry_def intro!: wired_save_now)
  then show "wired b (cx_page_org cx) (fail_external e s er u cx)"
    by (auto simp: fail_external_def Let_def wired_def writes_def)
qed


lemma wired_reads:
  assumes "keeps_wire b e"
  shows "wired b (cx_page_org cx) (read_not_claimed e s row th cx)" "wired b (cx_page_org cx) (claimed_bar_ends e bar row cx)"
  using assms
  by (auto simp: read_not_claimed_def claimed_bar_ends_def Let_def case_prod_unfold wired_quiet intro!: wired_answers)

lemma writes_release_now [simp]:
  "writes (release_now e s er u f) = []" "writes (route_handoff e turn) = []" "writes (consume_failed e token retry) = []"
  "writes (release_retry e s rt) = []" "writes (release_failed e token retry) = []"
  "writes (discard_result_of e base seq r cx) = []" "writes (discard_draft e) = []"
  by (auto simp: release_now_def route_handoff_def consume_failed_def release_retry_def release_failed_def discard_result_of_def
      discard_draft_def Let_def split: option.split discard_result.split) (simp_all add: writes_def)

lemma wired_route:
  assumes "keeps_wire b e"
  shows "wired b (cx_page_org cx) (route_failed e turn f cx)"
proof -
  have "wired b (cx_page_org cx) (route_failed_external e s f cx)" for s
    using assms by (auto simp: route_failed_external_def Let_def case_prod_unfold intro!: wired_answers)
  moreover have "writes (route_failed_claimed e s token f cx) = []" for s token
  proof (cases "tn_entry (release_now e s (failure_code f) False (Some (fr_turn (cx_fresh cx))))")
    case None
    then show ?thesis
      by (auto simp: route_failed_claimed_def Let_def case_prod_unfold release_now_def split: failure_arm.split option.splits)
  next
    case (Some a)
    then show ?thesis
      by (auto simp: route_failed_claimed_def Let_def case_prod_unfold release_now_def split: failure_arm.split option.splits)
  qed
  ultimately show ?thesis by (auto simp: route_failed_def wired_quiet split: option.split)
qed

lemma wired_start:
  assumes "keeps_wire b e"
  shows "wired b (cx_page_org cx) (start_result_of e attempt seq r cx)" "wired b (cx_page_org cx) (start_failed e attempt seq fl cx)"
proof -
  have "wired b (cx_page_org cx) (start_done e' s n tr cx)" if "keeps_wire b e'" for e' s n tr
    using that by (auto simp: start_done_def Let_def intro!: wired_dirty split: option.split)
  moreover have "keeps_wire b (acked e seq)" "keeps_wire b (hand_over (acked e seq) s row)" for s row using assms by simp_all
  ultimately show "wired b (cx_page_org cx) (start_result_of e attempt seq r cx)"
    by (auto simp: start_result_of_def Let_def wired_quiet wired_answers wired_reads split: option.split start_result.split)
  show "wired b (cx_page_org cx) (start_failed e attempt seq fl cx)"
    using assms by (auto simp: start_failed_def Let_def wired_quiet wired_answers split: option.split write_failure.split)
qed

lemma wired_consume:
  assumes "keeps_wire b e"
  shows "wired b (cx_page_org cx) (consume_result_of e token seq retry r cx)"
  using assms
  by (auto simp: consume_result_of_def Let_def case_prod_unfold wired_answers split: option.split consume_result.split)
     (simp_all add: wired_def writes_def)

lemma renumber_writes [simp]: "filter is_write (map (renumber_release k t n) fx) = filter is_write fx"
proof (induction fx)
  case (Cons x fx)
  then show ?case by (cases x) simp_all
qed simp

lemma wired_release:
  assumes "keeps_wire b e"
  shows "wired b (cx_page_org cx) (release_result_of e token seq retry r cx)"
proof -
  have ren: "wired b org (t\<lparr>tn_effects := map (renumber_release k tk n) (tn_effects t)\<rparr>) = wired b org t" for t org k tk n
    by (simp add: wired_def writes_def)
  have "wired b (cx_page_org cx) (abandoned_released a tk r cx)" if "keeps_wire b a" for a tk
    using that by (auto simp: abandoned_released_def Let_def intro!: wired_dirty split: release_result.split option.split)
  then show ?thesis
    using assms by (auto simp: release_result_of_def Let_def ren wired_quiet wired_answers wired_reads
        split: option.split release_result.split)
qed

lemma wired_claim: "wired False (cx_page_org cx) (claim_result_of e attempt seq r cx)"
  "wired False (cx_page_org cx) (claim_failed e attempt seq fl cx)"
proof -
  show "wired False (cx_page_org cx) (claim_result_of e attempt seq r cx)"
    using wired_as_save
    by (auto simp: claim_result_of_def Let_def case_prod_unfold wired_quiet split: option.split claim_result.split)
  show "wired False (cx_page_org cx) (claim_failed e attempt seq fl cx)"
    using saves_well_drafting [of False "as_saving (unclaim e c)" "EvWriteRejected seq n" "drafting_context cx" for c n]
    by (auto simp: claim_failed_def Let_def split: option.split write_failure.split)
qed


lemma wired_heartbeat:
  assumes "keeps_wire b e"
  shows "wired b (cx_page_org cx) (heartbeat_result e token h cx)"
  using assms by (auto simp: heartbeat_result_def wired_reads split: option.split touch_result.split)

lemma wired_listed:
  assumes "keeps_wire b e"
  shows "wired b (cx_page_org cx) (listed e seq item cx)"
  using assms
  by (auto simp: listed_def Let_def case_prod_unfold wired_quiet wired_answers wired_reads split: option.split)

lemma wired_own_write:
  assumes "keeps_wire b e"
  shows "wired b org (undo_discard e n c cx)" "wired b org (dismiss_with e l)"
  using assms
  by (auto simp: undo_discard_def dismiss_with_def Let_def wired_def writes_def with_epoch_def split: option.split)

section \<open>The composed reduction\<close>

definition answers :: "key_event \<Rightarrow> bool" where
  "answers ev \<longleftrightarrow>
     (case ev of KeyDraft dev \<Rightarrow> is_answer dev
      | KeySend sev \<Rightarrow> (case sev of EvClaimResult _ _ _ \<Rightarrow> True | EvClaimFailed _ _ _ \<Rightarrow> True | _ \<Rightarrow> False))"

lemma wired_send:
  assumes "b \<Longrightarrow> en_inflight e \<noteq> None \<and> \<not> answers (KeySend sev)"
  shows "wired b (cx_page_org cx) (reduce_send_entry e sev cx)"
proof -
  have k: "keeps_wire b e" using assms by simp
  have "\<not> b" if "answers (KeySend sev)" using assms that by blast
  then show ?thesis
    using wired_claim [of cx e] k
    by (cases sev) (auto simp: answers_def wired_quiet wired_start wired_route wired_consume wired_release wired_heartbeat
        wired_own_write wired_listed split: option.split)
qed

lemma writes_intercept: "intercept_drafting_event e ev cx = Some t \<Longrightarrow> writes t = []"
  by (auto simp: intercept_drafting_event_def intercept_save_def fence_lost_def Let_def case_prod_unfold
      split: entry_event.splits option.splits if_splits save_result.splits)

lemma writes_drafting [simp]:
  "writes (after_drafting e t) = writes t" "writes (drafted d) = map SfDraft (filter is_save (snd d))"
  by (auto simp: after_drafting_def Let_def writes_def split: option.split)

lemma wired_after_drafting: "wired b org t \<Longrightarrow> wired b org (after_drafting e t)"
  by (auto simp: after_drafting_def Let_def wired_def writes_def split: option.split)

lemma wired_both_halves:
  assumes "b \<Longrightarrow> en_inflight e \<noteq> None \<and> \<not> answers ev"
  shows "wired b (cx_page_org cx) (both_halves e ev cx)"
proof (cases ev)
  case (KeySend sev)
  then show ?thesis using wired_send assms by (simp add: both_halves_def)
next
  case (KeyDraft dev)
  then have "saves_well b (cx_page_org cx) (reduce_drafting_event e dev (drafting_context cx))"
    using saves_well_drafting [of b e dev "drafting_context cx"] assms by (simp add: answers_def)
  then have "wired b (cx_page_org cx) (case intercept_drafting_event e dev cx of Some t \<Rightarrow> t
      | None \<Rightarrow> drafted (reduce_drafting_event e dev (drafting_context cx)))"
    by (auto simp: wired_quiet writes_intercept split: option.split)
  then show ?thesis using KeyDraft wired_after_drafting by (simp add: both_halves_def)
qed

lemma writes_reduce_entry: "writes (reduce_entry e ev cx) = writes (both_halves e ev cx)"
proof -
  have k: "\<not> is_cache_remove x" if "is_write x" for x
    using that by (cases x) (auto simp: is_cache_remove_def split: draft_effect.split)
  have "filter is_write (filter (\<lambda>x. \<not> is_cache_remove x) fx) = filter is_write fx" for fx
    by (induction fx) (auto dest: k)
  then show ?thesis by (simp add: writes_def reduce_entry_def Let_def)
qed

lemma write_rests_bump:
  assumes "write_rests_on a org x"
  shows "write_rests_on (a\<lparr>en_epoch := n\<rparr>) org x"
proof (cases x)
  case (SfDraft y)
  then show ?thesis
    using assms saves_well_cong [of a "a\<lparr>en_epoch := n\<rparr>" org y] by (simp add: revision_of_def)
qed (use assms in simp_all)

text \<open>
  C23. One write at a time, through every gate. Whatever the entry and the event, a reduction asks for
  at most one write of the row (a save, a restore or a dismissed failed send), and the entry it leaves
  records exactly that write as the one in flight. While a write is on the wire, no event but its own
  answer (or a claim's, which the server serializes with it) asks for another. A save carries the whole
  box on the revision last acknowledged, on the page's own organization, with no claim or send pending,
  under no card but the uncertain one, and never words that look like a credential the user has not
  let through (D7, D36, R2).
\<close>

theorem one_write_at_a_time:
  "writes (reduce_entry e ev cx) = [] \<or>
   (en_inflight e = None \<or> answers ev) \<and>
   (\<exists>e' x. tn_entry (reduce_entry e ev cx) = Some e' \<and> writes (reduce_entry e ev cx) = [x] \<and>
      write_rests_on e' (cx_page_org cx) x)"
proof -
  have "wired (en_inflight e \<noteq> None \<and> \<not> answers ev) (cx_page_org cx) (both_halves e ev cx)"
    by (rule wired_both_halves) simp
  moreover have "\<exists>e'. bump_epoch e ev (Some a) = Some e' \<and> write_rests_on e' org x" if "write_rests_on a org x" for a org x
    using that write_rests_bump by (auto simp: bump_epoch_def)
  ultimately show ?thesis by (fastforce simp: wired_def writes_reduce_entry)
qed


section \<open>Two departures from the documented behaviour\<close>

text \<open>
  The uncertain card's Dismiss sends the box as it is. Words that look like a credential, which no save
  trigger would send, go to the server with it (the source says they must not reach the server until the
  user answers the credential notice).
\<close>

lemma dismiss_carries_credential:
  assumes "credential_holds e" "en_local e = Some l" "en_server e = Some r" "en_inflight e = None"
    "en_conflict e = Some uncertain_card"
  shows "writes (reduce_entry e (KeySend EvUncertainDismiss) cx) = [SfDismissFailedSend (en_key e) (sd_revision r) l]"
    "writes (reduce_entry (e\<lparr>en_conflict := None\<rparr>) (KeyDraft (EvSaveTrigger tr)) cx) = []"
proof -
  have "copy_row e = None" "map_option cf_kind (en_conflict e) = Some CkUncertain"
    using assms by (simp_all add: copy_row_def conflict_row_def uncertain_card_def)
  then show "writes (reduce_entry e (KeySend EvUncertainDismiss) cx) = [SfDismissFailedSend (en_key e) (sd_revision r) l]"
    using assms by (simp add: writes_reduce_entry both_halves_def dismiss_with_def Let_def with_epoch_def)
  let ?e = "e\<lparr>en_conflict := None\<rparr>"
  have "filter is_save (snd (reduce_draft_entry ?e (EvSaveTrigger tr) (drafting_context cx))) = []"
    using assms by (auto simp: reduce_draft_entry_def reduce_save_trigger_def try_save_def enter_unsaved_def unchanged_def)
  then show "writes (reduce_entry ?e (KeyDraft (EvSaveTrigger tr)) cx) = []"
    using assms
    by (simp add: writes_reduce_entry both_halves_def intercept_drafting_event_def reduce_drafting_event_def open_card_def)
qed

text \<open>
  An uncertain release that fails is asked for again as a certain one, and without the fresh turn it
  was to leave: the retry says \<open>uncertain = False\<close>, no fresh turn and the error \<open>retry\<close>, whatever the
  release said.
\<close>

lemma release_retry_forgets:
  assumes "en_sending e = Some s" "sg_token s = Some token" "sg_turn s = turn" "sg_phase s = PhaseRouting"
    "classify_route_failure f = ArmUncertain"
  shows "SfRelease (en_key e) token (failure_code f) True None 0 0 \<in> set (tn_effects (reduce_entry e (KeySend (EvRouteFailed turn f)) cx))"
    "\<exists>e'. tn_entry (reduce_entry e (KeySend (EvRouteFailed turn f)) cx) = Some e' \<and>
       tn_effects (reduce_entry e' (KeySend (EvReleaseFailed token seq 0 fl)) cx) = [SfRelease (en_key e) token ''retry'' False None 1 1000]"
proof -
  let ?a = "e\<lparr>en_sending := Some (s\<lparr>sg_phase := PhaseReleasing\<rparr>)\<rparr>"
  have t: "both_halves e (KeySend (EvRouteFailed turn f)) cx =
      plain ?a [SfRemoveOptimistic (en_key e) (sg_turn s), release_effect (en_key e) token (failure_code f) True None 0]"
    using assms by (simp add: both_halves_def route_failed_def route_failed_claimed_def release_now_def Let_def prepend_def plain_def)
  have [simp]: "holds_cache (Some e)" "holds_cache (Some ?a)" using assms by (simp_all add: holds_cache_def)
  have sh: "shown_content ?a = shown_content e" using assms by (simp add: shown_content_def split: option.split)
  then have b: "tn_entry (reduce_entry e (KeySend (EvRouteFailed turn f)) cx) = Some ?a"
    by (simp add: t bump_epoch_def)
  have nc: "\<not> is_cache_remove (release_effect k tk er u fr n)" "\<not> is_cache_remove (SfRemoveOptimistic k tk)" for k tk er u fr n
    by (simp_all add: is_cache_remove_def release_effect_def)
  show "SfRelease (en_key e) token (failure_code f) True None 0 0 \<in> set (tn_effects (reduce_entry e (KeySend (EvRouteFailed turn f)) cx))"
    by (simp add: reduce_entry_def Let_def t nc) (simp add: release_effect_def delay_for_def)
  let ?c = "?a\<lparr>en_abandoned := (if token \<in> set (en_abandoned e) then en_abandoned e else en_abandoned e @ [token])\<rparr>"
  have u: "both_halves ?a (KeySend (EvReleaseFailed token seq 0 fl)) cx =
      plain ?c [release_effect (en_key e) token ''retry'' False None 1]"
    using assms by (simp add: both_halves_def release_failed_def releasing_send_def release_retry_def)
  have "holds_cache (Some (?c\<lparr>en_epoch := n\<rparr>))" "holds_cache (Some ?c)" for n by (simp_all add: holds_cache_def)
  then have "tn_effects (reduce_entry ?a (KeySend (EvReleaseFailed token seq 0 fl)) cx) = [SfRelease (en_key e) token ''retry'' False None 1 1000]"
    by (simp add: reduce_entry_def Let_def u nc bump_epoch_def)
       (simp add: release_effect_def delay_for_def retry_delay_ms_def max_retry_delay_ms_def)
  with b show "\<exists>e'. tn_entry (reduce_entry e (KeySend (EvRouteFailed turn f)) cx) = Some e' \<and>
       tn_effects (reduce_entry e' (KeySend (EvReleaseFailed token seq 0 fl)) cx) = [SfRelease (en_key e) token ''retry'' False None 1 1000]"
    by blast
qed

end
