(* ===== verification/Draft_Runs.thy ===== *)
theory Draft_Runs
  imports Draft_Wire
begin

text \<open>
  The drafts store over its events: each key's entry stands under its own id, once, and is never claimed
  and sent at once; an event of one key touches no other key's entry; words that must move to a new key
  are there before the old key goes, and a row left behind is discarded only once they are saved (D18).
\<close>

section \<open>The store's shape\<close>

definition well_stored :: "drafts_store \<Rightarrow> bool" where
  "well_stored s \<longleftrightarrow> distinct (map fst (st_entries s)) \<and>
     (\<forall>p\<in>set (st_entries s). fst p = key_id (en_key (snd p)) \<and> single (snd p))"

lemma set_update_subset: "set (AList.update k v l) \<subseteq> insert (k, v) (set l)"
  by (induction l) auto

lemma set_delete_subset: "set (AList.delete k l) \<subseteq> set l"
  by (auto simp: AList.delete_eq)

lemma update_entries: "p \<in> set (AList.update i e l) \<Longrightarrow> p = (i, e) \<or> p \<in> set l"
  using set_update_subset [of i e l] by blast

lemma delete_entries: "p \<in> set (AList.delete i l) \<Longrightarrow> p \<in> set l"
  using set_delete_subset [of i l] by blast

lemma well_stored_at:
  assumes "well_stored s" "store_entry s i = Some e"
  shows "key_id (en_key e) = i" "single e"
  using assms by (auto simp: well_stored_def store_entry_def dest!: map_of_SomeD)

lemma well_stored_list:
  assumes "well_stored s" "e \<in> set (map snd (st_entries s))"
  shows "single e"
  using assms by (auto simp: well_stored_def)

lemma well_stored_cong: "st_entries a = st_entries b \<Longrightarrow> well_stored a = well_stored b"
  by (simp add: well_stored_def)

lemma well_stored_updates [simp]:
  "well_stored (s\<lparr>st_active_key := a\<rparr>) = well_stored s" "well_stored (s\<lparr>st_forks := f\<rparr>) = well_stored s"
  "well_stored (s\<lparr>st_fences := fe\<rparr>) = well_stored s" "well_stored (s\<lparr>st_page_org := po\<rparr>) = well_stored s"
  by (rule well_stored_cong; simp)+

lemma entry_updates [simp]:
  "store_entry (s\<lparr>st_active_key := a\<rparr>) = store_entry s" "store_entry (s\<lparr>st_forks := f\<rparr>) = store_entry s"
  "store_entry (s\<lparr>st_fences := fe\<rparr>) = store_entry s" "store_entry (s\<lparr>st_page_org := po\<rparr>) = store_entry s"
  by (auto simp: store_entry_def)

lemma store_put_entry: "store_entry (store_put s k e fence) i = (if i = key_id k then e else store_entry s i)"
  by (cases e) (auto simp: store_put_def store_entry_def Let_def AList.update_conv' AList.delete_conv')

lemma store_put_forks [simp]: "st_forks (store_put s k e fence) = st_forks s"
  by (simp add: store_put_def Let_def)

lemma well_stored_put:
  assumes "well_stored s" "\<And>e'. e = Some e' \<Longrightarrow> key_id (en_key e') = key_id k \<and> single e'"
  shows "well_stored (store_put s k e fence)"
proof (cases e)
  case None
  then show ?thesis
    using assms(1) by (auto simp: well_stored_def store_put_def Let_def AList.distinct_delete dest: delete_entries)
next
  case (Some e')
  then show ?thesis
    using assms by (fastforce simp: well_stored_def store_put_def Let_def AList.distinct_update dest: update_entries)
qed

section \<open>One key's event\<close>

text \<open>What a transition leaves may stand under the key.\<close>

definition fits :: "draft_key \<Rightarrow> draft_entry \<Rightarrow> bool" where
  "fits k e \<longleftrightarrow> key_id (en_key e) = key_id k \<and> single e"

lemma reduce_entry_fits:
  assumes "single e" "key_id (en_key e) = key_id k"
  shows "leaves (fits k) (reduce_entry e ev cx)"
proof -
  have "leaves single (reduce_entry e ev cx)"
    using single_both_halves [OF assms(1), of ev cx]
    by (cases "tn_entry (both_halves e ev cx)") (auto simp: leaves_def bump_epoch_def single_def)
  then show ?thesis
    using reduce_entry_follows [of e ev cx] assms(2)
    by (cases "tn_entry (reduce_entry e ev cx)") (simp_all add: leaves_def fits_def follows_def del: reduce_entry_simps)
qed

lemma seeded_save:
  fixes f :: draft_fork and k :: draft_key
  defines "seeded \<equiv> (new_entry k ThreadNone)\<lparr>en_local := Some (fk_content f)\<rparr>"
  obtains e' where "tn_entry (reduce_entry seeded (KeyDraft (EvSaveTrigger TrBeforeSubmit)) cx) = Some e'" "en_key e' = k"
    "en_local e' = Some (fk_content f)" "single e'"
proof -
  have o: "open_card seeded = None" "single seeded" "en_key seeded = k" "en_local seeded = Some (fk_content f)"
    by (simp_all add: seeded_def open_card_def new_entry_def single_def)
  obtain a where a: "fst (reduce_save_trigger seeded TrBeforeSubmit (drafting_context cx)) = Some a" "saved_as seeded a"
    using reduce_save_trigger_saved_as by blast
  have b: "tn_entry (both_halves seeded (KeyDraft (EvSaveTrigger TrBeforeSubmit)) cx) = Some a"
    using a(1) o(1) by (simp add: both_halves_def intercept_drafting_event_def reduce_drafting_event_def reduce_draft_entry_fst)
  obtain e' where e': "tn_entry (reduce_entry seeded (KeyDraft (EvSaveTrigger TrBeforeSubmit)) cx) = Some e'" "en_key e' = en_key a"
    "en_local e' = en_local a" "en_claiming e' = en_claiming a" "en_sending e' = en_sending a"
    using bump_epoch_fields [OF b, of seeded "KeyDraft (EvSaveTrigger TrBeforeSubmit)"] b by auto
  show ?thesis
    using that [OF e'(1)] e' o saved_as_fields [OF a(2)] by (simp add: single_def)
qed

lemma apply_fork_entries:
  assumes "apply_fork s k f fb env = (s', fx)"
  shows "store_entry s (key_id (fork_key k env)) \<noteq> None \<or> dk_conversation (fork_key k env) = dk_conversation k \<Longrightarrow>
      s' = store_put s k fb (Some None) \<and> fx = []"
    "\<not> (store_entry s (key_id (fork_key k env)) \<noteq> None \<or> dk_conversation (fork_key k env) = dk_conversation k) \<Longrightarrow>
      (\<exists>e'. en_key e' = fork_key k env \<and> en_local e' = Some (fk_content f) \<and> single e' \<and>
        (\<forall>i. store_entry s' i = (if i = key_id (fork_key k env) then Some e' else if i = key_id k then None else store_entry s i))) \<and>
      st_forks s' = (case fk_discard f of None \<Rightarrow> st_forks s
        | Some r \<Rightarrow> AList.update (key_id (fork_key k env)) \<lparr>pf_from = k, pf_revision = r\<rparr> (st_forks s)) \<and>
      (well_stored s \<longrightarrow> well_stored s')"
proof -
  show "s' = store_put s k fb (Some None) \<and> fx = []"
    if "store_entry s (key_id (fork_key k env)) \<noteq> None \<or> dk_conversation (fork_key k env) = dk_conversation k"
    using that assms by (auto simp: apply_fork_def Let_def)
  assume n: "\<not> (store_entry s (key_id (fork_key k env)) \<noteq> None \<or> dk_conversation (fork_key k env) = dk_conversation k)"
  let ?to = "fork_key k env" and ?seeded = "(new_entry (fork_key k env) ThreadNone)\<lparr>en_local := Some (fk_content f)\<rparr>"
  obtain s3 cx where s3: "\<And>i. store_entry s3 i = (if i = key_id k then None else store_entry s i)"
    "st_forks s3 = (case fk_discard f of None \<Rightarrow> st_forks s
       | Some r \<Rightarrow> AList.update (key_id ?to) \<lparr>pf_from = k, pf_revision = r\<rparr> (st_forks s))"
    "well_stored s \<Longrightarrow> well_stored s3"
    and s': "s' = store_put (store_put s3 ?to (Some ?seeded) None) ?to
       (tn_entry (reduce_entry ?seeded (KeyDraft (EvSaveTrigger TrBeforeSubmit)) cx))
       (tn_fence (reduce_entry ?seeded (KeyDraft (EvSaveTrigger TrBeforeSubmit)) cx))"
  proof -
    let ?s1 = "store_put s k None (Some None)"
    let ?s2 = "if map_of (st_active_key ?s1) (scope_id k) = Some (dk_conversation k)
      then ?s1\<lparr>st_active_key := AList.update (scope_id k) (dk_conversation ?to) (st_active_key ?s1)\<rparr> else ?s1"
    let ?s3 = "case fk_discard f of None \<Rightarrow> ?s2
      | Some r \<Rightarrow> ?s2\<lparr>st_forks := AList.update (key_id ?to) \<lparr>pf_from = k, pf_revision = r\<rparr> (st_forks ?s2)\<rparr>"
    show ?thesis
    proof (rule that [of ?s3 "store_context (store_put ?s3 ?to (Some ?seeded) None) ?to env"])
      show "store_entry ?s3 i = (if i = key_id k then None else store_entry s i)" for i
        by (simp add: store_put_entry split: option.split)
      show "st_forks ?s3 = (case fk_discard f of None \<Rightarrow> st_forks s
          | Some r \<Rightarrow> AList.update (key_id ?to) \<lparr>pf_from = k, pf_revision = r\<rparr> (st_forks s))"
        by (simp split: option.split)
      show "well_stored ?s3" if "well_stored s"
        using well_stored_put [OF that, of None k "Some None"] by (simp split: option.split)
      show "s' = store_put (store_put ?s3 ?to (Some ?seeded) None) ?to
       (tn_entry (reduce_entry ?seeded (KeyDraft (EvSaveTrigger TrBeforeSubmit)) (store_context (store_put ?s3 ?to (Some ?seeded) None) ?to env)))
       (tn_fence (reduce_entry ?seeded (KeyDraft (EvSaveTrigger TrBeforeSubmit)) (store_context (store_put ?s3 ?to (Some ?seeded) None) ?to env)))"
        using assms unfolding apply_fork_def Let_def by (simp only: n if_False prod.inject)
    qed
  qed
  obtain e' where e': "tn_entry (reduce_entry ?seeded (KeyDraft (EvSaveTrigger TrBeforeSubmit)) cx) = Some e'" "en_key e' = ?to"
    "en_local e' = Some (fk_content f)" "single e'"
    using seeded_save by blast
  have "st_forks s' = st_forks s3" by (simp add: s')
  moreover have "store_entry s' i = (if i = key_id ?to then Some e' else if i = key_id k then None else store_entry s i)" for i
    using e'(1) by (simp add: s' store_put_entry s3(1) del: reduce_entry_simps)
  moreover have "well_stored s'" if "well_stored s"
  proof -
    have "well_stored (store_put s3 ?to (Some ?seeded) None)"
      by (rule well_stored_put [OF s3(3) [OF that]]) (auto simp: single_def new_entry_def)
    then show ?thesis
      unfolding s' by (rule well_stored_put) (use e' in \<open>simp del: reduce_entry_simps\<close>)
  qed
  ultimately show "(\<exists>e'. en_key e' = fork_key k env \<and> en_local e' = Some (fk_content f) \<and> single e' \<and>
        (\<forall>i. store_entry s' i = (if i = key_id (fork_key k env) then Some e' else if i = key_id k then None else store_entry s i))) \<and>
      st_forks s' = (case fk_discard f of None \<Rightarrow> st_forks s
        | Some r \<Rightarrow> AList.update (key_id (fork_key k env)) \<lparr>pf_from = k, pf_revision = r\<rparr> (st_forks s)) \<and>
      (well_stored s \<longrightarrow> well_stored s')"
    using e' s3(2) by auto
qed


lemma well_stored_commit:
  assumes "well_stored s" "leaves (fits k) t"
  shows "well_stored (fst (commit s k t env))"
proof (cases "tn_fork t")
  case None
  have "well_stored (store_put s k (tn_entry t) (tn_fence t))"
    by (rule well_stored_put [OF assms(1)]) (use assms(2) in \<open>simp add: leaves_def fits_def\<close>)
  then show ?thesis using None by (cases "tn_entry t") (simp_all add: commit_def Let_def)
next
  case (Some f)
  obtain s' fx where r: "apply_fork s k f (tn_entry t) env = (s', fx)" by fastforce
  have "well_stored (store_put s k (tn_entry t) (Some None))"
    by (rule well_stored_put [OF assms(1)]) (use assms(2) in \<open>simp add: leaves_def fits_def\<close>)
  then have "well_stored s'" using apply_fork_entries [OF r] assms(1) by blast
  then show ?thesis using Some r by (simp add: commit_def)
qed

lemma well_stored_event:
  assumes "well_stored s"
  shows "well_stored (fst (apply_key_event s k ev env))"
proof (cases "store_entry s (key_id k)")
  case None
  then show ?thesis using assms by (simp add: apply_key_event_def)
next
  case (Some e)
  have "leaves (fits (en_key e)) (reduce_entry e ev (store_context s (en_key e) env))"
    by (rule reduce_entry_fits) (use well_stored_at [OF assms Some] in simp_all)
  then have "well_stored (fst (commit s (en_key e) (reduce_entry e ev (store_context s (en_key e) env)) env))"
    by (rule well_stored_commit [OF assms])
  then show ?thesis
    using Some by (simp add: apply_key_event_def Let_def case_prod_unfold split: option.split)
qed

section \<open>Every store event\<close>

lemma well_stored_resume:
  "well_stored s \<Longrightarrow> \<forall>e\<in>set es. single e \<Longrightarrow> well_stored (fst (resume_keys es org env s))"
proof (induction es arbitrary: s)
  case (Cons e es)
  let ?s = "store_put s (en_key e) (Some (e\<lparr>en_save := SvIdle, en_blocked_by := None\<rparr>)) None"
  have "well_stored ?s"
    by (rule well_stored_put [OF Cons.prems(1)]) (use Cons.prems(2) in \<open>simp add: single_def\<close>)
  then have "well_stored (fst (apply_key_event ?s (en_key e) (KeyDraft (EvSaveTrigger TrTimer)) env))"
    by (rule well_stored_event)
  then show ?case using Cons by (simp add: case_prod_unfold)
qed simp

lemma well_stored_steps:
  assumes "\<And>x s. x \<in> set xs \<Longrightarrow> well_stored s \<Longrightarrow> well_stored (fst (f x s))" "well_stored s"
  shows "well_stored (fst (run_steps f xs s))"
  using assms by (induction xs arbitrary: s) (auto simp: case_prod_unfold)

lemma well_stored_page_org: "well_stored s \<Longrightarrow> well_stored (fst (store_page_org s org env))"
  using well_stored_list [of s]
  by (auto simp: store_page_org_def Let_def intro!: well_stored_resume split: option.split)

lemma restore_fits: "key_id (ca_key c) = key_id k \<Longrightarrow> leaves (fits k) (restore_from_cache c item cx)"
proof -
  assume k: "key_id (ca_key c) = key_id k"
  let ?b = "restored_entry c item"
  have b: "en_key ?b = ca_key c" "en_claiming ?b = None" "en_sending ?b = None"
    by (simp_all add: restored_entry_def Let_def new_entry_def)
  have sv: "leaves (fits k) (save_now a cx)" if "fits k a" for a
    by (rule leaves_save_now) (use that in \<open>auto simp: fits_def single_def dest: saved_as_fields\<close>)
  have "leaves (fits k) (fail_external ?b s er u cx)" for s er u
  proof -
    have "fits k (fenced_entry ?b s er u)" using k b by (simp add: fits_def single_def fenced_entry_def)
    then show ?thesis using sv by (simp add: fail_external_def Let_def leaves_def)
  qed
  moreover have "leaves (fits k) (save_now ?b cx)" using sv k b by (simp add: fits_def single_def)
  ultimately show ?thesis
    using k b by (auto simp: restore_from_cache_def Let_def fits_def single_def fork_words_def leaves_def split: option.split)
qed

lemma well_stored_restored: "\<forall>p\<in>set (restored_map cs scope). fst p = key_id (ca_key (snd p))"
proof -
  have "\<forall>p\<in>set (fold (\<lambda>c. AList.update (key_id (ca_key c)) c) ds l). fst p = key_id (ca_key (snd p))"
    if "\<forall>p\<in>set l. fst p = key_id (ca_key (snd p))" for ds l
    using that
  proof (induction ds arbitrary: l)
    case (Cons c ds)
    have "\<forall>p\<in>set (AList.update (key_id (ca_key c)) c l). fst p = key_id (ca_key (snd p))"
      using Cons.prems by (auto dest: update_entries)
    then show ?case using Cons.IH by simp
  qed simp
  from this [of "[]"] show ?thesis unfolding restored_map_def by simp
qed

lemma well_stored_new_key: "well_stored s \<Longrightarrow> well_stored (store_put s k (Some (new_entry k t)) None)"
  by (rule well_stored_put) (auto simp: new_entry_def single_def)

lemma well_stored_listed_key:
  assumes "well_stored s"
  shows "well_stored (fst (listed_key (restored_map cs scope) seq env item s))"
proof -
  let ?k = "row_key (le_row item)"
  have "key_id (ca_key c) = key_id ?k" if "map_of (restored_map cs scope) (key_id ?k) = Some c" for c
    using well_stored_restored [of cs scope] map_of_SomeD [OF that] by fastforce
  then show ?thesis
    using assms by (auto simp: listed_key_def Let_def
        intro!: well_stored_event well_stored_commit restore_fits well_stored_new_key split: option.split)
qed

lemma well_stored_restore_key: "well_stored s \<Longrightarrow> well_stored (fst (restore_key seen env p s))"
  by (auto simp: restore_key_def intro!: well_stored_commit restore_fits)

lemma well_stored_unlisted_key: "well_stored s \<Longrightarrow> well_stored (fst (unlisted_key seen r scope seq env p s))"
  by (auto simp: unlisted_key_def intro!: well_stored_event)

lemma well_stored_rows:
  assumes "well_stored s"
  shows "well_stored (fst (server_rows s seq generation result cs env))"
  using assms by (auto simp: server_rows_def Let_def intro!: well_stored_steps well_stored_page_org well_stored_listed_key
      well_stored_restore_key well_stored_unlisted_key split: option.split)

text \<open>The drafting half's own store steps.\<close>

lemma through_drafts_entries:
  "st_entries (fst (through_drafts s ev env)) = st_entries (fst (reduce_drafts (drafts_state.truncate s) ev (drafts_env.truncate env)))"
  by (simp add: through_drafts_def drafts_state.extend_def case_prod_unfold)

definition well_listed :: "(string \<times> draft_entry) list \<Rightarrow> bool" where
  "well_listed es \<longleftrightarrow> distinct (map fst es) \<and> (\<forall>p\<in>set es. fst p = key_id (en_key (snd p)) \<and> single (snd p))"

lemma well_stored_listed: "well_stored s \<longleftrightarrow> well_listed (st_entries s)"
  by (simp add: well_stored_def well_listed_def)

lemma well_listed_put:
  assumes "well_listed (st_entries s)" "\<And>e'. e = Some e' \<Longrightarrow> key_id (en_key e') = i \<and> single e'"
  shows "well_listed (st_entries (put_entry s i e))"
  using assms
  by (cases e) (fastforce simp: well_listed_def put_entry_def AList.distinct_delete AList.distinct_update
      dest: delete_entries update_entries)+

lemma well_listed_apply:
  assumes "well_listed (st_entries s)"
  shows "well_listed (st_entries (fst (apply_to_entry s k (EvSaveTrigger r) env)))"
proof (cases "entry_at s (key_id k)")
  case (Some e)
  then have e: "key_id (en_key e) = key_id k" "single e"
    using assms by (auto simp: entry_at_def well_listed_def dest!: map_of_SomeD)
  let ?t = "reduce_draft_entry e (EvSaveTrigger r) (context_for s (en_key e) env)"
  obtain a where a: "fst ?t = Some a" "saved_as e a"
    using reduce_save_trigger_saved_as [of e r "context_for s (en_key e) env"] by (auto simp: reduce_draft_entry_fst)
  have "well_listed (st_entries (put_entry s (key_id k) (fst ?t)))"
    by (rule well_listed_put [OF assms]) (use a e saved_as_fields [OF a(2)] in \<open>simp add: single_def\<close>)
  then show ?thesis using Some a by (simp add: apply_to_entry_def case_prod_unfold Let_def)
qed (use assms in \<open>simp add: apply_to_entry_def\<close>)

lemma well_listed_drafts:
  assumes "well_listed (st_entries s)" "\<And>k dev. ev \<noteq> EvEntry k dev" "\<And>org. ev \<noteq> EvPageOrg org"
  shows "well_listed (st_entries (fst (reduce_drafts s ev env)))"
proof (cases ev)
  case (EvOpenNew c)
  then show ?thesis
    using assms(1)
    by (auto simp: open_new_def Let_def new_entry_def single_def intro!: well_listed_put split: option.split)
next
  case (EvOpenArtifactNew c a)
  then show ?thesis
    using assms(1)
    by (auto simp: open_artifact_new_def Let_def new_entry_def single_def intro!: well_listed_apply well_listed_put split: option.split)
next
  case (EvSelect k t)
  have "key_id (en_key e) = key_id k \<and> single e" if "entry_at s (key_id k) = Some e" for e
    using assms(1) that by (auto simp: entry_at_def well_listed_def dest!: map_of_SomeD)
  then show ?thesis
    using EvSelect assms(1)
    by (auto simp: select_key_def Let_def new_entry_def single_def intro!: well_listed_put split: option.split)
qed (use assms in \<open>auto simp: scope_change_def viewer_change_def Let_def well_listed_def\<close>)


lemma well_stored_through:
  assumes "well_stored s" "\<And>k dev. ev \<noteq> EvEntry k dev" "\<And>org. ev \<noteq> EvPageOrg org"
  shows "well_stored (fst (through_drafts s ev env))"
  using well_listed_drafts [of "drafts_state.truncate s" ev "drafts_env.truncate env"] assms
  by (simp add: well_stored_listed through_drafts_entries drafts_state.truncate_def)

lemma well_stored_reduce:
  assumes "well_stored s"
  shows "well_stored (fst (reduce_store s ev env))"
proof (cases ev)
  case (StViewerChange viewer)
  then show ?thesis
    using assms well_stored_through [OF assms, of "EvViewerChange viewer" env]
    by (simp add: store_viewer_change_def case_prod_unfold)
qed (use assms in \<open>auto intro: well_stored_through well_stored_rows well_stored_page_org well_stored_event\<close>)

section \<open>Runs of the store\<close>

fun store_run :: "drafts_store \<Rightarrow> (store_event \<times> store_env) list \<Rightarrow> drafts_store" where
  "store_run s [] = s"
| "store_run s ((ev, env) # evs) = store_run (fst (reduce_store s ev env)) evs"

text \<open>
  C24. The store stays well formed over every run. From a fresh store, whatever the events, the rows the
  server lists and the items the cache restores, in any order: every entry stands under the id of its own
  key, no id twice, so a key has at most one entry and an event finds the entry of its own key; and no key
  is ever claimed and sent at once, so a tab never has two sends of one conversation pending.
\<close>

theorem store_well_formed:
  "distinct (map fst (st_entries (store_run (initial_drafts_store viewer) evs))) \<and>
   list_all (\<lambda>p. fst p = key_id (en_key (snd p)) \<and> (en_claiming (snd p) = None \<or> en_sending (snd p) = None))
     (st_entries (store_run (initial_drafts_store viewer) evs))"
proof -
  have "well_stored (store_run s evs)" if "well_stored s" for s
    using that
  proof (induction evs arbitrary: s)
    case (Cons p evs)
    obtain ev env where p: "p = (ev, env)" by fastforce
    show ?case unfolding p store_run.simps by (rule Cons.IH, rule well_stored_reduce, rule Cons.prems)
  qed simp
  moreover have "well_stored (initial_drafts_store viewer)"
    by (simp add: initial_drafts_store_def initial_drafts_state_def drafts_state.extend_def well_stored_def)
  ultimately have "well_stored (store_run (initial_drafts_store viewer) evs)" by blast
  then show ?thesis unfolding well_stored_def single_def list_all_iff by blast
qed

section \<open>Moving words to a new key\<close>

definition store_holds :: "utf16 \<Rightarrow> drafts_store \<Rightarrow> bool" where
  "store_holds w s \<longleftrightarrow> (\<exists>p\<in>set (st_entries s). entry_holds w (snd p))"

lemma store_holdsI: "store_entry s i = Some e \<Longrightarrow> entry_holds w e \<Longrightarrow> store_holds w s"
  unfolding store_holds_def store_entry_def by (rule bexI [of _ "(i, e)"]) (simp_all add: map_of_SomeD)

lemma commit_holds:
  assumes "leaves (fits k) t" "keeps_words w t"
  shows "store_holds w (fst (commit s k t env))"
proof -
  obtain a where a: "tn_entry t = Some a" "entry_holds w a"
    using assms(2) by (auto simp: keeps_words_def)
  have p: "store_entry (store_put s k (Some a) fe) (key_id k) = Some a" for fe by (simp add: store_put_entry)
  show ?thesis
  proof (cases "tn_fork t")
    case None
    then show ?thesis using a store_holdsI [OF p a(2)] by (simp add: commit_def Let_def)
  next
    case (Some f)
    then have f: "sublist w (dc_text (fk_content f))" using assms(2) by (simp add: keeps_words_def)
    obtain s' fx where r: "apply_fork s k f (tn_entry t) env = (s', fx)" by fastforce
    have s': "fst (commit s k t env) = s'" using Some r by (simp add: commit_def)
    show ?thesis
    proof (cases "store_entry s (key_id (fork_key k env)) \<noteq> None \<or> dk_conversation (fork_key k env) = dk_conversation k")
      case True
      then have "s' = store_put s k (Some a) (Some None)" using apply_fork_entries(1) [OF r] a by simp
      then show ?thesis using s' store_holdsI [OF p a(2)] by simp
    next
      case False
      then obtain e' where "en_local e' = Some (fk_content f)" "store_entry s' (key_id (fork_key k env)) = Some e'"
        using apply_fork_entries(2) [OF r] by auto
      then show ?thesis using s' store_holdsI f holds_local by metis
    qed
  qed
qed

lemma store_entry_active [simp]: "store_entry (s\<lparr>st_active_key := x\<rparr>) i = store_entry s i"
  by (simp add: store_entry_def)

text \<open>Whatever a transition leaves, and wherever it forks to, the entries of other keys stay.\<close>

lemma commit_frame:
  assumes "i \<noteq> key_id k" "store_entry s i \<noteq> None"
  shows "store_entry (fst (commit s k t env)) i = store_entry s i"
proof (cases "tn_fork t")
  case None
  then show ?thesis using assms by (simp add: commit_def Let_def store_put_entry)
next
  case (Some f)
  obtain s' fx where r: "apply_fork s k f (tn_entry t) env = (s', fx)" by fastforce
  have s': "fst (commit s k t env) = s'" using Some r by (simp add: commit_def)
  show ?thesis
  proof (cases "store_entry s (key_id (fork_key k env)) \<noteq> None \<or> dk_conversation (fork_key k env) = dk_conversation k")
    case True
    then show ?thesis using apply_fork_entries(1) [OF r True] assms s' by (simp add: store_put_entry)
  next
    case False
    then show ?thesis using apply_fork_entries(2) [OF r] assms s' by (cases "i = key_id (fork_key k env)") auto
  qed
qed

text \<open>
  C25. An event of one key touches no other key, and loses no words but by the events that may remove them.
  Whatever the key of a well-formed store holds and whatever the event, every other key's entry is
  as before, so a fork overwrites none; and the row a fork leaves behind is discarded by no event but the
  server's \<open>saved\<close> to a write in flight of the new key (D18). Unsaved words are afterwards in some entry of the
  store, the key's own or the one under the new key of a fork: those of the box while no claim is pending, after
  any event but an edit, Use theirs, Let go, an answered discard, and the two answers that prove an untouched
  box was sent; those of a pending claim, after any event but Let go and a discard whose row is gone; those of
  a live send, while no claim is pending, after any event that does not settle it, unless a row this tab gave
  up holds them and is freed.
\<close>

theorem key_event_keeps_store:
  assumes "well_stored s" "store_entry s (key_id k) = Some e"
  shows "(\<forall>i. i \<noteq> key_id k \<longrightarrow> store_entry s i \<noteq> None \<longrightarrow> store_entry (fst (apply_key_event s k ev env)) i = store_entry s i) \<and>
    (\<exists>fx. snd (apply_key_event s k ev env) = snd (commit s (en_key e) (reduce_entry e ev (store_context s (en_key e) env)) env) @ fx \<and>
       (fx \<noteq> [] \<longrightarrow> (\<exists>p seq n. fx = [SfDiscard (pf_from p) (pf_revision p)] \<and> map_of (st_forks s) (key_id k) = Some p \<and>
          en_inflight e \<noteq> None \<and> ev = KeyDraft (EvSaveResult seq (SaveSaved n))))) \<and>
    (\<forall>l. en_local e = Some l \<and> en_claiming e = None \<and> \<not> drops_box e ev (store_context s (en_key e) env) \<longrightarrow>
       store_holds (dc_text l) (fst (apply_key_event s k ev env))) \<and>
    (\<forall>c. unsaved_claim e c \<and> \<not> drops_claim ev \<longrightarrow> store_holds (dc_text (cg_content c)) (fst (apply_key_event s k ev env))) \<and>
    (\<forall>sg. en_sending e = Some sg \<and> en_claiming e = None \<and> \<not> settles_send sg ev \<longrightarrow>
       store_holds (sg_text sg) (fst (apply_key_event s k ev env)) \<or>
       frees_own_row (sg_text sg) e (reduce_entry e ev (store_context s (en_key e) env)))"
proof -
  let ?cx = "store_context s (en_key e) env"
  let ?t = "reduce_entry e ev ?cx"
  have k: "key_id (en_key e) = key_id k" and "single e" using well_stored_at [OF assms] by simp_all
  then have f: "leaves (fits (en_key e)) ?t" by (intro reduce_entry_fits) simp_all
  obtain s' fx where r: "commit s (en_key e) ?t env = (s', fx)" by fastforce
  have ack: "\<exists>seq n. ev = KeyDraft (EvSaveResult seq (SaveSaved n))" if "acknowledges_save ev"
    using that by (auto simp: acknowledges_save_def split: key_event.splits entry_event.splits save_result.splits)
  have entries: "st_entries (fst (apply_key_event s k ev env)) = st_entries s'"
    using r assms(2) by (auto simp: apply_key_event_def Let_def split: option.split)
  have holds: "store_holds w (fst (apply_key_event s k ev env))" if "keeps_words w ?t" for w
    using commit_holds [OF f that, of s env] r entries by (simp add: store_holds_def)
  have frame: "store_entry (fst (apply_key_event s k ev env)) i = store_entry s i" if "i \<noteq> key_id k" "store_entry s i \<noteq> None" for i
    using commit_frame [of i "en_key e" s ?t env] that k r entries by (simp add: store_entry_def)
  have "\<exists>fx. snd (apply_key_event s k ev env) = snd (commit s (en_key e) ?t env) @ fx \<and>
       (fx \<noteq> [] \<longrightarrow> (\<exists>p seq n. fx = [SfDiscard (pf_from p) (pf_revision p)] \<and> map_of (st_forks s) (key_id k) = Some p \<and>
          en_inflight e \<noteq> None \<and> ev = KeyDraft (EvSaveResult seq (SaveSaved n))))"
    using r assms(2) ack by (auto simp: apply_key_event_def Let_def split: option.split)
  then show ?thesis
    using frame holds [OF keeps_box] holds [OF keeps_claim] keeps_send [of e _ ev ?cx] holds by blast
qed

definition sample_store :: drafts_store where
  "sample_store = (initial_drafts_store (Some ''u1''))\<lparr>st_page_org := Some ''o1'',
     st_entries := [(key_id sample_draft_key, sample_sending)]\<rparr>"

definition sample_store_env :: store_env where
  "sample_store_env = \<lparr>ev_tab_id = ''tab1'', ev_now = ''2026-01-02T03:04:05.678Z'', ev_fresh = sample_fresh, ev_mounted = True\<rparr>"

text \<open>The conversation of a starting first send was deleted: the words go to a new key, the old key ends.\<close>

theorem key_event_keeps_store_witness:
  "store_holds (units ''more'') (fst (apply_key_event sample_store sample_draft_key
       (KeySend (EvStartResult ''a0'' 9 (StartDeleted 4))) sample_store_env)) \<and>
   map fst (st_entries (fst (apply_key_event sample_store sample_draft_key
       (KeySend (EvStartResult ''a0'' 9 (StartDeleted 4))) sample_store_env))) = [''o1:org:c2'']"
proof -
  have "well_stored sample_store" "store_entry sample_store (key_id sample_draft_key) = Some sample_sending"
    "en_local sample_sending = Some (sample_words ''more'')" "en_claiming sample_sending = None"
    by (simp_all add: sample_store_def sample_sending_def sample_draft_def new_entry_def well_stored_def store_entry_def single_def)
  moreover have "\<not> drops_box sample_sending (KeySend (EvStartResult ''a0'' 9 (StartDeleted 4)))
      (store_context sample_store (en_key sample_sending) sample_store_env)"
    by (simp add: drops_box_def)
  ultimately have "store_holds (dc_text (sample_words ''more'')) (fst (apply_key_event sample_store sample_draft_key
       (KeySend (EvStartResult ''a0'' 9 (StartDeleted 4))) sample_store_env))"
    using key_event_keeps_store [of sample_store sample_draft_key sample_sending
        "KeySend (EvStartResult ''a0'' 9 (StartDeleted 4))" sample_store_env] by blast
  moreover have "map fst (st_entries (fst (apply_key_event sample_store sample_draft_key
       (KeySend (EvStartResult ''a0'' 9 (StartDeleted 4))) sample_store_env))) = [''o1:org:c2'']"
    by code_simp
  ultimately show ?thesis by (simp add: sample_words_def)
qed

end
