(* ===== verification/Draft_Queue.thy ===== *)
theory Draft_Queue
  imports Prelude "HOL-Library.AList"
begin

text \<open>
  The per-key write queue of Elench drafts (lib/stores/elench-drafts/queue.ts). Lanes are objects of a
  \<open>Map\<close>, and a request holds on to its lane object after the map has dropped it, so a lane has an
  identity of its own. A request is settled by its call or abandoned at its timeout; what the callbacks
  then do to the queue are further events, and the \<open>pump\<close> that follows them is one too. The writes,
  their answers and the page's organization are parameters.
\<close>

section \<open>State\<close>

definition write_timeout_ms :: int where "write_timeout_ms = 15000"
definition start_timeout_ms :: int where "start_timeout_ms = 30000"

record 'w queued_write =
  qw_org :: string
  qw_timeout :: int
  qw_write :: 'w

record 'w lane =
  ln_waiting :: "'w queued_write list"
  ln_busy :: bool

text \<open>A request on the wire: its number, its lane (name and object) and whether it is still open.\<close>

record 'w flight =
  fl_seq :: int
  fl_lane_id :: string
  fl_lane :: nat
  fl_write :: "'w queued_write"
  fl_open :: bool

record 'w write_queue =
  qu_lanes :: "(string \<times> nat) list"
  qu_objects :: "nat \<Rightarrow> 'w lane"
  qu_fresh :: nat
  qu_seq :: int
  qu_flights :: "'w flight list"

datatype queue_failure = QfTimeout | QfRejected bool

datatype 'a settled = Answered 'a | Rejected bool

text \<open>What the queue does to the outside: send a write, hand back its answer, report its failure.\<close>

datatype ('w, 'a) queue_output =
  QoSend int string "'w queued_write"
| QoAnswer int "'w queued_write" 'a
| QoFail int "'w queued_write" queue_failure

definition empty_queue :: "'w write_queue" where
  "empty_queue = \<lparr>qu_lanes = [], qu_objects = (\<lambda>_. \<lparr>ln_waiting = [], ln_busy = False\<rparr>), qu_fresh = 0, qu_seq = 0, qu_flights = []\<rparr>"

section \<open>Operations\<close>

definition set_lane :: "nat \<Rightarrow> 'w lane \<Rightarrow> 'w write_queue \<Rightarrow> 'w write_queue" where
  "set_lane l v q = q\<lparr>qu_objects := (qu_objects q)(l := v)\<rparr>"

definition pump :: "string option \<Rightarrow> string \<Rightarrow> 'w write_queue \<Rightarrow> 'w write_queue \<times> ('w, 'a) queue_output list" where
  "pump org i q =
     (case map_of (qu_lanes q) i of
        None \<Rightarrow> (q, [])
      | Some l \<Rightarrow>
          if ln_busy (qu_objects q l) then (q, [])
          else (case ln_waiting (qu_objects q l) of
                  [] \<Rightarrow> (q\<lparr>qu_lanes := AList.delete i (qu_lanes q)\<rparr>, [])
                | w # ws \<Rightarrow>
                    if org \<noteq> Some (qw_org w) then (q, [])
                    else (let n = qu_seq q + 1
                          in ((set_lane l \<lparr>ln_waiting = ws, ln_busy = True\<rparr> q)\<lparr>qu_seq := n,
                                qu_flights := qu_flights q @
                                  [\<lparr>fl_seq = n, fl_lane_id = i, fl_lane = l, fl_write = w, fl_open = True\<rparr>]\<rparr>,
                              [QoSend n i w]))))"

definition enqueue ::
  "string option \<Rightarrow> string \<Rightarrow> 'w queued_write \<Rightarrow> 'w write_queue \<Rightarrow> 'w write_queue \<times> ('w, 'a) queue_output list" where
  "enqueue org i w q =
     (case map_of (qu_lanes q) i of
        Some l \<Rightarrow> pump org i (set_lane l ((qu_objects q l)\<lparr>ln_waiting := ln_waiting (qu_objects q l) @ [w]\<rparr>) q)
      | None \<Rightarrow> pump org i ((set_lane (qu_fresh q) \<lparr>ln_waiting = [w], ln_busy = False\<rparr> q)
          \<lparr>qu_lanes := AList.update i (qu_fresh q) (qu_lanes q), qu_fresh := qu_fresh q + 1\<rparr>))"

fun pump_each :: "string option \<Rightarrow> string list \<Rightarrow> 'w write_queue \<Rightarrow> 'w write_queue \<times> ('w, 'a) queue_output list" where
  "pump_each org [] q = (q, [])"
| "pump_each org (i # is') q = (case pump org i q of (q1, o1) \<Rightarrow> (case pump_each org is' q1 of (q2, o2) \<Rightarrow> (q2, o1 @ o2)))"

definition pump_all :: "string option \<Rightarrow> 'w write_queue \<Rightarrow> 'w write_queue \<times> ('w, 'a) queue_output list" where
  "pump_all org q = pump_each org (map fst (qu_lanes q)) q"

definition clear_queue :: "'w write_queue \<Rightarrow> 'w write_queue" where
  "clear_queue q = q\<lparr>qu_lanes := []\<rparr>"

definition lane_idle :: "'w write_queue \<Rightarrow> string \<Rightarrow> bool" where
  "lane_idle q i = (case map_of (qu_lanes q) i of None \<Rightarrow> True
     | Some l \<Rightarrow> \<not> ln_busy (qu_objects q l) \<and> ln_waiting (qu_objects q l) = [])"

text \<open>\<open>done()\<close> of the request numbered \<open>n\<close>, if it is open: it closes, its lane is free; whether the lane is still the map's.\<close>

definition close_flight :: "int \<Rightarrow> 'w write_queue \<Rightarrow> ('w write_queue \<times> 'w flight \<times> bool) option" where
  "close_flight n q =
     (case List.find (\<lambda>f. fl_seq f = n) (qu_flights q) of
        None \<Rightarrow> None
      | Some f \<Rightarrow>
          if \<not> fl_open f then None
          else Some ((set_lane (fl_lane f) ((qu_objects q (fl_lane f))\<lparr>ln_busy := False\<rparr>) q)
                 \<lparr>qu_flights := map (\<lambda>g. if fl_seq g = n then g\<lparr>fl_open := False\<rparr> else g) (qu_flights q)\<rparr>,
               f, map_of (qu_lanes q) (fl_lane_id f) = Some (fl_lane f)))"

text \<open>The call settled: its answer or its rejection is handed back, unless it was abandoned or dropped.\<close>

definition settle_flight :: "int \<Rightarrow> 'a settled \<Rightarrow> 'w write_queue \<Rightarrow> 'w write_queue \<times> ('w, 'a) queue_output list" where
  "settle_flight n r q =
     (case close_flight n q of
        None \<Rightarrow> (q, [])
      | Some (q', f, kept) \<Rightarrow>
          (q', if \<not> kept then []
               else (case r of Answered a \<Rightarrow> [QoAnswer n (fl_write f) a]
                     | Rejected network \<Rightarrow> [QoFail n (fl_write f) (QfRejected network)])))"

text \<open>The timer of an open request fires (it is cleared when the request closes).\<close>

definition time_out :: "int \<Rightarrow> 'w write_queue \<Rightarrow> 'w write_queue \<times> ('w, 'a) queue_output list" where
  "time_out n q =
     (case close_flight n q of
        None \<Rightarrow> (q, [])
      | Some (q', f, kept) \<Rightarrow> (q', if kept then [QoFail n (fl_write f) QfTimeout] else []))"

section \<open>Runs\<close>

datatype ('w, 'a) queue_event =
  QeEnqueue string "'w queued_write"
| QePump string
| QePumpAll
| QeClear
| QeSettle int "'a settled"
| QeTimeout int
| QeNumber

fun queue_step :: "string option \<Rightarrow> ('w, 'a) queue_event \<Rightarrow> 'w write_queue \<Rightarrow> 'w write_queue \<times> ('w, 'a) queue_output list" where
  "queue_step org (QeEnqueue i w) q = enqueue org i w q"
| "queue_step org (QePump i) q = pump org i q"
| "queue_step org QePumpAll q = pump_all org q"
| "queue_step org QeClear q = (clear_queue q, [])"
| "queue_step org (QeSettle n r) q = settle_flight n r q"
| "queue_step org (QeTimeout n) q = time_out n q"
| "queue_step org QeNumber q = (q\<lparr>qu_seq := qu_seq q + 1\<rparr>, [])"

text \<open>
  The counter is the store's: a \<open>listDrafts\<close> takes a number too (\<open>QeNumber\<close>). A run: each event with the page's organization at that moment, and the outputs of each.
\<close>

fun queue_run :: "(string option \<times> ('w, 'a) queue_event) list \<Rightarrow> 'w write_queue \<Rightarrow>
    'w write_queue \<times> ('w, 'a) queue_output list list" where
  "queue_run [] q = (q, [])"
| "queue_run ((org, ev) # evs) q =
     (case queue_step org ev q of (q1, o1) \<Rightarrow> (case queue_run evs q1 of (q2, os) \<Rightarrow> (q2, o1 # os)))"

section \<open>What a key's lane promises\<close>

text \<open>
  The abstract wire: the last number used, the writes waiting and the requests whose outcome is owed.
  Sending is allowed on the page's organization, under a newer number, with nothing of the key
  outstanding, and sends the key's oldest waiting write; an outcome settles the outstanding request it
  names; clearing forgets everything. After an event that pumps a key, that key is quiet: it has a
  request outstanding, nothing waiting, or a head of another organization.
\<close>

record 'w wire =
  wr_last :: int
  wr_open :: "(int \<times> string \<times> 'w queued_write) list"
  wr_waiting :: "(string \<times> 'w queued_write) list"

definition waits :: "string \<Rightarrow> 'w wire \<Rightarrow> 'w queued_write list" where
  "waits i v = map snd (filter (\<lambda>p. fst p = i) (wr_waiting v))"

definition on_wire :: "string \<Rightarrow> 'w wire \<Rightarrow> bool" where
  "on_wire i v \<longleftrightarrow> list_ex (\<lambda>p. fst (snd p) = i) (wr_open v)"

definition quiet :: "string option \<Rightarrow> 'w wire \<Rightarrow> string \<Rightarrow> bool" where
  "quiet org v i \<longleftrightarrow> on_wire i v \<or> (case waits i v of [] \<Rightarrow> True | w # ws \<Rightarrow> org \<noteq> Some (qw_org w))"

definition settle_wire :: "int \<Rightarrow> 'w queued_write \<Rightarrow> 'w wire \<Rightarrow> 'w wire option" where
  "settle_wire n w v =
     (if list_ex (\<lambda>p. fst p = n \<and> snd (snd p) = w) (wr_open v)
      then Some (v\<lparr>wr_open := filter (\<lambda>p. fst p \<noteq> n) (wr_open v)\<rparr>) else None)"

fun wire_output :: "string option \<Rightarrow> ('w, 'a) queue_output \<Rightarrow> 'w wire \<Rightarrow> 'w wire option" where
  "wire_output org (QoSend n i w) v =
     (if wr_last v < n \<and> org = Some (qw_org w) \<and> \<not> on_wire i v \<and> (waits i v \<noteq> [] \<and> hd (waits i v) = w)
      then Some (v\<lparr>wr_last := n, wr_open := wr_open v @ [(n, i, w)], wr_waiting := remove1 (i, w) (wr_waiting v)\<rparr>) else None)"
| "wire_output org (QoAnswer n w a) v = settle_wire n w v"
| "wire_output org (QoFail n w f) v = settle_wire n w v"

fun wire_outputs :: "string option \<Rightarrow> ('w, 'a) queue_output list \<Rightarrow> 'w wire \<Rightarrow> 'w wire option" where
  "wire_outputs org [] v = Some v"
| "wire_outputs org (x # xs) v = Option.bind (wire_output org x v) (wire_outputs org xs)"

fun wire_before :: "('w, 'a) queue_event \<Rightarrow> 'w wire \<Rightarrow> 'w wire" where
  "wire_before (QeEnqueue i w) v = v\<lparr>wr_waiting := wr_waiting v @ [(i, w)]\<rparr>"
| "wire_before QeClear v = v\<lparr>wr_open := [], wr_waiting := []\<rparr>"
| "wire_before _ v = v"

fun pumped :: "('w, 'a) queue_event \<Rightarrow> 'w wire \<Rightarrow> string list" where
  "pumped (QeEnqueue i w) v = [i]"
| "pumped (QePump i) v = [i]"
| "pumped QePumpAll v = map fst (wr_waiting v)"
| "pumped _ v = []"

fun wire_run :: "(string option \<times> ('w, 'a) queue_event) list \<Rightarrow> ('w, 'a) queue_output list list \<Rightarrow> 'w wire \<Rightarrow> 'w wire option" where
  "wire_run [] [] v = Some v"
| "wire_run ((org, ev) # evs) (os # oss) v =
     (case wire_outputs org os (wire_before ev v) of
        None \<Rightarrow> None
      | Some v' \<Rightarrow> if list_all (quiet org v') (pumped ev v) then wire_run evs oss v' else None)"
| "wire_run _ _ v = None"

section \<open>The queue's invariant\<close>

definition flights_of :: "nat \<Rightarrow> 'w write_queue \<Rightarrow> 'w flight list" where
  "flights_of l q = filter (\<lambda>f. fl_open f \<and> fl_lane f = l) (qu_flights q)"

text \<open>Names and objects are in step, numbers grow, and a lane is busy exactly while one request of it is open.\<close>

definition lanes_ok :: "'w write_queue \<Rightarrow> bool" where
  "lanes_ok q \<longleftrightarrow> distinct (map fst (qu_lanes q)) \<and> distinct (map snd (qu_lanes q)) \<and> (\<forall>p\<in>set (qu_lanes q). snd p < qu_fresh q)"

definition flights_ok :: "'w write_queue \<Rightarrow> bool" where
  "flights_ok q \<longleftrightarrow> distinct (map fl_seq (qu_flights q)) \<and>
     (\<forall>f\<in>set (qu_flights q). fl_seq f \<le> qu_seq q \<and> fl_lane f < qu_fresh q \<and>
        (\<forall>p\<in>set (qu_lanes q). fl_lane f = snd p \<longrightarrow> fl_lane_id f = fst p))"

definition busy_ok :: "'w write_queue \<Rightarrow> bool" where
  "busy_ok q \<longleftrightarrow> (\<forall>l. length (flights_of l q) = (if ln_busy (qu_objects q l) then 1 else 0))"

definition queue_ok :: "'w write_queue \<Rightarrow> bool" where
  "queue_ok q \<longleftrightarrow> lanes_ok q \<and> flights_ok q \<and> busy_ok q"

text \<open>What is outstanding: the open requests whose lane is the map's.\<close>

definition kept :: "'w write_queue \<Rightarrow> 'w flight \<Rightarrow> bool" where
  "kept q f \<longleftrightarrow> fl_open f \<and> map_of (qu_lanes q) (fl_lane_id f) = Some (fl_lane f)"

definition outstanding :: "'w write_queue \<Rightarrow> (int \<times> string \<times> 'w queued_write) list" where
  "outstanding q = map (\<lambda>f. (fl_seq f, fl_lane_id f, fl_write f)) (filter (kept q) (qu_flights q))"

definition waiting_of :: "string \<Rightarrow> 'w write_queue \<Rightarrow> 'w queued_write list" where
  "waiting_of i q = (case map_of (qu_lanes q) i of None \<Rightarrow> [] | Some l \<Rightarrow> ln_waiting (qu_objects q l))"

definition refines :: "'w write_queue \<Rightarrow> 'w wire \<Rightarrow> bool" where
  "refines q v \<longleftrightarrow> queue_ok q \<and> wr_open v = outstanding q \<and> wr_last v \<le> qu_seq q \<and> (\<forall>i. waits i v = waiting_of i q)"

lemma busyD: "busy_ok q \<Longrightarrow> length (flights_of l q) = (if ln_busy (qu_objects q l) then 1 else 0)"
  by (simp add: busy_ok_def)

lemma lane_of:
  assumes "queue_ok q" "map_of (qu_lanes q) i = Some l"
  shows "l < qu_fresh q" "\<And>f. f \<in> set (qu_flights q) \<Longrightarrow> fl_lane f = l \<Longrightarrow> fl_lane_id f = i"
    "\<And>j. map_of (qu_lanes q) j = Some l \<Longrightarrow> j = i"
proof -
  have m: "(i, l) \<in> set (qu_lanes q)" using assms(2) by (rule map_of_SomeD)
  show "l < qu_fresh q" using assms(1) m by (force simp: queue_ok_def lanes_ok_def)
  show "\<And>f. f \<in> set (qu_flights q) \<Longrightarrow> fl_lane f = l \<Longrightarrow> fl_lane_id f = i"
    using assms(1) m by (force simp: queue_ok_def flights_ok_def)
  show "j = i" if "map_of (qu_lanes q) j = Some l" for j
  proof -
    have "distinct (map snd (qu_lanes q))" using assms(1) by (simp add: queue_ok_def lanes_ok_def)
    then show ?thesis using map_of_SomeD [OF that] m by (fastforce simp: distinct_map inj_on_def)
  qed
qed

lemma fresh_free:
  assumes "queue_ok q"
  shows "flights_of (qu_fresh q) q = []" "\<not> ln_busy (qu_objects q (qu_fresh q))"
proof -
  show e: "flights_of (qu_fresh q) q = []"
    using assms by (auto simp: flights_of_def queue_ok_def flights_ok_def filter_empty_conv)
  show "\<not> ln_busy (qu_objects q (qu_fresh q))"
    using busyD [of q "qu_fresh q"] assms e by (auto simp: queue_ok_def split: if_splits)
qed

lemma idle_flights: "queue_ok q \<Longrightarrow> \<not> ln_busy (qu_objects q l) \<Longrightarrow> flights_of l q = []"
  using busyD [of q l] by (simp add: queue_ok_def)

lemma set_lane_sel [simp]:
  "qu_lanes (set_lane l v q) = qu_lanes q" "qu_flights (set_lane l v q) = qu_flights q"
  "qu_fresh (set_lane l v q) = qu_fresh q" "qu_seq (set_lane l v q) = qu_seq q"
  "qu_objects (set_lane l v q) = (qu_objects q)(l := v)"
  by (simp_all add: set_lane_def)

lemma outstanding_cong:
  "qu_flights q' = qu_flights q \<Longrightarrow> qu_lanes q' = qu_lanes q \<Longrightarrow> outstanding q' = outstanding q"
  by (simp add: outstanding_def kept_def [abs_def])

lemma flights_of_cong: "qu_flights q' = qu_flights q \<Longrightarrow> flights_of l q' = flights_of l q"
  by (simp add: flights_of_def)

lemma queue_ok_waiting:
  assumes "queue_ok q" "ln_busy v = ln_busy (qu_objects q l)"
  shows "queue_ok (set_lane l v q)"
  using assms by (simp add: queue_ok_def lanes_ok_def flights_ok_def busy_ok_def flights_of_def)

lemma queue_ok_lanes:
  assumes "queue_ok q" "distinct (map fst ls)" "distinct (map snd ls)" "set ls \<subseteq> set (qu_lanes q)"
  shows "queue_ok (q\<lparr>qu_lanes := ls\<rparr>)"
  using assms by (auto simp: queue_ok_def lanes_ok_def flights_ok_def busy_ok_def flights_of_def)

lemma queue_ok_drop: "queue_ok q \<Longrightarrow> queue_ok (q\<lparr>qu_lanes := AList.delete i (qu_lanes q)\<rparr>)"
  by (rule queue_ok_lanes) (auto simp: queue_ok_def lanes_ok_def AList.delete_eq distinct_map inj_on_def)

lemma update_new: "map_of al i = None \<Longrightarrow> AList.update i l al = al @ [(i, l)]"
  by (induction al) (auto split: if_splits)

lemma queue_ok_new:
  assumes "queue_ok q" "map_of (qu_lanes q) i = None"
  shows "queue_ok (q\<lparr>qu_lanes := AList.update i (qu_fresh q) (qu_lanes q), qu_fresh := qu_fresh q + 1\<rparr>)"
proof -
  have n: "i \<notin> fst ` set (qu_lanes q)" using assms(2) by (simp add: map_of_eq_None_iff)
  have l: "\<forall>p\<in>set (qu_lanes q). snd p < qu_fresh q" "\<forall>f\<in>set (qu_flights q). fl_lane f < qu_fresh q"
    using assms(1) by (simp_all add: queue_ok_def lanes_ok_def flights_ok_def)
  have "lanes_ok (q\<lparr>qu_lanes := AList.update i (qu_fresh q) (qu_lanes q), qu_fresh := qu_fresh q + 1\<rparr>)"
    using assms(1) n l(1) by (auto simp: queue_ok_def lanes_ok_def update_new [OF assms(2)] less_Suc_eq)
  moreover have "flights_ok (q\<lparr>qu_lanes := AList.update i (qu_fresh q) (qu_lanes q), qu_fresh := qu_fresh q + 1\<rparr>)"
    using assms(1) l(2) by (auto simp: queue_ok_def flights_ok_def update_new [OF assms(2)] less_Suc_eq)
  moreover have "busy_ok (q\<lparr>qu_lanes := AList.update i (qu_fresh q) (qu_lanes q), qu_fresh := qu_fresh q + 1\<rparr>)"
    using assms(1) by (simp add: queue_ok_def busy_ok_def flights_of_def)
  ultimately show ?thesis by (simp add: queue_ok_def)
qed

section \<open>The queue refines the wire\<close>

lemma refinesD:
  assumes "refines q v"
  shows "queue_ok q" "wr_open v = outstanding q" "wr_last v \<le> qu_seq q" "waits i v = waiting_of i q"
  using assms by (simp_all add: refines_def)

lemma on_wire_busy:
  assumes "queue_ok q" "wr_open v = outstanding q"
  shows "on_wire i v \<longleftrightarrow> (case map_of (qu_lanes q) i of None \<Rightarrow> False | Some l \<Rightarrow> ln_busy (qu_objects q l))"
proof -
  have o: "on_wire i v \<longleftrightarrow> (\<exists>f\<in>set (qu_flights q). kept q f \<and> fl_lane_id f = i)"
    using assms(2) by (auto simp: on_wire_def outstanding_def list_ex_iff)
  show ?thesis
  proof (cases "map_of (qu_lanes q) i")
    case None
    then show ?thesis unfolding o by (auto simp: kept_def)
  next
    case (Some l)
    have "kept q f \<and> fl_lane_id f = i \<longleftrightarrow> fl_open f \<and> fl_lane f = l" if "f \<in> set (qu_flights q)" for f
      using lane_of(2) [OF assms(1) Some that] Some by (auto simp: kept_def)
    then have "(\<exists>f\<in>set (qu_flights q). kept q f \<and> fl_lane_id f = i) \<longleftrightarrow> flights_of l q \<noteq> []"
      unfolding flights_of_def filter_empty_conv by blast
    also have "\<dots> \<longleftrightarrow> ln_busy (qu_objects q l)"
      using busyD [of q l] assms(1) by (cases "ln_busy (qu_objects q l)") (auto simp: queue_ok_def)
    finally show ?thesis unfolding o Some by simp
  qed
qed

lemma waiting_drop:
  assumes "distinct (map fst (qu_lanes q))" "map_of (qu_lanes q) i = Some l" "ln_waiting (qu_objects q l) = []"
  shows "waiting_of j (q\<lparr>qu_lanes := AList.delete i (qu_lanes q)\<rparr>) = waiting_of j q"
  using assms by (cases "j = i") (simp_all add: waiting_of_def AList.delete_conv' cong: option.case_cong)

lemma outstanding_drop:
  assumes "queue_ok q" "map_of (qu_lanes q) i = Some l" "\<not> ln_busy (qu_objects q l)"
  shows "outstanding (q\<lparr>qu_lanes := AList.delete i (qu_lanes q)\<rparr>) = outstanding q"
proof -
  have "flights_of l q = []" using assms idle_flights by blast
  then have n: "\<not> (fl_open f \<and> fl_lane f = l)" if "f \<in> set (qu_flights q)" for f
    using that by (auto simp: flights_of_def filter_empty_conv)
  have "filter (kept (q\<lparr>qu_lanes := AList.delete i (qu_lanes q)\<rparr>)) (qu_flights q) = filter (kept q) (qu_flights q)"
    by (rule filter_cong) (use n assms(2) in \<open>auto simp: kept_def AList.delete_conv' split: if_splits\<close>)
  then show ?thesis by (simp add: outstanding_def)
qed

text \<open>The state after a send, and what it refines.\<close>

definition sent :: "string \<Rightarrow> nat \<Rightarrow> 'w queued_write \<Rightarrow> 'w queued_write list \<Rightarrow> 'w write_queue \<Rightarrow> 'w write_queue" where
  "sent i l w ws q = (set_lane l \<lparr>ln_waiting = ws, ln_busy = True\<rparr> q)\<lparr>qu_seq := qu_seq q + 1,
     qu_flights := qu_flights q @ [\<lparr>fl_seq = qu_seq q + 1, fl_lane_id = i, fl_lane = l, fl_write = w, fl_open = True\<rparr>]\<rparr>"

lemma queue_ok_sent:
  assumes "queue_ok q" "map_of (qu_lanes q) i = Some l" "\<not> ln_busy (qu_objects q l)"
  shows "queue_ok (sent i l w ws q)"
proof -
  have n: "flights_of l q = []" using assms idle_flights by blast
  have fl: "flights_of k (sent i l w ws q) = flights_of k q @
      (if k = l then [\<lparr>fl_seq = qu_seq q + 1, fl_lane_id = i, fl_lane = l, fl_write = w, fl_open = True\<rparr>] else [])" for k
    by (simp add: flights_of_def sent_def)
  have "busy_ok (sent i l w ws q)"
    unfolding busy_ok_def fl using busyD [of q] assms(1,3) n by (simp add: sent_def queue_ok_def)
  moreover have "lanes_ok (sent i l w ws q)" using assms(1) by (simp add: queue_ok_def lanes_ok_def sent_def)
  moreover have "flights_ok (sent i l w ws q)"
  proof -
    have "\<forall>p\<in>set (qu_lanes q). l = snd p \<longrightarrow> i = fst p"
      using assms(1) lane_of(3) [OF assms(1,2)] by (auto simp: queue_ok_def lanes_ok_def dest: map_of_is_SomeI)
    moreover have "\<forall>f\<in>set (qu_flights q). fl_seq f < qu_seq q + 1"
      using assms(1) by (fastforce simp: queue_ok_def flights_ok_def)
    ultimately show ?thesis
      using assms(1) lane_of(1) [OF assms(1,2)] by (force simp: queue_ok_def flights_ok_def sent_def)
  qed
  ultimately show ?thesis by (simp add: queue_ok_def)
qed

lemma outstanding_sent:
  assumes "map_of (qu_lanes q) i = Some l"
  shows "outstanding (sent i l w ws q) = outstanding q @ [(qu_seq q + 1, i, w)]"
proof -
  have "kept (sent i l w ws q) = kept q" by (simp add: kept_def [abs_def] sent_def)
  then show ?thesis using assms by (simp add: outstanding_def sent_def kept_def)
qed

lemma waiting_sent:
  assumes "queue_ok q" "map_of (qu_lanes q) i = Some l"
  shows "waiting_of j (sent i l w ws q) = (if j = i then ws else waiting_of j q)"
  using lane_of(3) [OF assms, of j] assms(2) by (cases "map_of (qu_lanes q) j") (auto simp: waiting_of_def sent_def)

lemma waits_sent:
  assumes "waits i v = w # ws"
  shows "waits j (v\<lparr>wr_last := n, wr_open := os, wr_waiting := remove1 (i, w) (wr_waiting v)\<rparr>) = (if j = i then ws else waits j v)"
proof (cases "j = i")
  case True
  obtain p ps where p: "filter (\<lambda>p. fst p = i) (wr_waiting v) = p # ps"
    using assms by (cases "filter (\<lambda>p. fst p = i) (wr_waiting v)") (simp_all add: waits_def)
  moreover have "fst p = i" using Cons_eq_filterD [OF p [symmetric]] by auto
  ultimately show ?thesis using assms True by (cases p) (auto simp: waits_def filter_remove1)
next
  case False
  then have "filter (\<lambda>p. fst p = j) (remove1 (i, w) (wr_waiting v)) = filter (\<lambda>p. fst p = j) (wr_waiting v)"
    by (simp add: filter_remove1 remove1_idem)
  with False show ?thesis by (simp add: waits_def)
qed


lemma pump_sim:
  assumes "refines q v"
  shows "\<exists>v'. wire_outputs org (snd (pump org i q)) v = Some v' \<and> refines (fst (pump org i q)) v' \<and> quiet org v' i \<and>
    (\<forall>j. quiet org v j \<longrightarrow> quiet org v' j)"
proof -
  note r = refinesD [OF assms]
  note b = on_wire_busy [OF r(1,2)]
  show ?thesis
  proof (cases "map_of (qu_lanes q) i")
    case None
    then have "quiet org v i" by (simp add: quiet_def r(4) waiting_of_def)
    then show ?thesis using None assms by (simp add: pump_def)
  next
    case (Some l)
    show ?thesis
    proof (cases "ln_busy (qu_objects q l)")
      case True
      then have "quiet org v i" using Some by (simp add: quiet_def b)
      then show ?thesis using Some True assms by (simp add: pump_def)
    next
      case idle: False
      show ?thesis
      proof (cases "ln_waiting (qu_objects q l)")
        case Nil
        have "distinct (map fst (qu_lanes q))" using r(1) by (simp add: queue_ok_def lanes_ok_def)
        then have "refines (q\<lparr>qu_lanes := AList.delete i (qu_lanes q)\<rparr>) v"
          using queue_ok_drop [OF r(1)] outstanding_drop [OF r(1) Some idle] waiting_drop [OF _ Some Nil] r
          by (simp add: refines_def)
        moreover have "quiet org v i" using Some Nil by (simp add: quiet_def r(4) waiting_of_def)
        ultimately show ?thesis using Some idle Nil by (simp add: pump_def)
      next
        case (Cons w ws)
        have wt: "waits i v = w # ws" using Some Cons by (simp add: r(4) waiting_of_def)
        show ?thesis
        proof (cases "org = Some (qw_org w)")
          case False
          then have "quiet org v i" using wt by (simp add: quiet_def)
          then show ?thesis using Some idle Cons False assms by (simp add: pump_def)
        next
          case True
          let ?v = "v\<lparr>wr_last := qu_seq q + 1, wr_open := wr_open v @ [(qu_seq q + 1, i, w)],
            wr_waiting := remove1 (i, w) (wr_waiting v)\<rparr>"
          have p: "pump org i q = (sent i l w ws q, [QoSend (qu_seq q + 1) i w])"
            using Some idle Cons True by (simp add: pump_def sent_def Let_def)
          have "wire_outputs org [QoSend (qu_seq q + 1) i w] v = Some ?v"
            using True r(3) wt Some idle by (simp add: b)
          moreover have "refines (sent i l w ws q) ?v"
            using r(3) queue_ok_sent [OF r(1) Some idle] outstanding_sent [OF Some] waits_sent [OF wt] waiting_sent [OF r(1) Some]
            by (simp add: refines_def r(2,4)) (simp add: sent_def)
          moreover have "quiet org ?v i" by (simp add: quiet_def on_wire_def)
          moreover have "quiet org ?v j" if "quiet org v j" for j
            using that waits_sent [OF wt] by (cases "j = i") (auto simp: quiet_def on_wire_def)
          ultimately show ?thesis unfolding p by (metis fst_conv snd_conv)
        qed
      qed
    qed
  qed
qed

lemma pump_out:
  assumes "refines q v" "pump org i q = (q', os)"
  obtains v' where "wire_outputs org os v = Some v'" "refines q' v'" "quiet org v' i" "\<forall>j. quiet org v j \<longrightarrow> quiet org v' j"
proof -
  have "\<exists>v'. wire_outputs org (snd (pump org i q) :: ('a, 'b) queue_output list) v = Some v' \<and>
      refines (fst (pump org i q :: _ \<times> ('a, 'b) queue_output list)) v' \<and> quiet org v' i \<and> (\<forall>j. quiet org v j \<longrightarrow> quiet org v' j)"
    using pump_sim [OF assms(1)] by blast
  then show ?thesis using that assms(2) by auto
qed

lemma wire_outputs_append:
  "wire_outputs org (xs @ ys) v = Option.bind (wire_outputs org xs v) (wire_outputs org ys)"
  by (induction xs arbitrary: v) (auto split: Option.bind_splits)

lemma pump_each_sim:
  assumes "refines q v" "pump_each org ids q = (q', os)"
  shows "\<exists>v'. wire_outputs org os v = Some v' \<and> refines q' v' \<and> list_all (quiet org v') ids \<and> (\<forall>j. quiet org v j \<longrightarrow> quiet org v' j)"
  using assms
proof (induction ids arbitrary: q v q' os)
  case Nil
  then show ?case by simp
next
  case (Cons i ids)
  obtain q1 o1 where p1: "pump org i q = (q1, o1 :: ('a, 'b) queue_output list)" by fastforce
  obtain q2 o2 where p2: "pump_each org ids q1 = (q2, o2 :: ('a, 'b) queue_output list)" by fastforce
  obtain v1 where v1: "wire_outputs org o1 v = Some v1" "refines q1 v1" "quiet org v1 i" "\<forall>j. quiet org v j \<longrightarrow> quiet org v1 j"
    by (rule pump_out [OF Cons.prems(1) p1])
  obtain v2 where v2: "wire_outputs org o2 v1 = Some v2" "refines q2 v2" "list_all (quiet org v2) ids" "\<forall>j. quiet org v1 j \<longrightarrow> quiet org v2 j"
    using Cons.IH [OF v1(2) p2] by blast
  have "q' = q2" "os = o1 @ o2" using Cons.prems(2) p1 p2 by simp_all
  then show ?case using v1 v2 by (simp add: wire_outputs_append)
qed

lemma close_flight_sim:
  assumes "refines q v" "close_flight n q = Some (q', f, k)"
  shows "refines q' (v\<lparr>wr_open := filter (\<lambda>p. fst p \<noteq> n) (wr_open v)\<rparr>)"
    "k \<Longrightarrow> list_ex (\<lambda>p. fst p = n \<and> snd (snd p) = fl_write f) (wr_open v)"
    "\<not> k \<Longrightarrow> filter (\<lambda>p. fst p \<noteq> n) (wr_open v) = wr_open v"
proof -
  note r = refinesD [OF assms(1)]
  have f: "f \<in> set (qu_flights q)" "fl_seq f = n" "fl_open f"
    and q': "q' = (set_lane (fl_lane f) ((qu_objects q (fl_lane f))\<lparr>ln_busy := False\<rparr>) q)
      \<lparr>qu_flights := map (\<lambda>g. if fl_seq g = n then g\<lparr>fl_open := False\<rparr> else g) (qu_flights q)\<rparr>"
    and k: "k \<longleftrightarrow> map_of (qu_lanes q) (fl_lane_id f) = Some (fl_lane f)"
    using assms(2) by (auto simp: close_flight_def find_Some_iff split: option.splits if_splits)
  have u: "g = f" if "g \<in> set (qu_flights q)" "fl_seq g = n" for g
    using r(1) f that by (auto simp: queue_ok_def flights_ok_def distinct_map inj_on_def)
  have "filter (kept q') (map (\<lambda>g. if fl_seq g = n then g\<lparr>fl_open := False\<rparr> else g) fs) =
      filter (\<lambda>g. fl_seq g \<noteq> n) (filter (kept q) fs)" for fs
    by (induction fs) (simp_all add: kept_def q')
  then have o: "outstanding q' = filter (\<lambda>p. fst p \<noteq> n) (outstanding q)"
    by (simp add: outstanding_def q' filter_map comp_def)
  have fo: "flights_of l q' = filter (\<lambda>g. fl_seq g \<noteq> n) (flights_of l q)" for l
  proof -
    have "filter (\<lambda>f. fl_open f \<and> fl_lane f = l) (map (\<lambda>g. if fl_seq g = n then g\<lparr>fl_open := False\<rparr> else g) fs) =
        filter (\<lambda>g. fl_seq g \<noteq> n) (filter (\<lambda>f. fl_open f \<and> fl_lane f = l) fs)" for fs
      by (induction fs) simp_all
    then show ?thesis by (simp add: flights_of_def q')
  qed
  have fl: "flights_of (fl_lane f) q = [f]"
  proof -
    have m: "f \<in> set (flights_of (fl_lane f) q)" using f by (simp add: flights_of_def)
    then have "length (flights_of (fl_lane f) q) = 1"
      using busyD [of q "fl_lane f"] r(1) by (cases "flights_of (fl_lane f) q") (auto simp: queue_ok_def split: if_splits)
    then show ?thesis using m by (auto simp: length_Suc_conv)
  qed
  have other: "filter (\<lambda>g. fl_seq g \<noteq> n) (flights_of l q) = flights_of l q" if "l \<noteq> fl_lane f" for l
    unfolding flights_of_def filter_id_conv using u that by auto
  have "busy_ok q'"
    unfolding busy_ok_def fo
  proof
    fix l
    show "length (filter (\<lambda>g. fl_seq g \<noteq> n) (flights_of l q)) = (if ln_busy (qu_objects q' l) then 1 else 0)"
      using busyD [of q l] r(1) fl f(2) other [of l] by (cases "l = fl_lane f") (simp_all add: queue_ok_def q')
  qed
  moreover have "lanes_ok q'" using r(1) by (simp add: queue_ok_def lanes_ok_def q')
  moreover have "flights_ok q'"
  proof -
    have "map fl_seq (map (\<lambda>g. if fl_seq g = n then g\<lparr>fl_open := False\<rparr> else g) fs) = map fl_seq fs" for fs :: "'a flight list"
      by (induction fs) simp_all
    moreover have "qu_flights q' = map (\<lambda>g. if fl_seq g = n then g\<lparr>fl_open := False\<rparr> else g) (qu_flights q)"
      by (simp add: q')
    ultimately have "map fl_seq (qu_flights q') = map fl_seq (qu_flights q)" by (simp only:)
    then show ?thesis using r(1) unfolding queue_ok_def flights_ok_def by (auto simp: q' simp del: map_map)
  qed
  ultimately have "queue_ok q'" by (simp add: queue_ok_def)
  moreover have "waiting_of i q' = waiting_of i q" for i
    by (simp add: waiting_of_def q' split: option.split)
  ultimately show "refines q' (v\<lparr>wr_open := filter (\<lambda>p. fst p \<noteq> n) (wr_open v)\<rparr>)"
    using r o by (simp add: refines_def) (simp add: waits_def q')
  show "k \<Longrightarrow> list_ex (\<lambda>p. fst p = n \<and> snd (snd p) = fl_write f) (wr_open v)"
    using f unfolding k r(2) outstanding_def kept_def list_ex_iff by force
  show "\<not> k \<Longrightarrow> filter (\<lambda>p. fst p \<noteq> n) (wr_open v) = wr_open v"
    using u unfolding k r(2) outstanding_def by (auto simp: filter_id_conv kept_def)
qed


lemma settle_sim:
  assumes "refines q v" "settle_flight n r q = (q', os)"
  shows "\<exists>v'. wire_outputs org os v = Some v' \<and> refines q' v'"
proof (cases "close_flight n q")
  case None
  then show ?thesis using assms by (simp add: settle_flight_def)
next
  case (Some x)
  obtain q1 f k where x: "x = (q1, f, k)" by (cases x)
  from close_flight_sim [OF assms(1) Some [unfolded x]] assms Some x show ?thesis
    by (cases k; cases r) (auto simp: settle_flight_def settle_wire_def)
qed

lemma time_out_sim:
  assumes "refines q v" "time_out n q = (q', os)"
  shows "\<exists>v'. wire_outputs org os v = Some v' \<and> refines q' v'"
proof (cases "close_flight n q")
  case None
  then show ?thesis using assms by (simp add: time_out_def)
next
  case (Some x)
  obtain q1 f k where x: "x = (q1, f, k)" by (cases x)
  from close_flight_sim [OF assms(1) Some [unfolded x]] assms Some x show ?thesis
    by (cases k) (auto simp: time_out_def settle_wire_def)
qed

lemma enqueue_before:
  assumes "refines q v"
  shows "\<exists>q1. enqueue org i w q = pump org i q1 \<and> refines q1 (v\<lparr>wr_waiting := wr_waiting v @ [(i, w)]\<rparr>)"
proof -
  note r = refinesD [OF assms]
  have wt: "waits j (v\<lparr>wr_waiting := wr_waiting v @ [(i, w)]\<rparr>) = waiting_of j q @ (if j = i then [w] else [])" for j
    using r(4) [of j] by (simp add: waits_def)
  show ?thesis
  proof (cases "map_of (qu_lanes q) i")
    case (Some l)
    let ?q = "set_lane l ((qu_objects q l)\<lparr>ln_waiting := ln_waiting (qu_objects q l) @ [w]\<rparr>) q"
    have "waiting_of j ?q = waiting_of j q @ (if j = i then [w] else [])" for j
      using lane_of(3) [OF r(1) Some, of j] Some by (cases "map_of (qu_lanes q) j") (auto simp: waiting_of_def)
    then have "refines ?q (v\<lparr>wr_waiting := wr_waiting v @ [(i, w)]\<rparr>)"
      using queue_ok_waiting [OF r(1)] r(2,3) wt outstanding_cong [of ?q q] by (simp add: refines_def)
    then show ?thesis using Some by (auto simp: enqueue_def)
  next
    case None
    let ?q1 = "set_lane (qu_fresh q) \<lparr>ln_waiting = [w], ln_busy = False\<rparr> q"
    let ?q = "?q1\<lparr>qu_lanes := AList.update i (qu_fresh q) (qu_lanes q), qu_fresh := qu_fresh q + 1\<rparr>"
    have "queue_ok ?q1" using queue_ok_waiting [OF r(1)] fresh_free [OF r(1)] by simp
    then have "queue_ok ?q" using queue_ok_new [of ?q1 i] None by simp
    moreover have "outstanding ?q = outstanding q"
    proof -
      have "f \<in> set (qu_flights q) \<Longrightarrow> kept ?q f = kept q f" for f
        using None fresh_free(1) [OF r(1)]
        by (auto simp: kept_def update_new [OF None] map_add_def flights_of_def filter_empty_conv split: option.splits)
      then show ?thesis by (simp add: outstanding_def cong: filter_cong)
    qed
    moreover have "waiting_of j ?q = waiting_of j q @ (if j = i then [w] else [])" for j
    proof (cases "j = i")
      case True
      then show ?thesis using None by (simp add: waiting_of_def update_conv')
    next
      case False
      then show ?thesis using lane_of(1) [OF r(1), of j]
        by (cases "map_of (qu_lanes q) j") (auto simp: waiting_of_def update_conv')
    qed
    ultimately have "refines ?q (v\<lparr>wr_waiting := wr_waiting v @ [(i, w)]\<rparr>)"
      using r(2,3) wt by (simp add: refines_def)
    then show ?thesis using None by (auto simp: enqueue_def)
  qed
qed

lemma refines_clear: "refines q v \<Longrightarrow> refines (clear_queue q) (v\<lparr>wr_open := [], wr_waiting := []\<rparr>)"
  using queue_ok_lanes [of q "[]"]
  by (simp add: refines_def clear_queue_def outstanding_def kept_def [abs_def] waits_def waiting_of_def)

lemma refines_number:
  assumes "refines q v"
  shows "refines (q\<lparr>qu_seq := qu_seq q + 1\<rparr>) v"
proof -
  have "flights_ok q" using refinesD(1) [OF assms] by (simp add: queue_ok_def)
  then have "flights_ok (q\<lparr>qu_seq := qu_seq q + 1\<rparr>)" by (fastforce simp: flights_ok_def)
  then show ?thesis using assms outstanding_cong [of "q\<lparr>qu_seq := qu_seq q + 1\<rparr>" q]
    by (simp add: refines_def queue_ok_def lanes_ok_def busy_ok_def flights_of_def waiting_of_def cong: option.case_cong)
qed

lemma waiting_pumped:
  assumes "refines q v" "list_all (quiet org v') (map fst (qu_lanes q))" "\<forall>j. quiet org v j \<longrightarrow> quiet org v' j"
  shows "list_all (quiet org v') (map fst (wr_waiting v))"
proof -
  have "quiet org v' i" for i
  proof (cases "map_of (qu_lanes q) i")
    case None
    then have "quiet org v i" using refinesD(4) [OF assms(1), of i] by (simp add: quiet_def waiting_of_def)
    then show ?thesis using assms(3) by blast
  next
    case (Some l)
    then show ?thesis using assms(2) by (force simp: list_all_iff dest: map_of_SomeD)
  qed
  then show ?thesis by (simp add: list_all_iff)
qed

lemma queue_step_sim:
  assumes "refines q v" "queue_step org ev q = (q', os)"
  shows "\<exists>v'. wire_outputs org os (wire_before ev v) = Some v' \<and> refines q' v' \<and> list_all (quiet org v') (pumped ev v)"
proof (cases ev)
  case (QeEnqueue i w)
  obtain q1 where q1: "enqueue org i w q = (pump org i q1 :: _ \<times> ('a, 'b) queue_output list)" "refines q1 (wire_before ev v)"
    using enqueue_before [OF assms(1), of org i w] QeEnqueue by auto
  then have p: "pump org i q1 = (q', os)" using assms(2) QeEnqueue by simp
  show ?thesis by (rule pump_out [OF q1(2) p]) (use QeEnqueue in auto)
next
  case (QePump i)
  then have p: "pump org i q = (q', os)" using assms(2) by simp
  show ?thesis by (rule pump_out [OF assms(1) p]) (use QePump in auto)
next
  case QePumpAll
  then have "pump_each org (map fst (qu_lanes q)) q = (q', os)" using assms(2) by (simp add: pump_all_def)
  from pump_each_sim [OF assms(1) this] waiting_pumped [OF assms(1)] show ?thesis using QePumpAll by auto
next
  case QeClear
  then show ?thesis using refines_clear [OF assms(1)] assms(2) by auto
next
  case (QeSettle n r)
  then show ?thesis using settle_sim [OF assms(1)] assms(2) by auto
next
  case (QeTimeout n)
  then show ?thesis using time_out_sim [OF assms(1)] assms(2) by auto
next
  case QeNumber
  then show ?thesis using refines_number [OF assms(1)] assms(2) by auto
qed

lemma queue_run_sim:
  "refines q v \<Longrightarrow> \<exists>v'. wire_run evs (snd (queue_run evs q)) v = Some v' \<and> refines (fst (queue_run evs q)) v'"
proof (induction evs arbitrary: q v)
  case (Cons x evs)
  obtain org ev where x: "x = (org, ev)" by (cases x)
  obtain q1 o1 where s: "queue_step org ev q = (q1, o1)" by fastforce
  obtain v1 where v1: "wire_outputs org o1 (wire_before ev v) = Some v1" "refines q1 v1" "list_all (quiet org v1) (pumped ev v)"
    using queue_step_sim [OF Cons.prems s] by blast
  show ?case using Cons.IH [OF v1(2)] s v1 x by (simp add: case_prod_unfold)
qed simp

lemma refines_empty: "refines empty_queue \<lparr>wr_last = 0, wr_open = [], wr_waiting = []\<rparr>"
  by (simp add: refines_def empty_queue_def queue_ok_def lanes_ok_def flights_ok_def busy_ok_def flights_of_def
      outstanding_def waits_def waiting_of_def)


text \<open>
  C28. The write queue keeps its promises on every run. Whatever is queued, settled, timed out, cleared
  or pumped, in any order and on any organization the page shows, the queue's outputs are steps of the
  abstract wire: a key has at most one request outstanding; a write is sent only on the page's
  organization, under a newer number than every one before, in the order it was queued, once; every
  answer and failure handed back belongs to a request still outstanding and settles it, so a late answer
  of an abandoned or dropped request is never handed back; and after a pump no key with a free wire
  holds back a write the page may send.
\<close>

theorem queue_refines_wire:
  "\<exists>v. wire_run evs (snd (queue_run evs empty_queue)) \<lparr>wr_last = 0, wr_open = [], wr_waiting = []\<rparr> = Some v \<and>
     wr_open v = outstanding (fst (queue_run evs empty_queue)) \<and>
     list_all (\<lambda>p. lane_idle (fst (queue_run evs empty_queue)) (fst (snd p)) = False) (wr_open v)"
proof -
  obtain v where v: "wire_run evs (snd (queue_run evs empty_queue)) \<lparr>wr_last = 0, wr_open = [], wr_waiting = []\<rparr> = Some v"
    "refines (fst (queue_run evs empty_queue)) v"
    using queue_run_sim [OF refines_empty] by blast
  note r = refinesD [OF v(2)]
  have "\<not> lane_idle (fst (queue_run evs empty_queue)) (fst (snd p))" if "p \<in> set (wr_open v)" for p
  proof -
    have "on_wire (fst (snd p)) v" using that by (auto simp: on_wire_def list_ex_iff)
    then show ?thesis using on_wire_busy [OF r(1,2)] by (simp add: lane_idle_def split: option.splits)
  qed
  then show ?thesis using v(1) r(2) by (auto simp: list_all_iff)
qed

text \<open>Two saves of one key: the second waits for the first's timeout, whose late answer is dropped.\<close>

lemma queue_samples:
  "concat (snd (queue_run [(Some ''o'', QeEnqueue ''k'' \<lparr>qw_org = ''o'', qw_timeout = write_timeout_ms, qw_write = (1::int)\<rparr>),
      (Some ''o'', QeEnqueue ''k'' \<lparr>qw_org = ''o'', qw_timeout = write_timeout_ms, qw_write = 2\<rparr>),
      (Some ''o'', QeTimeout 1), (Some ''o'', QePump ''k''), (Some ''o'', QeSettle 1 (Answered True))] empty_queue)) =
   [QoSend 1 ''k'' \<lparr>qw_org = ''o'', qw_timeout = 15000, qw_write = 1\<rparr>,
    QoFail 1 \<lparr>qw_org = ''o'', qw_timeout = 15000, qw_write = 1\<rparr> QfTimeout,
    QoSend 2 ''k'' \<lparr>qw_org = ''o'', qw_timeout = 15000, qw_write = 2\<rparr>]"
  by code_simp

end
