(* ===== verification/Draft_Cache.thy ===== *)
theory Draft_Cache
  imports Draft_Store
begin

text \<open>
  The \<open>sessionStorage\<close> cache of Elench drafts (lib/stores/elench-drafts/cache.ts). A storage is the list
  of its items in enumeration order; any access to it may throw, and the storage itself may be missing,
  which is a parameter of every operation (\<open>browser\<close>). The text of an item and its parsing
  (\<open>JSON.stringify\<close>, and \<open>JSON.parse\<close> read as an item's fields) are parameters too; the
  schema a parsed item has to pass is \<open>item_schema\<close>.
\<close>

section \<open>Storage\<close>

datatype storage_access = AcGetter | AcNames | AcGet string | AcSet string | AcRemove string

record browser =
  br_missing :: bool
  br_throws :: "storage_access \<Rightarrow> bool"

type_synonym items = "(string \<times> utf16) list"

record cache_item =
  ci_base :: int
  ci_local :: "draft_content option"
  ci_claiming :: "draft_claiming option"
  ci_sending :: "draft_sending option"
  ci_abandoned :: "string list"
  ci_epoch :: int

definition has_prefix :: "string \<Rightarrow> string \<Rightarrow> bool" where
  "has_prefix p s \<longleftrightarrow> take (length p) s = p"

definition code_units :: "string \<Rightarrow> utf16" where
  "code_units s = map of_char s"

section \<open>Names and items\<close>

definition cache_prefix :: string where "cache_prefix = ''alethia:elench:v3:''"
definition cache_budget :: nat where "cache_budget = 1000000"
definition legacy_v1 :: string where "legacy_v1 = ''alethia:elench:drafts:v1''"
definition legacy_v2_prefix :: string where "legacy_v2_prefix = ''alethia:elench:draft:v2:''"
definition active_prefix :: string where "active_prefix = cache_prefix @ ''active:''"

definition cacheable :: "draft_entry \<Rightarrow> bool" where
  "cacheable e \<longleftrightarrow> en_local e \<noteq> None \<or> en_claiming e \<noteq> None \<or> en_sending e \<noteq> None \<or> en_pending_failed_send e \<noteq> None"

definition item_key :: "string \<Rightarrow> draft_key \<Rightarrow> string" where
  "item_key viewer k = cache_prefix @ viewer @ '':'' @ key_id k"

definition item_of :: "draft_entry \<Rightarrow> cache_item" where
  "item_of e = \<lparr>ci_base = (case en_server e of None \<Rightarrow> 0 | Some r \<Rightarrow> sd_revision r), ci_local = en_local e,
     ci_claiming = en_claiming e, ci_sending = en_sending e, ci_abandoned = en_abandoned e, ci_epoch = en_epoch e\<rparr>"

text \<open>
  \<open>itemSchema\<close> on an item of the right shape. A send's time that is no number is printed as
  \<open>null\<close>, which the schema refuses.
\<close>

definition mentions_schema :: "draft_mention list \<Rightarrow> bool" where
  "mentions_schema ms \<longleftrightarrow> list_all draft_mention_ok ms \<and> length ms \<le> max_draft_mention_spans \<and>
     length (distinct_mentions ms) \<le> max_draft_distinct_mentions"

definition claiming_schema :: "(string \<Rightarrow> bool) \<Rightarrow> draft_claiming \<Rightarrow> bool" where
  "claiming_schema is_uuid c \<longleftrightarrow> content_schema is_uuid (cg_content c)"

definition sending_schema :: "draft_sending \<Rightarrow> bool" where
  "sending_schema s \<longleftrightarrow> mentions_schema (sg_mentions s) \<and> pred_option cell_target_ok (sg_cell s) \<and> sg_at s \<noteq> None"

definition item_schema :: "(string \<Rightarrow> bool) \<Rightarrow> cache_item \<Rightarrow> bool" where
  "item_schema is_uuid i \<longleftrightarrow> safe_int (ci_base i) \<and> 0 \<le> ci_base i \<and> pred_option (content_schema is_uuid) (ci_local i) \<and>
     pred_option (claiming_schema is_uuid) (ci_claiming i) \<and> pred_option sending_schema (ci_sending i) \<and> safe_int (ci_epoch i)"

text \<open>An item's text read back: parsed, and refused unless it passes the schema.\<close>

definition read_item :: "(string \<Rightarrow> bool) \<Rightarrow> (utf16 \<Rightarrow> cache_item option) \<Rightarrow> utf16 \<Rightarrow> cache_item option" where
  "read_item is_uuid parse t =
     (case parse t of None \<Rightarrow> None | Some i \<Rightarrow> if item_schema is_uuid i then Some i else None)"

definition cached_of :: "draft_key \<Rightarrow> cache_item \<Rightarrow> cached_draft" where
  "cached_of k i = \<lparr>ca_key = k, ca_base = ci_base i, ca_local = ci_local i, ca_claiming = ci_claiming i,
     ca_sending = ci_sending i, ca_abandoned = ci_abandoned i, ca_epoch = ci_epoch i\<rparr>"

section \<open>Operations\<close>

text \<open>\<open>store()\<close>: the storage, unless it is missing or its getter throws.\<close>

definition reachable :: "browser \<Rightarrow> bool" where
  "reachable br \<longleftrightarrow> \<not> br_throws br AcGetter \<and> \<not> br_missing br"

definition item_names :: "browser \<Rightarrow> items \<Rightarrow> string list" where
  "item_names br s = (if br_throws br AcNames then [] else map fst s)"

definition drop_item :: "browser \<Rightarrow> string \<Rightarrow> items \<Rightarrow> items" where
  "drop_item br n s = (if br_throws br (AcRemove n) then s else AList.delete n s)"

text \<open>The units the other Elench items use, added to \<open>used\<close>; \<open>None\<close> when reading one throws.\<close>

fun scan_units :: "browser \<Rightarrow> string \<Rightarrow> items \<Rightarrow> string list \<Rightarrow> nat \<Rightarrow> nat option" where
  "scan_units br name s [] used = Some used"
| "scan_units br name s (n # ns) used =
     (if n = name \<or> \<not> has_prefix cache_prefix n then scan_units br name s ns used
      else if br_throws br (AcGet n) then None
      else scan_units br name s ns (used + length n + (case map_of s n of None \<Rightarrow> 0 | Some t \<Rightarrow> length t)))"

definition write_item :: "browser \<Rightarrow> (cache_item \<Rightarrow> utf16) \<Rightarrow> string \<Rightarrow> draft_entry \<Rightarrow> items \<Rightarrow> bool \<times> items" where
  "write_item br json viewer e s =
     (if \<not> reachable br then (False, s)
      else (let name = item_key viewer (en_key e); value = json (item_of e)
            in case scan_units br name s (item_names br s) (length name + length value) of
                 None \<Rightarrow> (False, s)
               | Some used \<Rightarrow>
                   if used > cache_budget then (False, s)
                   else if br_throws br (AcSet name) then (False, s)
                   else (True, AList.update name value s)))"

definition remove_item :: "browser \<Rightarrow> string \<Rightarrow> draft_key \<Rightarrow> items \<Rightarrow> items" where
  "remove_item br viewer k s = (if reachable br then drop_item br (item_key viewer k) s else s)"

text \<open>Every name that satisfies \<open>p\<close>, of those enumerated first, is dropped.\<close>

definition drop_names :: "browser \<Rightarrow> (string \<Rightarrow> bool) \<Rightarrow> items \<Rightarrow> items" where
  "drop_names br p s = fold (drop_item br) (filter p (item_names br s)) s"

definition clear_items :: "browser \<Rightarrow> items \<Rightarrow> items" where
  "clear_items br s = (if reachable br then drop_names br (has_prefix cache_prefix) s else s)"

definition purged :: "string \<Rightarrow> string \<Rightarrow> bool" where
  "purged viewer n \<longleftrightarrow> n = legacy_v1 \<or> has_prefix legacy_v2_prefix n \<or>
     has_prefix cache_prefix n \<and> \<not> has_prefix (cache_prefix @ viewer @ '':'') n \<and> \<not> has_prefix (active_prefix @ viewer @ '':'') n"

definition purge_for_load :: "browser \<Rightarrow> string \<Rightarrow> items \<Rightarrow> items" where
  "purge_for_load br viewer s = (if reachable br then drop_names br (purged viewer) s else s)"

definition read_name ::
  "browser \<Rightarrow> (utf16 \<Rightarrow> cache_item option) \<Rightarrow> string \<Rightarrow> draft_scope \<Rightarrow> items \<Rightarrow> string \<Rightarrow> cached_draft option" where
  "read_name br rd pre scope s n =
     (let conversation = drop (length pre) n
      in if \<not> has_prefix pre n \<or> conversation = '''' \<or> CHR '':'' \<in> set conversation \<or> br_throws br (AcGet n) then None
         else map_option (cached_of (key_in scope conversation)) (rd (case map_of s n of None \<Rightarrow> [] | Some t \<Rightarrow> t)))"

definition read_scope :: "browser \<Rightarrow> (utf16 \<Rightarrow> cache_item option) \<Rightarrow> string \<Rightarrow> draft_scope \<Rightarrow> items \<Rightarrow> cached_draft list" where
  "read_scope br rd viewer scope s =
     (if reachable br
      then List.map_filter (read_name br rd (cache_prefix @ viewer @ '':'' @ scope_id scope @ '':'') scope s) (item_names br s)
      else [])"

fun set_active :: "browser \<Rightarrow> string \<Rightarrow> (string \<times> string) list \<Rightarrow> items \<Rightarrow> items" where
  "set_active br pre [] s = s"
| "set_active br pre (p # ps) s =
     (if br_throws br (AcSet (pre @ fst p)) then s
      else set_active br pre ps (AList.update (pre @ fst p) (code_units (snd p)) s))"

definition write_active :: "browser \<Rightarrow> string \<Rightarrow> (string \<times> string) list \<Rightarrow> items \<Rightarrow> items" where
  "write_active br viewer active s =
     (if \<not> reachable br then s
      else (let pre = active_prefix @ viewer @ '':''
            in set_active br pre active
                 (drop_names br (\<lambda>n. has_prefix pre n \<and> map_of active (drop (length pre) n) = None) s)))"

definition read_active :: "browser \<Rightarrow> string \<Rightarrow> draft_scope \<Rightarrow> items \<Rightarrow> utf16 option" where
  "read_active br viewer scope s =
     (let n = active_prefix @ viewer @ '':'' @ scope_id scope
      in if \<not> reachable br \<or> br_throws br (AcGet n) then None else map_of s n)"

section \<open>What the operations leave alone\<close>

lemma has_prefix_append [simp]: "has_prefix p (p @ s)"
  by (simp add: has_prefix_def)

lemma has_prefix_iff: "has_prefix p s \<longleftrightarrow> (\<exists>t. s = p @ t)"
  by (metis has_prefix_def append_take_drop_id append_eq_conv_conj)

lemma drop_item_other: "n \<noteq> m \<Longrightarrow> map_of (drop_item br m s) n = map_of s n"
  by (simp add: drop_item_def AList.delete_conv')

lemma drop_item_distinct: "distinct (map fst s) \<Longrightarrow> distinct (map fst (drop_item br m s))"
  by (simp add: drop_item_def AList.distinct_delete)

lemma drop_names_keeps: "\<not> p n \<Longrightarrow> map_of (drop_names br p s) n = map_of s n"
proof -
  assume "\<not> p n"
  have "n \<notin> set ns \<Longrightarrow> map_of (fold (drop_item br) ns s) n = map_of s n" for ns s
    by (induction ns arbitrary: s) (simp_all add: drop_item_other)
  with \<open>\<not> p n\<close> show ?thesis by (simp add: drop_names_def)
qed

lemma drop_names_distinct: "distinct (map fst s) \<Longrightarrow> distinct (map fst (drop_names br p s))"
proof -
  have "distinct (map fst s) \<Longrightarrow> distinct (map fst (fold (drop_item br) ns s))" for ns s
    by (induction ns arbitrary: s) (simp_all add: drop_item_distinct)
  then show "distinct (map fst s) \<Longrightarrow> distinct (map fst (drop_names br p s))" by (simp add: drop_names_def)
qed

lemma map_of_names: "n \<in> fst ` set s \<longleftrightarrow> map_of s n \<noteq> None"
  by (metis map_of_eq_None_iff)

lemma write_item_cases:
  obtains (refused) "write_item br json v e s = (False, s)"
  | (written) used where "write_item br json v e s = (True, AList.update (item_key v (en_key e)) (json (item_of e)) s)"
      "scan_units br (item_key v (en_key e)) s (item_names br s) (length (item_key v (en_key e)) + length (json (item_of e))) = Some used"
      "used \<le> cache_budget"
proof -
  show ?thesis
  proof (cases "fst (write_item br json v e s)")
    case True
    then obtain used where u: "scan_units br (item_key v (en_key e)) s (item_names br s)
        (length (item_key v (en_key e)) + length (json (item_of e))) = Some used"
      "reachable br" "used \<le> cache_budget" "\<not> br_throws br (AcSet (item_key v (en_key e)))"
      by (auto simp: write_item_def Let_def split: option.splits if_splits)
    then show ?thesis by (intro written [of used]) (simp_all add: write_item_def Let_def)
  next
    case False
    then have "write_item br json v e s = (False, s)"
      by (auto simp: write_item_def Let_def split: option.splits if_splits)
    then show ?thesis by (rule refused)
  qed
qed

section \<open>The budget\<close>

definition item_units :: "string \<times> utf16 \<Rightarrow> nat" where
  "item_units p = length (fst p) + length (snd p)"

definition elench_units :: "items \<Rightarrow> nat" where
  "elench_units s = sum_list (map item_units (filter (\<lambda>p. has_prefix cache_prefix (fst p)) s))"

lemma scan_units_adds:
  assumes "distinct (map fst t)" "set t \<subseteq> set s" "distinct (map fst s)" "scan_units br name s (map fst t) u = Some used"
  shows "used = u + elench_units (AList.delete name t)"
  using assms
proof (induction t arbitrary: u)
  case (Cons p t)
  have m: "map_of s (fst p) = Some (snd p)" using Cons.prems(2,3) by (cases p) (simp add: map_of_is_SomeI)
  have t: "distinct (map fst t)" "set t \<subseteq> set s" using Cons.prems(1,2) by simp_all
  show ?case
  proof (cases "fst p = name \<or> \<not> has_prefix cache_prefix (fst p)")
    case True
    then have "used = u + elench_units (AList.delete name t)" using Cons.IH [OF t Cons.prems(3)] Cons.prems(4) by auto
    then show ?thesis using True by (cases p) (auto simp: elench_units_def)
  next
    case False
    then have "scan_units br name s (map fst t) (u + item_units p) = Some used"
      using Cons.prems(4) m by (simp add: item_units_def add.assoc split: if_splits)
    then have "used = u + item_units p + elench_units (AList.delete name t)" by (rule Cons.IH [OF t Cons.prems(3)])
    then show ?thesis using False by (cases p) (auto simp: elench_units_def)
  qed
qed (simp add: elench_units_def)

lemma elench_units_update:
  assumes "distinct (map fst s)" "has_prefix cache_prefix n"
  shows "elench_units (AList.update n t s) = length n + length t + elench_units (AList.delete n s)"
  using assms
proof (induction s)
  case (Cons p s)
  show ?case
  proof (cases "fst p = n")
    case True
    then have "n \<notin> fst ` set s" using Cons.prems(1) by auto
    then have "AList.delete n s = s" by (rule AList.delete_id)
    then show ?thesis using True Cons.prems(2) by (cases p) (simp add: elench_units_def item_units_def)
  next
    case False
    then show ?thesis using Cons by (cases p) (simp add: elench_units_def)
  qed
qed (simp add: elench_units_def item_units_def)

lemma item_key_prefixed: "has_prefix cache_prefix (item_key v k)"
  by (simp add: item_key_def)

text \<open>
  C32. A refused write changes nothing, and a kept one stays in the budget. Whatever the browser throws,
  a write that answers false leaves every item as it was, Elench's and others'; one that answers true
  stores exactly this key's item, touches no other, and, wherever the names could be enumerated, leaves
  all Elench items together within a million code units.
\<close>

theorem write_all_or_nothing:
  assumes "distinct (map fst s)"
  shows "case write_item br json v e s of
    (False, s') \<Rightarrow> s' = s
  | (True, s') \<Rightarrow> map_of s' = (map_of s)(item_key v (en_key e) \<mapsto> json (item_of e)) \<and> distinct (map fst s') \<and>
      (br_throws br AcNames \<or> elench_units s' \<le> cache_budget)"
proof (cases rule: write_item_cases [of br json v e s])
  case refused
  then show ?thesis by simp
next
  case (written used)
  have "elench_units (AList.update (item_key v (en_key e)) (json (item_of e)) s) \<le> cache_budget" if "\<not> br_throws br AcNames"
  proof -
    have "used = length (item_key v (en_key e)) + length (json (item_of e)) + elench_units (AList.delete (item_key v (en_key e)) s)"
      using written(2) that by (intro scan_units_adds [OF assms _ assms, where br = br]) (simp_all add: item_names_def)
    then show ?thesis using written(3) by (simp add: elench_units_update [OF assms item_key_prefixed])
  qed
  then show ?thesis using written(1) assms by (auto simp: AList.update_conv' AList.distinct_update)
qed


section \<open>Round trip\<close>

lemma own_item_kept: "\<not> purged v (item_key v k)"
proof -
  have "\<not> has_prefix legacy_v2_prefix (cache_prefix @ s)" "cache_prefix @ s \<noteq> legacy_v1" for s
    by (simp_all add: has_prefix_def cache_prefix_def legacy_v2_prefix_def legacy_v1_def)
  moreover have "has_prefix (cache_prefix @ v @ '':'') (item_key v k)"
    unfolding item_key_def has_prefix_iff by auto
  ultimately show ?thesis by (simp add: purged_def item_key_def)
qed

lemma key_in_scope: "key_in (draft_scope.truncate k) (dk_conversation k) = (k :: draft_key)"
  by (simp add: key_in_def draft_scope.truncate_def)

lemma in_map_filter: "y \<in> set (List.map_filter f xs) \<longleftrightarrow> (\<exists>x\<in>set xs. f x = Some y)"
  by (auto simp: map_filter_def image_iff)

lemma cached_of_inj: "cached_of k i = cached_of k j \<longleftrightarrow> i = j"
  by (cases i; cases j) (simp add: cached_of_def)

lemma scope_id_truncate: "scope_id (draft_scope.truncate k) = scope_id k"
  by (simp add: scope_id_def draft_scope.truncate_def)

text \<open>
  An item that stands in the storage is read back by a load of its viewer and scope if its text reads
  back, and nothing else is read back under its key.
\<close>

lemma stored_item_read:
  assumes "map_of s (item_key v (en_key e)) = Some t"
    and "dk_conversation (en_key e) \<noteq> []" "CHR '':'' \<notin> set (dk_conversation (en_key e))"
    and "reachable br" "\<not> br_throws br AcNames" "\<not> br_throws br (AcGet (item_key v (en_key e)))"
  shows "cached_of (en_key e) i \<in> set (read_scope br rd v (draft_scope.truncate (en_key e)) s) \<longleftrightarrow> rd t = Some i"
proof -
  let ?n = "item_key v (en_key e)"
  let ?sc = "draft_scope.truncate (en_key e)"
  let ?pre = "cache_prefix @ v @ '':'' @ scope_id ?sc @ '':''"
  have n: "?n = ?pre @ dk_conversation (en_key e)" by (simp add: item_key_def key_id_def scope_id_truncate)
  have at: "has_prefix ?pre ?n = True" "drop (length ?pre) ?n = dk_conversation (en_key e)"
    unfolding n by (simp_all only: has_prefix_append append_eq_conv_conj) simp
  have rn: "read_name br rd ?pre ?sc s ?n = map_option (cached_of (en_key e)) (rd t)"
    unfolding read_name_def Let_def at using assms key_in_scope [of "en_key e"] by simp
  have here: "?n \<in> set (item_names br s)"
    using assms(1,5) map_of_names [of ?n s] by (simp add: item_names_def)
  have only: "rd t = Some i" if m: "m \<in> set (item_names br s)" and r: "read_name br rd ?pre ?sc s m = Some (cached_of (en_key e) i)" for m
  proof -
    have "has_prefix ?pre m" and k: "key_in ?sc (drop (length ?pre) m) = en_key e"
      using r by (auto simp: read_name_def Let_def cached_of_def split: if_splits)
    then have "m = ?pre @ drop (length ?pre) m" by (metis has_prefix_def append_take_drop_id)
    moreover have "drop (length ?pre) m = dk_conversation (en_key e)"
      using k by (metis key_in_def draft_key.select_convs(1))
    ultimately have "m = ?n" using n by simp
    then have "map_option (cached_of (en_key e)) (rd t) = Some (cached_of (en_key e) i)" using r rn by simp
    then show ?thesis by (auto simp: cached_of_inj)
  qed
  show ?thesis
  proof
    assume "cached_of (en_key e) i \<in> set (read_scope br rd v ?sc s)"
    then obtain m where "m \<in> set (item_names br s)" "read_name br rd ?pre ?sc s m = Some (cached_of (en_key e) i)"
      using assms(4) by (auto simp: read_scope_def in_map_filter)
    then show "rd t = Some i" by (rule only)
  next
    assume "rd t = Some i"
    then have "read_name br rd ?pre ?sc s ?n = Some (cached_of (en_key e) i)" using rn by simp
    then show "cached_of (en_key e) i \<in> set (read_scope br rd v ?sc s)"
      using here assms(4) by (auto simp: read_scope_def in_map_filter)
  qed
qed

text \<open>Read through the schema: exactly the items that pass it come back.\<close>

lemma read_item_iff: "parse t = Some i \<Longrightarrow> read_item is_uuid parse t = Some i \<longleftrightarrow> item_schema is_uuid i"
  by (simp add: read_item_def)

text \<open>
  The schema is narrower than what is written: unsaved words past the message cap are kept by a write
  that the budget allows, and no reload hands them back.
\<close>

lemma long_words_refused:
  "ci_local i = Some c \<Longrightarrow> max_user_message_chars < length (dc_text c) \<Longrightarrow> \<not> item_schema is_uuid i"
  by (simp add: item_schema_def content_schema_def)

text \<open>
  What the cache keeps, a reload reads back. A kept write of an entry is read back by the next load
  of its viewer and scope, behind the purge of every other viewer's and older version's items, as exactly
  the entry's unsaved words, claim, send, base and epoch, if the item's text reads back and the
  conversation id is a non-empty one without a colon.
\<close>

theorem cache_roundtrip:
  assumes "write_item br json v e s = (True, s')" "rd (json (item_of e)) = Some (item_of e)"
    and "dk_conversation (en_key e) \<noteq> []" "CHR '':'' \<notin> set (dk_conversation (en_key e))"
    and "reachable br'" "\<not> br_throws br' AcNames" "\<not> br_throws br' (AcGet (item_key v (en_key e)))"
  shows "cached_of (en_key e) (item_of e) \<in>
    set (read_scope br' rd v (draft_scope.truncate (en_key e)) (purge_for_load br' v s'))"
proof -
  have stored: "map_of s' (item_key v (en_key e)) = Some (json (item_of e))"
    using assms(1) by (cases rule: write_item_cases [of br json v e s]) (auto simp: AList.update_conv')
  have "map_of (purge_for_load br' v s') (item_key v (en_key e)) = Some (json (item_of e))"
    using stored own_item_kept by (simp add: purge_for_load_def drop_names_keeps)
  then show ?thesis using stored_item_read assms(2-7) by blast
qed

definition quiet_browser :: browser where
  "quiet_browser = \<lparr>br_missing = False, br_throws = (\<lambda>a. False)\<rparr>"

definition sample_unsaved :: draft_entry where
  "sample_unsaved = (new_entry \<lparr>ds_org = ''o'', ds_project = Some ''p'', dk_conversation = ''c''\<rparr> ThreadNone)
     \<lparr>en_local := Some (empty_content\<lparr>dc_text := [104, 105]\<rparr>)\<rparr>"

definition sample_json :: "cache_item \<Rightarrow> utf16" where
  "sample_json i = (case ci_local i of None \<Rightarrow> [] | Some c \<Rightarrow> dc_text c)"

definition sample_read :: "utf16 \<Rightarrow> cache_item option" where
  "sample_read t = (if t = [] then None else Some (item_of (sample_unsaved\<lparr>en_local := Some (empty_content\<lparr>dc_text := t\<rparr>)\<rparr>)))"

lemma sample_written: "write_item quiet_browser sample_json ''v'' sample_unsaved [(legacy_v1, [1])] =
    (True, [(legacy_v1, [1]), (''alethia:elench:v3:v:o:project:p:c'', [104, 105])])"
  by (simp add: write_item_def reachable_def quiet_browser_def item_key_def sample_unsaved_def new_entry_def key_id_def
      scope_id_def cache_prefix_def item_names_def legacy_v1_def has_prefix_def sample_json_def item_of_def cache_budget_def)

theorem cache_roundtrip_witness:
  "cached_of (en_key sample_unsaved) (item_of sample_unsaved) \<in>
     set (read_scope quiet_browser sample_read ''v'' (draft_scope.truncate (en_key sample_unsaved))
       (purge_for_load quiet_browser ''v'' [(legacy_v1, [1]), (''alethia:elench:v3:v:o:project:p:c'', [104, 105])]))"
  by (rule cache_roundtrip [OF sample_written])
     (simp_all add: sample_read_def sample_json_def sample_unsaved_def item_of_def new_entry_def quiet_browser_def reachable_def)

theorem write_all_or_nothing_witness:
  "elench_units (snd (write_item quiet_browser sample_json ''v'' sample_unsaved [(legacy_v1, [1])])) \<le> cache_budget"
proof -
  have "distinct (map fst [(legacy_v1, [1::16 word])])" by simp
  from write_all_or_nothing [OF this, where br = quiet_browser and json = sample_json and v = "''v''" and e = sample_unsaved] show ?thesis
    unfolding sample_written by (simp add: quiet_browser_def)
qed

text \<open>The mirror of the active conversations is not budgeted: it can take the items past the budget.\<close>

lemma active_mirror_unbudgeted:
  "elench_units (write_active quiet_browser ''v'' [(''o:org'', ''c'')] [(cache_prefix, replicate 999980 0)]) > cache_budget"
proof -
  have "write_active quiet_browser ''v'' [(''o:org'', ''c'')] [(cache_prefix, t)] =
      [(cache_prefix, t), (active_prefix @ ''v:'' @ ''o:org'', code_units ''c'')]" for t
    by (simp add: write_active_def reachable_def quiet_browser_def drop_names_def item_names_def has_prefix_def
        cache_prefix_def active_prefix_def)
  then show ?thesis
    by (simp add: elench_units_def item_units_def has_prefix_def cache_prefix_def active_prefix_def cache_budget_def code_units_def)
qed

end
