(* ===== verification/Draft_Beats.thy ===== *)
theory Draft_Beats
  imports Draft_Store
begin

text \<open>
  The heartbeats of granted claims (lib/stores/elench-drafts/heartbeat.ts): one interval timer per token,
  the tokens a 401 or 403 stopped, and one beat. The fetch is a parameter: a beat's answer is an event.
\<close>

section \<open>State\<close>

definition heartbeat_interval_ms :: int where "heartbeat_interval_ms = 20000"
definition heartbeat_timeout_ms :: int where "heartbeat_timeout_ms = 10000"

record heartbeat_body =
  hb_org :: string
  hb_conversation :: string
  hb_token :: string

record granted_claim =
  gc_key :: draft_key
  gc_token :: string

text \<open>The running timers and the stopped tokens, both in insertion order.\<close>

record claim_heartbeats =
  ch_timers :: "(string \<times> granted_claim) list"
  ch_stopped :: "string list"

text \<open>A beat's fetch: it threw, or a status with the body the schema admits, if it does.\<close>

datatype beat_answer = BeatThrew | BeatStatus nat "touch_result option"

section \<open>Operations\<close>

definition no_heartbeats :: claim_heartbeats where
  "no_heartbeats = \<lparr>ch_timers = [], ch_stopped = []\<rparr>"

definition claims_map :: "granted_claim list \<Rightarrow> (string \<times> granted_claim) list" where
  "claims_map cs = fold (\<lambda>c. AList.update (gc_token c) c) cs []"

text \<open>A new timer for every wanted claim that has none and was not stopped.\<close>

definition start_beats :: "(string \<times> granted_claim) list \<Rightarrow> claim_heartbeats \<Rightarrow> claim_heartbeats" where
  "start_beats want b =
     b\<lparr>ch_timers := ch_timers b @ filter (\<lambda>p. fst p \<notin> fst ` set (ch_timers b) \<and> fst p \<notin> set (ch_stopped b)) want\<rparr>"

definition sync_beats :: "granted_claim list \<Rightarrow> claim_heartbeats \<Rightarrow> claim_heartbeats" where
  "sync_beats claims b =
     (let want = claims_map claims
      in start_beats want \<lparr>ch_timers = filter (\<lambda>p. map_of want (fst p) \<noteq> None) (ch_timers b),
           ch_stopped = filter (\<lambda>t. map_of want t \<noteq> None) (ch_stopped b)\<rparr>)"

definition stop_all_beats :: "claim_heartbeats \<Rightarrow> claim_heartbeats" where
  "stop_all_beats b = b\<lparr>ch_timers := []\<rparr>"

definition beat_body :: "granted_claim \<Rightarrow> heartbeat_body" where
  "beat_body c = \<lparr>hb_org = ds_org (gc_key c), hb_conversation = dk_conversation (gc_key c), hb_token = gc_token c\<rparr>"

definition beat_all :: "claim_heartbeats \<Rightarrow> heartbeat_body list" where
  "beat_all b = map (beat_body \<circ> snd) (ch_timers b)"

text \<open>\<open>res.ok\<close> is a status of 200 to 299. What the answer does to the timers, and the result it hands back.\<close>

definition beat_answered :: "granted_claim \<Rightarrow> beat_answer \<Rightarrow> claim_heartbeats \<Rightarrow> claim_heartbeats \<times> touch_result option" where
  "beat_answered c a b =
     (case a of
        BeatThrew \<Rightarrow> (b, None)
      | BeatStatus s body \<Rightarrow>
          if s = 401 \<or> s = 403
          then (b\<lparr>ch_stopped := List.insert (gc_token c) (ch_stopped b), ch_timers := AList.delete (gc_token c) (ch_timers b)\<rparr>, None)
          else if s < 200 \<or> s > 299 then (b, None)
          else (b, body))"

section \<open>Laws\<close>

text \<open>A timer runs for exactly the granted tokens that were not stopped.\<close>

definition beating :: "granted_claim list \<Rightarrow> claim_heartbeats \<Rightarrow> bool" where
  "beating claims b \<longleftrightarrow> distinct (map fst (ch_timers b)) \<and>
     fst ` set (ch_timers b) = gc_token ` set claims - set (ch_stopped b)"

lemma claims_map_tokens: "fst ` set (claims_map cs) = gc_token ` set cs" "distinct (map fst (claims_map cs))"
proof -
  have u: "fst ` set (AList.update k v l) = insert k (fst ` set l)" for k and v :: granted_claim and l
    by (induction l) auto
  have "fst ` set (fold (\<lambda>c. AList.update (gc_token c) c) cs l) = gc_token ` set cs \<union> fst ` set l" for l
    by (induction cs arbitrary: l) (simp_all add: u)
  then show "fst ` set (claims_map cs) = gc_token ` set cs" by (simp add: claims_map_def)
  have "distinct (map fst l) \<Longrightarrow> distinct (map fst (fold (\<lambda>c. AList.update (gc_token c) c) cs l))" for l
    by (induction cs arbitrary: l) (simp_all add: AList.distinct_update)
  then show "distinct (map fst (claims_map cs))" by (simp add: claims_map_def)
qed

lemma sync_beats_beating:
  assumes "distinct (map fst (ch_timers b))" "fst ` set (ch_timers b) \<inter> set (ch_stopped b) = {}"
  shows "beating claims (sync_beats claims b)" "set (ch_stopped (sync_beats claims b)) \<subseteq> set (ch_stopped b)"
proof -
  let ?w = "claims_map claims"
  have w: "map_of ?w t \<noteq> None \<longleftrightarrow> t \<in> gc_token ` set claims" for t
    by (metis map_of_eq_None_iff claims_map_tokens(1))
  have d: "distinct (map fst (ch_timers (sync_beats claims b)))"
  proof -
    have "distinct (map fst (filter (\<lambda>p. map_of ?w (fst p) \<noteq> None) (ch_timers b)))"
      "distinct (map fst (filter p (claims_map claims)))" for p
      using assms(1) claims_map_tokens(2) [of claims] by (simp_all add: distinct_map_filter)
    then show ?thesis by (force simp: sync_beats_def start_beats_def Let_def)
  qed
  have img: "fst ` set (filter (\<lambda>p. map_of ?w (fst p) \<noteq> None) l) = {t \<in> fst ` set l. map_of ?w t \<noteq> None}"
    "fst ` set (filter (\<lambda>p. fst p \<notin> A \<and> fst p \<notin> B) l) = {t \<in> fst ` set l. t \<notin> A \<and> t \<notin> B}"
    for A B and l :: "(string \<times> granted_claim) list"
    by auto
  have wm: "{t. map_of ?w t \<noteq> None} = gc_token ` set claims" using w by blast
  have "fst ` set (ch_timers (sync_beats claims b)) =
      {t \<in> fst ` set (ch_timers b). map_of ?w t \<noteq> None} \<union>
      {t \<in> fst ` set ?w. t \<notin> {t \<in> fst ` set (ch_timers b). map_of ?w t \<noteq> None} \<and>
        t \<notin> {t \<in> set (ch_stopped b). map_of ?w t \<noteq> None}}"
    unfolding sync_beats_def start_beats_def Let_def
    by (simp only: claim_heartbeats.simps set_append image_Un img) (simp only: set_filter)
  also have "\<dots> = gc_token ` set claims - {t \<in> set (ch_stopped b). map_of ?w t \<noteq> None}"
    unfolding claims_map_tokens(1) wm [symmetric] using assms(2) by blast
  also have "\<dots> = gc_token ` set claims - set (ch_stopped (sync_beats claims b))"
    by (simp add: sync_beats_def start_beats_def Let_def)
  finally have "fst ` set (ch_timers (sync_beats claims b)) = gc_token ` set claims - set (ch_stopped (sync_beats claims b))" .
  then show "beating claims (sync_beats claims b)" using d by (simp add: beating_def)
  show "set (ch_stopped (sync_beats claims b)) \<subseteq> set (ch_stopped b)"
    by (auto simp: sync_beats_def start_beats_def Let_def)
qed

lemma beating_answered:
  assumes "beating claims b"
  shows "beating claims (fst (beat_answered c a b))"
proof -
  have k: "fst ` set (AList.delete t (ch_timers b)) = fst ` set (ch_timers b) - {t}" for t
    by (metis AList.delete_keys list.set_map set_removeAll)
  show ?thesis using assms k by (cases a) (auto simp: beating_def beat_answered_def AList.distinct_delete)
qed

end
