(* ===== verification/Draft_Page.thy ===== *)
theory Draft_Page
  imports Draft_Runs Draft_Queue Draft_Cache Draft_Beats "HOL-Library.List_Lexorder"
begin

text \<open>
  The effects layer of Elench drafts (lib/stores/elench-drafts/store.ts): one tab's handle around the
  reducer, the write queue, the timers, the cache and the heartbeats. Everything the browser and the
  server do is an event of a run (\<open>page_event\<close>), everything the handle does to them an output. What the
  handle cannot choose is a parameter (\<open>drafts_page\<close>): the clock, fresh ids, what each storage access does, the
  text of a cache item, and which of two equal values are one JavaScript object.
\<close>

section \<open>The handle\<close>

definition cache_debounce_ms :: int where "cache_debounce_ms = 300"
definition list_poll_ms :: int where "list_poll_ms = 60000"
definition claimed_poll_ms :: int where "claimed_poll_ms = 10000"

text \<open>The body of a start: the composer's, by its claim, or a prompt from outside.\<close>

datatype start_input =
  StartComposer string string int
| StartExternal string int external_prompt

datatype draft_call =
  CallSave draft_key int draft_content "pending_failed_send option"
| CallDismiss draft_key int draft_content
| CallRestore draft_key int
| CallDiscard draft_key int
| CallClaim draft_key string int draft_content string string send_kind
| CallStart draft_key string start_input
| CallConsume draft_key string nat
| CallRelease draft_key string string bool "string option" nat

datatype call_answer =
  AnSave save_result | AnRestore restore_result | AnDiscard discard_result | AnClaim claim_result
| AnStart start_result | AnConsume consume_result | AnRelease release_result

record notice_item =
  ni_id :: int
  ni_key :: draft_key
  ni_notice :: "draft_notice + send_notice"
  ni_reason :: "string option"

datatype timer_job = JobWrite draft_call | JobSave draft_key save_trigger

record list_flight =
  lf_seq :: int
  lf_scope :: draft_scope
  lf_generation :: int

record handle =
  hd_drafts :: drafts_store
  hd_uncached :: "string list"
  hd_notices :: "notice_item list"
  hd_notice_id :: int
  hd_queue :: "draft_call write_queue"
  hd_beats :: claim_heartbeats
  hd_timers :: "(string \<times> timer_job) list"
  hd_cache_timers :: "string list"
  hd_cached :: "(string \<times> draft_entry) list"
  hd_restore :: "(string \<times> cached_draft list) list"
  hd_listed_org :: "string option"
  hd_surface :: bool
  hd_poll :: "int option"
  hd_disposed :: bool
  hd_lists :: "list_flight list"
  hd_storage :: items
  hd_clock :: nat

record drafts_page =
  pg_tab :: string
  pg_now :: "nat \<Rightarrow> string"
  pg_fresh :: "nat \<Rightarrow> fresh_ids"
  pg_browser :: "nat \<Rightarrow> browser"
  pg_json :: "cache_item \<Rightarrow> utf16"
  pg_parse :: "utf16 \<Rightarrow> cache_item option"
  pg_uuid :: "string \<Rightarrow> bool"
  pg_same :: "nat \<Rightarrow> draft_entry \<Rightarrow> draft_entry \<Rightarrow> bool"
  pg_same_active :: "nat \<Rightarrow> (string \<times> string) list \<Rightarrow> (string \<times> string) list \<Rightarrow> bool"

datatype page_output =
  HoCall int draft_call
| HoList int "string option" "string option"
| HoUi send_effect
| HoBeat heartbeat_body

type_synonym page_action = "handle \<Rightarrow> handle \<times> page_output list"

definition fresh_handle :: "string option \<Rightarrow> items \<Rightarrow> handle" where
  "fresh_handle viewer storage = \<lparr>hd_drafts = initial_drafts_store viewer, hd_uncached = [], hd_notices = [],
     hd_notice_id = 0, hd_queue = empty_queue, hd_beats = no_heartbeats, hd_timers = [], hd_cache_timers = [],
     hd_cached = [], hd_restore = [], hd_listed_org = None, hd_surface = False, hd_poll = None, hd_disposed = False,
     hd_lists = [], hd_storage = storage, hd_clock = 0\<rparr>"

definition seq_steps :: "page_action \<Rightarrow> page_action \<Rightarrow> page_action" where
  "seq_steps f g h = (case f h of (h1, o1) \<Rightarrow> (case g h1 of (h2, o2) \<Rightarrow> (h2, o1 @ o2)))"

fun each_step :: "('a \<Rightarrow> page_action) \<Rightarrow> 'a list \<Rightarrow> page_action" where
  "each_step f [] h = (h, [])"
| "each_step f (x # xs) h = seq_steps (f x) (each_step f xs) h"

section \<open>Calls\<close>

fun call_key :: "draft_call \<Rightarrow> draft_key" where
  "call_key (CallSave k _ _ _) = k"
| "call_key (CallDismiss k _ _) = k"
| "call_key (CallRestore k _) = k"
| "call_key (CallDiscard k _) = k"
| "call_key (CallClaim k _ _ _ _ _ _) = k"
| "call_key (CallStart k _ _) = k"
| "call_key (CallConsume k _ _) = k"
| "call_key (CallRelease k _ _ _ _ _) = k"

fun call_timeout :: "draft_call \<Rightarrow> int" where
  "call_timeout (CallStart _ _ _) = start_timeout_ms"
| "call_timeout _ = write_timeout_ms"

text \<open>The event of an answer; an answer of another action cannot come back, as the types say.\<close>

fun answer_event :: "draft_call \<Rightarrow> int \<Rightarrow> call_answer \<Rightarrow> key_event option" where
  "answer_event (CallSave _ _ _ _) s (AnSave r) = Some (KeyDraft (EvSaveResult s r))"
| "answer_event (CallDismiss _ _ _) s (AnSave r) = Some (KeyDraft (EvSaveResult s r))"
| "answer_event (CallRestore _ _) s (AnRestore r) = Some (KeyDraft (EvRestoreResult s r))"
| "answer_event (CallDiscard _ base) s (AnDiscard r) = Some (KeySend (EvDiscardResult base s r))"
| "answer_event (CallClaim _ attempt _ _ _ _ _) s (AnClaim r) = Some (KeySend (EvClaimResult attempt s r))"
| "answer_event (CallStart _ attempt _) s (AnStart r) = Some (KeySend (EvStartResult attempt s r))"
| "answer_event (CallConsume _ token retry) s (AnConsume r) = Some (KeySend (EvConsumeResult token s retry r))"
| "answer_event (CallRelease _ token _ _ _ retry) s (AnRelease r) = Some (KeySend (EvReleaseResult token s retry r))"
| "answer_event _ _ _ = None"

fun transient_rejection :: "queue_failure \<Rightarrow> bool" where
  "transient_rejection QfTimeout = True"
| "transient_rejection (QfRejected network) = network"

fun write_failure_of :: "queue_failure \<Rightarrow> write_failure" where
  "write_failure_of QfTimeout = FailTimeout"
| "write_failure_of (QfRejected network) = FailRejected network"

fun failure_event :: "draft_call \<Rightarrow> int \<Rightarrow> queue_failure \<Rightarrow> key_event" where
  "failure_event (CallSave _ _ _ _) s f = KeyDraft (EvWriteRejected s (transient_rejection f))"
| "failure_event (CallDismiss _ _ _) s f = KeyDraft (EvWriteRejected s (transient_rejection f))"
| "failure_event (CallRestore _ _) s f = KeyDraft (EvWriteRejected s (transient_rejection f))"
| "failure_event (CallDiscard _ _) s f = KeySend EvDiscardFailed"
| "failure_event (CallClaim _ attempt _ _ _ _ _) s f = KeySend (EvClaimFailed attempt s (write_failure_of f))"
| "failure_event (CallStart _ attempt _) s f = KeySend (EvStartFailed attempt s (write_failure_of f))"
| "failure_event (CallConsume _ token retry) s f = KeySend (EvConsumeFailed token s retry (write_failure_of f))"
| "failure_event (CallRelease _ token _ _ _ retry) s f = KeySend (EvReleaseFailed token s retry (write_failure_of f))"

fun call_output :: "(draft_call, call_answer) queue_output \<Rightarrow> page_output list" where
  "call_output (QoSend n i w) = [HoCall n (qw_write w)]"
| "call_output _ = []"

definition on_queue ::
  "(string option \<Rightarrow> draft_call write_queue \<Rightarrow> draft_call write_queue \<times> (draft_call, call_answer) queue_output list) \<Rightarrow> page_action"
  where
  "on_queue f h = (case f (st_page_org (hd_drafts h)) (hd_queue h) of
     (q, os) \<Rightarrow> (h\<lparr>hd_queue := q\<rparr>, concat (map call_output os)))"

definition write_call :: "draft_call \<Rightarrow> page_action" where
  "write_call c = on_queue (\<lambda>org. enqueue org (key_id (call_key c))
     \<lparr>qw_org = ds_org (call_key c), qw_timeout = call_timeout c, qw_write = c\<rparr>)"

section \<open>Timers, lists, notices\<close>

definition run_job :: "(store_event \<Rightarrow> page_action) \<Rightarrow> timer_job \<Rightarrow> page_action" where
  "run_job again job = (case job of
     JobWrite c \<Rightarrow> write_call c
   | JobSave k r \<Rightarrow> again (StEntry k (KeyDraft (EvSaveTrigger r))))"

definition arm :: "(store_event \<Rightarrow> page_action) \<Rightarrow> string \<Rightarrow> int \<Rightarrow> timer_job \<Rightarrow> page_action" where
  "arm again name ms job h =
     (let h1 = h\<lparr>hd_timers := AList.delete name (hd_timers h)\<rparr>
      in if ms \<le> 0 then run_job again job h1 else (h1\<lparr>hd_timers := hd_timers h1 @ [(name, job)]\<rparr>, []))"

definition list_scope :: "draft_scope \<Rightarrow> int \<Rightarrow> page_action" where
  "list_scope scope generation h =
     (if hd_disposed h then (h, [])
      else (let n = qu_seq (hd_queue h) + 1
            in (h\<lparr>hd_queue := (hd_queue h)\<lparr>qu_seq := n\<rparr>,
                  hd_lists := hd_lists h @ [\<lparr>lf_seq = n, lf_scope = scope, lf_generation = generation\<rparr>]\<rparr>,
                [HoList n (ds_project scope) (hd_listed_org h)])))"

definition list_current :: page_action where
  "list_current h = (case st_scope (hd_drafts h) of None \<Rightarrow> (h, []) | Some scope \<Rightarrow> list_scope scope (st_generation (hd_drafts h)) h)"

definition add_notice :: "draft_key \<Rightarrow> draft_notice + send_notice \<Rightarrow> string option \<Rightarrow> page_action" where
  "add_notice k n reason h = (h\<lparr>hd_notice_id := hd_notice_id h + 1,
     hd_notices := hd_notices h @ [\<lparr>ni_id = hd_notice_id h + 1, ni_key = k, ni_notice = n, ni_reason = reason\<rparr>]\<rparr>, [])"

section \<open>The cache\<close>

definition cache_remove :: "drafts_page \<Rightarrow> draft_key \<Rightarrow> page_action" where
  "cache_remove pg k h =
     (let i = key_id k; h1 = h\<lparr>hd_cache_timers := removeAll i (hd_cache_timers h), hd_cached := AList.delete i (hd_cached h)\<rparr>
      in case st_viewer (hd_drafts h) of
           None \<Rightarrow> (h1, [])
         | Some v \<Rightarrow> (h1\<lparr>hd_storage := remove_item (pg_browser pg (hd_clock h)) v k (hd_storage h), hd_clock := hd_clock h + 1\<rparr>, []))"

definition cache_clear :: "drafts_page \<Rightarrow> page_action" where
  "cache_clear pg h =
     (h\<lparr>hd_storage := clear_items (pg_browser pg (hd_clock h)) (hd_storage h), hd_clock := hd_clock h + 1,
        hd_queue := clear_queue (hd_queue h), hd_timers := [], hd_cache_timers := [], hd_cached := [], hd_restore := [],
        hd_beats := stop_all_beats (hd_beats h), hd_uncached := [], hd_notices := []\<rparr>, [])"

definition write_cache :: "drafts_page \<Rightarrow> string \<Rightarrow> handle \<Rightarrow> handle" where
  "write_cache pg i h =
     (let h1 = h\<lparr>hd_cache_timers := removeAll i (hd_cache_timers h)\<rparr>
      in case (store_entry (hd_drafts h) i, st_viewer (hd_drafts h)) of
           (Some e, Some v) \<Rightarrow>
             if \<not> cacheable e then h1
             else (case write_item (pg_browser pg (hd_clock h)) (pg_json pg) v e (hd_storage h) of
                     (ok, s) \<Rightarrow> h1\<lparr>hd_storage := s, hd_clock := hd_clock h + 1,
                       hd_uncached := (if ok then removeAll i (hd_uncached h) else List.insert i (hd_uncached h))\<rparr>)
         | _ \<Rightarrow> h1)"

definition flush_cache :: "drafts_page \<Rightarrow> handle \<Rightarrow> handle" where
  "flush_cache pg h = fold (write_cache pg) (hd_cache_timers h) h"

section \<open>Effects\<close>

fun trigger_of :: "schedule_reason \<Rightarrow> save_trigger" where
  "trigger_of ScheduleTimer = TrTimer"
| "trigger_of ScheduleRetry = TrRetry"

fun reason_text :: "schedule_reason \<Rightarrow> string" where
  "reason_text ScheduleTimer = ''timer''"
| "reason_text ScheduleRetry = ''retry''"

text \<open>The body of a start; \<open>None\<close> is the throw of a start with neither a token nor a prompt.\<close>

definition start_body :: "string \<Rightarrow> int \<Rightarrow> string option \<Rightarrow> external_prompt option \<Rightarrow> start_input option" where
  "start_body turn revision token prompt =
     (case token of
        Some t \<Rightarrow> Some (StartComposer turn t revision)
      | None \<Rightarrow> (case prompt of None \<Rightarrow> None | Some p \<Rightarrow> Some (StartExternal turn revision p)))"

text \<open>One effect; the first component says that it threw.\<close>

definition run_effect :: "(store_event \<Rightarrow> page_action) \<Rightarrow> drafts_page \<Rightarrow> send_effect \<Rightarrow> handle \<Rightarrow> bool \<times> handle \<times> page_output list" where
  "run_effect again pg x h =
     (case x of
        SfDraft (EfSave k base c f) \<Rightarrow> (False, write_call (CallSave k base c f) h)
      | SfDismissFailedSend k base c \<Rightarrow> (False, write_call (CallDismiss k base c) h)
      | SfDraft (EfRestore k base) \<Rightarrow> (False, write_call (CallRestore k base) h)
      | SfDiscard k base \<Rightarrow> (False, write_call (CallDiscard k base) h)
      | SfClaim k attempt base c turn token kind \<Rightarrow> (False, write_call (CallClaim k attempt base c turn token kind) h)
      | SfStart k attempt turn revision origin token prompt \<Rightarrow>
          (case start_body turn revision token prompt of
             None \<Rightarrow> (True, h, [])
           | Some input \<Rightarrow> (False, write_call (CallStart k attempt input) h))
      | SfConsume k token retry delay \<Rightarrow> (False, arm again (''consume:'' @ token) delay (JobWrite (CallConsume k token retry)) h)
      | SfRelease k token error uncertain fresh retry delay \<Rightarrow>
          (False, arm again (''release:'' @ token) delay (JobWrite (CallRelease k token error uncertain fresh retry)) h)
      | SfDraft (EfScheduleSave k delay r) \<Rightarrow>
          (False, arm again (''save:'' @ reason_text r @ '':'' @ key_id k) delay (JobSave k (trigger_of r)) h)
      | SfDraft (EfList scope generation) \<Rightarrow> (False, list_scope scope generation h)
      | SfDraft (EfCacheRemove k) \<Rightarrow> (False, cache_remove pg k h)
      | SfDraft EfCacheClear \<Rightarrow> (False, cache_clear pg h)
      | SfDraft (EfNotice k n) \<Rightarrow> (False, add_notice k (Inl n) None h)
      | SfNotice k n reason \<Rightarrow> (False, add_notice k (Inr n) reason h)
      | _ \<Rightarrow> (False, h, [HoUi x]))"

fun run_effects :: "(store_event \<Rightarrow> page_action) \<Rightarrow> drafts_page \<Rightarrow> send_effect list \<Rightarrow> handle \<Rightarrow> bool \<times> handle \<times> page_output list" where
  "run_effects again pg [] h = (False, h, [])"
| "run_effects again pg (x # xs) h =
     (case run_effect again pg x h of
        (True, h1, o1) \<Rightarrow> (True, h1, o1)
      | (False, h1, o1) \<Rightarrow> (case run_effects again pg xs h1 of (t, h2, o2) \<Rightarrow> (t, h2, o1 @ o2)))"

section \<open>Sync and dispatch\<close>

definition granted_claims :: "drafts_store \<Rightarrow> granted_claim list" where
  "granted_claims s = concat (map (\<lambda>p. case en_sending (snd p) of
     None \<Rightarrow> []
   | Some g \<Rightarrow> (case sg_token g of None \<Rightarrow> [] | Some t \<Rightarrow> [\<lparr>gc_key = en_key (snd p), gc_token = t\<rparr>])) (st_entries s))"

definition claimed_in_scope :: "drafts_store \<Rightarrow> draft_scope \<Rightarrow> bool" where
  "claimed_in_scope s scope = list_ex (\<lambda>p. (case en_conflict (snd p) of None \<Rightarrow> False | Some c \<Rightarrow> cf_kind c = CkClaimed) \<and>
     scope_id (en_key (snd p)) = scope_id scope) (st_entries s)"

definition poll_ms :: "bool \<Rightarrow> drafts_store \<Rightarrow> int option" where
  "poll_ms surface s =
     (case st_scope s of
        Some scope \<Rightarrow> if surface then Some (if claimed_in_scope s scope then claimed_poll_ms else list_poll_ms) else None
      | None \<Rightarrow> None)"

definition sync_entry :: "drafts_page \<Rightarrow> string \<times> draft_entry \<Rightarrow> handle \<Rightarrow> handle" where
  "sync_entry pg p h =
     (if \<not> cacheable (snd p) \<or>
         (case map_of (hd_cached h) (fst p) of None \<Rightarrow> False | Some e \<Rightarrow> pg_same pg (hd_clock h) e (snd p)) then h
      else h\<lparr>hd_cached := AList.update (fst p) (snd p) (hd_cached h),
             hd_cache_timers := (if fst p \<in> set (hd_cache_timers h) then hd_cache_timers h else hd_cache_timers h @ [fst p])\<rparr>)"

definition mirror_active :: "drafts_page \<Rightarrow> drafts_store \<Rightarrow> handle \<Rightarrow> handle" where
  "mirror_active pg earlier h =
     (case st_viewer (hd_drafts h) of
        None \<Rightarrow> h
      | Some v \<Rightarrow>
          if pg_same_active pg (hd_clock h) (st_active_key earlier) (st_active_key (hd_drafts h)) then h
          else h\<lparr>hd_storage := write_active (pg_browser pg (hd_clock h)) v (st_active_key (hd_drafts h)) (hd_storage h),
                 hd_clock := hd_clock h + 1\<rparr>)"

definition sync_page :: "drafts_page \<Rightarrow> drafts_store \<Rightarrow> page_action" where
  "sync_page pg earlier h =
     (if hd_disposed h then (h, [])
      else (let h1 = mirror_active pg earlier (fold (sync_entry pg) (st_entries (hd_drafts h)) h);
                h2 = h1\<lparr>hd_beats := sync_beats (granted_claims (hd_drafts h1)) (hd_beats h1),
                        hd_poll := poll_ms (hd_surface h1) (hd_drafts h1)\<rparr>
            in on_queue pump_all h2))"

definition page_env :: "drafts_page \<Rightarrow> handle \<Rightarrow> store_env" where
  "page_env pg h = \<lparr>ev_tab_id = pg_tab pg, ev_now = pg_now pg (hd_clock h), ev_fresh = pg_fresh pg (hd_clock h),
     ev_mounted = hd_surface h\<rparr>"

text \<open>
  A dispatch whose effects arm a save with no delay dispatches again at once; the fuel bounds how deep.
  The reducer never asks for such a save (\<open>dispatch_never_nests\<close>), so one is enough.
\<close>

fun dispatch_in :: "nat \<Rightarrow> drafts_page \<Rightarrow> store_event \<Rightarrow> page_action" where
  "dispatch_in 0 pg ev h = (h, [])"
| "dispatch_in (Suc n) pg ev h =
     (if hd_disposed h then (h, [])
      else (let earlier = hd_drafts h
            in case reduce_store earlier ev (page_env pg h) of
                 (s, fx) \<Rightarrow>
                   (case run_effects (dispatch_in n pg) pg fx (h\<lparr>hd_drafts := s, hd_clock := hd_clock h + 1\<rparr>) of
                      (threw, h1, o1) \<Rightarrow>
                        if threw then (h1, o1)
                        else (case sync_page pg earlier h1 of (h2, o2) \<Rightarrow> (h2, o1 @ o2)))))"

definition dispatch :: "drafts_page \<Rightarrow> store_event \<Rightarrow> page_action" where
  "dispatch pg ev = dispatch_in 1 pg ev"

definition dispatch_key :: "drafts_page \<Rightarrow> draft_key \<Rightarrow> key_event \<Rightarrow> page_action" where
  "dispatch_key pg k ev = dispatch pg (StEntry k ev)"

section \<open>The handle's operations\<close>

definition load_scope :: "drafts_page \<Rightarrow> draft_scope \<Rightarrow> page_action" where
  "load_scope pg scope h =
     dispatch pg (StScopeChange scope)
       (case st_viewer (hd_drafts h) of
          None \<Rightarrow> h
        | Some v \<Rightarrow>
            (let s = purge_for_load (pg_browser pg (hd_clock h)) v (hd_storage h)
             in h\<lparr>hd_storage := s, hd_clock := hd_clock h + 2,
                  hd_restore := AList.update (scope_id scope)
                    (read_scope (pg_browser pg (hd_clock h + 1)) (read_item (pg_uuid pg) (pg_parse pg)) v scope s) (hd_restore h)\<rparr>))"

definition set_surface_open :: "drafts_page \<Rightarrow> bool \<Rightarrow> page_action" where
  "set_surface_open pg open' h = sync_page pg (hd_drafts h) (h\<lparr>hd_surface := open'\<rparr>)"

definition came_online :: "drafts_page \<Rightarrow> page_action" where
  "came_online pg h = each_step (\<lambda>e. dispatch_key pg (en_key e) (KeyDraft (EvSaveTrigger TrOnline)))
     (filter (\<lambda>e. en_save e = SvRetrying) (map snd (st_entries (hd_drafts h)))) h"

definition became_hidden :: "drafts_page \<Rightarrow> page_action" where
  "became_hidden pg h =
     (case each_step (\<lambda>e. dispatch_key pg (en_key e) (KeyDraft (EvSaveTrigger TrHidden)))
        (filter (\<lambda>e. en_local e \<noteq> None) (map snd (st_entries (hd_drafts h)))) h of
        (h1, o1) \<Rightarrow> (flush_cache pg h1, o1))"

definition list_answered :: "drafts_page \<Rightarrow> int \<Rightarrow> list_ok option \<Rightarrow> page_action" where
  "list_answered pg n r h =
     (case List.find (\<lambda>f. lf_seq f = n) (hd_lists h) of
        None \<Rightarrow> (h, [])
      | Some f \<Rightarrow>
          (let h1 = h\<lparr>hd_lists := filter (\<lambda>f. lf_seq f \<noteq> n) (hd_lists h)\<rparr>
           in case r of
                None \<Rightarrow> (h1, [])
              | Some result \<Rightarrow>
                  if st_generation (hd_drafts h) \<noteq> lf_generation f then (h1, [])
                  else (let sid = scope_id (lf_scope f);
                            restored = (case map_of (hd_restore h) sid of None \<Rightarrow> [] | Some cs \<Rightarrow> cs)
                        in dispatch pg (StServerRows n (lf_generation f) result restored)
                             (h1\<lparr>hd_listed_org := Some (lo_org result), hd_restore := AList.delete sid (hd_restore h)\<rparr>))))"

text \<open>What the queue hands back goes to the reducer as the call's own event; then the lane is pumped.\<close>

fun hand_back :: "drafts_page \<Rightarrow> (draft_call, call_answer) queue_output \<Rightarrow> page_action" where
  "hand_back pg (QoAnswer n w a) h =
     (case answer_event (qw_write w) n a of None \<Rightarrow> (h, []) | Some ev \<Rightarrow> dispatch_key pg (call_key (qw_write w)) ev h)"
| "hand_back pg (QoFail n w f) h = dispatch_key pg (call_key (qw_write w)) (failure_event (qw_write w) n f) h"
| "hand_back pg (QoSend n i w) h = (h, [])"

definition settle_call ::
  "drafts_page \<Rightarrow> int \<Rightarrow> (draft_call write_queue \<Rightarrow> draft_call write_queue \<times> (draft_call, call_answer) queue_output list) \<Rightarrow> page_action"
  where
  "settle_call pg n f h =
     (case List.find (\<lambda>g. fl_seq g = n) (qu_flights (hd_queue h)) of
        None \<Rightarrow> (h, [])
      | Some g \<Rightarrow>
          (case f (hd_queue h) of (q, os) \<Rightarrow>
             seq_steps (each_step (hand_back pg) os) (on_queue (\<lambda>org. pump org (fl_lane_id g))) (h\<lparr>hd_queue := q\<rparr>)))"

text \<open>A request's timer is cleared when the request closes.\<close>

definition call_timed_out :: "drafts_page \<Rightarrow> int \<Rightarrow> page_action" where
  "call_timed_out pg n h =
     (if list_ex (\<lambda>g. fl_seq g = n \<and> fl_open g) (qu_flights (hd_queue h)) then settle_call pg n (time_out n) h else (h, []))"

definition timer_fired :: "drafts_page \<Rightarrow> string \<Rightarrow> page_action" where
  "timer_fired pg name h =
     (case map_of (hd_timers h) name of
        None \<Rightarrow> (h, [])
      | Some job \<Rightarrow> if hd_disposed h then (h, [])
          else run_job (dispatch pg) job (h\<lparr>hd_timers := AList.delete name (hd_timers h)\<rparr>))"

definition cache_timer_fired :: "drafts_page \<Rightarrow> string \<Rightarrow> page_action" where
  "cache_timer_fired pg i h = (if hd_disposed h \<or> i \<notin> set (hd_cache_timers h) then h else write_cache pg i h, [])"

definition beat_came_back :: "drafts_page \<Rightarrow> granted_claim \<Rightarrow> beat_answer \<Rightarrow> page_action" where
  "beat_came_back pg c a h =
     (case beat_answered c a (hd_beats h) of
        (b, None) \<Rightarrow> (h\<lparr>hd_beats := b\<rparr>, [])
      | (b, Some r) \<Rightarrow> dispatch_key pg (gc_key c) (KeySend (EvHeartbeat (gc_token c) r)) (h\<lparr>hd_beats := b\<rparr>))"

definition ack_notices :: "int list \<Rightarrow> page_action" where
  "ack_notices ids h = (h\<lparr>hd_notices := filter (\<lambda>n. ni_id n \<notin> set ids) (hd_notices h)\<rparr>, [])"

definition dispose :: page_action where
  "dispose h = (h\<lparr>hd_disposed := True, hd_beats := stop_all_beats (hd_beats h), hd_queue := clear_queue (hd_queue h),
     hd_poll := None\<rparr>, [])"

section \<open>Runs\<close>

datatype page_event =
  PeDispatch store_event
| PeLoad draft_scope
| PeSurface bool
| PeFocus
| PeOnline
| PeVisible
| PeHidden
| PePageHide
| PeAck "int list"
| PeDispose
| PeSettled int "call_answer settled"
| PeTimedOut int
| PeListed int "list_ok option"
| PeTimer string
| PeCacheTimer string
| PePoll
| PeBeat string
| PeBeatAnswer granted_claim beat_answer

fun page_step :: "drafts_page \<Rightarrow> page_event \<Rightarrow> page_action" where
  "page_step pg (PeDispatch ev) h = dispatch pg ev h"
| "page_step pg (PeLoad scope) h = load_scope pg scope h"
| "page_step pg (PeSurface open') h = set_surface_open pg open' h"
| "page_step pg PeFocus h = list_current h"
| "page_step pg PeOnline h = came_online pg h"
| "page_step pg PeVisible h = (h, map HoBeat (beat_all (hd_beats h)))"
| "page_step pg PeHidden h = became_hidden pg h"
| "page_step pg PePageHide h = (flush_cache pg h, [])"
| "page_step pg (PeAck ids) h = ack_notices ids h"
| "page_step pg PeDispose h = dispose h"
| "page_step pg (PeSettled n r) h = settle_call pg n (settle_flight n r) h"
| "page_step pg (PeTimedOut n) h = call_timed_out pg n h"
| "page_step pg (PeListed n r) h = list_answered pg n r h"
| "page_step pg (PeTimer name) h = timer_fired pg name h"
| "page_step pg (PeCacheTimer i) h = cache_timer_fired pg i h"
| "page_step pg PePoll h = (if hd_poll h = None then (h, []) else list_current h)"
| "page_step pg (PeBeat token) h =
     (h, case map_of (ch_timers (hd_beats h)) token of None \<Rightarrow> [] | Some c \<Rightarrow> [HoBeat (beat_body c)])"
| "page_step pg (PeBeatAnswer c a) h = beat_came_back pg c a h"

fun page_run :: "drafts_page \<Rightarrow> page_event list \<Rightarrow> page_action" where
  "page_run pg [] h = (h, [])"
| "page_run pg (ev # evs) h = seq_steps (page_step pg ev) (page_run pg evs) h"

section \<open>What the selectors show\<close>

definition select_draft :: "handle \<Rightarrow> draft_key \<Rightarrow> draft_entry option" where
  "select_draft h k = store_entry (hd_drafts h) (key_id k)"

definition is_unacknowledged :: "draft_entry \<Rightarrow> bool" where
  "is_unacknowledged e \<longleftrightarrow> en_local e \<noteq> None \<or> en_claiming e \<noteq> None \<or> en_sending e \<noteq> None \<or>
     en_pending_failed_send e \<noteq> None \<or> en_save e = SvRetrying \<or> en_save e = SvHeld \<or> en_save e = SvBlocked"

definition holds_unsent_words :: "draft_entry \<Rightarrow> bool" where
  "holds_unsent_words e \<longleftrightarrow>
     \<not> ((case en_server e of None \<Rightarrow> False | Some r \<Rightarrow> sd_state r = RowDiscarded) \<and> en_local e = None) \<and>
     (\<not> is_empty_content (shown_content e) \<or> en_claiming e \<noteq> None \<or> en_sending e \<noteq> None \<or>
      en_pending_failed_send e \<noteq> None \<or> (case en_server e of None \<Rightarrow> False | Some r \<Rightarrow> sd_failed_send r \<noteq> None))"

text \<open>By key id, compared as code units.\<close>

definition select_unsent :: "handle \<Rightarrow> draft_scope \<Rightarrow> draft_entry list" where
  "select_unsent h scope = map snd (sort_key (\<lambda>p. map (of_char :: char \<Rightarrow> nat) (fst p))
     (filter (\<lambda>p. scope_id (en_key (snd p)) = scope_id scope \<and> holds_unsent_words (snd p)) (st_entries (hd_drafts h))))"

definition select_cache_refused :: "handle \<Rightarrow> draft_key \<Rightarrow> bool" where
  "select_cache_refused h k \<longleftrightarrow> key_id k \<in> set (hd_uncached h)"

end
