(* ===== verification/Draft_Calm.thy ===== *)
theory Draft_Calm
  imports Draft_Runs
begin

text \<open>
  Two facts about every reduction that the effects layer relies on. No effect is hasty: a scheduled save
  waits, so running it never dispatches at once, and a start carries a token or a prompt, so running it
  never throws. And words leave the cache with their entry: when a key that had unacknowledged words has
  none any more, the reduction asks to remove its cache item.
\<close>

section \<open>No effect is hasty\<close>

fun hasty_draft :: "draft_effect \<Rightarrow> bool" where
  "hasty_draft (EfScheduleSave k delay r) \<longleftrightarrow> delay \<le> 0"
| "hasty_draft _ \<longleftrightarrow> False"

fun hasty :: "send_effect \<Rightarrow> bool" where
  "hasty (SfDraft x) \<longleftrightarrow> hasty_draft x"
| "hasty (SfStart k attempt turn revision origin token prompt) \<longleftrightarrow> token = None \<and> prompt = None"
| "hasty _ \<longleftrightarrow> False"

text \<open>A transition is calm when it asks for nothing hasty and a fork leaves its words in the entry.\<close>

definition calm :: "send_transition \<Rightarrow> bool" where
  "calm t \<longleftrightarrow> filter hasty (tn_effects t) = [] \<and>
     (case tn_fork t of None \<Rightarrow> True | Some f \<Rightarrow> map_option en_local (tn_entry t) = Some (Some (fk_content f)))"

abbreviation unhurried :: "entry_transition \<Rightarrow> bool" where
  "unhurried t \<equiv> filter hasty_draft (snd t) = []"

lemma hasty_drafts [simp]: "filter hasty (map SfDraft fx) = map SfDraft (filter hasty_draft fx)"
  by (induction fx) simp_all

lemma hasty_effects [simp]:
  "\<not> hasty (notice k n)" "\<not> hasty (not_sent_for k r)" "\<not> hasty (release_effect k t er u f rt)" "\<not> hasty (consume_effect k t rt)"
  "\<not> hasty (claim_effect a c)"
  by (simp_all add: notice_def not_sent_for_def release_effect_def consume_effect_def claim_effect_def)

lemma calm_simps [simp]:
  "calm (plain e fx) \<longleftrightarrow> filter hasty fx = []" "calm (no_change e)" "calm (fork_words e c dc n)"
  "calm (drafted d) \<longleftrightarrow> unhurried d" "calm (t\<lparr>tn_fence := fe\<rparr>) = calm t"
  "calm (prepend fx t) \<longleftrightarrow> filter hasty fx = [] \<and> calm t"
  "calm \<lparr>tn_entry = a, tn_effects = fx, tn_fork = None, tn_fence = fe\<rparr> \<longleftrightarrow> filter hasty fx = []"
  by (auto simp: calm_def split: option.split)

lemma unhurried_helpers [simp]:
  "unhurried (unchanged e)" "unhurried (enter_unsaved e sv r)" "unhurried (try_save e cx)" "unhurried (reduce_edit e n c)"
  by (auto simp: unchanged_def enter_unsaved_def try_save_def reduce_edit_def save_debounce_ms_def Let_def split: option.split)

lemma retry_delay_pos: "0 < retry_delay_ms n"
  by (simp add: retry_delay_ms_def max_retry_delay_ms_def)

lemma unhurried_failures [simp]: "unhurried (transient_failure e)" "unhurried (error_failure e)"
proof -
  have "unhurried (retry_after e n)" for e n
    using retry_delay_pos [of n] unhurried_helpers(2) [of e SvRetrying None]
    by (auto simp: retry_after_def Let_def case_prod_unfold filter_empty_conv simp del: unhurried_helpers)
  then show "unhurried (transient_failure e)" "unhurried (error_failure e)"
    by (simp_all add: transient_failure_def error_failure_def Let_def case_prod_unfold)
qed

lemma unhurried_answers [simp]:
  "unhurried (gone_with_nothing_unsaved e t cx)" "unhurried (reduce_gone e th cx)" "unhurried (reduce_refusal e r)"
  "unhurried (reduce_conflict e row cx)"
proof -
  show "unhurried (gone_with_nothing_unsaved e t cx)" for e t by (simp add: gone_with_nothing_unsaved_def Let_def)
  then show "unhurried (reduce_gone e th cx)" by (simp add: reduce_gone_def Let_def)
  show "unhurried (reduce_refusal e r)" by (cases r) simp_all
  show "unhurried (reduce_conflict e row cx)" by (simp add: reduce_conflict_def split: option.split)
qed

lemma unhurried_event: "unhurried (reduce_entry_event e ev cx)"
  by (cases ev) (simp_all add: reduce_save_trigger_def reduce_save_result_def reduce_restore_result_def
      reduce_conflict_restore_def reduce_not_listed_def Let_def split: option.split save_result.split restore_result.split)

lemma unhurried_drafting [simp]: "unhurried (reduce_draft_entry e ev cx)" "unhurried (reduce_drafting_event e ev cx)"
proof -
  show "unhurried (reduce_draft_entry e ev cx)" for e
    using unhurried_event [of e ev cx] by (auto simp: reduce_draft_entry_def case_prod_unfold)
  then show "unhurried (reduce_drafting_event e ev cx)"
    by (auto simp: reduce_drafting_event_def case_prod_unfold split: option.split)
qed

lemma calm_saves [simp]: "calm (save_now e cx)" "calm (read_as_save e seq r cx)"
  by (simp_all add: save_now_def read_as_save_def)

lemma calm_dirty [simp]: "tn_fork t = None \<Longrightarrow> calm (save_if_dirty t cx) = calm t"
  using calm_saves(1) by (auto simp: save_if_dirty_def calm_def split: option.split)

lemma calm_threads [simp]:
  "filter hasty (snd (reload e cx)) = []" "filter hasty (snd (with_thread e t cx)) = []"
  "filter hasty (snd (load_first e cx)) = []" "filter hasty (snd (committed_turn e f cx)) = []"
  "filter hasty (snd (refusal_extras e f cx)) = []"
  by (simp_all add: reload_def with_thread_def load_first_def committed_turn_def refusal_extras_def Let_def)

lemma calm_answers [simp]:
  "calm (claimed_elsewhere e row th cx)" "calm (consumed_arm e s r n cx)" "calm (committed_first e s r cx)"
  "calm (released_back e s row cx)" "calm (release_now e s er u f)" "calm (adopt_or_conflict e row cx)" "calm (release_retry e s rt)"
  by (simp_all add: claimed_elsewhere_def consumed_arm_def committed_first_def released_back_def release_now_def
      adopt_or_conflict_def release_retry_def Let_def case_prod_unfold split: option.split)

lemma calm_external [simp]: "calm (fail_external e s er u cx)" "calm (submit e ready cx)"
  "calm (submit_external e ws ms cell origin ready cx)" "calm (granted e c n cx)"
proof -
  have "filter hasty (tn_effects (save_now a cx)) = []" for a using calm_saves(1) [of a cx] unfolding calm_def by blast
  then show "calm (fail_external e s er u cx)" by (auto simp: fail_external_def Let_def calm_def)
qed (auto simp: submit_def submit_external_def granted_def Let_def case_prod_unfold split: option.split)

lemma calm_reads [simp]:
  "calm (read_not_claimed e s row th cx)" "calm (claimed_bar_ends e bar row cx)" "calm (dismiss_with e l)"
  by (simp_all add: read_not_claimed_def claimed_bar_ends_def dismiss_with_def Let_def case_prod_unfold split: option.split)

lemma calm_routes [simp]: "calm (route_failed e turn f cx)" "calm (route_handoff e turn)"
  by (auto simp: route_failed_def route_handoff_def route_failed_external_def route_failed_claimed_def Let_def case_prod_unfold
      release_now_def split: option.split failure_arm.split)

lemma calm_consume [simp]: "calm (consume_result_of e token seq retry r cx)" "calm (consume_failed e token retry)"
  by (auto simp: consume_result_of_def consume_failed_def Let_def case_prod_unfold
      split: option.split consume_result.split)

lemma renumber_hasty [simp]: "filter hasty (map (renumber_release k t n) fx) = filter hasty fx"
proof (induction fx)
  case (Cons x fx)
  then show ?case by (cases x) simp_all
qed simp

lemma calm_release [simp]: "calm (release_result_of e token seq retry r cx)" "calm (release_failed e token retry)"
proof -
  have "calm (abandoned_released a token r cx)" for a
    by (auto simp: abandoned_released_def Let_def split: release_result.split)
  moreover have "calm t \<Longrightarrow> calm (t\<lparr>tn_effects := map (renumber_release k tk n) (tn_effects t)\<rparr>)" for t k tk n
    by (simp add: calm_def split: option.splits)
  ultimately show "calm (release_result_of e token seq retry r cx)"
    by (auto simp: release_result_of_def Let_def split: option.split release_result.split)
  show "calm (release_failed e token retry)"
    by (simp add: release_failed_def split: option.split)
qed

lemma calm_rest [simp]:
  "calm (heartbeat_result e token h cx)" "calm (discard_draft e)"
  "calm (undo_discard e n c cx)" "calm (listed e seq item cx)" "calm (claim_failed e attempt seq fl cx)"
  "calm (start_failed e attempt seq fl cx)" "calm (discard_result_of e base seq dr cx)"
  by (auto simp: heartbeat_result_def discard_draft_def undo_discard_def listed_def claim_failed_def start_failed_def
      discard_result_of_def Let_def case_prod_unfold
      split: option.split touch_result.split write_failure.split discard_result.split)

lemma calm_claim [simp]: "calm (claim_result_of e attempt seq r cx)"
  by (auto simp: claim_result_of_def Let_def case_prod_unfold split: option.split claim_result.split)

lemma calm_start [simp]: "calm (start_result_of e attempt seq r cx)"
proof -
  have "calm (start_done e' s n tr cx)" for e' s n tr
    by (auto simp: start_done_def Let_def split: option.split)
  then show ?thesis by (auto simp: start_result_of_def Let_def split: option.split start_result.split)
qed

lemma calm_intercept: "intercept_drafting_event e ev cx = Some t \<Longrightarrow> calm t"
  by (auto simp: intercept_drafting_event_def intercept_save_def fence_lost_def Let_def case_prod_unfold
      split: entry_event.splits option.splits if_splits save_result.splits)

lemma calm_after: "calm t \<Longrightarrow> calm (after_drafting e t)"
  by (auto simp: after_drafting_def Let_def calm_def split: option.splits)

lemma calm_send [simp]: "calm (reduce_send_entry e sev cx)"
  by (cases sev) (auto simp: Let_def split: option.split)

lemma calm_both_halves: "calm (both_halves e ev cx)"
proof (cases ev)
  case (KeyDraft dev)
  have "calm (case intercept_drafting_event e dev cx of Some t \<Rightarrow> t
      | None \<Rightarrow> drafted (reduce_drafting_event e dev (drafting_context cx)))"
    by (auto simp: calm_intercept split: option.split)
  then show ?thesis using KeyDraft calm_after by (simp add: both_halves_def)
qed (simp add: both_halves_def)

lemma calm_restored: "calm (restore_from_cache c item cx)"
  by (auto simp: restore_from_cache_def Let_def split: option.split)

section \<open>The store\<close>

lemma cache_remove_not_hasty: "hasty x \<Longrightarrow> \<not> is_cache_remove x"
  by (cases x) (auto simp: is_cache_remove_def split: draft_effect.split)

lemma hasty_filtered [simp]: "filter (\<lambda>x. \<not> is_cache_remove x \<and> hasty x) fx = filter hasty fx"
  by (rule filter_cong) (auto dest: cache_remove_not_hasty)

lemma hasty_reduce_entry: "filter hasty (tn_effects (reduce_entry e ev cx)) = []"
  using calm_both_halves [of e ev cx] by (simp add: reduce_entry_def Let_def calm_def)

lemma hasty_fork: "filter hasty (snd (apply_fork s k f fb env)) = []"
  by (simp add: apply_fork_def Let_def hasty_reduce_entry del: reduce_entry_simps)

lemma hasty_commit: "filter hasty (tn_effects t) = [] \<Longrightarrow> filter hasty (snd (commit s k t env)) = []"
  using hasty_fork by (auto simp: commit_def Let_def case_prod_unfold split: option.split)

lemma hasty_event: "filter hasty (snd (apply_key_event s k ev env)) = []"
  using hasty_commit [OF hasty_reduce_entry]
  by (auto simp: apply_key_event_def Let_def case_prod_unfold split: option.split simp del: reduce_entry_simps)

lemma hasty_resume: "filter hasty (snd (resume_keys es org env s)) = []"
  by (induction es arbitrary: s) (simp_all add: case_prod_unfold hasty_event)

lemma hasty_page_org: "filter hasty (snd (store_page_org s org env)) = []"
  by (simp add: store_page_org_def Let_def hasty_resume split: option.split)

lemma hasty_steps: "(\<And>x s. filter hasty (snd (f x s)) = []) \<Longrightarrow> filter hasty (snd (run_steps f xs s)) = []"
  by (induction xs arbitrary: s) (simp_all add: case_prod_unfold)

lemma hasty_restored: "filter hasty (tn_effects (restore_from_cache c item cx)) = []"
  using calm_restored [of c item cx] unfolding calm_def by blast

lemma hasty_rows: "filter hasty (snd (server_rows s seq generation result cs env)) = []"
proof -
  have "filter hasty (snd (listed_key r seq env item s)) = []" for r item s
    by (auto simp: listed_key_def Let_def hasty_event hasty_commit hasty_restored split: option.split)
  moreover have "filter hasty (snd (restore_key seen env p s)) = []" for seen p s
    by (simp add: restore_key_def hasty_commit hasty_restored)
  moreover have "filter hasty (snd (unlisted_key seen r scope seq env p s)) = []" for seen r scope p s
    by (simp add: unlisted_key_def hasty_event)
  ultimately show ?thesis
    by (simp add: server_rows_def Let_def hasty_page_org hasty_steps split: option.split)
qed

lemma hasty_to_entry: "filter hasty_draft (snd (apply_to_entry s k ev env)) = []"
  using unhurried_drafting(1) by (auto simp: apply_to_entry_def Let_def case_prod_unfold split: option.split)

lemma hasty_drafts_events:
  assumes "\<And>k dev. ev \<noteq> EvEntry k dev" "\<And>org. ev \<noteq> EvPageOrg org"
  shows "filter hasty (snd (through_drafts s ev env)) = []"
  using assms hasty_to_entry
  by (cases ev) (auto simp: through_drafts_def case_prod_unfold open_new_def open_artifact_new_def select_key_def scope_change_def
      viewer_change_def Let_def split: option.split)

text \<open>No store reduction asks for anything hasty.\<close>

lemma reduction_unhurried: "filter hasty (snd (reduce_store s ev env)) = []"
proof (cases ev)
  case (StViewerChange viewer)
  then show ?thesis
    using hasty_drafts_events [of "EvViewerChange viewer" s env] by (simp add: store_viewer_change_def case_prod_unfold)
qed (simp_all add: hasty_event hasty_rows hasty_page_org hasty_drafts_events)

section \<open>Words leave the cache with their entry\<close>

definition drops :: "drafts_store \<Rightarrow> drafts_store \<Rightarrow> send_effect list \<Rightarrow> bool" where
  "drops s s' fx \<longleftrightarrow> (\<forall>i. holds_cache (store_entry s i) \<and> \<not> holds_cache (store_entry s' i) \<longrightarrow>
     SfDraft EfCacheClear \<in> set fx \<or> (\<exists>k. key_id k = i \<and> SfDraft (EfCacheRemove k) \<in> set fx))"

lemma drops_refl: "st_entries s' = st_entries s \<Longrightarrow> drops s s' fx"
  by (simp add: drops_def store_entry_def)

lemma drops_trans: "drops s s1 fx \<Longrightarrow> drops s1 s2 fx' \<Longrightarrow> drops s s2 (fx @ fx')"
  unfolding drops_def set_append Un_iff by blast

lemma drops_more: "drops s s' fx \<Longrightarrow> set fx \<subseteq> set fx' \<Longrightarrow> drops s s' fx'"
  unfolding drops_def by blast

lemma drops_put:
  assumes "holds_cache (store_entry s (key_id k)) \<Longrightarrow> \<not> holds_cache e \<Longrightarrow>
      \<exists>k'. key_id k' = key_id k \<and> SfDraft (EfCacheRemove k') \<in> set fx"
  shows "drops s (store_put s k e fence) fx"
  using assms by (simp add: drops_def store_put_entry)

lemma drops_congs [simp]:
  "drops s (s'\<lparr>st_active_key := a\<rparr>) fx = drops s s' fx" "drops s (s'\<lparr>st_forks := f\<rparr>) fx = drops s s' fx"
  "drops (s\<lparr>st_page_org := p\<rparr>) s' fx = drops s s' fx"
  by (simp_all add: drops_def store_entry_def)

lemma drops_commit:
  assumes "calm t"
    and "holds_cache (store_entry s (key_id k)) \<Longrightarrow> (tn_fork t \<noteq> None \<or> \<not> holds_cache (tn_entry t)) \<Longrightarrow>
      \<exists>k'. key_id k' = key_id k \<and> SfDraft (EfCacheRemove k') \<in> set (tn_effects t)"
  shows "drops s (fst (commit s k t env)) (snd (commit s k t env))"
proof (cases "tn_fork t")
  case None
  then have "drops s (store_put s k (tn_entry t) (tn_fence t)) (tn_effects t)"
    using assms(2) by (intro drops_put) simp
  then show ?thesis using None by (cases "tn_entry t") (simp_all add: commit_def Let_def)
next
  case (Some f)
  obtain a where a: "tn_entry t = Some a" "en_local a = Some (fk_content f)"
    using assms(1) Some by (auto simp: calm_def)
  obtain s' fx where r: "apply_fork s k f (tn_entry t) env = (s', fx)" by fastforce
  note e = apply_fork_entries [OF r]
  show ?thesis
  proof (cases "store_entry s (key_id (fork_key k env)) \<noteq> None \<or> dk_conversation (fork_key k env) = dk_conversation k")
    case True
    then have "s' = store_put s k (tn_entry t) (Some None)" using e(1) by blast
    moreover have "drops s (store_put s k (tn_entry t) (Some None)) fx'" for fx'
      by (rule drops_put) (use a in \<open>simp add: holds_cache_def\<close>)
    ultimately show ?thesis using Some r by (simp add: commit_def)
  next
    case False
    then obtain e' where e': "en_local e' = Some (fk_content f)"
      "\<And>i. store_entry s' i = (if i = key_id (fork_key k env) then Some e' else if i = key_id k then None else store_entry s i)"
      using e(2) by blast
    show ?thesis
    proof (cases "key_id k = key_id (fork_key k env)")
      case True
      then show ?thesis using Some r e' by (simp add: commit_def drops_def holds_cache_def)
    next
      case other: False
      then have "store_entry s' (key_id k) = None" using e'(2) by simp
      then have c: "commit s k t env = (s', tn_effects t @ fx)" using Some r by (simp add: commit_def)
      show ?thesis
        unfolding c drops_def using assms(2) Some e' by (auto simp: holds_cache_def)
    qed
  qed
qed

lemma reduce_entry_removes:
  assumes "holds_cache (Some e)" "tn_fork (reduce_entry e ev cx) \<noteq> None \<or> \<not> holds_cache (tn_entry (reduce_entry e ev cx))"
  shows "SfDraft (EfCacheRemove (en_key e)) \<in> set (tn_effects (reduce_entry e ev cx))"
  using assms by (auto simp: reduce_entry_def Let_def holds_cache_def split: if_splits)

lemma calm_reduce_entry: "calm (reduce_entry e ev cx)"
proof -
  have "bump_epoch e ev (tn_entry t) = Some a \<Longrightarrow> map_option en_local (tn_entry t) = Some (en_local a)" for t a
    by (auto simp: bump_epoch_def split: option.splits if_splits)
  moreover have "tn_entry t \<noteq> None \<Longrightarrow> bump_epoch e ev (tn_entry t) \<noteq> None" for t
    by (auto simp: bump_epoch_def)
  ultimately show ?thesis
    using calm_both_halves [of e ev cx] hasty_reduce_entry [of e ev cx]
    by (fastforce simp: calm_def reduce_entry_def Let_def split: option.splits)
qed

lemma drops_event:
  assumes "well_stored s"
  shows "drops s (fst (apply_key_event s k ev env)) (snd (apply_key_event s k ev env))"
proof (cases "store_entry s (key_id k)")
  case None
  then show ?thesis by (simp add: apply_key_event_def drops_refl)
next
  case (Some e)
  have k: "key_id (en_key e) = key_id k" using well_stored_at [OF assms Some] by simp
  let ?t = "reduce_entry e ev (store_context s (en_key e) env)"
  have d: "drops s (fst (commit s (en_key e) ?t env)) (snd (commit s (en_key e) ?t env))"
  proof (rule drops_commit [OF calm_reduce_entry])
    assume h: "holds_cache (store_entry s (key_id (en_key e)))" and r: "tn_fork ?t \<noteq> None \<or> \<not> holds_cache (tn_entry ?t)"
    have "holds_cache (Some e)" using h Some k by simp
    then show "\<exists>k'. key_id k' = key_id (en_key e) \<and> SfDraft (EfCacheRemove k') \<in> set (tn_effects ?t)"
      using reduce_entry_removes r by blast
  qed
  obtain s' fx where c: "commit s (en_key e) ?t env = (s', fx)" by fastforce
  have "drops s s' fx" using d unfolding c by simp
  then have "drops s s' (fx @ gx)" for gx by (rule drops_more) simp
  then show ?thesis
    using Some c \<open>drops s s' fx\<close>
    by (auto simp: apply_key_event_def Let_def simp del: reduce_entry_simps split: option.split)
qed

lemma trigger_no_fork: "tn_fork (reduce_entry e (KeyDraft (EvSaveTrigger r)) cx) = None"
  by (simp add: both_halves_def intercept_drafting_event_def)

lemma trigger_others:
  assumes "well_stored s" "i \<noteq> key_id k"
  shows "store_entry (fst (apply_key_event s k (KeyDraft (EvSaveTrigger r)) env)) i = store_entry s i"
proof (cases "store_entry s (key_id k)")
  case None
  then show ?thesis by (simp add: apply_key_event_def)
next
  case (Some e)
  have "key_id (en_key e) = key_id k" using well_stored_at [OF assms(1) Some] by simp
  then show ?thesis
    using Some assms(2) trigger_no_fork [of e r]
    by (auto simp: apply_key_event_def commit_def Let_def store_put_entry case_prod_unfold simp del: reduce_entry_simps
        split: option.split)
qed

lemma drops_resume:
  "well_stored s \<Longrightarrow> distinct (map (\<lambda>e. key_id (en_key e)) es) \<Longrightarrow> \<forall>e\<in>set es. store_entry s (key_id (en_key e)) = Some e \<Longrightarrow>
   drops s (fst (resume_keys es org env s)) (snd (resume_keys es org env s))"
proof (induction es arbitrary: s)
  case Nil
  then show ?case by (simp add: drops_refl)
next
  case (Cons e es)
  show ?case
  proof (cases "ds_org (en_key e) \<noteq> org \<or> \<not> resumable e")
    case True
    then show ?thesis using Cons by simp
  next
    case False
    let ?e = "e\<lparr>en_save := SvIdle, en_blocked_by := None\<rparr>"
    let ?s = "store_put s (en_key e) (Some ?e) None"
    let ?r = "apply_key_event ?s (en_key e) (KeyDraft (EvSaveTrigger TrTimer)) env"
    have e: "store_entry s (key_id (en_key e)) = Some e" using Cons.prems(3) by simp
    have w: "well_stored ?s"
      by (rule well_stored_put [OF Cons.prems(1)]) (use well_stored_at [OF Cons.prems(1) e] in \<open>simp add: single_def\<close>)
    have p: "drops s ?s []" by (rule drops_put) (use e in \<open>simp add: holds_cache_def\<close>)
    have r: "drops s (fst ?r) (snd ?r)" using drops_trans [OF p drops_event [OF w]] by simp
    have "drops (fst ?r) (fst (resume_keys es org env (fst ?r))) (snd (resume_keys es org env (fst ?r)))"
    proof (rule Cons.IH [OF well_stored_event [OF w]])
      show "distinct (map (\<lambda>e. key_id (en_key e)) es)" using Cons.prems(2) by simp
      show "\<forall>e'\<in>set es. store_entry (fst ?r) (key_id (en_key e')) = Some e'"
      proof
        fix e'
        assume "e' \<in> set es"
        then have "key_id (en_key e') \<noteq> key_id (en_key e)" "store_entry s (key_id (en_key e')) = Some e'"
          using Cons.prems(2,3) by force+
        then show "store_entry (fst ?r) (key_id (en_key e')) = Some e'"
          using trigger_others [OF w] by (simp add: store_put_entry)
      qed
    qed
    then show ?thesis using False drops_trans [OF r] by (simp add: case_prod_unfold)
  qed
qed

lemma drops_page_org:
  assumes "well_stored s"
  shows "drops s (fst (store_page_org s org env)) (snd (store_page_org s org env))"
proof (cases org)
  case None
  then show ?thesis by (simp add: store_page_org_def drops_refl)
next
  case (Some o')
  have w: "well_stored (s\<lparr>st_page_org := org\<rparr>)" using assms by (simp add: well_stored_def)
  have e: "st_entries (s\<lparr>st_page_org := org\<rparr>) = st_entries s" by simp
  have d: "distinct (map fst (st_entries s))" and k: "\<forall>p\<in>set (st_entries s). fst p = key_id (en_key (snd p))"
    using assms by (auto simp: well_stored_def)
  have m: "map (\<lambda>e. key_id (en_key e)) (map snd (st_entries s)) = map fst (st_entries s)" using k by simp
  have "\<forall>e\<in>set (map snd (st_entries s)). store_entry (s\<lparr>st_page_org := org\<rparr>) (key_id (en_key e)) = Some e"
    using d k by (fastforce simp: store_entry_def intro: map_of_is_SomeI)
  then have "drops (s\<lparr>st_page_org := org\<rparr>) (fst (resume_keys (map snd (st_entries s)) o' env (s\<lparr>st_page_org := org\<rparr>)))
      (snd (resume_keys (map snd (st_entries s)) o' env (s\<lparr>st_page_org := org\<rparr>)))"
    by (intro drops_resume [OF w]) (simp_all only: m d)
  then show ?thesis using Some by (simp add: store_page_org_def Let_def)
qed

lemma drops_steps:
  assumes "\<And>x s. x \<in> set xs \<Longrightarrow> well_stored s \<Longrightarrow> well_stored (fst (f x s)) \<and> drops s (fst (f x s)) (snd (f x s))" "well_stored s"
  shows "drops s (fst (run_steps f xs s)) (snd (run_steps f xs s))"
  using assms
proof (induction xs arbitrary: s)
  case Nil
  then show ?case by (simp add: drops_refl)
next
  case (Cons x xs)
  have x: "well_stored (fst (f x s))" "drops s (fst (f x s)) (snd (f x s))" using Cons.prems by auto
  have "drops (fst (f x s)) (fst (run_steps f xs (fst (f x s)))) (snd (run_steps f xs (fst (f x s))))"
    by (rule Cons.IH) (use Cons.prems x in auto)
  then show ?case using drops_trans [OF x(2)] by (simp add: case_prod_unfold)
qed

lemma drops_commit_new:
  assumes "calm t" "store_entry s (key_id k) = None"
  shows "drops s (fst (commit s k t env)) (snd (commit s k t env))"
  by (rule drops_commit [OF assms(1)]) (use assms(2) in \<open>simp add: holds_cache_def\<close>)

lemma drops_listed_key:
  assumes "well_stored s"
  shows "drops s (fst (listed_key restored seq env item s)) (snd (listed_key restored seq env item s))"
proof -
  let ?k = "row_key (le_row item)"
  show ?thesis
  proof (cases "store_entry s (key_id ?k)")
    case (Some e)
    then show ?thesis using drops_event [OF assms] by (simp add: listed_key_def Let_def)
  next
    case None
    let ?s = "store_put s ?k (Some (new_entry ?k (dt_status (le_thread item)))) None"
    have p: "drops s ?s []" by (rule drops_put) (use None in \<open>simp add: holds_cache_def\<close>)
    have "drops s (fst (apply_key_event ?s ?k (KeySend (EvListed seq item)) env))
        (snd (apply_key_event ?s ?k (KeySend (EvListed seq item)) env))"
      using drops_trans [OF p drops_event [OF well_stored_new_key [OF assms]]] by simp
    then show ?thesis
      using None drops_commit_new [OF calm_restored] by (simp add: listed_key_def Let_def split: option.split)
  qed
qed

lemma drops_restore_key:
  assumes "fst p = key_id (ca_key (snd p))"
  shows "drops s (fst (restore_key seen env p s)) (snd (restore_key seen env p s))"
  using assms drops_commit_new [OF calm_restored] by (simp add: restore_key_def drops_refl)

lemma drops_rows:
  assumes "well_stored s"
  shows "drops s (fst (server_rows s seq generation result cs env)) (snd (server_rows s seq generation result cs env))"
proof (cases "st_scope s")
  case None
  then show ?thesis by (simp add: server_rows_def drops_refl)
next
  case (Some scope)
  let ?restored = "restored_map cs scope"
  let ?items = "filter (\<lambda>i. same_scope (row_key (le_row i)) scope) (lo_drafts result)"
  let ?seen = "map (\<lambda>i. key_id (row_key (le_row i))) ?items"
  let ?r0 = "store_page_org s (Some (lo_org result)) env"
  let ?f1 = "listed_key ?restored seq env" and ?f2 = "restore_key ?seen env" and ?f3 = "unlisted_key ?seen ?restored scope seq env"
  let ?r1 = "run_steps ?f1 ?items (fst ?r0)"
  let ?r2 = "run_steps ?f2 ?restored (fst ?r1)"
  let ?r3 = "run_steps ?f3 (st_entries (fst ?r2)) (fst ?r2)"
  have w0: "well_stored (fst ?r0)" by (rule well_stored_page_org [OF assms])
  have f1: "well_stored (fst (?f1 x s)) \<and> drops s (fst (?f1 x s)) (snd (?f1 x s))" if "well_stored s" for x s
    using well_stored_listed_key [OF that] drops_listed_key [OF that] by blast
  have f2: "well_stored (fst (?f2 x s)) \<and> drops s (fst (?f2 x s)) (snd (?f2 x s))"
    if "x \<in> set ?restored" "well_stored s" for x s
    using well_stored_restore_key [OF that(2)] drops_restore_key well_stored_restored [of cs scope] that(1) by auto
  have f3: "well_stored (fst (?f3 x s)) \<and> drops s (fst (?f3 x s)) (snd (?f3 x s))" if "well_stored s" for x s
    using that well_stored_event drops_event by (simp add: unlisted_key_def drops_refl)
  have d1: "drops (fst ?r0) (fst ?r1) (snd ?r1)" by (rule drops_steps [OF f1 w0]) 
  have w1: "well_stored (fst ?r1)" by (rule well_stored_steps [OF _ w0]) (use f1 in blast)
  have d2: "drops (fst ?r1) (fst ?r2) (snd ?r2)" by (rule drops_steps [OF f2 w1])
  have w2: "well_stored (fst ?r2)" by (rule well_stored_steps [OF _ w1]) (use f2 in blast)
  have d3: "drops (fst ?r2) (fst ?r3) (snd ?r3)" by (rule drops_steps [OF f3 w2])
  have "drops s (fst ?r3) (((snd ?r0 @ snd ?r1) @ snd ?r2) @ snd ?r3)"
    by (rule drops_trans [OF drops_trans [OF drops_trans [OF drops_page_org [OF assms] d1] d2] d3])
  then show ?thesis using Some by (simp add: server_rows_def Let_def drops_refl)
qed

lemma entry_at_put: "entry_at (put_entry s i e) j = (if j = i then e else entry_at s j)"
  by (cases e) (simp_all add: entry_at_def put_entry_def AList.update_conv' AList.delete_conv')

lemma entry_at_apply: "i \<noteq> key_id k \<Longrightarrow> entry_at (fst (apply_to_entry s k ev env)) i = entry_at s i"
proof -
  assume i: "i \<noteq> key_id k"
  have "entry_at (s'\<lparr>st_active_key := a\<rparr>) i = entry_at s' i" for s' a by (simp add: entry_at_def)
  then show ?thesis
    using i by (auto simp: apply_to_entry_def Let_def case_prod_unfold entry_at_put split: option.split)
qed

lemma keeps_drafts_entry:
  assumes "\<And>k dev. ev \<noteq> EvEntry k dev" "\<And>org. ev \<noteq> EvPageOrg org" "holds_cache (entry_at d i)"
  shows "holds_cache (entry_at (fst (reduce_drafts d ev env)) i) \<or> EfCacheClear \<in> set (snd (reduce_drafts d ev env))"
proof -
  have a: "entry_at (s\<lparr>st_active_key := a\<rparr>) j = entry_at s j" for s a j by (simp add: entry_at_def)
  have n: "entry_at d i \<noteq> None" using assms(3) by (auto simp: holds_cache_def split: option.splits)
  show ?thesis
  proof (cases ev)
    case (EvOpenNew c)
    then show ?thesis using assms(3) n by (auto simp: open_new_def Let_def a entry_at_put split: option.split)
  next
    case (EvOpenArtifactNew c art)
    have "entry_at (fst (open_artifact_new d c art env)) i = entry_at d i"
    proof (cases "st_scope d")
      case (Some scope)
      show ?thesis
      proof (cases "entry_at d (key_id (key_in scope c)) = None")
        case True
        then have "i \<noteq> key_id (key_in scope c)" using n by auto
        then show ?thesis using Some True by (simp add: open_artifact_new_def Let_def entry_at_apply a entry_at_put)
      qed (use Some in \<open>simp add: open_artifact_new_def\<close>)
    qed (simp add: open_artifact_new_def)
    then show ?thesis using EvOpenArtifactNew assms(3) by simp
  next
    case (EvSelect k t)
    then show ?thesis
      using assms(3) n by (auto simp: select_key_def Let_def a entry_at_put holds_cache_def split: option.splits)
  qed (use assms in \<open>auto simp: scope_change_def viewer_change_def Let_def entry_at_def\<close>)
qed

lemma drops_drafts_events:
  assumes "\<And>k dev. ev \<noteq> EvEntry k dev" "\<And>org. ev \<noteq> EvPageOrg org"
  shows "drops s (fst (through_drafts s ev env)) (snd (through_drafts s ev env))"
proof -
  define d where "d = drafts_state.truncate s"
  have e: "store_entry s i = entry_at d i" for i by (simp add: d_def store_entry_def entry_at_def drafts_state.truncate_def)
  have e': "store_entry (fst (through_drafts s ev env)) i = entry_at (fst (reduce_drafts d ev (drafts_env.truncate env))) i" for i
    by (simp add: store_entry_def through_drafts_entries d_def entry_at_def)
  have fx: "snd (through_drafts s ev env) = map SfDraft (snd (reduce_drafts d ev (drafts_env.truncate env)))"
    by (simp add: through_drafts_def case_prod_unfold d_def)
  have "holds_cache (entry_at d i) \<longrightarrow> holds_cache (entry_at (fst (reduce_drafts d ev (drafts_env.truncate env))) i) \<or>
      EfCacheClear \<in> set (snd (reduce_drafts d ev (drafts_env.truncate env)))" for i
    using keeps_drafts_entry [OF assms] by blast
  then show ?thesis by (force simp: drops_def e e' fx)
qed

text \<open>Whatever the event, a key that stops holding unacknowledged words leaves the cache.\<close>

lemma reduction_drops:
  assumes "well_stored s"
  shows "drops s (fst (reduce_store s ev env)) (snd (reduce_store s ev env))"
proof (cases ev)
  case (StViewerChange viewer)
  then show ?thesis
    using drops_drafts_events [of "EvViewerChange viewer" s env]
    by (auto simp: store_viewer_change_def case_prod_unfold drops_refl drops_def store_entry_def)
qed (use assms in \<open>simp_all add: drops_event drops_rows drops_page_org drops_drafts_events\<close>)

end
