(* ===== verification/Draft_Page_Laws.thy ===== *)
theory Draft_Page_Laws
  imports Draft_Page Draft_Calm
begin

text \<open>
  What the steps of a dispatch keep: dispatches never nest, every call waits in its own key's lane, an
  effect leaves the state and the remembered cache items alone but for the ones it names, and a sync puts
  the heartbeats, the poll and the cache back in step with the reducer's state.
\<close>

section \<open>Dispatches never nest\<close>

lemma run_job_write: "run_job again (JobWrite c) = write_call c"
  by (simp add: run_job_def fun_eq_iff)

lemma run_effect_calm:
  assumes "\<not> hasty x"
  shows "run_effect again pg x h = run_effect again' pg x h" "\<not> fst (run_effect again pg x h)"
proof -
  have "start_body turn revision token prompt \<noteq> None" if "\<not> (token = None \<and> prompt = None)" for turn revision token prompt
    using that by (auto simp: start_body_def split: option.split)
  then show "run_effect again pg x h = run_effect again' pg x h" "\<not> fst (run_effect again pg x h)"
    using assms
    by (cases x; auto simp: run_effect_def arm_def run_job_write Let_def split: draft_effect.split option.split)+
qed

lemma run_effects_calm:
  "filter hasty xs = [] \<Longrightarrow> run_effects again pg xs h = run_effects again' pg xs h \<and> \<not> fst (run_effects again pg xs h)"
proof (induction xs arbitrary: h)
  case (Cons x xs)
  have x: "\<not> hasty x" "filter hasty xs = []" using Cons.prems by (simp_all split: if_splits)
  obtain h1 o1 where r: "run_effect again pg x h = (False, h1, o1)" "run_effect again' pg x h = (False, h1, o1)"
    using run_effect_calm(2) [OF x(1), of again pg h] run_effect_calm(1) [OF x(1), of again pg h again']
    by (metis (full_types) prod.exhaust_sel)
  then show ?case using Cons.IH [OF x(2), of h1] by (auto simp: case_prod_unfold)
qed simp

definition no_dispatch :: "store_event \<Rightarrow> page_action" where
  "no_dispatch ev h = (h, [])"

text \<open>A dispatch in the order of its steps.\<close>

lemma dispatch_in_steps:
  assumes "\<not> hd_disposed h" "reduce_store (hd_drafts h) ev (page_env pg h) = (s, fx)"
    and "run_effects no_dispatch pg fx (h\<lparr>hd_drafts := s, hd_clock := hd_clock h + 1\<rparr>) = (threw, h1, o1)"
  shows "dispatch_in (Suc n) pg ev h = (case sync_page pg (hd_drafts h) h1 of (h2, o2) \<Rightarrow> (h2, o1 @ o2))"
proof -
  have c: "filter hasty fx = []" using reduction_unhurried [of "hd_drafts h" ev "page_env pg h"] assms(2) by simp
  have "run_effects (dispatch_in n pg) pg fx (h\<lparr>hd_drafts := s, hd_clock := hd_clock h + 1\<rparr>) = (threw, h1, o1)" "\<not> threw"
    using run_effects_calm [OF c] assms(3) by (metis fst_conv)+
  then show ?thesis using assms by (simp add: Let_def)
qed

lemma dispatch_never_nests: "dispatch_in (Suc n) pg ev h = dispatch pg ev h"
proof (cases "hd_disposed h")
  case False
  obtain s fx where r: "reduce_store (hd_drafts h) ev (page_env pg h) = (s, fx)" by fastforce
  obtain t h1 o1 where e: "run_effects no_dispatch pg fx (h\<lparr>hd_drafts := s, hd_clock := hd_clock h + 1\<rparr>) = (t, h1, o1)"
    using prod_cases3 by blast
  show ?thesis
    using dispatch_in_steps [OF False r e, of n] dispatch_in_steps [OF False r e, of 0] by (simp add: dispatch_def)
qed (simp add: dispatch_def)

section \<open>The queue of the handle\<close>

lemma refines_some: "queue_ok q \<Longrightarrow> \<exists>v. refines q v"
proof -
  assume q: "queue_ok q"
  let ?w = "concat (map (\<lambda>p. map (Pair (fst p)) (ln_waiting (qu_objects q (snd p)))) (qu_lanes q))"
  let ?v = "\<lparr>wr_last = qu_seq q, wr_open = outstanding q, wr_waiting = ?w\<rparr>"
  have d: "distinct (map fst (qu_lanes q))" using q by (simp add: queue_ok_def lanes_ok_def)
  have "map snd (filter (\<lambda>p. fst p = i) (concat (map (\<lambda>p. map (Pair (fst p)) (ln_waiting (qu_objects q (snd p)))) ls))) =
      (case map_of ls i of None \<Rightarrow> [] | Some l \<Rightarrow> ln_waiting (qu_objects q l))" if "distinct (map fst ls)" for i ls
    using that
  proof (induction ls)
    case (Cons p ls)
    have "filter (\<lambda>x. fst x = i) (map (Pair (fst p)) ws) = (if fst p = i then map (Pair (fst p)) ws else [])" for ws :: "'a queued_write list"
      by (induction ws) simp_all
    moreover have "map_of ls (fst p) = None" using Cons.prems by (simp add: map_of_eq_None_iff)
    ultimately show ?case using Cons by (cases "fst p = i") (auto simp: comp_def split: option.splits)
  qed simp
  then have "waits i ?v = waiting_of i q" for i using d by (simp add: waits_def waiting_of_def)
  then have "refines q ?v" using q by (simp add: refines_def)
  then show ?thesis by blast
qed

lemma queue_ok_step:
  assumes "queue_ok q" "queue_step org ev q = (q', os)"
  shows "queue_ok q'"
proof -
  obtain v where "refines q v" using refines_some [OF assms(1)] by blast
  then show ?thesis using queue_step_sim [OF _ assms(2)] by (auto dest: refinesD(1))
qed

text \<open>Every call stands in the lane of its own key, and waits for its key's organization.\<close>

definition own_lane :: "string \<Rightarrow> draft_call queued_write \<Rightarrow> bool" where
  "own_lane i w \<longleftrightarrow> i = key_id (call_key (qw_write w)) \<and> qw_org w = ds_org (call_key (qw_write w))"

text \<open>The writes a queue holds, each with its lane's name: of the requests and of the waiting ones.\<close>

definition held_writes :: "draft_call write_queue \<Rightarrow> (string \<times> draft_call queued_write) set" where
  "held_writes q = (\<lambda>f. (fl_lane_id f, fl_write f)) ` set (qu_flights q) \<union>
     (\<Union>p\<in>set (qu_lanes q). Pair (fst p) ` set (ln_waiting (qu_objects q (snd p))))"

lemma held_iff: "(j, w) \<in> held_writes q \<longleftrightarrow> (\<exists>f\<in>set (qu_flights q). fl_lane_id f = j \<and> fl_write f = w) \<or>
    (\<exists>l. (j, l) \<in> set (qu_lanes q) \<and> w \<in> set (ln_waiting (qu_objects q l)))"
  unfolding held_writes_def by force

lemma held_subset:
  "qu_flights q' = qu_flights q \<Longrightarrow> (\<And>j l w. (j, l) \<in> set (qu_lanes q') \<Longrightarrow> w \<in> set (ln_waiting (qu_objects q' l)) \<Longrightarrow> (j, w) \<in> H) \<Longrightarrow>
   held_writes q \<subseteq> H \<Longrightarrow> held_writes q' \<subseteq> H"
  by (force simp: held_iff)

definition calls_ok :: "draft_call write_queue \<Rightarrow> bool" where
  "calls_ok q \<longleftrightarrow> queue_ok q \<and> (\<forall>p\<in>held_writes q. own_lane (fst p) (snd p))"

lemma calls_ok_queue: "calls_ok q \<Longrightarrow> queue_ok q"
  by (simp add: calls_ok_def)

lemma calls_ok_keeps: "calls_ok q \<Longrightarrow> queue_ok q' \<Longrightarrow> held_writes q' \<subseteq> held_writes q \<Longrightarrow> calls_ok q'"
  unfolding calls_ok_def by blast

lemma held_flight: "f \<in> set (qu_flights q) \<Longrightarrow> (fl_lane_id f, fl_write f) \<in> held_writes q"
  by (simp add: held_writes_def)

lemma held_waiting: "(i, l) \<in> set (qu_lanes q) \<Longrightarrow> w \<in> set (ln_waiting (qu_objects q l)) \<Longrightarrow> (i, w) \<in> held_writes q"
  by (force simp: held_writes_def)

lemma held_pump:
  assumes "pump org i q = (q', os)"
  shows "held_writes q' \<subseteq> held_writes q"
proof (cases "map_of (qu_lanes q) i")
  case None
  then show ?thesis using assms by (simp add: pump_def)
next
  case (Some l)
  have m: "(i, l) \<in> set (qu_lanes q)" using Some by (rule map_of_SomeD)
  show ?thesis
  proof (cases "ln_waiting (qu_objects q l)")
    case Nil
    then show ?thesis using Some assms by (auto simp: pump_def held_writes_def AList.delete_eq split: if_splits)
  next
    case (Cons w ws)
    show ?thesis
    proof (cases "ln_busy (qu_objects q l) \<or> org \<noteq> Some (qw_org w)")
      case True
      then show ?thesis using Some Cons assms by (auto simp: pump_def split: if_splits)
    next
      case False
      then have q': "q' = sent i l w ws q" using Some Cons assms by (simp add: pump_def sent_def Let_def)
      have "(i, w) \<in> held_writes q" by (rule held_waiting [OF m]) (simp add: Cons)
      moreover have "set ws \<subseteq> set (ln_waiting (qu_objects q l))" using Cons by auto
      ultimately show ?thesis unfolding q' by (fastforce simp: held_writes_def sent_def split: if_splits)
    qed
  qed
qed

lemma held_pump_each:
  fixes os :: "(draft_call, 'b) queue_output list"
  shows "pump_each org ids q = (q', os) \<Longrightarrow> held_writes q' \<subseteq> held_writes q"
proof (induction ids arbitrary: q os)
  case (Cons i ids)
  obtain q1 o1 where p: "pump org i q = (q1, o1 :: (draft_call, 'b) queue_output list)" by fastforce
  obtain q2 o2 where p2: "pump_each org ids q1 = (q2, o2 :: (draft_call, 'b) queue_output list)" by fastforce
  have "q2 = q'" using Cons.prems p p2 by simp
  then show ?case using held_pump [OF p] Cons.IH p2 by blast
qed simp

lemma held_close:
  assumes "close_flight n q = Some (q', f, k)"
  shows "held_writes q' \<subseteq> held_writes q"
proof -
  have fl: "qu_flights q' = map (\<lambda>g. if fl_seq g = n then g\<lparr>fl_open := False\<rparr> else g) (qu_flights q)"
    "qu_lanes q' = qu_lanes q" "\<And>l. ln_waiting (qu_objects q' l) = ln_waiting (qu_objects q l)"
    using assms by (auto simp: close_flight_def split: option.splits if_splits)
  have "map (\<lambda>f. (fl_lane_id f, fl_write f)) (map (\<lambda>g. if fl_seq g = n then g\<lparr>fl_open := False\<rparr> else g) fs) =
      map (\<lambda>f. (fl_lane_id f, fl_write f)) fs" for fs :: "draft_call flight list"
    by (induction fs) simp_all
  then have "set (map (\<lambda>f. (fl_lane_id f, fl_write f)) (qu_flights q')) = set (map (\<lambda>f. (fl_lane_id f, fl_write f)) (qu_flights q))"
    unfolding fl(1) by (rule arg_cong)
  then have "(\<lambda>f. (fl_lane_id f, fl_write f)) ` set (qu_flights q') = (\<lambda>f. (fl_lane_id f, fl_write f)) ` set (qu_flights q)"
    by (simp only: set_map)
  then show ?thesis unfolding held_writes_def fl(2,3) by simp
qed

lemma calls_ok_pump:
  assumes "calls_ok q" "pump org i q = (q', os)"
  shows "calls_ok q'"
  using queue_ok_step [of q org "QePump i" q' os] assms calls_ok_queue
  by (intro calls_ok_keeps [OF assms(1) _ held_pump [OF assms(2)]]) simp

lemma calls_ok_pump_all:
  assumes "calls_ok q" "pump_all org q = (q', os)"
  shows "calls_ok q'"
proof (rule calls_ok_keeps [OF assms(1)])
  show "queue_ok q'" using queue_ok_step [of q org QePumpAll q' os] assms calls_ok_queue by simp
  show "held_writes q' \<subseteq> held_writes q" using assms(2) held_pump_each by (fastforce simp: pump_all_def)
qed

lemma held_settle: "settle_flight n r q = (q', os) \<Longrightarrow> held_writes q' \<subseteq> held_writes q" "time_out n q = (q', os') \<Longrightarrow> held_writes q' \<subseteq> held_writes q"
  using held_close [of n q] by (auto simp: settle_flight_def time_out_def split: option.splits prod.splits)

lemma calls_ok_settle:
  assumes "calls_ok q" "settle_flight n r q = (q', os)"
  shows "calls_ok q'"
  using queue_ok_step [of q None "QeSettle n r" q' os] assms calls_ok_queue
  by (intro calls_ok_keeps [OF assms(1) _ held_settle(1) [OF assms(2)]]) simp

lemma calls_ok_time_out:
  assumes "calls_ok q" "time_out n q = (q', os)"
  shows "calls_ok q'"
  using queue_ok_step [of q None "QeTimeout n" q' os] assms calls_ok_queue
  by (intro calls_ok_keeps [OF assms(1) _ held_settle(2) [OF assms(2)]]) simp

lemma calls_ok_clear: "calls_ok q \<Longrightarrow> calls_ok (clear_queue q)"
  using queue_ok_step [of q None QeClear] by (auto simp: calls_ok_def held_iff clear_queue_def)

lemma calls_ok_number: "calls_ok q \<Longrightarrow> calls_ok (q\<lparr>qu_seq := qu_seq q + 1\<rparr>)"
  using queue_ok_step [of q None QeNumber] by (auto simp: calls_ok_def held_iff)

lemma calls_ok_enqueue:
  assumes "calls_ok q" "own_lane i w" "enqueue org i w q = (q', os)"
  shows "calls_ok q'"
proof -
  have ok: "queue_ok q'" using queue_ok_step [of q org "QeEnqueue i w" q' os] assms(1,3) calls_ok_queue by simp
  obtain q1 where q1: "pump org i q1 = (q', os)" "held_writes q1 \<subseteq> insert (i, w) (held_writes q)"
  proof (cases "map_of (qu_lanes q) i")
    case (Some l)
    let ?q1 = "set_lane l ((qu_objects q l)\<lparr>ln_waiting := ln_waiting (qu_objects q l) @ [w]\<rparr>) q"
    have own: "fst p = i" if "p \<in> set (qu_lanes q)" "snd p = l" for p
    proof -
      have "distinct (map fst (qu_lanes q))" using assms(1) by (simp add: calls_ok_def queue_ok_def lanes_ok_def)
      then have "map_of (qu_lanes q) (fst p) = Some l" using that by (cases p) (simp add: map_of_is_SomeI)
      then show ?thesis using lane_of(3) [OF calls_ok_queue [OF assms(1)] Some] by blast
    qed
    have "held_writes ?q1 \<subseteq> insert (i, w) (held_writes q)"
    proof (rule held_subset)
      fix j l' w'
      assume a: "(j, l') \<in> set (qu_lanes ?q1)" "w' \<in> set (ln_waiting (qu_objects ?q1 l'))"
      then have m: "(j, l') \<in> set (qu_lanes q)" by simp
      show "(j, w') \<in> insert (i, w) (held_writes q)"
      proof (cases "l' = l")
        case True
        then have "w' = w \<or> w' \<in> set (ln_waiting (qu_objects q l'))" "j = i" using a(2) own [OF m] by auto
        then show ?thesis using held_waiting [OF m] by auto
      next
        case False
        then show ?thesis using held_waiting [OF m] a(2) by simp
      qed
    qed auto
    moreover have "pump org i ?q1 = (q', os)" using assms(3) Some by (simp add: enqueue_def)
    ultimately show ?thesis by (rule that [rotated])
  next
    case None
    let ?q1 = "(set_lane (qu_fresh q) \<lparr>ln_waiting = [w], ln_busy = False\<rparr> q)
          \<lparr>qu_lanes := AList.update i (qu_fresh q) (qu_lanes q), qu_fresh := qu_fresh q + 1\<rparr>"
    have "held_writes ?q1 \<subseteq> insert (i, w) (held_writes q)"
    proof (rule held_subset)
      fix j l' w'
      assume a: "(j, l') \<in> set (qu_lanes ?q1)" "w' \<in> set (ln_waiting (qu_objects ?q1 l'))"
      then consider "j = i" "l' = qu_fresh q" | "(j, l') \<in> set (qu_lanes q)" by (auto simp: update_new [OF None])
      then show "(j, w') \<in> insert (i, w) (held_writes q)"
      proof cases
        case 1
        then show ?thesis using a(2) by simp
      next
        case 2
        then have "l' < qu_fresh q" using assms(1) by (auto simp: calls_ok_def queue_ok_def lanes_ok_def)
        then show ?thesis using held_waiting [OF 2] a(2) by simp
      qed
    qed auto
    moreover have "pump org i ?q1 = (q', os)" using assms(3) None by (simp add: enqueue_def)
    ultimately show ?thesis by (rule that [rotated])
  qed
  have "\<forall>p\<in>held_writes q1. own_lane (fst p) (snd p)" using q1(2) assms(1,2) by (auto simp: calls_ok_def)
  then show ?thesis using held_pump [OF q1(1)] ok unfolding calls_ok_def by blast
qed

section \<open>The invariant of a page\<close>

text \<open>The heartbeats' own invariant, which every operation of theirs keeps.\<close>

definition beats_ok :: "claim_heartbeats \<Rightarrow> bool" where
  "beats_ok b \<longleftrightarrow> distinct (map fst (ch_timers b)) \<and> fst ` set (ch_timers b) \<inter> set (ch_stopped b) = {}"

lemma beating_ok: "beating claims b \<Longrightarrow> beats_ok b"
  by (auto simp: beating_def beats_ok_def)

lemma beats_ok_stop: "beats_ok (stop_all_beats b)"
  by (simp add: beats_ok_def stop_all_beats_def)

text \<open>
  The cache is in step: what is remembered as written stands under its own key, and is either waiting
  for its timer, or was refused, or is what the storage holds for the viewer.
\<close>

definition on_its_way :: "drafts_page \<Rightarrow> string \<Rightarrow> handle \<Rightarrow> string \<Rightarrow> draft_entry \<Rightarrow> bool" where
  "on_its_way pg v h i e \<longleftrightarrow> i \<in> set (hd_cache_timers h) \<or> i \<in> set (hd_uncached h) \<or>
     map_of (hd_storage h) (item_key v (en_key e)) = Some (pg_json pg (item_of e))"

definition remembered :: "drafts_page \<Rightarrow> string option \<Rightarrow> handle \<Rightarrow> bool" where
  "remembered pg viewer h \<longleftrightarrow> (\<forall>i e. map_of (hd_cached h) i = Some e \<longrightarrow> key_id (en_key e) = i \<and>
     (case viewer of None \<Rightarrow> True | Some v \<Rightarrow> on_its_way pg v h i e))"

text \<open>Exactly the entries with unacknowledged words are remembered, as they are.\<close>

definition cache_in_step :: "handle \<Rightarrow> bool" where
  "cache_in_step h \<longleftrightarrow> (\<forall>i e. map_of (hd_cached h) i = Some e \<longleftrightarrow> store_entry (hd_drafts h) i = Some e \<and> cacheable e)"

text \<open>The viewers the cache's names tell apart from its own active-conversation items.\<close>

definition plain_viewer :: "string \<Rightarrow> bool" where
  "plain_viewer v \<longleftrightarrow> CHR '':'' \<notin> set v \<and> v \<noteq> ''active''"

definition page_ok :: "drafts_page \<Rightarrow> handle \<Rightarrow> bool" where
  "page_ok pg h \<longleftrightarrow> well_stored (hd_drafts h) \<and> calls_ok (hd_queue h) \<and> beats_ok (hd_beats h) \<and>
     pred_option plain_viewer (st_viewer (hd_drafts h)) \<and>
     (\<not> hd_disposed h \<longrightarrow> beating (granted_claims (hd_drafts h)) (hd_beats h) \<and>
        hd_poll h = poll_ms (hd_surface h) (hd_drafts h) \<and> cache_in_step h \<and> remembered pg (st_viewer (hd_drafts h)) h)"

section \<open>Effects\<close>

text \<open>What an effect leaves alone.\<close>

definition keeps_page :: "handle \<Rightarrow> handle \<Rightarrow> bool" where
  "keeps_page h h' \<longleftrightarrow> hd_drafts h' = hd_drafts h \<and> hd_surface h' = hd_surface h \<and> hd_disposed h' = hd_disposed h \<and>
     hd_poll h' = hd_poll h \<and> (calls_ok (hd_queue h) \<longrightarrow> calls_ok (hd_queue h')) \<and> (beats_ok (hd_beats h) \<longrightarrow> beats_ok (hd_beats h'))"

definition keeps_cache :: "handle \<Rightarrow> handle \<Rightarrow> bool" where
  "keeps_cache h h' \<longleftrightarrow> hd_cached h' = hd_cached h \<and> hd_cache_timers h' = hd_cache_timers h \<and>
     hd_uncached h' = hd_uncached h \<and> hd_storage h' = hd_storage h"

lemma keeps_page_refl [simp]: "keeps_page h h" and keeps_cache_refl [simp]: "keeps_cache h h"
  by (simp_all add: keeps_page_def keeps_cache_def)

lemma keeps_page_trans: "keeps_page h h1 \<Longrightarrow> keeps_page h1 h2 \<Longrightarrow> keeps_page h h2"
  by (simp add: keeps_page_def)

lemma write_call_keeps: "keeps_page h (fst (write_call c h)) \<and> keeps_cache h (fst (write_call c h))"
proof -
  obtain q os where e: "enqueue (st_page_org (hd_drafts h)) (key_id (call_key c))
      \<lparr>qw_org = ds_org (call_key c), qw_timeout = call_timeout c, qw_write = c\<rparr> (hd_queue h) = (q, os :: (draft_call, call_answer) queue_output list)"
    by fastforce
  have "calls_ok (hd_queue h) \<Longrightarrow> calls_ok q"
    by (rule calls_ok_enqueue [OF _ _ e]) (simp_all add: own_lane_def)
  then show ?thesis using e by (simp add: write_call_def on_queue_def keeps_page_def keeps_cache_def)
qed

lemma list_scope_keeps: "keeps_page h (fst (list_scope scope g h)) \<and> keeps_cache h (fst (list_scope scope g h))"
  using calls_ok_number [of "hd_queue h"] by (simp add: list_scope_def keeps_page_def keeps_cache_def Let_def)

lemma arm_write_keeps:
  "keeps_page h (fst (arm again name ms (JobWrite c) h)) \<and> keeps_cache h (fst (arm again name ms (JobWrite c) h))"
proof -
  let ?h = "h\<lparr>hd_timers := AList.delete name (hd_timers h)\<rparr>"
  have "keeps_page h ?h" "keeps_cache h ?h" by (simp_all add: keeps_page_def keeps_cache_def)
  then show ?thesis
    using write_call_keeps [of ?h c]
    by (auto simp: arm_def Let_def run_job_write) (auto simp: keeps_page_def keeps_cache_def)
qed

text \<open>An effect that is not of the cache leaves the cache alone.\<close>

lemma other_effect_keeps:
  assumes "\<not> hasty x" "\<not> is_cache_remove x" "x \<noteq> SfDraft EfCacheClear"
  shows "keeps_page h (fst (snd (run_effect no_dispatch pg x h))) \<and> keeps_cache h (fst (snd (run_effect no_dispatch pg x h)))"
proof (cases x)
  case (SfDraft d)
  show ?thesis
  proof (cases d)
    case (EfScheduleSave k ms r)
    then show ?thesis
      using SfDraft assms(1) by (simp add: run_effect_def arm_def Let_def keeps_page_def keeps_cache_def)
  qed (use SfDraft assms write_call_keeps list_scope_keeps in
      \<open>auto simp: run_effect_def is_cache_remove_def add_notice_def keeps_page_def keeps_cache_def\<close>)
next
  case (SfStart k attempt turn revision origin token prompt)
  then show ?thesis using write_call_keeps by (auto simp: run_effect_def split: option.split)
qed (use write_call_keeps arm_write_keeps in \<open>auto simp: run_effect_def add_notice_def keeps_page_def keeps_cache_def\<close>)


lemma item_key_inj: "item_key v k = item_key v k' \<longleftrightarrow> key_id k = key_id k'"
  by (simp add: item_key_def)

lemma remove_item_other: "key_id k' \<noteq> key_id k \<Longrightarrow> map_of (remove_item br v k s) (item_key v k') = map_of s (item_key v k')"
  by (simp add: remove_item_def drop_item_other item_key_inj)

lemma cache_remove_keeps:
  "keeps_page h (fst (cache_remove pg k h))"
  "hd_cached (fst (cache_remove pg k h)) = AList.delete (key_id k) (hd_cached h)"
  "remembered pg (st_viewer (hd_drafts h)) h \<Longrightarrow> remembered pg (st_viewer (hd_drafts h)) (fst (cache_remove pg k h))"
proof -
  show "keeps_page h (fst (cache_remove pg k h))"
    by (simp add: cache_remove_def Let_def keeps_page_def split: option.split)
  show "hd_cached (fst (cache_remove pg k h)) = AList.delete (key_id k) (hd_cached h)"
    by (simp add: cache_remove_def Let_def split: option.split)
  assume r: "remembered pg (st_viewer (hd_drafts h)) h"
  show "remembered pg (st_viewer (hd_drafts h)) (fst (cache_remove pg k h))"
    unfolding remembered_def
  proof (intro allI impI)
    fix i e
    assume "map_of (hd_cached (fst (cache_remove pg k h))) i = Some e"
    then have i: "i \<noteq> key_id k" "map_of (hd_cached h) i = Some e"
      by (auto simp: cache_remove_def Let_def AList.delete_conv' split: option.splits if_splits)
    then have e: "key_id (en_key e) = i" "\<And>v. st_viewer (hd_drafts h) = Some v \<Longrightarrow> on_its_way pg v h i e"
      using r by (auto simp: remembered_def)
    then show "key_id (en_key e) = i \<and> (case st_viewer (hd_drafts h) of None \<Rightarrow> True
        | Some v \<Rightarrow> on_its_way pg v (fst (cache_remove pg k h)) i e)"
      using i(1) remove_item_other [of "en_key e" k]
      by (auto simp: on_its_way_def cache_remove_def Let_def split: option.split)
  qed
qed

lemma cache_clear_keeps:
  "keeps_page h (fst (cache_clear pg h))" "hd_cached (fst (cache_clear pg h)) = []"
  "remembered pg viewer (fst (cache_clear pg h))"
  using calls_ok_clear beats_ok_stop by (auto simp: cache_clear_def keeps_page_def remembered_def)

lemma remembered_keeps: "keeps_cache h h' \<Longrightarrow> remembered pg viewer h' = remembered pg viewer h"
  by (simp add: keeps_cache_def remembered_def on_its_way_def cong: option.case_cong)

lemma run_effect_keeps:
  assumes "\<not> hasty x" "h1 = fst (snd (run_effect no_dispatch pg x h))"
  shows "keeps_page h h1" "remembered pg (st_viewer (hd_drafts h)) h \<Longrightarrow> remembered pg (st_viewer (hd_drafts h)) h1"
    "map_of (hd_cached h1) i = Some e \<Longrightarrow>
      map_of (hd_cached h) i = Some e \<and> x \<noteq> SfDraft EfCacheClear \<and> (\<forall>k. x = SfDraft (EfCacheRemove k) \<longrightarrow> key_id k \<noteq> i)"
proof -
  have "keeps_page h h1 \<and> (remembered pg (st_viewer (hd_drafts h)) h \<longrightarrow> remembered pg (st_viewer (hd_drafts h)) h1) \<and>
    (map_of (hd_cached h1) i = Some e \<longrightarrow>
      map_of (hd_cached h) i = Some e \<and> x \<noteq> SfDraft EfCacheClear \<and> (\<forall>k. x = SfDraft (EfCacheRemove k) \<longrightarrow> key_id k \<noteq> i))"
  proof (cases "is_cache_remove x")
    case True
    then obtain k where x: "x = SfDraft (EfCacheRemove k)"
      by (auto simp: is_cache_remove_def split: send_effect.splits draft_effect.splits)
    have "h1 = fst (cache_remove pg k h)" using assms(2) x by (simp add: run_effect_def)
    then show ?thesis using cache_remove_keeps [where pg = pg and k = k and h = h] x by (auto simp: AList.delete_conv' split: if_splits)
  next
    case n: False
    then have nr: "x \<noteq> SfDraft (EfCacheRemove k)" for k by (auto simp: is_cache_remove_def)
    show ?thesis
    proof (cases "x = SfDraft EfCacheClear")
      case True
      then have "h1 = fst (cache_clear pg h)" using assms(2) by (simp add: run_effect_def)
      then show ?thesis using cache_clear_keeps [where pg = pg and h = h] by simp
    next
      case False
      have "keeps_page h h1" "keeps_cache h h1"
        using other_effect_keeps [OF assms(1) n False] assms(2) by simp_all
      then show ?thesis using remembered_keeps [of h h1] False nr by (simp add: keeps_cache_def)
    qed
  qed
  then show "keeps_page h h1" "remembered pg (st_viewer (hd_drafts h)) h \<Longrightarrow> remembered pg (st_viewer (hd_drafts h)) h1"
    "map_of (hd_cached h1) i = Some e \<Longrightarrow>
      map_of (hd_cached h) i = Some e \<and> x \<noteq> SfDraft EfCacheClear \<and> (\<forall>k. x = SfDraft (EfCacheRemove k) \<longrightarrow> key_id k \<noteq> i)"
    by blast+
qed

lemma run_effects_keep:
  "filter hasty xs = [] \<Longrightarrow> h1 = fst (snd (run_effects no_dispatch pg xs h)) \<Longrightarrow>
   keeps_page h h1 \<and> (remembered pg (st_viewer (hd_drafts h)) h \<longrightarrow> remembered pg (st_viewer (hd_drafts h)) h1) \<and>
   (\<forall>i e. map_of (hd_cached h1) i = Some e \<longrightarrow>
      map_of (hd_cached h) i = Some e \<and> SfDraft EfCacheClear \<notin> set xs \<and> (\<forall>k. SfDraft (EfCacheRemove k) \<in> set xs \<longrightarrow> key_id k \<noteq> i)) \<and>
   (SfDraft EfCacheClear \<in> set xs \<longrightarrow> remembered pg (st_viewer (hd_drafts h)) h1)"
proof (induction xs arbitrary: h)
  case Nil
  then show ?case by simp
next
  case (Cons x xs)
  have x: "\<not> hasty x" "filter hasty xs = []" using Cons.prems(1) by (simp_all split: if_splits)
  let ?h = "fst (snd (run_effect no_dispatch pg x h))"
  note k = run_effect_keeps [OF x(1) refl, where pg = pg and h = h]
  have f: "fst (run_effect no_dispatch pg x h) = False" using run_effect_calm(2) [OF x(1)] by blast
  have h1: "h1 = fst (snd (run_effects no_dispatch pg xs ?h))"
    using Cons.prems(2) f by (cases "run_effect no_dispatch pg x h") (auto split: prod.splits)
  note ih = Cons.IH [OF x(2) h1]
  have v: "st_viewer (hd_drafts ?h) = st_viewer (hd_drafts h)" using k(1) by (simp add: keeps_page_def)
  have clear: "remembered pg (st_viewer (hd_drafts h)) ?h" if "x = SfDraft EfCacheClear"
    using that cache_clear_keeps(3) by (simp add: run_effect_def)
  show ?case
  proof (intro conjI)
    show "keeps_page h h1" using keeps_page_trans [OF k(1)] ih by blast
    show "remembered pg (st_viewer (hd_drafts h)) h \<longrightarrow> remembered pg (st_viewer (hd_drafts h)) h1"
      using k(2) ih v by simp
    show "\<forall>i e. map_of (hd_cached h1) i = Some e \<longrightarrow> map_of (hd_cached h) i = Some e \<and> SfDraft EfCacheClear \<notin> set (x # xs) \<and>
        (\<forall>k. SfDraft (EfCacheRemove k) \<in> set (x # xs) \<longrightarrow> key_id k \<noteq> i)"
      using k(3) ih by (metis set_ConsD)
    show "SfDraft EfCacheClear \<in> set (x # xs) \<longrightarrow> remembered pg (st_viewer (hd_drafts h)) h1"
      using clear ih v by auto
  qed
qed


section \<open>The viewer\<close>

lemma viewer_put [simp]: "st_viewer (store_put s k e fence) = st_viewer s"
  by (simp add: store_put_def Let_def)

lemma viewer_commit [simp]: "st_viewer (fst (commit s k t env)) = st_viewer s"
  by (auto simp: commit_def apply_fork_def Let_def case_prod_unfold split: option.split)

lemma viewer_event [simp]: "st_viewer (fst (apply_key_event s k ev env)) = st_viewer s"
  by (auto simp: apply_key_event_def Let_def case_prod_unfold split: option.split simp del: reduce_entry_simps)

lemma viewer_resume [simp]: "st_viewer (fst (resume_keys es org env s)) = st_viewer s"
  by (induction es arbitrary: s) (simp_all add: case_prod_unfold)

lemma viewer_page_org [simp]: "st_viewer (fst (store_page_org s org env)) = st_viewer s"
  by (simp add: store_page_org_def Let_def split: option.split)

lemma viewer_steps: "(\<And>x s. st_viewer (fst (f x s)) = st_viewer s) \<Longrightarrow> st_viewer (fst (run_steps f xs s)) = st_viewer s"
  by (induction xs arbitrary: s) (simp_all add: case_prod_unfold)

lemma viewer_rows: "st_viewer (fst (server_rows s seq generation result cs env)) = st_viewer s"
proof -
  have "st_viewer (fst (listed_key r seq env item s)) = st_viewer s" for r item s
    by (simp add: listed_key_def Let_def split: option.split)
  moreover have "st_viewer (fst (restore_key seen env p s)) = st_viewer s" for seen p s
    by (simp add: restore_key_def)
  moreover have "st_viewer (fst (unlisted_key seen r scope seq env p s)) = st_viewer s" for seen r scope p s
    by (simp add: unlisted_key_def)
  ultimately show ?thesis
    by (simp add: server_rows_def Let_def viewer_steps split: option.split)
qed

lemma viewer_drafts:
  assumes "\<And>k dev. ev \<noteq> EvEntry k dev" "\<And>org. ev \<noteq> EvPageOrg org" "\<And>v. ev \<noteq> EvViewerChange v"
  shows "st_viewer (fst (through_drafts s ev env)) = st_viewer s"
proof -
  have p: "st_viewer (put_entry d i e) = st_viewer d" for d i e by (simp add: put_entry_def)
  have "st_viewer (fst (apply_to_entry d k tr denv)) = st_viewer d" for d k tr denv
    by (auto simp: apply_to_entry_def Let_def case_prod_unfold p split: option.split)
  then have "st_viewer (fst (reduce_drafts d ev denv)) = st_viewer d" for d denv
  proof (cases ev)
    case (EvEntry k dev)
    then show ?thesis using assms(1) [of k dev] by blast
  next
    case (EvPageOrg org)
    then show ?thesis using assms(2) [of org] by blast
  next
    case (EvViewerChange v)
    then show ?thesis using assms(3) [of v] by blast
  qed (auto simp: open_new_def open_artifact_new_def select_key_def scope_change_def Let_def p split: option.split)
  then show ?thesis by (simp add: through_drafts_def case_prod_unfold drafts_state.extend_def drafts_state.truncate_def)
qed

text \<open>Only a change of viewer changes the viewer, and it clears the cache.\<close>

lemma viewer_change_clears:
  "st_viewer (fst (reduce_store s ev env)) = st_viewer s \<or>
   (\<exists>v. ev = StViewerChange v \<and> st_viewer (fst (reduce_store s ev env)) = v \<and> SfDraft EfCacheClear \<in> set (snd (reduce_store s ev env)))"
proof (cases ev)
  case (StViewerChange v)
  then show ?thesis
    by (simp add: store_viewer_change_def through_drafts_def viewer_change_def drafts_state.truncate_def drafts_state.extend_def)
qed (simp_all add: viewer_rows viewer_drafts)

section \<open>Sync\<close>

lemma has_active_prefix: "plain_viewer v \<Longrightarrow> \<not> has_prefix (active_prefix @ v @ '':'') (item_key v k)"
proof
  assume p: "plain_viewer v" "has_prefix (active_prefix @ v @ '':'') (item_key v k)"
  obtain t where "item_key v k = (active_prefix @ v @ '':'') @ t" using p(2) unfolding has_prefix_iff by blast
  then have e: "v @ '':'' @ key_id k = ''active'' @ '':'' @ v @ '':'' @ t"
    by (simp add: item_key_def active_prefix_def)
  have "takeWhile (\<lambda>c. c \<noteq> CHR '':'') (u @ '':'' @ r) = u" if "CHR '':'' \<notin> set u" for u r
    using that by (induction u) auto
  from this [of v "key_id k"] this [of "''active''" "v @ '':'' @ t"] show False
    using e p(1) by (simp add: plain_viewer_def)
qed

lemma set_active_other: "\<not> has_prefix pre n \<Longrightarrow> map_of (set_active br pre ps s) n = map_of s n"
proof (induction ps arbitrary: s)
  case (Cons p ps)
  then have "n \<noteq> pre @ fst p" by auto
  then show ?case using Cons by (simp add: AList.update_conv')
qed simp

lemma write_active_other: "plain_viewer v \<Longrightarrow> map_of (write_active br v active s) (item_key v k) = map_of s (item_key v k)"
  using has_active_prefix [of v k] by (simp add: write_active_def Let_def set_active_other drop_names_keeps)

lemma mirror_keeps: "keeps_page h (mirror_active pg before h)" "hd_cached (mirror_active pg before h) = hd_cached h"
  by (simp_all add: mirror_active_def keeps_page_def split: option.split)

lemma mirror_remembered:
  assumes "\<And>v. st_viewer (hd_drafts h) = Some v \<Longrightarrow> plain_viewer v" "remembered pg (st_viewer (hd_drafts h)) h"
  shows "remembered pg (st_viewer (hd_drafts h)) (mirror_active pg before h)"
proof (cases "st_viewer (hd_drafts h)")
  case None
  then show ?thesis using assms(2) by (simp add: mirror_active_def)
next
  case (Some v)
  then show ?thesis
    using assms write_active_other [of v]
    by (simp add: mirror_active_def remembered_def on_its_way_def)
qed

definition same_objects :: "drafts_page \<Rightarrow> bool" where
  "same_objects pg \<longleftrightarrow> (\<forall>n a b. pg_same pg n a b \<longrightarrow> a = b)"

lemma sync_entries:
  assumes "same_objects pg" "distinct (map fst es)" "\<forall>p\<in>set es. key_id (en_key (snd p)) = fst p" "h' = fold (sync_entry pg) es h"
  shows "keeps_page h h'" "remembered pg viewer h \<Longrightarrow> remembered pg viewer h'"
    "map_of (hd_cached h') i = (case map_of es i of None \<Rightarrow> map_of (hd_cached h) i
       | Some e \<Rightarrow> if cacheable e then Some e else map_of (hd_cached h) i)"
proof -
  have "keeps_page h h' \<and> (remembered pg viewer h \<longrightarrow> remembered pg viewer h') \<and>
    map_of (hd_cached h') i = (case map_of es i of None \<Rightarrow> map_of (hd_cached h) i
       | Some e \<Rightarrow> if cacheable e then Some e else map_of (hd_cached h) i)"
    using assms(2-)
  proof (induction es arbitrary: h)
    case (Cons p es)
    let ?h = "sync_entry pg p h"
    have k: "keeps_page h ?h" by (simp add: sync_entry_def keeps_page_def)
    have r: "remembered pg viewer h \<longrightarrow> remembered pg viewer ?h"
    proof
      assume r: "remembered pg viewer h"
      show "remembered pg viewer ?h"
        unfolding remembered_def
      proof (intro allI impI)
        fix j e
        assume j: "map_of (hd_cached ?h) j = Some e"
        show "key_id (en_key e) = j \<and> (case viewer of None \<Rightarrow> True | Some v \<Rightarrow> on_its_way pg v ?h j e)"
        proof (cases "map_of (hd_cached h) j = Some e")
          case True
          then have "key_id (en_key e) = j \<and> (case viewer of None \<Rightarrow> True | Some v \<Rightarrow> on_its_way pg v h j e)"
            using r by (auto simp: remembered_def)
          then show ?thesis by (auto simp: on_its_way_def sync_entry_def split: option.splits)
        next
          case False
          then have "j = fst p" "e = snd p" "fst p \<in> set (hd_cache_timers ?h)"
            using j by (auto simp: sync_entry_def AList.update_conv' split: if_splits option.splits)
          then show ?thesis using Cons.prems(2) by (auto simp: on_its_way_def split: option.split)
        qed
      qed
    qed
    have c: "map_of (hd_cached ?h) i = (if i = fst p \<and> cacheable (snd p) then Some (snd p) else map_of (hd_cached h) i)"
      using assms(1) by (auto simp: sync_entry_def same_objects_def AList.update_conv' split: option.splits)
    have ih: "keeps_page ?h h' \<and> (remembered pg viewer ?h \<longrightarrow> remembered pg viewer h') \<and>
      map_of (hd_cached h') i = (case map_of es i of None \<Rightarrow> map_of (hd_cached ?h) i
       | Some e \<Rightarrow> if cacheable e then Some e else map_of (hd_cached ?h) i)"
      by (rule Cons.IH) (use Cons.prems in simp_all)
    moreover have "map_of es (fst p) = None" using Cons.prems(1) by (simp add: map_of_eq_None_iff)
    ultimately show ?case
      using keeps_page_trans [OF k] r c by (cases p) (auto split: option.splits)
  qed simp
  then show "keeps_page h h'" "remembered pg viewer h \<Longrightarrow> remembered pg viewer h'"
    "map_of (hd_cached h') i = (case map_of es i of None \<Rightarrow> map_of (hd_cached h) i
       | Some e \<Rightarrow> if cacheable e then Some e else map_of (hd_cached h) i)" by blast+
qed


lemma mirror_disposed [simp]: "hd_disposed (mirror_active pg before h) = hd_disposed h"
  using mirror_keeps(1) [of h pg before] by (simp add: keeps_page_def)

lemma holds_some: "holds_cache (Some e) = cacheable e" "\<not> holds_cache None"
  by (simp_all add: holds_cache_def cacheable_def)

text \<open>What \<open>sync\<close> restores, given that every remembered entry still holds unacknowledged words.\<close>

lemma sync_ok:
  assumes "same_objects pg" "well_stored (hd_drafts h)" "calls_ok (hd_queue h)" "beats_ok (hd_beats h)"
    and "pred_option plain_viewer (st_viewer (hd_drafts h))" "remembered pg (st_viewer (hd_drafts h)) h"
    and "\<And>i e. map_of (hd_cached h) i = Some e \<Longrightarrow> holds_cache (store_entry (hd_drafts h) i)" "\<not> hd_disposed h"
  shows "page_ok pg (fst (sync_page pg before h))" "hd_drafts (fst (sync_page pg before h)) = hd_drafts h"
    "hd_disposed (fst (sync_page pg before h)) = hd_disposed h"
proof -
  define he where "he = fold (sync_entry pg) (st_entries (hd_drafts h)) h"
  define h1 where "h1 = mirror_active pg before he"
  have w: "distinct (map fst (st_entries (hd_drafts h)))" "\<forall>p\<in>set (st_entries (hd_drafts h)). key_id (en_key (snd p)) = fst p"
    using assms(2) by (auto simp: well_stored_def)
  have se: "keeps_page h he" "remembered pg (st_viewer (hd_drafts h)) he"
    "\<And>i. map_of (hd_cached he) i = (case store_entry (hd_drafts h) i of None \<Rightarrow> map_of (hd_cached h) i
       | Some e \<Rightarrow> if cacheable e then Some e else map_of (hd_cached h) i)"
    using sync_entries [OF assms(1) w he_def] assms(6) by (simp_all add: store_entry_def)
  have k1: "keeps_page h h1" using keeps_page_trans [OF se(1) mirror_keeps(1)] by (simp add: h1_def)
  have d: "hd_drafts h1 = hd_drafts h" "hd_surface h1 = hd_surface h" "hd_disposed h1 = hd_disposed h"
    "calls_ok (hd_queue h1)" "beats_ok (hd_beats h1)" "hd_drafts he = hd_drafts h"
    using k1 se(1) assms(3,4) by (simp_all add: keeps_page_def)
  have r1: "remembered pg (st_viewer (hd_drafts h)) h1"
    using mirror_remembered [of he pg before] assms(5) se(2) d(6) by (simp add: h1_def option.pred_set)
  have c1: "hd_cached h1 = hd_cached he" using mirror_keeps(2) by (simp add: h1_def)
  obtain q os where q: "pump_all (st_page_org (hd_drafts h1)) (hd_queue h1) = (q, os :: (draft_call, call_answer) queue_output list)"
    by fastforce
  have s: "fst (sync_page pg before h) = h1\<lparr>hd_beats := sync_beats (granted_claims (hd_drafts h1)) (hd_beats h1),
      hd_poll := poll_ms (hd_surface h1) (hd_drafts h1), hd_queue := q\<rparr>"
    using assms(8) q by (simp add: sync_page_def on_queue_def Let_def h1_def he_def)
  have b: "beating (granted_claims (hd_drafts h1)) (sync_beats (granted_claims (hd_drafts h1)) (hd_beats h1))"
    using sync_beats_beating(1) d(5) by (simp add: beats_ok_def)
  have step: "cache_in_step h1"
    unfolding cache_in_step_def c1 d(1)
  proof (intro allI)
    fix i e
    have "holds_cache (store_entry (hd_drafts h) i)" if "map_of (hd_cached h) i = Some x" for x using assms(7) that by blast
    then show "map_of (hd_cached he) i = Some e \<longleftrightarrow> store_entry (hd_drafts h) i = Some e \<and> cacheable e"
      by (cases "store_entry (hd_drafts h) i"; cases "map_of (hd_cached h) i") (auto simp: se(3) holds_some)
  qed
  have r2: "remembered pg (st_viewer (hd_drafts h)) (fst (sync_page pg before h))"
    using remembered_keeps [of h1 "fst (sync_page pg before h)"] r1 unfolding s by (simp add: keeps_cache_def)
  have "cache_in_step (fst (sync_page pg before h))" using step unfolding s by (simp add: cache_in_step_def)
  then show "page_ok pg (fst (sync_page pg before h))"
    using r2 unfolding page_ok_def s using b calls_ok_pump_all [OF d(4) q] assms(2,5) d(1) beating_ok [OF b] by simp
  show "hd_drafts (fst (sync_page pg before h)) = hd_drafts h" "hd_disposed (fst (sync_page pg before h)) = hd_disposed h"
    unfolding s using d by simp_all
qed

end
