(* ===== verification/Draft_Page_Runs.thy ===== *)
theory Draft_Page_Runs
  imports Draft_Page_Laws
begin

text \<open>
  What the effects layer keeps over every run: the heartbeats, the poll and the queue stay in step with
  the reducer's state, and every unacknowledged word is on its way to the cache, from where a reload
  reads it back.
\<close>

section \<open>Dispatch\<close>

definition plain_change :: "store_event \<Rightarrow> bool" where
  "plain_change ev \<longleftrightarrow> (\<forall>v. ev = StViewerChange (Some v) \<longrightarrow> plain_viewer v)"

lemma dispatch_ok:
  assumes "same_objects pg" "page_ok pg h" "plain_change ev"
  shows "page_ok pg (fst (dispatch pg ev h)) \<and> hd_disposed (fst (dispatch pg ev h)) = hd_disposed h"
proof (cases "hd_disposed h")
  case True
  then show ?thesis using assms(2) by (simp add: dispatch_def)
next
  case False
  obtain s fx where r: "reduce_store (hd_drafts h) ev (page_env pg h) = (s, fx)" by fastforce
  define h0 where "h0 = h\<lparr>hd_drafts := s, hd_clock := hd_clock h + 1\<rparr>"
  obtain t h1 o1 where e: "run_effects no_dispatch pg fx h0 = (t, h1, o1)" using prod_cases3 by blast
  have c: "filter hasty fx = []" using reduction_unhurried [of "hd_drafts h" ev "page_env pg h"] r by simp
  have ok: "well_stored (hd_drafts h)" "calls_ok (hd_queue h)" "beats_ok (hd_beats h)" "cache_in_step h"
    "remembered pg (st_viewer (hd_drafts h)) h" "pred_option plain_viewer (st_viewer (hd_drafts h))"
    using assms(2) False by (simp_all add: page_ok_def)
  have k: "keeps_page h0 h1" "remembered pg (st_viewer s) h0 \<longrightarrow> remembered pg (st_viewer s) h1"
    "\<And>i e. map_of (hd_cached h1) i = Some e \<Longrightarrow>
      map_of (hd_cached h0) i = Some e \<and> SfDraft EfCacheClear \<notin> set fx \<and> (\<forall>k. SfDraft (EfCacheRemove k) \<in> set fx \<longrightarrow> key_id k \<noteq> i)"
    "SfDraft EfCacheClear \<in> set fx \<longrightarrow> remembered pg (st_viewer s) h1"
    using run_effects_keep [OF c, of h1 pg h0] e by (simp_all add: h0_def)
  have s: "well_stored s" "drops (hd_drafts h) s fx"
    using well_stored_reduce [OF ok(1), of ev "page_env pg h"] reduction_drops [OF ok(1), of ev "page_env pg h"] r by simp_all
  have v: "st_viewer s = st_viewer (hd_drafts h) \<or> (\<exists>v. ev = StViewerChange v \<and> st_viewer s = v \<and> SfDraft EfCacheClear \<in> set fx)"
    using viewer_change_clears [of "hd_drafts h" ev "page_env pg h"] r by simp
  have r0: "remembered pg viewer h0 = remembered pg viewer h" for viewer 
    by (rule remembered_keeps) (simp add: h0_def keeps_cache_def)
  have rem: "remembered pg (st_viewer s) h1" using v k(2,4) r0 ok(5) by auto
  have plain: "pred_option plain_viewer (st_viewer s)"
    using v ok(6) assms(3) by (auto simp: plain_change_def option.pred_set)
  have d1: "hd_drafts h1 = s" "calls_ok (hd_queue h1)" "beats_ok (hd_beats h1)" "\<not> hd_disposed h1"
    using k(1) ok(2,3) False by (simp_all add: keeps_page_def h0_def)
  have live: "holds_cache (store_entry (hd_drafts h1) i)" if "map_of (hd_cached h1) i = Some e" for i e
  proof -
    note n = k(3) [OF that]
    have "store_entry (hd_drafts h) i = Some e \<and> cacheable e" using n ok(4) by (simp add: h0_def cache_in_step_def)
    then have "holds_cache (store_entry (hd_drafts h) i)" by (simp add: holds_some)
    then show ?thesis using s(2) n d1(1) unfolding drops_def by blast
  qed
  have "page_ok pg (fst (sync_page pg (hd_drafts h) h1)) \<and> hd_disposed (fst (sync_page pg (hd_drafts h) h1)) = hd_disposed h1"
    using sync_ok [OF assms(1), of h1] s(1) d1 plain rem live by blast
  moreover have "fst (dispatch pg ev h) = fst (sync_page pg (hd_drafts h) h1)"
    using dispatch_in_steps [OF False r e [unfolded h0_def]] by (simp add: dispatch_def case_prod_unfold del: dispatch_in.simps)
  ultimately show ?thesis using d1(4) False by simp
qed

lemma dispatch_key_ok:
  "same_objects pg \<Longrightarrow> page_ok pg h \<Longrightarrow>
   page_ok pg (fst (dispatch_key pg k ev h)) \<and> hd_disposed (fst (dispatch_key pg k ev h)) = hd_disposed h"
  by (simp add: dispatch_key_def dispatch_ok plain_change_def)

section \<open>Every operation keeps the invariant\<close>

lemma page_ok_keeps: "page_ok pg h \<Longrightarrow> keeps_page h h' \<Longrightarrow> keeps_cache h h' \<Longrightarrow> hd_beats h' = hd_beats h \<Longrightarrow> page_ok pg h'"
  using remembered_keeps [of h h'] by (simp add: page_ok_def keeps_page_def keeps_cache_def cache_in_step_def)

lemma page_ok_queue: "page_ok pg h \<Longrightarrow> calls_ok q \<Longrightarrow> page_ok pg (h\<lparr>hd_queue := q\<rparr>)"
  by (rule page_ok_keeps) (simp_all add: keeps_page_def keeps_cache_def)

lemma page_ok_calls: "page_ok pg h \<Longrightarrow> calls_ok (hd_queue h)"
  by (simp add: page_ok_def)

lemma each_step_ok:
  "(\<And>x h. page_ok pg h \<Longrightarrow> page_ok pg (fst (f x h)) \<and> hd_disposed (fst (f x h)) = hd_disposed h) \<Longrightarrow> page_ok pg h \<Longrightarrow>
   page_ok pg (fst (each_step f xs h)) \<and> hd_disposed (fst (each_step f xs h)) = hd_disposed h"
proof (induction xs arbitrary: h)
  case (Cons x xs)
  then have "page_ok pg (fst (f x h))" "hd_disposed (fst (f x h)) = hd_disposed h" by blast+
  moreover have "page_ok pg (fst (each_step f xs (fst (f x h)))) \<and> hd_disposed (fst (each_step f xs (fst (f x h)))) = hd_disposed (fst (f x h))"
    using Cons.IH Cons.prems(1) calculation(1) by blast
  ultimately show ?case by (simp add: seq_steps_def case_prod_unfold)
qed simp

lemma write_cache_fields:
  "hd_drafts (write_cache pg i h) = hd_drafts h" "hd_queue (write_cache pg i h) = hd_queue h" "hd_beats (write_cache pg i h) = hd_beats h"
  "hd_surface (write_cache pg i h) = hd_surface h" "hd_poll (write_cache pg i h) = hd_poll h"
  "hd_disposed (write_cache pg i h) = hd_disposed h" "hd_cached (write_cache pg i h) = hd_cached h"
  "hd_cache_timers (write_cache pg i h) = removeAll i (hd_cache_timers h)"
  by (simp_all add: write_cache_def Let_def case_prod_unfold split: option.split)

lemma write_cache_on_way:
  assumes "st_viewer (hd_drafts h) = Some v" "cache_in_step h" "remembered pg (Some v) h" "map_of (hd_cached h) j = Some e"
  shows "on_its_way pg v (write_cache pg i h) j e"
proof -
  have j: "key_id (en_key e) = j" "on_its_way pg v h j e" "store_entry (hd_drafts h) j = Some e" "cacheable e"
    using assms(2-4) by (auto simp: remembered_def cache_in_step_def)
  show ?thesis
  proof (cases "store_entry (hd_drafts h) i = None \<or> (\<exists>e'. store_entry (hd_drafts h) i = Some e' \<and> \<not> cacheable e')")
    case True
    then have "j \<noteq> i" "write_cache pg i h = h\<lparr>hd_cache_timers := removeAll i (hd_cache_timers h)\<rparr>"
      using j(3,4) by (auto simp: write_cache_def Let_def split: option.split)
    then show ?thesis using j(2) by (simp add: on_its_way_def)
  next
    case False
    then obtain e' where e': "store_entry (hd_drafts h) i = Some e'" "cacheable e'"
      by (cases "store_entry (hd_drafts h) i") auto
    then have i: "key_id (en_key e') = i"
      using assms(2,3) by (auto simp: remembered_def cache_in_step_def)
    show ?thesis
    proof (cases rule: write_item_cases [of "pg_browser pg (hd_clock h)" "pg_json pg" v e' "hd_storage h"])
      case refused
      then show ?thesis using e' assms(1) j(2) by (auto simp: write_cache_def on_its_way_def Let_def)
    next
      case (written used)
      then have s: "hd_storage (write_cache pg i h) = AList.update (item_key v (en_key e')) (pg_json pg (item_of e')) (hd_storage h)"
        "hd_uncached (write_cache pg i h) = removeAll i (hd_uncached h)"
        using e' assms(1) by (simp_all add: write_cache_def Let_def)
      show ?thesis
      proof (cases "j = i")
        case True
        then show ?thesis using e'(1) j(3) by (simp add: on_its_way_def s AList.update_conv')
      next
        case False
        then have "item_key v (en_key e) \<noteq> item_key v (en_key e')" using i j(1) by (simp add: item_key_inj)
        then show ?thesis using j(2) False by (auto simp: on_its_way_def s write_cache_fields AList.update_conv')
      qed
    qed
  qed
qed

lemma write_cache_ok: "page_ok pg h \<Longrightarrow> page_ok pg (write_cache pg i h)"
proof -
  assume ok: "page_ok pg h"
  have "remembered pg (st_viewer (hd_drafts h)) (write_cache pg i h)" if "\<not> hd_disposed h"
  proof (cases "st_viewer (hd_drafts h)")
    case None
    then show ?thesis using ok that by (simp add: page_ok_def remembered_def write_cache_fields)
  next
    case (Some v)
    then have c: "cache_in_step h" "remembered pg (Some v) h" using ok that by (simp_all add: page_ok_def)
    show ?thesis
      unfolding Some using write_cache_on_way [OF Some c] c(2) by (simp add: remembered_def write_cache_fields)
  qed
  then show ?thesis
    using ok by (simp add: page_ok_def write_cache_fields cache_in_step_def)
qed

lemma flush_cache_ok: "page_ok pg h \<Longrightarrow> page_ok pg (flush_cache pg h)"
proof -
  have "page_ok pg h \<Longrightarrow> page_ok pg (fold (write_cache pg) is' h)" for is'
    by (induction is' arbitrary: h) (simp_all add: write_cache_ok)
  then show "page_ok pg h \<Longrightarrow> page_ok pg (flush_cache pg h)" by (simp add: flush_cache_def)
qed

lemma load_ok:
  assumes "same_objects pg" "page_ok pg h"
  shows "page_ok pg (fst (load_scope pg scope h))"
proof -
  have d: "page_ok pg (fst (dispatch pg (StScopeChange scope) h'))" if "page_ok pg h'" for h'
    using dispatch_ok [OF assms(1) that] by (simp add: plain_change_def)
  show ?thesis
  proof (cases "st_viewer (hd_drafts h)")
    case None
    then show ?thesis using d [OF assms(2)] by (simp add: load_scope_def)
  next
    case (Some v)
    let ?s = "purge_for_load (pg_browser pg (hd_clock h)) v (hd_storage h)"
    have keep: "map_of ?s (item_key v k) = map_of (hd_storage h) (item_key v k)" for k
      using own_item_kept by (simp add: purge_for_load_def drop_names_keeps)
    have "page_ok pg (h\<lparr>hd_storage := ?s, hd_clock := c, hd_restore := r\<rparr>)" for c r
      using assms(2) Some by (simp add: page_ok_def cache_in_step_def remembered_def on_its_way_def keep)
    then show ?thesis using d Some by (simp add: load_scope_def Let_def)
  qed
qed

lemma surface_ok:
  assumes "same_objects pg" "page_ok pg h"
  shows "page_ok pg (fst (set_surface_open pg open' h))"
proof (cases "hd_disposed h")
  case True
  then show ?thesis using assms(2) by (simp add: set_surface_open_def sync_page_def page_ok_def)
next
  case False
  let ?h = "h\<lparr>hd_surface := open'\<rparr>"
  have k: "remembered pg viewer ?h = remembered pg viewer h" for viewer by (rule remembered_keeps) (simp add: keeps_cache_def)
  have live: "holds_cache (store_entry (hd_drafts ?h) i)" if "map_of (hd_cached ?h) i = Some e" for i e
  proof -
    have "store_entry (hd_drafts h) i = Some e \<and> cacheable e" using that assms(2) False by (simp add: page_ok_def cache_in_step_def)
    then show ?thesis by (simp add: holds_some)
  qed
  have "page_ok pg (fst (sync_page pg (hd_drafts h) ?h))"
    by (rule sync_ok(1) [OF assms(1) _ _ _ _ _ live]) (use assms(2) False k in \<open>simp_all add: page_ok_def\<close>)
  then show ?thesis by (simp add: set_surface_open_def)
qed


lemma list_current_ok: "page_ok pg h \<Longrightarrow> page_ok pg (fst (list_current h))"
proof -
  assume ok: "page_ok pg h"
  have "page_ok pg (fst (list_scope scope g h))" for scope g
    by (rule page_ok_keeps [OF ok]) (use list_scope_keeps in \<open>auto simp: list_scope_def Let_def\<close>)
  then show ?thesis using ok by (simp add: list_current_def split: option.split)
qed

lemma on_queue_ok:
  assumes "page_ok pg h"
    and "\<And>q' os. f (st_page_org (hd_drafts h)) (hd_queue h) = (q', os :: (draft_call, call_answer) queue_output list) \<Longrightarrow> calls_ok q'"
  shows "page_ok pg (fst (on_queue f h))"
proof -
  obtain q os where q: "f (st_page_org (hd_drafts h)) (hd_queue h) = (q, os)" by fastforce
  then show ?thesis using page_ok_queue [OF assms(1)] assms(2) by (simp add: on_queue_def)
qed

lemma hand_back_ok:
  "same_objects pg \<Longrightarrow> page_ok pg h \<Longrightarrow> page_ok pg (fst (hand_back pg x h)) \<and> hd_disposed (fst (hand_back pg x h)) = hd_disposed h"
  by (cases x) (auto simp: dispatch_key_ok split: option.split)

lemma settle_call_ok:
  assumes "same_objects pg" "page_ok pg h" "\<And>q q' os. calls_ok q \<Longrightarrow> f q = (q', os) \<Longrightarrow> calls_ok q'"
  shows "page_ok pg (fst (settle_call pg n f h))"
proof (cases "List.find (\<lambda>g. fl_seq g = n) (qu_flights (hd_queue h))")
  case None
  then show ?thesis using assms(2) by (simp add: settle_call_def)
next
  case (Some g)
  obtain q os where q: "f (hd_queue h) = (q, os)" by fastforce
  have "calls_ok q" using assms(3) [OF page_ok_calls [OF assms(2)] q] .
  then have s0: "page_ok pg (h\<lparr>hd_queue := q\<rparr>)" by (rule page_ok_queue [OF assms(2)])
  have s: "page_ok pg (fst (each_step (hand_back pg) os (h\<lparr>hd_queue := q\<rparr>)))"
    by (rule each_step_ok [THEN conjunct1, OF hand_back_ok [OF assms(1)] s0])
  have "page_ok pg (fst (on_queue (\<lambda>org. pump org (fl_lane_id g)) (fst (each_step (hand_back pg) os (h\<lparr>hd_queue := q\<rparr>)))))"
    by (rule on_queue_ok [OF s]) (rule calls_ok_pump [OF page_ok_calls [OF s]])
  then show ?thesis using Some q by (simp add: settle_call_def seq_steps_def case_prod_unfold)
qed

lemma list_answered_ok:
  assumes "same_objects pg" "page_ok pg h"
  shows "page_ok pg (fst (list_answered pg n r h))"
proof -
  have "page_ok pg (h\<lparr>hd_lists := l\<rparr>)" "page_ok pg (h\<lparr>hd_lists := l, hd_listed_org := o', hd_restore := cs\<rparr>)" for l o' cs
    by (rule page_ok_keeps [OF assms(2)]; simp add: keeps_page_def keeps_cache_def)+
  then show ?thesis
    using dispatch_ok [OF assms(1)] assms(2) by (auto simp: list_answered_def Let_def plain_change_def split: option.split)
qed

lemma timer_ok:
  assumes "same_objects pg" "page_ok pg h"
  shows "page_ok pg (fst (timer_fired pg name h))"
proof -
  have t: "page_ok pg (h\<lparr>hd_timers := AList.delete name (hd_timers h)\<rparr>)" (is "page_ok pg ?h")
    by (rule page_ok_keeps [OF assms(2)]) (simp_all add: keeps_page_def keeps_cache_def)
  have "hd_beats (fst (write_call c ?h)) = hd_beats ?h" for c by (simp add: write_call_def on_queue_def case_prod_unfold)
  then have "page_ok pg (fst (write_call c ?h))" for c
    by (intro page_ok_keeps [OF t write_call_keeps [THEN conjunct1] write_call_keeps [THEN conjunct2]])
  then show ?thesis
    using assms(2) dispatch_ok [OF assms(1) t]
    by (auto simp: timer_fired_def run_job_def plain_change_def split: option.split timer_job.split)
qed

lemma beats_ok_answered: "beats_ok b \<Longrightarrow> beats_ok (fst (beat_answered c a b))"
proof -
  assume b: "beats_ok b"
  have "fst ` set (AList.delete t (ch_timers b)) = fst ` set (ch_timers b) - {t}" for t
    by (metis AList.delete_keys list.set_map set_removeAll)
  then show ?thesis using b by (cases a) (auto simp: beats_ok_def beat_answered_def AList.distinct_delete)
qed

lemma beat_ok:
  assumes "same_objects pg" "page_ok pg h"
  shows "page_ok pg (fst (beat_came_back pg c a h))"
proof -
  obtain b r where b: "beat_answered c a (hd_beats h) = (b, r)" by fastforce
  have "beats_ok b" using beats_ok_answered [of "hd_beats h" c a] assms(2) b by (simp add: page_ok_def)
  moreover have "\<not> hd_disposed h \<Longrightarrow> beating (granted_claims (hd_drafts h)) b"
    using beating_answered [of "granted_claims (hd_drafts h)" "hd_beats h" c a] assms(2) b by (simp add: page_ok_def)
  moreover have "remembered pg viewer (h\<lparr>hd_beats := b\<rparr>) = remembered pg viewer h" for viewer
    by (rule remembered_keeps) (simp add: keeps_cache_def)
  ultimately have "page_ok pg (h\<lparr>hd_beats := b\<rparr>)" using assms(2) by (simp add: page_ok_def cache_in_step_def)
  then show ?thesis using b dispatch_key_ok [OF assms(1)] by (auto simp: beat_came_back_def split: option.split)
qed

lemma dispose_ok: "page_ok pg h \<Longrightarrow> page_ok pg (fst (dispose h))"
  by (simp add: dispose_def page_ok_def calls_ok_clear beats_ok_stop)

section \<open>Runs\<close>

text \<open>Viewers are set to ids without a colon.\<close>

fun plain_event :: "page_event \<Rightarrow> bool" where
  "plain_event (PeDispatch (StViewerChange (Some v))) \<longleftrightarrow> plain_viewer v"
| "plain_event _ \<longleftrightarrow> True"

lemma plain_dispatch: "plain_event (PeDispatch ev) \<longleftrightarrow> plain_change ev"
  by (cases "PeDispatch ev" rule: plain_event.cases) (simp_all add: plain_change_def)

lemma page_step_ok:
  assumes "same_objects pg" "page_ok pg h" "plain_event ev"
  shows "page_ok pg (fst (page_step pg ev h))"
proof (cases ev)
  case (PeDispatch sev)
  then show ?thesis using dispatch_ok [OF assms(1,2)] assms(3) plain_dispatch by simp
next
  case PeHidden
  have "page_ok pg (fst (each_step (\<lambda>e. dispatch_key pg (en_key e) (KeyDraft (EvSaveTrigger TrHidden))) es h))" for es
    by (rule each_step_ok [THEN conjunct1, OF dispatch_key_ok [OF assms(1)] assms(2)])
  then have "page_ok pg (flush_cache pg (fst (each_step (\<lambda>e. dispatch_key pg (en_key e) (KeyDraft (EvSaveTrigger TrHidden))) es h)))" for es
    by (rule flush_cache_ok)
  then show ?thesis using PeHidden by (simp add: became_hidden_def case_prod_unfold)
next
  case PeOnline
  have "page_ok pg (fst (each_step (\<lambda>e. dispatch_key pg (en_key e) (KeyDraft (EvSaveTrigger TrOnline))) es h))" for es
    by (rule each_step_ok [THEN conjunct1, OF dispatch_key_ok [OF assms(1)] assms(2)])
  then show ?thesis using PeOnline by (simp add: came_online_def)
next
  case (PeAck ids)
  have "page_ok pg (h\<lparr>hd_notices := l\<rparr>)" for l
    by (rule page_ok_keeps [OF assms(2)]) (simp_all add: keeps_page_def keeps_cache_def)
  then show ?thesis using PeAck by (simp add: ack_notices_def)
next
  case (PeSettled n r)
  have "page_ok pg (fst (settle_call pg n (settle_flight n r) h))"
    by (rule settle_call_ok [OF assms(1,2)]) (rule calls_ok_settle)
  then show ?thesis using PeSettled by simp
next
  case (PeTimedOut n)
  have "page_ok pg (fst (settle_call pg n (time_out n) h))"
    by (rule settle_call_ok [OF assms(1,2)]) (rule calls_ok_time_out)
  then show ?thesis using PeTimedOut assms(2) by (simp add: call_timed_out_def)
next
  case (PeCacheTimer i)
  then show ?thesis using assms(2) write_cache_ok by (simp add: cache_timer_fired_def)
qed (use assms in \<open>simp_all add: load_ok surface_ok list_current_ok flush_cache_ok dispose_ok list_answered_ok timer_ok beat_ok\<close>)

lemma page_run_ok:
  "same_objects pg \<Longrightarrow> list_all plain_event evs \<Longrightarrow> page_ok pg h \<Longrightarrow> page_ok pg (fst (page_run pg evs h))"
proof (induction evs arbitrary: h)
  case (Cons ev evs)
  then show ?case using page_step_ok [OF Cons.prems(1,3)] by (simp add: seq_steps_def case_prod_unfold)
qed simp

lemma fresh_page_ok: "pred_option plain_viewer viewer \<Longrightarrow> page_ok pg (fresh_handle viewer storage)"
proof -
  have i: "st_entries (initial_drafts_store viewer) = []" "st_viewer (initial_drafts_store viewer) = viewer"
    "st_scope (initial_drafts_store viewer) = None"
    by (simp_all add: initial_drafts_store_def initial_drafts_state_def drafts_state.extend_def)
  have "calls_ok empty_queue"
    using refines_empty refinesD(1) by (auto simp: calls_ok_def held_writes_def empty_queue_def)
  then show "pred_option plain_viewer viewer \<Longrightarrow> page_ok pg (fresh_handle viewer storage)"
    by (simp add: page_ok_def fresh_handle_def i well_stored_def beats_ok_def no_heartbeats_def beating_def granted_claims_def
        poll_ms_def cache_in_step_def remembered_def store_entry_def)
qed

section \<open>In step\<close>

lemma distinct_by_count: "(\<And>a. length (filter (\<lambda>x. f x = a) xs) \<le> 1) \<Longrightarrow> distinct (map f xs)"
proof (induction xs)
  case (Cons x xs)
  have "length (filter (\<lambda>y. f y = a) xs) \<le> 1" for a using Cons.prems [of a] by (simp split: if_splits)
  moreover have "filter (\<lambda>y. f y = f x) xs = []" using Cons.prems [of "f x"] by simp
  ultimately show ?case using Cons.IH by (auto simp: filter_empty_conv)
qed simp

lemma filter_shorter: "(\<And>x. P x \<Longrightarrow> Q x) \<Longrightarrow> length (filter P xs) \<le> length (filter Q xs)"
  by (induction xs) (auto simp: le_SucI)

lemma outstanding_once:
  assumes "calls_ok q"
  shows "distinct (map (\<lambda>p. key_id (call_key (qw_write (snd (snd p))))) (outstanding q))"
proof -
  have "length (filter (\<lambda>f. fl_lane_id f = i) (filter (kept q) (qu_flights q))) \<le> 1" for i
  proof (cases "map_of (qu_lanes q) i")
    case (Some l)
    have "length (filter (\<lambda>f. kept q f \<and> fl_lane_id f = i) (qu_flights q)) \<le> length (flights_of l q)"
      unfolding flights_of_def by (rule filter_shorter) (use Some in \<open>auto simp: kept_def\<close>)
    also have "\<dots> \<le> 1" using assms busyD [of q l] by (simp add: calls_ok_def queue_ok_def)
    finally show ?thesis by (simp add: conj_commute)
  next
    case None
    then have "filter (\<lambda>f. fl_lane_id f = i) (filter (kept q) (qu_flights q)) = []"
      by (auto simp: kept_def filter_empty_conv)
    then show ?thesis by simp
  qed
  then have "distinct (map fl_lane_id (filter (kept q) (qu_flights q)))" by (rule distinct_by_count)
  moreover have "fl_lane_id f = key_id (call_key (qw_write (fl_write f)))" if "f \<in> set (qu_flights q)" for f
    using assms held_flight [OF that] by (force simp: calls_ok_def own_lane_def)
  then have "map fl_lane_id (filter (kept q) (qu_flights q)) =
      map (\<lambda>p. key_id (call_key (qw_write (snd (snd p))))) (outstanding q)"
    by (simp add: outstanding_def)
  ultimately show ?thesis by simp
qed

text \<open>
  C31. The heartbeats, the poll and the requests are in step with the state. After every run of a tab,
  whatever the transport answers and the browser throws: a heartbeat timer runs for exactly the granted
  claims, but those a 401 or 403 stopped, and once per token; the list poll is exactly the one the
  state prescribes (none without a scope or an open surface, every ten seconds while another tab claims a
  draft of the scope, else every minute); and at most one call per key is awaited.
\<close>

theorem page_in_step:
  assumes "same_objects pg" "pred_option plain_viewer viewer" "list_all plain_event evs"
    and "h = fst (page_run pg evs (fresh_handle viewer storage))" "\<not> hd_disposed h"
  shows "fst ` set (ch_timers (hd_beats h)) = gc_token ` set (granted_claims (hd_drafts h)) - set (ch_stopped (hd_beats h)) \<and>
    distinct (map fst (ch_timers (hd_beats h))) \<and> hd_poll h = poll_ms (hd_surface h) (hd_drafts h) \<and>
    distinct (map (\<lambda>p. key_id (call_key (qw_write (snd (snd p))))) (outstanding (hd_queue h)))"
proof -
  have ok: "page_ok pg h" unfolding assms(4) by (rule page_run_ok [OF assms(1,3) fresh_page_ok [OF assms(2)]])
  then show ?thesis using assms(5) outstanding_once by (simp add: page_ok_def beating_def)
qed

section \<open>On the way to the cache\<close>

definition cached_exactly :: "drafts_page \<Rightarrow> handle \<Rightarrow> string \<Rightarrow> draft_entry \<Rightarrow> bool" where
  "cached_exactly pg h v e \<longleftrightarrow> map_of (hd_storage h) (item_key v (en_key e)) = Some (pg_json pg (item_of e))"

lemma flush_fields:
  "hd_drafts (flush_cache pg h) = hd_drafts h" "hd_disposed (flush_cache pg h) = hd_disposed h" "hd_cache_timers (flush_cache pg h) = []"
proof -
  have "hd_drafts (fold (write_cache pg) xs h) = hd_drafts h \<and> hd_disposed (fold (write_cache pg) xs h) = hd_disposed h \<and>
      set (hd_cache_timers (fold (write_cache pg) xs h)) = set (hd_cache_timers h) - set xs" for xs
    by (induction xs arbitrary: h) (auto simp: write_cache_fields)
  then show "hd_drafts (flush_cache pg h) = hd_drafts h" "hd_disposed (flush_cache pg h) = hd_disposed h"
    "hd_cache_timers (flush_cache pg h) = []" by (simp_all add: flush_cache_def flip: set_empty)
qed

lemma run_hide: "fst (page_run pg (evs @ [PePageHide]) h) = flush_cache pg (fst (page_run pg evs h))"
  by (induction evs arbitrary: h) (simp_all add: seq_steps_def case_prod_unfold)

lemma on_way_shown:
  assumes "page_ok pg h" "\<not> hd_disposed h" "st_viewer (hd_drafts h) = Some v" "store_entry (hd_drafts h) i = Some e" "cacheable e"
  shows "key_id (en_key e) = i" "i \<in> set (hd_cache_timers h) \<or> select_cache_refused h (en_key e) \<or> cached_exactly pg h v e"
proof -
  have "map_of (hd_cached h) i = Some e" using assms by (simp add: page_ok_def cache_in_step_def)
  then have "key_id (en_key e) = i \<and> on_its_way pg v h i e"
    using assms(1-3) by (auto simp: page_ok_def remembered_def)
  then show "key_id (en_key e) = i" "i \<in> set (hd_cache_timers h) \<or> select_cache_refused h (en_key e) \<or> cached_exactly pg h v e"
    by (auto simp: on_its_way_def select_cache_refused_def cached_exactly_def)
qed

text \<open>
  C29. No unsaved words are left out of the cache. After every run of a tab, every entry of the viewer's
  that has unsaved words, a pending claim, a live send or a failed send to record is waiting for its cache
  timer, or shown as refused by the cache, or stored exactly as it is; and when the page is hidden for
  good, it is stored exactly or shown as refused, whatever the storage threw on the way.
\<close>

theorem unsaved_words_reach_cache:
  assumes "same_objects pg" "pred_option plain_viewer viewer" "list_all plain_event evs"
    and "h = fst (page_run pg evs (fresh_handle viewer storage))" "\<not> hd_disposed h"
    and "st_viewer (hd_drafts h) = Some v" "store_entry (hd_drafts h) i = Some e" "cacheable e"
  shows "(i \<in> set (hd_cache_timers h) \<or> select_cache_refused h (en_key e) \<or> cached_exactly pg h v e) \<and>
    (case fst (page_step pg PePageHide h) of h' \<Rightarrow> select_cache_refused h' (en_key e) \<or> cached_exactly pg h' v e)"
proof -
  have ok: "page_ok pg h" unfolding assms(4) by (rule page_run_ok [OF assms(1,3) fresh_page_ok [OF assms(2)]])
  have "page_ok pg (flush_cache pg h)" by (rule flush_cache_ok [OF ok])
  then show ?thesis
    using on_way_shown(2) [OF ok assms(5-8)] on_way_shown(2) [of pg "flush_cache pg h" v i e] assms(5-8) flush_fields
    by (simp add: flush_fields)
qed

section \<open>Reload\<close>

text \<open>What a scope change at a load leaves of the restored items: all of them.\<close>

lemma load_restores:
  assumes "st_viewer (hd_drafts h) = Some v" "\<not> hd_disposed h"
  shows "map_of (hd_restore (fst (load_scope pg scope h))) (scope_id scope) =
    Some (read_scope (pg_browser pg (hd_clock h + 1)) (read_item (pg_uuid pg) (pg_parse pg)) v scope
      (purge_for_load (pg_browser pg (hd_clock h)) v (hd_storage h)))"
proof -
  have d: "hd_restore (fst (dispatch pg (StScopeChange scope) h')) = hd_restore h'" if "\<not> hd_disposed h'" for h'
  proof -
    obtain s where r: "reduce_store (hd_drafts h') (StScopeChange scope) (page_env pg h') =
        (s, [SfDraft (EfList scope (st_generation (hd_drafts h') + 1))])"
      by (auto simp: through_drafts_def scope_change_def Let_def drafts_state.truncate_def)
    let ?h0 = "h'\<lparr>hd_drafts := s, hd_clock := hd_clock h' + 1\<rparr>"
    obtain h1 o1 where l: "list_scope scope (st_generation (hd_drafts h') + 1) ?h0 = (h1, o1)" by fastforce
    then have e: "run_effects no_dispatch pg [SfDraft (EfList scope (st_generation (hd_drafts h') + 1))] ?h0 = (False, h1, o1)"
      by (simp add: run_effect_def)
    have "hd_restore h1 = hd_restore h'" using l by (auto simp: list_scope_def Let_def split: if_splits)
    moreover have "hd_restore (fold (sync_entry pg) es x) = hd_restore x" for es x
      by (induction es arbitrary: x) (simp_all add: sync_entry_def)
    then have "hd_restore (fst (sync_page pg b x)) = hd_restore x" for b x
      by (simp add: sync_page_def on_queue_def mirror_active_def Let_def case_prod_unfold split: option.split)
    ultimately show ?thesis
      using dispatch_in_steps [OF that r e] by (simp add: dispatch_def case_prod_unfold del: dispatch_in.simps)
  qed
  show ?thesis using assms by (simp add: load_scope_def Let_def d AList.update_conv')
qed

text \<open>
  C30. Hidden and reloaded, unsaved words come back if they pass the item's schema. Whatever a tab went
  through, when its page goes away an entry with unacknowledged words that is not shown as refused by the
  cache is in the storage, and the next load of the viewer and scope hands it to the list's answer (the
  same words, claim, send, base and epoch) exactly when that item passes the schema the cache reads with:
  words past the 100,000-unit cap, or claimed or sent contents the content schema refuses, are written but
  not restored. The conditions are that the printed item parses to itself, that the conversation id is
  non-empty without a colon, and that the storage can be read at the load.
\<close>

theorem reload_restores:
  assumes "same_objects pg" "pred_option plain_viewer viewer" "list_all plain_event evs"
    and "h = fst (page_run pg (evs @ [PePageHide]) (fresh_handle viewer storage))" "\<not> hd_disposed h"
    and "st_viewer (hd_drafts h) = Some v" "store_entry (hd_drafts h) i = Some e" "cacheable e" "\<not> select_cache_refused h (en_key e)"
    and "dk_conversation (en_key e) \<noteq> []" "CHR '':'' \<notin> set (dk_conversation (en_key e))"
    and "pg_parse pg' (pg_json pg (item_of e)) = Some (item_of e)"
    and "reachable (pg_browser pg' 1)" "\<not> br_throws (pg_browser pg' 1) AcNames"
      "\<not> br_throws (pg_browser pg' 1) (AcGet (item_key v (en_key e)))"
  shows "\<exists>cs. map_of (hd_restore (fst (page_step pg' (PeLoad (draft_scope.truncate (en_key e))) (fresh_handle (Some v) (hd_storage h)))))
      (scope_id (en_key e)) = Some cs \<and> (cached_of (en_key e) (item_of e) \<in> set cs \<longleftrightarrow> item_schema (pg_uuid pg') (item_of e))"
proof -
  have plain: "list_all plain_event (evs @ [PePageHide])" using assms(3) by simp
  have ok: "page_ok pg h" unfolding assms(4) by (rule page_run_ok [OF assms(1) plain fresh_page_ok [OF assms(2)]])
  have "hd_cache_timers h = []" unfolding assms(4) by (simp add: run_hide flush_fields)
  then have s: "map_of (hd_storage h) (item_key v (en_key e)) = Some (pg_json pg (item_of e))"
    using on_way_shown(2) [OF ok assms(5-8)] assms(9) by (simp add: cached_exactly_def)
  let ?sc = "draft_scope.truncate (en_key e)"
  let ?rd = "read_item (pg_uuid pg') (pg_parse pg')"
  let ?st = "purge_for_load (pg_browser pg' 0) v (hd_storage h)"
  have f: "st_viewer (hd_drafts (fresh_handle (Some v) t)) = Some v" "\<not> hd_disposed (fresh_handle (Some v) t)"
    "hd_storage (fresh_handle (Some v) t) = t" "hd_clock (fresh_handle (Some v) t) = 0" for t
    by (simp_all add: fresh_handle_def initial_drafts_store_def initial_drafts_state_def drafts_state.extend_def)
  have "map_of ?st (item_key v (en_key e)) = Some (pg_json pg (item_of e))"
    using s own_item_kept by (simp add: purge_for_load_def drop_names_keeps)
  then have "cached_of (en_key e) (item_of e) \<in> set (read_scope (pg_browser pg' 1) ?rd v ?sc ?st) \<longleftrightarrow>
      item_schema (pg_uuid pg') (item_of e)"
    unfolding read_item_iff [of "pg_parse pg'", OF assms(12), symmetric] by (rule stored_item_read [OF _ assms(10,11,13-15)])
  then show ?thesis
    using load_restores [OF f(1,2), of pg' ?sc "hd_storage h"] by (simp add: f scope_id_truncate)
qed

text \<open>
  Such words are within reach: the box takes text of any length, so an edit of a fresh entry past the
  message cap leaves unsaved words that are cached and that no reload hands back.
\<close>

lemma length_to_well_formed: "length (to_well_formed s) = length s"
  by (induction s rule: to_well_formed.induct) simp_all

lemma long_words_not_restored:
  assumes "max_user_message_chars < n" "u \<noteq> 0"
  shows "\<exists>e fx. reduce_edit (new_entry k t) 0 \<lparr>ec_text = replicate n u, ec_mentions = []\<rparr> = (Some e, fx) \<and>
    cacheable e \<and> \<not> item_schema is_uuid (item_of e)"
proof -
  have l: "length (normalize_draft_text (replicate n u)) = n"
    using assms(2) by (simp add: normalize_draft_text_def length_to_well_formed filter_replicate)
  then have ne: "normalize_draft_text (replicate n u) \<noteq> []" using assms(1) by (auto simp: max_user_message_chars_def)
  let ?e = "new_entry k t" and ?c = "\<lparr>ec_text = replicate n u, ec_mentions = []\<rparr>"
  let ?next = "empty_content\<lparr>dc_text := normalize_draft_text (replicate n u)\<rparr>"
  have fresh: "en_epoch ?e = 0" "en_claiming ?e = None" "shown_content ?e = empty_content"
    by (simp_all add: new_entry_def shown_content_def)
  have "edited_local ?e ?next = Some ?next"
    using ne by (simp add: edited_local_def new_entry_def is_empty_content_def)
  moreover have "normalize_editor_content ?c = \<lparr>ec_text = normalize_draft_text (replicate n u), ec_mentions = []\<rparr>"
    by (simp add: normalize_editor_content_def Let_def)
  ultimately obtain e fx where r: "reduce_edit ?e 0 ?c = (Some e, fx)" "en_local e = Some ?next"
    using fresh by (fastforce simp: reduce_edit_def Let_def enter_unsaved_def unchanged_def empty_content_def split: if_splits)
  then have "ci_local (item_of e) = Some (empty_content\<lparr>dc_text := normalize_draft_text (replicate n u)\<rparr>)"
    by (simp add: item_of_def)
  then have "\<not> item_schema is_uuid (item_of e)" by (rule long_words_refused) (simp add: l assms(1))
  then show ?thesis using r by (auto simp: cacheable_def)
qed

section \<open>Concrete runs\<close>

definition sample_page :: drafts_page where
  "sample_page = \<lparr>pg_tab = ''tab1'', pg_now = (\<lambda>_. ''2026-01-02T03:04:05.678Z''), pg_fresh = (\<lambda>_. sample_fresh),
     pg_browser = (\<lambda>_. quiet_browser), pg_json = sample_json, pg_parse = sample_read, pg_uuid = (\<lambda>_. False), pg_same = (\<lambda>_ a b. a = b),
     pg_same_active = (\<lambda>_ a b. a = b)\<rparr>"

definition sample_list :: list_ok where
  "sample_list = \<lparr>lo_org = ''o1'', lo_drafts = [\<lparr>le_row = sample_row 3 ''old'',
     le_thread = \<lparr>dt_status = ThreadNone, dt_first_turn = None, dt_has_turn = False\<rparr>, le_title = None\<rparr>]\<rparr>"

text \<open>The surface opens, the scope loads, a draft is opened and typed into.\<close>

definition sample_run :: "page_event list" where
  "sample_run = [PeSurface True, PeLoad \<lparr>ds_org = ''o1'', ds_project = None\<rparr>, PeDispatch (StOpenNew ''c1''),
     PeDispatch (StEntry sample_draft_key (KeyDraft (EvEdit 0 \<lparr>ec_text = units ''hi'', ec_mentions = []\<rparr>)))]"

definition sample_end :: handle where
  "sample_end = fst (page_run sample_page sample_run (fresh_handle (Some ''v'') []))"

definition sample_hidden :: handle where
  "sample_hidden = fst (page_run sample_page (sample_run @ [PePageHide]) (fresh_handle (Some ''v'') []))"

text \<open>A reader that gives back the texts of this run.\<close>

definition sample_reload :: drafts_page where
  "sample_reload = sample_page\<lparr>pg_parse := (\<lambda>t. Some \<lparr>ci_base = 0, ci_local = Some ((sample_words [])\<lparr>dc_text := t\<rparr>),
     ci_claiming = None, ci_sending = None, ci_abandoned = [], ci_epoch = 0\<rparr>)\<rparr>"

lemma sample_page_plain: "same_objects sample_page" "pred_option plain_viewer (Some ''v'')" "list_all plain_event sample_run"
  by (simp_all add: same_objects_def sample_page_def plain_viewer_def sample_run_def)


text \<open>The entry the user typed into.\<close>

definition sample_typed :: draft_entry where
  "sample_typed = (case store_entry (hd_drafts sample_end) ''o1:org:c1'' of None \<Rightarrow> sample_draft | Some e \<Rightarrow> e)"

definition sample_shape :: "handle \<Rightarrow> bool \<times> string option \<times> bool \<times> int option \<times> string list \<times> string list \<times> items" where
  "sample_shape h = (hd_disposed h, st_viewer (hd_drafts h), Option.is_none (store_entry (hd_drafts h) ''o1:org:c1''), hd_poll h,
     hd_cache_timers h, hd_uncached h, hd_storage h)"

lemma sample_end_shape: "sample_shape sample_end = (False, Some ''v'', False, Some 60000, [''o1:org:c1''], [],
    [(''alethia:elench:v3:active:v:o1:org'', [0x63, 0x31])])"
  by code_simp

lemma sample_end_facts:
  "hd_disposed sample_end = False" "st_viewer (hd_drafts sample_end) = Some ''v''"
  "store_entry (hd_drafts sample_end) ''o1:org:c1'' \<noteq> None" "hd_poll sample_end = Some 60000"
  "hd_cache_timers sample_end = [''o1:org:c1'']" "hd_uncached sample_end = []" "hd_storage sample_end = [(''alethia:elench:v3:active:v:o1:org'', [0x63, 0x31])]"
  using sample_end_shape by (simp_all add: sample_shape_def Option.is_none_def)

lemma sample_typed_shape: "(cacheable sample_typed, key_id (en_key sample_typed), dk_conversation (en_key sample_typed), item_of sample_typed) =
    (True, ''o1:org:c1'', ''c1'', \<lparr>ci_base = 0, ci_local = Some (sample_words ''hi''), ci_claiming = None, ci_sending = None,
      ci_abandoned = [], ci_epoch = 0\<rparr>)"
  by code_simp

lemma sample_typed_facts: "cacheable sample_typed" "key_id (en_key sample_typed) = ''o1:org:c1''"
  "dk_conversation (en_key sample_typed) = ''c1''" "item_of sample_typed = \<lparr>ci_base = 0, ci_local = Some (sample_words ''hi''),
     ci_claiming = None, ci_sending = None, ci_abandoned = [], ci_epoch = 0\<rparr>"
  using sample_typed_shape by simp_all

lemma sample_typed_entry: "store_entry (hd_drafts sample_end) ''o1:org:c1'' = Some sample_typed"
  using sample_end_facts(3) by (auto simp: sample_typed_def)

lemma sample_hidden_flushed: "sample_hidden = flush_cache sample_page sample_end"
  by (simp only: sample_hidden_def sample_end_def run_hide)

lemma sample_hidden_facts:
  "\<not> hd_disposed sample_hidden" "st_viewer (hd_drafts sample_hidden) = Some ''v''"
  "store_entry (hd_drafts sample_hidden) ''o1:org:c1'' = Some sample_typed"
  using sample_end_facts sample_typed_entry by (simp_all add: sample_hidden_flushed flush_fields)

lemma sample_not_refused: "hd_uncached sample_hidden = []"
proof -
  have "fst (write_item quiet_browser sample_json ''v'' sample_typed (hd_storage sample_end))"
    unfolding sample_end_facts
    by (simp add: write_item_def reachable_def quiet_browser_def item_names_def item_key_def sample_typed_facts sample_json_def
        sample_words_def units_def has_prefix_def cache_prefix_def cache_budget_def Let_def)
  then show ?thesis
    using sample_typed_entry sample_end_facts sample_typed_facts(1)
    by (simp add: sample_hidden_flushed flush_cache_def write_cache_def Let_def sample_page_def case_prod_unfold)
qed

theorem page_in_step_witness:
  "hd_poll sample_end = Some 60000 \<and> poll_ms (hd_surface sample_end) (hd_drafts sample_end) = Some 60000 \<and>
   fst ` set (ch_timers (hd_beats sample_end)) =
     gc_token ` set (granted_claims (hd_drafts sample_end)) - set (ch_stopped (hd_beats sample_end))"
  using page_in_step [OF sample_page_plain sample_end_def] sample_end_facts by simp

theorem unsaved_words_reach_cache_witness:
  "''o1:org:c1'' \<in> set (hd_cache_timers sample_end) \<and>
   (case fst (page_step sample_page PePageHide sample_end) of h' \<Rightarrow>
      select_cache_refused h' (en_key sample_typed) \<or> cached_exactly sample_page h' ''v'' sample_typed)"
  using unsaved_words_reach_cache [OF sample_page_plain sample_end_def _ sample_end_facts(2) sample_typed_entry sample_typed_facts(1)]
    sample_end_facts by simp

lemma sample_schema: "item_schema (\<lambda>_. False) (item_of sample_typed)"
  by (simp add: item_schema_def safe_int_def sample_typed_facts sample_words_def content_schema_def distinct_mentions_def
      spans_are_valid_def is_normalized_draft_text_def normalize_draft_text_def units_def high_surrogate_def low_surrogate_def
      max_user_message_chars_def max_draft_mention_spans_def max_draft_distinct_mentions_def max_draft_artifacts_def)

theorem reload_restores_witness:
  "\<exists>cs. map_of (hd_restore (fst (page_step sample_reload (PeLoad (draft_scope.truncate (en_key sample_typed)))
        (fresh_handle (Some ''v'') (hd_storage sample_hidden))))) (scope_id (en_key sample_typed)) = Some cs \<and>
      cached_of (en_key sample_typed) (item_of sample_typed) \<in> set cs"
  using reload_restores [OF sample_page_plain sample_hidden_def sample_hidden_facts sample_typed_facts(1), of sample_reload] sample_schema
  by (simp add: sample_not_refused sample_typed_facts select_cache_refused_def sample_reload_def sample_page_def
       quiet_browser_def reachable_def sample_json_def sample_words_def)

section \<open>What a change of viewer lets through\<close>

text \<open>
  A list asked for under the old viewer and answered after the change is let through: a change of viewer
  keeps the scope and its generation, which is all the answer is checked against. The old viewer's row
  stands in the new viewer's store, and the next list is sent with the old viewer's organization as its hint.
\<close>

definition changed_viewer :: "handle \<times> page_output list" where
  "changed_viewer = page_run sample_page [PeLoad \<lparr>ds_org = ''o1'', ds_project = None\<rparr>, PeDispatch (StViewerChange (Some ''w'')),
     PeListed 1 (Some sample_list), PeFocus] (fresh_handle (Some ''v'') [])"

lemma old_list_enters:
  "st_viewer (hd_drafts (fst changed_viewer)) = Some ''w''"
  "map_option shown_content (store_entry (hd_drafts (fst changed_viewer)) ''o1:org:c1'') = Some (sample_words ''old'')"
  by code_simp+

lemma old_hint_sent: "HoList 2 None (Some ''o1'') \<in> set (snd changed_viewer)"
  by code_simp

end
