(* ===== verification/Net_Address.thy ===== *)
theory Net_Address
  imports Prelude "HOL-Library.Word" "HOL-Library.Code_Target_Nat"
begin

unbundle bit_operations_syntax

text \<open>
  Outbound addresses (lib/net/ssrf-guard.ts): IP literals to bytes, and the classifier that lets only
  public unicast addresses through. \<open>isIPv4\<close> and \<open>isIPv6\<close> are Node's regular expressions, a literal's
  text is a string of ASCII characters, and bytes are natural numbers as JavaScript's are.
\<close>

section \<open>Strings\<close>

text \<open>\<open>s.split(c)\<close> for one character, and \<open>s.split("::")\<close>.\<close>

fun split_at_char :: "char \<Rightarrow> string \<Rightarrow> string list" where
  "split_at_char c [] = [[]]"
| "split_at_char c (x # xs) =
     (if x = c then [] # split_at_char c xs
      else (case split_at_char c xs of [] \<Rightarrow> [[x]] | p # ps \<Rightarrow> (x # p) # ps))"

fun split_double_colon :: "string \<Rightarrow> string list" where
  "split_double_colon [] = [[]]"
| "split_double_colon [x] = [[x]]"
| "split_double_colon (x # y # s) =
     (if x = CHR '':'' \<and> y = CHR '':'' then [] # split_double_colon s
      else (case split_double_colon (y # s) of [] \<Rightarrow> [[x]] | p # ps \<Rightarrow> (x # p) # ps))"

definition is_digit :: "char \<Rightarrow> bool" where
  "is_digit c \<longleftrightarrow> 48 \<le> (of_char c :: nat) \<and> (of_char c :: nat) \<le> 57"

definition hex_value :: "char \<Rightarrow> nat option" where
  "hex_value c =
     (let n = of_char c :: nat
      in if 48 \<le> n \<and> n \<le> 57 then Some (n - 48) else if 97 \<le> n \<and> n \<le> 102 then Some (n - 87)
         else if 65 \<le> n \<and> n \<le> 70 then Some (n - 55) else None)"

definition is_hex :: "char \<Rightarrow> bool" where
  "is_hex c \<longleftrightarrow> hex_value c \<noteq> None"

text \<open>The number a string of digits in a base stands for.\<close>

definition in_base :: "nat \<Rightarrow> string \<Rightarrow> nat" where
  "in_base b s = foldl (\<lambda>n c. b * n + (case hex_value c of None \<Rightarrow> 0 | Some d \<Rightarrow> d)) 0 s"

text \<open>\<open>Number(p)\<close> of a non-empty string of digits (all that reaches it here; \<open>None\<close> is \<open>NaN\<close>).\<close>

definition js_number :: "string \<Rightarrow> nat option" where
  "js_number s = (if s \<noteq> [] \<and> list_all is_digit s then Some (in_base 10 s) else None)"

text \<open>\<open>Number.parseInt(g, 16)\<close>: the longest prefix of hexadecimal digits, after \<open>0x\<close> if it is there.\<close>

definition js_parse_hex :: "string \<Rightarrow> nat option" where
  "js_parse_hex s =
     (let t = (case s of a # b # u \<Rightarrow> if a = CHR ''0'' \<and> (b = CHR ''x'' \<or> b = CHR ''X'') then u else s | _ \<Rightarrow> s);
          d = takeWhile is_hex t
      in if d = [] then None else Some (in_base 16 d))"

definition hex_digit :: "nat \<Rightarrow> char" where
  "hex_digit d = char_of (if d < 10 then d + 48 else d + 87)"

text \<open>\<open>n.toString(16)\<close>\<close>

fun hex_str :: "nat \<Rightarrow> string" where
  "hex_str n = (if n < 16 then [hex_digit n] else hex_str (n div 16) @ [hex_digit (n mod 16)])"

declare hex_str.simps [simp del]

section \<open>Node's literals\<close>

text \<open>\<open>25[0-5]|2[0-4]\d|1\d\d|[1-9]\d|\d\<close>: a number up to 255 with no leading zero.\<close>

definition v4_part :: "string \<Rightarrow> bool" where
  "v4_part p \<longleftrightarrow> p \<noteq> [] \<and> length p \<le> 3 \<and> list_all is_digit p \<and> in_base 10 p \<le> 255 \<and> (length p > 1 \<longrightarrow> hd p \<noteq> CHR ''0'')"

definition is_ipv4 :: "string \<Rightarrow> bool" where
  "is_ipv4 s \<longleftrightarrow> (let ps = split_at_char CHR ''.'' s in length ps = 4 \<and> list_all v4_part ps)"

definition v6_part :: "string \<Rightarrow> bool" where
  "v6_part p \<longleftrightarrow> p \<noteq> [] \<and> length p \<le> 4 \<and> list_all is_hex p"

text \<open>How many groups a list of parts stands for, when it is well formed; only the last may be an IPv4 literal.\<close>

fun v6_groups :: "string list \<Rightarrow> nat option" where
  "v6_groups [] = Some 0"
| "v6_groups [p] = (if v6_part p then Some 1 else if is_ipv4 p then Some 2 else None)"
| "v6_groups (p # ps) = (if v6_part p then map_option Suc (v6_groups ps) else None)"

definition colon_parts :: "string \<Rightarrow> string list" where
  "colon_parts s = (if s = [] then [] else split_at_char CHR '':'' s)"

definition v6_body :: "string \<Rightarrow> bool" where
  "v6_body s =
     (case split_double_colon s of
        [h] \<Rightarrow> h \<noteq> [] \<and> v6_groups (colon_parts h) = Some 8
      | [h, t] \<Rightarrow> list_all v6_part (colon_parts h) \<and>
          (case v6_groups (colon_parts t) of None \<Rightarrow> False | Some n \<Rightarrow> length (colon_parts h) + n \<le> 7)
      | _ \<Rightarrow> False)"

definition zone_char :: "char \<Rightarrow> bool" where
  "zone_char c \<longleftrightarrow> is_digit c \<or> 97 \<le> (of_char c :: nat) \<and> (of_char c :: nat) \<le> 122 \<or>
     65 \<le> (of_char c :: nat) \<and> (of_char c :: nat) \<le> 90 \<or> c \<in> set ''-.:''"

definition is_ipv6 :: "string \<Rightarrow> bool" where
  "is_ipv6 s =
     (case split_at_char CHR ''%'' s of
        [a] \<Rightarrow> v6_body a
      | [a, z] \<Rightarrow> v6_body a \<and> z \<noteq> [] \<and> list_all zone_char z
      | _ \<Rightarrow> False)"

section \<open>Literals to bytes\<close>

definition byte_ok :: "nat option \<Rightarrow> bool" where
  "byte_ok b = (case b of None \<Rightarrow> False | Some n \<Rightarrow> n \<le> 255)"

text \<open>\<open>text.slice(0, idx + 1)\<close> and \<open>text.slice(idx + 1)\<close> at the last colon (\<open>idx\<close> is -1 without one).\<close>

definition up_to_colon :: "string \<Rightarrow> string" where
  "up_to_colon s = rev (dropWhile (\<lambda>c. c \<noteq> CHR '':'') (rev s))"

definition after_colon :: "string \<Rightarrow> string" where
  "after_colon s = rev (takeWhile (\<lambda>c. c \<noteq> CHR '':'') (rev s))"

definition fold_v4 :: "string \<Rightarrow> string option" where
  "fold_v4 s =
     (if CHR ''.'' \<notin> set s then Some s
      else (let v4 = after_colon s
            in if \<not> is_ipv4 v4 then None
               else (let o' = map (\<lambda>p. the (js_number p)) (split_at_char CHR ''.'' v4);
                         hi = hex_str (push_bit 8 (o' ! 0) OR o' ! 1); lo = hex_str (push_bit 8 (o' ! 2) OR o' ! 3)
                     in Some (up_to_colon s @ hi @ '':'' @ lo))))"

fun group_bytes :: "string list \<Rightarrow> nat list option" where
  "group_bytes [] = Some []"
| "group_bytes (g # gs) =
     (if g = [] then None
      else (case js_parse_hex g of
              None \<Rightarrow> None
            | Some n \<Rightarrow> if n > 0xffff then None
                else map_option (\<lambda>bs. (drop_bit 8 n AND 0xff) # (n AND 0xff) # bs) (group_bytes gs)))"

definition v6_bytes :: "string \<Rightarrow> nat list option" where
  "v6_bytes txt =
     (let halves = split_double_colon txt
      in if length halves > 2 then None
         else (let head' = colon_parts (halves ! 0);
                   tail' = (if length halves = 2 then Some (colon_parts (halves ! 1)) else None)
               in case tail' of
                    None \<Rightarrow> if length head' \<noteq> 8 then None else group_bytes head'
                  | Some t \<Rightarrow>
                      if length head' + length t > 8 then None
                      else group_bytes (head' @ replicate (8 - (length head' + length t)) ''0'' @ t)))"

definition ip_to_bytes :: "string \<Rightarrow> nat list option" where
  "ip_to_bytes ip =
     (if is_ipv4 ip
      then (let parts = map js_number (split_at_char CHR ''.'' ip)
            in if length parts \<noteq> 4 \<or> \<not> list_all byte_ok parts then None else Some (map the parts))
      else if \<not> is_ipv6 ip then None
      else Option.bind (fold_v4 (hd (split_at_char CHR ''%'' ip))) v6_bytes)"

section \<open>The classifier\<close>

definition is_public_v4 :: "nat list \<Rightarrow> bool" where
  "is_public_v4 bs =
     (let a = bs ! 0; b = bs ! 1; c = bs ! 2
      in if a = 0 then False
         else if a = 10 then False
         else if a = 127 then False
         else if a = 169 \<and> b = 254 then False
         else if a = 172 \<and> b \<ge> 16 \<and> b \<le> 31 then False
         else if a = 192 \<and> b = 168 then False
         else if a = 100 \<and> b \<ge> 64 \<and> b \<le> 127 then False
         else if a = 192 \<and> b = 0 \<and> c = 0 then False
         else if a = 192 \<and> b = 0 \<and> c = 2 then False
         else if a = 192 \<and> b = 88 \<and> c = 99 then False
         else if a = 198 \<and> (b = 18 \<or> b = 19) then False
         else if a = 198 \<and> b = 51 \<and> c = 100 then False
         else if a = 203 \<and> b = 0 \<and> c = 113 then False
         else if a \<ge> 224 then False
         else True)"

definition slice :: "nat \<Rightarrow> nat \<Rightarrow> 'a list \<Rightarrow> 'a list" where
  "slice i j xs = take (j - i) (drop i xs)"

definition zeros :: "nat \<Rightarrow> nat \<Rightarrow> nat list \<Rightarrow> bool" where
  "zeros i j bs = list_all (\<lambda>b. b = 0) (slice i j bs)"

definition is_public_v6 :: "nat list \<Rightarrow> bool" where
  "is_public_v6 bs =
     (if zeros 0 10 bs \<and> bs ! 10 = 0xff \<and> bs ! 11 = 0xff then is_public_v4 (slice 12 16 bs)
      else if zeros 0 12 bs
      then (let v4 = slice 12 16 bs
            in if list_all (\<lambda>x. x = 0) v4 then False
               else if v4 ! 0 = 0 \<and> v4 ! 1 = 0 \<and> v4 ! 2 = 0 \<and> v4 ! 3 = 1 then False
               else is_public_v4 v4)
      else if bs ! 0 = 0x00 \<and> bs ! 1 = 0x64 \<and> bs ! 2 = 0xff \<and> bs ! 3 = 0x9b \<and> zeros 4 12 bs
      then is_public_v4 (slice 12 16 bs)
      else if bs ! 0 = 0x20 \<and> bs ! 1 = 0x02 then is_public_v4 (slice 2 6 bs)
      else if bs ! 0 AND 0xfe = 0xfc then False
      else if bs ! 0 = 0xfe \<and> bs ! 1 AND 0xc0 = 0x80 then False
      else if bs ! 0 = 0xff then False
      else if bs ! 0 = 0x20 \<and> bs ! 1 = 0x01 \<and> bs ! 2 = 0x0d \<and> bs ! 3 = 0xb8 then False
      else if bs ! 0 = 0x01 \<and> bs ! 1 = 0x00 \<and> zeros 2 8 bs then False
      else if bs ! 0 = 0x00 then False
      else True)"

definition is_public_unicast_ip :: "string \<Rightarrow> bool" where
  "is_public_unicast_ip ip =
     (case ip_to_bytes ip of
        None \<Rightarrow> False
      | Some bs \<Rightarrow> if length bs = 4 then is_public_v4 bs else if length bs = 16 then is_public_v6 bs else False)"

end
