(* ===== verification/Net_Literals.thy ===== *)
theory Net_Literals
  imports Net_Address
begin

text \<open>
  Every literal Node accepts has a reading: four bytes or sixteen, each at most 255, so the guard's
  fail-closed arms are never what decides a well-formed address.
\<close>

section \<open>Splitting\<close>

lemma split_at_char_nonempty [simp]: "split_at_char c s \<noteq> []"
  by (induction s) (simp_all split: list.split)

lemma split_at_char_none [simp]: "c \<notin> set s \<Longrightarrow> split_at_char c s = [s]"
  by (induction s) auto

lemma split_at_char_append: "split_at_char c (u @ c # v) = split_at_char c u @ split_at_char c v"
proof (induction u)
  case (Cons x u)
  then show ?case by (cases "split_at_char c u") (simp_all split: list.split)
qed simp

lemma split_at_char_parts: "p \<in> set (split_at_char c s) \<Longrightarrow> set p \<subseteq> set s \<and> c \<notin> set p"
proof (induction s arbitrary: p)
  case (Cons x s)
  obtain q qs where q: "split_at_char c s = q # qs" by (cases "split_at_char c s") simp_all
  then show ?case using Cons.prems Cons.IH [of p] Cons.IH [of q] by (fastforce split: if_splits)
qed simp

lemma last_part:
  assumes "c \<in> set s"
  obtains u p where "split_at_char c s = split_at_char c u @ [p]" "s = u @ c # p" "c \<notin> set p"
proof -
  obtain u p where "s = u @ c # p" "c \<notin> set p" using assms split_list_last by metis
  then show ?thesis using that [of u p] by (simp add: split_at_char_append)
qed

text \<open>Double colons: a text without one, also not across its end.\<close>

abbreviation no_double :: "string \<Rightarrow> bool" where
  "no_double s \<equiv> split_double_colon s = [s]"

lemma split_double_nonempty [simp]: "split_double_colon s \<noteq> []"
  by (induction s rule: split_double_colon.induct) (simp_all split: list.split)

lemma split_double_one: "split_double_colon s = [h] \<Longrightarrow> h = s"
  by (induction s arbitrary: h rule: split_double_colon.induct) (auto split: if_splits list.splits)

lemma no_double_Cons:
  "no_double (x # s) \<longleftrightarrow> no_double s \<and> \<not> (x = CHR '':'' \<and> s \<noteq> [] \<and> hd s = CHR '':'')"
proof (cases s)
  case (Cons y t)
  show ?thesis
  proof (cases "split_double_colon s")
    case Nil
    then show ?thesis by simp
  next
    case (Cons p ps)
    then show ?thesis using \<open>s = y # t\<close> by auto
  qed
qed simp

lemmas [simp del] = split_double_colon.simps(3)

lemma split_double_two:
  "split_double_colon s = [h, t] \<Longrightarrow> s = h @ '':'' @ '':'' @ t \<and> no_double (h @ '':'') \<and> no_double t"
proof (induction s arbitrary: h rule: split_double_colon.induct)
  case (3 x y s)
  show ?case
  proof (cases "x = CHR '':'' \<and> y = CHR '':''")
    case True
    then have "h = []" "split_double_colon s = [t]" using "3.prems" by (auto simp: split_double_colon.simps(3))
    then show ?thesis using True split_double_one [of s t] by simp
  next
    case False
    obtain p ps where p: "split_double_colon (y # s) = p # ps" by (cases "split_double_colon (y # s)") simp_all
    then have h: "h = x # p" "ps = [t]" using "3.prems" False by (auto simp: split_double_colon.simps(3))
    then have ih: "y # s = p @ '':'' @ '':'' @ t \<and> no_double (p @ '':'') \<and> no_double t"
      using "3.IH"(2) [OF False] p by simp
    have "no_double (h @ '':'')"
      using ih False h(1) by (cases p) (auto simp: no_double_Cons)
    then show ?thesis using ih h by simp
  qed
qed (auto split: if_splits)

lemma split_double_join: "no_double (h @ '':'') \<Longrightarrow> no_double t \<Longrightarrow> split_double_colon (h @ '':'' @ '':'' @ t) = [h, t]"
proof (induction h)
  case (Cons x h)
  have "no_double (h @ '':'')" using Cons.prems(1) no_double_Cons [of x "h @ '':''"] by simp
  then have s: "split_double_colon (h @ '':'' @ '':'' @ t) = [h, t]" using Cons.IH Cons.prems(2) by blast
  have "\<not> (x = CHR '':'' \<and> hd (h @ '':'') = CHR '':'')" using Cons.prems(1) no_double_Cons [of x "h @ '':''"] by simp
  then have "\<not> (x = CHR '':'' \<and> hd (h @ '':'' @ '':'' @ t) = CHR '':'')" by (cases h) simp_all
  moreover obtain y u where y: "h @ '':'' @ '':'' @ t = y # u" by (cases h) simp_all
  ultimately have "\<not> (x = CHR '':'' \<and> y = CHR '':'')" by simp
  then have "split_double_colon (x # y # u) = [x # h, t]" using s y by (simp add: split_double_colon.simps(3))
  then show ?case using y by simp
qed (simp add: split_double_colon.simps(3))

lemma parts_nonempty_no_double:
  "[] \<notin> set (tl (split_at_char CHR '':'' s)) \<Longrightarrow> no_double s"
proof (induction s)
  case (Cons x s)
  obtain p ps where p: "split_at_char CHR '':'' s = p # ps" by (cases "split_at_char CHR '':'' s") simp_all
  have "p = [] \<longleftrightarrow> s = [] \<or> hd s = CHR '':''"
    using p by (cases s) (auto split: if_splits list.splits)
  then show ?case using Cons p by (auto simp: no_double_Cons split: if_splits)
qed simp

section \<open>Hexadecimal groups\<close>

lemma hex_value_digit: "d < 16 \<Longrightarrow> hex_value (hex_digit d) = Some d"
  by (auto simp: hex_value_def hex_digit_def Let_def)

lemma is_hex_digit: "d < 16 \<Longrightarrow> is_hex (hex_digit d)"
  by (simp add: is_hex_def hex_value_digit)

lemma hex_str_append: "16 \<le> n \<Longrightarrow> hex_str n = hex_str (n div 16) @ [hex_digit (n mod 16)]"
  by (subst hex_str.simps) simp

lemma hex_str_small: "n < 16 \<Longrightarrow> hex_str n = [hex_digit n]"
  by (subst hex_str.simps) simp

lemma in_base_append: "in_base b (s @ [c]) = b * in_base b s + (case hex_value c of None \<Rightarrow> 0 | Some d \<Rightarrow> d)"
  by (simp add: in_base_def)

lemma hex_str_reads: "list_all is_hex (hex_str n) \<and> in_base 16 (hex_str n) = n"
proof (induction n rule: less_induct)
  case (less n)
  show ?case
  proof (cases "n < 16")
    case True
    then show ?thesis by (simp add: hex_str_small is_hex_digit hex_value_digit in_base_def)
  next
    case False
    then show ?thesis
      using less.IH [of "n div 16"] by (simp add: hex_str_append is_hex_digit hex_value_digit in_base_append)
  qed
qed

lemma hex_str_length: "n < 16 ^ k \<Longrightarrow> 0 < k \<Longrightarrow> length (hex_str n) \<le> k"
proof (induction k arbitrary: n)
  case (Suc k)
  show ?case
  proof (cases "n < 16")
    case False
    then have "n div 16 < 16 ^ k" "0 < k" using Suc.prems by (auto simp: less_mult_imp_div_less mult.commute intro!: gr0I)
    then show ?thesis using Suc.IH [of "n div 16"] False by (simp add: hex_str_append)
  qed (simp add: hex_str_small)
qed simp

lemma hex_str_part: "n \<le> 0xffff \<Longrightarrow> v6_part (hex_str n)"
  using hex_str_length [of n 4] hex_str_reads [of n] hex_str.simps [of n] by (auto simp: v6_part_def)

lemma hex_value_bound: "hex_value c = Some d \<Longrightarrow> d < 16"
  by (auto simp: hex_value_def Let_def split: if_splits)

lemma in_base_bound: "in_base 16 s < 16 ^ length s"
proof (induction s rule: rev_induct)
  case (snoc c s)
  have "(case hex_value c of None \<Rightarrow> 0 | Some d \<Rightarrow> d) < 16" by (auto dest: hex_value_bound split: option.split)
  then show ?case using snoc by (simp add: in_base_append)
qed (simp add: in_base_def)

lemma part_parses:
  assumes "v6_part g"
  shows "js_parse_hex g = Some (in_base 16 g)" "in_base 16 g \<le> 0xffff"
proof -
  have g: "g \<noteq> []" "length g \<le> 4" "list_all is_hex g" using assms by (simp_all add: v6_part_def)
  have "\<not> is_hex CHR ''x''" "\<not> is_hex CHR ''X''" by (simp_all add: is_hex_def hex_value_def Let_def)
  then have "(case g of a # b # u \<Rightarrow> if a = CHR ''0'' \<and> (b = CHR ''x'' \<or> b = CHR ''X'') then u else g | _ \<Rightarrow> g) = g"
    using g(3) by (auto split: list.split)
  moreover have tw: "takeWhile is_hex g = g" using g(3) by (simp add: list_all_iff)
  ultimately have "js_parse_hex g = (if g = [] then None else Some (in_base 16 g))"
    unfolding js_parse_hex_def Let_def by (simp only: tw)
  then show "js_parse_hex g = Some (in_base 16 g)" using g(1) by simp
  have "(16::nat) ^ length g \<le> 16 ^ 4" using g(2) by (rule power_increasing) simp
  then show "in_base 16 g \<le> 0xffff" using in_base_bound [of g] by simp
qed

lemma group_bytes_parts:
  assumes "list_all v6_part gs"
  shows "\<exists>bs. group_bytes gs = Some bs \<and> length bs = 2 * length gs \<and> list_all (\<lambda>b. b \<le> 255) bs"
  using assms
proof (induction gs)
  case (Cons g gs)
  then have g: "v6_part g" "g \<noteq> []" by (simp_all add: v6_part_def)
  have b: "n AND 255 \<le> 255" for n :: nat by (simp add: and_nat_def nat_le_iff AND_upper2')
  show ?case using Cons part_parses [OF g(1)] g(2) b by auto
qed simp

lemma zero_part: "v6_part ''0''"
  by (simp add: v6_part_def is_hex_def hex_value_def Let_def)

section \<open>Groups and halves\<close>

text \<open>A well-formed list of parts, with a trailing IPv4 literal read as two groups.\<close>

definition two_groups :: "string \<Rightarrow> string list" where
  "two_groups v4 = (let q = map (\<lambda>p. the (js_number p)) (split_at_char CHR ''.'' v4)
     in [hex_str (push_bit 8 (q ! 0) OR q ! 1), hex_str (push_bit 8 (q ! 2) OR q ! 3)])"

lemma ipv4_parts:
  assumes "is_ipv4 s"
  obtains a b c d where "map js_number (split_at_char CHR ''.'' s) = [Some a, Some b, Some c, Some d]"
    "a \<le> 255" "b \<le> 255" "c \<le> 255" "d \<le> 255"
proof -
  obtain p q r t where s: "split_at_char CHR ''.'' s = [p, q, r, t]" and v: "v4_part p" "v4_part q" "v4_part r" "v4_part t"
    using assms by (auto simp: is_ipv4_def Let_def length_Suc_conv eval_nat_numeral)
  have "js_number x = Some (in_base 10 x) \<and> in_base 10 x \<le> 255" if "v4_part x" for x
    using that by (simp add: v4_part_def js_number_def)
  then show ?thesis using that s v by simp
qed

lemma two_groups_parts:
  assumes "is_ipv4 s"
  shows "list_all v6_part (two_groups s)" "length (two_groups s) = 2"
proof -
  obtain a b c d where q: "map js_number (split_at_char CHR ''.'' s) = [Some a, Some b, Some c, Some d]"
    "a \<le> 255" "b \<le> 255" "c \<le> 255" "d \<le> 255" using assms by (rule ipv4_parts)
  have m: "map (\<lambda>p. the (js_number p)) (split_at_char CHR ''.'' s) = [a, b, c, d]"
    using arg_cong [OF q(1), of "map the"] by (simp add: comp_def)
  have "push_bit 8 x OR y \<le> 0xffff" if "x \<le> 255" "y \<le> 255" for x y :: nat
  proof -
    have "push_bit 8 x < 2 ^ 16" "y < 2 ^ 16" using that by (simp_all add: push_bit_eq_mult)
    then have "int (push_bit 8 x) OR int y < 2 ^ 16" by (intro OR_upper) simp_all
    then have "push_bit 8 x OR y < 2 ^ 16" by (simp add: or_nat_def nat_less_iff)
    then show ?thesis by simp
  qed
  then show "list_all v6_part (two_groups s)" using m q by (simp add: two_groups_def hex_str_part)
  show "length (two_groups s) = 2" by (simp add: two_groups_def Let_def)
qed

lemma v6_groups_shape:
  "v6_groups ps = Some n \<Longrightarrow> list_all v6_part ps \<and> n = length ps \<or>
     (\<exists>qs p. ps = qs @ [p] \<and> list_all v6_part qs \<and> is_ipv4 p \<and> n = length qs + 2)"
proof (induction ps arbitrary: n rule: v6_groups.induct)
  case (3 p q ps)
  then obtain m where m: "v6_part p" "v6_groups (q # ps) = Some m" "n = Suc m" by (auto split: if_splits)
  from "3.IH" [OF m(1,2)] show ?case
  proof
    assume "\<exists>qs r. q # ps = qs @ [r] \<and> list_all v6_part qs \<and> is_ipv4 r \<and> m = length qs + 2"
    then obtain qs r where "q # ps = qs @ [r]" "list_all v6_part qs" "is_ipv4 r" "m = length qs + 2" by blast
    then have "p # q # ps = (p # qs) @ [r]" "list_all v6_part (p # qs)" "n = length (p # qs) + 2" using m by simp_all
    with \<open>is_ipv4 r\<close> show ?thesis by blast
  qed (use m in simp)
qed (auto split: if_splits)

lemma part_no_dot: "v6_part p \<Longrightarrow> CHR ''.'' \<notin> set p"
  by (auto simp: v6_part_def list_all_iff is_hex_def hex_value_def Let_def)

lemma ipv4_dot: "is_ipv4 p \<Longrightarrow> CHR ''.'' \<in> set p"
  by (rule ccontr) (simp add: is_ipv4_def)

lemma split_at_char_covers: "set s \<subseteq> insert c (\<Union> (set ` set (split_at_char c s)))"
proof (induction s)
  case (Cons x s)
  then show ?case by (cases "split_at_char c s") auto
qed simp

lemma parts_no_dot: "list_all v6_part (colon_parts t) \<Longrightarrow> CHR ''.'' \<notin> set t"
proof
  assume a: "list_all v6_part (colon_parts t)" "CHR ''.'' \<in> set t"
  then have "colon_parts t = split_at_char CHR '':'' t" by (auto simp: colon_parts_def)
  moreover obtain p where "p \<in> set (split_at_char CHR '':'' t)" "CHR ''.'' \<in> set p"
    using split_at_char_covers [of t "CHR '':''"] a(2) by auto
  ultimately show False using a(1) part_no_dot by (auto simp: list_all_iff)
qed

lemma at_last_colon:
  assumes "CHR '':'' \<notin> set p" "u = [] \<or> last u = CHR '':''"
  shows "after_colon (u @ p) = p" "up_to_colon (u @ p) = u"
proof -
  have r: "\<forall>c\<in>set (rev p). c \<noteq> CHR '':''" using assms(1) by auto
  have u: "u = [] \<or> (\<exists>v. rev u = CHR '':'' # v)" using assms(2) by (cases u rule: rev_cases) auto
  have t: "takeWhile (\<lambda>c. c \<noteq> CHR '':'') (rev p @ w) = rev p @ takeWhile (\<lambda>c. c \<noteq> CHR '':'') w"
    "dropWhile (\<lambda>c. c \<noteq> CHR '':'') (rev p @ w) = dropWhile (\<lambda>c. c \<noteq> CHR '':'') w" for w
    by (rule takeWhile_append2, use r in blast) (rule dropWhile_append2, use r in blast)
  have "takeWhile (\<lambda>c. c \<noteq> CHR '':'') (rev u) = []" "dropWhile (\<lambda>c. c \<noteq> CHR '':'') (rev u) = rev u"
    using u by (elim disjE exE; simp)+
  with t [of "rev u"] show "after_colon (u @ p) = p" "up_to_colon (u @ p) = u"
    by (simp_all only: after_colon_def up_to_colon_def rev_append append_Nil2 rev_rev_ident)
qed

text \<open>A half whose last part is an IPv4 literal, and the half with two groups in its place.\<close>

lemma ipv4_half:
  assumes "colon_parts t = qs @ [p]"
  obtains u where "t = u @ p" "u = [] \<or> last u = CHR '':''" "CHR '':'' \<notin> set p"
    "\<And>x y. CHR '':'' \<notin> set x \<Longrightarrow> CHR '':'' \<notin> set y \<Longrightarrow> colon_parts (u @ x @ '':'' @ y) = qs @ [x, y]"
proof (cases "CHR '':'' \<in> set t")
  case True
  then obtain v q where v: "split_at_char CHR '':'' t = split_at_char CHR '':'' v @ [q]" "t = v @ CHR '':'' # q" "CHR '':'' \<notin> set q"
    by (rule last_part)
  then have "qs = split_at_char CHR '':'' v" "p = q" using assms by (auto simp: colon_parts_def)
  then show ?thesis using v that [of "v @ '':''"] by (simp add: colon_parts_def split_at_char_append)
next
  case False
  then have "qs = []" "t = p" using assms by (auto simp: colon_parts_def split: if_splits)
  then show ?thesis using False that [of "[]"] by (simp add: colon_parts_def split_at_char_append)
qed

lemma part_no_colon: "v6_part p \<Longrightarrow> CHR '':'' \<notin> set p"
  by (auto simp: v6_part_def list_all_iff is_hex_def hex_value_def Let_def)

lemma parts_no_double: "list_all v6_part (colon_parts t) \<Longrightarrow> no_double t"
  by (rule parts_nonempty_no_double)
     (auto simp: colon_parts_def v6_part_def list_all_iff split: if_splits dest: list.set_sel(2) [rotated])

text \<open>What folding makes of the last half, behind any text that ends in a colon.\<close>

lemma fold_half:
  assumes "v6_groups (colon_parts t) = Some n" "w = [] \<or> last w = CHR '':''" "CHR ''.'' \<notin> set w"
  obtains t' where "fold_v4 (w @ t) = Some (w @ t')" "list_all v6_part (colon_parts t')" "length (colon_parts t') = n"
  using v6_groups_shape [OF assms(1)]
proof
  assume a: "list_all v6_part (colon_parts t) \<and> n = length (colon_parts t)"
  then show ?thesis using that [of t] parts_no_dot [of t] assms(3) by (simp add: fold_v4_def)
next
  assume "\<exists>qs p. colon_parts t = qs @ [p] \<and> list_all v6_part qs \<and> is_ipv4 p \<and> n = length qs + 2"
  then obtain qs p where q: "colon_parts t = qs @ [p]" "list_all v6_part qs" "is_ipv4 p" "n = length qs + 2" by blast
  then obtain u where u: "t = u @ p" "u = [] \<or> last u = CHR '':''" "CHR '':'' \<notin> set p"
    "\<And>x y. CHR '':'' \<notin> set x \<Longrightarrow> CHR '':'' \<notin> set y \<Longrightarrow> colon_parts (u @ x @ '':'' @ y) = qs @ [x, y]"
    using ipv4_half by metis
  obtain x y where xy: "two_groups p = [x, y]" "v6_part x" "v6_part y"
    using two_groups_parts [OF q(3)] by (auto simp: length_Suc_conv eval_nat_numeral)
  have wu: "w @ u = [] \<or> last (w @ u) = CHR '':''" using assms(2) u(2) by (cases u) auto
  have "fold_v4 (w @ t) = Some (w @ u @ x @ '':'' @ y)"
    using at_last_colon [OF u(3) wu] u(1) q(3) ipv4_dot [OF q(3)] xy(1)
    by (simp add: fold_v4_def two_groups_def Let_def)
  moreover have "colon_parts (u @ x @ '':'' @ y) = qs @ [x, y]" using u(4) part_no_colon xy by blast
  ultimately show ?thesis using that [of "u @ x @ '':'' @ y"] q xy by simp
qed

lemma v6_body_bytes:
  assumes "v6_body a"
  shows "\<exists>bs. Option.bind (fold_v4 a) v6_bytes = Some bs \<and> length bs = 16 \<and> list_all (\<lambda>b. b \<le> 255) bs"
proof -
  consider (plain) h where "split_double_colon a = [h]" "v6_groups (colon_parts h) = Some 8"
    | (double) h t n where "split_double_colon a = [h, t]" "list_all v6_part (colon_parts h)"
        "v6_groups (colon_parts t) = Some n" "length (colon_parts h) + n \<le> 7"
    using assms by (auto simp: v6_body_def split: list.splits option.splits)
  then show ?thesis
  proof cases
    case plain
    then have "v6_groups (colon_parts a) = Some 8" using split_double_one by metis
    then obtain t' where t: "fold_v4 a = Some t'" "list_all v6_part (colon_parts t')" "length (colon_parts t') = 8"
      using fold_half [of a 8 "[]"] by auto
    then show ?thesis
      using group_bytes_parts [OF t(2)] parts_no_double [OF t(2)] by (auto simp: v6_bytes_def)
  next
    case double
    have a: "a = h @ '':'' @ '':'' @ t" "no_double (h @ '':'')" using split_double_two [OF double(1)] by simp_all
    then obtain t' where t: "fold_v4 a = Some (h @ '':'' @ '':'' @ t')" "list_all v6_part (colon_parts t')"
      "length (colon_parts t') = n"
      using fold_half [OF double(3), of "h @ '':'' @ '':''"] parts_no_dot [OF double(2)] by auto
    have s: "split_double_colon (h @ '':'' @ '':'' @ t') = [h, t']"
      by (rule split_double_join [OF a(2) parts_no_double [OF t(2)]])
    let ?gs = "colon_parts h @ replicate (8 - (length (colon_parts h) + n)) ''0'' @ colon_parts t'"
    have "list_all v6_part ?gs" "length ?gs = 8" using double(2,4) t(2,3) zero_part by (auto simp: list_all_iff)
    then show ?thesis using group_bytes_parts [of ?gs] t s double(4) by (auto simp: v6_bytes_def)
  qed
qed

lemma reads_as_bytes:
  "case ip_to_bytes s of
     None \<Rightarrow> \<not> is_ipv4 s \<and> \<not> is_ipv6 s
   | Some bs \<Rightarrow> list_all (\<lambda>b. b \<le> 255) bs \<and>
       (if is_ipv4 s then length bs = 4 \<and> bs = map (in_base 10) (split_at_char CHR ''.'' s) else is_ipv6 s \<and> length bs = 16)"
proof -
  have four: "ip_to_bytes s = Some (map (in_base 10) (split_at_char CHR ''.'' s)) \<and>
      list_all (\<lambda>b. b \<le> 255) (map (in_base 10) (split_at_char CHR ''.'' s)) \<and> length (split_at_char CHR ''.'' s) = 4"
    if v4: "is_ipv4 s"
  proof -
    have ps: "length (split_at_char CHR ''.'' s) = 4" "list_all v4_part (split_at_char CHR ''.'' s)"
      using v4 by (simp_all add: is_ipv4_def Let_def)
    moreover have "js_number x = Some (in_base 10 x) \<and> in_base 10 x \<le> 255" if "v4_part x" for x
      using that by (simp add: v4_part_def js_number_def)
    ultimately show ?thesis using v4 by (auto simp: ip_to_bytes_def Let_def list_all_iff byte_ok_def)
  qed
  have six: "\<exists>bs. ip_to_bytes s = Some bs \<and> length bs = 16 \<and> list_all (\<lambda>b. b \<le> 255) bs" if n4: "\<not> is_ipv4 s" and v6: "is_ipv6 s"
  proof -
    obtain a zs where "split_at_char CHR ''%'' s = a # zs" "v6_body a"
      using v6 by (auto simp: is_ipv6_def split: list.splits)
    then show ?thesis using v6_body_bytes [of a] n4 v6 by (simp add: ip_to_bytes_def)
  qed
  show ?thesis
  proof (cases "is_ipv4 s")
    case True
    then show ?thesis using four by simp
  next
    case False
    then show ?thesis using six by (cases "is_ipv6 s") (auto simp: ip_to_bytes_def)
  qed
qed

text \<open>
  Every well-formed literal has exactly its bytes. A text has a reading as bytes if and only if Node
  takes it for an IP literal: an IPv4 literal reads as its four numbers, an IPv6 literal, with or without
  a double colon, a trailing IPv4 part or a zone, as sixteen bytes; every byte is at most 255. So the
  guard refuses an address as unreadable only when it is no address.
\<close>

theorem literal_reads_as_bytes:
  "case ip_to_bytes s of
     None \<Rightarrow> \<not> is_ipv4 s \<and> \<not> is_ipv6 s
   | Some bs \<Rightarrow> list_all (\<lambda>b. b \<le> 255) bs \<and>
       (if is_ipv4 s then length bs = 4 \<and> bs = map (in_base 10) (split_at_char CHR ''.'' s) else is_ipv6 s \<and> length bs = 16)"
  by (rule reads_as_bytes)

lemma literal_samples:
  "ip_to_bytes ''192.168.0.1'' = Some [192, 168, 0, 1]" "ip_to_bytes ''::ffff:10.0.0.1%eth0'' = Some [0, 0, 0, 0, 0, 0, 0, 0, 0, 0, 255, 255, 10, 0, 0, 1]"
  "ip_to_bytes ''2001:db8::1'' = Some [32, 1, 13, 184, 0, 0, 0, 0, 0, 0, 0, 0, 0, 0, 0, 1]"
  "ip_to_bytes ''010.0.0.1'' = None" "ip_to_bytes ''1::2::3'' = None" "ip_to_bytes '':::1'' = None"
  by code_simp+

end
