(* ===== verification/Net_Classify.thy ===== *)
theory Net_Classify
  imports Net_Literals
begin

text \<open>
  The classifier against the registry: an address as one number, the special-purpose blocks as prefixes,
  and the embedded IPv4 address of the four forms that carry one.
\<close>

section \<open>The reference\<close>

text \<open>The number of a list of bytes, most significant first, and membership in a block of \<open>w\<close>-bit addresses.\<close>

definition value_of :: "nat list \<Rightarrow> nat" where
  "value_of bs = foldl (\<lambda>n b. 256 * n + b) 0 bs"

definition in_block :: "nat \<Rightarrow> nat \<times> nat \<Rightarrow> nat \<Rightarrow> bool" where
  "in_block w blk n \<longleftrightarrow> n div 2 ^ (w - snd blk) = fst blk div 2 ^ (w - snd blk)"

text \<open>0/8, 10/8, 127/8, 169.254/16, 172.16/12, 192.168/16, 100.64/10, 192.0.0/24, 192.0.2/24,
  192.88.99/24, 198.18/15, 198.51.100/24, 203.0.113/24, and 224/4 with 240/4.\<close>

definition special_v4 :: "(nat \<times> nat) list" where
  "special_v4 = [(0x00000000, 8), (0x0A000000, 8), (0x7F000000, 8), (0xA9FE0000, 16), (0xAC100000, 12),
     (0xC0A80000, 16), (0x64400000, 10), (0xC0000000, 24), (0xC0000200, 24), (0xC0586300, 24), (0xC6120000, 15),
     (0xC6336400, 24), (0xCB007100, 24), (0xE0000000, 3)]"

definition routable_v4 :: "nat \<Rightarrow> bool" where
  "routable_v4 n \<longleftrightarrow> \<not> list_ex (\<lambda>blk. in_block 32 blk n) special_v4"

text \<open>::ffff:0:0/96, ::/96 and 64:ff9b::/96 carry the address in their last 32 bits, 2002::/16 in the next 32.\<close>

definition embedded_v4 :: "nat \<Rightarrow> nat option" where
  "embedded_v4 n =
     (if in_block 128 (0xFFFF00000000, 96) n \<or> in_block 128 (0, 96) n \<or>
         in_block 128 (0x0064FF9B000000000000000000000000, 96) n then Some (n mod 2 ^ 32)
      else if in_block 128 (0x20020000000000000000000000000000, 16) n then Some (n div 2 ^ 80 mod 2 ^ 32)
      else None)"

text \<open>fc00::/7, fe80::/10, ff00::/8, 2001:db8::/32, 100::/64, and the rest of ::/8.\<close>

definition special_v6 :: "(nat \<times> nat) list" where
  "special_v6 = [(0xFC000000000000000000000000000000, 7), (0xFE800000000000000000000000000000, 10),
     (0xFF000000000000000000000000000000, 8), (0x20010DB8000000000000000000000000, 32),
     (0x01000000000000000000000000000000, 64), (0, 8)]"

definition routable_v6 :: "nat \<Rightarrow> bool" where
  "routable_v6 n \<longleftrightarrow>
     (case embedded_v4 n of Some v \<Rightarrow> routable_v4 v | None \<Rightarrow> \<not> list_ex (\<lambda>blk. in_block 128 blk n) special_v6)"

section \<open>Values and prefixes\<close>

abbreviation bytes :: "nat list \<Rightarrow> bool" where
  "bytes bs \<equiv> list_all (\<lambda>b. b \<le> 255) bs"

lemma value_fold: "foldl (\<lambda>n b. 256 * n + b) m bs = m * 256 ^ length bs + value_of bs"
proof (induction bs arbitrary: m)
  case (Cons b bs)
  show ?case
    using Cons [of "256 * m + b"] Cons [of b] by (simp add: value_of_def algebra_simps)
qed (simp add: value_of_def)

lemma value_append: "value_of (xs @ ys) = value_of xs * 256 ^ length ys + value_of ys"
  using value_fold [of "value_of xs" ys] by (simp add: value_of_def)

lemma value_simps [simp]: "value_of [] = 0" "value_of [a] = a"
  by (simp_all add: value_of_def)

lemma value_Cons: "value_of (b # bs) = b * 256 ^ length bs + value_of bs"
  using value_append [of "[b]" bs] by simp

lemma value_bound: "bytes bs \<Longrightarrow> value_of bs < 256 ^ length bs"
proof (induction bs)
  case (Cons b bs)
  then have "value_of (b # bs) < b * 256 ^ length bs + 256 ^ length bs" by (simp add: value_Cons)
  also have "\<dots> = (b + 1) * 256 ^ length bs" by (simp add: algebra_simps)
  also have "\<dots> \<le> 256 * 256 ^ length bs" using Cons.prems by (intro mult_right_mono) simp_all
  finally show ?case by simp
qed simp

lemma value_take: "bytes bs \<Longrightarrow> k \<le> length bs \<Longrightarrow> value_of bs div 256 ^ (length bs - k) = value_of (take k bs)"
proof -
  assume b: "bytes bs" and k: "k \<le> length bs"
  have "value_of (drop k bs) < 256 ^ (length bs - k)"
    using value_bound [of "drop k bs"] b by (simp add: list_all_iff) (meson in_set_dropD)
  then show ?thesis using value_append [of "take k bs" "drop k bs"] by simp
qed

lemma value_drop: "bytes bs \<Longrightarrow> k \<le> length bs \<Longrightarrow> value_of bs mod 256 ^ (length bs - k) = value_of (drop k bs)"
proof -
  assume b: "bytes bs" and k: "k \<le> length bs"
  have "value_of (drop k bs) < 256 ^ (length bs - k)"
    using value_bound [of "drop k bs"] b by (simp add: list_all_iff) (meson in_set_dropD)
  then show ?thesis using value_append [of "take k bs" "drop k bs"] by simp
qed

lemma value_inject: "bytes xs \<Longrightarrow> bytes ys \<Longrightarrow> length xs = length ys \<Longrightarrow> value_of xs = value_of ys \<longleftrightarrow> xs = ys"
proof (induction xs arbitrary: ys)
  case (Cons x xs)
  then obtain y zs where y: "ys = y # zs" by (cases ys) simp_all
  have l: "value_of xs < 256 ^ length zs" "value_of zs < 256 ^ length zs" "length xs = length zs"
    using value_bound [of xs] value_bound [of zs] Cons.prems y by simp_all
  have "x = y \<and> value_of xs = value_of zs" if "x * 256 ^ length zs + value_of xs = y * 256 ^ length zs + value_of zs"
    using arg_cong [OF that, of "\<lambda>n. n div 256 ^ length zs"] arg_cong [OF that, of "\<lambda>n. n mod 256 ^ length zs"] l by simp
  then show ?case using Cons y by (auto simp: value_Cons)
qed simp

section \<open>IPv4\<close>

lemma div_parts: "(x * 256 + y) div 256 = x" "(x * 256 + y) mod 256 = y" if "y \<le> 255" for x y :: nat
  using that by simp_all

lemma block_quads:
  assumes "a \<le> 255" "b \<le> 255" "c \<le> 255" "d \<le> 255"
  defines "n \<equiv> value_of [a, b, c, d]"
  shows "n div 2 ^ 24 = a" "n div 2 ^ 16 = 256 * a + b" "n div 2 ^ 8 = 65536 * a + 256 * b + c"
    "n div 2 ^ 20 = 16 * a + b div 16" "n div 2 ^ 22 = 4 * a + b div 64" "n div 2 ^ 17 = 128 * a + b div 2" "n div 2 ^ 29 = a div 32"
proof -
  have b: "bytes [a, b, c, d]" using assms(1-4) by simp
  have l: "length [a, b, c, d] = 4" by simp
  have t: "n div 256 ^ (4 - k) = value_of (take k [a, b, c, d])" if "k \<le> 4" for k
    using value_take [OF b, of k] that unfolding l n_def by blast
  show n1: "n div 2 ^ 24 = a" and n2: "n div 2 ^ 16 = 256 * a + b" and "n div 2 ^ 8 = 65536 * a + 256 * b + c"
    using t [of 1] t [of 2] t [of 3] by (simp_all add: value_Cons)
  have q: "n div 2 ^ (16 + k) = (256 * a + b) div 2 ^ k" for k by (simp add: n2 [symmetric] div_mult2_eq power_add)
  show "n div 2 ^ 20 = 16 * a + b div 16" "n div 2 ^ 22 = 4 * a + b div 64" "n div 2 ^ 17 = 128 * a + b div 2"
    using q [of 4] q [of 6] q [of 1] by simp_all
  have "n div 2 ^ (24 + 5) = a div 2 ^ 5" by (simp only: n1 [symmetric] div_mult2_eq power_add)
  then show "n div 2 ^ 29 = a div 32" by simp
qed

lemma digits_eq: "v < k \<Longrightarrow> y < k \<Longrightarrow> (k * u + v = k * x + y) = (u = x \<and> v = y)" for k :: nat
proof
  assume a: "v < k" "y < k" "k * u + v = k * x + y"
  from arg_cong [OF a(3), of "\<lambda>n. n div k"] arg_cong [OF a(3), of "\<lambda>n. n mod k"]
  show "u = x \<and> v = y" using a(1,2) by simp
qed simp

lemma public_v4_blocks:
  assumes "a \<le> 255" "b \<le> 255" "c \<le> 255" "d \<le> 255"
  shows "is_public_v4 [a, b, c, d] = routable_v4 (value_of [a, b, c, d])"
proof -
  note q = block_quads [OF assms]
  have one: "(256 * a + b = 256 * x + y) = (a = x \<and> b = y)" if "y \<le> 255" for x y
    using digits_eq [of b 256 y a x] assms(2) that by simp
  have two: "(65536 * a + 256 * b + c = 65536 * x + 256 * y + z) = (a = x \<and> b = y \<and> c = z)" if "y \<le> 255" "z \<le> 255" for x y z
    using digits_eq [of c 256 z "256 * a + b" "256 * x + y"] one [OF that(1), of x] assms(3) that(2) by (simp add: algebra_simps)
  have d: "(b div 16 = 1) = (16 \<le> b \<and> b \<le> 31)" "(b div 64 = 1) = (64 \<le> b \<and> b \<le> 127)"
    "(b div 2 = 9) = (b = 18 \<or> b = 19)" "(a div 32 = 7) = (a \<ge> 224)"
    using assms by linarith+
  have m: "(16 * a + b div 16 = 2753) = (a = 172 \<and> 16 \<le> b \<and> b \<le> 31)"
    "(4 * a + b div 64 = 401) = (a = 100 \<and> 64 \<le> b \<and> b \<le> 127)"
    "(128 * a + b div 2 = 25353) = (a = 198 \<and> (b = 18 \<or> b = 19))"
    using digits_eq [of "b div 16" 16 1 a 172] digits_eq [of "b div 64" 4 1 a 100] digits_eq [of "b div 2" 128 9 a 198] assms d(1-3)
    by simp_all
  have s: "(256 * a + b = 43518) = (a = 169 \<and> b = 254)" "(256 * a + b = 49320) = (a = 192 \<and> b = 168)"
    "(65536 * a + 256 * b + c = 12582912) = (a = 192 \<and> b = 0 \<and> c = 0)" "(65536 * a + 256 * b + c = 12582914) = (a = 192 \<and> b = 0 \<and> c = 2)"
    "(65536 * a + 256 * b + c = 12605539) = (a = 192 \<and> b = 88 \<and> c = 99)" "(65536 * a + 256 * b + c = 12989284) = (a = 198 \<and> b = 51 \<and> c = 100)"
    "(65536 * a + 256 * b + c = 13303921) = (a = 203 \<and> b = 0 \<and> c = 113)"
    using one [of 254 169] one [of 168 192] two [of 0 0 192] two [of 0 2 192] two [of 88 99 192] two [of 51 100 198] two [of 0 113 203]
    by simp_all
  have "routable_v4 (value_of [a, b, c, d]) \<longleftrightarrow> \<not> (a = 0 \<or> a = 10 \<or> a = 127 \<or> a = 169 \<and> b = 254 \<or>
      a = 172 \<and> 16 \<le> b \<and> b \<le> 31 \<or> a = 192 \<and> b = 168 \<or> a = 100 \<and> 64 \<le> b \<and> b \<le> 127 \<or>
      a = 192 \<and> b = 0 \<and> c = 0 \<or> a = 192 \<and> b = 0 \<and> c = 2 \<or> a = 192 \<and> b = 88 \<and> c = 99 \<or>
      a = 198 \<and> (b = 18 \<or> b = 19) \<or> a = 198 \<and> b = 51 \<and> c = 100 \<or> a = 203 \<and> b = 0 \<and> c = 113 \<or> 224 \<le> a)"
    by (simp add: routable_v4_def special_v4_def in_block_def q [simplified] m s d(4))
  then show ?thesis by (auto simp: is_public_v4_def Let_def)
qed

lemma public_v4_routable: "bytes bs \<Longrightarrow> length bs = 4 \<Longrightarrow> is_public_v4 bs = routable_v4 (value_of bs)"
  using public_v4_blocks by (auto simp: length_Suc_conv eval_nat_numeral)

section \<open>IPv6\<close>

lemma block_bytes:
  assumes "bytes bs" "length bs = 16" "bytes ps" "k = length ps" "k \<le> 16" "base div 2 ^ (128 - 8 * k) = value_of ps"
  shows "in_block 128 (base, 8 * k) (value_of bs) = (take k bs = ps)"
proof -
  have e: "(2::nat) ^ (128 - 8 * k) = 256 ^ (16 - k)"
  proof -
    have "(256::nat) ^ (16 - k) = (2 ^ 8) ^ (16 - k)" by simp
    also have "\<dots> = 2 ^ (8 * (16 - k))" by (rule power_mult [symmetric])
    also have "8 * (16 - k) = 128 - 8 * k" using assms(5) by simp
    finally show ?thesis by simp
  qed
  have "bytes (take k bs)" using assms(1) by (auto simp: list_all_iff dest: in_set_takeD)
  then have "value_of (take k bs) = value_of ps \<longleftrightarrow> take k bs = ps"
    using value_inject [of "take k bs" ps] assms by simp
  moreover have "value_of bs div 2 ^ (128 - 8 * k) = value_of (take k bs)"
    using value_take [OF assms(1), of k] assms(2,5) e by simp
  ultimately show ?thesis using assms(6) by (simp add: in_block_def)
qed

lemma mask_values:
  assumes "b \<le> (255 :: nat)"
  shows "(b AND 0xfe = 0xfc) = (b div 2 = 126)" "(b AND 0xc0 = 0x80) = (b div 64 = 2)"
proof -
  have "list_all (\<lambda>b. (b AND 0xfe = 0xfc) = (b div 2 = 126) \<and> (b AND 0xc0 = 0x80) = (b div 64 = 2)) [0..<256]"
    by code_simp
  then show "(b AND 0xfe = 0xfc) = (b div 2 = 126)" "(b AND 0xc0 = 0x80) = (b div 64 = 2)"
    using assms by (auto simp: list_all_iff)
qed

lemma all_zero_iff: "list_all (\<lambda>b. b = 0) xs = (xs = replicate (length xs) (0 :: nat))"
  by (induction xs) simp_all

text \<open>The blocks with whole bytes as their prefix.\<close>

lemma prefix_values:
  "0xFFFF00000000 div 2 ^ (128 - 8 * 12) = value_of [0, 0, 0, 0, 0, 0, 0, 0, 0, 0, 255, 255]"
  "0 div 2 ^ (128 - 8 * 12) = value_of [0, 0, 0, 0, 0, 0, 0, 0, 0, 0, 0, 0]"
  "0x0064FF9B000000000000000000000000 div 2 ^ (128 - 8 * 12) = value_of [0, 0x64, 0xff, 0x9b, 0, 0, 0, 0, 0, 0, 0, 0]"
  "0x20020000000000000000000000000000 div 2 ^ (128 - 8 * 2) = value_of [0x20, 2]"
  "0xFF000000000000000000000000000000 div 2 ^ (128 - 8 * 1) = value_of [255]"
  "0x20010DB8000000000000000000000000 div 2 ^ (128 - 8 * 4) = value_of [0x20, 1, 0xd, 0xb8]"
  "0x01000000000000000000000000000000 div 2 ^ (128 - 8 * 8) = value_of [1, 0, 0, 0, 0, 0, 0, 0]"
  "0 div 2 ^ (128 - 8 * 1) = value_of [0]"
  by code_simp+

lemma whole_blocks:
  assumes "bytes bs" "length bs = 16"
  shows "in_block 128 (0xFFFF00000000, 96) (value_of bs) = (take 12 bs = [0, 0, 0, 0, 0, 0, 0, 0, 0, 0, 255, 255])"
    "in_block 128 (0, 96) (value_of bs) = (take 12 bs = [0, 0, 0, 0, 0, 0, 0, 0, 0, 0, 0, 0])"
    "in_block 128 (0x0064FF9B000000000000000000000000, 96) (value_of bs) = (take 12 bs = [0, 0x64, 0xff, 0x9b, 0, 0, 0, 0, 0, 0, 0, 0])"
    "in_block 128 (0x20020000000000000000000000000000, 16) (value_of bs) = (take 2 bs = [0x20, 2])"
    "in_block 128 (0xFF000000000000000000000000000000, 8) (value_of bs) = (take 1 bs = [255])"
    "in_block 128 (0x20010DB8000000000000000000000000, 32) (value_of bs) = (take 4 bs = [0x20, 1, 0xd, 0xb8])"
    "in_block 128 (0x01000000000000000000000000000000, 64) (value_of bs) = (take 8 bs = [1, 0, 0, 0, 0, 0, 0, 0])"
    "in_block 128 (0, 8) (value_of bs) = (take 1 bs = [0])"
proof -
  have w: "in_block 128 (base, 8 * k) (value_of bs) = (take k bs = ps)"
    if "base div 2 ^ (128 - 8 * k) = value_of ps" "bytes ps" "k = length ps" "k \<le> 16" for base k ps
    using block_bytes [OF assms that(2-4,1)] .
  show "in_block 128 (0xFFFF00000000, 96) (value_of bs) = (take 12 bs = [0, 0, 0, 0, 0, 0, 0, 0, 0, 0, 255, 255])"
    using w [OF prefix_values(1)] by simp
  show "in_block 128 (0, 96) (value_of bs) = (take 12 bs = [0, 0, 0, 0, 0, 0, 0, 0, 0, 0, 0, 0])"
    using w [OF prefix_values(2)] by simp
  show "in_block 128 (0x0064FF9B000000000000000000000000, 96) (value_of bs) = (take 12 bs = [0, 0x64, 0xff, 0x9b, 0, 0, 0, 0, 0, 0, 0, 0])"
    using w [OF prefix_values(3)] by simp
  show "in_block 128 (0x20020000000000000000000000000000, 16) (value_of bs) = (take 2 bs = [0x20, 2])"
    using w [OF prefix_values(4)] by simp
  show "in_block 128 (0xFF000000000000000000000000000000, 8) (value_of bs) = (take 1 bs = [255])"
    using w [OF prefix_values(5)] by simp
  show "in_block 128 (0x20010DB8000000000000000000000000, 32) (value_of bs) = (take 4 bs = [0x20, 1, 0xd, 0xb8])"
    using w [OF prefix_values(6)] by simp
  show "in_block 128 (0x01000000000000000000000000000000, 64) (value_of bs) = (take 8 bs = [1, 0, 0, 0, 0, 0, 0, 0])"
    using w [OF prefix_values(7)] by simp
  show "in_block 128 (0, 8) (value_of bs) = (take 1 bs = [0])"
    using w [OF prefix_values(8)] by simp
qed

text \<open>The two blocks that end inside a byte.\<close>

lemma split_blocks:
  assumes "bytes bs" "length bs = 16"
  shows "in_block 128 (0xFC000000000000000000000000000000, 7) (value_of bs) = (bs ! 0 AND 0xfe = 0xfc)"
    "in_block 128 (0xFE800000000000000000000000000000, 10) (value_of bs) = (bs ! 0 = 0xfe \<and> bs ! 1 AND 0xc0 = 0x80)"
proof -
  obtain a b cs where bs: "bs = a # b # cs" "length cs = 14" using assms(2) by (auto simp: length_Suc_conv eval_nat_numeral)
  have ab: "a \<le> 255" "b \<le> 255" using assms(1) bs by simp_all
  have one: "value_of bs div 256 ^ 15 = a" and two: "value_of bs div 256 ^ 14 = 256 * a + b"
    using value_take [OF assms(1), of 1] value_take [OF assms(1), of 2] assms(2) bs by (simp_all add: value_Cons)
  have "value_of bs div 2 ^ 121 = value_of bs div 256 ^ 15 div 2" "value_of bs div 2 ^ 118 = value_of bs div 256 ^ 14 div 64"
    by (simp_all add: div_mult2_eq [symmetric])
  then have v: "value_of bs div 2 ^ 121 = a div 2" "value_of bs div 2 ^ 118 = (256 * a + b) div 64"
    by (simp_all only: one two)
  have c: "(0xFC000000000000000000000000000000 :: nat) div 2 ^ 121 = 126" "(0xFE800000000000000000000000000000 :: nat) div 2 ^ 118 = 1018"
    by code_simp+
  have "(256 * a + b) div 64 = 4 * a + b div 64" by simp
  then have "((256 * a + b) div 64 = 1018) = (a = 254 \<and> b div 64 = 2)"
    using digits_eq [of "b div 64" 4 2 a 254] ab by simp
  then show "in_block 128 (0xFC000000000000000000000000000000, 7) (value_of bs) = (bs ! 0 AND 0xfe = 0xfc)"
    "in_block 128 (0xFE800000000000000000000000000000, 10) (value_of bs) = (bs ! 0 = 0xfe \<and> bs ! 1 AND 0xc0 = 0x80)"
    unfolding in_block_def fst_conv snd_conv using v c mask_values ab bs by simp_all
qed


lemma bytes_parts: "bytes bs \<Longrightarrow> bytes (take k bs)" "bytes bs \<Longrightarrow> bytes (slice i j bs)"
  by (auto simp: list_all_iff slice_def dest: in_set_takeD in_set_dropD)

lemma embedded_values:
  assumes "bytes bs" "length bs = 16"
  shows "value_of bs mod 2 ^ 32 = value_of (slice 12 16 bs)" "value_of bs div 2 ^ 80 mod 2 ^ 32 = value_of (slice 2 6 bs)"
proof -
  have p: "(2::nat) ^ 32 = 256 ^ (16 - 12)" "(2::nat) ^ 32 = 256 ^ (6 - 2)" "(2::nat) ^ 80 = 256 ^ (16 - 6)"
    by code_simp+
  show "value_of bs mod 2 ^ 32 = value_of (slice 12 16 bs)"
    unfolding p(1) using value_drop [OF assms(1), of 12] assms(2) by (simp add: slice_def)
  have "value_of bs div 2 ^ 80 = value_of (take 6 bs)"
    unfolding p(3) using value_take [OF assms(1), of 6] assms(2) by simp
  moreover have "value_of (take 6 bs) mod 2 ^ 32 = value_of (drop 2 (take 6 bs))"
    unfolding p(2) using value_drop [of "take 6 bs" 2] bytes_parts(1) [OF assms(1)] assms(2) by simp
  ultimately show "value_of bs div 2 ^ 80 mod 2 ^ 32 = value_of (slice 2 6 bs)" by (simp add: slice_def drop_take)
qed

text \<open>The arms of the code, as prefixes of the sixteen bytes.\<close>

lemma public_v6_arms:
  assumes "length bs = 16"
  shows "is_public_v6 bs =
    (let v4 = slice 12 16 bs
     in if take 12 bs = [0, 0, 0, 0, 0, 0, 0, 0, 0, 0, 255, 255] then is_public_v4 v4
        else if take 12 bs = [0, 0, 0, 0, 0, 0, 0, 0, 0, 0, 0, 0] then v4 \<noteq> [0, 0, 0, 0] \<and> v4 \<noteq> [0, 0, 0, 1] \<and> is_public_v4 v4
        else if take 12 bs = [0, 0x64, 0xff, 0x9b, 0, 0, 0, 0, 0, 0, 0, 0] then is_public_v4 v4
        else if take 2 bs = [0x20, 2] then is_public_v4 (slice 2 6 bs)
        else \<not> (bs ! 0 AND 0xfe = 0xfc \<or> bs ! 0 = 0xfe \<and> bs ! 1 AND 0xc0 = 0x80 \<or> take 1 bs = [255] \<or>
             take 4 bs = [0x20, 1, 0xd, 0xb8] \<or> take 8 bs = [1, 0, 0, 0, 0, 0, 0, 0] \<or> take 1 bs = [0]))"
proof -
  obtain a b c d e f g h i j k l m n p q where bs: "bs = [a, b, c, d, e, f, g, h, i, j, k, l, m, n, p, q]"
    using assms by (auto simp: length_Suc_conv eval_nat_numeral)
  have n: "bs ! 0 = a" "bs ! 1 = b" "bs ! 2 = c" "bs ! 3 = d" "bs ! 10 = k" "bs ! 11 = l" by (simp_all add: bs)
  have z: "zeros 0 10 bs = (a = 0 \<and> b = 0 \<and> c = 0 \<and> d = 0 \<and> e = 0 \<and> f = 0 \<and> g = 0 \<and> h = 0 \<and> i = 0 \<and> j = 0)"
    "zeros 0 12 bs = (a = 0 \<and> b = 0 \<and> c = 0 \<and> d = 0 \<and> e = 0 \<and> f = 0 \<and> g = 0 \<and> h = 0 \<and> i = 0 \<and> j = 0 \<and> k = 0 \<and> l = 0)"
    "zeros 4 12 bs = (e = 0 \<and> f = 0 \<and> g = 0 \<and> h = 0 \<and> i = 0 \<and> j = 0 \<and> k = 0 \<and> l = 0)"
    "zeros 2 8 bs = (c = 0 \<and> d = 0 \<and> e = 0 \<and> f = 0 \<and> g = 0 \<and> h = 0)"
    by (simp_all add: bs zeros_def slice_def)
  have t: "take 12 bs = [a, b, c, d, e, f, g, h, i, j, k, l]" "take 2 bs = [a, b]" "take 1 bs = [a]" "take 4 bs = [a, b, c, d]"
    "take 8 bs = [a, b, c, d, e, f, g, h]" "slice 12 16 bs = [m, n, p, q]"
    by (simp_all add: bs slice_def)
  have v: "list_all (\<lambda>x. x = 0) [m, n, p, q] = ([m, n, p, q] = [0, 0, 0, 0])"
    "([m, n, p, q] ! 0 = 0 \<and> [m, n, p, q] ! 1 = 0 \<and> [m, n, p, q] ! 2 = 0 \<and> [m, n, p, q] ! 3 = 1) = ([m, n, p, q] = [0, 0, 0, 1])"
    by simp_all
  show ?thesis
    unfolding is_public_v6_def Let_def n z t v by auto
qed

lemma public_v6_routable:
  assumes "bytes bs" "length bs = 16"
  shows "is_public_v6 bs = routable_v6 (value_of bs)"
proof -
  have v4: "is_public_v4 (slice i j bs) = routable_v4 (value_of (slice i j bs))" if "j = i + 4" "j \<le> 16" for i j
  proof -
    have "length (slice i j bs) = 4" using that assms(2) by (simp add: slice_def)
    then show ?thesis using public_v4_routable [OF bytes_parts(2) [OF assms(1)]] by blast
  qed
  have "\<not> routable_v4 (value_of [0, 0, 0, 0])" "\<not> routable_v4 (value_of [0, 0, 0, 1])" by code_simp+
  then have u: "(slice 12 16 bs \<noteq> [0, 0, 0, 0] \<and> slice 12 16 bs \<noteq> [0, 0, 0, 1] \<and> is_public_v4 (slice 12 16 bs)) =
      routable_v4 (value_of (slice 12 16 bs))"
    using v4 [of 16 12] by auto
  show ?thesis
    unfolding public_v6_arms [OF assms(2)] routable_v6_def embedded_v4_def special_v6_def Let_def u
      whole_blocks [OF assms] split_blocks [OF assms] embedded_values [OF assms] list_ex_iff
    using v4 [of 16 12] v4 [of 6 2] by (simp add: whole_blocks [OF assms] split_blocks [OF assms])
qed

text \<open>
  C26. The guard's classifier is the registry's, address by address. Read as a number, an IPv4 address is
  let through exactly when it lies in none of the special-purpose prefixes the guard lists (0/8, 10/8,
  127/8, 169.254/16, 172.16/12, 192.168/16, 100.64/10, 192.0.0/24, the documentation and benchmark nets,
  192.88.99/24 and 224/3); an IPv6 address that carries an IPv4 address (mapped, compatible, NAT64, 6to4)
  exactly when that address is, and any other exactly when it is in none of fc00::/7, fe80::/10,
  ff00::/8, 2001:db8::/32, 100::/64 and ::/8. The nested comparisons of bytes decide nothing else.
\<close>

theorem guard_matches_registry:
  "is_public_unicast_ip s =
     (case ip_to_bytes s of
        None \<Rightarrow> False
      | Some bs \<Rightarrow> if is_ipv4 s then routable_v4 (value_of bs) else routable_v6 (value_of bs))"
proof (cases "ip_to_bytes s")
  case None
  then show ?thesis by (simp add: is_public_unicast_ip_def)
next
  case (Some bs)
  then have "bytes bs" "length bs = (if is_ipv4 s then 4 else 16)"
    using reads_as_bytes [of s] by (auto split: if_splits)
  then show ?thesis
    using Some public_v4_routable public_v6_routable by (simp add: is_public_unicast_ip_def)
qed

text \<open>The deprecated site-local block fec0::/10 is in none of the guard's prefixes, so it passes as public.\<close>

lemma site_local_passes: "is_public_unicast_ip ''fec0::1''"
  by code_simp

lemma guard_samples:
  "\<not> is_public_unicast_ip ''169.254.169.254''" "\<not> is_public_unicast_ip ''::ffff:a9fe:a9fe''" "\<not> is_public_unicast_ip ''64:ff9b::10.0.0.1''"
  "\<not> is_public_unicast_ip ''2002:7f00:1::''" "is_public_unicast_ip ''1.1.1.1''" "is_public_unicast_ip ''2606:4700::1111''"
  by code_simp+

end
