(* ===== verification/Net_Fetch.thy ===== *)
theory Net_Fetch
  imports Net_Classify
begin

text \<open>
  The guarded fetch (lib/net/ssrf-guard.ts): \<open>assertSafeUrl\<close>, the pinned lookup and \<open>safeFetch\<close> with its
  redirects. The URL parser, the resolver and undici's fetch are parameters, over any world; a call
  returns what it returned or threw, and the lookups and connections it made in order. The timeouts and
  the caller's signal reach the code only as a lookup that timed out or a fetch that threw.
\<close>

section \<open>What the guard calls\<close>

record parsed_url =
  pu_protocol :: string
  pu_hostname :: string
  pu_href :: string

record lookup_address =
  la_address :: string
  la_family :: nat

datatype lookup_answer = LkTimedOut | LkFailed | LkAddresses "lookup_address list"

text \<open>A response's status and its \<open>Location\<close> header.\<close>

record http_response =
  hr_status :: nat
  hr_location :: "string option"

datatype fetch_answer = FaThrown | FaResponse http_response

record 'w outbound =
  ob_parse :: "string \<Rightarrow> parsed_url option"
  ob_resolve :: "string \<Rightarrow> parsed_url \<Rightarrow> string option"
  ob_lookup :: "string \<Rightarrow> 'w \<Rightarrow> lookup_answer \<times> 'w"
  ob_fetch :: "parsed_url \<Rightarrow> lookup_address list \<Rightarrow> 'w \<Rightarrow> fetch_answer \<times> 'w"

datatype fetch_error =
  SsrfInvalidUrl | SsrfScheme string | SsrfLookupTimeout string | SsrfUnresolved string | SsrfNoAddress string
| SsrfPrivate string string | SsrfRedirects | FetchThrew | BadLocation

datatype outbound_event = OeLookup string lookup_answer | OeFetch parsed_url "lookup_address list"

section \<open>The guard\<close>

definition max_redirects :: nat where "max_redirects = 3"

definition is_redirect_status :: "nat \<Rightarrow> bool" where
  "is_redirect_status s \<longleftrightarrow> s = 301 \<or> s = 302 \<or> s = 303 \<or> s = 307 \<or> s = 308"

text \<open>\<open>hostname.replace(/^\[|\]$/g, "")\<close>\<close>

definition strip_brackets :: "string \<Rightarrow> string" where
  "strip_brackets h =
     (let a = (case h of [] \<Rightarrow> [] | c # cs \<Rightarrow> if c = CHR ''['' then cs else h)
      in if a \<noteq> [] \<and> last a = CHR '']'' then butlast a else a)"

definition assert_safe_url ::
  "'w outbound \<Rightarrow> string \<Rightarrow> 'w \<Rightarrow> (fetch_error + (parsed_url \<times> lookup_address list)) \<times> outbound_event list \<times> 'w" where
  "assert_safe_url d url w =
     (case ob_parse d url of
        None \<Rightarrow> (Inl SsrfInvalidUrl, [], w)
      | Some p \<Rightarrow>
          if pu_protocol p \<noteq> ''https:'' then (Inl (SsrfScheme (pu_protocol p)), [], w)
          else (let host = strip_brackets (pu_hostname p); (ans, w') = ob_lookup d host w; tr = [OeLookup host ans]
                in case ans of
                     LkTimedOut \<Rightarrow> (Inl (SsrfLookupTimeout host), tr, w')
                   | LkFailed \<Rightarrow> (Inl (SsrfUnresolved (pu_hostname p)), tr, w')
                   | LkAddresses as \<Rightarrow>
                       if as = [] then (Inl (SsrfNoAddress (pu_hostname p)), tr, w')
                       else (case List.find (\<lambda>a. \<not> is_public_unicast_ip (la_address a)) as of
                               Some a \<Rightarrow> (Inl (SsrfPrivate (la_address a) (pu_hostname p)), tr, w')
                             | None \<Rightarrow> (Inr (p, as), tr, w'))))"

text \<open>What the pinned lookup answers the socket, for either shape of call.\<close>

definition pinned_lookup :: "lookup_address list \<Rightarrow> bool \<Rightarrow> lookup_address list" where
  "pinned_lookup as all = (if all then as else [hd as])"

function safe_hops :: "'w outbound \<Rightarrow> string \<Rightarrow> nat \<Rightarrow> 'w \<Rightarrow> (fetch_error + http_response) \<times> outbound_event list \<times> 'w" where
  "safe_hops d url hop w =
     (case assert_safe_url d url w of
        (Inl e, tr, w1) \<Rightarrow> (Inl e, tr, w1)
      | (Inr (p, as), tr, w1) \<Rightarrow>
          (let (ans, w2) = ob_fetch d p as w1; tr2 = tr @ [OeFetch p as]
           in case ans of
                FaThrown \<Rightarrow> (Inl FetchThrew, tr2, w2)
              | FaResponse r \<Rightarrow>
                  if is_redirect_status (hr_status r) \<and> hr_location r \<noteq> None \<and> hr_location r \<noteq> Some ''''
                  then (if hop \<ge> max_redirects then (Inl SsrfRedirects, tr2, w2)
                        else (case ob_resolve d (the (hr_location r)) p of
                                None \<Rightarrow> (Inl BadLocation, tr2, w2)
                              | Some url' \<Rightarrow> (case safe_hops d url' (hop + 1) w2 of (res, tr3, w3) \<Rightarrow> (res, tr2 @ tr3, w3))))
                  else (Inr r, tr2, w2)))"
  by pat_completeness auto
termination
  by (relation "measure (\<lambda>(d, url, hop, w). max_redirects - hop)") auto

declare safe_hops.simps [simp del]

definition safe_fetch :: "'w outbound \<Rightarrow> string \<Rightarrow> 'w \<Rightarrow> (fetch_error + http_response) \<times> outbound_event list \<times> 'w" where
  "safe_fetch d url w = safe_hops d url 0 w"

section \<open>What a call may touch\<close>

text \<open>A hop's connection: over https, to the non-empty answer of the lookup of its own host, all public.\<close>

definition dialled :: "string \<Rightarrow> lookup_answer \<Rightarrow> parsed_url \<Rightarrow> lookup_address list \<Rightarrow> bool" where
  "dialled h ans p as \<longleftrightarrow> pu_protocol p = ''https:'' \<and> h = strip_brackets (pu_hostname p) \<and> ans = LkAddresses as \<and> as \<noteq> [] \<and>
     list_all (\<lambda>a. is_public_unicast_ip (la_address a)) as"

fun guarded_trace :: "outbound_event list \<Rightarrow> bool" where
  "guarded_trace [] = True"
| "guarded_trace [OeLookup h ans] = True"
| "guarded_trace (OeLookup h ans # OeFetch p as # tr) \<longleftrightarrow> dialled h ans p as \<and> guarded_trace tr"
| "guarded_trace _ = False"

fun is_dial :: "outbound_event \<Rightarrow> bool" where
  "is_dial (OeFetch p as) = True"
| "is_dial _ = False"

lemma assert_safe_outcomes:
  obtains (refused) e tr w' where "assert_safe_url d url w = (Inl e, tr, w')" "tr = [] \<or> (\<exists>h ans. tr = [OeLookup h ans])"
  | (safe) p as h w' where "assert_safe_url d url w = (Inr (p, as), [OeLookup h (LkAddresses as)], w')"
      "dialled h (LkAddresses as) p as"
proof (cases "ob_parse d url")
  case None
  then show ?thesis using refused by (simp add: assert_safe_url_def)
next
  case (Some p)
  let ?h = "strip_brackets (pu_hostname p)"
  obtain ans w' where l: "ob_lookup d ?h w = (ans, w')" by fastforce
  show ?thesis
  proof (cases "pu_protocol p = ''https:'' \<and> (\<exists>as. ans = LkAddresses as \<and> as \<noteq> [] \<and>
      List.find (\<lambda>a. \<not> is_public_unicast_ip (la_address a)) as = None)")
    case True
    then obtain as where as: "ans = LkAddresses as" "as \<noteq> []" "List.find (\<lambda>a. \<not> is_public_unicast_ip (la_address a)) as = None"
      by blast
    then have "assert_safe_url d url w = (Inr (p, as), [OeLookup ?h (LkAddresses as)], w')"
      using True Some l by (simp add: assert_safe_url_def)
    moreover have "dialled ?h (LkAddresses as) p as"
      using True as by (auto simp: dialled_def find_None_iff list_all_iff)
    ultimately show ?thesis by (rule safe)
  next
    case False
    then have "\<exists>e tr w'. assert_safe_url d url w = (Inl e, tr, w') \<and> (tr = [] \<or> (\<exists>h ans. tr = [OeLookup h ans]))"
      using Some l by (auto simp: assert_safe_url_def Let_def split: lookup_answer.split option.split)
    then show ?thesis using refused by blast
  qed
qed

text \<open>How a call of the loop may end.\<close>

definition final_response :: "http_response \<Rightarrow> bool" where
  "final_response r \<longleftrightarrow> \<not> (is_redirect_status (hr_status r) \<and> hr_location r \<noteq> None \<and> hr_location r \<noteq> Some '''')"

lemma safe_hops_ok:
  "hop \<le> max_redirects \<Longrightarrow> guarded_trace (fst (snd (safe_hops d url hop w))) \<and>
     length (filter is_dial (fst (snd (safe_hops d url hop w)))) \<le> max_redirects + 1 - hop \<and>
     (case fst (safe_hops d url hop w) of Inl e \<Rightarrow> True
      | Inr r \<Rightarrow> final_response r \<and> (\<exists>p as. fst (snd (safe_hops d url hop w)) \<noteq> [] \<and> last (fst (snd (safe_hops d url hop w))) = OeFetch p as))"
proof (induction "max_redirects - hop" arbitrary: url hop w rule: less_induct)
  case less
  show ?case
  proof (cases rule: assert_safe_outcomes [of d url w])
    case (refused e tr w')
    then show ?thesis by (auto simp: safe_hops.simps [of d url])
  next
    case (safe p as h w')
    obtain ans w2 where f: "ob_fetch d p as w' = (ans, w2)" by fastforce
    show ?thesis
    proof (cases "\<exists>r url'. ans = FaResponse r \<and> \<not> final_response r \<and> hop < max_redirects \<and> ob_resolve d (the (hr_location r)) p = Some url'")
      case True
      then obtain r url' where r: "ans = FaResponse r" "\<not> final_response r" "hop < max_redirects"
        "ob_resolve d (the (hr_location r)) p = Some url'" by blast
      let ?k = "safe_hops d url' (hop + 1) w2"
      have s: "safe_hops d url hop w = (fst ?k, [OeLookup h (LkAddresses as), OeFetch p as] @ fst (snd ?k), snd (snd ?k))"
        using safe f r by (simp add: safe_hops.simps [of d url hop] final_response_def case_prod_unfold)
      have ih: "guarded_trace (fst (snd ?k)) \<and> length (filter is_dial (fst (snd ?k))) \<le> max_redirects + 1 - (hop + 1) \<and>
        (case fst ?k of Inl e \<Rightarrow> True
         | Inr r \<Rightarrow> final_response r \<and> (\<exists>p as. fst (snd ?k) \<noteq> [] \<and> last (fst (snd ?k)) = OeFetch p as))"
        by (rule less.hyps) (use r(3) in simp_all)
      show ?thesis unfolding s using ih safe(2) r(3) by (auto split: sum.splits)
    next
      case False
      then have "safe_hops d url hop w \<in> {(Inl FetchThrew, [OeLookup h (LkAddresses as), OeFetch p as], w2),
          (Inl SsrfRedirects, [OeLookup h (LkAddresses as), OeFetch p as], w2), (Inl BadLocation, [OeLookup h (LkAddresses as), OeFetch p as], w2)}
          \<or> (\<exists>r. final_response r \<and> safe_hops d url hop w = (Inr r, [OeLookup h (LkAddresses as), OeFetch p as], w2))"
        using safe f by (cases ans) (auto simp: safe_hops.simps [of d url hop] final_response_def Let_def split: option.splits)
      then show ?thesis using safe(2) less.prems by auto
    qed
  qed
qed


lemma guarded_dial: "guarded_trace tr \<Longrightarrow> OeFetch p as \<in> set tr \<Longrightarrow> \<exists>h. dialled h (LkAddresses as) p as"
  by (induction tr rule: guarded_trace.induct) (auto simp: dialled_def)

text \<open>
  C27. A guarded fetch never reaches a private address (server-side request forgery). Whatever the URL,
  the resolver's answers, which may change from one lookup to the next, the responses and the redirects:
  the call alternates lookups and connections, and every connection is over https, to the host just
  looked up, pinned to exactly that answer, every address of which is public; whatever the pinned lookup
  hands the socket is one of them. A redirect is never followed without the same checks and never
  returned as the response, and a call makes at most four connections.
\<close>

theorem fetch_stays_public:
  "guarded_trace (fst (snd (safe_fetch d url w))) \<and>
   list_all (\<lambda>x. case x of OeLookup h ans \<Rightarrow> True
      | OeFetch p as \<Rightarrow> pu_protocol p = ''https:'' \<and>
          list_all (\<lambda>all. pinned_lookup as all \<noteq> [] \<and> list_all (\<lambda>a. is_public_unicast_ip (la_address a)) (pinned_lookup as all))
            [True, False]) (fst (snd (safe_fetch d url w))) \<and>
   length (filter is_dial (fst (snd (safe_fetch d url w)))) \<le> 4 \<and>
   (case fst (safe_fetch d url w) of Inl e \<Rightarrow> True | Inr r \<Rightarrow> final_response r)"
proof -
  let ?tr = "fst (snd (safe_fetch d url w))"
  have s: "guarded_trace ?tr" "length (filter is_dial ?tr) \<le> 4" "case fst (safe_fetch d url w) of Inl e \<Rightarrow> True | Inr r \<Rightarrow> final_response r"
    using safe_hops_ok [of 0 d url w] by (auto simp: safe_fetch_def max_redirects_def split: sum.splits)
  have pin: "pinned_lookup as all \<noteq> [] \<and> list_all (\<lambda>a. is_public_unicast_ip (la_address a)) (pinned_lookup as all)"
    if "dialled h ans p as" for h ans p as all
    using that by (cases as) (auto simp: dialled_def pinned_lookup_def)
  have "pu_protocol p = ''https:'' \<and> (\<forall>all. pinned_lookup as all \<noteq> [] \<and>
      list_all (\<lambda>a. is_public_unicast_ip (la_address a)) (pinned_lookup as all))" if "OeFetch p as \<in> set ?tr" for p as
    using guarded_dial [OF s(1) that] pin by (auto simp: dialled_def)
  then show ?thesis using s by (auto simp: list_all_iff split: outbound_event.split)
qed

text \<open>A host that rebinds between lookups: the redirect to it is refused after one connection.\<close>

definition sample_outbound :: "nat outbound" where
  "sample_outbound = \<lparr>ob_parse = (\<lambda>u. Some \<lparr>pu_protocol = ''https:'', pu_hostname = ''hooks.example'', pu_href = u\<rparr>),
     ob_resolve = (\<lambda>l p. Some l),
     ob_lookup = (\<lambda>h n. (LkAddresses [\<lparr>la_address = (if n = 0 then ''1.1.1.1'' else ''10.0.0.1''), la_family = 4\<rparr>], n + 1)),
     ob_fetch = (\<lambda>p as n. (FaResponse \<lparr>hr_status = 302, hr_location = Some ''https://hooks.example/again''\<rparr>, n))\<rparr>"

lemma sample_rebinding:
  "fst (safe_fetch sample_outbound ''https://hooks.example'' 0) = Inl (SsrfPrivate ''10.0.0.1'' ''hooks.example'')"
  "length (filter is_dial (fst (snd (safe_fetch sample_outbound ''https://hooks.example'' 0)))) = 1"
  by code_simp+

end
