(* ===== verification/Serve_Rows.thy ===== *)
theory Serve_Rows
  imports Draft_Sending
begin

text \<open>
  The rows behind Elench drafts and the reads every action shares: \<open>elench_drafts\<close> and the columns of
  \<open>agent_threads\<close> the actions touch (lib/db/schema/agent.ts), the reads of lib/elench/draft-gate.ts and
  \<open>turnText\<close> (lib/agent/turn-key.ts). Both tables are lists; the database's clock, the app server's clock
  and a fresh row id are an environment of the transaction. What a claim means is Serve_Claims.
\<close>

section \<open>Tables\<close>

record actor =
  ac_user :: string
  ac_org :: string

record draft_row =
  dr_id :: string
  dr_user :: string
  dr_org :: string
  dr_project :: "string option"
  dr_conversation :: string
  dr_revision :: int
  dr_status :: draft_row_state
  dr_discarded_at :: "int option"
  dr_content :: draft_content
  dr_claim_token :: "string option"
  dr_claim_turn :: "string option"
  dr_claim_kind :: "send_kind option"
  dr_claimed_at :: "int option"
  dr_failed_send :: "failed_send option"
  dr_last_sent :: "last_sent option"
  dr_thread_seen :: bool
  dr_title :: "utf16 option"
  dr_last_writer :: "string option"
  dr_updated_at :: int

text \<open>A transcript's message, as far as a turn is compared by it: its id, its author, its parts and its pills.\<close>

datatype message_part = TextPart utf16 | OtherPart

record ui_message =
  um_id :: string
  um_user :: bool
  um_parts :: "message_part list"
  um_mentions :: "draft_mention list"
  um_cell :: "cell_target option"

record thread_row =
  tr_id :: string
  tr_user :: string
  tr_org :: "string option"
  tr_project :: "string option"
  tr_agent :: bool
  tr_deleted :: bool
  tr_title :: utf16
  tr_messages :: "ui_message list"
  tr_thread_revision :: int

record server_db =
  sv_drafts :: "draft_row list"
  sv_threads :: "thread_row list"

text \<open>
  The clocks of one transaction: \<open>now()\<close> in milliseconds, the app server's \<open>new Date().toISOString()\<close>, how a
  timestamp prints, and the id the database mints for a row it inserts.
\<close>

record server_env =
  se_now :: int
  se_at :: string
  se_iso :: "int \<Rightarrow> string"
  se_row_id :: string

section \<open>Statements\<close>

text \<open>\<open>UPDATE ... WHERE p RETURNING\<close>: the rows as written, and the tables after it.\<close>

definition update_drafts :: "(draft_row \<Rightarrow> bool) \<Rightarrow> (draft_row \<Rightarrow> draft_row) \<Rightarrow> server_db \<Rightarrow> draft_row list \<times> server_db" where
  "update_drafts p f db =
     (map f (filter p (sv_drafts db)), db\<lparr>sv_drafts := map (\<lambda>r. if p r then f r else r) (sv_drafts db)\<rparr>)"

definition own_key :: "actor \<Rightarrow> string \<Rightarrow> draft_row \<Rightarrow> bool" where
  "own_key a conversation r \<longleftrightarrow> dr_user r = ac_user a \<and> dr_org r = ac_org a \<and> dr_conversation r = conversation"

definition own_scope :: "actor \<Rightarrow> string option \<Rightarrow> draft_row \<Rightarrow> bool" where
  "own_scope a project r \<longleftrightarrow> dr_user r = ac_user a \<and> dr_org r = ac_org a \<and> dr_project r = project"

definition own_row :: "actor \<Rightarrow> draft_row \<Rightarrow> draft_row \<Rightarrow> bool" where
  "own_row a row r \<longleftrightarrow> dr_id r = dr_id row \<and> dr_user r = ac_user a \<and> dr_org r = ac_org a"

text \<open>
  \<open>INSERT ... ON CONFLICT (user_id, org_id, conversation_id) DO NOTHING\<close>. A minted id that is taken violates
  the primary key, which the clause does not name: the statement throws.
\<close>

datatype insert_answer = Inserted server_db | KeyTaken | IdTaken

definition same_key :: "draft_row \<Rightarrow> draft_row \<Rightarrow> bool" where
  "same_key x r \<longleftrightarrow> dr_user x = dr_user r \<and> dr_org x = dr_org r \<and> dr_conversation x = dr_conversation r"

definition insert_draft :: "draft_row \<Rightarrow> server_db \<Rightarrow> insert_answer" where
  "insert_draft r db =
     (if list_ex (\<lambda>x. dr_id x = dr_id r) (sv_drafts db) then IdTaken
      else if list_ex (\<lambda>x. same_key x r) (sv_drafts db) then KeyTaken
      else Inserted (db\<lparr>sv_drafts := sv_drafts db @ [r]\<rparr>))"

definition lock_draft :: "actor \<Rightarrow> string \<Rightarrow> server_db \<Rightarrow> draft_row option" where
  "lock_draft a conversation db = List.find (own_key a conversation) (sv_drafts db)"

section \<open>Threads\<close>

text \<open>\<open>\r\n\<close> and a lone \<open>\r\<close> become \<open>\n\<close>.\<close>

fun unix_lines :: "utf16 \<Rightarrow> utf16" where
  "unix_lines [] = []"
| "unix_lines [u] = [if u = 13 then 10 else u]"
| "unix_lines (u # v # us) =
     (if u = 13 then 10 # (if v = 10 then unix_lines us else unix_lines (v # us)) else u # unix_lines (v # us))"

fun part_text :: "message_part \<Rightarrow> utf16" where
  "part_text (TextPart t) = t"
| "part_text OtherPart = []"

definition turn_text :: "ui_message \<Rightarrow> utf16" where
  "turn_text m = js_trim (unix_lines (normalize_draft_text (concat (map part_text (um_parts m)))))"

definition user_turn :: "string \<Rightarrow> utf16 \<Rightarrow> ui_message" where
  "user_turn turn text = \<lparr>um_id = turn, um_user = True, um_parts = [TextPart text], um_mentions = [], um_cell = None\<rparr>"

definition own_thread :: "actor \<Rightarrow> string \<Rightarrow> server_db \<Rightarrow> thread_row option" where
  "own_thread a conversation db = List.find (\<lambda>t. tr_id t = conversation \<and> tr_user t = ac_user a) (sv_threads db)"

definition thread_status_of :: "thread_row option \<Rightarrow> thread_status" where
  "thread_status_of t =
     (case t of
        None \<Rightarrow> ThreadNone
      | Some t \<Rightarrow> if tr_deleted t then ThreadDeleted else if tr_messages t \<noteq> [] then ThreadListed else ThreadUnlisted)"

datatype stored_turn_answer = StoredSame | StoredDifferent | StoredAbsent

definition stored_turn :: "actor \<Rightarrow> string \<Rightarrow> string \<Rightarrow> utf16 \<Rightarrow> server_db \<Rightarrow> stored_turn_answer" where
  "stored_turn a conversation turn text db =
     (case List.find (\<lambda>t. tr_id t = conversation \<and> tr_user t = ac_user a \<and> \<not> tr_deleted t) (sv_threads db) of
        None \<Rightarrow> StoredAbsent
      | Some t \<Rightarrow>
          (let want = turn_text (user_turn turn text); with_id = filter (\<lambda>m. um_id m = turn) (tr_messages t)
           in if with_id = [] then StoredAbsent
              else if list_ex (\<lambda>m. turn_text m = want) with_id then StoredSame else StoredDifferent))"

definition live_thread :: "thread_status \<Rightarrow> bool" where
  "live_thread s \<longleftrightarrow> s = ThreadListed \<or> s = ThreadUnlisted"

definition first_turn_id :: "thread_row option \<Rightarrow> string option" where
  "first_turn_id t = (case t of None \<Rightarrow> None | Some t \<Rightarrow> (case tr_messages t of [] \<Rightarrow> None | m # ms \<Rightarrow> Some (um_id m)))"

definition read_thread :: "actor \<Rightarrow> string \<Rightarrow> string option \<Rightarrow> utf16 \<Rightarrow> server_db \<Rightarrow> draft_thread" where
  "read_thread a conversation turn text db =
     (let t = own_thread a conversation db; status = thread_status_of t
      in \<lparr>dt_status = status, dt_first_turn = (if live_thread status then first_turn_id t else None),
          dt_has_turn = (case turn of None \<Rightarrow> False
            | Some turn \<Rightarrow> status = ThreadListed \<and> stored_turn a conversation turn text db = StoredSame)\<rparr>)"

definition thread_title_of :: "thread_row option \<Rightarrow> utf16 option" where
  "thread_title_of t = (if live_thread (thread_status_of t) then map_option tr_title t else None)"

section \<open>A row as the client sees it\<close>

definition row_claim_shown :: "server_env \<Rightarrow> draft_row \<Rightarrow> draft_claim option" where
  "row_claim_shown env r =
     (case (dr_claim_token r, dr_claim_turn r, dr_claim_kind r, dr_claimed_at r) of
        (Some token, Some turn, Some kind, Some at) \<Rightarrow>
          if dr_status r = RowSending then Some \<lparr>cl_token = token, cl_turn = turn, cl_kind = kind, cl_at = se_iso env at\<rparr> else None
      | _ \<Rightarrow> None)"

definition to_server_draft :: "server_env \<Rightarrow> draft_row \<Rightarrow> server_draft" where
  "to_server_draft env r = \<lparr>sd_org = dr_org r, sd_project = dr_project r, sd_conversation = dr_conversation r,
     sd_revision = dr_revision r, sd_state = dr_status r, sd_content = dr_content r, sd_claim = row_claim_shown env r,
     sd_failed_send = dr_failed_send r, sd_last_sent = dr_last_sent r, sd_thread_seen = dr_thread_seen r,
     sd_title = dr_title r, sd_last_writer = dr_last_writer r, sd_discarded_at = map_option (se_iso env) (dr_discarded_at r),
     sd_updated_at = se_iso env (dr_updated_at r)\<rparr>"

end
