(* ===== verification/Serve_Claims.thy ===== *)
theory Serve_Claims
  imports Serve_Rows
begin

text \<open>
  The draft claim's mechanics (lib/elench/draft-claims.ts): the claim a sending row holds, its two ends
  (consume S3, release S4), the 120 s lease settle (S5) for one row and for a scope, and the heartbeat's
  renewal (S7). Every function runs inside its caller's transaction and takes and returns the tables.
\<close>

definition claim_lease_ms :: int where "claim_lease_ms = 120000"
definition lease_error :: string where "lease_error = ''lease''"

text \<open>\<open>claimed_at < now() - interval\<close>; a null is not true.\<close>

definition claim_is_silent :: "server_env \<Rightarrow> draft_row \<Rightarrow> bool" where
  "claim_is_silent env r = (case dr_claimed_at r of None \<Rightarrow> False | Some at \<Rightarrow> at < se_now env - claim_lease_ms)"

record row_claim =
  rc_token :: string
  rc_turn :: string
  rc_kind :: send_kind

definition claim_of :: "draft_row \<Rightarrow> row_claim option" where
  "claim_of r =
     (case (dr_claim_token r, dr_claim_turn r, dr_claim_kind r) of
        (Some token, Some turn, Some kind) \<Rightarrow>
          if dr_status r = RowSending then Some \<lparr>rc_token = token, rc_turn = turn, rc_kind = kind\<rparr> else None
      | _ \<Rightarrow> None)"

definition thread_of :: "actor \<Rightarrow> draft_row \<Rightarrow> server_db \<Rightarrow> draft_thread" where
  "thread_of a r db = read_thread a (dr_conversation r) (dr_claim_turn r) (dc_text (dr_content r)) db"

definition gone_of :: "actor \<Rightarrow> string \<Rightarrow> server_db \<Rightarrow> draft_thread" where
  "gone_of a conversation db = read_thread a conversation None [] db"

section \<open>Ending a claim\<close>

datatype claim_end = EndConsume | EndRelease "string option" string bool

definition claim_ended :: "server_env \<Rightarrow> row_claim \<Rightarrow> int \<Rightarrow> claim_end \<Rightarrow> draft_row \<Rightarrow> draft_row" where
  "claim_ended env c revision how r =
     (let r1 = r\<lparr>dr_status := RowActive, dr_claim_token := None, dr_claim_turn := None, dr_claim_kind := None,
            dr_claimed_at := None, dr_revision := revision + 1, dr_updated_at := se_now env\<rparr>
      in case how of
           EndConsume \<Rightarrow> r1\<lparr>dr_content := empty_content, dr_failed_send := None,
             dr_last_sent := Some \<lparr>ls_turn = rc_turn c, ls_kind = rc_kind c, ls_at = se_at env\<rparr>\<rparr>
         | EndRelease turn error uncertain \<Rightarrow> r1\<lparr>dr_failed_send := Some \<lparr>fs_turn = turn, fs_kind = rc_kind c, fs_error = error,
             fs_uncertain = uncertain, fs_at = se_at env\<rparr>\<rparr>)"

definition holds_claim :: "actor \<Rightarrow> draft_row \<Rightarrow> row_claim \<Rightarrow> draft_row \<Rightarrow> bool" where
  "holds_claim a row c r \<longleftrightarrow> own_row a row r \<and> dr_status r = RowSending \<and> dr_claim_token r = Some (rc_token c)"

definition end_claim ::
  "server_env \<Rightarrow> actor \<Rightarrow> draft_row \<Rightarrow> row_claim \<Rightarrow> claim_end \<Rightarrow> bool \<Rightarrow> server_db \<Rightarrow> draft_row option \<times> server_db" where
  "end_claim env a row c how only_if_silent db =
     (case update_drafts (\<lambda>r. holds_claim a row c r \<and> (only_if_silent \<longrightarrow> claim_is_silent env r)) (claim_ended env c (dr_revision row) how) db of
        (rs, db') \<Rightarrow> (case rs of [] \<Rightarrow> None | r # _ \<Rightarrow> Some r, db'))"

section \<open>The lease settle\<close>

definition settle_end :: "actor \<Rightarrow> draft_row \<Rightarrow> row_claim \<Rightarrow> server_db \<Rightarrow> claim_end" where
  "settle_end a row c db =
     (case rc_kind c of
        SendFirst \<Rightarrow> EndRelease (Some (rc_turn c)) lease_error False
      | SendLater \<Rightarrow>
          (case stored_turn a (dr_conversation row) (rc_turn c) (dc_text (dr_content row)) db of
             StoredSame \<Rightarrow> EndConsume
           | StoredDifferent \<Rightarrow> EndRelease None lease_error False
           | StoredAbsent \<Rightarrow> EndRelease (Some (rc_turn c)) lease_error True))"

definition settle_silent :: "server_env \<Rightarrow> actor \<Rightarrow> draft_row \<Rightarrow> row_claim \<Rightarrow> server_db \<Rightarrow> draft_row \<times> server_db" where
  "settle_silent env a row c db =
     (case end_claim env a row c (settle_end a row c db) True db of
        (None, db') \<Rightarrow> (row, db')
      | (Some r, db') \<Rightarrow> (r, db'))"

definition settle_if_silent :: "server_env \<Rightarrow> actor \<Rightarrow> draft_row \<Rightarrow> string option \<Rightarrow> server_db \<Rightarrow> draft_row \<times> server_db" where
  "settle_if_silent env a row presented db =
     (case claim_of row of
        None \<Rightarrow> (row, db)
      | Some c \<Rightarrow>
          if Some (rc_token c) = presented then (row, db)
          else (case List.find (own_row a row) (sv_drafts db) of
                  None \<Rightarrow> (row, db)
                | Some r \<Rightarrow> if claim_is_silent env r then settle_silent env a row c db else (row, db)))"

text \<open>The rows are read first, then settled one by one.\<close>

definition silent_in_scope :: "server_env \<Rightarrow> actor \<Rightarrow> string option \<Rightarrow> draft_row \<Rightarrow> bool" where
  "silent_in_scope env a project r \<longleftrightarrow> own_scope a project r \<and> dr_status r = RowSending \<and> claim_is_silent env r"

definition settle_listed :: "server_env \<Rightarrow> actor \<Rightarrow> draft_row \<Rightarrow> server_db \<Rightarrow> server_db" where
  "settle_listed env a row db = (case claim_of row of None \<Rightarrow> db | Some c \<Rightarrow> snd (settle_silent env a row c db))"

definition settle_scope :: "server_env \<Rightarrow> actor \<Rightarrow> string option \<Rightarrow> server_db \<Rightarrow> server_db" where
  "settle_scope env a project db = fold (settle_listed env a) (filter (silent_in_scope env a project) (sv_drafts db)) db"

section \<open>The heartbeat\<close>

definition touch_claim :: "server_env \<Rightarrow> actor \<Rightarrow> string \<Rightarrow> string \<Rightarrow> server_db \<Rightarrow> touch_result \<times> server_db" where
  "touch_claim env a conversation token db =
     (case update_drafts (\<lambda>r. own_key a conversation r \<and> dr_status r = RowSending \<and> dr_claim_token r = Some token)
             (\<lambda>r. r\<lparr>dr_claimed_at := Some (se_now env)\<rparr>) db of
        (r # _, db') \<Rightarrow> (TouchDone, db')
      | ([], db') \<Rightarrow>
          (case lock_draft a conversation db' of
             None \<Rightarrow> (TouchGone (gone_of a conversation db'), db')
           | Some r \<Rightarrow> (TouchNotClaimed (to_server_draft env r) (thread_of a r db'), db')))"

end
