(* ===== verification/Serve_Gate.thy ===== *)
theory Serve_Gate
  imports Serve_Rows
begin

text \<open>
  The preamble of every Elench draft action (lib/elench/draft-gate.ts): the actor, the org check, the rate
  limit, the quiet authorization and one transaction for the body, with every expected throw mapped to a
  refusal. The session, the rate limiter, the authorization and the organizations are parameters; a throw
  is one of the kinds the code tells apart. A transaction may fail after its body ran: rolled back, or
  committed with its answer lost.
\<close>

datatype gate_throw = ThrowNotFound | ThrowUnauthorized | ThrowForbidden | ThrowDatabase | ThrowOther

datatype tx_fate = TxCommits | TxRollsBack gate_throw | TxLost gate_throw

record gate_scope =
  gs_key_org :: "string option"
  gs_hint :: "string option"
  gs_project :: "string option"

record gate_world =
  gw_actor :: "gate_throw + actor"
  gw_rate :: "gate_throw + bool"
  gw_project_in_org :: "actor \<Rightarrow> string \<Rightarrow> gate_throw + bool"
  gw_authorize :: "actor \<Rightarrow> string option \<Rightarrow> gate_throw option"
  gw_owner :: "gate_throw + string"
  gw_member :: "string \<Rightarrow> string \<Rightarrow> gate_throw + bool"
  gw_slug :: "string \<Rightarrow> gate_throw + string option"
  gw_fate :: tx_fate

type_synonym 'a draft_body = "actor \<Rightarrow> server_db \<Rightarrow> (gate_throw + 'a) \<times> server_db"

definition personal_org_slug :: string where "personal_org_slug = ''~''"

text \<open>A transaction: a body that throws rolls back; a commit may fail on either side of the answer.\<close>

definition in_transaction :: "tx_fate \<Rightarrow> (server_db \<Rightarrow> (gate_throw + 'a) \<times> server_db) \<Rightarrow> server_db \<Rightarrow> (gate_throw + 'a) \<times> server_db" where
  "in_transaction fate body db =
     (case body db of
        (Inl e, db') \<Rightarrow> (Inl e, db)
      | (Inr x, db') \<Rightarrow> (case fate of TxCommits \<Rightarrow> (Inr x, db') | TxRollsBack e \<Rightarrow> (Inl e, db) | TxLost e \<Rightarrow> (Inl e, db')))"

definition refuse_lost_scope :: "gate_world \<Rightarrow> string \<Rightarrow> string option \<Rightarrow> gate_throw + gate_refusal" where
  "refuse_lost_scope w user hint =
     (case hint of
        None \<Rightarrow> Inr (RefForbidden True)
      | Some org \<Rightarrow>
          if org = user then Inr (RefAddress personal_org_slug)
          else (case gw_member w org user of
                  Inl e \<Rightarrow> Inl e
                | Inr False \<Rightarrow> Inr (RefForbidden True)
                | Inr True \<Rightarrow>
                    (case gw_slug w org of
                       Inl e \<Rightarrow> Inl e
                     | Inr slug \<Rightarrow> (case slug of
                         None \<Rightarrow> Inr (RefForbidden True)
                       | Some s \<Rightarrow> if s = '''' then Inr (RefForbidden True) else Inr (RefAddress s)))))"

definition classify_plain_throw :: "gate_throw \<Rightarrow> gate_throw + gate_refusal" where
  "classify_plain_throw e =
     (case e of
        ThrowUnauthorized \<Rightarrow> Inr RefUnauthorized
      | ThrowForbidden \<Rightarrow> Inr (RefForbidden False)
      | ThrowDatabase \<Rightarrow> Inr RefUnavailable
      | _ \<Rightarrow> Inl e)"

definition classify_throw :: "gate_world \<Rightarrow> gate_scope \<Rightarrow> gate_throw \<Rightarrow> gate_throw + gate_refusal" where
  "classify_throw w sc e =
     (if e \<noteq> ThrowNotFound then classify_plain_throw e
      else (case gw_owner w of
              Inl inner \<Rightarrow> classify_plain_throw inner
            | Inr user \<Rightarrow> (case refuse_lost_scope w user (coalesce (gs_key_org sc) (gs_hint sc)) of
                Inl inner \<Rightarrow> classify_plain_throw inner
              | Inr r \<Rightarrow> Inr r)))"

text \<open>\<open>None\<close> when the scope is authorized, else the throw.\<close>

definition authorize_scope :: "gate_world \<Rightarrow> actor \<Rightarrow> string option \<Rightarrow> gate_throw option" where
  "authorize_scope w a project =
     (case project of
        None \<Rightarrow> gw_authorize w a None
      | Some p \<Rightarrow>
          (case gw_project_in_org w a p of
             Inl e \<Rightarrow> Some e
           | Inr False \<Rightarrow> Some ThrowForbidden
           | Inr True \<Rightarrow> gw_authorize w a (Some p)))"

definition run_draft_gate ::
  "gate_world \<Rightarrow> gate_scope \<Rightarrow> (gate_refusal \<Rightarrow> 'a) \<Rightarrow> 'a draft_body \<Rightarrow> server_db \<Rightarrow> (gate_throw + 'a) \<times> server_db" where
  "run_draft_gate w sc refused body db =
     (let caught = (\<lambda>e db'. (case classify_throw w sc e of Inl e' \<Rightarrow> Inl e' | Inr r \<Rightarrow> Inr (refused r), db'))
      in case gw_actor w of
           Inl e \<Rightarrow> caught e db
         | Inr a \<Rightarrow>
             if gs_key_org sc \<noteq> None \<and> gs_key_org sc \<noteq> Some (ac_org a) then (Inr (refused RefOtherOrg), db)
             else (case gw_rate w of
                     Inl e \<Rightarrow> caught e db
                   | Inr False \<Rightarrow> (Inr (refused RefRateLimited), db)
                   | Inr True \<Rightarrow>
                       (case authorize_scope w a (gs_project sc) of
                          Some e \<Rightarrow> caught e db
                        | None \<Rightarrow>
                            (case in_transaction (gw_fate w) (body a) db of
                               (Inl e, db') \<Rightarrow> caught e db'
                             | (Inr x, db') \<Rightarrow> (Inr x, db')))))"

section \<open>Laws\<close>

text \<open>What a gated call may do to the tables: nothing, or what the body did for the authorized actor.\<close>

definition authorized :: "gate_world \<Rightarrow> gate_scope \<Rightarrow> actor \<Rightarrow> bool" where
  "authorized w sc a \<longleftrightarrow> gw_actor w = Inr a \<and> (gs_key_org sc = None \<or> gs_key_org sc = Some (ac_org a)) \<and>
     gw_rate w = Inr True \<and>
     (case gs_project sc of None \<Rightarrow> True | Some p \<Rightarrow> gw_project_in_org w a p = Inr True) \<and> gw_authorize w a (gs_project sc) = None"

lemma authorize_scope_None:
  "authorize_scope w a project = None \<longleftrightarrow>
   (case project of None \<Rightarrow> True | Some p \<Rightarrow> gw_project_in_org w a p = Inr True) \<and> gw_authorize w a project = None"
  by (auto simp: authorize_scope_def split: option.split sum.split bool.split)

lemma gate_cases:
  assumes "run_draft_gate w sc refused body db = (res, db')"
  obtains (refused) "db' = db" "\<And>x. res = Inr x \<Longrightarrow> \<exists>r. x = refused r"
  | (ran) a x where "authorized w sc a" "body a db = (Inr x, db')" "res = Inr x"
  | (lost) a x where "authorized w sc a" "body a db = (Inr x, db')" "\<And>y. res = Inr y \<Longrightarrow> \<exists>r. y = refused r"
proof (cases "\<exists>a. authorized w sc a")
  case True
  then obtain a where a: "authorized w sc a" by blast
  have r: "run_draft_gate w sc refused body db =
      (case in_transaction (gw_fate w) (body a) db of
         (Inl e, db1) \<Rightarrow> (case classify_throw w sc e of Inl e' \<Rightarrow> Inl e' | Inr r \<Rightarrow> Inr (refused r), db1)
       | (Inr x, db1) \<Rightarrow> (Inr x, db1))"
    using a authorize_scope_None [of w a "gs_project sc"]
    by (auto simp: run_draft_gate_def authorized_def Let_def split: option.split)
  have c: "\<exists>r. x = refused r" if "(case classify_throw w sc e of Inl e' \<Rightarrow> Inl e' | Inr r \<Rightarrow> Inr (refused r)) = Inr x" for e x
    using that by (cases "classify_throw w sc e") auto
  show ?thesis
  proof (cases "body a db")
    case (Pair y db1)
    show ?thesis
    proof (cases y)
      case (Inl e)
      then show ?thesis using assms Pair r c by (intro refused) (auto simp: in_transaction_def)
    next
      case (Inr x)
      show ?thesis
      proof (cases "gw_fate w")
        case TxCommits
        then show ?thesis using assms Pair Inr r a by (intro ran [of a x]) (auto simp: in_transaction_def)
      next
        case (TxRollsBack e)
        then show ?thesis using assms Pair Inr r c by (intro refused) (auto simp: in_transaction_def)
      next
        case (TxLost e)
        then show ?thesis using assms Pair Inr r a c by (intro lost [of a x]) (auto simp: in_transaction_def)
      qed
    qed
  qed
next
  case False
  have "db' = db \<and> (\<forall>x. res = Inr x \<longrightarrow> (\<exists>r. x = refused r))"
    using assms False authorize_scope_None [of w]
    by (auto simp: run_draft_gate_def authorized_def Let_def split: sum.splits option.splits if_splits bool.splits)
  then show ?thesis using refused by blast
qed

end
