(* ===== verification/Serve_Actions.thy ===== *)
theory Serve_Actions
  imports Serve_Claims Serve_Gate
begin

text \<open>
  The draft actions but the start (app/server/actions/elench-drafts.ts): list, save, discard, restore,
  claim, consume and release. A body runs in its transaction, which holds the lock of the key's row; what
  the lock cannot exclude when there is no row yet, another transaction's insert, is the parameter \<open>mid\<close>,
  applied between the read that found no row and the insert. An input is what its schema admitted.
\<close>

definition max_active_drafts_per_scope :: nat where "max_active_drafts_per_scope = 200"

section \<open>Requests\<close>

record save_request =
  sq_key :: draft_key
  sq_base :: int
  sq_content :: draft_content
  sq_thread_seen :: bool
  sq_tab :: string
  sq_failed_send :: "pending_failed_send option"
  sq_dismiss :: bool

record cas_request =
  cq_key :: draft_key
  cq_base :: int

record claim_request =
  mq_key :: draft_key
  mq_base :: int
  mq_content :: draft_content
  mq_turn :: string
  mq_token :: string
  mq_kind :: send_kind
  mq_tab :: string

record token_request =
  tq_key :: draft_key
  tq_token :: string

record release_request = token_request +
  rq_error :: string
  rq_uncertain :: bool
  rq_fresh_turn :: "string option"

record list_request =
  lq_project :: "string option"
  lq_hint :: "string option"

definition key_scope :: "draft_key \<Rightarrow> gate_scope" where
  "key_scope k = \<lparr>gs_key_org = Some (ds_org k), gs_hint = None, gs_project = ds_project k\<rparr>"

section \<open>Helpers\<close>

definition lock_and_settle :: "server_env \<Rightarrow> actor \<Rightarrow> string \<Rightarrow> server_db \<Rightarrow> draft_row option \<times> server_db" where
  "lock_and_settle env a conversation db =
     (case lock_draft a conversation db of
        None \<Rightarrow> (None, db)
      | Some row \<Rightarrow> (case settle_if_silent env a row None db of (r, db') \<Rightarrow> (Some r, db')))"

definition scope_is_full :: "actor \<Rightarrow> string option \<Rightarrow> server_db \<Rightarrow> bool" where
  "scope_is_full a project db \<longleftrightarrow>
     max_active_drafts_per_scope \<le> length (filter (\<lambda>r. own_scope a project r \<and> dr_status r = RowActive) (sv_drafts db))"

definition same_anchor :: "draft_row \<Rightarrow> string option \<Rightarrow> bool" where
  "same_anchor r project \<longleftrightarrow> dr_project r = project"

datatype row_refusal = RefuseClaimed server_draft draft_thread | RefuseDiscarded server_draft draft_thread
| RefuseConflict server_draft draft_thread

definition refuse_row :: "server_env \<Rightarrow> actor \<Rightarrow> draft_row \<Rightarrow> server_db \<Rightarrow> row_refusal" where
  "refuse_row env a r db =
     (let shown = to_server_draft env r; thread = thread_of a r db
      in if dr_status r = RowSending then RefuseClaimed shown thread
         else if dr_status r = RowDiscarded then RefuseDiscarded shown thread
         else RefuseConflict shown thread)"

fun save_refusal :: "row_refusal \<Rightarrow> save_result" where
  "save_refusal (RefuseClaimed r t) = SaveClaimed r t"
| "save_refusal (RefuseDiscarded r t) = SaveDiscarded r t"
| "save_refusal (RefuseConflict r t) = SaveConflict r t"

fun claim_refusal :: "row_refusal \<Rightarrow> claim_result" where
  "claim_refusal (RefuseClaimed r t) = ClaimTaken r t"
| "claim_refusal (RefuseDiscarded r t) = ClaimDiscarded r t"
| "claim_refusal (RefuseConflict r t) = ClaimConflict r t"

definition next_failed_send ::
  "server_env \<Rightarrow> failed_send option \<Rightarrow> bool \<Rightarrow> pending_failed_send option \<Rightarrow> bool \<Rightarrow> failed_send option" where
  "next_failed_send env current text_changed failed dismiss =
     (case failed of
        Some f \<Rightarrow> Some (pending_failed_send.extend f \<lparr>fs_at = se_at env\<rparr>)
      | None \<Rightarrow>
          if dismiss then None
          else (case current of
                  None \<Rightarrow> None
                | Some c \<Rightarrow> if text_changed \<and> \<not> fs_uncertain c then None else Some c))"

definition cas_predicate :: "actor \<Rightarrow> draft_row \<Rightarrow> int \<Rightarrow> draft_row_state \<Rightarrow> draft_row \<Rightarrow> bool" where
  "cas_predicate a row base status r \<longleftrightarrow> own_row a row r \<and> dr_revision r = base \<and> dr_status r = status"

text \<open>The row of a key's first write.\<close>

definition new_draft_row :: "server_env \<Rightarrow> actor \<Rightarrow> draft_key \<Rightarrow> draft_row" where
  "new_draft_row env a k = \<lparr>dr_id = se_row_id env, dr_user = ac_user a, dr_org = ac_org a, dr_project = ds_project k,
     dr_conversation = dk_conversation k, dr_revision = 1, dr_status = RowActive, dr_discarded_at = None,
     dr_content = empty_content, dr_claim_token = None, dr_claim_turn = None, dr_claim_kind = None, dr_claimed_at = None,
     dr_failed_send = None, dr_last_sent = None, dr_thread_seen = False, dr_title = None, dr_last_writer = None,
     dr_updated_at = se_now env\<rparr>"

section \<open>Listing\<close>

definition listed_row :: "server_env \<Rightarrow> actor \<Rightarrow> string option \<Rightarrow> draft_row \<Rightarrow> bool" where
  "listed_row env a project r \<longleftrightarrow> own_scope a project r \<and>
     (dr_status r = RowActive \<or> dr_status r = RowSending \<or>
      dr_status r = RowDiscarded \<and> (case dr_discarded_at r of None \<Rightarrow> False | Some at \<Rightarrow> at > se_now env - 86400000))"

definition list_entry_of :: "server_env \<Rightarrow> actor \<Rightarrow> server_db \<Rightarrow> draft_row \<Rightarrow> list_entry" where
  "list_entry_of env a db r =
     (let summary = own_thread a (dr_conversation r) db; status = thread_status_of summary
      in \<lparr>le_row = to_server_draft env r,
          le_thread = \<lparr>dt_status = status, dt_first_turn = (if live_thread status then first_turn_id summary else None),
            dt_has_turn = (dr_status r = RowSending \<and> status = ThreadListed \<and> dt_has_turn (thread_of a r db))\<rparr>,
          le_title = thread_title_of summary\<rparr>)"

definition list_body :: "server_env \<Rightarrow> string option \<Rightarrow> list_ok draft_body" where
  "list_body env project a db =
     (let db1 = settle_scope env a project db;
          rows = sort_key (\<lambda>r. - dr_updated_at r) (filter (listed_row env a project) (sv_drafts db1))
      in (Inr \<lparr>lo_org = ac_org a, lo_drafts = map (list_entry_of env a db1) rows\<rparr>, db1))"

section \<open>Saving\<close>

definition saved_fields :: "server_env \<Rightarrow> save_request \<Rightarrow> failed_send option \<Rightarrow> bool \<Rightarrow> draft_row \<Rightarrow> draft_row" where
  "saved_fields env q failed seen r = r\<lparr>dr_content := sq_content q, dr_failed_send := failed, dr_thread_seen := seen,
     dr_last_writer := Some (sq_tab q)\<rparr>"

text \<open>The update of a save at its base: \<open>row\<close> is the locked row, \<open>saw\<close> whether the thread was seen now.\<close>

definition saved_row :: "server_env \<Rightarrow> save_request \<Rightarrow> draft_row \<Rightarrow> bool \<Rightarrow> utf16 option \<Rightarrow> draft_row \<Rightarrow> draft_row" where
  "saved_row env q row saw title r =
     (saved_fields env q (next_failed_send env (dr_failed_send row) (dc_text (dr_content row) \<noteq> dc_text (sq_content q))
        (sq_failed_send q) (sq_dismiss q)) (dr_thread_seen row \<or> saw) r)
     \<lparr>dr_title := (if saw then title else dr_title r), dr_revision := dr_revision row + 1, dr_updated_at := se_now env\<rparr>"

definition save_body :: "server_env \<Rightarrow> (server_db \<Rightarrow> server_db) \<Rightarrow> save_request \<Rightarrow> save_result draft_body" where
  "save_body env mid q a db =
     (let k = sq_key q; conversation = dk_conversation k
      in case lock_and_settle env a conversation db of
           (None, db1) \<Rightarrow>
             (let saw = sq_thread_seen q \<and> thread_status_of (own_thread a conversation db1) \<noteq> ThreadNone;
                  title = (if saw then thread_title_of (own_thread a conversation db1) else None)
              in if sq_base q > 0 then (Inr (SaveGone (gone_of a conversation db1)), db1)
                 else (let db2 = mid db1
                       in if scope_is_full a (ds_project k) db2 then (Inr SaveLimit, db2)
                          else (case insert_draft ((saved_fields env q (next_failed_send env None False (sq_failed_send q) (sq_dismiss q))
                                       saw (new_draft_row env a k))\<lparr>dr_title := title\<rparr>) db2 of
                                  Inserted db3 \<Rightarrow> (Inr (SaveSaved 1), db3)
                                | IdTaken \<Rightarrow> (Inl ThrowDatabase, db2)
                                | KeyTaken \<Rightarrow>
                                    (case lock_draft a conversation db2 of
                                       None \<Rightarrow> (Inr (SaveGone (gone_of a conversation db2)), db2)
                                     | Some winner \<Rightarrow> (Inr (save_refusal (refuse_row env a winner db2)), db2)))))
         | (Some row, db1) \<Rightarrow>
             (let saw = sq_thread_seen q \<and> \<not> dr_thread_seen row \<and> thread_status_of (own_thread a conversation db1) \<noteq> ThreadNone;
                  title = thread_title_of (own_thread a conversation db1)
              in if \<not> same_anchor row (ds_project k) then (Inr (SaveRefused RefInvalid), db1)
                 else if dr_status row \<noteq> RowActive \<or> dr_revision row \<noteq> sq_base q
                 then (Inr (save_refusal (refuse_row env a row db1)), db1)
                 else (case update_drafts (cas_predicate a row (sq_base q) RowActive)
                              (saved_row env q row saw title) db1 of
                         (r # _, db2) \<Rightarrow> (Inr (SaveSaved (dr_revision r)), db2)
                       | ([], db2) \<Rightarrow> (Inr (SaveConflict (to_server_draft env row) (thread_of a row db2)), db2))))"

section \<open>Discarding and restoring\<close>

definition discard_body :: "server_env \<Rightarrow> cas_request \<Rightarrow> discard_result draft_body" where
  "discard_body env q a db =
     (case lock_and_settle env a (dk_conversation (cq_key q)) db of
        (None, db1) \<Rightarrow> (Inr (DiscardGone (gone_of a (dk_conversation (cq_key q)) db1)), db1)
      | (Some row, db1) \<Rightarrow>
          if \<not> same_anchor row (ds_project (cq_key q)) then (Inr (DiscardRefused RefInvalid), db1)
          else if dr_status row = RowSending then (Inr (DiscardTaken (to_server_draft env row) (thread_of a row db1)), db1)
          else if dr_status row \<noteq> RowActive \<or> dr_revision row \<noteq> cq_base q
          then (Inr (DiscardConflict (to_server_draft env row) (thread_of a row db1)), db1)
          else (case update_drafts (cas_predicate a row (cq_base q) RowActive)
                       (\<lambda>r. r\<lparr>dr_status := RowDiscarded, dr_discarded_at := Some (se_now env), dr_revision := dr_revision row + 1,
                              dr_updated_at := se_now env\<rparr>) db1 of
                  (r # _, db2) \<Rightarrow> (Inr (DiscardDone (dr_revision r)), db2)
                | ([], db2) \<Rightarrow> (Inr (DiscardConflict (to_server_draft env row) (thread_of a row db2)), db2)))"

definition restore_body :: "server_env \<Rightarrow> cas_request \<Rightarrow> restore_result draft_body" where
  "restore_body env q a db =
     (case lock_and_settle env a (dk_conversation (cq_key q)) db of
        (None, db1) \<Rightarrow> (Inr (RestoreGone (gone_of a (dk_conversation (cq_key q)) db1)), db1)
      | (Some row, db1) \<Rightarrow>
          if \<not> same_anchor row (ds_project (cq_key q)) then (Inr (RestoreRefused RefInvalid), db1)
          else if dr_status row \<noteq> RowDiscarded \<or> dr_revision row \<noteq> cq_base q
          then (Inr (RestoreConflict (to_server_draft env row) (thread_of a row db1)), db1)
          else (case update_drafts (cas_predicate a row (cq_base q) RowDiscarded)
                       (\<lambda>r. r\<lparr>dr_status := RowActive, dr_discarded_at := None, dr_revision := dr_revision row + 1,
                              dr_updated_at := se_now env\<rparr>) db1 of
                  (r # _, db2) \<Rightarrow> (Inr (RestoreSaved (dr_revision r)), db2)
                | ([], db2) \<Rightarrow> (Inr (RestoreConflict (to_server_draft env row) (thread_of a row db2)), db2)))"

section \<open>Claiming\<close>

definition claimed_by_you :: "draft_row \<Rightarrow> claim_result" where
  "claimed_by_you r = ClaimByYou (dr_revision r) (dr_content r)"

definition claimed_fields :: "server_env \<Rightarrow> claim_request \<Rightarrow> draft_row \<Rightarrow> draft_row" where
  "claimed_fields env q r = r\<lparr>dr_content := mq_content q, dr_status := RowSending, dr_claim_token := Some (mq_token q),
     dr_claim_turn := Some (mq_turn q), dr_claim_kind := Some (mq_kind q), dr_claimed_at := Some (se_now env),
     dr_failed_send := None, dr_last_writer := Some (mq_tab q), dr_updated_at := se_now env\<rparr>"

definition holds_token :: "draft_row \<Rightarrow> string \<Rightarrow> bool" where
  "holds_token r token \<longleftrightarrow> map_option rc_token (claim_of r) = Some token"

text \<open>S1 behind the lock and the settle: \<open>found\<close> is the row as it now stands.\<close>

definition claim_found ::
  "server_env \<Rightarrow> (server_db \<Rightarrow> server_db) \<Rightarrow> claim_request \<Rightarrow> actor \<Rightarrow> draft_row option \<Rightarrow> server_db
   \<Rightarrow> (gate_throw + claim_result) \<times> server_db" where
  "claim_found env mid q a found db =
     (let k = mq_key q; conversation = dk_conversation k
      in if js_trim (dc_text (mq_content q)) = [] then (Inr ClaimEmpty, db)
         else if found = None \<and> mq_base q > 0 then (Inr (ClaimGone (gone_of a conversation db)), db)
         else (case found of
                 Some row \<Rightarrow>
                   if dr_status row \<noteq> RowActive \<or> dr_revision row \<noteq> mq_base q
                   then (Inr (claim_refusal (refuse_row env a row db)), db)
                   else (let seen = read_thread a conversation None [] db
                         in if live_thread (dt_status seen) \<noteq> (mq_kind q = SendLater) then (Inr (ClaimWrongKind seen), db)
                            else (case update_drafts (cas_predicate a row (mq_base q) RowActive)
                                         (\<lambda>r. (claimed_fields env q r)\<lparr>dr_revision := dr_revision row + 1\<rparr>) db of
                                    (r # _, db1) \<Rightarrow> (Inr (ClaimByYou (dr_revision r) (mq_content q)), db1)
                                  | ([], db1) \<Rightarrow> (Inr (ClaimConflict (to_server_draft env row) (thread_of a row db1)), db1)))
               | None \<Rightarrow>
                   (let seen = read_thread a conversation None [] db
                    in if live_thread (dt_status seen) \<noteq> (mq_kind q = SendLater) then (Inr (ClaimWrongKind seen), db)
                       else (let db1 = mid db
                             in if scope_is_full a (ds_project k) db1 then (Inr ClaimLimit, db1)
                                else (case insert_draft (claimed_fields env q (new_draft_row env a k)) db1 of
                                        Inserted db2 \<Rightarrow> (Inr (ClaimByYou 1 (mq_content q)), db2)
                                      | IdTaken \<Rightarrow> (Inl ThrowDatabase, db1)
                                      | KeyTaken \<Rightarrow>
                                          (case lock_draft a conversation db1 of
                                             None \<Rightarrow> (Inr (ClaimGone (gone_of a conversation db1)), db1)
                                           | Some winner \<Rightarrow>
                                               if holds_token winner (mq_token q) then (Inr (claimed_by_you winner), db1)
                                               else (Inr (claim_refusal (refuse_row env a winner db1)), db1)))))))"

definition claim_body :: "server_env \<Rightarrow> (server_db \<Rightarrow> server_db) \<Rightarrow> claim_request \<Rightarrow> claim_result draft_body" where
  "claim_body env mid q a db =
     (case lock_draft a (dk_conversation (mq_key q)) db of
        None \<Rightarrow> claim_found env mid q a None db
      | Some locked \<Rightarrow>
          if \<not> same_anchor locked (ds_project (mq_key q)) then (Inr (ClaimRefused RefInvalid), db)
          else if holds_token locked (mq_token q) then (Inr (claimed_by_you locked), db)
          else (case settle_if_silent env a locked (Some (mq_token q)) db of
                  (row, db1) \<Rightarrow> claim_found env mid q a (Some row) db1))"

section \<open>Consuming and releasing\<close>

datatype own_claim = OwnGone draft_thread | OwnInvalid | OwnNotClaimed server_draft draft_thread | OwnClaim draft_row row_claim

definition lock_own_claim :: "server_env \<Rightarrow> actor \<Rightarrow> draft_key \<Rightarrow> string \<Rightarrow> server_db \<Rightarrow> own_claim \<times> server_db" where
  "lock_own_claim env a k token db =
     (case lock_draft a (dk_conversation k) db of
        None \<Rightarrow> (OwnGone (gone_of a (dk_conversation k) db), db)
      | Some row \<Rightarrow>
          if \<not> same_anchor row (ds_project k) then (OwnInvalid, db)
          else (let lost = (case settle_if_silent env a row (Some token) db of
                      (settled, db') \<Rightarrow> (OwnNotClaimed (to_server_draft env settled) (thread_of a settled db'), db'))
                in case claim_of row of
                     None \<Rightarrow> lost
                   | Some c \<Rightarrow> if rc_token c \<noteq> token then lost else (OwnClaim row c, db)))"

definition consume_body :: "server_env \<Rightarrow> token_request \<Rightarrow> consume_result draft_body" where
  "consume_body env q a db =
     (case lock_own_claim env a (tq_key q) (tq_token q) db of
        (OwnGone t, db1) \<Rightarrow> (Inr (ConsumeGone t), db1)
      | (OwnInvalid, db1) \<Rightarrow> (Inr (ConsumeRefused RefInvalid), db1)
      | (OwnNotClaimed r t, db1) \<Rightarrow> (Inr (ConsumeNotClaimed r t), db1)
      | (OwnClaim row c, db1) \<Rightarrow>
          if rc_kind c \<noteq> SendLater then (Inr (ConsumeRefused RefInvalid), db1)
          else (case end_claim env a row c EndConsume False db1 of
                  (None, db2) \<Rightarrow> (Inr (ConsumeNotClaimed (to_server_draft env row) (thread_of a row db2)), db2)
                | (Some r, db2) \<Rightarrow> (Inr (ConsumeDone (dr_revision r)), db2)))"

definition release_end :: "release_request \<Rightarrow> actor \<Rightarrow> draft_row \<Rightarrow> row_claim \<Rightarrow> server_db \<Rightarrow> claim_end" where
  "release_end q a row c db =
     (case rq_fresh_turn q of
        Some fresh \<Rightarrow> EndRelease (Some fresh) (rq_error q) False
      | None \<Rightarrow>
          if rc_kind c \<noteq> SendLater then EndRelease (Some (rc_turn c)) (rq_error q) (rq_uncertain q)
          else (case stored_turn a (dr_conversation row) (rc_turn c) (dc_text (dr_content row)) db of
                  StoredSame \<Rightarrow> EndConsume
                | StoredDifferent \<Rightarrow> EndRelease None (rq_error q) False
                | StoredAbsent \<Rightarrow> EndRelease (Some (rc_turn c)) (rq_error q) (rq_uncertain q)))"

definition release_body :: "server_env \<Rightarrow> release_request \<Rightarrow> release_result draft_body" where
  "release_body env q a db =
     (case lock_own_claim env a (tq_key q) (tq_token q) db of
        (OwnGone t, db1) \<Rightarrow> (Inr (ReleaseGone t), db1)
      | (OwnInvalid, db1) \<Rightarrow> (Inr (ReleaseRefused RefInvalid), db1)
      | (OwnNotClaimed r t, db1) \<Rightarrow> (Inr (ReleaseNotClaimed r t), db1)
      | (OwnClaim row c, db1) \<Rightarrow>
          (case end_claim env a row c (release_end q a row c db1) False db1 of
             (None, db2) \<Rightarrow> (Inr (ReleaseNotClaimed (to_server_draft env row) (thread_of a row db2)), db2)
           | (Some r, db2) \<Rightarrow>
               (Inr (if release_end q a row c db1 = EndConsume then ReleaseConsumed (dr_revision r)
                     else ReleaseDone (to_server_draft env r)), db2)))"

section \<open>The actions\<close>

text \<open>An input its schema refused is \<open>None\<close>.\<close>

definition save_draft ::
  "server_env \<Rightarrow> gate_world \<Rightarrow> (server_db \<Rightarrow> server_db) \<Rightarrow> save_request option \<Rightarrow> server_db \<Rightarrow> (gate_throw + save_result) \<times> server_db" where
  "save_draft env w mid input db =
     (case input of None \<Rightarrow> (Inr (SaveRefused RefInvalid), db)
      | Some q \<Rightarrow> run_draft_gate w (key_scope (sq_key q)) SaveRefused (save_body env mid q) db)"

definition discard_draft_row :: "server_env \<Rightarrow> gate_world \<Rightarrow> cas_request option \<Rightarrow> server_db \<Rightarrow> (gate_throw + discard_result) \<times> server_db" where
  "discard_draft_row env w input db =
     (case input of None \<Rightarrow> (Inr (DiscardRefused RefInvalid), db)
      | Some q \<Rightarrow> run_draft_gate w (key_scope (cq_key q)) DiscardRefused (discard_body env q) db)"

definition restore_draft :: "server_env \<Rightarrow> gate_world \<Rightarrow> cas_request option \<Rightarrow> server_db \<Rightarrow> (gate_throw + restore_result) \<times> server_db" where
  "restore_draft env w input db =
     (case input of None \<Rightarrow> (Inr (RestoreRefused RefInvalid), db)
      | Some q \<Rightarrow> run_draft_gate w (key_scope (cq_key q)) RestoreRefused (restore_body env q) db)"

definition claim_draft ::
  "server_env \<Rightarrow> gate_world \<Rightarrow> (server_db \<Rightarrow> server_db) \<Rightarrow> claim_request option \<Rightarrow> server_db \<Rightarrow> (gate_throw + claim_result) \<times> server_db" where
  "claim_draft env w mid input db =
     (case input of None \<Rightarrow> (Inr (ClaimRefused RefInvalid), db)
      | Some q \<Rightarrow> run_draft_gate w (key_scope (mq_key q)) ClaimRefused (claim_body env mid q) db)"

definition consume_draft :: "server_env \<Rightarrow> gate_world \<Rightarrow> token_request option \<Rightarrow> server_db \<Rightarrow> (gate_throw + consume_result) \<times> server_db" where
  "consume_draft env w input db =
     (case input of None \<Rightarrow> (Inr (ConsumeRefused RefInvalid), db)
      | Some q \<Rightarrow> run_draft_gate w (key_scope (tq_key q)) ConsumeRefused (consume_body env q) db)"

definition release_claim :: "server_env \<Rightarrow> gate_world \<Rightarrow> release_request option \<Rightarrow> server_db \<Rightarrow> (gate_throw + release_result) \<times> server_db" where
  "release_claim env w input db =
     (case input of None \<Rightarrow> (Inr (ReleaseRefused RefInvalid), db)
      | Some q \<Rightarrow> run_draft_gate w (key_scope (tq_key q)) ReleaseRefused (release_body env q) db)"

text \<open>\<open>listDrafts\<close> answers a list or a refusal.\<close>

definition list_drafts :: "server_env \<Rightarrow> gate_world \<Rightarrow> list_request option \<Rightarrow> server_db \<Rightarrow> (gate_throw + (gate_refusal + list_ok)) \<times> server_db" where
  "list_drafts env w input db =
     (case input of None \<Rightarrow> (Inr (Inl RefInvalid), db)
      | Some q \<Rightarrow> run_draft_gate w \<lparr>gs_key_org = None, gs_hint = lq_hint q, gs_project = lq_project q\<rparr> Inl
          (\<lambda>a db. case list_body env (lq_project q) a db of (Inl e, db') \<Rightarrow> (Inl e, db') | (Inr x, db') \<Rightarrow> (Inr (Inr x), db')) db)"


section \<open>The heartbeat's route\<close>

text \<open>
  \<open>POST /api/elench/drafts/heartbeat\<close>. The session, the body and its schema, the rate limit and the actor's
  resolution are parameters; a rate limiter's own database error is its refusal.
\<close>

record beat_world =
  bw_owner :: "gate_throw + string option"
  bw_json :: bool
  bw_input :: "(string \<times> string \<times> string) option"
  bw_rate :: "gate_throw + bool"
  bw_actor :: "string \<Rightarrow> string \<Rightarrow> gate_throw + actor option"
  bw_fate :: tx_fate

datatype beat_response = BeatStatus nat | BeatJson touch_result

definition beat_caught :: "gate_throw \<Rightarrow> gate_throw + beat_response" where
  "beat_caught e = (if e = ThrowDatabase then Inr (BeatStatus 503) else Inl e)"

definition heartbeat_post :: "server_env \<Rightarrow> beat_world \<Rightarrow> server_db \<Rightarrow> (gate_throw + beat_response) \<times> server_db" where
  "heartbeat_post env w db =
     (case bw_owner w of
        Inl e \<Rightarrow> (Inl e, db)
      | Inr None \<Rightarrow> (Inr (BeatStatus 401), db)
      | Inr (Some user) \<Rightarrow>
          if user = '''' then (Inr (BeatStatus 401), db)
          else if \<not> bw_json w then (Inr (BeatStatus 415), db)
          else (case bw_input w of
                  None \<Rightarrow> (Inr (BeatStatus 400), db)
                | Some (org, conversation, token) \<Rightarrow>
                    (case bw_rate w of
                       Inl e \<Rightarrow> (beat_caught e, db)
                     | Inr False \<Rightarrow> (Inr (BeatStatus 429), db)
                     | Inr True \<Rightarrow>
                         (case bw_actor w user org of
                            Inl e \<Rightarrow> (beat_caught e, db)
                          | Inr None \<Rightarrow> (Inr (BeatStatus 403), db)
                          | Inr (Some a) \<Rightarrow>
                              (case in_transaction (bw_fate w) (\<lambda>db. case touch_claim env a conversation token db of (x, db') \<Rightarrow> (Inr x, db')) db of
                                 (Inl e, db') \<Rightarrow> (beat_caught e, db')
                               | (Inr x, db') \<Rightarrow> (Inr (BeatJson x), db'))))))"

end
