(* ===== verification/Serve_Starts.thy ===== *)
theory Serve_Starts
  imports Serve_Actions
begin

text \<open>
  The first send and what else ends a conversation's drafts: \<open>startConversation\<close> and the delete confirm's
  count (app/server/actions/elench-drafts.ts), \<open>threadTitle\<close> (lib/agent/transcript-save.ts) and
  \<open>deleteThread\<close> (app/server/actions/agent.ts) with the two owner-pinned functions of programmables.sql.
\<close>

section \<open>The first turn\<close>

definition new_chat :: utf16 where "new_chat = [0x4E, 0x65, 0x77, 0x20, 0x63, 0x68, 0x61, 0x74]"

text \<open>Every run of white space becomes one space.\<close>

fun collapse_space :: "bool \<Rightarrow> utf16 \<Rightarrow> utf16" where
  "collapse_space in_run [] = []"
| "collapse_space in_run (u # us) =
     (if space_unit u then (if in_run then collapse_space True us else 0x20 # collapse_space True us)
      else u # collapse_space False us)"

definition thread_title :: "utf16 \<Rightarrow> utf16" where
  "thread_title s =
     (let t = js_trim (collapse_space False s); t = (if t = [] then new_chat else t)
      in if length t > 60 then take 57 t @ [0x2026] else t)"

record first_turn =
  ft_text :: utf16
  ft_mentions :: "draft_mention list"
  ft_cell :: "cell_target option"

definition first_turn_of :: "utf16 \<Rightarrow> draft_mention list \<Rightarrow> cell_target option \<Rightarrow> first_turn" where
  "first_turn_of text mentions cell =
     (let lead = int (length text) - int (length (trim_start text)); trimmed = js_trim text
      in \<lparr>ft_text = trimmed,
          ft_mentions = filter (\<lambda>m. 0 \<le> dm_start m \<and> dm_end m \<le> int (length trimmed))
            (map (\<lambda>m. m\<lparr>dm_start := dm_start m - lead, dm_end := dm_end m - lead\<rparr>) mentions),
          ft_cell = cell\<rparr>)"

datatype start_origin = FromComposer string | FromPrompt int utf16 "draft_mention list" "cell_target option"

record start_request =
  aq_key :: draft_key
  aq_turn :: string
  aq_title :: utf16
  aq_origin :: start_origin

definition first_message :: "start_request \<Rightarrow> first_turn \<Rightarrow> ui_message" where
  "first_message q turn = \<lparr>um_id = aq_turn q, um_user = True, um_parts = [TextPart (ft_text turn)],
     um_mentions = ft_mentions turn, um_cell = ft_cell turn\<rparr>"

text \<open>\<open>ON CONFLICT (id) DO NOTHING\<close>: any row with the id, the caller's or another's, wins. The answer is the new revision.\<close>

definition insert_first_turn :: "actor \<Rightarrow> start_request \<Rightarrow> first_turn \<Rightarrow> server_db \<Rightarrow> int option \<times> server_db" where
  "insert_first_turn a q turn db =
     (if list_ex (\<lambda>t. tr_id t = dk_conversation (aq_key q)) (sv_threads db) then (None, db)
      else (Some 1, db\<lparr>sv_threads := sv_threads db @
        [\<lparr>tr_id = dk_conversation (aq_key q), tr_user = ac_user a, tr_org = Some (ac_user a), tr_project = ds_project (aq_key q),
          tr_agent = True, tr_deleted = False, tr_title = thread_title (if aq_title q = [] then ft_text turn else aq_title q),
          tr_messages = [first_message q turn], tr_thread_revision = 1\<rparr>]\<rparr>))"

datatype start_verdict = VerdictConflict | VerdictDeleted | VerdictStored

definition classify_start_conflict :: "actor \<Rightarrow> start_request \<Rightarrow> server_db \<Rightarrow> start_verdict" where
  "classify_start_conflict a q db =
     (case own_thread a (dk_conversation (aq_key q)) db of
        None \<Rightarrow> VerdictConflict
      | Some t \<Rightarrow>
          if tr_deleted t then VerdictDeleted
          else if \<not> tr_agent t \<or> tr_project t \<noteq> ds_project (aq_key q) \<or> tr_messages t = [] then VerdictConflict
          else if first_turn_id (Some t) = Some (aq_turn q) then VerdictStored else VerdictConflict)"

section \<open>A composer's start\<close>

definition consume_first_turn :: "server_env \<Rightarrow> actor \<Rightarrow> draft_row \<Rightarrow> row_claim \<Rightarrow> server_db \<Rightarrow> int option \<times> server_db" where
  "consume_first_turn env a row c db =
     (case update_drafts (holds_claim a row c)
             (\<lambda>r. r\<lparr>dr_status := RowActive, dr_claim_token := None, dr_claim_turn := None, dr_claim_kind := None,
                dr_claimed_at := None, dr_content := empty_content, dr_failed_send := None,
                dr_last_sent := Some \<lparr>ls_turn = rc_turn c, ls_kind = rc_kind c, ls_at = se_at env\<rparr>,
                dr_thread_seen := True, dr_revision := dr_revision row + 1, dr_updated_at := se_now env\<rparr>) db of
        (rs, db') \<Rightarrow> (case rs of [] \<Rightarrow> None | r # _ \<Rightarrow> Some (dr_revision r), db'))"

fun verdict_code :: "start_verdict \<Rightarrow> string" where
  "verdict_code VerdictConflict = ''conflict''"
| "verdict_code VerdictDeleted = ''deleted''"
| "verdict_code VerdictStored = ''already-stored''"

fun verdict_result :: "start_verdict \<Rightarrow> int \<Rightarrow> start_result" where
  "verdict_result VerdictConflict n = StartConflict n"
| "verdict_result VerdictDeleted n = StartDeleted n"
| "verdict_result VerdictStored n = StartStored n"

definition start_composer ::
  "server_env \<Rightarrow> start_request \<Rightarrow> string \<Rightarrow> actor \<Rightarrow> draft_row option \<Rightarrow> server_db \<Rightarrow> (gate_throw + start_result) \<times> server_db" where
  "start_composer env q token a found db =
     (case found of
        None \<Rightarrow> (Inr (StartGone (gone_of a (dk_conversation (aq_key q)) db)), db)
      | Some row \<Rightarrow>
          (let lost = (Inr (StartNotClaimed (to_server_draft env row) (thread_of a row db)), db)
           in case claim_of row of
                None \<Rightarrow> lost
              | Some c \<Rightarrow>
                  if rc_token c \<noteq> token \<or> rc_kind c \<noteq> SendFirst \<or> rc_turn c \<noteq> aq_turn q then lost
                  else (case insert_first_turn a q (first_turn_of (dc_text (dr_content row)) (dc_mentions (dr_content row))
                                 (dc_cell (dr_content row))) db of
                          (Some thread_revision, db1) \<Rightarrow>
                            (case consume_first_turn env a row c db1 of
                               (None, db2) \<Rightarrow> (Inl ThrowOther, db2)
                             | (Some n, db2) \<Rightarrow> (Inr (StartCreated n thread_revision), db2))
                        | (None, db1) \<Rightarrow>
                            (let verdict = classify_start_conflict a q db1
                             in if verdict = VerdictStored
                                then (case consume_first_turn env a row c db1 of
                                        (None, db2) \<Rightarrow> (Inl ThrowOther, db2)
                                      | (Some n, db2) \<Rightarrow> (Inr (StartStored n), db2))
                                else (case end_claim env a row c (EndRelease (Some (rc_turn c)) (verdict_code verdict) False) False db1 of
                                        (None, db2) \<Rightarrow> (Inl ThrowOther, db2)
                                      | (Some r, db2) \<Rightarrow> (Inr (verdict_result verdict (dr_revision r)), db2))))))"

section \<open>An external start\<close>

text \<open>
  The savepoint of an external start. \<open>StartLostToSave\<close> and a throw roll it back to where it began; \<open>mid\<close> is
  what other transactions committed since the key's row was found missing.
\<close>

datatype prompt_write = PromptNothing | PromptCreated int int | PromptLostKey | PromptThrew gate_throw

definition prompt_row :: "server_env \<Rightarrow> actor \<Rightarrow> draft_key \<Rightarrow> draft_row" where
  "prompt_row env a k = (new_draft_row env a k)\<lparr>dr_thread_seen := True\<rparr>"

definition write_prompt ::
  "server_env \<Rightarrow> start_request \<Rightarrow> int \<Rightarrow> first_turn \<Rightarrow> actor \<Rightarrow> draft_row option \<Rightarrow> server_db \<Rightarrow> prompt_write \<times> server_db" where
  "write_prompt env q base turn a found db =
     (case insert_first_turn a q turn db of
        (None, db1) \<Rightarrow> (PromptNothing, db1)
      | (Some thread_revision, db1) \<Rightarrow>
          (case found of
             None \<Rightarrow>
               (case insert_draft (prompt_row env a (aq_key q)) db1 of
                  KeyTaken \<Rightarrow> (PromptLostKey, db)
                | IdTaken \<Rightarrow> (PromptThrew ThrowDatabase, db)
                | Inserted db2 \<Rightarrow> (PromptCreated 1 thread_revision, db2))
           | Some row \<Rightarrow>
               (case update_drafts (cas_predicate a row base RowActive)
                       (\<lambda>r. r\<lparr>dr_failed_send := None, dr_thread_seen := True, dr_revision := dr_revision row + 1,
                              dr_updated_at := se_now env\<rparr>) db1 of
                  ([], db2) \<Rightarrow> (PromptThrew ThrowOther, db)
                | (r # _, db2) \<Rightarrow> (PromptCreated (dr_revision r) thread_revision, db2))))"

definition start_external ::
  "server_env \<Rightarrow> (server_db \<Rightarrow> server_db) \<Rightarrow> start_request \<Rightarrow> int \<Rightarrow> draft_content \<Rightarrow> actor \<Rightarrow> draft_row option \<Rightarrow> server_db
   \<Rightarrow> (gate_throw + start_result) \<times> server_db" where
  "start_external env mid q base content a found db =
     (let refused = (case found of
          None \<Rightarrow> None
        | Some row \<Rightarrow>
            if dr_status row = RowSending then Some (StartTaken (to_server_draft env row) (thread_of a row db))
            else if dr_status row \<noteq> RowActive \<or> dr_revision row \<noteq> base
            then Some (StartDraftConflict (to_server_draft env row) (thread_of a row db)) else None)
      in case refused of
           Some x \<Rightarrow> (Inr x, db)
         | None \<Rightarrow>
             (case write_prompt env q base (first_turn_of (dc_text content) (dc_mentions content) (dc_cell content)) a found
                     (if found = None then mid db else db) of
                (PromptThrew e, db1) \<Rightarrow> (Inl e, db1)
              | (PromptCreated n thread_revision, db1) \<Rightarrow> (Inr (StartCreated n thread_revision), db1)
              | (PromptNothing, db1) \<Rightarrow>
                  (Inr (verdict_result (classify_start_conflict a q db1) (case found of None \<Rightarrow> 0 | Some row \<Rightarrow> dr_revision row)), db1)
              | (PromptLostKey, db1) \<Rightarrow>
                  (case lock_draft a (dk_conversation (aq_key q)) db1 of
                     None \<Rightarrow> (Inr (StartGone (gone_of a (dk_conversation (aq_key q)) db1)), db1)
                   | Some winner \<Rightarrow> (Inr (StartDraftConflict (to_server_draft env winner) (thread_of a winner db1)), db1))))"

section \<open>\<open>startConversation\<close>\<close>

definition external_content :: "start_request \<Rightarrow> draft_content option" where
  "external_content q =
     (case aq_origin q of
        FromComposer token \<Rightarrow> None
      | FromPrompt base text mentions cell \<Rightarrow> Some \<lparr>dc_text = text, dc_mentions = mentions, dc_artifacts = [], dc_cell = cell\<rparr>)"

definition presented_token :: "start_request \<Rightarrow> string option" where
  "presented_token q = (case aq_origin q of FromComposer token \<Rightarrow> Some token | FromPrompt _ _ _ _ \<Rightarrow> None)"

definition start_found ::
  "server_env \<Rightarrow> (server_db \<Rightarrow> server_db) \<Rightarrow> start_request \<Rightarrow> actor \<Rightarrow> draft_row option \<Rightarrow> server_db \<Rightarrow> (gate_throw + start_result) \<times> server_db" where
  "start_found env mid q a found db =
     (case aq_origin q of
        FromComposer token \<Rightarrow> start_composer env q token a found db
      | FromPrompt base text mentions cell \<Rightarrow>
          start_external env mid q base \<lparr>dc_text = text, dc_mentions = mentions, dc_artifacts = [], dc_cell = cell\<rparr> a found db)"

definition start_transaction :: "server_env \<Rightarrow> (server_db \<Rightarrow> server_db) \<Rightarrow> start_request \<Rightarrow> start_result draft_body" where
  "start_transaction env mid q a db =
     (case lock_draft a (dk_conversation (aq_key q)) db of
        None \<Rightarrow> start_found env mid q a None db
      | Some locked \<Rightarrow>
          if \<not> same_anchor locked (ds_project (aq_key q)) then (Inr (StartRefused RefInvalid), db)
          else (case settle_if_silent env a locked (presented_token q) db of
                  (row, db1) \<Rightarrow> start_found env mid q a (Some row) db1))"

definition start_conversation ::
  "server_env \<Rightarrow> (string \<Rightarrow> bool) \<Rightarrow> gate_world \<Rightarrow> (server_db \<Rightarrow> server_db) \<Rightarrow> start_request option \<Rightarrow> server_db
   \<Rightarrow> (gate_throw + start_result) \<times> server_db" where
  "start_conversation env is_uuid w mid input db =
     (case input of
        None \<Rightarrow> (Inr (StartRefused RefInvalid), db)
      | Some q \<Rightarrow>
          if (case external_content q of None \<Rightarrow> False
                | Some c \<Rightarrow> \<not> content_schema is_uuid c \<or> js_trim (dc_text c) = [])
          then (Inr (StartRefused RefInvalid), db)
          else run_draft_gate w (key_scope (aq_key q)) StartRefused (start_transaction env mid q) db)"

section \<open>Counting and purging a conversation's drafts\<close>

definition conversation_drafts :: "string \<Rightarrow> string \<Rightarrow> draft_row \<Rightarrow> bool" where
  "conversation_drafts user conversation r \<longleftrightarrow> dr_user r = user \<and> dr_conversation r = conversation"

definition count_drafts_of :: "string \<Rightarrow> string \<Rightarrow> server_db \<Rightarrow> nat" where
  "count_drafts_of user conversation db =
     length (filter (\<lambda>r. conversation_drafts user conversation r \<and> dr_status r \<noteq> RowDiscarded) (sv_drafts db))"

definition purge_drafts_of :: "string \<Rightarrow> string \<Rightarrow> server_db \<Rightarrow> nat \<times> server_db" where
  "purge_drafts_of user conversation db =
     (length (filter (conversation_drafts user conversation) (sv_drafts db)),
      db\<lparr>sv_drafts := filter (\<lambda>r. \<not> conversation_drafts user conversation r) (sv_drafts db)\<rparr>)"

text \<open>\<open>countDraftsOfConversation\<close> answers the count twice: as drafts and as orgs.\<close>

definition count_drafts ::
  "gate_world \<Rightarrow> (string \<times> string option) option \<Rightarrow> server_db \<Rightarrow> (gate_throw + (gate_refusal + nat \<times> nat)) \<times> server_db" where
  "count_drafts w input db =
     (case input of None \<Rightarrow> (Inr (Inl RefInvalid), db)
      | Some (conversation, hint) \<Rightarrow>
          run_draft_gate w \<lparr>gs_key_org = None, gs_hint = hint, gs_project = None\<rparr> Inl
            (\<lambda>a db. let n = count_drafts_of (ac_user a) conversation db in (Inr (Inr (n, n)), db)) db)"

text \<open>
  \<open>deleteThread\<close> for the session's owner: the purge first, then the thread's row, as far as its policy lets
  the owner see it, gives way to a tombstone.
\<close>

definition owner_sees :: "string \<Rightarrow> thread_row \<Rightarrow> bool" where
  "owner_sees owner t \<longleftrightarrow> tr_user t = owner \<or> tr_org t = Some owner"

definition tombstone :: "thread_row \<Rightarrow> thread_row" where
  "tombstone t = t\<lparr>tr_deleted := True, tr_title := [], tr_messages := [], tr_thread_revision := 1\<rparr>"

definition delete_thread :: "string \<Rightarrow> string \<Rightarrow> server_db \<Rightarrow> nat \<times> server_db" where
  "delete_thread owner conversation db =
     (case purge_drafts_of owner conversation db of
        (n, db1) \<Rightarrow>
          let gone = (\<lambda>t. tr_id t = conversation \<and> owner_sees owner t \<and> \<not> tr_deleted t)
          in (n, case List.find gone (sv_threads db1) of
                   None \<Rightarrow> db1
                 | Some t \<Rightarrow> db1\<lparr>sv_threads := filter (\<lambda>t. \<not> gone t) (sv_threads db1) @ [tombstone t]\<rparr>))"

section \<open>Laws\<close>

text \<open>The server stores the turn the client said it would send.\<close>

lemma first_turn_is_sent:
  "ft_text (first_turn_of text mentions cell) = ec_text (trim_for_send text mentions) \<and>
   ft_mentions (first_turn_of text mentions cell) = ec_mentions (trim_for_send text mentions)"
  by (simp add: first_turn_of_def trim_for_send_def Let_def)

lemma thread_title_bounded: "thread_title s \<noteq> [] \<and> length (thread_title s) \<le> 60"
  by (simp add: thread_title_def Let_def new_chat_def)

text \<open>An external start counts nothing: the empty row it inserts is active, whatever the scope already holds.\<close>

lemma prompt_row_uncounted:
  assumes "write_prompt env q base turn a None db = (PromptCreated n m, db')"
  shows "length (filter (\<lambda>r. own_scope a (ds_project (aq_key q)) r \<and> dr_status r = RowActive) (sv_drafts db')) =
    length (filter (\<lambda>r. own_scope a (ds_project (aq_key q)) r \<and> dr_status r = RowActive) (sv_drafts db)) + 1"
proof -
  obtain k db1 where i: "insert_first_turn a q turn db = (Some k, db1)" "insert_draft (prompt_row env a (aq_key q)) db1 = Inserted db'"
    using assms by (auto simp: write_prompt_def split: prod.splits option.splits insert_answer.splits)
  have "sv_drafts db1 = sv_drafts db" using i(1) by (auto simp: insert_first_turn_def split: if_splits)
  moreover have "sv_drafts db' = sv_drafts db1 @ [prompt_row env a (aq_key q)]" using i(2) by (auto simp: insert_draft_def split: if_splits)
  ultimately show ?thesis by (simp add: own_scope_def prompt_row_def new_draft_row_def)
qed

end
