(* ===== verification/Serve_Moves.thy ===== *)
theory Serve_Moves
  imports Serve_Starts
begin

text \<open>
  What the draft actions may do, abstractly: the row machine of a draft (save, discard, restore, claim S1,
  consume S2 and S3, release S4, lease settle S5, heartbeat S7) and the moves of the two tables, with the
  tables' constraints. Serve_Refines proves that every action is a path of these moves.
\<close>

section \<open>The tables' constraints\<close>

definition row_ok :: "draft_row \<Rightarrow> bool" where
  "row_ok r \<longleftrightarrow> 1 \<le> dr_revision r \<and> (dr_status r = RowDiscarded \<longleftrightarrow> dr_discarded_at r \<noteq> None) \<and>
     (if dr_status r = RowSending
      then dr_claim_token r \<noteq> None \<and> dr_claim_turn r \<noteq> None \<and> dr_claim_kind r \<noteq> None \<and> dr_claimed_at r \<noteq> None
      else dr_claim_token r = None \<and> dr_claim_turn r = None \<and> dr_claim_kind r = None \<and> dr_claimed_at r = None)"

definition table_key :: "draft_row \<Rightarrow> string \<times> string \<times> string" where
  "table_key r = (dr_user r, dr_org r, dr_conversation r)"

definition tables_ok :: "server_db \<Rightarrow> bool" where
  "tables_ok db \<longleftrightarrow> distinct (map dr_id (sv_drafts db)) \<and> distinct (map table_key (sv_drafts db)) \<and>
     list_all row_ok (sv_drafts db) \<and> distinct (map tr_id (sv_threads db))"

definition row_name :: "draft_row \<Rightarrow> string \<times> string \<times> string \<times> string option \<times> string" where
  "row_name r = (dr_id r, dr_user r, dr_org r, dr_project r, dr_conversation r)"

definition put_row :: "draft_row \<Rightarrow> server_db \<Rightarrow> server_db" where
  "put_row r' db = db\<lparr>sv_drafts := map (\<lambda>r. if dr_id r = dr_id r' then r' else r) (sv_drafts db)\<rparr>"

section \<open>The row machine\<close>

definition claim_stored :: "actor \<Rightarrow> draft_row \<Rightarrow> server_db \<Rightarrow> stored_turn_answer" where
  "claim_stored a r db =
     (case dr_claim_turn r of None \<Rightarrow> StoredAbsent
      | Some turn \<Rightarrow> stored_turn a (dr_conversation r) turn (dc_text (dr_content r)) db)"

text \<open>
  One move of one row a request asks for; \<open>p\<close> is the token it presents. Every move but the heartbeat's adds one
  revision; none changes the row's name.
\<close>

inductive row_move :: "server_env \<Rightarrow> string option \<Rightarrow> draft_row \<Rightarrow> draft_row \<Rightarrow> bool" for env p where
  save_move: "dr_status r = RowActive \<Longrightarrow>
    r' = r\<lparr>dr_content := c, dr_failed_send := f, dr_thread_seen := seen, dr_last_writer := Some tab, dr_title := title,
           dr_revision := dr_revision r + 1, dr_updated_at := se_now env\<rparr> \<Longrightarrow> row_move env p r r'"
| discard_move: "dr_status r = RowActive \<Longrightarrow>
    r' = r\<lparr>dr_status := RowDiscarded, dr_discarded_at := Some (se_now env), dr_revision := dr_revision r + 1,
           dr_updated_at := se_now env\<rparr> \<Longrightarrow> row_move env p r r'"
| restore_move: "dr_status r = RowDiscarded \<Longrightarrow>
    r' = r\<lparr>dr_status := RowActive, dr_discarded_at := None, dr_revision := dr_revision r + 1, dr_updated_at := se_now env\<rparr> \<Longrightarrow>
    row_move env p r r'"
| claim_move: "dr_status r = RowActive \<Longrightarrow> p = Some (mq_token q) \<Longrightarrow>
    r' = (claimed_fields env q r)\<lparr>dr_revision := dr_revision r + 1\<rparr> \<Longrightarrow> row_move env p r r'"
| own_end: "claim_of r = Some c \<Longrightarrow> p = Some (rc_token c) \<Longrightarrow> (how = EndConsume \<Longrightarrow> rc_kind c = SendLater) \<Longrightarrow>
    r' = claim_ended env c (dr_revision r) how r \<Longrightarrow> row_move env p r r'"
| beat_move: "claim_of r = Some c \<Longrightarrow> p = Some (rc_token c) \<Longrightarrow> r' = r\<lparr>dr_claimed_at := Some (se_now env)\<rparr> \<Longrightarrow>
    row_move env p r r'"

inductive_cases row_moveE: "row_move env p r r'"

definition sent_first :: "server_env \<Rightarrow> row_claim \<Rightarrow> draft_row \<Rightarrow> draft_row" where
  "sent_first env c r = r\<lparr>dr_status := RowActive, dr_claim_token := None, dr_claim_turn := None, dr_claim_kind := None,
     dr_claimed_at := None, dr_content := empty_content, dr_failed_send := None,
     dr_last_sent := Some \<lparr>ls_turn = rc_turn c, ls_kind = rc_kind c, ls_at = se_at env\<rparr>,
     dr_thread_seen := True, dr_revision := dr_revision r + 1, dr_updated_at := se_now env\<rparr>"

definition prompted :: "server_env \<Rightarrow> draft_row \<Rightarrow> draft_row" where
  "prompted env r = r\<lparr>dr_failed_send := None, dr_thread_seen := True, dr_revision := dr_revision r + 1,
     dr_updated_at := se_now env\<rparr>"

definition row_turn :: "draft_row \<Rightarrow> first_turn" where
  "row_turn r = first_turn_of (dc_text (dr_content r)) (dc_mentions (dr_content r)) (dc_cell (dr_content r))"

definition start_names :: "start_request \<Rightarrow> draft_row \<Rightarrow> bool" where
  "start_names q r \<longleftrightarrow> dk_conversation (aq_key q) = dr_conversation r \<and> ds_project (aq_key q) = dr_project r"

section \<open>The tables' moves\<close>

definition actors_row :: "actor \<Rightarrow> draft_row \<Rightarrow> server_db \<Rightarrow> bool" where
  "actors_row a r db \<longleftrightarrow> r \<in> set (sv_drafts db) \<and> dr_user r = ac_user a \<and> dr_org r = ac_org a"

text \<open>S5, which no request asks for: the claim is silent past the lease, and its token is not presented.\<close>

inductive lease_move :: "server_env \<Rightarrow> actor \<Rightarrow> string option \<Rightarrow> server_db \<Rightarrow> server_db \<Rightarrow> bool" for env a p where
  lease_end: "actors_row a r db \<Longrightarrow> claim_of r = Some c \<Longrightarrow> p \<noteq> Some (rc_token c) \<Longrightarrow> claim_is_silent env r \<Longrightarrow>
    (how = EndConsume \<Longrightarrow> rc_kind c = SendLater \<and> claim_stored a r db = StoredSame) \<Longrightarrow>
    lease_move env a p db (put_row (claim_ended env c (dr_revision r) how r) db)"

inductive_cases lease_moveE: "lease_move env a p db db'"

inductive server_move :: "server_env \<Rightarrow> actor \<Rightarrow> string option \<Rightarrow> server_db \<Rightarrow> server_db \<Rightarrow> bool" for env a p where
  one_row: "actors_row a r db \<Longrightarrow> row_move env p r r' \<Longrightarrow> server_move env a p db (put_row r' db)"
| new_row: "dr_id r = se_row_id env \<Longrightarrow> dr_user r = ac_user a \<Longrightarrow> dr_org r = ac_org a \<Longrightarrow> dr_revision r = 1 \<Longrightarrow> row_ok r \<Longrightarrow> dr_status r \<noteq> RowDiscarded \<Longrightarrow>
    (dr_status r = RowSending \<Longrightarrow> p = dr_claim_token r) \<Longrightarrow> \<not> scope_is_full a (dr_project r) db \<Longrightarrow>
    insert_draft r db = Inserted db' \<Longrightarrow> server_move env a p db db'"
| first_created: "actors_row a r db \<Longrightarrow> claim_of r = Some c \<Longrightarrow> p = Some (rc_token c) \<Longrightarrow> rc_kind c = SendFirst \<Longrightarrow>
    aq_turn q = rc_turn c \<Longrightarrow> start_names q r \<Longrightarrow> insert_first_turn a q (row_turn r) db = (Some n, db1) \<Longrightarrow>
    server_move env a p db (put_row (sent_first env c r) db1)"
| first_stored: "actors_row a r db \<Longrightarrow> claim_of r = Some c \<Longrightarrow> p = Some (rc_token c) \<Longrightarrow> rc_kind c = SendFirst \<Longrightarrow>
    aq_turn q = rc_turn c \<Longrightarrow> start_names q r \<Longrightarrow> classify_start_conflict a q db = VerdictStored \<Longrightarrow>
    server_move env a p db (put_row (sent_first env c r) db)"
| prompt_row_kept: "actors_row a r db \<Longrightarrow> dr_status r = RowActive \<Longrightarrow> start_names q r \<Longrightarrow>
    insert_first_turn a q turn db = (Some n, db1) \<Longrightarrow> server_move env a p db (put_row (prompted env r) db1)"
| prompt_row_new: "insert_first_turn a q turn db = (Some n, db1) \<Longrightarrow>
    insert_draft (prompt_row env a (aq_key q)) db1 = Inserted db2 \<Longrightarrow> server_move env a p db db2"

inductive_cases server_moveE: "server_move env a p db db'"

text \<open>
  A transaction: it settles, then makes at most one move of its own, and only a transaction that found no
  row may meet a commit of others in between.
\<close>

definition lease_settled :: "server_env \<Rightarrow> actor \<Rightarrow> string option \<Rightarrow> server_db \<Rightarrow> server_db \<Rightarrow> bool" where
  "lease_settled env a p = (lease_move env a p)\<^sup>*\<^sup>*"

definition server_path :: "server_env \<Rightarrow> actor \<Rightarrow> string option \<Rightarrow> (server_db \<Rightarrow> server_db) \<Rightarrow> server_db \<Rightarrow> server_db \<Rightarrow> bool" where
  "server_path env a p mid db db' \<longleftrightarrow>
     (\<exists>x. lease_settled env a p db x \<and> (db' = x \<or> server_move env a p x db')) \<or> db' = mid db \<or> server_move env a p (mid db) db'"

lemma settled_refl [intro, simp]: "lease_settled env a p db db"
  by (simp add: lease_settled_def)

lemma settled_trans: "lease_settled env a p x y \<Longrightarrow> lease_settled env a p y z \<Longrightarrow> lease_settled env a p x z"
  unfolding lease_settled_def by (rule rtranclp_trans)

lemma settled_one: "lease_move env a p x y \<Longrightarrow> lease_settled env a p x y"
  by (simp add: lease_settled_def)

lemma settled_induct [consumes 1, case_names refl step]:
  assumes "lease_settled env a p db db'" "Q db" "\<And>x y. lease_settled env a p db x \<Longrightarrow> Q x \<Longrightarrow> lease_move env a p x y \<Longrightarrow> Q y"
  shows "Q db'"
  using assms unfolding lease_settled_def by (induction rule: rtranclp_induct) blast+

lemma path_settled [intro]: "lease_settled env a p db x \<Longrightarrow> server_path env a p mid db x"
  by (auto simp: server_path_def)

lemma path_refl [intro, simp]: "server_path env a p mid db db"
  by (rule path_settled) simp

lemma path_move: "lease_settled env a p db x \<Longrightarrow> server_move env a p x y \<Longrightarrow> server_path env a p mid db y"
  by (auto simp: server_path_def)

lemma path_mid: "server_path env a p mid db (mid db)"
  by (simp add: server_path_def)

lemma path_mid_move: "server_move env a p (mid db) y \<Longrightarrow> server_path env a p mid db y"
  by (simp add: server_path_def)

lemma path_cases [consumes 1, case_names settle move mid mid_move]:
  assumes "server_path env a p mid db db'"
  obtains (settle) "lease_settled env a p db db'"
  | (move) x where "lease_settled env a p db x" "server_move env a p x db'"
  | (mid) "db' = mid db"
  | (mid_move) "server_move env a p (mid db) db'"
  using assms by (auto simp: server_path_def)

section \<open>Rows in the tables\<close>

lemma put_row_simps [simp]:
  "sv_threads (put_row r db) = sv_threads db"
  "map dr_id (sv_drafts (put_row r db)) = map dr_id (sv_drafts db)"
  by (auto simp: put_row_def)

lemma set_put_row: "set (sv_drafts (put_row r' db)) =
    {r \<in> set (sv_drafts db). dr_id r \<noteq> dr_id r'} \<union> {x. x = r' \<and> (\<exists>r\<in>set (sv_drafts db). dr_id r = dr_id r')}"
  by (auto simp: put_row_def)

lemma row_by_id:
  assumes "tables_ok db" "r \<in> set (sv_drafts db)" "x \<in> set (sv_drafts db)" "dr_id x = dr_id r"
  shows "x = r"
  using assms by (auto simp: tables_ok_def distinct_map inj_on_def)

lemma row_by_key:
  assumes "tables_ok db" "r \<in> set (sv_drafts db)" "x \<in> set (sv_drafts db)" "same_key x r"
  shows "x = r"
  using assms by (auto simp: tables_ok_def distinct_map inj_on_def table_key_def same_key_def)

lemma put_same_keys:
  assumes "tables_ok db" "r \<in> set (sv_drafts db)" "row_name r' = row_name r"
  shows "map table_key (sv_drafts (put_row r' db)) = map table_key (sv_drafts db)"
proof -
  have "table_key r' = table_key x" if "x \<in> set (sv_drafts db)" "dr_id x = dr_id r'" for x
    using row_by_id [OF assms(1,2) that(1)] that(2) assms(3) by (simp add: row_name_def table_key_def)
  then show ?thesis by (simp add: put_row_def)
qed

lemma put_keeps_ok:
  assumes "tables_ok db" "r \<in> set (sv_drafts db)" "row_name r' = row_name r" "row_ok r'"
  shows "tables_ok (put_row r' db)"
proof -
  have "list_all row_ok (sv_drafts (put_row r' db))"
    using assms(1,4) by (auto simp: tables_ok_def list_all_iff set_put_row)
  then show ?thesis using assms(1) put_same_keys [OF assms(1-3)] by (simp add: tables_ok_def)
qed

lemma filter_one: "distinct xs \<Longrightarrow> y \<in> set xs \<Longrightarrow> filter (\<lambda>x. x = y) xs = [y]"
  by (induction xs) (auto simp: filter_empty_conv)

lemma update_one:
  assumes "tables_ok db" "row \<in> set (sv_drafts db)" "\<And>x. x \<in> set (sv_drafts db) \<Longrightarrow> P x \<Longrightarrow> dr_id x = dr_id row" "P row" "dr_id (f row) = dr_id row"
  shows "update_drafts P f db = ([f row], put_row (f row) db)"
proof -
  have P: "P x \<longleftrightarrow> x = row" if "x \<in> set (sv_drafts db)" for x
    using row_by_id [OF assms(1,2) that] assms(3) [OF that] assms(4) by blast
  have "filter P (sv_drafts db) = filter (\<lambda>x. x = row) (sv_drafts db)"
    by (rule filter_cong) (simp_all add: P)
  also have "\<dots> = [row]"
    using assms(1,2) by (intro filter_one) (auto simp: tables_ok_def distinct_map)
  finally have "filter P (sv_drafts db) = [row]" .
  moreover have "map (\<lambda>r. if P r then f r else r) (sv_drafts db) = map (\<lambda>r. if dr_id r = dr_id row then f row else r) (sv_drafts db)"
    using P row_by_id [OF assms(1,2)] by (intro map_cong) auto
  ultimately show ?thesis by (simp add: update_drafts_def put_row_def assms(5))
qed

lemma update_none:
  assumes "\<And>x. x \<in> set (sv_drafts db) \<Longrightarrow> \<not> P x"
  shows "update_drafts P f db = ([], db)"
proof -
  have "map (\<lambda>r. if P r then f r else r) (sv_drafts db) = sv_drafts db" using assms by (intro map_idI) auto
  then show ?thesis using assms by (simp add: update_drafts_def filter_empty_conv)
qed

end
