(* ===== verification/Serve_Refines.thy ===== *)
theory Serve_Refines
  imports Serve_Moves
begin

text \<open>
  Every draft action is a path of the moves of Serve_Moves: the moves keep the tables' constraints, the
  lease settle is at most one move, and each body, read branch by branch, is a settle, the commits of others
  it admits, and at most one move of its own.
\<close>

section \<open>Moves keep the constraints\<close>

lemma claim_of_Some:
  "claim_of r = Some c \<longleftrightarrow> dr_status r = RowSending \<and> dr_claim_token r = Some (rc_token c) \<and>
     dr_claim_turn r = Some (rc_turn c) \<and> dr_claim_kind r = Some (rc_kind c)"
  by (cases c) (auto simp: claim_of_def split: option.splits)

lemma claim_ended_fields [simp]:
  "dr_id (claim_ended env c n how r) = dr_id r" "dr_user (claim_ended env c n how r) = dr_user r" "dr_org (claim_ended env c n how r) = dr_org r"
  "dr_project (claim_ended env c n how r) = dr_project r" "dr_conversation (claim_ended env c n how r) = dr_conversation r"
  "dr_revision (claim_ended env c n how r) = n + 1" "dr_status (claim_ended env c n how r) = RowActive"
  "dr_discarded_at (claim_ended env c n how r) = dr_discarded_at r" "dr_claim_token (claim_ended env c n how r) = None"
  "dr_claim_turn (claim_ended env c n how r) = None" "dr_claim_kind (claim_ended env c n how r) = None"
  "dr_claimed_at (claim_ended env c n how r) = None" "dr_updated_at (claim_ended env c n how r) = se_now env"
  "dr_content (claim_ended env c n how r) = (if how = EndConsume then empty_content else dr_content r)"
  by (cases how; simp add: claim_ended_def Let_def)+

lemma row_move_name: "row_move env p r r' \<Longrightarrow> row_name r' = row_name r"
  by (auto elim!: row_moveE simp: row_name_def claimed_fields_def)

lemma row_move_ok: "row_move env p r r' \<Longrightarrow> row_ok r \<Longrightarrow> row_ok r'"
  by (auto elim!: row_moveE simp: row_ok_def claimed_fields_def claim_of_Some)

lemma row_name_simps [simp]:
  "row_name (sent_first env c r) = row_name r" "row_name (prompted env r) = row_name r"
  by (simp_all add: row_name_def sent_first_def prompted_def)

lemma sent_first_ok: "row_ok r \<Longrightarrow> claim_of r = Some c \<Longrightarrow> row_ok (sent_first env c r)"
  by (auto simp: row_ok_def claim_of_Some sent_first_def)

lemma prompted_ok: "row_ok r \<Longrightarrow> row_ok (prompted env r)"
  by (auto simp: row_ok_def prompted_def split: if_splits)

lemma inserted:
  assumes "insert_draft r db = Inserted db'"
  shows "db' = db\<lparr>sv_drafts := sv_drafts db @ [r]\<rparr>" "dr_id r \<notin> dr_id ` set (sv_drafts db)" "table_key r \<notin> table_key ` set (sv_drafts db)"
  using assms by (auto simp: insert_draft_def list_ex_iff same_key_def table_key_def split: if_splits)

lemma insert_keeps_ok:
  assumes "insert_draft r db = Inserted db'" "tables_ok db" "row_ok r"
  shows "tables_ok db'"
  using inserted [OF assms(1)] assms(2,3) by (simp add: tables_ok_def)

lemma first_turn_inserted:
  assumes "insert_first_turn a q turn db = (Some n, db1)"
  shows "sv_drafts db1 = sv_drafts db" "n = 1"
    "\<exists>t. db1 = db\<lparr>sv_threads := sv_threads db @ [t]\<rparr> \<and> tr_id t = dk_conversation (aq_key q) \<and> tr_user t = ac_user a \<and>
       \<not> tr_deleted t \<and> tr_messages t = [first_message q turn]"
    "dk_conversation (aq_key q) \<notin> tr_id ` set (sv_threads db)"
  using assms by (auto simp: insert_first_turn_def list_ex_iff split: if_splits)

lemma first_turn_keeps_ok:
  assumes "insert_first_turn a q turn db = (Some n, db1)" "tables_ok db"
  shows "tables_ok db1"
  using first_turn_inserted [OF assms(1)] assms(2) by (auto simp: tables_ok_def)

lemma actors_row_in: "actors_row a r db \<Longrightarrow> r \<in> set (sv_drafts db)"
  by (simp add: actors_row_def)

lemma rows_ok: "tables_ok db \<Longrightarrow> r \<in> set (sv_drafts db) \<Longrightarrow> row_ok r"
  by (simp add: tables_ok_def list_all_iff)

lemma prompt_row_ok: "row_ok (prompt_row env a k)"
  by (simp add: row_ok_def prompt_row_def new_draft_row_def)

lemma server_move_ok:
  assumes "server_move env a p db db'" "tables_ok db"
  shows "tables_ok db'"
  using assms(1)
proof cases
  case (one_row r r')
  then show ?thesis
    using put_keeps_ok [OF assms(2) actors_row_in [OF one_row(2)] row_move_name row_move_ok] rows_ok [OF assms(2)] actors_row_in
    by metis
next
  case (new_row r)
  then show ?thesis using insert_keeps_ok assms(2) by blast
next
  case (first_created r c q n db1)
  then have "tables_ok db1" "r \<in> set (sv_drafts db1)"
    using first_turn_keeps_ok assms(2) first_turn_inserted(1) actors_row_in by metis+
  then show ?thesis using first_created put_keeps_ok sent_first_ok rows_ok by (metis row_name_simps(1))
next
  case (first_stored r c q)
  then show ?thesis using put_keeps_ok assms(2) sent_first_ok rows_ok actors_row_in by (metis row_name_simps(1))
next
  case (prompt_row_kept r q turn n db1)
  then have "tables_ok db1" "r \<in> set (sv_drafts db1)"
    using first_turn_keeps_ok assms(2) first_turn_inserted(1) actors_row_in by metis+
  then show ?thesis using prompt_row_kept put_keeps_ok prompted_ok rows_ok by (metis row_name_simps(2))
next
  case (prompt_row_new q turn n db1)
  then show ?thesis using insert_keeps_ok first_turn_keeps_ok assms(2) prompt_row_ok by blast
qed

lemma lease_move_row:
  assumes "lease_move env a p db db'"
  obtains r c how where "actors_row a r db" "claim_of r = Some c" "p \<noteq> Some (rc_token c)" "claim_is_silent env r"
    "how = EndConsume \<Longrightarrow> rc_kind c = SendLater \<and> claim_stored a r db = StoredSame"
    "db' = put_row (claim_ended env c (dr_revision r) how r) db"
  using assms by (auto elim!: lease_moveE)

lemma ended_ok: "row_ok r \<Longrightarrow> claim_of r = Some c \<Longrightarrow> row_ok (claim_ended env c (dr_revision r) how r)"
  by (auto simp: row_ok_def claim_of_Some)

lemma ended_name [simp]: "row_name (claim_ended env c n how r) = row_name r"
  by (simp add: row_name_def)

lemma lease_move_ok:
  assumes "lease_move env a p db db'" "tables_ok db"
  shows "tables_ok db'"
  using lease_move_row [OF assms(1)] put_keeps_ok [OF assms(2)] ended_ok rows_ok [OF assms(2)] actors_row_in ended_name
  by metis

lemma settled_ok: "lease_settled env a p db x \<Longrightarrow> tables_ok db \<Longrightarrow> tables_ok x"
  by (induction rule: settled_induct) (auto intro: lease_move_ok)

lemma path_ok:
  assumes "server_path env a p mid db db'" "tables_ok db" "tables_ok (mid db)"
  shows "tables_ok db'"
  using assms(1) by (cases rule: path_cases) (use assms(2,3) settled_ok server_move_ok in blast)+

section \<open>The settle\<close>

lemma lock_draft_Some:
  assumes "lock_draft a conversation db = Some row"
  shows "actors_row a row db" "dr_conversation row = conversation"
  using assms by (auto simp: lock_draft_def find_Some_iff own_key_def actors_row_def in_set_conv_nth)

lemma lock_draft_None:
  "lock_draft a conversation db = None \<longleftrightarrow> (\<forall>r\<in>set (sv_drafts db). \<not> own_key a conversation r)"
  by (auto simp: lock_draft_def find_None_iff)

lemma end_claim_one:
  assumes "tables_ok db" "actors_row a row db" "claim_of row = Some c" "only \<Longrightarrow> claim_is_silent env row"
  shows "end_claim env a row c how only db =
     (Some (claim_ended env c (dr_revision row) how row), put_row (claim_ended env c (dr_revision row) how row) db)"
proof -
  have "update_drafts (\<lambda>r. holds_claim a row c r \<and> (only \<longrightarrow> claim_is_silent env r)) (claim_ended env c (dr_revision row) how) db =
      ([claim_ended env c (dr_revision row) how row], put_row (claim_ended env c (dr_revision row) how row) db)"
    using assms by (intro update_one) (auto simp: holds_claim_def own_row_def actors_row_def claim_of_Some)
  then show ?thesis by (simp add: end_claim_def)
qed

lemma put_row_in: "r \<in> set (sv_drafts db) \<Longrightarrow> dr_id r' = dr_id r \<Longrightarrow> r' \<in> set (sv_drafts (put_row r' db))"
  by (auto simp: set_put_row)

lemma actors_put: "actors_row a r db \<Longrightarrow> row_name r' = row_name r \<Longrightarrow> actors_row a r' (put_row r' db)"
  by (auto simp: actors_row_def row_name_def intro: put_row_in)

lemma settle_cases:
  assumes "tables_ok db" "actors_row a row db" "settle_if_silent env a row p db = (r', db')"
  obtains (stays) "r' = row" "db' = db" "\<And>c. claim_of row = Some c \<Longrightarrow> p = Some (rc_token c) \<or> \<not> claim_is_silent env row"
  | (settles) c where "claim_of row = Some c" "p \<noteq> Some (rc_token c)" "claim_is_silent env row"
      "r' = claim_ended env c (dr_revision row) (settle_end a row c db) row" "db' = put_row r' db"
proof (cases "claim_of row")
  case None
  then show ?thesis using assms(3) stays by (simp add: settle_if_silent_def)
next
  case (Some c)
  have found: "List.find (own_row a row) (sv_drafts db) = Some row"
  proof (cases "List.find (own_row a row) (sv_drafts db)")
    case None
    then show ?thesis using assms(2) by (auto simp: find_None_iff own_row_def actors_row_def)
  next
    case (Some x)
    then have "x \<in> set (sv_drafts db)" "dr_id x = dr_id row" by (auto simp: find_Some_iff own_row_def in_set_conv_nth)
    then show ?thesis using row_by_id [OF assms(1) actors_row_in [OF assms(2)]] Some by simp
  qed
  show ?thesis
  proof (cases "p = Some (rc_token c) \<or> \<not> claim_is_silent env row")
    case True
    then have "(r', db') = (row, db)" using assms(3) Some found by (auto simp: settle_if_silent_def split: if_splits)
    then show ?thesis using stays True Some by auto
  next
    case False
    then show ?thesis using settles [of c] assms(3) Some found end_claim_one [OF assms(1,2) Some]
      by (auto simp: settle_if_silent_def settle_silent_def)
  qed
qed

lemma settle_end_consumes:
  assumes "settle_end a row c db = EndConsume" "claim_of row = Some c"
  shows "rc_kind c = SendLater \<and> claim_stored a row db = StoredSame"
  using assms by (auto simp: settle_end_def claim_stored_def claim_of_Some split: send_kind.splits stored_turn_answer.splits)

lemma settle_path:
  assumes "tables_ok db" "actors_row a row db" "settle_if_silent env a row p db = (r', db')"
  shows "lease_settled env a p db db'" "tables_ok db'" "actors_row a r' db'" "row_name r' = row_name row"
proof -
  have "lease_settled env a p db db' \<and> tables_ok db' \<and> actors_row a r' db' \<and> row_name r' = row_name row"
  proof (rule settle_cases [OF assms])
    assume "r' = row" "db' = db"
    then show ?thesis using assms(1,2) by simp
  next
    fix c assume c: "claim_of row = Some c" "p \<noteq> Some (rc_token c)" "claim_is_silent env row"
      "r' = claim_ended env c (dr_revision row) (settle_end a row c db) row" "db' = put_row r' db"
    have m: "lease_move env a p db db'" and n: "row_name r' = row_name row"
      using lease_end [OF assms(2) c(1-3)] settle_end_consumes c(1,4,5) by auto
    then show ?thesis
      using settled_one [OF m] lease_move_ok [OF m assms(1)] actors_put [OF assms(2) n] c(5) by simp
  qed
  then show "lease_settled env a p db db'" "tables_ok db'" "actors_row a r' db'" "row_name r' = row_name row" by auto
qed

section \<open>The bodies\<close>

lemma cas_update:
  assumes "tables_ok db" "actors_row a row db" "dr_status row = st" "dr_revision row = base" "dr_id (f row) = dr_id row"
  shows "update_drafts (cas_predicate a row base st) f db = ([f row], put_row (f row) db)"
  using assms by (intro update_one) (auto simp: cas_predicate_def own_row_def actors_row_def)

lemma path_row:
  assumes "lease_settled env a p db x" "actors_row a r x" "row_move env p r r'"
  shows "server_path env a p mid db (put_row r' x)"
  using path_move [OF assms(1) one_row [OF assms(2,3)]] .

text \<open>A key's row behind its lock: the settled row of a key that has one.\<close>

lemma lock_and_settle_cases:
  assumes "tables_ok db" "lock_and_settle env a conversation db = (found, db1)"
  obtains (none) "found = None" "db1 = db" "\<And>r. r \<in> set (sv_drafts db) \<Longrightarrow> \<not> own_key a conversation r"
  | (row) row where "found = Some row" "lease_settled env a None db db1" "tables_ok db1" "actors_row a row db1"
      "dr_conversation row = conversation"
proof (cases "lock_draft a conversation db")
  case None
  then show ?thesis using none assms(2) lock_draft_None [of a conversation db] by (auto simp: lock_and_settle_def)
next
  case (Some r)
  obtain r' db' where s: "settle_if_silent env a r None db = (r', db')" by fastforce
  note sp = settle_path [OF assms(1) lock_draft_Some(1) [OF Some] s]
  show ?thesis using row [of r'] assms(2) Some s sp lock_draft_Some(2) [OF Some]
    by (auto simp: lock_and_settle_def row_name_def)
qed

lemma new_draft_fields [simp]:
  "dr_id (new_draft_row env a k) = se_row_id env" "dr_user (new_draft_row env a k) = ac_user a"
  "dr_org (new_draft_row env a k) = ac_org a" "dr_project (new_draft_row env a k) = ds_project k"
  "dr_conversation (new_draft_row env a k) = dk_conversation k" "dr_revision (new_draft_row env a k) = 1"
  "dr_status (new_draft_row env a k) = RowActive" "dr_discarded_at (new_draft_row env a k) = None"
  "dr_claim_token (new_draft_row env a k) = None" "dr_claim_turn (new_draft_row env a k) = None"
  "dr_claim_kind (new_draft_row env a k) = None" "dr_claimed_at (new_draft_row env a k) = None"
  "dr_content (new_draft_row env a k) = empty_content" "dr_failed_send (new_draft_row env a k) = None"
  by (simp_all add: new_draft_row_def)

lemma save_path:
  assumes "tables_ok db" "save_body env mid q a db = (x, db')"
  shows "server_path env a None mid db db'"
proof -
  obtain found db1 where l: "lock_and_settle env a (dk_conversation (sq_key q)) db = (found, db1)" by fastforce
  show ?thesis
  proof (rule lock_and_settle_cases [OF assms(1) l])
    assume n: "found = None" "db1 = db"
    have new: "server_path env a None mid db db3"
      if "\<not> scope_is_full a (ds_project (sq_key q)) (mid db)"
        "insert_draft (saved_fields env q f s (new_draft_row env a (sq_key q))\<lparr>dr_title := t\<rparr>) (mid db) = Inserted db3" for f s t db3
      using that by (intro path_mid_move new_row [OF _ _ _ _ _ _ _ _ that(2)])
        (simp_all add: saved_fields_def row_ok_def)
    then show ?thesis using assms(2) l n
      by (auto simp: save_body_def Let_def intro: path_mid path_settled split: if_splits insert_answer.splits option.splits)
  next
    fix row assume r: "found = Some row" "lease_settled env a None db db1" "tables_ok db1" "actors_row a row db1"
    have move: "server_path env a None mid db (put_row (saved_row env q row saw t row) db1)" if "dr_status row = RowActive" for saw t
      by (rule path_row [OF r(2,4)], rule save_move [OF that]) (simp add: saved_row_def saved_fields_def)
    have "dr_id (saved_row env q row saw t row) = dr_id row" for saw t by (simp add: saved_row_def saved_fields_def)
    then show ?thesis using assms(2) l r move
      by (auto simp: save_body_def Let_def cas_update [OF r(3,4)] split: if_splits)
  qed
qed

lemma discard_path:
  assumes "tables_ok db" "discard_body env q a db = (x, db')"
  shows "server_path env a None mid db db'"
proof -
  obtain found db1 where l: "lock_and_settle env a (dk_conversation (cq_key q)) db = (found, db1)" by fastforce
  show ?thesis
  proof (rule lock_and_settle_cases [OF assms(1) l])
    fix row assume r: "found = Some row" "lease_settled env a None db db1" "tables_ok db1" "actors_row a row db1"
    show ?thesis using assms(2) l r
      by (auto simp: discard_body_def cas_update [OF r(3,4)] intro!: path_row [OF r(2,4)] discard_move split: if_splits)
  qed (use assms(2) l in \<open>auto simp: discard_body_def\<close>)
qed

lemma restore_path:
  assumes "tables_ok db" "restore_body env q a db = (x, db')"
  shows "server_path env a None mid db db'"
proof -
  obtain found db1 where l: "lock_and_settle env a (dk_conversation (cq_key q)) db = (found, db1)" by fastforce
  show ?thesis
  proof (rule lock_and_settle_cases [OF assms(1) l])
    fix row assume r: "found = Some row" "lease_settled env a None db db1" "tables_ok db1" "actors_row a row db1"
    show ?thesis using assms(2) l r
      by (auto simp: restore_body_def cas_update [OF r(3,4)] intro!: path_row [OF r(2,4)] restore_move split: if_splits)
  qed (use assms(2) l in \<open>auto simp: restore_body_def\<close>)
qed

lemma claim_found_new_path:
  assumes "claim_found env mid q a None db = (x, db')"
  shows "server_path env a (Some (mq_token q)) mid db db'"
proof -
  have "server_path env a (Some (mq_token q)) mid db db2"
    if "\<not> scope_is_full a (ds_project (mq_key q)) (mid db)"
      "insert_draft (claimed_fields env q (new_draft_row env a (mq_key q))) (mid db) = Inserted db2" for db2
    using that by (intro path_mid_move new_row [OF _ _ _ _ _ _ _ _ that(2)])
      (simp_all add: claimed_fields_def row_ok_def)
  then show ?thesis using assms
    by (auto simp: claim_found_def Let_def intro: path_mid path_settled split: if_splits insert_answer.splits option.splits)
qed

lemma claim_found_row_path:
  assumes "claim_found env mid q a (Some row) db = (x, db')" "tables_ok db" "actors_row a row db"
    "lease_settled env a (Some (mq_token q)) db0 db"
  shows "server_path env a (Some (mq_token q)) mid db0 db'"
proof -
  let ?r = "(claimed_fields env q row)\<lparr>dr_revision := dr_revision row + 1\<rparr>"
  have "server_path env a (Some (mq_token q)) mid db0 (put_row ?r db)" if "dr_status row = RowActive"
    by (rule path_row [OF assms(4,3)], rule claim_move [OF that refl refl])
  moreover have "dr_id ?r = dr_id row" by (simp add: claimed_fields_def)
  ultimately show ?thesis using assms(1,4)
    by (auto simp: claim_found_def Let_def cas_update [OF assms(2,3)] split: if_splits)
qed

lemma claim_path:
  assumes "tables_ok db" "claim_body env mid q a db = (x, db')"
  shows "server_path env a (Some (mq_token q)) mid db db'"
proof (cases "lock_draft a (dk_conversation (mq_key q)) db")
  case None
  then show ?thesis using assms(2) claim_found_new_path by (simp add: claim_body_def)
next
  case (Some locked)
  obtain row db1 where s: "settle_if_silent env a locked (Some (mq_token q)) db = (row, db1)" by fastforce
  note sp = settle_path [OF assms(1) lock_draft_Some(1) [OF Some] s]
  show ?thesis using assms(2) Some s claim_found_row_path [OF _ sp(2,3,1)]
    by (auto simp: claim_body_def split: if_splits)
qed

lemma own_claim_cases:
  assumes "tables_ok db" "lock_own_claim env a k token db = (x, db1)"
  obtains (own) row c where "x = OwnClaim row c" "db1 = db" "actors_row a row db" "claim_of row = Some c" "rc_token c = token"
      "dr_conversation row = dk_conversation k" "dr_project row = ds_project k"
  | (other) "\<And>row c. x \<noteq> OwnClaim row c" "lease_settled env a (Some token) db db1"
proof (cases "lock_draft a (dk_conversation k) db")
  case None
  then show ?thesis using other assms(2) by (auto simp: lock_own_claim_def)
next
  case (Some row)
  obtain r' db' where s: "settle_if_silent env a row (Some token) db = (r', db')" by fastforce
  note l = lock_draft_Some [OF Some]
  have sp: "lease_settled env a (Some token) db db'" by (rule settle_path(1) [OF assms(1) l(1) s])
  show ?thesis
  proof (cases "\<exists>c. claim_of row = Some c \<and> rc_token c = token \<and> same_anchor row (ds_project k)")
    case True
    then show ?thesis using own [of row] assms(2) Some l by (auto simp: lock_own_claim_def same_anchor_def Let_def)
  next
    case False
    then show ?thesis using other assms(2) Some s sp
      by (auto simp: lock_own_claim_def Let_def split: if_splits option.splits)
  qed
qed

lemma own_end_path:
  assumes "tables_ok db" "actors_row a row db" "claim_of row = Some c" "how = EndConsume \<Longrightarrow> rc_kind c = SendLater"
  shows "server_path env a (Some (rc_token c)) mid db (put_row (claim_ended env c (dr_revision row) how row) db)"
  by (rule path_row [OF settled_refl assms(2)], rule own_end [OF assms(3) refl assms(4) refl])

lemma consume_path:
  assumes "tables_ok db" "consume_body env q a db = (x, db')"
  shows "server_path env a (Some (tq_token q)) mid db db'"
proof -
  obtain own db1 where l: "lock_own_claim env a (tq_key q) (tq_token q) db = (own, db1)" by fastforce
  show ?thesis
  proof (rule own_claim_cases [OF assms(1) l])
    fix row c assume r: "own = OwnClaim row c" "db1 = db" "actors_row a row db" "claim_of row = Some c" "rc_token c = tq_token q"
    show ?thesis using assms(2) l r own_end_path [OF assms(1) r(3,4), of EndConsume env mid]
      by (auto simp: consume_body_def end_claim_one [OF assms(1) r(3,4)] split: if_splits)
  next
    assume "\<And>row c. own \<noteq> OwnClaim row c" "lease_settled env a (Some (tq_token q)) db db1"
    then show ?thesis using assms(2) l by (cases own) (auto simp: consume_body_def intro: path_settled)
  qed
qed

lemma release_end_consumes: "release_end q a row c db = EndConsume \<Longrightarrow> rc_kind c = SendLater"
  by (auto simp: release_end_def split: option.splits if_splits)

lemma release_path:
  assumes "tables_ok db" "release_body env q a db = (x, db')"
  shows "server_path env a (Some (tq_token q)) mid db db'"
proof -
  obtain own db1 where l: "lock_own_claim env a (tq_key q) (tq_token q) db = (own, db1)" by fastforce
  show ?thesis
  proof (rule own_claim_cases [OF assms(1) l])
    fix row c assume r: "own = OwnClaim row c" "db1 = db" "actors_row a row db" "claim_of row = Some c" "rc_token c = tq_token q"
    show ?thesis using assms(2) l r own_end_path [OF assms(1) r(3,4) release_end_consumes]
      by (auto simp: release_body_def end_claim_one [OF assms(1) r(3,4)] split: if_splits)
  next
    assume "\<And>row c. own \<noteq> OwnClaim row c" "lease_settled env a (Some (tq_token q)) db db1"
    then show ?thesis using assms(2) l by (cases own) (auto simp: release_body_def intro: path_settled)
  qed
qed

lemma touch_path:
  assumes "tables_ok db" "touch_claim env a conversation token db = (x, db')"
  shows "server_path env a (Some token) mid db db'"
proof (cases "\<exists>r\<in>set (sv_drafts db). own_key a conversation r \<and> dr_status r = RowSending \<and> dr_claim_token r = Some token")
  case True
  then obtain r where r: "r \<in> set (sv_drafts db)" "own_key a conversation r" "dr_status r = RowSending" "dr_claim_token r = Some token"
    by blast
  then have ar: "actors_row a r db" by (simp add: actors_row_def own_key_def)
  obtain c where c: "claim_of r = Some c" "rc_token c = token"
    using rows_ok [OF assms(1) r(1)] r(3,4) by (auto simp: row_ok_def claim_of_def)
  have "update_drafts (\<lambda>r. own_key a conversation r \<and> dr_status r = RowSending \<and> dr_claim_token r = Some token)
      (\<lambda>r. r\<lparr>dr_claimed_at := Some (se_now env)\<rparr>) db = ([r\<lparr>dr_claimed_at := Some (se_now env)\<rparr>], put_row (r\<lparr>dr_claimed_at := Some (se_now env)\<rparr>) db)"
  proof (rule update_one [OF assms(1) r(1)])
    fix x assume x: "x \<in> set (sv_drafts db)" "own_key a conversation x \<and> dr_status x = RowSending \<and> dr_claim_token x = Some token"
    then have "same_key x r" using r(2) by (simp add: same_key_def own_key_def)
    then show "dr_id x = dr_id r" using row_by_key [OF assms(1) r(1) x(1)] by simp
  qed (use r in simp_all)
  then have "db' = put_row (r\<lparr>dr_claimed_at := Some (se_now env)\<rparr>) db" using assms(2) by (simp add: touch_claim_def)
  then show ?thesis using path_row [OF settled_refl ar beat_move [OF c(1) _ refl]] c(2) by simp
next
  case False
  then have "update_drafts (\<lambda>r. own_key a conversation r \<and> dr_status r = RowSending \<and> dr_claim_token r = Some token)
      (\<lambda>r. r\<lparr>dr_claimed_at := Some (se_now env)\<rparr>) db = ([], db)"
    by (intro update_none) blast
  then show ?thesis using assms(2) by (auto simp: touch_claim_def split: option.splits)
qed

lemma settle_silent_in:
  assumes "tables_ok db" "actors_row a row db" "claim_of row = Some c" "claim_is_silent env row"
  shows "snd (settle_silent env a row c db) = put_row (claim_ended env c (dr_revision row) (settle_end a row c db) row) db"
  using end_claim_one [OF assms(1-3)] assms(4) by (simp add: settle_silent_def)

lemma settle_listed_path:
  assumes "tables_ok db" "actors_row a row db" "claim_is_silent env row"
  shows "lease_settled env a None db (settle_listed env a row db)" "tables_ok (settle_listed env a row db)"
    "x \<in> set (sv_drafts db) \<Longrightarrow> dr_id x \<noteq> dr_id row \<Longrightarrow> x \<in> set (sv_drafts (settle_listed env a row db))"
proof -
  have "lease_settled env a None db (settle_listed env a row db) \<and> tables_ok (settle_listed env a row db) \<and>
      (x \<in> set (sv_drafts db) \<longrightarrow> dr_id x \<noteq> dr_id row \<longrightarrow> x \<in> set (sv_drafts (settle_listed env a row db)))"
  proof (cases "claim_of row")
    case None
    then show ?thesis using assms(1) by (simp add: settle_listed_def)
  next
    case (Some c)
    let ?r = "claim_ended env c (dr_revision row) (settle_end a row c db) row"
    have e: "settle_listed env a row db = put_row ?r db"
      using settle_silent_in [OF assms(1,2) Some assms(3)] Some by (simp add: settle_listed_def)
    have m: "lease_move env a None db (put_row ?r db)"
      by (rule lease_end [OF assms(2) Some _ assms(3) settle_end_consumes [OF _ Some]]) simp_all
    show ?thesis unfolding e using settled_one [OF m] lease_move_ok [OF m assms(1)] by (simp add: set_put_row)
  qed
  then show "lease_settled env a None db (settle_listed env a row db)" "tables_ok (settle_listed env a row db)"
    "x \<in> set (sv_drafts db) \<Longrightarrow> dr_id x \<noteq> dr_id row \<Longrightarrow> x \<in> set (sv_drafts (settle_listed env a row db))" by auto
qed

lemma settle_rows_path:
  assumes "tables_ok db" "distinct (map dr_id rows)" "\<And>r. r \<in> set rows \<Longrightarrow> actors_row a r db \<and> claim_is_silent env r"
  shows "lease_settled env a None db (fold (settle_listed env a) rows db)"
  using assms
proof (induction rows arbitrary: db)
  case (Cons r rows)
  let ?db = "settle_listed env a r db"
  have r: "actors_row a r db" "claim_is_silent env r" using Cons.prems(3) by auto
  note s = settle_listed_path [OF Cons.prems(1) r]
  have "actors_row a x ?db \<and> claim_is_silent env x" if "x \<in> set rows" for x
  proof -
    have "dr_id x \<noteq> dr_id r" using Cons.prems(2) that by (metis distinct.simps(2) image_eqI list.set_map list.simps(9))
    then show ?thesis using Cons.prems(3) [of x] that s(3) by (simp add: actors_row_def)
  qed
  then have "lease_settled env a None ?db (fold (settle_listed env a) rows ?db)"
    using Cons.IH [OF s(2)] Cons.prems(2) by simp
  then show ?case using settled_trans [OF s(1)] by simp
qed simp

lemma list_path:
  assumes "tables_ok db" "list_body env project a db = (x, db')"
  shows "server_path env a None mid db db'"
proof -
  have d: "distinct (map dr_id (filter (silent_in_scope env a project) (sv_drafts db)))"
    using assms(1) by (simp add: tables_ok_def distinct_map_filter)
  have "lease_settled env a None db (settle_scope env a project db)"
    unfolding settle_scope_def
    by (rule settle_rows_path [OF assms(1) d]) (auto simp: silent_in_scope_def own_scope_def actors_row_def)
  then show ?thesis using assms(2) by (auto simp: list_body_def Let_def intro: path_settled)
qed

section \<open>The start\<close>

lemma consume_first_one:
  assumes "tables_ok db" "actors_row a row db" "claim_of row = Some c"
  shows "consume_first_turn env a row c db = (Some (dr_revision row + 1), put_row (sent_first env c row) db)"
proof -
  have "update_drafts (holds_claim a row c)
      (\<lambda>r. r\<lparr>dr_status := RowActive, dr_claim_token := None, dr_claim_turn := None, dr_claim_kind := None,
        dr_claimed_at := None, dr_content := empty_content, dr_failed_send := None,
        dr_last_sent := Some \<lparr>ls_turn = rc_turn c, ls_kind = rc_kind c, ls_at = se_at env\<rparr>,
        dr_thread_seen := True, dr_revision := dr_revision row + 1, dr_updated_at := se_now env\<rparr>) db =
      ([sent_first env c row], put_row (sent_first env c row) db)"
    using assms unfolding sent_first_def
    by (intro update_one) (auto simp: holds_claim_def own_row_def actors_row_def claim_of_Some)
  then show ?thesis by (simp add: consume_first_turn_def) (simp add: sent_first_def)
qed

lemma verdict_of_none:
  "insert_first_turn a q turn db = (None, db1) \<Longrightarrow> db1 = db"
  by (auto simp: insert_first_turn_def split: if_splits)

lemma start_composer_path:
  assumes "tables_ok db" "actors_row a row db" "start_names q row" "lease_settled env a (Some token) db0 db"
    "start_composer env q token a (Some row) db = (x, db')"
  shows "server_path env a (Some token) mid db0 db'"
proof (cases "\<exists>c. claim_of row = Some c \<and> rc_token c = token \<and> rc_kind c = SendFirst \<and> rc_turn c = aq_turn q")
  case False
  then show ?thesis using assms(5) assms(4) by (auto simp: start_composer_def Let_def split: option.splits if_splits)
next
  case True
  then obtain c where c: "claim_of row = Some c" "rc_token c = token" "rc_kind c = SendFirst" "rc_turn c = aq_turn q" by blast
  obtain n db1 where i: "insert_first_turn a q (row_turn row) db = (n, db1)" by fastforce
  have p: "Some token = Some (rc_token c)" "aq_turn q = rc_turn c" using c by simp_all
  show ?thesis
  proof (cases n)
    case (Some m)
    have "tables_ok db1" "actors_row a row db1"
      using first_turn_keeps_ok [OF _ assms(1)] first_turn_inserted(1) i Some assms(2) by (auto simp: actors_row_def)
    then have "db' = put_row (sent_first env c row) db1"
      using assms(5) c i Some by (auto simp: start_composer_def row_turn_def [symmetric] consume_first_one)
    then show ?thesis
      using path_move [OF assms(4) first_created [OF assms(2) c(1) p(1) c(3) p(2) assms(3)]] i Some by simp
  next
    case None
    then have db1: "db1 = db" using i verdict_of_none by blast
    show ?thesis
    proof (cases "classify_start_conflict a q db = VerdictStored")
      case True
      then have "db' = put_row (sent_first env c row) db"
        using assms(5) c i None db1 by (auto simp: start_composer_def row_turn_def [symmetric] consume_first_one [OF assms(1,2)])
      then show ?thesis
        using path_move [OF assms(4) first_stored [OF assms(2) c(1) p(1) c(3) p(2) assms(3) True]] by simp
    next
      case False
      then have "\<exists>how. how \<noteq> EndConsume \<and> db' = put_row (claim_ended env c (dr_revision row) how row) db"
        using assms(5) c i None db1
        by (auto simp: start_composer_def row_turn_def [symmetric] Let_def end_claim_one [OF assms(1,2)])
      then show ?thesis using path_row [OF assms(4,2) own_end [OF c(1) p(1)]] by auto
    qed
  qed
qed

lemma start_external_new_path:
  assumes "start_external env mid q base content a None db = (x, db')"
  shows "server_path env a None mid db db'"
proof -
  let ?turn = "first_turn_of (dc_text content) (dc_mentions content) (dc_cell content)"
  obtain w db1 where w: "write_prompt env q base ?turn a None (mid db) = (w, db1)" by fastforce
  have "server_path env a None mid db db1"
  proof (cases "insert_first_turn a q ?turn (mid db)")
    case (Pair n db2)
    show ?thesis
    proof (cases n)
      case None
      then have "db2 = mid db" using Pair verdict_of_none by blast
      then show ?thesis using w Pair None path_mid by (auto simp: write_prompt_def)
    next
      case (Some m)
      then have "db1 = mid db \<or> insert_draft (prompt_row env a (aq_key q)) db2 = Inserted db1"
        using w Pair by (auto simp: write_prompt_def split: insert_answer.splits)
      then show ?thesis
        using path_mid path_mid_move [OF prompt_row_new] Pair Some by auto
    qed
  qed
  moreover have "db' = db1"
    using assms w by (auto simp: start_external_def Let_def split: prompt_write.splits option.splits)
  ultimately show ?thesis by simp
qed

lemma start_external_row_path:
  assumes "tables_ok db" "actors_row a row db" "start_names q row" "lease_settled env a None db0 db"
    "start_external env mid q base content a (Some row) db = (x, db')"
  shows "server_path env a None mid db0 db'"
proof (cases "dr_status row = RowActive \<and> dr_revision row = base")
  case False
  then show ?thesis using assms(5) assms(4) by (auto simp: start_external_def Let_def split: if_splits)
next
  case True
  let ?turn = "first_turn_of (dc_text content) (dc_mentions content) (dc_cell content)"
  obtain n db1 where i: "insert_first_turn a q ?turn db = (n, db1)" by fastforce
  show ?thesis
  proof (cases n)
    case None
    then have "db1 = db" using i verdict_of_none by blast
    then show ?thesis using assms(5) assms(4) True i None by (auto simp: start_external_def write_prompt_def)
  next
    case (Some m)
    have ok: "tables_ok db1" "actors_row a row db1"
      using first_turn_keeps_ok [OF _ assms(1)] first_turn_inserted(1) i Some assms(2) by (auto simp: actors_row_def)
    have "update_drafts (cas_predicate a row base RowActive)
        (\<lambda>r. r\<lparr>dr_failed_send := None, dr_thread_seen := True, dr_revision := dr_revision row + 1, dr_updated_at := se_now env\<rparr>) db1 =
        ([prompted env row], put_row (prompted env row) db1)"
      unfolding prompted_def by (rule cas_update [OF ok]) (use True in simp_all)
    then have "db' = put_row (prompted env row) db1"
      using assms(5) True i Some by (auto simp: start_external_def write_prompt_def)
    then show ?thesis using path_move [OF assms(4) prompt_row_kept [OF assms(2) _ assms(3)]] True i Some by simp
  qed
qed

lemma start_path:
  assumes "tables_ok db" "start_transaction env mid q a db = (x, db')"
  shows "server_path env a (presented_token q) mid db db'"
proof (cases "lock_draft a (dk_conversation (aq_key q)) db")
  case None
  then show ?thesis using assms(2) start_external_new_path
    by (auto simp: start_transaction_def start_found_def start_composer_def presented_token_def split: start_origin.splits)
next
  case (Some locked)
  note l = lock_draft_Some [OF Some]
  obtain row db1 where s: "settle_if_silent env a locked (presented_token q) db = (row, db1)" by fastforce
  note sp = settle_path [OF assms(1) l(1) s]
  show ?thesis
  proof (cases "same_anchor locked (ds_project (aq_key q))")
    case False
    then show ?thesis using assms(2) Some by (simp add: start_transaction_def)
  next
    case True
    then have "start_names q row" using sp(4) l(2) by (auto simp: start_names_def row_name_def same_anchor_def)
    then show ?thesis
      using assms(2) Some s True start_composer_path [OF sp(2,3)] start_external_row_path [OF sp(2,3)] sp(1)
      by (auto simp: start_transaction_def start_found_def presented_token_def split: start_origin.splits)
  qed
qed

section \<open>The server's calls\<close>

text \<open>What a client may ask of the drafts' server; an input its schema refused is \<open>None\<close>.\<close>

datatype server_call =
  CallList "list_request option"
| CallSave "save_request option"
| CallDiscard "cas_request option"
| CallRestore "cas_request option"
| CallClaim "claim_request option"
| CallConsume "token_request option"
| CallRelease "release_request option"
| CallStart "start_request option"
| CallCount "(string \<times> string option) option"
| CallBeat beat_world

text \<open>One call's world: its clock, its gate, the schema's UUID test.\<close>

record call_world =
  cw_env :: server_env
  cw_gate :: gate_world
  cw_uuid :: "string \<Rightarrow> bool"

fun perform :: "call_world \<Rightarrow> (server_db \<Rightarrow> server_db) \<Rightarrow> server_call \<Rightarrow> server_db \<Rightarrow> server_db" where
  "perform w mid (CallList i) db = snd (list_drafts (cw_env w) (cw_gate w) i db)"
| "perform w mid (CallSave i) db = snd (save_draft (cw_env w) (cw_gate w) mid i db)"
| "perform w mid (CallDiscard i) db = snd (discard_draft_row (cw_env w) (cw_gate w) i db)"
| "perform w mid (CallRestore i) db = snd (restore_draft (cw_env w) (cw_gate w) i db)"
| "perform w mid (CallClaim i) db = snd (claim_draft (cw_env w) (cw_gate w) mid i db)"
| "perform w mid (CallConsume i) db = snd (consume_draft (cw_env w) (cw_gate w) i db)"
| "perform w mid (CallRelease i) db = snd (release_claim (cw_env w) (cw_gate w) i db)"
| "perform w mid (CallStart i) db = snd (start_conversation (cw_env w) (cw_uuid w) (cw_gate w) mid i db)"
| "perform w mid (CallCount i) db = snd (count_drafts (cw_gate w) i db)"
| "perform w mid (CallBeat b) db = snd (heartbeat_post (cw_env w) b db)"

text \<open>The claim token a call presents, and the scope its gate authorizes.\<close>

fun presents :: "server_call \<Rightarrow> string option" where
  "presents (CallClaim (Some q)) = Some (mq_token q)"
| "presents (CallConsume (Some q)) = Some (tq_token q)"
| "presents (CallRelease (Some q)) = Some (tq_token q)"
| "presents (CallStart (Some q)) = presented_token q"
| "presents (CallBeat b) = (case bw_input b of None \<Rightarrow> None | Some (org, conversation, token) \<Rightarrow> Some token)"
| "presents _ = None"

fun call_scope :: "server_call \<Rightarrow> gate_scope option" where
  "call_scope (CallList (Some q)) = Some \<lparr>gs_key_org = None, gs_hint = lq_hint q, gs_project = lq_project q\<rparr>"
| "call_scope (CallSave (Some q)) = Some (key_scope (sq_key q))"
| "call_scope (CallDiscard (Some q)) = Some (key_scope (cq_key q))"
| "call_scope (CallRestore (Some q)) = Some (key_scope (cq_key q))"
| "call_scope (CallClaim (Some q)) = Some (key_scope (mq_key q))"
| "call_scope (CallConsume (Some q)) = Some (key_scope (tq_key q))"
| "call_scope (CallRelease (Some q)) = Some (key_scope (tq_key q))"
| "call_scope (CallStart (Some q)) = Some (key_scope (aq_key q))"
| "call_scope (CallCount (Some (conversation, hint))) = Some \<lparr>gs_key_org = None, gs_hint = hint, gs_project = None\<rparr>"
| "call_scope _ = None"

text \<open>The actor a call acts for: behind the gate the authorized one, at the heartbeat the one its session resolves to.\<close>

definition call_actor :: "call_world \<Rightarrow> server_call \<Rightarrow> actor \<Rightarrow> bool" where
  "call_actor w call a \<longleftrightarrow>
     (case call of
        CallBeat b \<Rightarrow> (\<exists>user org conversation token. bw_owner b = Inr (Some user) \<and> bw_json b \<and> bw_rate b = Inr True \<and>
          bw_input b = Some (org, conversation, token) \<and> bw_actor b user org = Inr (Some a))
      | _ \<Rightarrow> (case call_scope call of None \<Rightarrow> False | Some sc \<Rightarrow> authorized (cw_gate w) sc a))"

definition call_path :: "call_world \<Rightarrow> (server_db \<Rightarrow> server_db) \<Rightarrow> server_call \<Rightarrow> server_db \<Rightarrow> server_db \<Rightarrow> bool" where
  "call_path w mid call db db' \<longleftrightarrow>
     db' = db \<or> (\<exists>a. call_actor w call a \<and> server_path (cw_env w) a (presents call) mid db db')"

lemma gated_path:
  assumes "\<And>a x db'. body a db = (x, db') \<Longrightarrow> server_path env a p mid db db'"
  shows "snd (run_draft_gate w sc refused body db) = db \<or>
    (\<exists>a. authorized w sc a \<and> server_path env a p mid db (snd (run_draft_gate w sc refused body db)))"
proof -
  obtain res db' where r: "run_draft_gate w sc refused body db = (res, db')" by fastforce
  show ?thesis by (rule gate_cases [OF r]) (use r assms in auto)
qed

lemma beat_path:
  assumes "tables_ok db"
  shows "snd (heartbeat_post env b db) = db \<or>
    (\<exists>user org conversation token a. bw_owner b = Inr (Some user) \<and> bw_json b \<and> bw_rate b = Inr True \<and>
       bw_input b = Some (org, conversation, token) \<and> bw_actor b user org = Inr (Some a) \<and>
       server_path env a (Some token) mid db (snd (heartbeat_post env b db)))"
proof -
  have t: "server_path env a (Some token) mid db (snd (touch_claim env a conversation token db))" for a conversation token
    using touch_path [OF assms] by (metis prod.collapse)
  show ?thesis
    using t by (auto simp: heartbeat_post_def in_transaction_def case_prod_unfold split: sum.splits option.splits bool.splits tx_fate.splits)
qed

end
