(* ===== verification/Serve_Sweep.thy ===== *)
theory Serve_Sweep
  imports Serve_Claims Serve_Gate
begin

text \<open>
  The retention sweep (lib/elench/drafts-sweep.ts): settle silent claims, delete discarded drafts past their
  undo window, delete active drafts nobody wrote, each phase in bounded pages. What a page meets is an
  environment: the rows other transactions hold (skipped), the rows whose settle throws, a statement that
  throws, and the commits of others between two statements.
\<close>

definition discarded_retention_hours :: int where "discarded_retention_hours = 24"
definition draft_retention_days :: int where "draft_retention_days = 30"
definition sweep_page_size :: nat where "sweep_page_size = 500"
definition sweep_max_pages :: nat where "sweep_max_pages = 20"

record sweep_result =
  sp_settled :: nat
  sp_settle_failed :: nat
  sp_discarded :: nat
  sp_stale :: nat

text \<open>One page's surroundings: the clock, the rows held elsewhere, the rows whose settle throws, a thrown statement, other commits.\<close>

record sweep_env =
  pe_env :: server_env
  pe_held :: "string \<Rightarrow> bool"
  pe_bad :: "string \<Rightarrow> bool"
  pe_throws :: "string option"
  pe_others :: "server_db \<Rightarrow> server_db"

section \<open>Pages\<close>

text \<open>A page answers what it handled, or the name of what it threw. The pages are numbered by how many may still follow.\<close>

type_synonym 'c sweep_page = "sweep_env \<Rightarrow> 'c \<times> server_db \<Rightarrow> (string + nat) \<times> 'c \<times> server_db"

fun drain_pages ::
  "'c sweep_page \<Rightarrow> nat \<Rightarrow> (nat \<Rightarrow> sweep_env) \<Rightarrow> nat \<Rightarrow> nat \<Rightarrow> 'c \<times> server_db \<Rightarrow> (string + nat) \<times> 'c \<times> server_db" where
  "drain_pages page limit es 0 acc s = (Inr acc, s)"
| "drain_pages page limit es (Suc left) acc s =
     (case page (es left) s of
        (Inl err, s') \<Rightarrow> (Inl err, s')
      | (Inr n, s') \<Rightarrow> if n < limit then (Inr (acc + n), s') else drain_pages page limit es left (acc + n) s')"

definition discarded_expired :: "server_env \<Rightarrow> draft_row \<Rightarrow> bool" where
  "discarded_expired env r \<longleftrightarrow> dr_status r = RowDiscarded \<and>
     (case dr_discarded_at r of None \<Rightarrow> False | Some at \<Rightarrow> at \<le> se_now env - discarded_retention_hours * 3600000)"

definition active_expired :: "server_env \<Rightarrow> draft_row \<Rightarrow> bool" where
  "active_expired env r \<longleftrightarrow> dr_status r = RowActive \<and> dr_updated_at r \<le> se_now env - draft_retention_days * 86400000"

text \<open>The order of a phase: the column it reads; a null sorts as it may, no expired row has one.\<close>

definition discarded_order :: "draft_row \<Rightarrow> int" where
  "discarded_order r = (case dr_discarded_at r of None \<Rightarrow> 0 | Some at \<Rightarrow> at)"

text \<open>Lock first, oldest first, then delete the locked ids with the predicate repeated.\<close>

definition delete_page ::
  "(server_env \<Rightarrow> draft_row \<Rightarrow> bool) \<Rightarrow> (draft_row \<Rightarrow> int) \<Rightarrow> nat \<Rightarrow> 'c sweep_page" where
  "delete_page expired order limit e s =
     (case pe_throws e of
        Some err \<Rightarrow> (Inl err, s)
      | None \<Rightarrow>
          let db = pe_others e (snd s);
              locked = map dr_id (take limit (sort_key order (filter (\<lambda>r. expired (pe_env e) r \<and> \<not> pe_held e (dr_id r)) (sv_drafts db))));
              gone = (\<lambda>r. dr_id r \<in> set locked \<and> expired (pe_env e) r)
          in if locked = [] then (Inr 0, fst s, db)
             else (Inr (length (filter gone (sv_drafts db))), fst s, db\<lparr>sv_drafts := filter (\<lambda>r. \<not> gone r) (sv_drafts db)\<rparr>))"

section \<open>Settling\<close>

text \<open>One row in its own transaction: whether it changed, or that its settle threw and rolled back.\<close>

definition settle_one :: "sweep_env \<Rightarrow> string \<Rightarrow> server_db \<Rightarrow> bool option \<times> server_db" where
  "settle_one e i db =
     (if pe_bad e i then (None, db)
      else (case List.find (\<lambda>r. dr_id r = i \<and> dr_status r = RowSending \<and> \<not> pe_held e (dr_id r)) (sv_drafts db) of
              None \<Rightarrow> (Some False, db)
            | Some row \<Rightarrow>
                (case settle_if_silent (pe_env e) \<lparr>ac_user = dr_user row, ac_org = dr_org row\<rparr> row None db of
                   (after, db') \<Rightarrow> (Some (after \<noteq> row), db'))))"

definition settle_candidates :: "nat \<Rightarrow> server_db \<Rightarrow> string list" where
  "settle_candidates limit db =
     map dr_id (take limit (sort_key (\<lambda>r. case dr_claimed_at r of None \<Rightarrow> 0 | Some at \<Rightarrow> at)
       (filter (\<lambda>r. dr_status r = RowSending) (sv_drafts db))))"

text \<open>The counter of a run: rows settled, rows whose settle threw.\<close>

fun settle_listed_ids :: "sweep_env \<Rightarrow> string list \<Rightarrow> nat \<times> nat \<Rightarrow> server_db \<Rightarrow> (nat \<times> nat) \<times> server_db" where
  "settle_listed_ids e [] c db = (c, db)"
| "settle_listed_ids e (i # is) (settled, failed) db =
     (case settle_one e i (pe_others e db) of
        (None, db') \<Rightarrow> settle_listed_ids e is (settled, failed + 1) db'
      | (Some True, db') \<Rightarrow> settle_listed_ids e is (settled + 1, failed) db'
      | (Some False, db') \<Rightarrow> settle_listed_ids e is (settled, failed) db')"

definition settle_page :: "nat \<Rightarrow> (nat \<times> nat) sweep_page" where
  "settle_page limit e s =
     (case pe_throws e of
        Some err \<Rightarrow> (Inl err, s)
      | None \<Rightarrow>
          (case settle_listed_ids e (settle_candidates limit (snd s)) (0, 0) (snd s) of
             ((settled, failed), db) \<Rightarrow> (Inr (settled + failed), (fst (fst s) + settled, snd (fst s) + failed), db)))"

section \<open>The sweep\<close>

definition run_phase :: "string \<Rightarrow> (string + nat) \<Rightarrow> string list \<Rightarrow> nat \<times> string list" where
  "run_phase phase answer failures =
     (case answer of Inr n \<Rightarrow> (n, failures) | Inl err \<Rightarrow> (0, failures @ [phase @ '' ('' @ err @ '')'']))"

record sweep_envs =
  we_settle :: "nat \<Rightarrow> sweep_env"
  we_discarded :: "nat \<Rightarrow> sweep_env"
  we_stale :: "nat \<Rightarrow> sweep_env"

definition sweep_elench_drafts :: "nat \<Rightarrow> nat \<Rightarrow> sweep_envs \<Rightarrow> server_db \<Rightarrow> (string list + sweep_result) \<times> server_db" where
  "sweep_elench_drafts limit pages we db =
     (let (a1, c1, db1) = drain_pages (settle_page limit) limit (we_settle we) pages 0 ((0, 0), db);
          (n1, f1) = run_phase ''settle'' a1 [];
          (a2, u2, db2) = drain_pages (delete_page discarded_expired discarded_order limit) limit (we_discarded we) pages 0 ((), db1);
          (n2, f2) = run_phase ''discarded'' a2 f1;
          (a3, u3, db3) = drain_pages (delete_page active_expired dr_updated_at limit) limit (we_stale we) pages 0 ((), db2);
          (n3, f3) = run_phase ''stale'' a3 f2
      in (if f3 \<noteq> [] then Inl f3
          else Inr \<lparr>sp_settled = fst c1, sp_settle_failed = snd c1, sp_discarded = n2, sp_stale = n3\<rparr>, db3))"

end
