(* ===== verification/Serve_Runs.thy ===== *)
theory Serve_Runs
  imports Serve_Refines Serve_Sweep
begin

text \<open>
  The drafts' server over time: every call is a path of the moves, and a run is any sequence of calls (each
  with the commits of others it admits), thread deletes, writes of threads by the rest of the console and
  transactions of the sweep.
\<close>

section \<open>A call is a path\<close>

lemma gated_call:
  assumes "call_scope call = Some sc" "\<And>b. call \<noteq> CallBeat b"
    "\<And>a x db'. body a db = (x, db') \<Longrightarrow> server_path (cw_env w) a (presents call) mid db db'"
  shows "call_path w mid call db (snd (run_draft_gate (cw_gate w) sc refused body db))"
proof -
  have "call_actor w call a \<longleftrightarrow> authorized (cw_gate w) sc a" for a
    using assms(1,2) by (cases call) (auto simp: call_actor_def)
  then show ?thesis
    using gated_path [of body db "cw_env w" "presents call" mid "cw_gate w" sc refused] assms(3)
    by (auto simp: call_path_def)
qed

lemma call_path_refl [simp]: "call_path w mid call db db"
  by (simp add: call_path_def)

lemma perform_path:
  assumes "tables_ok db"
  shows "call_path w mid call db (perform w mid call db)"
proof (cases call)
  case (CallList i)
  show ?thesis
  proof (cases i)
    case None
    then show ?thesis using CallList by (simp add: list_drafts_def)
  next
    case (Some q)
    then show ?thesis using CallList
      by (auto simp: list_drafts_def intro!: gated_call list_path [OF assms] split: prod.splits sum.splits)
  qed
next
  case (CallSave i)
  then show ?thesis
    by (cases i) (auto simp: save_draft_def intro!: gated_call save_path [OF assms])
next
  case (CallDiscard i)
  then show ?thesis
    by (cases i) (auto simp: discard_draft_row_def intro!: gated_call discard_path [OF assms])
next
  case (CallRestore i)
  then show ?thesis
    by (cases i) (auto simp: restore_draft_def intro!: gated_call restore_path [OF assms])
next
  case (CallClaim i)
  then show ?thesis
    by (cases i) (auto simp: claim_draft_def intro!: gated_call claim_path [OF assms])
next
  case (CallConsume i)
  then show ?thesis
    by (cases i) (auto simp: consume_draft_def intro!: gated_call consume_path [OF assms])
next
  case (CallRelease i)
  then show ?thesis
    by (cases i) (auto simp: release_claim_def intro!: gated_call release_path [OF assms])
next
  case (CallStart i)
  then show ?thesis
    by (cases i) (auto simp: start_conversation_def intro!: gated_call start_path [OF assms])
next
  case (CallCount i)
  then show ?thesis
    by (cases i) (auto simp: count_drafts_def Let_def intro!: gated_call)
next
  case (CallBeat b)
  then show ?thesis
    using beat_path [OF assms, of "cw_env w" b mid] by (auto simp: call_path_def call_actor_def)
qed

section \<open>Runs\<close>

text \<open>Writers of threads outside this model: a turn stored under a thread, a reaped thread.\<close>

definition store_thread :: "thread_row \<Rightarrow> server_db \<Rightarrow> server_db" where
  "store_thread t db =
     (if list_ex (\<lambda>x. tr_id x = tr_id t) (sv_threads db)
      then db\<lparr>sv_threads := map (\<lambda>x. if tr_id x = tr_id t then t else x) (sv_threads db)\<rparr>
      else db\<lparr>sv_threads := sv_threads db @ [t]\<rparr>)"

definition reap_thread :: "string \<Rightarrow> server_db \<Rightarrow> server_db" where
  "reap_thread i db = db\<lparr>sv_threads := filter (\<lambda>t. tr_id t \<noteq> i) (sv_threads db)\<rparr>"

datatype server_step =
  StepCall call_world "server_step list" server_call
| StepDelete string string
| StepThread thread_row
| StepReap string
| StepSettle sweep_env string
| StepDiscarded nat sweep_env
| StepStale nat sweep_env

text \<open>One delete page as a transaction of its own: what others commit is other steps of the run.\<close>

definition purge_step :: "(server_env \<Rightarrow> draft_row \<Rightarrow> bool) \<Rightarrow> (draft_row \<Rightarrow> int) \<Rightarrow> nat \<Rightarrow> sweep_env \<Rightarrow> server_db \<Rightarrow> server_db" where
  "purge_step expired order limit e db = snd (snd (delete_page expired order limit (e\<lparr>pe_others := \<lambda>x. x\<rparr>) ((), db)))"

primrec serve :: "server_step \<Rightarrow> server_db \<Rightarrow> server_db" where
  "serve (StepCall w ms call) = perform w (fold (\<lambda>f. f) (map serve ms)) call"
| "serve (StepDelete user conversation) = (\<lambda>db. snd (delete_thread user conversation db))"
| "serve (StepThread t) = store_thread t"
| "serve (StepReap i) = reap_thread i"
| "serve (StepSettle e i) = (\<lambda>db. snd (settle_one e i db))"
| "serve (StepDiscarded limit e) = purge_step discarded_expired discarded_order limit e"
| "serve (StepStale limit e) = purge_step active_expired dr_updated_at limit e"

definition no_tables :: server_db where "no_tables = \<lparr>sv_drafts = [], sv_threads = []\<rparr>"

definition server_run :: "server_step list \<Rightarrow> server_db \<Rightarrow> server_db" where
  "server_run ss = fold serve ss"

lemma serve_call: "serve (StepCall w ms call) = perform w (server_run ms) call"
  by (simp add: server_run_def fold_map comp_def)

lemma call_step_path:
  assumes "tables_ok db" "serve (StepCall w ms call) db = db'"
  obtains (same) "db' = db"
  | (path) a where "call_actor w call a" "server_path (cw_env w) a (presents call) (server_run ms) db db'"
proof -
  have "call_path w (server_run ms) call db db'"
    using perform_path [OF assms(1), of w "server_run ms" call] assms(2) by (simp add: serve_call del: serve.simps)
  then show ?thesis using same path by (auto simp: call_path_def)
qed

section \<open>The constraints over a run\<close>

lemma filtered_ok: "tables_ok db \<Longrightarrow> tables_ok (db\<lparr>sv_drafts := filter P (sv_drafts db)\<rparr>)"
  by (auto simp: tables_ok_def distinct_map_filter list_all_iff)

lemma delete_thread_ok:
  assumes "tables_ok db"
  shows "tables_ok (snd (delete_thread user conversation db))"
proof -
  let ?gone = "\<lambda>t. tr_id t = conversation \<and> owner_sees user t \<and> \<not> tr_deleted t"
  let ?db = "db\<lparr>sv_drafts := filter (\<lambda>r. \<not> conversation_drafts user conversation r) (sv_drafts db)\<rparr>"
  have ok: "tables_ok ?db" by (rule filtered_ok [OF assms])
  have "tables_ok (?db\<lparr>sv_threads := filter (\<lambda>t. \<not> ?gone t) (sv_threads db) @ [tombstone t]\<rparr>)"
    if t: "List.find ?gone (sv_threads db) = Some t" for t
  proof -
    have g: "t \<in> set (sv_threads db)" "?gone t" using t by (auto simp: find_Some_iff in_set_conv_nth)
    have "inj_on tr_id (set (sv_threads db))" using assms by (simp add: tables_ok_def distinct_map)
    then have "x = t" if "x \<in> set (sv_threads db)" "tr_id x = conversation" for x
      using that g by (auto dest: inj_onD)
    then have "tr_id (tombstone t) \<notin> tr_id ` set (filter (\<lambda>t. \<not> ?gone t) (sv_threads db))"
      using g(2) by (auto simp: tombstone_def)
    then show ?thesis using ok by (auto simp: tables_ok_def distinct_map_filter)
  qed
  then show ?thesis using ok by (auto simp: delete_thread_def purge_drafts_of_def Let_def split: option.splits)
qed

lemma store_thread_ok: "tables_ok db \<Longrightarrow> tables_ok (store_thread t db)"
proof -
  assume ok: "tables_ok db"
  have "map tr_id (map (\<lambda>x. if tr_id x = tr_id t then t else x) (sv_threads db)) = map tr_id (sv_threads db)" by simp
  then show ?thesis using ok unfolding tables_ok_def store_thread_def by (auto simp: list_ex_iff simp del: map_map)
qed

lemma settle_one_cases:
  assumes "tables_ok db"
  obtains (same) "snd (settle_one e i db) = db"
  | (lease_settled) a where "lease_settled (pe_env e) a None db (snd (settle_one e i db))"
proof -
  have "snd (settle_one e i db) = db \<or> (\<exists>a. lease_settled (pe_env e) a None db (snd (settle_one e i db)))"
  proof (cases "List.find (\<lambda>r. dr_id r = i \<and> dr_status r = RowSending \<and> \<not> pe_held e (dr_id r)) (sv_drafts db)")
    case None
    then show ?thesis by (simp add: settle_one_def)
  next
    case (Some row)
    let ?a = "\<lparr>ac_user = dr_user row, ac_org = dr_org row\<rparr>"
    have ar: "actors_row ?a row db" using Some by (auto simp: actors_row_def find_Some_iff in_set_conv_nth)
    obtain r' db' where s: "settle_if_silent (pe_env e) ?a row None db = (r', db')" by fastforce
    show ?thesis using settle_path(1) [OF assms ar s] Some s by (auto simp: settle_one_def)
  qed
  then show ?thesis using same lease_settled by blast
qed

lemma settle_one_ok: "tables_ok db \<Longrightarrow> tables_ok (snd (settle_one e i db))"
  by (rule settle_one_cases [of db e i]) (auto intro: settled_ok)

lemma purge_step_drafts:
  obtains gone where "purge_step expired order limit e db = db\<lparr>sv_drafts := filter (\<lambda>r. \<not> gone r) (sv_drafts db)\<rparr>"
    "\<And>r. gone r \<Longrightarrow> expired (pe_env e) r"
proof (cases "purge_step expired order limit e db = db")
  case True
  then show ?thesis using that [of "\<lambda>_. False"] by simp
next
  case False
  then show ?thesis
    using that [of "\<lambda>r. dr_id r \<in> dr_id ` set (take limit (sort_key order
        (filter (\<lambda>r. expired (pe_env e) r \<and> \<not> pe_held e (dr_id r)) (sv_drafts db)))) \<and> expired (pe_env e) r"]
    by (auto simp: purge_step_def delete_page_def Let_def split: option.splits if_splits)
qed

lemma purge_step_ok: "tables_ok db \<Longrightarrow> tables_ok (purge_step expired order limit e db)"
  by (rule purge_step_drafts [of expired order limit e db]) (simp add: filtered_ok)

lemma fold_keeps: "(\<And>s x. s \<in> set ss \<Longrightarrow> Q x \<Longrightarrow> Q (f s x)) \<Longrightarrow> Q db \<Longrightarrow> Q (fold f ss db)"
  by (induction ss arbitrary: db) auto

lemma serve_ok: "tables_ok db \<Longrightarrow> tables_ok (serve s db)"
proof (induction s arbitrary: db)
  case (StepCall w ms call)
  have m: "tables_ok (server_run ms db)"
    unfolding server_run_def using StepCall by (intro fold_keeps [where Q = tables_ok]) auto
  show ?case
    by (rule call_step_path [OF StepCall.prems refl, of w ms call]) (use StepCall.prems m path_ok in \<open>auto simp del: serve.simps\<close>)
next
  case (StepReap i)
  then show ?case by (auto simp: reap_thread_def tables_ok_def distinct_map_filter)
qed (simp_all add: delete_thread_ok store_thread_ok settle_one_ok purge_step_ok)

lemma run_ok: "tables_ok db \<Longrightarrow> tables_ok (server_run ss db)"
  unfolding server_run_def by (rule fold_keeps [where Q = tables_ok]) (auto intro: serve_ok)

end
