(* ===== verification/Serve_Samples.thy ===== *)
theory Serve_Samples
  imports Serve_Runs
begin

text \<open>A small concrete server for the witnesses: one user in one org, an open gate, a row being sent and a row at rest.\<close>

definition sample_env :: "int \<Rightarrow> server_env" where
  "sample_env t = \<lparr>se_now = t, se_at = ''at'', se_iso = (\<lambda>_. ''iso''), se_row_id = ''new''\<rparr>"

definition sample_actor :: actor where "sample_actor = \<lparr>ac_user = ''u'', ac_org = ''o''\<rparr>"

definition sample_gate :: gate_world where
  "sample_gate = \<lparr>gw_actor = Inr sample_actor, gw_rate = Inr True, gw_project_in_org = (\<lambda>_ _. Inr True),
     gw_authorize = (\<lambda>_ _. None), gw_owner = Inr ''u'', gw_member = (\<lambda>_ _. Inr True), gw_slug = (\<lambda>_. Inr (Some ''s'')),
     gw_fate = TxCommits\<rparr>"

definition sample_call_world :: "int \<Rightarrow> call_world" where
  "sample_call_world t = \<lparr>cw_env = sample_env t, cw_gate = sample_gate, cw_uuid = (\<lambda>_. True)\<rparr>"

definition sample_draft_key :: draft_key where
  "sample_draft_key = \<lparr>ds_org = ''o'', ds_project = None, dk_conversation = ''c''\<rparr>"

definition sample_words :: draft_content where
  "sample_words = \<lparr>dc_text = [0x20, 0x68, 0x69], dc_mentions = [], dc_artifacts = [], dc_cell = None\<rparr>"

text \<open>The row at rest at revision 1, and the same row claimed at time 0 for a first message.\<close>

definition resting_row :: draft_row where
  "resting_row = (new_draft_row (sample_env 0) sample_actor sample_draft_key)\<lparr>dr_id := ''row'', dr_content := sample_words\<rparr>"

definition sending_row :: draft_row where
  "sending_row = resting_row\<lparr>dr_status := RowSending, dr_claim_token := Some ''tok'', dr_claim_turn := Some ''turn'',
     dr_claim_kind := Some SendFirst, dr_claimed_at := Some 0, dr_revision := 2\<rparr>"

definition one_draft :: "draft_row \<Rightarrow> server_db" where
  "one_draft r = \<lparr>sv_drafts = [r], sv_threads = []\<rparr>"

definition sample_save :: save_request where
  "sample_save = \<lparr>sq_key = sample_draft_key, sq_base = 1, sq_content = sample_words\<lparr>dc_text := [0x68]\<rparr>, sq_thread_seen = False,
     sq_tab = ''tab'', sq_failed_send = None, sq_dismiss = False\<rparr>"

definition sample_start :: start_request where
  "sample_start = \<lparr>aq_key = sample_draft_key, aq_turn = ''turn'', aq_title = [], aq_origin = FromComposer ''tok''\<rparr>"

definition sample_claim :: row_claim where
  "sample_claim = \<lparr>rc_token = ''tok'', rc_turn = ''turn'', rc_kind = SendFirst\<rparr>"

lemmas sample_defs = sample_env_def sample_actor_def sample_gate_def sample_call_world_def sample_draft_key_def sample_words_def
  resting_row_def sending_row_def one_draft_def sample_save_def sample_start_def sample_claim_def

lemma sample_tables [simp]: "tables_ok (one_draft resting_row)" "tables_ok (one_draft sending_row)"
  by (simp_all add: tables_ok_def row_ok_def sample_defs)

lemma sample_rows [simp]:
  "sending_row \<in> set (sv_drafts (one_draft sending_row))" "resting_row \<in> set (sv_drafts (one_draft resting_row))"
  "dr_status sending_row = RowSending" "dr_claim_token sending_row = Some ''tok''" "dr_id resting_row = ''row''"
  "dr_claimed_at sending_row = Some 0" "claim_of sending_row = Some sample_claim"
  by (simp_all add: one_draft_def sending_row_def resting_row_def claim_of_def sample_claim_def)

lemma sample_live [simp]: "t \<le> claim_lease_ms \<Longrightarrow> \<not> claim_is_silent (sample_env t) sending_row"
  by (simp add: claim_is_silent_def sample_env_def)

text \<open>A save of the row at rest, as evaluated.\<close>

definition saved_once :: draft_row where
  "saved_once = resting_row\<lparr>dr_content := sample_words\<lparr>dc_text := [0x68]\<rparr>, dr_last_writer := Some ''tab'', dr_revision := 2, dr_updated_at := 5\<rparr>"

lemma sample_saved:
  "save_draft (sample_env 5) sample_gate mid (Some sample_save) (one_draft resting_row) = (Inr (SaveSaved 2), one_draft saved_once)"
  by (simp add: save_draft_def run_draft_gate_def save_body_def lock_and_settle_def lock_draft_def own_key_def authorize_scope_def
      key_scope_def in_transaction_def settle_if_silent_def claim_of_def same_anchor_def update_drafts_def cas_predicate_def own_row_def
      saved_row_def saved_fields_def next_failed_send_def new_draft_row_def saved_once_def sample_defs Let_def)

end
