(* ===== verification/Serve_Laws.thy ===== *)
theory Serve_Laws
  imports Serve_Samples
begin

text \<open>
  What the drafts' server promises, over any sequence of its transactions: every call is a path of the
  abstract machine, the tables' constraints hold, a live claim is its holder's alone, a first message's
  words leave their row only into the thread that stores them, a call stays with its actor's rows, and
  revisions only grow.
\<close>

section \<open>What one move changes\<close>

definition own_step :: "server_env \<Rightarrow> string option \<Rightarrow> draft_row \<Rightarrow> draft_row \<Rightarrow> bool" where
  "own_step env p r r' \<longleftrightarrow> row_move env p r r' \<or>
     (\<exists>c. claim_of r = Some c \<and> p = Some (rc_token c) \<and> rc_kind c = SendFirst \<and> r' = sent_first env c r) \<or>
     (dr_status r = RowActive \<and> r' = prompted env r)"

lemma move_drafts:
  assumes "server_move env a p x y"
  obtains (one) r r' where "actors_row a r x" "sv_drafts y = sv_drafts (put_row r' x)" "own_step env p r r'"
  | (new) r where "sv_drafts y = sv_drafts x @ [r]" "dr_user r = ac_user a" "dr_org r = ac_org a" "dr_id r = se_row_id env"
  using assms
proof cases
  case (one_row r r')
  then show ?thesis using one by (auto simp: own_step_def)
next
  case (new_row r)
  then show ?thesis using new inserted(1) by (metis (no_types, lifting) select_convs(1) server_db.select_convs(1) server_db.surjective server_db.update_convs(1))
next
  case (first_created r c q n db1)
  then have "sv_drafts y = sv_drafts (put_row (sent_first env c r) x)"
    using first_turn_inserted(1) by (simp add: put_row_def)
  then show ?thesis using one first_created by (auto simp: own_step_def)
next
  case (first_stored r c q)
  then show ?thesis using one by (auto simp: own_step_def)
next
  case (prompt_row_kept r q turn n db1)
  then have "sv_drafts y = sv_drafts (put_row (prompted env r) x)"
    using first_turn_inserted(1) by (simp add: put_row_def)
  then show ?thesis using one prompt_row_kept by (auto simp: own_step_def)
next
  case (prompt_row_new q turn n db1)
  then have "sv_drafts y = sv_drafts x @ [prompt_row env a (aq_key q)]"
    using inserted(1) [OF prompt_row_new(2)] first_turn_inserted(1) [OF prompt_row_new(1)] by simp
  then show ?thesis by (rule new) (simp_all add: prompt_row_def)
qed

lemma move_threads:
  assumes "server_move env a p x y"
  obtains "sv_threads y = sv_threads x" | t where "sv_threads y = sv_threads x @ [t]" "tr_user t = ac_user a"
  using assms
proof cases
  case (new_row r)
  then show ?thesis using that(1) inserted(1) by fastforce
next
  case (first_created r c q n db1)
  then show ?thesis using that(2) first_turn_inserted(3) by fastforce
next
  case (prompt_row_kept r q turn n db1)
  then show ?thesis using that(2) first_turn_inserted(3) by fastforce
next
  case (prompt_row_new q turn n db1)
  then show ?thesis using that(2) first_turn_inserted(3) [OF prompt_row_new(1)] inserted(1) [OF prompt_row_new(2)] by fastforce
qed (use that(1) in simp_all)

lemma own_step_name: "own_step env p r r' \<Longrightarrow> row_name r' = row_name r"
  by (auto simp: own_step_def row_move_name)

lemma other_row_kept:
  assumes "tables_ok x" "r \<in> set (sv_drafts x)" "r0 \<in> set (sv_drafts x)" "r0 \<noteq> r" "row_name r' = row_name r0"
  shows "r \<in> set (sv_drafts (put_row r' x))"
proof -
  have "dr_id r \<noteq> dr_id r'" using row_by_id [OF assms(1,3,2)] assms(4,5) by (auto simp: row_name_def)
  then show ?thesis using assms(2) by (simp add: set_put_row)
qed

lemma live_not_moved: "own_step env p r r' \<Longrightarrow> claim_of r = Some c \<Longrightarrow> p = Some (rc_token c)"
  by (auto simp: own_step_def claim_of_Some elim!: row_moveE)

lemma lease_keeps_live:
  assumes "lease_move env a p x y" "tables_ok x" "r \<in> set (sv_drafts x)" "\<not> claim_is_silent env r"
  shows "r \<in> set (sv_drafts y)"
proof (rule lease_move_row [OF assms(1)])
  fix r0 c how assume r0: "actors_row a r0 x" "claim_is_silent env r0" "y = put_row (claim_ended env c (dr_revision r0) how r0) x"
  then have "r0 \<noteq> r" using assms(4) by auto
  then show ?thesis using other_row_kept [OF assms(2,3) actors_row_in [OF r0(1)]] r0(3) by simp
qed

lemma settled_keeps_live:
  assumes "lease_settled env a p x y" "tables_ok x" "r \<in> set (sv_drafts x)" "\<not> claim_is_silent env r"
  shows "r \<in> set (sv_drafts y)"
  using assms
  by (induction rule: settled_induct) (auto intro: lease_keeps_live settled_ok)

lemma move_keeps_live:
  assumes "server_move env a p x y" "tables_ok x" "r \<in> set (sv_drafts x)" "claim_of r = Some c" "p \<noteq> Some (rc_token c)"
  shows "r \<in> set (sv_drafts y)"
proof (rule move_drafts [OF assms(1)])
  fix r0 r' assume r0: "actors_row a r0 x" "sv_drafts y = sv_drafts (put_row r' x)" "own_step env p r0 r'"
  then have "r0 \<noteq> r" using live_not_moved assms(4,5) by blast
  then show ?thesis using other_row_kept [OF assms(2,3) actors_row_in [OF r0(1)] _ own_step_name [OF r0(3)]] r0(2) by simp
qed (use assms(3) in simp)

lemma path_keeps_live:
  assumes "server_path env a p mid db db'" "tables_ok db" "tables_ok (mid db)"
    "r \<in> set (sv_drafts db)" "r \<in> set (sv_drafts (mid db))" "claim_of r = Some c" "p \<noteq> Some (rc_token c)" "\<not> claim_is_silent env r"
  shows "r \<in> set (sv_drafts db')"
  using assms(1)
proof (cases rule: path_cases)
  case settle
  then show ?thesis using settled_keeps_live assms by blast
next
  case (move x)
  then show ?thesis using settled_keeps_live settled_ok move_keeps_live assms by metis
next
  case mid
  then show ?thesis using assms by simp
next
  case mid_move
  then show ?thesis using move_keeps_live assms by blast
qed

section \<open>Runs that leave a claim alone\<close>

text \<open>
  A step that spares a claim: a call that does not present its token and, like a settle of the sweep, runs
  before its lease is over on the database's clock; and no delete of its conversation by its user.
\<close>

primrec spares :: "server_step \<Rightarrow> draft_row \<Rightarrow> bool" where
  "spares (StepCall w ms call) = (\<lambda>r. presents call \<noteq> dr_claim_token r \<and> \<not> claim_is_silent (cw_env w) r \<and>
     list_all (\<lambda>f. f r) (map spares ms))"
| "spares (StepDelete user conversation) = (\<lambda>r. \<not> conversation_drafts user conversation r)"
| "spares (StepThread t) = (\<lambda>r. True)"
| "spares (StepReap i) = (\<lambda>r. True)"
| "spares (StepSettle e i) = (\<lambda>r. \<not> claim_is_silent (pe_env e) r)"
| "spares (StepDiscarded limit e) = (\<lambda>r. True)"
| "spares (StepStale limit e) = (\<lambda>r. True)"

lemma purge_keeps:
  assumes "\<not> expired (pe_env e) r" "r \<in> set (sv_drafts db)"
  shows "r \<in> set (sv_drafts (purge_step expired order limit e db))"
  by (rule purge_step_drafts [of expired order limit e db]) (use assms in auto)

lemma delete_keeps:
  "\<not> conversation_drafts user conversation r \<Longrightarrow> r \<in> set (sv_drafts db) \<Longrightarrow> r \<in> set (sv_drafts (snd (delete_thread user conversation db)))"
  by (auto simp: delete_thread_def purge_drafts_of_def Let_def split: option.splits)

lemma threads_only [simp]:
  "sv_drafts (store_thread t db) = sv_drafts db" "sv_drafts (reap_thread i db) = sv_drafts db"
  by (simp_all add: store_thread_def reap_thread_def)

lemma serve_keeps_live:
  assumes "tables_ok db" "r \<in> set (sv_drafts db)" "claim_of r = Some c" "spares s r"
  shows "r \<in> set (sv_drafts (serve s db))"
  using assms
proof (induction s arbitrary: db)
  case (StepCall w ms call)
  have "r \<in> set (sv_drafts (server_run ms db)) \<and> tables_ok (server_run ms db)"
    unfolding server_run_def using StepCall
    by (intro fold_keeps [where Q = "\<lambda>x. r \<in> set (sv_drafts x) \<and> tables_ok x"]) (auto simp: serve_ok list_all_iff)
  then have m: "r \<in> set (sv_drafts (server_run ms db))" "tables_ok (server_run ms db)" by auto
  have sp: "presents call \<noteq> Some (rc_token c)" "\<not> claim_is_silent (cw_env w) r"
    using StepCall.prems(3,4) by (auto simp: claim_of_Some)
  show ?case
    by (rule call_step_path [OF StepCall.prems(1) refl, of w ms call])
       (use path_keeps_live [where mid = "server_run ms" and db = db, OF _ StepCall.prems(1) m(2) StepCall.prems(2) m(1) StepCall.prems(3) sp] StepCall.prems(2)
        in \<open>auto simp del: serve.simps\<close>)
next
  case (StepSettle e i)
  then show ?case
    by (auto intro: settled_keeps_live settle_one_cases [of db e i])
next
  case (StepDiscarded limit e)
  then show ?case by (auto simp: discarded_expired_def claim_of_Some intro: purge_keeps)
next
  case (StepStale limit e)
  then show ?case by (auto simp: active_expired_def claim_of_Some intro: purge_keeps)
qed (auto intro: delete_keeps)

text \<open>
  C34. A live claim is its holder's alone. Whatever calls, deletes of other conversations, writes of
  threads and sweeps the server runs, in any order and interleaving: as long as none presents the claim's
  token, none comes after its lease on the database's clock and its user does not delete the conversation,
  the claimed row stays exactly as it is, its words, its token and its revision.
\<close>

theorem live_claim_survives:
  assumes "tables_ok db" "r \<in> set (sv_drafts db)" "dr_status r = RowSending" "\<forall>s\<in>set ss. spares s r"
  shows "r \<in> set (sv_drafts (server_run ss db))"
proof -
  obtain c where c: "claim_of r = Some c"
    using rows_ok [OF assms(1,2)] assms(3) by (auto simp: row_ok_def claim_of_def)
  have "r \<in> set (sv_drafts (server_run ss db)) \<and> tables_ok (server_run ss db)"
    unfolding server_run_def using assms(1,2,4)
    by (intro fold_keeps [where Q = "\<lambda>x. r \<in> set (sv_drafts x) \<and> tables_ok x"]) (auto simp: serve_ok intro: serve_keeps_live [OF _ _ c])
  then show ?thesis by simp
qed

section \<open>A first message's words\<close>

text \<open>
  The turn of a row's claim is the first of the owner's live thread; a thread the transaction made holds
  exactly the row's words, trimmed, with their pills and their cell.
\<close>

definition words_stored :: "draft_row \<Rightarrow> row_claim \<Rightarrow> thread_row set \<Rightarrow> server_db \<Rightarrow> bool" where
  "words_stored r c old db' \<longleftrightarrow>
     (\<exists>t\<in>set (sv_threads db'). tr_id t = dr_conversation r \<and> tr_user t = dr_user r \<and> \<not> tr_deleted t \<and>
        first_turn_id (Some t) = Some (rc_turn c) \<and>
        (t \<in> old \<or> tr_messages t = [\<lparr>um_id = rc_turn c, um_user = True, um_parts = [TextPart (ft_text (row_turn r))],
                     um_mentions = ft_mentions (row_turn r), um_cell = ft_cell (row_turn r)\<rparr>]))"

definition words_kept_or_stored :: "draft_row \<Rightarrow> row_claim \<Rightarrow> thread_row set \<Rightarrow> server_db \<Rightarrow> bool" where
  "words_kept_or_stored r c old db' \<longleftrightarrow>
     (\<exists>r'\<in>set (sv_drafts db'). dr_id r' = dr_id r \<and> (dr_content r' = dr_content r \<or> words_stored r c old db'))"

lemma words_stay: "r \<in> set (sv_drafts db') \<Longrightarrow> words_kept_or_stored r c old db'"
  by (auto simp: words_kept_or_stored_def)

lemma words_put:
  assumes "r \<in> set (sv_drafts x)" "sv_drafts db' = sv_drafts (put_row r' x)" "dr_id r' = dr_id r"
    "dr_content r' = dr_content r \<or> words_stored r c old db'"
  shows "words_kept_or_stored r c old db'"
  using assms put_row_in [OF assms(1,3)] by (auto simp: words_kept_or_stored_def)

lemma classify_stored:
  assumes "classify_start_conflict a q db = VerdictStored"
  shows "\<exists>t\<in>set (sv_threads db). tr_id t = dk_conversation (aq_key q) \<and> tr_user t = ac_user a \<and> \<not> tr_deleted t \<and>
    first_turn_id (Some t) = Some (aq_turn q)"
proof (cases "own_thread a (dk_conversation (aq_key q)) db")
  case None
  then show ?thesis using assms by (simp add: classify_start_conflict_def)
next
  case (Some t)
  then have "t \<in> set (sv_threads db)" "tr_id t = dk_conversation (aq_key q)" "tr_user t = ac_user a"
    by (auto simp: own_thread_def find_Some_iff in_set_conv_nth)
  moreover have "\<not> tr_deleted t" "first_turn_id (Some t) = Some (aq_turn q)"
    using assms Some by (auto simp: classify_start_conflict_def split: if_splits)
  ultimately show ?thesis by blast
qed

lemma move_first_words:
  assumes "server_move env a p x y" "tables_ok x" "r \<in> set (sv_drafts x)" "claim_of r = Some c" "rc_kind c = SendFirst"
    "set (sv_threads x) \<subseteq> old"
  shows "words_kept_or_stored r c old y"
proof -
  have other: ?thesis if "actors_row a r0 x" "sv_drafts y = sv_drafts (put_row r' x)" "row_name r' = row_name r0" "r0 \<noteq> r" for r0 r'
    using other_row_kept [OF assms(2,3) actors_row_in [OF that(1)] that(4,3)] that(2) words_stay by simp
  have sending: "dr_status r = RowSending" using assms(4) by (simp add: claim_of_Some)
  show ?thesis using assms(1)
  proof cases
    case (one_row r0 r')
    show ?thesis
    proof (cases "r0 = r")
      case True
      have "dr_content r' = dr_content r"
        using one_row(3) True assms(4,5) sending by (auto elim!: row_moveE split: if_splits)
      then show ?thesis using words_put [OF assms(3)] one_row row_move_name True by (auto simp: row_name_def)
    next
      case False
      then show ?thesis using other [OF one_row(2) _ row_move_name [OF one_row(3)]] one_row(1) by simp
    qed
  next
    case (new_row r0)
    then show ?thesis using inserted(1) [OF new_row(9)] assms(3) words_stay by simp
  next
    case (first_created r0 c0 q n db1)
    note i = first_turn_inserted [OF first_created(8)]
    have d: "sv_drafts y = sv_drafts (put_row (sent_first env c0 r0) x)" using first_created(1) i(1) by (simp add: put_row_def)
    show ?thesis
    proof (cases "r0 = r")
      case True
      then have "c0 = c" using first_created(3) assms(4) by simp
      obtain t where t: "sv_threads y = sv_threads x @ [t]" "tr_id t = dk_conversation (aq_key q)" "tr_user t = ac_user a"
          "\<not> tr_deleted t" "tr_messages t = [first_message q (row_turn r0)]"
        using i(3) first_created(1) by auto
      have "words_stored r c old y"
        unfolding words_stored_def using t first_created(2,6,7) True \<open>c0 = c\<close>
        by (intro bexI [of _ t]) (auto simp: first_turn_id_def first_message_def start_names_def actors_row_def)
      then show ?thesis using words_put [OF assms(3)] d True by (simp add: sent_first_def)
    next
      case False
      then show ?thesis using other [OF first_created(2) d] by simp
    qed
  next
    case (first_stored r0 c0 q)
    show ?thesis
    proof (cases "r0 = r")
      case True
      then have "c0 = c" using first_stored(3) assms(4) by simp
      then have "words_stored r c old y"
        unfolding words_stored_def using classify_stored [OF first_stored(8)] first_stored True assms(6)
        by (auto simp: start_names_def actors_row_def)
      then show ?thesis using words_put [OF assms(3)] first_stored(1) True by (simp add: sent_first_def)
    next
      case False
      then show ?thesis using other [OF first_stored(2)] first_stored(1) by simp
    qed
  next
    case (prompt_row_kept r0 q turn n db1)
    then have "sv_drafts y = sv_drafts (put_row (prompted env r0) x)" "r0 \<noteq> r"
      using first_turn_inserted(1) sending by (auto simp: put_row_def)
    then show ?thesis using other [OF prompt_row_kept(2)] by simp
  next
    case (prompt_row_new q turn n db1)
    then show ?thesis using inserted(1) [OF prompt_row_new(2)] first_turn_inserted(1) [OF prompt_row_new(1)] assms(3) words_stay by simp
  qed
qed

lemma lease_threads: "lease_move env a p x y \<Longrightarrow> sv_threads y = sv_threads x"
  by (auto elim!: lease_moveE)

lemma settled_threads: "lease_settled env a p x y \<Longrightarrow> sv_threads y = sv_threads x"
  by (induction rule: settled_induct) (auto dest: lease_threads)

lemma path_first_words:
  assumes "server_path env a p mid db db'" "tables_ok db" "tables_ok (mid db)" "r \<in> set (sv_drafts db)" "r \<in> set (sv_drafts (mid db))"
    "claim_of r = Some c" "rc_kind c = SendFirst" "\<not> claim_is_silent env r"
  shows "words_kept_or_stored r c (set (sv_threads db) \<union> set (sv_threads (mid db))) db'"
  using assms(1)
proof (cases rule: path_cases)
  case settle
  then show ?thesis using settled_keeps_live assms words_stay by blast
next
  case (move x)
  have "r \<in> set (sv_drafts x)" "tables_ok x" "sv_threads x = sv_threads db"
    using move(1) settled_keeps_live settled_ok settled_threads assms by blast+
  then show ?thesis using move_first_words [OF move(2)] assms(6,7) by auto
next
  case mid
  then show ?thesis using assms(5) words_stay by simp
next
  case mid_move
  then show ?thesis using move_first_words assms by auto
qed

text \<open>
  C35. The words of a live first-message claim leave their row only into the conversation. Whatever one
  call does, with whatever others commit in between, the row still has the words, or its turn is the first
  of its owner's live thread: one that was there, or the one this very transaction made, holding exactly
  the row's trimmed words with their pills and cell.
\<close>

theorem first_words_into_thread:
  assumes "tables_ok db" "tables_ok (mid db)" "r \<in> set (sv_drafts db)" "r \<in> set (sv_drafts (mid db))"
    "claim_of r = Some c" "rc_kind c = SendFirst" "\<not> claim_is_silent (cw_env w) r"
  shows "words_kept_or_stored r c (set (sv_threads db) \<union> set (sv_threads (mid db))) (perform w mid call db)"
proof -
  have "perform w mid call db = db \<or> (\<exists>a. server_path (cw_env w) a (presents call) mid db (perform w mid call db))"
    using perform_path [OF assms(1), of w mid call] by (auto simp: call_path_def)
  then show ?thesis using path_first_words [where db = db and mid = mid, OF _ assms] words_stay [OF assms(3)] by auto
qed

section \<open>A relation every path keeps\<close>

text \<open>What holds of every settle and every move, and composes, holds from the tables a call read, or from those a commit in between left.\<close>

locale kept_by_moves =
  fixes env :: server_env and a :: actor and p :: "string option" and R :: "server_db \<Rightarrow> server_db \<Rightarrow> bool"
  assumes stays: "R x x"
    and composes: "R x y \<Longrightarrow> R y z \<Longrightarrow> R x z"
    and by_lease: "tables_ok x \<Longrightarrow> lease_move env a p x y \<Longrightarrow> R x y"
    and by_move: "tables_ok x \<Longrightarrow> server_move env a p x y \<Longrightarrow> R x y"
begin

lemma by_settle:
  assumes "lease_settled env a p x y" "tables_ok x"
  shows "R x y"
  using assms(1)
proof (induction rule: settled_induct)
  case (step y z)
  then show ?case using composes by_lease settled_ok [OF _ assms(2)] by blast
qed (rule stays)

lemma by_path:
  assumes "server_path env a p mid db db'" "tables_ok db" "tables_ok (mid db)"
  shows "R db db' \<or> R (mid db) db'"
  using assms(1)
proof (cases rule: path_cases)
  case (move x)
  then show ?thesis using by_settle [OF _ assms(2)] settled_ok [OF _ assms(2)] by_move composes by blast
qed (use by_settle by_move assms stays in blast)+

lemma by_path_over:
  assumes "server_path env a p mid db db'" "tables_ok db" "tables_ok (mid db)" "R db (mid db)"
  shows "R db db'"
  using by_path [OF assms(1-3)] assms(4) composes by blast

end

section \<open>Whose rows a call touches\<close>

lemma lease_drafts:
  assumes "lease_move env a p x y"
  obtains r r' where "actors_row a r x" "y = put_row r' x" "row_name r' = row_name r"
  using assms by (auto elim!: lease_moveE)

text \<open>Rows of another user or another org stay, and what is new is the actor's.\<close>

definition others_row :: "actor \<Rightarrow> draft_row \<Rightarrow> bool" where
  "others_row a r \<longleftrightarrow> (dr_user r, dr_org r) \<noteq> (ac_user a, ac_org a)"

definition stays_home :: "actor \<Rightarrow> server_db \<Rightarrow> server_db \<Rightarrow> bool" where
  "stays_home a x y \<longleftrightarrow> filter (others_row a) (sv_drafts y) = filter (others_row a) (sv_drafts x) \<and>
     (\<exists>ts. sv_threads y = sv_threads x @ ts \<and> (\<forall>t\<in>set ts. tr_user t = ac_user a))"

lemma stays_home_refl [simp]: "stays_home a x x"
  by (simp add: stays_home_def)

lemma stays_home_trans: "stays_home a x y \<Longrightarrow> stays_home a y z \<Longrightarrow> stays_home a x z"
  by (auto simp: stays_home_def)

lemma filter_replaced: "(\<And>x. x \<in> set xs \<Longrightarrow> f x = x \<or> \<not> P x \<and> \<not> P (f x)) \<Longrightarrow> filter P (map f xs) = filter P xs"
proof (induction xs)
  case (Cons x xs)
  have "f x = x \<or> \<not> P x \<and> \<not> P (f x)" "filter P (map f xs) = filter P xs" using Cons by simp_all
  then show ?case by auto
qed simp

lemma put_home:
  assumes "tables_ok x" "actors_row a r x" "row_name r' = row_name r"
  shows "filter (others_row a) (sv_drafts (put_row r' x)) = filter (others_row a) (sv_drafts x)"
proof -
  have n: "dr_id r' = dr_id r" "\<not> others_row a r" "\<not> others_row a r'"
    using assms(2,3) by (auto simp: actors_row_def row_name_def others_row_def)
  show ?thesis unfolding put_row_def
    using row_by_id [OF assms(1) actors_row_in [OF assms(2)]] n
    by (simp, intro filter_replaced) auto
qed

lemma move_home:
  assumes "server_move env a p x y" "tables_ok x"
  shows "stays_home a x y"
proof -
  have "\<exists>ts. sv_threads y = sv_threads x @ ts \<and> (\<forall>t\<in>set ts. tr_user t = ac_user a)"
    by (rule move_threads [OF assms(1)]) auto
  moreover have "filter (others_row a) (sv_drafts y) = filter (others_row a) (sv_drafts x)"
  proof (rule move_drafts [OF assms(1)])
    fix r r' assume "actors_row a r x" "sv_drafts y = sv_drafts (put_row r' x)" "own_step env p r r'"
    then show ?thesis using put_home [OF assms(2) _ own_step_name] by simp
  qed (simp add: others_row_def)
  ultimately show ?thesis by (simp add: stays_home_def)
qed

lemma lease_home:
  assumes "tables_ok x" "lease_move env a p x y"
  shows "stays_home a x y"
proof -
  have "filter (others_row a) (sv_drafts y) = filter (others_row a) (sv_drafts x)"
    by (rule lease_drafts [OF assms(2)]) (simp add: put_home [OF assms(1)])
  then show ?thesis using lease_threads [OF assms(2)] by (simp add: stays_home_def)
qed

interpretation home: kept_by_moves env a p "stays_home a" for env a p
  by unfold_locales (auto intro: stays_home_trans lease_home move_home)

text \<open>
  C36. A call stays at home. Behind the gate (a session, the key's own org, the rate limit, the quiet
  authorization of the anchor in that org) or the heartbeat's guard, a call changes nothing, or it acts for the
  actor those resolved: every row of another user or of another org stays, in place, and every thread it adds
  is the actor's. What it starts from is the tables it read, or those a concurrent commit left.
\<close>

theorem calls_stay_home:
  assumes "tables_ok db" "tables_ok (mid db)"
  shows "perform w mid call db = db \<or>
    (\<exists>a. call_actor w call a \<and> (stays_home a db (perform w mid call db) \<or> stays_home a (mid db) (perform w mid call db)))"
proof -
  have "stays_home a db db' \<or> stays_home a (mid db) db'" if "server_path env a p mid db db'" for env a p db'
    using home.by_path [OF that assms] .
  then show ?thesis using perform_path [OF assms(1), of w mid call] unfolding call_path_def by blast
qed

section \<open>Revisions\<close>

text \<open>A row later on: the same row but for the heartbeat's mark, or a higher revision.\<close>

definition aged :: "draft_row \<Rightarrow> draft_row \<Rightarrow> bool" where
  "aged r r' \<longleftrightarrow> row_name r' = row_name r \<and> (dr_revision r < dr_revision r' \<or> r' = r\<lparr>dr_claimed_at := dr_claimed_at r'\<rparr>)"

lemma aged_refl [simp]: "aged r r"
  by (simp add: aged_def)

lemma aged_trans:
  assumes "aged r r'" "aged r' r''"
  shows "aged r r''"
proof -
  have rev: "dr_revision x \<le> dr_revision y" if "aged x y" for x y :: draft_row
    using that by (auto simp: aged_def) (metis draft_row.select_convs(6) draft_row.surjective draft_row.update_convs(13) order_refl)
  show ?thesis
  proof (cases "dr_revision r < dr_revision r''")
    case True
    then show ?thesis using assms by (simp add: aged_def)
  next
    case False
    then have e: "r' = r\<lparr>dr_claimed_at := dr_claimed_at r'\<rparr>" "r'' = r'\<lparr>dr_claimed_at := dr_claimed_at r''\<rparr>"
      using assms rev [OF assms(1)] rev [OF assms(2)] by (auto simp: aged_def)
    have "r'\<lparr>dr_claimed_at := dr_claimed_at r''\<rparr> = r\<lparr>dr_claimed_at := dr_claimed_at r', dr_claimed_at := dr_claimed_at r''\<rparr>"
      by (rule arg_cong [OF e(1)])
    then have "r'' = r\<lparr>dr_claimed_at := dr_claimed_at r''\<rparr>" using e(2) by simp
    then show ?thesis using assms by (simp add: aged_def)
  qed
qed

lemma ended_aged: "aged r (claim_ended env c (dr_revision r) how r)"
  by (simp add: aged_def)

lemma row_move_revision:
  assumes "row_move env p r r'"
  shows "dr_revision r' = dr_revision r + 1 \<or> r' = r\<lparr>dr_claimed_at := dr_claimed_at r'\<rparr>"
  using assms by cases (simp_all add: claimed_fields_def)

lemma own_step_aged:
  assumes "own_step env p r r'"
  shows "aged r r'"
proof -
  have "dr_revision r' = dr_revision r + 1 \<or> r' = r\<lparr>dr_claimed_at := dr_claimed_at r'\<rparr>"
    using assms row_move_revision [of env p r r'] unfolding own_step_def
    by (elim disjE exE conjE) (simp_all add: sent_first_def prompted_def)
  then show ?thesis using own_step_name [OF assms] unfolding aged_def by (elim disjE) simp_all
qed

definition grown :: "string set \<Rightarrow> server_db \<Rightarrow> server_db \<Rightarrow> bool" where
  "grown M x y \<longleftrightarrow> (\<forall>r'\<in>set (sv_drafts y). dr_id r' \<in> M \<or> (\<exists>r\<in>set (sv_drafts x). aged r r'))"

lemma grownI:
  assumes "\<And>r'. r' \<in> set (sv_drafts y) \<Longrightarrow> r' \<in> set (sv_drafts x) \<or> dr_id r' \<in> M \<or> (\<exists>r\<in>set (sv_drafts x). aged r r')"
  shows "grown M x y"
  using assms aged_refl unfolding grown_def by meson

lemma grown_refl [simp]: "grown M x x"
  by (rule grownI) simp

lemma grown_mono: "grown M x y \<Longrightarrow> M \<subseteq> N \<Longrightarrow> grown N x y"
  by (auto simp: grown_def)

lemma aged_id: "aged r r' \<Longrightarrow> dr_id r' = dr_id r"
  by (auto simp: aged_def row_name_def)

lemma grown_trans:
  assumes "grown M x y" "grown M y z"
  shows "grown M x z"
  unfolding grown_def
proof
  fix r'' assume r: "r'' \<in> set (sv_drafts z)"
  show "dr_id r'' \<in> M \<or> (\<exists>r\<in>set (sv_drafts x). aged r r'')"
    using assms r aged_trans aged_id unfolding grown_def by metis
qed

lemma grown_put: "r \<in> set (sv_drafts x) \<Longrightarrow> aged r r' \<Longrightarrow> sv_drafts y = sv_drafts (put_row r' x) \<Longrightarrow> grown M x y"
  by (rule grownI) (auto simp: set_put_row)

lemma grown_subset: "set (sv_drafts y) \<subseteq> set (sv_drafts x) \<Longrightarrow> grown M x y"
  by (rule grownI) auto

lemma lease_grown: "lease_move env a p x y \<Longrightarrow> grown M x y"
  by (rule lease_move_row [of env a p x y]) (auto intro: grown_put actors_row_in ended_aged)

lemma move_grown: "server_move env a p x y \<Longrightarrow> se_row_id env \<in> M \<Longrightarrow> grown M x y"
proof (rule move_drafts [of env a p x y])
  fix r r' assume "actors_row a r x" "sv_drafts y = sv_drafts (put_row r' x)" "own_step env p r r'"
  then show ?thesis using grown_put actors_row_in own_step_aged by blast
next
  fix r assume "sv_drafts y = sv_drafts x @ [r]" "dr_id r = se_row_id env" "se_row_id env \<in> M"
  then show ?thesis by (intro grownI) auto
qed

interpretation grow: kept_by_moves env a p "grown (insert (se_row_id env) M)" for env a p M
  by unfold_locales (auto intro: grown_trans lease_grown move_grown)

lemma settled_grown: "lease_settled env a p x y \<Longrightarrow> tables_ok x \<Longrightarrow> grown M x y"
  by (induction rule: settled_induct) (auto intro: grown_trans lease_grown)

text \<open>The ids a run mints for new rows.\<close>

primrec mints :: "server_step \<Rightarrow> string set" where
  "mints (StepCall w ms call) = insert (se_row_id (cw_env w)) (\<Union> (set (map mints ms)))"
| "mints (StepDelete user conversation) = {}"
| "mints (StepThread t) = {}"
| "mints (StepReap i) = {}"
| "mints (StepSettle e i) = {}"
| "mints (StepDiscarded limit e) = {}"
| "mints (StepStale limit e) = {}"

lemma run_grown_if:
  assumes "\<And>s x. s \<in> set ss \<Longrightarrow> tables_ok x \<Longrightarrow> grown (mints s) x (serve s x)" "tables_ok db"
  shows "grown (\<Union> (mints ` set ss)) db (server_run ss db)"
proof -
  have "grown (\<Union> (mints ` set ss)) db (server_run ss db) \<and> tables_ok (server_run ss db)"
    unfolding server_run_def
  proof (rule fold_keeps [where Q = "\<lambda>x. grown (\<Union> (mints ` set ss)) db x \<and> tables_ok x"])
    fix s x assume s: "s \<in> set ss" "grown (\<Union> (mints ` set ss)) db x \<and> tables_ok x"
    have "grown (\<Union> (mints ` set ss)) x (serve s x)" by (rule grown_mono [OF assms(1)]) (use s in auto)
    then show "grown (\<Union> (mints ` set ss)) db (serve s x) \<and> tables_ok (serve s x)"
      using s grown_trans serve_ok by blast
  qed (use assms(2) in simp)
  then show ?thesis by simp
qed

lemma serve_grown: "tables_ok db \<Longrightarrow> grown (mints s) db (serve s db)"
proof (induction s arbitrary: db)
  case (StepCall w ms call)
  have m: "grown (\<Union> (mints ` set ms)) db (server_run ms db)" using StepCall by (intro run_grown_if) auto
  show ?case
  proof (rule call_step_path [OF StepCall.prems refl, of w ms call])
    fix a assume "server_path (cw_env w) a (presents call) (server_run ms) db (serve (StepCall w ms call) db)"
    then have "grown (insert (se_row_id (cw_env w)) (\<Union> (mints ` set ms))) db (serve (StepCall w ms call) db)"
      by (rule grow.by_path_over [where mid = "server_run ms" and db = db, OF _ StepCall.prems run_ok [OF StepCall.prems] grown_mono [OF m]]) auto
    then show ?thesis by simp
  qed simp
next
  case (StepDelete user conversation)
  show ?case by (rule grown_subset) (auto simp: delete_thread_def purge_drafts_of_def Let_def split: option.splits)
next
  case (StepSettle e i)
  then show ?case by (auto intro: settled_grown settle_one_cases [of db e i])
next
  case (StepDiscarded limit e)
  show ?case by (rule purge_step_drafts [of discarded_expired discarded_order limit e db]) (auto intro: grown_subset)
next
  case (StepStale limit e)
  show ?case by (rule purge_step_drafts [of active_expired dr_updated_at limit e db]) (auto intro: grown_subset)
qed (auto intro: grown_subset)

text \<open>
  C37. Revisions are safe to compare and set on. Over any run, a row that still stands under its id is the row
  it was, with the same key and anchor, at the same or a higher revision; and while its revision is the
  same, nothing of it has changed but the heartbeat's mark: what a tab read at a revision is what it overwrites.
\<close>

theorem revisions_only_grow:
  assumes "tables_ok db" "r \<in> set (sv_drafts db)" "r' \<in> set (sv_drafts (server_run ss db))" "dr_id r' = dr_id r"
    "\<forall>s\<in>set ss. dr_id r \<notin> mints s"
  shows "row_name r' = row_name r \<and> dr_revision r \<le> dr_revision r' \<and>
    (dr_revision r = dr_revision r' \<longrightarrow> r' = r\<lparr>dr_claimed_at := dr_claimed_at r'\<rparr>)"
proof -
  have "grown (\<Union> (mints ` set ss)) db (server_run ss db)" by (rule run_grown_if) (use serve_grown assms(1) in auto)
  then obtain r0 where "r0 \<in> set (sv_drafts db)" "aged r0 r'" using assms(3-5) by (auto simp: grown_def)
  moreover have "r0 = r" using row_by_id [OF assms(1,2) calculation(1)] aged_id [OF calculation(2)] assms(4) by simp
  ultimately have a: "aged r r'" by simp
  then have "dr_revision r \<le> dr_revision r'"
    by (auto simp: aged_def) (metis draft_row.select_convs(6) draft_row.surjective draft_row.update_convs(13) order_refl)
  then show ?thesis using a by (auto simp: aged_def)
qed

section \<open>The machine and the constraints\<close>

text \<open>
  C33. Every call is a path of the drafts' machine: it changes nothing, or it acts for the actor its gate (or
  the heartbeat's guard) resolved, settles silent claims whose token it does not present, and makes at most
  one move of its own, each a move of the row machine, a new row at revision 1 under the active limit, or a
  thread made together with its row's move.
\<close>

theorem call_follows_machine:
  assumes "tables_ok db"
  shows "call_path w mid call db (perform w mid call db)"
  by (rule perform_path [OF assms])

text \<open>
  C39. The constraints of both tables hold after every run from the empty tables: ids and keys are unique, a
  revision is at least 1, a row has a discard time exactly when it is discarded and a whole claim exactly when
  it is sending, and no part of one otherwise.
\<close>

theorem tables_stay_sound: "tables_ok (server_run ss no_tables)"
  by (rule run_ok) (simp add: tables_ok_def no_tables_def)

section \<open>What the answers say\<close>

text \<open>The save's base was current: there was no row, or the row stood at it, active, or as a silent claim one revision below.\<close>

definition base_current :: "server_env \<Rightarrow> actor \<Rightarrow> string \<Rightarrow> int \<Rightarrow> server_db \<Rightarrow> bool" where
  "base_current env a conversation base db \<longleftrightarrow>
     base = 0 \<and> (\<forall>r\<in>set (sv_drafts db). \<not> own_key a conversation r) \<or>
     (\<exists>r\<in>set (sv_drafts db). own_key a conversation r \<and>
        (dr_status r = RowActive \<and> dr_revision r = base \<or>
         dr_status r = RowSending \<and> claim_is_silent env r \<and> dr_revision r + 1 = base))"

definition row_written :: "save_request \<Rightarrow> actor \<Rightarrow> int \<Rightarrow> server_db \<Rightarrow> bool" where
  "row_written q a n db' \<longleftrightarrow>
     (\<exists>r\<in>set (sv_drafts db'). own_key a (dk_conversation (sq_key q)) r \<and> dr_project r = ds_project (sq_key q) \<and>
        dr_status r = RowActive \<and> dr_revision r = n \<and> dr_content r = sq_content q \<and> dr_last_writer r = Some (sq_tab q))"

lemma lock_settled_base:
  assumes "tables_ok db" "lock_and_settle env a conversation db = (Some row, db1)" "dr_status row = RowActive"
  shows "base_current env a conversation (dr_revision row) db"
proof (cases "lock_draft a conversation db")
  case None
  then show ?thesis using assms(2) by (simp add: lock_and_settle_def)
next
  case (Some locked)
  note l = lock_draft_Some [OF Some]
  have s: "settle_if_silent env a locked None db = (row, db1)" using assms(2) Some by (auto simp: lock_and_settle_def split: prod.splits)
  have k: "locked \<in> set (sv_drafts db)" "own_key a conversation locked" using l by (auto simp: actors_row_def own_key_def)
  show ?thesis
  proof (rule settle_cases [OF assms(1) l(1) s])
    assume "row = locked"
    then show ?thesis using k assms(3) by (auto simp: base_current_def)
  next
    fix c assume "claim_of locked = Some c" "claim_is_silent env locked"
      "row = claim_ended env c (dr_revision locked) (settle_end a locked c db) locked"
    then show ?thesis using k by (auto simp: base_current_def claim_of_Some intro!: bexI [of _ locked])
  qed
qed

lemma saved_body_written:
  assumes "tables_ok db" "save_body env mid q a db = (Inr (SaveSaved n), db')" "0 \<le> sq_base q"
  shows "n = sq_base q + 1 \<and> base_current env a (dk_conversation (sq_key q)) (sq_base q) db \<and> row_written q a n db'"
proof -
  obtain found db1 where l: "lock_and_settle env a (dk_conversation (sq_key q)) db = (found, db1)" by fastforce
  have refusal: "save_refusal x \<noteq> SaveSaved m" for x m by (cases x) simp_all
  show ?thesis
  proof (rule lock_and_settle_cases [OF assms(1) l])
    assume n: "found = None" "db1 = db" "\<And>r. r \<in> set (sv_drafts db) \<Longrightarrow> \<not> own_key a (dk_conversation (sq_key q)) r"
    obtain f s t where i: "n = 1" "sq_base q = 0"
        "insert_draft (saved_fields env q f s (new_draft_row env a (sq_key q))\<lparr>dr_title := t\<rparr>) (mid db) = Inserted db'"
      using assms(2,3) l n(1,2) refusal by (auto simp: save_body_def Let_def split: if_splits insert_answer.splits option.splits)
    have "row_written q a 1 db'" using inserted(1) [OF i(3)] by (auto simp: row_written_def saved_fields_def own_key_def)
    then show ?thesis using i n(3) by (simp add: base_current_def)
  next
    fix row assume r: "found = Some row" "tables_ok db1" "actors_row a row db1" "dr_conversation row = dk_conversation (sq_key q)"
    have i: "dr_id (saved_row env q row saw t row) = dr_id row" for saw t by (simp add: saved_row_def saved_fields_def)
    have e: "dr_status row = RowActive" "dr_revision row = sq_base q" "dr_project row = ds_project (sq_key q)"
      "\<exists>saw t. n = dr_revision (saved_row env q row saw t row) \<and> db' = put_row (saved_row env q row saw t row) db1"
      using assms(2) l r(1) refusal by (auto simp: save_body_def Let_def cas_update [OF r(2,3)] i same_anchor_def split: if_splits)
    then obtain saw t where u: "n = dr_revision (saved_row env q row saw t row)" "db' = put_row (saved_row env q row saw t row) db1" by blast
    have "saved_row env q row saw t row \<in> set (sv_drafts db')" using put_row_in [OF actors_row_in [OF r(3)] i] u(2) by simp
    then have "row_written q a n db'" unfolding row_written_def using u(1) r(3,4) e(1,3)
      by (intro bexI [of _ "saved_row env q row saw t row"]) (auto simp: saved_row_def saved_fields_def own_key_def actors_row_def)
    moreover have "n = sq_base q + 1" using u(1) e(2) by (simp add: saved_row_def)
    ultimately show ?thesis using lock_settled_base [OF assms(1), of env a "dk_conversation (sq_key q)" row db1] l r(1) e(1,2) by auto
  qed
qed

text \<open>
  C38. An answer of saved is true. When a save answers that it is saved at a revision, its gate authorized the
  actor in the key's org, its base was current (a row active at it, a silent claim it first settled, or no row at
  base 0), the revision is the base plus one, and the key's row now holds exactly the request's content.
\<close>

theorem saved_is_written:
  assumes "tables_ok db" "0 \<le> sq_base q" "save_draft env w mid (Some q) db = (Inr (SaveSaved n), db')"
  shows "\<exists>a. authorized w (key_scope (sq_key q)) a \<and> ac_org a = ds_org (sq_key q) \<and> n = sq_base q + 1 \<and>
    base_current env a (dk_conversation (sq_key q)) (sq_base q) db \<and> row_written q a n db'"
proof -
  have g: "run_draft_gate w (key_scope (sq_key q)) SaveRefused (save_body env mid q) db = (Inr (SaveSaved n), db')"
    using assms(3) by (simp add: save_draft_def)
  show ?thesis
  proof (rule gate_cases [OF g])
    fix a x assume "authorized w (key_scope (sq_key q)) a" "save_body env mid q a db = (Inr x, db')" "Inr (SaveSaved n) = Inr x"
    then show ?thesis using saved_body_written [OF assms(1) _ assms(2)] by (auto simp: authorized_def key_scope_def)
  qed auto
qed

section \<open>Witnesses\<close>

theorem live_claim_survives_witness:
  "sending_row \<in> set (sv_drafts (server_run
     [StepCall (sample_call_world 7) [StepDelete ''v'' ''c''] (CallSave (Some sample_save)),
      StepSettle \<lparr>pe_env = sample_env 9, pe_held = (\<lambda>_. False), pe_bad = (\<lambda>_. False), pe_throws = None, pe_others = (\<lambda>x. x)\<rparr> ''row'']
     (one_draft sending_row)))"
  by (rule live_claim_survives)
     (simp_all add: sample_call_world_def conversation_drafts_def claim_lease_ms_def,
      simp add: sending_row_def resting_row_def sample_actor_def)

theorem first_words_into_thread_witness:
  "words_kept_or_stored sending_row sample_claim {} (perform (sample_call_world 7) (\<lambda>x. x) (CallStart (Some sample_start)) (one_draft sending_row))"
  using first_words_into_thread [of "one_draft sending_row" "\<lambda>x. x" sending_row sample_claim "sample_call_world 7" "CallStart (Some sample_start)"]
  by (simp add: sample_call_world_def claim_lease_ms_def, simp add: sample_claim_def one_draft_def)

theorem calls_stay_home_witness:
  "perform (sample_call_world 5) (\<lambda>x. x) (CallSave (Some sample_save)) (one_draft resting_row) = one_draft resting_row \<or>
   (\<exists>a. call_actor (sample_call_world 5) (CallSave (Some sample_save)) a \<and>
      stays_home a (one_draft resting_row) (perform (sample_call_world 5) (\<lambda>x. x) (CallSave (Some sample_save)) (one_draft resting_row)))"
  using calls_stay_home [of "one_draft resting_row" "\<lambda>x. x" "sample_call_world 5" "CallSave (Some sample_save)"] by simp

theorem revisions_only_grow_witness:
  "row_name saved_once = row_name resting_row \<and> dr_revision resting_row \<le> dr_revision saved_once"
proof -
  let ?run = "[StepCall (sample_call_world 5) [] (CallSave (Some sample_save))]"
  have run: "saved_once \<in> set (sv_drafts (server_run ?run (one_draft resting_row)))"
    by (simp add: server_run_def serve_call sample_call_world_def sample_saved del: serve.simps) (simp add: one_draft_def)
  have "dr_id saved_once = dr_id resting_row" "\<forall>s\<in>set ?run. dr_id resting_row \<notin> mints s"
    by (simp_all add: saved_once_def sample_call_world_def sample_env_def)
  then show ?thesis using revisions_only_grow [OF sample_tables(1) sample_rows(2) run] by blast
qed

theorem call_follows_machine_witness:
  "call_path (sample_call_world 5) (\<lambda>x. x) (CallSave (Some sample_save)) (one_draft resting_row) (one_draft saved_once)"
  using call_follows_machine [of "one_draft resting_row" "sample_call_world 5" "\<lambda>x. x" "CallSave (Some sample_save)"] sample_saved
  by (simp add: sample_call_world_def)

theorem saved_is_written_witness:
  "\<exists>a. authorized sample_gate (key_scope (sq_key sample_save)) a \<and> ac_org a = ds_org (sq_key sample_save) \<and> 2 = sq_base sample_save + 1 \<and>
    base_current (sample_env 5) a (dk_conversation (sq_key sample_save)) (sq_base sample_save) (one_draft resting_row) \<and>
    row_written sample_save a 2 (one_draft saved_once)"
  by (rule saved_is_written [OF sample_tables(1) _ sample_saved [where mid = "\<lambda>x. x"]]) (simp add: sample_save_def)

end
