(* ===== verification/Serve_Sweep_Laws.thy ===== *)
theory Serve_Sweep_Laws
  imports Serve_Samples
begin

text \<open>
  The retention sweep among the commits of others: whatever runs between its statements, it is a path of
  single steps, each of which hands one silent claim's words back or deletes expired rows nobody holds; no
  step of it deletes a draft being sent, and a run deletes at most its bound of rows a phase.
\<close>

section \<open>Pages and phases\<close>

lemma drain_keeps:
  assumes "\<And>left c x. Q x \<Longrightarrow> Q (snd (snd (page (es left) (c, x))))" "Q (snd s)"
  shows "Q (snd (snd (drain_pages page limit es n acc s)))"
  using assms(2)
proof (induction n arbitrary: acc s)
  case (Suc n)
  obtain answer s' where p: "page (es n) s = (answer, s')" by (cases "page (es n) s")
  have "Q (snd s')" using assms(1) [of "snd s" n "fst s"] Suc.prems p by simp
  then show ?case using p Suc.IH by (auto split: sum.splits)
qed simp

lemma drain_bounded:
  assumes "\<And>left c x. Q x \<Longrightarrow> Q (snd (snd (page (es left) (c, x))))"
    "\<And>left c x n s'. Q x \<Longrightarrow> page (es left) (c, x) = (Inr n, s') \<Longrightarrow> n \<le> limit"
    "Q (snd s)" "drain_pages page limit es k acc s = (Inr n, s')"
  shows "n \<le> acc + limit * k"
  using assms(3,4)
proof (induction k arbitrary: acc s)
  case (Suc k)
  obtain answer s1 where p: "page (es k) s = (answer, s1)" by (cases "page (es k) s")
  show ?case
  proof (cases answer)
    case (Inr m)
    have "m \<le> limit" using assms(2) [of "snd s" k "fst s"] Suc.prems(1) p Inr by simp
    moreover have "Q (snd s1)" using assms(1) [of "snd s" k "fst s"] Suc.prems(1) p by simp
    then have "n = acc + m \<or> n \<le> (acc + m) + limit * k" using Suc p Inr by (auto split: if_splits)
    ultimately show ?thesis by auto
  qed (use Suc.prems p in simp)
qed simp

text \<open>A page deletes at most its limit, though the delete is written over every row of the table.\<close>

lemma page_bounded:
  assumes "delete_page expired order limit e s = (Inr n, s')" "distinct (map dr_id (sv_drafts (pe_others e (snd s))))"
  shows "n \<le> limit"
proof (cases "pe_throws e")
  case None
  let ?db = "pe_others e (snd s)"
  let ?locked = "map dr_id (take limit (sort_key order (filter (\<lambda>r. expired (pe_env e) r \<and> \<not> pe_held e (dr_id r)) (sv_drafts ?db))))"
  let ?gone = "\<lambda>r. dr_id r \<in> set ?locked \<and> expired (pe_env e) r"
  have n: "n \<le> length (filter ?gone (sv_drafts ?db))" using assms(1) None by (auto simp: delete_page_def Let_def split: if_splits)
  have d: "distinct (map dr_id (filter ?gone (sv_drafts ?db)))" using assms(2) by (simp add: distinct_map_filter)
  have "length (filter ?gone (sv_drafts ?db)) = card (set (map dr_id (filter ?gone (sv_drafts ?db))))"
    using distinct_card [OF d] by simp
  also have "\<dots> \<le> card (set ?locked)" by (rule card_mono) auto
  also have "\<dots> \<le> length ?locked" by (rule card_length)
  also have "\<dots> \<le> limit" by simp
  finally show ?thesis using n by simp
qed (use assms(1) in \<open>simp add: delete_page_def\<close>)

section \<open>Settling in the sweep\<close>

lemma settle_one_exact:
  assumes "tables_ok db"
  obtains (same) "snd (settle_one e i db) = db"
  | (settles) row c a where "actors_row a row db" "claim_of row = Some c" "claim_is_silent (pe_env e) row" "\<not> pe_held e (dr_id row)"
      "snd (settle_one e i db) = put_row (claim_ended (pe_env e) c (dr_revision row) (settle_end a row c db) row) db"
proof -
  have "snd (settle_one e i db) = db \<or> (\<exists>row c a. actors_row a row db \<and> claim_of row = Some c \<and> claim_is_silent (pe_env e) row \<and>
      \<not> pe_held e (dr_id row) \<and> snd (settle_one e i db) = put_row (claim_ended (pe_env e) c (dr_revision row) (settle_end a row c db) row) db)"
  proof (cases "List.find (\<lambda>r. dr_id r = i \<and> dr_status r = RowSending \<and> \<not> pe_held e (dr_id r)) (sv_drafts db)")
    case None
    then show ?thesis by (simp add: settle_one_def)
  next
    case (Some row)
    let ?a = "\<lparr>ac_user = dr_user row, ac_org = dr_org row\<rparr>"
    have ar: "actors_row ?a row db" "\<not> pe_held e (dr_id row)" using Some by (auto simp: actors_row_def find_Some_iff in_set_conv_nth)
    obtain r' db' where s: "settle_if_silent (pe_env e) ?a row None db = (r', db')" by fastforce
    show ?thesis by (rule settle_cases [OF assms ar(1) s]) (use Some s ar in \<open>auto simp: settle_one_def\<close>)
  qed
  then show ?thesis using same settles by blast
qed

text \<open>A row being sent, as a settle of the sweep may leave it.\<close>

definition handed_back :: "sweep_env set \<Rightarrow> server_db \<Rightarrow> draft_row \<Rightarrow> draft_row \<Rightarrow> bool" where
  "handed_back es db r r' \<longleftrightarrow> dr_id r' = dr_id r \<and>
     (r' = r \<or> (\<exists>e\<in>es. \<exists>c how. claim_of r = Some c \<and> claim_is_silent (pe_env e) r \<and>
        r' = claim_ended (pe_env e) c (dr_revision r) how r \<and>
        (how = EndConsume \<longrightarrow> rc_kind c = SendLater \<and>
           claim_stored \<lparr>ac_user = dr_user r, ac_org = dr_org r\<rparr> r db = StoredSame)))"

lemma handed_back_cases:
  assumes "handed_back es db r r'"
  obtains (same) "r' = r" | (claim_ended) e c how where "e \<in> es" "r' = claim_ended (pe_env e) c (dr_revision r) how r"
  using assms unfolding handed_back_def by (elim conjE disjE bexE exE) (rule same, assumption, rule claim_ended, assumption+)

lemma handed_back_sending:
  assumes "handed_back es db r r'" "dr_status r' = RowSending"
  shows "r' = r"
proof (rule handed_back_cases [OF assms(1)])
  fix e c how assume "r' = claim_ended (pe_env e) c (dr_revision r) how r"
  then have "dr_status r' = RowActive" by (simp only: claim_ended_fields)
  then show ?thesis using assms(2) by simp
qed

lemma handed_back_status:
  assumes "handed_back es db r r'" "dr_status r = RowSending"
  shows "dr_status r' \<noteq> RowDiscarded" "dr_status r' = RowActive \<Longrightarrow> \<exists>e\<in>es. dr_updated_at r' = se_now (pe_env e)"
proof -
  have "dr_status r' \<noteq> RowDiscarded \<and> (dr_status r' = RowActive \<longrightarrow> (\<exists>e\<in>es. dr_updated_at r' = se_now (pe_env e)))"
  proof (rule handed_back_cases [OF assms(1)])
    fix e c how assume e: "e \<in> es" and r': "r' = claim_ended (pe_env e) c (dr_revision r) how r"
    have "dr_status r' = RowActive" "dr_updated_at r' = se_now (pe_env e)" unfolding r' by (simp_all only: claim_ended_fields)
    then show ?thesis using e by auto
  qed (use assms(2) in simp)
  then show "dr_status r' \<noteq> RowDiscarded" "dr_status r' = RowActive \<Longrightarrow> \<exists>e\<in>es. dr_updated_at r' = se_now (pe_env e)" by auto
qed

section \<open>The sweep's steps\<close>

text \<open>
  One step of a sweep: what others commit between two of its statements; a settle that hands one unheld
  row's silent claim back; a delete of unheld rows discarded 24 hours ago, or of unheld active rows last
  written 30 days ago, on the clock of the page that deletes them.
\<close>

definition sweep_pages :: "sweep_envs \<Rightarrow> sweep_env set" where
  "sweep_pages we = range (we_settle we) \<union> range (we_discarded we) \<union> range (we_stale we)"

definition rows_gone :: "(draft_row \<Rightarrow> bool) \<Rightarrow> server_db \<Rightarrow> server_db" where
  "rows_gone gone x = x\<lparr>sv_drafts := filter (\<lambda>r. \<not> gone r) (sv_drafts x)\<rparr>"

inductive sweep_step :: "sweep_envs \<Rightarrow> server_db \<Rightarrow> server_db \<Rightarrow> bool" for we where
  others_commit: "e \<in> sweep_pages we \<Longrightarrow> sweep_step we x (pe_others e x)"
| claim_settled: "e \<in> range (we_settle we) \<Longrightarrow> r \<in> set (sv_drafts x) \<Longrightarrow> dr_status r = RowSending \<Longrightarrow> \<not> pe_held e (dr_id r) \<Longrightarrow>
    handed_back {e} x r r' \<Longrightarrow> sweep_step we x (put_row r' x)"
| discarded_gone: "e \<in> range (we_discarded we) \<Longrightarrow>
    (\<And>r. gone r \<Longrightarrow> \<not> pe_held e (dr_id r) \<and> dr_status r = RowDiscarded \<and>
      (\<exists>at. dr_discarded_at r = Some at \<and> at + 24 * 3600000 \<le> se_now (pe_env e))) \<Longrightarrow> sweep_step we x (rows_gone gone x)"
| stale_gone: "e \<in> range (we_stale we) \<Longrightarrow>
    (\<And>r. gone r \<Longrightarrow> \<not> pe_held e (dr_id r) \<and> dr_status r = RowActive \<and>
      dr_updated_at r + 30 * 86400000 \<le> se_now (pe_env e)) \<Longrightarrow> sweep_step we x (rows_gone gone x)"

text \<open>What others commit between two statements of a sweep: any run of the server, whatever it finds.\<close>

definition among_runs :: "sweep_envs \<Rightarrow> bool" where
  "among_runs we \<longleftrightarrow> (\<forall>e\<in>sweep_pages we. \<forall>x. \<exists>ss. pe_others e x = server_run ss x)"

lemma others_ok: "among_runs we \<Longrightarrow> e \<in> sweep_pages we \<Longrightarrow> tables_ok x \<Longrightarrow> tables_ok (pe_others e x)"
  unfolding among_runs_def using run_ok by metis

lemma page_of [simp]:
  "we_settle we i \<in> sweep_pages we" "we_discarded we i \<in> sweep_pages we" "we_stale we i \<in> sweep_pages we"
  by (simp_all add: sweep_pages_def)

definition swept :: "sweep_envs \<Rightarrow> server_db \<Rightarrow> server_db \<Rightarrow> bool" where
  "swept we db x \<longleftrightarrow> tables_ok x \<and> (sweep_step we)\<^sup>*\<^sup>* db x"

lemma swept_step: "swept we db x \<Longrightarrow> sweep_step we x y \<Longrightarrow> tables_ok y \<Longrightarrow> swept we db y"
  by (auto simp: swept_def)

lemma swept_others: "among_runs we \<Longrightarrow> e \<in> sweep_pages we \<Longrightarrow> swept we db x \<Longrightarrow> swept we db (pe_others e x)"
  by (rule swept_step [OF _ others_commit]) (auto simp: swept_def intro: others_ok)

lemma swept_settle_one:
  assumes "swept we db x" "e \<in> range (we_settle we)"
  shows "swept we db (snd (settle_one e i x))"
proof -
  have ok: "tables_ok x" using assms(1) by (simp add: swept_def)
  show ?thesis
  proof (rule settle_one_exact [OF ok, of e i])
    fix row c a assume s: "actors_row a row x" "claim_of row = Some c" "claim_is_silent (pe_env e) row" "\<not> pe_held e (dr_id row)"
      "snd (settle_one e i x) = put_row (claim_ended (pe_env e) c (dr_revision row) (settle_end a row c x) row) x"
    have "a = \<lparr>ac_user = dr_user row, ac_org = dr_org row\<rparr>" using s(1) by (cases a) (simp add: actors_row_def)
    then have "handed_back {e} x row (claim_ended (pe_env e) c (dr_revision row) (settle_end a row c x) row)"
      unfolding handed_back_def using settle_end_consumes [OF _ s(2), of a x] s(2,3) by auto
    moreover have "dr_status row = RowSending" using s(2) claim_of_Some by blast
    ultimately have "sweep_step we x (snd (settle_one e i x))"
      unfolding s(5) using claim_settled [OF assms(2) actors_row_in [OF s(1)]] s(4) by blast
    then show ?thesis using swept_step [OF assms(1)] settle_one_ok [OF ok] by blast
  qed (use assms(1) in simp)
qed

lemma swept_settle_ids:
  assumes "among_runs we" "e \<in> range (we_settle we)" "swept we db x"
  shows "swept we db (snd (settle_listed_ids e ids c x))"
  using assms(3)
proof (induction ids arbitrary: c x)
  case (Cons i ids)
  obtain settled failed where c: "c = (settled, failed)" by fastforce
  obtain b x' where s: "settle_one e i (pe_others e x) = (b, x')" by fastforce
  have "e \<in> sweep_pages we" using assms(2) by (auto simp: sweep_pages_def)
  then have "swept we db x'" using swept_settle_one [OF swept_others [OF assms(1) _ Cons.prems] assms(2), of e i] s by simp
  then show ?case using Cons.IH s c by (auto split: option.split bool.split)
qed simp

lemma swept_settle_page:
  "among_runs we \<Longrightarrow> e \<in> range (we_settle we) \<Longrightarrow> swept we db (snd s) \<Longrightarrow> swept we db (snd (snd (settle_page limit e s)))"
  using swept_settle_ids [of we e db "snd s" "settle_candidates limit (snd s)" "(0, 0)"]
  by (auto simp: settle_page_def case_prod_unfold split: option.splits)

text \<open>A page of deletes: others' commits, then unheld expired rows.\<close>

lemma delete_page_gone:
  obtains (thrown) "snd (snd (delete_page expired order limit e s)) = snd s"
  | (gone) gone where "snd (snd (delete_page expired order limit e s)) = rows_gone gone (pe_others e (snd s))"
      "\<And>r. gone r \<Longrightarrow> \<not> pe_held e (dr_id r) \<and> expired (pe_env e) r"
proof (cases "pe_throws e")
  case None
  let ?db = "pe_others e (snd s)"
  let ?locked = "map dr_id (take limit (sort_key order (filter (\<lambda>r. expired (pe_env e) r \<and> \<not> pe_held e (dr_id r)) (sv_drafts ?db))))"
  let ?gone = "\<lambda>r. dr_id r \<in> set ?locked \<and> expired (pe_env e) r"
  have h: "\<not> pe_held e (dr_id r)" if "dr_id r \<in> set ?locked" for r
    using that by (auto dest!: in_set_takeD)
  have "snd (snd (delete_page expired order limit e s)) = rows_gone ?gone ?db"
    using None by (auto simp: delete_page_def Let_def rows_gone_def)
  then show ?thesis using gone [of ?gone] h by blast
qed (use thrown in \<open>simp add: delete_page_def\<close>)

lemma gone_ok: "tables_ok x \<Longrightarrow> tables_ok (rows_gone gone x)"
  by (simp add: rows_gone_def filtered_ok)

lemma swept_delete_page:
  assumes "among_runs we" "e \<in> sweep_pages we" "swept we db (snd s)"
    and "\<And>gone x. (\<And>r. gone r \<Longrightarrow> \<not> pe_held e (dr_id r) \<and> expired (pe_env e) r) \<Longrightarrow> sweep_step we x (rows_gone gone x)"
  shows "swept we db (snd (snd (delete_page expired order limit e s)))"
proof (rule delete_page_gone [of expired order limit e s])
  fix gone assume g: "snd (snd (delete_page expired order limit e s)) = rows_gone gone (pe_others e (snd s))"
    "\<And>r. gone r \<Longrightarrow> \<not> pe_held e (dr_id r) \<and> expired (pe_env e) r"
  have o: "swept we db (pe_others e (snd s))" by (rule swept_others [OF assms(1,2,3)])
  have "swept we db (rows_gone gone (pe_others e (snd s)))"
    by (rule swept_step [OF o assms(4) [OF g(2)]]) (use o in \<open>auto simp: swept_def intro: gone_ok\<close>)
  then show ?thesis unfolding g(1) .
qed (use assms(3) in simp)

lemma discarded_steps:
  assumes "\<And>r. gone r \<Longrightarrow> \<not> pe_held (we_discarded we i) (dr_id r) \<and> discarded_expired (pe_env (we_discarded we i)) r"
  shows "sweep_step we x (rows_gone gone x)"
  by (rule discarded_gone [of "we_discarded we i"])
    (use assms in \<open>force simp: discarded_expired_def discarded_retention_hours_def split: option.splits\<close>)+

lemma stale_steps:
  assumes "\<And>r. gone r \<Longrightarrow> \<not> pe_held (we_stale we i) (dr_id r) \<and> active_expired (pe_env (we_stale we i)) r"
  shows "sweep_step we x (rows_gone gone x)"
  by (rule stale_gone [of "we_stale we i"]) (use assms in \<open>force simp: active_expired_def draft_retention_days_def\<close>)+

lemma swept_discarded_page:
  assumes "among_runs we" "swept we db (snd s)"
  shows "swept we db (snd (snd (delete_page discarded_expired order limit (we_discarded we i) s)))"
  by (rule swept_delete_page [OF assms(1) page_of(2) assms(2)]) (erule discarded_steps)

lemma swept_stale_page:
  assumes "among_runs we" "swept we db (snd s)"
  shows "swept we db (snd (snd (delete_page active_expired order limit (we_stale we i) s)))"
  by (rule swept_delete_page [OF assms(1) page_of(3) assms(2)]) (erule stale_steps)

lemma swept_settle_phase:
  assumes "tables_ok db" "among_runs we" "drain_pages (settle_page limit) limit (we_settle we) pages 0 ((0, 0), db) = (a, c, x)"
  shows "swept we db x"
proof -
  have "swept we db (snd (snd (drain_pages (settle_page limit) limit (we_settle we) pages 0 ((0, 0), db))))"
    by (rule drain_keeps) (simp_all add: swept_settle_page [OF assms(2)] swept_def [of we db db] assms(1))
  then show ?thesis by (simp add: assms(3))
qed

lemma swept_discarded_phase:
  assumes "swept we db x" "among_runs we"
    "drain_pages (delete_page discarded_expired discarded_order limit) limit (we_discarded we) pages 0 ((), x) = (a, c, y)"
  shows "swept we db y"
proof -
  have "swept we db (snd (snd (drain_pages (delete_page discarded_expired discarded_order limit) limit (we_discarded we) pages 0 ((), x))))"
    by (rule drain_keeps) (simp_all add: swept_discarded_page [OF assms(2)] assms(1))
  then show ?thesis by (simp add: assms(3))
qed

lemma swept_stale_phase:
  assumes "swept we db x" "among_runs we"
    "drain_pages (delete_page active_expired dr_updated_at limit) limit (we_stale we) pages 0 ((), x) = (a, c, y)"
  shows "swept we db y"
proof -
  have "swept we db (snd (snd (drain_pages (delete_page active_expired dr_updated_at limit) limit (we_stale we) pages 0 ((), x))))"
    by (rule drain_keeps) (simp_all add: swept_stale_page [OF assms(2)] assms(1))
  then show ?thesis by (simp add: assms(3))
qed

lemma sweep_swept:
  assumes "tables_ok db" "among_runs we"
  shows "swept we db (snd (sweep_elench_drafts limit pages we db))"
proof -
  obtain a1 c1 db1 where p1: "drain_pages (settle_page limit) limit (we_settle we) pages 0 ((0, 0), db) = (a1, c1, db1)"
    by (metis prod.collapse)
  obtain a2 u2 db2 where p2: "drain_pages (delete_page discarded_expired discarded_order limit) limit (we_discarded we) pages 0 ((), db1) = (a2, u2, db2)"
    by (metis prod.collapse)
  obtain a3 u3 db3 where p3: "drain_pages (delete_page active_expired dr_updated_at limit) limit (we_stale we) pages 0 ((), db2) = (a3, u3, db3)"
    by (metis prod.collapse)
  have "swept we db db2" by (rule swept_discarded_phase [OF swept_settle_phase [OF assms p1] assms(2) p2])
  then have "swept we db db3" by (rule swept_stale_phase [OF _ assms(2) p3])
  then show ?thesis using p1 p2 p3 by (simp add: sweep_elench_drafts_def case_prod_unfold Let_def)
qed

section \<open>A row the others leave alone\<close>

text \<open>A commit that touches neither the row nor the thread of its conversation.\<close>

definition leaves_alone :: "draft_row \<Rightarrow> (server_db \<Rightarrow> server_db) \<Rightarrow> bool" where
  "leaves_alone r f \<longleftrightarrow> (\<forall>x.
     filter (\<lambda>q. dr_id q = dr_id r) (sv_drafts (f x)) = filter (\<lambda>q. dr_id q = dr_id r) (sv_drafts x) \<and>
     filter (\<lambda>t. tr_id t = dr_conversation r) (sv_threads (f x)) = filter (\<lambda>t. tr_id t = dr_conversation r) (sv_threads x))"

definition hands_back :: "sweep_env set \<Rightarrow> server_db \<Rightarrow> draft_row \<Rightarrow> server_db \<Rightarrow> bool" where
  "hands_back es db r x \<longleftrightarrow> tables_ok x \<and>
     filter (\<lambda>t. tr_id t = dr_conversation r) (sv_threads x) = filter (\<lambda>t. tr_id t = dr_conversation r) (sv_threads db) \<and>
     (\<exists>r'\<in>set (sv_drafts x). handed_back es db r r')"

lemma find_filter: "List.find (\<lambda>t. Q t \<and> P t) xs = List.find P (filter Q xs)"
  by (induction xs) auto

lemma claim_stored_threads:
  "filter (\<lambda>t. tr_id t = dr_conversation r) (sv_threads x) = filter (\<lambda>t. tr_id t = dr_conversation r) (sv_threads db) \<Longrightarrow>
   claim_stored a r x = claim_stored a r db"
  by (simp add: claim_stored_def stored_turn_def find_filter [where Q = "\<lambda>t. tr_id t = dr_conversation r"] split: option.split)

lemma settled_hands_back:
  assumes "hands_back es db r x" "dr_status r = RowSending" "e \<in> es"
    and "q \<in> set (sv_drafts x)" "dr_status q = RowSending" "handed_back {e} x q q'"
  shows "hands_back es db r (put_row q' x)"
proof -
  have ok: "tables_ok x" using assms(1) by (simp add: hands_back_def)
  obtain r' where r': "r' \<in> set (sv_drafts x)" "handed_back es db r r'" using assms(1) by (auto simp: hands_back_def)
  have ids: "dr_id q' = dr_id q" "dr_id r' = dr_id r" using assms(6) r'(2) by (simp_all add: handed_back_def)
  have "row_name q' = row_name q \<and> row_ok q'"
    using assms(6) rows_ok [OF ok assms(4)] ended_ok ended_name unfolding handed_back_def by blast
  then have "tables_ok (put_row q' x)" using put_keeps_ok [OF ok assms(4)] by blast
  moreover have "\<exists>r'\<in>set (sv_drafts (put_row q' x)). handed_back es db r r'"
  proof (cases "q = r'")
    case True
    then have "r' = r" using handed_back_sending [OF r'(2)] assms(5) by simp
    then have "q = r" using True by simp
    moreover have "claim_stored a r x = claim_stored a r db" for a
      using assms(1) by (intro claim_stored_threads) (simp add: hands_back_def)
    ultimately have "handed_back es db r q'" using assms(3,6) unfolding handed_back_def by auto
    then show ?thesis using put_row_in [OF assms(4) ids(1)] by blast
  next
    case False
    then have "dr_id r' \<noteq> dr_id q'" using row_by_id [OF ok r'(1) assms(4)] ids(1) by metis
    then show ?thesis using r' by (auto simp: set_put_row)
  qed
  ultimately show ?thesis using assms(1) by (simp add: hands_back_def)
qed

lemma gone_hands_back:
  "hands_back es db r x \<Longrightarrow> (\<And>r'. handed_back es db r r' \<Longrightarrow> \<not> gone r') \<Longrightarrow> hands_back es db r (rows_gone gone x)"
  using gone_ok [of x gone] by (auto simp: hands_back_def rows_gone_def)

text \<open>The clock of no stale page runs a whole retention window ahead of the clock of a settle page.\<close>

definition clocks_close :: "sweep_envs \<Rightarrow> bool" where
  "clocks_close we \<longleftrightarrow> (\<forall>i j. se_now (pe_env (we_stale we i)) < se_now (pe_env (we_settle we j)) + 30 * 86400000)"

lemma step_hands_back:
  assumes "sweep_step we x y" "hands_back (range (we_settle we)) db r x" "dr_status r = RowSending"
    and "among_runs we" "\<And>e. e \<in> sweep_pages we \<Longrightarrow> leaves_alone r (pe_others e)" "clocks_close we"
  shows "hands_back (range (we_settle we)) db r y"
  using assms(1)
proof cases
  case (others_commit e)
  obtain r' where r': "r' \<in> set (sv_drafts x)" "handed_back (range (we_settle we)) db r r'"
    using assms(2) by (auto simp: hands_back_def)
  have f: "filter (\<lambda>q. dr_id q = dr_id r) (sv_drafts y) = filter (\<lambda>q. dr_id q = dr_id r) (sv_drafts x)"
    "filter (\<lambda>t. tr_id t = dr_conversation r) (sv_threads y) = filter (\<lambda>t. tr_id t = dr_conversation r) (sv_threads x)"
    using assms(5) [OF others_commit(2)] others_commit(1) by (simp_all add: leaves_alone_def)
  have "r' \<in> set (filter (\<lambda>q. dr_id q = dr_id r) (sv_drafts x))" using r' by (simp add: handed_back_def)
  then have "r' \<in> set (sv_drafts y)" unfolding f(1) [symmetric] by simp
  moreover have "tables_ok y" using others_ok [OF assms(4) others_commit(2)] assms(2) others_commit(1) by (simp add: hands_back_def)
  ultimately show ?thesis using assms(2) f(2) r'(2) by (auto simp: hands_back_def)
next
  case (claim_settled e q q')
  then show ?thesis using settled_hands_back [OF assms(2,3)] by blast
next
  case (discarded_gone e gone)
  have "\<not> gone r'" if "handed_back (range (we_settle we)) db r r'" for r'
    using handed_back_status(1) [OF that assms(3)] discarded_gone(3) by blast
  then show ?thesis unfolding discarded_gone(1) by (rule gone_hands_back [OF assms(2)])
next
  case (stale_gone e gone)
  have "\<not> gone r'" if h: "handed_back (range (we_settle we)) db r r'" for r'
  proof
    assume g: "gone r'"
    then have "dr_status r' = RowActive" "dr_updated_at r' + 30 * 86400000 \<le> se_now (pe_env e)" using stale_gone(3) by blast+
    moreover obtain i where "e = we_stale we i" using stale_gone(2) by blast
    moreover obtain j where "dr_updated_at r' = se_now (pe_env (we_settle we j))"
      using handed_back_status(2) [OF h assms(3)] calculation(1) by blast
    ultimately show False using assms(6) unfolding clocks_close_def by (metis not_less)
  qed
  then show ?thesis unfolding stale_gone(1) by (rule gone_hands_back [OF assms(2)])
qed

lemma steps_hand_back:
  assumes "(sweep_step we)\<^sup>*\<^sup>* db y" "tables_ok db" "r \<in> set (sv_drafts db)" "dr_status r = RowSending"
    and "among_runs we" "\<And>e. e \<in> sweep_pages we \<Longrightarrow> leaves_alone r (pe_others e)" "clocks_close we"
  shows "hands_back (range (we_settle we)) db r y"
  using assms(1)
proof (induction rule: rtranclp_induct)
  case base
  show ?case using assms(2,3) by (auto simp: hands_back_def handed_back_def)
next
  case (step x y)
  show ?case by (rule step_hands_back [OF step.hyps(2) step.IH assms(4-7)])
qed

section \<open>The bound of a run\<close>

lemma settled_count:
  "fst (fst (settle_listed_ids e ids c x)) + snd (fst (settle_listed_ids e ids c x)) \<le> fst c + snd c + length ids"
proof (induction ids arbitrary: c x)
  case (Cons i ids)
  obtain settled failed where c: "c = (settled, failed)" by fastforce
  obtain b x' where s: "settle_one e i (pe_others e x) = (b, x')" by fastforce
  show ?case
  proof (cases b)
    case None
    then show ?thesis using Cons.IH [of "(settled, failed + 1)" x'] c s by simp
  next
    case (Some d)
    then show ?thesis using Cons.IH [of "(settled + 1, failed)" x'] Cons.IH [of "(settled, failed)" x'] c s by (cases d) simp_all
  qed
qed simp

lemma settle_page_bounded: "settle_page limit e s = (Inr n, s') \<Longrightarrow> n \<le> limit"
  using settled_count [of e "settle_candidates limit (snd s)" "(0, 0)" "snd s"]
  by (auto simp: settle_page_def settle_candidates_def case_prod_unfold split: option.splits)

lemma delete_phase_bounded:
  assumes "\<And>i x. tables_ok x \<Longrightarrow> tables_ok (pe_others (es i) x)" "tables_ok (snd s)"
    "drain_pages (delete_page expired order limit) limit es k 0 s = (Inr n, s')"
  shows "n \<le> limit * k"
proof -
  have "n \<le> limit" if "tables_ok x" "delete_page expired order limit (es i) (c, x) = (Inr n, s')" for i c x n s'
    by (rule page_bounded [OF that(2)]) (use assms(1) [OF that(1), of i] in \<open>simp add: tables_ok_def\<close>)
  moreover have "tables_ok (snd (snd (delete_page expired order limit (es i) (c, x))))" if "tables_ok x" for i c x
    by (rule delete_page_gone [of expired order limit "es i" "(c, x)"]) (simp_all add: that gone_ok assms(1))
  ultimately have "n \<le> 0 + limit * k"
    by (intro drain_bounded [where Q = tables_ok, OF _ _ assms(2,3)]) auto
  then show ?thesis by simp
qed

lemma run_phase_le: "(\<And>n. answer = Inr n \<Longrightarrow> n \<le> b) \<Longrightarrow> fst (run_phase phase answer fs) \<le> b"
  by (cases answer) (auto simp: run_phase_def)

theorem sweep_within_bounds:
  assumes "tables_ok db" "among_runs we" "sweep_elench_drafts limit pages we db = (Inr res, db')"
  shows "sp_discarded res \<le> limit * pages \<and> sp_stale res \<le> limit * pages"
proof -
  obtain a1 c1 db1 where p1: "drain_pages (settle_page limit) limit (we_settle we) pages 0 ((0, 0), db) = (a1, c1, db1)"
    by (metis prod.collapse)
  obtain a2 u2 db2 where p2: "drain_pages (delete_page discarded_expired discarded_order limit) limit (we_discarded we) pages 0 ((), db1) = (a2, u2, db2)"
    by (metis prod.collapse)
  obtain a3 u3 db3 where p3: "drain_pages (delete_page active_expired dr_updated_at limit) limit (we_stale we) pages 0 ((), db2) = (a3, u3, db3)"
    by (metis prod.collapse)
  have s1: "swept we db db1" by (rule swept_settle_phase [OF assms(1,2) p1])
  have ok: "tables_ok db1" "tables_ok db2" using s1 swept_discarded_phase [OF s1 assms(2) p2] by (simp_all add: swept_def)
  have ot: "tables_ok (pe_others (we_discarded we i) x)" "tables_ok (pe_others (we_stale we i) x)" if "tables_ok x" for i x
    using others_ok [OF assms(2) _ that] by simp_all
  have "fst (run_phase ''discarded'' a2 fs) \<le> limit * pages" for fs
    by (rule run_phase_le) (use delete_phase_bounded [OF ot(1), of "((), db1)"] ok p2 in auto)
  moreover have "fst (run_phase ''stale'' a3 fs) \<le> limit * pages" for fs
    by (rule run_phase_le) (use delete_phase_bounded [OF ot(2), of "((), db2)"] ok p3 in auto)
  ultimately show ?thesis using assms(3) p1 p2 p3
    by (auto simp: sweep_elench_drafts_def case_prod_unfold Let_def split: if_splits)
qed

section \<open>Claims through a sweep\<close>

text \<open>
  C40. A sweep never deletes a draft that is being sent, whatever others do. Whatever the server commits
  between its statements (calls, deletes of conversations, writes of threads, other sweeps), a sweep goes
  from the tables it found to those it leaves by steps that are each one of: such commits; one unheld
  row's silent claim handed back, with its words unless the thread then stores its later turn with them;
  unheld rows deleted that were discarded 24 hours before the page's clock; unheld active rows deleted that
  were last written 30 days before it. So a draft being sent when the sweep starts, if the others commit
  nothing to it or to its conversation's thread and no stale page's clock is a retention window ahead of
  a settle page's, is there afterwards: as it was, or handed back.
\<close>

theorem sweep_hands_back:
  assumes "tables_ok db" "among_runs we"
  shows "(sweep_step we)\<^sup>*\<^sup>* db (snd (sweep_elench_drafts limit pages we db)) \<and>
    (clocks_close we \<and> r \<in> set (sv_drafts db) \<and> dr_status r = RowSending \<and> (\<forall>e\<in>sweep_pages we. leaves_alone r (pe_others e)) \<longrightarrow>
     (\<exists>r'\<in>set (sv_drafts (snd (sweep_elench_drafts limit pages we db))). handed_back (range (we_settle we)) db r r'))"
  using sweep_swept [OF assms, of limit pages] steps_hand_back [OF _ assms(1) _ _ assms(2)]
  by (auto simp: swept_def hands_back_def)

text \<open>Between the statements of this sweep somebody else's thread is written.\<close>

definition other_thread :: thread_row where
  "other_thread = \<lparr>tr_id = ''other'', tr_user = ''u2'', tr_org = None, tr_project = None, tr_agent = True, tr_deleted = False,
     tr_title = [], tr_messages = [], tr_thread_revision = 1\<rparr>"

definition sample_sweep_page :: "int \<Rightarrow> sweep_env" where
  "sample_sweep_page t = \<lparr>pe_env = sample_env t, pe_held = (\<lambda>_. False), pe_bad = (\<lambda>_. False), pe_throws = None,
     pe_others = server_run [StepThread other_thread]\<rparr>"

definition sample_sweep :: sweep_envs where
  "sample_sweep = \<lparr>we_settle = (\<lambda>_. sample_sweep_page 130000), we_discarded = (\<lambda>_. sample_sweep_page 130001),
     we_stale = (\<lambda>_. sample_sweep_page 130002)\<rparr>"

lemma sample_sweep_pages: "e \<in> sweep_pages sample_sweep \<Longrightarrow> pe_others e = server_run [StepThread other_thread]"
  by (auto simp: sweep_pages_def sample_sweep_def sample_sweep_page_def)

lemma sample_sweep_among: "among_runs sample_sweep"
  using sample_sweep_pages by (auto simp: among_runs_def)

lemma store_thread_elsewhere:
  "sv_drafts (store_thread t x) = sv_drafts x"
  "tr_id t \<noteq> c \<Longrightarrow> filter (\<lambda>q. tr_id q = c) (sv_threads (store_thread t x)) = filter (\<lambda>q. tr_id q = c) (sv_threads x)"
proof -
  have "tr_id t \<noteq> c \<Longrightarrow> filter (\<lambda>q. tr_id q = c) (map (\<lambda>y. if tr_id y = tr_id t then t else y) ts) = filter (\<lambda>q. tr_id q = c) ts" for ts
    by (induction ts) auto
  then show "sv_drafts (store_thread t x) = sv_drafts x"
    "tr_id t \<noteq> c \<Longrightarrow> filter (\<lambda>q. tr_id q = c) (sv_threads (store_thread t x)) = filter (\<lambda>q. tr_id q = c) (sv_threads x)"
    by (simp_all add: store_thread_def)
qed

lemma sample_sweep_alone: "leaves_alone sending_row (server_run [StepThread other_thread])"
proof -
  have "tr_id other_thread \<noteq> dr_conversation sending_row" by (simp add: other_thread_def sample_defs new_draft_row_def)
  then show ?thesis by (simp add: leaves_alone_def server_run_def store_thread_elsewhere)
qed

theorem sweep_hands_back_witness:
  "(sweep_step sample_sweep)\<^sup>*\<^sup>* (one_draft sending_row) (snd (sweep_elench_drafts 500 20 sample_sweep (one_draft sending_row))) \<and>
   (\<exists>r'\<in>set (sv_drafts (snd (sweep_elench_drafts 500 20 sample_sweep (one_draft sending_row)))).
      handed_back (range (we_settle sample_sweep)) (one_draft sending_row) sending_row r')"
proof -
  have "tables_ok (one_draft sending_row)" by simp
  moreover have "clocks_close sample_sweep"
    by (simp add: clocks_close_def sample_sweep_def sample_sweep_page_def sample_env_def)
  ultimately show ?thesis
    using sweep_hands_back [OF _ sample_sweep_among, of "one_draft sending_row" 500 20 sending_row]
      sample_sweep_pages sample_sweep_alone by simp
qed

end
