(* ===== verification/Spec2Isabelle.thy ===== *)
theory Spec2Isabelle
  imports Hold_Sweep Fleet_Controller Draft_Page_Runs Net_Fetch Serve_Laws Serve_Sweep_Laws
begin

text \<open>
  A verification library for Alethia's console (src/apps/console): the parts of it whose mistakes cost
  money, words or machines. Every definition is translated from the TypeScript source and executable;
  what the source calls but does not hold (Stripe, the database server, a cloud, the browser) is an
  argument of the definitions.

  \<^bold>\<open>Payment holds\<close> (lib/billing/payment-holds). A hold is a row that keeps a subscription whose first
  payment may still land after its purchase was given up. Hold_Schema has the row and its constraints
  (schema), Hold_Observe reads Stripe twice and classifies (observe.ts), Hold_Store has every statement
  on the rows, fenced by version and lease (store.ts, purchase-lease), Hold_Machine the transition table
  (machine.ts: decide), Hold_Advance one call of advanceHold, Hold_World the store shared with other
  callers that run between any two of its steps, Hold_Moved the opening, operator and moved-release
  decisions, Hold_Sweep the sweeper's alerts, relinks and tick. Hold_Store_Laws proves the table's
  constraints and the exclusion of writes, Hold_Advance_Laws the order and justification of every
  Stripe write of a call and that it ends (five reads, the code's \<open>max_reads\<close>, suffice),
  Hold_Contract states what one step may do to the store as a locale, interpreted in Hold_World.

  \<^bold>\<open>Fleet\<close> (lib/fleet). Fleet_Plan is the pure planner (plan.ts) with its safety, capacity and
  convergence properties, a pool's teardown included; Fleet_Controller is reconcilePool and reconcileAll over any provider
  (controller.ts) and the in-memory provider of the tests.

  \<^bold>\<open>Elench drafts\<close> (lib/stores/elench-drafts, lib/elench). Draft_Content has the content schema and
  the composer's normalization over UTF-16 code units, Draft_Credential the credential patterns,
  Draft_State and Draft_Send_State the data, Draft_Drafting and Draft_Sending the two halves of the
  per-key reducer, Draft_Store their composition, the forks and the store. The laws: Draft_Frames and
  Draft_Steps say what each helper leaves alone (the locale \<open>entry_order\<close>, interpreted twice in
  Draft_Epoch); Draft_Epoch that stale edits are dropped; Draft_Words which events alone may drop words;
  Draft_Sends that what is sent was asked for; Draft_Wire that one write is on the wire at a time;
  Draft_Runs that the store stays well formed and keeps words over forks.

  \<^bold>\<open>The tab around the reducer\<close> (store.ts, queue.ts, cache.ts, heartbeat.ts, selectors.ts). Draft_Queue
  is the per-key write queue over lanes with identity, refined to an abstract wire of one request per key;
  Draft_Cache the sessionStorage items over a browser in which any access may throw, JSON as a parameter and
  the schema an item is read with as a definition; Draft_Beats the
  heartbeat timers; Draft_Page the handle that runs every effect, with the events of a tab as a datatype.
  Draft_Calm proves two facts of every reduction the handle relies on: no effect is due at once (so a
  dispatch never dispatches again, and the fuel 1 of \<open>dispatch\<close> is enough: \<open>dispatch_never_nests\<close>), and words
  that stop being unacknowledged leave the cache. Draft_Page_Laws has what one effect, one sync and the
  queue keep, Draft_Page_Runs what every run keeps, from the fresh handle on, and
  exactly which unsaved words a reload hands back: those whose item passes the schema it is read with.

  \<^bold>\<open>The server behind the drafts\<close> (app/server/actions/elench-drafts.ts, lib/elench/draft-claims.ts,
  draft-gate.ts, drafts-sweep.ts, the heartbeat's route, deleteThread). Serve_Rows has the two tables as lists
  of rows and the reads all actions share, Serve_Claims a claim and its lease, Serve_Gate the preamble with
  every throw as a refusal, Serve_Actions the actions on one row, Serve_Starts the first send, the count and
  the delete, Serve_Sweep the retention sweep in pages (500 rows, 20 pages, the code's bounds). Serve_Moves is
  the abstract machine: the moves of one row, of the tables and of a transaction; Serve_Refines proves every
  action a path of it, Serve_Runs does so for every call behind its gate and defines a run of the server:
  calls with the commits of others they admit, deletes, other writers of threads, pages of the sweep.
  Serve_Laws proves what holds of every run and Serve_Sweep_Laws that a sweep, among any commits of others, is a
  path of single steps none of which deletes a draft being sent; the locale \<open>kept_by_moves\<close> carries a relation
  from the moves to the paths and is interpreted for the rows of others and for revisions. Serve_Samples is
  the concrete server of the witnesses.

  \<^bold>\<open>Outbound guard\<close> (lib/net/ssrf-guard.ts). Net_Address reads literals as Node does and classifies
  bytes, Net_Literals proves that a text reads exactly if it is a literal, Net_Classify compares the
  classifier with the special-purpose registry as number intervals, Net_Fetch is safeFetch's redirect
  loop over any resolver and fetch (the hops the redirect limit leaves are its measure).

  \<^bold>\<open>Not modelled.\<close> React components, API routes, the large server actions, the chat agent, cloud
  SDKs, generated catalogs, migrations, the Go command line and the repository scripts: they are I/O,
  presentation or another language. Of the drafts' server, the size of a row's text and the 32-bit bound of a
  revision are left to the schemas, and a transaction reads one snapshot but for the commits named above. The
  hold sweeper's selection loop and the waiting loop of the purchase lease are not modelled.
\<close>

end
